(* ===== verification/Sgl_Prelude.thy ===== *)
theory Sgl_Prelude
  imports Main "HOL-Library.Word" "HOL-Library.AList" "HOL-Library.Multiset"
begin

text \<open>
  Shared vocabulary of the development: the machine integers of the Rust sources, the outcome of
  a fallible Rust function (a value, an error value, or a panic), the checked and saturating
  arithmetic of the standard library, and the generic facts on lists and association lists that the
  component theories use.

  \<^item> \<open>usize\<close> is \<^typ>\<open>nat\<close>; the 64 bit bound is written out (\<open>checked_mul\<close>, \<open>checked_add\<close>,
    \<open>usize_max\<close>) where the sources test for overflow.
  \<^item> \<open>u32\<close>, \<open>u64\<close>, \<open>u8\<close> are words.
  \<^item> A \<open>HashMap\<close> is an association list updated with \<open>AList.update\<close> and \<open>AList.delete\<close>, so that
    the model stays executable; every property is stated through \<open>map_of\<close>, which does not see
    the iteration order.
\<close>

section \<open>Machine integers\<close>

type_synonym u8 = "8 word"
type_synonym u32 = "32 word"
type_synonym u64 = "64 word"
type_synonym usize = nat

definition usize_max :: usize where
  "usize_max = 2 ^ 64 - 1"

definition checked_mul :: "usize \<Rightarrow> usize \<Rightarrow> usize option" where
  "checked_mul a b = (if a * b < 2 ^ 64 then Some (a * b) else None)"

definition checked_add :: "usize \<Rightarrow> usize \<Rightarrow> usize option" where
  "checked_add a b = (if a + b < 2 ^ 64 then Some (a + b) else None)"

definition div_ceil :: "usize \<Rightarrow> usize \<Rightarrow> usize" where
  "div_ceil a b = (if a mod b = 0 then a div b else a div b + 1)"

definition is_multiple_of :: "usize \<Rightarrow> usize \<Rightarrow> bool" where
  "is_multiple_of a b = (if b = 0 then a = 0 else a mod b = 0)"

text \<open>Decimal output of an unsigned integer (\<open>Display\<close>).\<close>

fun show_usize :: "usize \<Rightarrow> string" where
  "show_usize n =
     (if n < 10 then [char_of (48 + n)] else show_usize (n div 10) @ [char_of (48 + n mod 10)])"

declare show_usize.simps [simp del]

section \<open>Outcomes\<close>

datatype ('e, 'a) outcome = Ok 'a | Err 'e | Panic

definition ok_or :: "'e \<Rightarrow> 'a option \<Rightarrow> ('e, 'a) outcome" where
  "ok_or e x = (case x of None \<Rightarrow> Err e | Some a \<Rightarrow> Ok a)"

fun and_then :: "('e, 'a) outcome \<Rightarrow> ('a \<Rightarrow> ('e, 'b) outcome) \<Rightarrow> ('e, 'b) outcome" where
  "and_then (Ok a) f = f a"
| "and_then (Err e) f = Err e"
| "and_then Panic f = Panic"

fun map_err :: "('e \<Rightarrow> 'f) \<Rightarrow> ('e, 'a) outcome \<Rightarrow> ('f, 'a) outcome" where
  "map_err f (Ok a) = Ok a"
| "map_err f (Err e) = Err (f e)"
| "map_err f Panic = Panic"

named_theorems outcome_simps

lemma ok_or_simps [simp]: "ok_or e None = Err e" "ok_or e (Some a) = Ok a"
  by (simp_all add: ok_or_def)

lemma ok_or_Ok [outcome_simps]: "ok_or e x = Ok a \<longleftrightarrow> x = Some a"
  by (cases x) simp_all

lemma ok_or_Err [outcome_simps]: "ok_or e x = Err e' \<longleftrightarrow> x = None \<and> e' = e"
  by (cases x) auto

lemma ok_or_not_Panic [simp]: "ok_or e x \<noteq> Panic"
  by (cases x) simp_all

lemma and_then_Ok [outcome_simps]: "and_then m f = Ok b \<longleftrightarrow> (\<exists>a. m = Ok a \<and> f a = Ok b)"
  by (cases m) simp_all

lemma and_then_Err [outcome_simps]:
  "and_then m f = Err e \<longleftrightarrow> m = Err e \<or> (\<exists>a. m = Ok a \<and> f a = Err e)"
  by (cases m) auto

lemma and_then_Panic [outcome_simps]:
  "and_then m f = Panic \<longleftrightarrow> m = Panic \<or> (\<exists>a. m = Ok a \<and> f a = Panic)"
  by (cases m) auto

text \<open>\<open>collect\<close> into a \<open>Result\<close>: the first failure ends the iteration.\<close>

fun try_collect :: "('a \<Rightarrow> ('e, 'b) outcome) \<Rightarrow> 'a list \<Rightarrow> ('e, 'b list) outcome" where
  "try_collect f [] = Ok []"
| "try_collect f (x # xs) = and_then (f x) (\<lambda>y. and_then (try_collect f xs) (\<lambda>ys. Ok (y # ys)))"

lemma try_collect_map:
  "(\<And>x. x \<in> set xs \<Longrightarrow> f (g x) = Ok x) \<Longrightarrow> try_collect f (map g xs) = Ok xs"
  by (induction xs) simp_all

section \<open>Arithmetic\<close>

lemma checked_mul_Some [simp]: "checked_mul a b = Some c \<longleftrightarrow> c = a * b \<and> a * b < 2 ^ 64"
  by (auto simp: checked_mul_def)

lemma checked_mul_None [simp]: "checked_mul a b = None \<longleftrightarrow> 2 ^ 64 \<le> a * b"
  by (auto simp: checked_mul_def)

lemma checked_add_Some [simp]: "checked_add a b = Some c \<longleftrightarrow> c = a + b \<and> a + b < 2 ^ 64"
  by (auto simp: checked_add_def)

lemma checked_add_None [simp]: "checked_add a b = None \<longleftrightarrow> 2 ^ 64 \<le> a + b"
  by (auto simp: checked_add_def)

lemma is_multiple_of_dvd [simp]: "is_multiple_of a b \<longleftrightarrow> b dvd a"
  by (auto simp: is_multiple_of_def)

lemma div_ceil_0 [simp]: "div_ceil 0 b = 0"
  by (simp add: div_ceil_def)

lemma div_ceil_step:
  assumes "0 < b" and "0 < a"
  shows "div_ceil a b = Suc (div_ceil (a - min a b) b)"
proof (cases "a \<le> b")
  case True
  with assms show ?thesis
    by (cases "a = b") (auto simp: div_ceil_def)
next
  case False
  then have "b \<le> a" by simp
  with assms(1) have "a mod b = (a - b) mod b" and "a div b = Suc ((a - b) div b)"
    by (simp_all add: le_mod_geq le_div_geq)
  with False show ?thesis by (simp add: div_ceil_def)
qed

lemma div_ceil_le_iff:
  assumes "0 < b"
  shows "div_ceil a b \<le> k \<longleftrightarrow> a \<le> k * b"
proof -
  have split: "a = a div b * b + a mod b" by simp
  have r: "a mod b < b" using assms by simp
  show ?thesis
  proof (cases "a mod b = 0")
    case True
    with split have a: "a = a div b * b" by simp
    have "a div b \<le> k \<longleftrightarrow> a div b * b \<le> k * b" using assms by simp
    with True a show ?thesis by (simp add: div_ceil_def)
  next
    case False
    have "a div b + 1 \<le> k \<longleftrightarrow> a \<le> k * b"
    proof
      assume "a div b + 1 \<le> k"
      then have "(a div b + 1) * b \<le> k * b" by (rule mult_le_mono1)
      moreover have "a < (a div b + 1) * b" using split r by (simp only: distrib_right)
      ultimately show "a \<le> k * b" by linarith
    next
      assume "a \<le> k * b"
      with split False have "a div b * b < k * b" by linarith
      then show "a div b + 1 \<le> k" by simp
    qed
    with False show ?thesis by (simp add: div_ceil_def)
  qed
qed

section \<open>Lists\<close>

lemma distinct_take_drop_disjoint:
  "distinct xs \<Longrightarrow> set (take n xs) \<inter> set (drop n xs) = {}"
  by (metis append_take_drop_id distinct_append)

lemma last_conv_nth_length: "xs \<noteq> [] \<Longrightarrow> last xs = xs ! (length xs - 1)"
  by (rule last_conv_nth)

section \<open>Hash tables\<close>

text \<open>An iteration order of a hash table lists every key exactly once, in an unspecified order.\<close>

definition hash_order :: "('a list \<Rightarrow> 'a list) \<Rightarrow> bool" where
  "hash_order ord \<longleftrightarrow> (\<forall>xs. mset (ord xs) = mset xs)"

lemma hash_order_set: "hash_order ord \<Longrightarrow> set (ord xs) = set xs"
  unfolding hash_order_def by (metis set_mset_mset)

lemma hash_order_hd: "hash_order ord \<Longrightarrow> xs \<noteq> [] \<Longrightarrow> hd (ord xs) \<in> set xs"
  using hash_order_set [of ord xs] by (metis hd_in_set set_empty)

lemma hash_order_examples: "hash_order id" "hash_order rev"
  by (simp_all add: hash_order_def)

end
