(* ===== verification/Page_Allocator.thy ===== *)
theory Page_Allocator
  imports Sgl_Prelude
begin

text \<open>
  The KV page allocator of \<open>crates/sglang-srt/src/cache.rs\<close>: \<open>CachePageId\<close> (a token slot),
  \<open>CacheAllocationError\<close> and \<open>CachePageAllocator\<close> with its constructor, allocation, release and
  reset.  The assertion \<open>page_size > 0\<close> of \<open>page_index\<close> and \<open>slot_index_in_page\<close> is part of the
  invariant \<open>alloc_inv\<close>, which the only constructor establishes and every operation keeps; the
  \<open>expect\<close> of the allocation loop is the outcome \<open>Panic\<close>, shown to be impossible.
\<close>

section \<open>Definitions\<close>

type_synonym cache_page_id = usize

definition page_index :: "cache_page_id \<Rightarrow> usize \<Rightarrow> usize" where
  "page_index slot ps = slot div ps"

definition slot_index_in_page :: "cache_page_id \<Rightarrow> usize \<Rightarrow> usize" where
  "slot_index_in_page slot ps = slot mod ps"

datatype cache_allocation_error =
    ZeroPageSize
  | ZeroSlotCapacity
  | SlotCapacityNotPageAligned usize usize
  | OutOfSlots (requested: usize) (available: usize)

record page_allocator =
  slot_capacity :: usize
  page_size :: usize
  free_page_indices :: "usize list"
  allocated_page_indices :: "usize set"

definition with_page_size ::
  "usize \<Rightarrow> usize \<Rightarrow> (cache_allocation_error, page_allocator) outcome" where
  "with_page_size cap ps =
     (if ps = 0 then Err ZeroPageSize
      else if cap = 0 then Err ZeroSlotCapacity
      else if \<not> is_multiple_of cap ps then Err (SlotCapacityNotPageAligned cap ps)
      else Ok \<lparr> slot_capacity = cap, page_size = ps,
                free_page_indices = [0 ..< cap div ps],
                allocated_page_indices = {} \<rparr>)"

text \<open>\<open>CachePageAllocator::new\<close> unwraps the result with \<open>expect\<close>.\<close>

definition alloc_new :: "usize \<Rightarrow> (cache_allocation_error, page_allocator) outcome" where
  "alloc_new cap = (case with_page_size cap 1 of Ok a \<Rightarrow> Ok a | Err e \<Rightarrow> Panic | Panic \<Rightarrow> Panic)"

definition available_pages :: "page_allocator \<Rightarrow> usize" where
  "available_pages a = length (free_page_indices a)"

definition available_slots :: "page_allocator \<Rightarrow> usize" where
  "available_slots a = length (free_page_indices a) * page_size a"

text \<open>The loop over the \<open>required_page_count\<close> pages taken from the front of the free list.\<close>

fun take_new_pages ::
  "usize \<Rightarrow> nat \<Rightarrow> usize \<Rightarrow> usize list \<Rightarrow> usize set \<Rightarrow>
   (cache_page_id list \<times> usize list \<times> usize set) option" where
  "take_new_pages ps 0 remaining free allocated = Some ([], free, allocated)"
| "take_new_pages ps (Suc k) remaining [] allocated = None"
| "take_new_pages ps (Suc k) remaining (p # free) allocated =
     (let slots_in_page = min remaining ps;
          first_slot = p * ps
      in case take_new_pages ps k (remaining - slots_in_page) free (insert p allocated) of
           None \<Rightarrow> None
         | Some (slots, free', allocated') \<Rightarrow>
             Some ([first_slot ..< first_slot + slots_in_page] @ slots, free', allocated'))"

definition reusable_tail_slots :: "page_allocator \<Rightarrow> cache_page_id list \<Rightarrow> usize \<Rightarrow> usize" where
  "reusable_tail_slots a sequence slot_count =
     min (if sequence \<noteq> [] \<and> page_index (last sequence) (page_size a) \<in> allocated_page_indices a
          then page_size a - slot_index_in_page (last sequence) (page_size a) - 1
          else 0) slot_count"

definition allocate_for_sequence ::
  "page_allocator \<Rightarrow> cache_page_id list \<Rightarrow> usize \<Rightarrow>
   (cache_allocation_error, cache_page_id list \<times> page_allocator) outcome" where
  "allocate_for_sequence a sequence slot_count =
     (if slot_count = 0 then Ok ([], a)
      else
        let tail = reusable_tail_slots a sequence slot_count;
            new_slot_count = slot_count - tail;
            required_page_count = div_ceil new_slot_count (page_size a)
        in if required_page_count > length (free_page_indices a)
           then Err (OutOfSlots slot_count (tail + available_slots a))
           else
             let tail_slots =
                   (if tail > 0 then [last sequence + 1 ..< last sequence + 1 + tail] else [])
             in case take_new_pages (page_size a) required_page_count new_slot_count
                       (free_page_indices a) (allocated_page_indices a) of
                  None \<Rightarrow> Panic
                | Some (slots, free', allocated') \<Rightarrow>
                    Ok (tail_slots @ slots,
                        a\<lparr>free_page_indices := free', allocated_page_indices := allocated'\<rparr>))"

definition allocate ::
  "page_allocator \<Rightarrow> usize \<Rightarrow>
   (cache_allocation_error, cache_page_id list \<times> page_allocator) outcome" where
  "allocate a slot_count = allocate_for_sequence a [] slot_count"

text \<open>The first loop of \<open>release\<close>: only a slot that is the first of its page releases the page.\<close>

fun release_loop ::
  "usize \<Rightarrow> usize \<Rightarrow> cache_page_id list \<Rightarrow> usize list \<Rightarrow> usize set \<Rightarrow> usize list \<times> usize set" where
  "release_loop cap ps [] released allocated = (released, allocated)"
| "release_loop cap ps (slot # slots) released allocated =
     (if slot \<ge> cap \<or> slot_index_in_page slot ps \<noteq> 0
      then release_loop cap ps slots released allocated
      else
        let p = page_index slot ps
        in if p \<in> allocated
           then release_loop cap ps slots (released @ [p]) (allocated - {p})
           else release_loop cap ps slots released allocated)"

definition release :: "page_allocator \<Rightarrow> cache_page_id list \<Rightarrow> page_allocator" where
  "release a cache_pages =
     (case release_loop (slot_capacity a) (page_size a) cache_pages []
             (allocated_page_indices a) of
        (released, allocated) \<Rightarrow>
          a\<lparr>allocated_page_indices := allocated,
            free_page_indices := foldl (\<lambda>free p. p # free) (free_page_indices a) (rev released)\<rparr>)"

definition reset :: "page_allocator \<Rightarrow> page_allocator" where
  "reset a = a\<lparr>free_page_indices := [0 ..< slot_capacity a div page_size a],
               allocated_page_indices := {}\<rparr>"

section \<open>The invariant\<close>

text \<open>
  Every page index below the page count is either free or allocated, never both, and the free list
  holds no page twice.
\<close>

definition alloc_inv :: "page_allocator \<Rightarrow> bool" where
  "alloc_inv a \<longleftrightarrow>
     0 < page_size a \<and> 0 < slot_capacity a \<and> page_size a dvd slot_capacity a \<and>
     distinct (free_page_indices a) \<and>
     set (free_page_indices a) \<inter> allocated_page_indices a = {} \<and>
     set (free_page_indices a) \<union> allocated_page_indices a = {..< slot_capacity a div page_size a}"

text \<open>The slots of the first \<open>n\<close> tokens of a sequence stored on the pages \<open>P\<close>, in order.\<close>

definition page_slots :: "usize \<Rightarrow> usize \<Rightarrow> cache_page_id list" where
  "page_slots ps p = [p * ps ..< p * ps + ps]"

definition paged_slots :: "usize \<Rightarrow> usize list \<Rightarrow> nat \<Rightarrow> cache_page_id list" where
  "paged_slots ps P n = take n (concat (map (page_slots ps) P))"

text \<open>\<open>paged ps P xs\<close>: the slots \<open>xs\<close> fill the pages \<open>P\<close> from the first slot of the first page on,
  and only the last page may be partly used.\<close>

definition paged :: "usize \<Rightarrow> usize list \<Rightarrow> cache_page_id list \<Rightarrow> bool" where
  "paged ps P xs \<longleftrightarrow> xs = paged_slots ps P (length xs) \<and> length P = div_ceil (length xs) ps"

section \<open>Paged slot lists\<close>

lemma length_page_slots [simp]: "length (page_slots ps p) = ps"
  by (simp add: page_slots_def)

lemma length_pages_concat [simp]: "length (concat (map (page_slots ps) P)) = length P * ps"
  by (induction P) simp_all

lemma take_page_slots: "take n (page_slots ps p) = [p * ps ..< p * ps + min n ps]"
  by (cases "n \<le> ps") (simp_all add: page_slots_def take_upt)

lemma paged_slots_Cons:
  "paged_slots ps (p # P) n = [p * ps ..< p * ps + min n ps] @ paged_slots ps P (n - min n ps)"
  by (cases "n \<le> ps") (simp_all add: paged_slots_def take_page_slots)

lemma paged_slots_0 [simp]: "paged_slots ps P 0 = []"
  by (simp add: paged_slots_def)

lemma length_paged_slots: "n \<le> length P * ps \<Longrightarrow> length (paged_slots ps P n) = n"
  by (simp add: paged_slots_def)

lemma paged_Nil [simp]: "paged ps P [] \<longleftrightarrow> P = []"
  by (simp add: paged_def)

lemma take_new_pages_eq:
  assumes "0 < ps" and "div_ceil n ps \<le> length free"
  shows "take_new_pages ps (div_ceil n ps) n free A =
           Some (paged_slots ps (take (div_ceil n ps) free) n,
                 drop (div_ceil n ps) free, A \<union> set (take (div_ceil n ps) free))"
  using assms(2)
proof (induction "div_ceil n ps" arbitrary: n free A)
  case 0
  then have "n = 0" using assms(1) div_ceil_le_iff [of ps n 0] by simp
  then show ?case by simp
next
  case (Suc k)
  then have "0 < n" by (cases n) simp_all
  with assms(1) have k: "k = div_ceil (n - min n ps) ps"
    using Suc.hyps(2) div_ceil_step [of ps n] by simp
  obtain p free' where free: "free = p # free'"
    using Suc.prems Suc.hyps(2) by (cases free) simp_all
  have "div_ceil (n - min n ps) ps \<le> length free'"
    using Suc.prems Suc.hyps(2) k free by simp
  note IH = Suc.hyps(1) [OF k this, of "insert p A"]
  show ?case
    unfolding Suc.hyps(2) [symmetric] free
    using IH by (simp add: k [symmetric] Let_def paged_slots_Cons Un_assoc [symmetric])
qed


lemma paged_snoc_page:
  assumes "paged ps P xs" and "xs \<noteq> []" and "0 < ps"
  obtains P0 q where "P = P0 @ [q]" and "length P0 * ps < length xs"
    and "length xs \<le> Suc (length P0) * ps"
    and "xs = concat (map (page_slots ps) P0) @
               [q * ps ..< q * ps + (length xs - length P0 * ps)]"
proof -
  from assms have len: "length P = div_ceil (length xs) ps"
    and xs: "xs = paged_slots ps P (length xs)" by (auto simp: paged_def)
  have "0 < length xs" using assms(2) by simp
  then have "P \<noteq> []" using len assms(3) div_ceil_step [of ps "length xs"] by auto
  then obtain P0 q where P: "P = P0 @ [q]" by (cases P rule: rev_cases) auto
  have up: "length xs \<le> Suc (length P0) * ps"
    using len P div_ceil_le_iff [OF assms(3), of "length xs" "Suc (length P0)"] by simp
  have lo: "length P0 * ps < length xs"
    using len P div_ceil_le_iff [OF assms(3), of "length xs" "length P0"] by simp
  have "xs = take (length xs) (concat (map (page_slots ps) P0) @ page_slots ps q)"
    using xs P by (simp add: paged_slots_def)
  then have "xs = concat (map (page_slots ps) P0) @
               take (length xs - length P0 * ps) (page_slots ps q)"
    using lo by simp
  moreover have "min (length xs - length P0 * ps) ps = length xs - length P0 * ps"
    using up by simp
  ultimately have "xs = concat (map (page_slots ps) P0) @
               [q * ps ..< q * ps + (length xs - length P0 * ps)]"
    by (simp only: take_page_slots)
  with P lo up show ?thesis by (rule that)
qed

lemma paged_last:
  assumes "paged ps P xs" and "xs \<noteq> []" and "0 < ps"
  shows "page_index (last xs) ps = last P"
    and "slot_index_in_page (last xs) ps = length xs - (length P - 1) * ps - 1"
    and "last xs = last P * ps + (length xs - (length P - 1) * ps - 1)"
    and "length xs - (length P - 1) * ps - 1 < ps"
    and "(length P - 1) * ps < length xs" and "length xs \<le> length P * ps" and "P \<noteq> []"
proof -
  obtain P0 q where P: "P = P0 @ [q]" and lo: "length P0 * ps < length xs"
    and up: "length xs \<le> Suc (length P0) * ps"
    and xs: "xs = concat (map (page_slots ps) P0) @
               [q * ps ..< q * ps + (length xs - length P0 * ps)]"
    using paged_snoc_page [OF assms] .
  define r where "r = length xs - length P0 * ps - 1"
  have r: "r < ps" using lo up assms(3) unfolding r_def by simp
  have ne: "[q * ps ..< q * ps + (length xs - length P0 * ps)] \<noteq> []"
    using lo by simp
  have "last xs = last [q * ps ..< q * ps + (length xs - length P0 * ps)]"
    by (subst xs, rule last_appendR, rule ne)
  also have "\<dots> = q * ps + r" using lo by (simp add: r_def)
  finally have l: "last xs = q * ps + r" .
  from r have "(q * ps + r) div ps = q" "(q * ps + r) mod ps = r" by simp_all
  with l P r lo up show "page_index (last xs) ps = last P"
    and "slot_index_in_page (last xs) ps = length xs - (length P - 1) * ps - 1"
    and "last xs = last P * ps + (length xs - (length P - 1) * ps - 1)"
    and "length xs - (length P - 1) * ps - 1 < ps"
    and "(length P - 1) * ps < length xs" and "length xs \<le> length P * ps" and "P \<noteq> []"
    by (simp_all add: page_index_def slot_index_in_page_def r_def)
qed

text \<open>Appending the slots that follow the last one on its page, then fresh pages.\<close>

lemma paged_extend:
  assumes "paged ps P xs" and "0 < ps" and "t \<le> length P * ps - length xs"
    and "Q = [] \<or> t = length P * ps - length xs" and "length Q = div_ceil n ps"
    and "xs = [] \<longrightarrow> t = 0"
  shows "paged ps (P @ Q)
           (xs @ (if t > 0 then [last xs + 1 ..< last xs + 1 + t] else []) @ paged_slots ps Q n)"
proof -
  let ?B = "\<lambda>P. concat (map (page_slots ps) P)"
  let ?t = "if t > 0 then [last xs + 1 ..< last xs + 1 + t] else []"
  have le: "length xs \<le> length P * ps"
    using assms(1,2) div_ceil_le_iff [OF assms(2), of "length xs" "length P"] by (auto simp: paged_def)
  have xs: "xs = take (length xs) (?B P)"
    using assms(1) by (simp add: paged_def paged_slots_def)
  have tl: "?t = take t (drop (length xs) (?B P))"
  proof (cases "t = 0")
    case False
    then have ne: "xs \<noteq> []" using assms(6) by auto
    obtain P0 q where P: "P = P0 @ [q]" and lo: "length P0 * ps < length xs"
      using paged_snoc_page [OF assms(1) ne assms(2)] by metis
    define c where "c = length xs - length P0 * ps"
    have "drop (length xs) (?B P) = drop c (page_slots ps q)"
      using P lo by (simp add: c_def)
    also have "\<dots> = [q * ps + c ..< q * ps + ps]" by (simp add: page_slots_def drop_upt)
    finally have "take t (drop (length xs) (?B P)) = take t [q * ps + c ..< q * ps + ps]"
      by simp
    moreover have "c + t \<le> ps" using assms(3) P lo False by (simp add: c_def)
    ultimately have "take t (drop (length xs) (?B P)) = [q * ps + c ..< q * ps + c + t]"
      by (simp add: take_upt)
    moreover have "last xs + 1 = q * ps + c"
      using paged_last(3) [OF assms(1) ne assms(2)] P lo by (simp add: c_def)
    ultimately show ?thesis using False by simp
  qed simp
  have nQ: "n \<le> length Q * ps" using assms(2,5) div_ceil_le_iff [of ps n "length Q"] by simp
  have lt: "length ?t = t" by simp
  have front: "xs @ ?t = take (length xs + t) (?B P)"
    using xs tl by (simp add: take_add)
  show ?thesis
  proof (cases "Q = []")
    case True
    then have "n = 0" using nQ by simp
    have "length P = div_ceil (length xs) ps" using assms(1) by (simp add: paged_def)
    moreover have "div_ceil (length xs + t) ps = div_ceil (length xs) ps"
    proof (rule antisym)
      show "div_ceil (length xs + t) ps \<le> div_ceil (length xs) ps"
        using assms(2,3) le \<open>length P = _\<close> by (simp add: div_ceil_le_iff)
      show "div_ceil (length xs) ps \<le> div_ceil (length xs + t) ps"
        using assms(2) div_ceil_le_iff [of ps "length xs + t" "div_ceil (length xs + t) ps"]
        by (simp add: div_ceil_le_iff)
    qed
    ultimately show ?thesis
      using True \<open>n = 0\<close> front lt le assms(3)
      by (simp add: paged_def paged_slots_def min_absorb2)
  next
    case False
    then have full: "length xs + t = length P * ps" using assms(4) le by auto
    have "xs @ ?t @ paged_slots ps Q n = take (length P * ps + n) (?B P @ ?B Q)"
      using front full by (simp add: paged_slots_def)
    moreover have "length (xs @ ?t @ paged_slots ps Q n) = length P * ps + n"
      using full nQ lt by (simp add: length_paged_slots)
    moreover have "div_ceil (length P * ps + n) ps = length P + div_ceil n ps"
      using assms(2) by (simp add: div_ceil_def)
    ultimately show ?thesis
      using assms(5) by (simp add: paged_def paged_slots_def)
  qed
qed


section \<open>Allocation\<close>

lemma reusable_tail_paged:
  assumes "paged (page_size a) P xs" and "0 < page_size a"
    and "xs \<noteq> [] \<longrightarrow> last P \<in> allocated_page_indices a"
  shows "reusable_tail_slots a xs n = min (length P * page_size a - length xs) n"
proof (cases "xs = []")
  case True
  with assms(1) show ?thesis by (simp add: reusable_tail_slots_def)
next
  case False
  note l = paged_last [OF assms(1) False assms(2)]
  obtain k where k: "length P = Suc k" using l(7) by (cases P) auto
  show ?thesis
    using False assms(3) l by (simp add: reusable_tail_slots_def k)
qed

lemma reusable_tail_Nil [simp]: "reusable_tail_slots a [] n = 0"
  by (simp add: reusable_tail_slots_def)

lemma reusable_tail_le: "reusable_tail_slots a xs n \<le> n"
  by (simp add: reusable_tail_slots_def)

text \<open>
  The shape of a successful allocation: the tail of the last page, then the first
  \<open>div_ceil\<close> pages of the free list.
\<close>

lemma allocate_for_sequence_Ok:
  assumes "allocate_for_sequence a xs n = Ok (slots, a')" and "0 < page_size a"
  defines "t \<equiv> reusable_tail_slots a xs n"
  defines "k \<equiv> div_ceil (n - t) (page_size a)"
  shows "slots = (if t > 0 then [last xs + 1 ..< last xs + 1 + t] else []) @
                   paged_slots (page_size a) (take k (free_page_indices a)) (n - t)"
    and "a' = a\<lparr>free_page_indices := drop k (free_page_indices a),
                allocated_page_indices :=
                  allocated_page_indices a \<union> set (take k (free_page_indices a))\<rparr>"
    and "k \<le> length (free_page_indices a)" and "length slots = n"
proof -
  have t: "t \<le> n" by (simp add: t_def reusable_tail_le)
  have "k \<le> length (free_page_indices a) \<and>
    slots = (if t > 0 then [last xs + 1 ..< last xs + 1 + t] else []) @
                   paged_slots (page_size a) (take k (free_page_indices a)) (n - t) \<and>
    a' = a\<lparr>free_page_indices := drop k (free_page_indices a),
                allocated_page_indices :=
                  allocated_page_indices a \<union> set (take k (free_page_indices a))\<rparr>"
  proof (cases "n = 0")
    case True
    then show ?thesis using assms(1) t by (simp add: allocate_for_sequence_def k_def)
  next
    case False
    have le: "k \<le> length (free_page_indices a)"
      using assms(1) False
      by (simp add: allocate_for_sequence_def Let_def t_def [symmetric] k_def [symmetric]
               split: if_splits)
    have "take_new_pages (page_size a) k (n - t) (free_page_indices a) (allocated_page_indices a) =
            Some (paged_slots (page_size a) (take k (free_page_indices a)) (n - t),
                  drop k (free_page_indices a),
                  allocated_page_indices a \<union> set (take k (free_page_indices a)))"
      unfolding k_def by (rule take_new_pages_eq [OF assms(2)]) (use le in \<open>simp add: k_def\<close>)
    with assms(1) False le show ?thesis
      by (simp add: allocate_for_sequence_def Let_def t_def [symmetric] k_def [symmetric])
  qed
  then show "slots = (if t > 0 then [last xs + 1 ..< last xs + 1 + t] else []) @
                   paged_slots (page_size a) (take k (free_page_indices a)) (n - t)"
    and "a' = a\<lparr>free_page_indices := drop k (free_page_indices a),
                allocated_page_indices :=
                  allocated_page_indices a \<union> set (take k (free_page_indices a))\<rparr>"
    and le: "k \<le> length (free_page_indices a)" by auto
  have "n - t \<le> k * page_size a"
    using assms(2) div_ceil_le_iff [of "page_size a" "n - t" k] by (simp add: k_def)
  with le t \<open>slots = _\<close> show "length slots = n" by (simp add: length_paged_slots)
qed

lemma allocate_for_sequence_total:
  assumes "0 < page_size a"
  shows "allocate_for_sequence a xs n \<noteq> Panic"
    and "(\<exists>e. allocate_for_sequence a xs n = Err e) \<longleftrightarrow>
           reusable_tail_slots a xs n + available_slots a < n"
    and "allocate_for_sequence a xs n = Err e \<Longrightarrow>
           e = OutOfSlots n (reusable_tail_slots a xs n + available_slots a)"
proof -
  let ?t = "reusable_tail_slots a xs n"
  let ?k = "div_ceil (n - ?t) (page_size a)"
  have new: "?k \<le> length (free_page_indices a) \<Longrightarrow>
     \<exists>x. take_new_pages (page_size a) ?k (n - ?t) (free_page_indices a)
       (allocated_page_indices a) = Some x"
    using take_new_pages_eq [OF assms] by blast
  then show "allocate_for_sequence a xs n \<noteq> Panic"
    by (auto simp: allocate_for_sequence_def Let_def split: option.splits)
  have "length (free_page_indices a) < ?k \<longleftrightarrow> ?t + available_slots a < n"
    using div_ceil_le_iff [OF assms, of "n - ?t" "length (free_page_indices a)"]
      reusable_tail_le [of a xs n]
    by (auto simp: available_slots_def)
  with new show "(\<exists>e. allocate_for_sequence a xs n = Err e) \<longleftrightarrow> ?t + available_slots a < n"
    by (auto simp: allocate_for_sequence_def Let_def split: option.splits)
  show "allocate_for_sequence a xs n = Err e \<Longrightarrow> e = OutOfSlots n (?t + available_slots a)"
    by (auto simp: allocate_for_sequence_def Let_def split: option.splits if_splits)
qed

lemma allocate_for_sequence_inv:
  assumes "alloc_inv a" and "allocate_for_sequence a xs n = Ok (slots, a')"
  shows "alloc_inv a'" and "page_size a' = page_size a" and "slot_capacity a' = slot_capacity a"
proof -
  have ps: "0 < page_size a" using assms(1) by (simp add: alloc_inv_def)
  obtain k where a': "a' = a\<lparr>free_page_indices := drop k (free_page_indices a),
      allocated_page_indices := allocated_page_indices a \<union> set (take k (free_page_indices a))\<rparr>"
    using allocate_for_sequence_Ok(2) [OF assms(2) ps] by blast
  have "set (take k (free_page_indices a)) \<union> set (drop k (free_page_indices a)) =
        set (free_page_indices a)"
    by (metis append_take_drop_id set_append)
  with assms(1) distinct_take_drop_disjoint [of "free_page_indices a" k] set_drop_subset
  show "alloc_inv a'" unfolding alloc_inv_def a' by auto
  show "page_size a' = page_size a" "slot_capacity a' = slot_capacity a" by (simp_all add: a')
qed


text \<open>A sequence that owns its last page keeps the paged shape when it grows.\<close>

lemma allocate_for_sequence_paged:
  assumes inv: "alloc_inv a" and wf: "paged (page_size a) P xs"
    and own: "xs \<noteq> [] \<longrightarrow> last P \<in> allocated_page_indices a"
    and ok: "allocate_for_sequence a xs n = Ok (slots, a')"
  obtains Q where "paged (page_size a) (P @ Q) (xs @ slots)"
    and "free_page_indices a = Q @ free_page_indices a'"
    and "allocated_page_indices a' = allocated_page_indices a \<union> set Q"
    and "length slots = n"
proof -
  have ps: "0 < page_size a" using inv by (simp add: alloc_inv_def)
  let ?t = "reusable_tail_slots a xs n"
  define k where "k = div_ceil (n - ?t) (page_size a)"
  define Q where "Q = take k (free_page_indices a)"
  note A = allocate_for_sequence_Ok [OF ok ps, folded k_def]
  have t: "?t = min (length P * page_size a - length xs) n"
    using reusable_tail_paged [OF wf ps own] .
  have len: "length Q = k" using A(3) by (simp add: Q_def)
  have "n - ?t = 0 \<Longrightarrow> Q = []" by (simp add: Q_def k_def)
  then have fits: "Q = [] \<or> ?t = length P * page_size a - length xs"
    using t by (cases "n - ?t = 0") auto
  have "paged (page_size a) (P @ Q) (xs @
      (if ?t > 0 then [last xs + 1 ..< last xs + 1 + ?t] else []) @ paged_slots (page_size a) Q (n - ?t))"
    by (rule paged_extend [OF wf ps]) (use t fits len in \<open>auto simp: k_def\<close>)
  moreover have "xs @ slots = xs @
      (if ?t > 0 then [last xs + 1 ..< last xs + 1 + ?t] else []) @ paged_slots (page_size a) Q (n - ?t)"
    using A(1) by (simp add: Q_def)
  ultimately have "paged (page_size a) (P @ Q) (xs @ slots)" by (simp only:)
  moreover have "free_page_indices a = Q @ free_page_indices a'"
    by (subst A(2)) (simp add: Q_def)
  moreover have "allocated_page_indices a' = allocated_page_indices a \<union> set Q"
    by (subst A(2)) (simp add: Q_def)
  ultimately show ?thesis using A(4) by (rule that)
qed

section \<open>Release\<close>

lemma foldl_push_front: "foldl (\<lambda>free p. p # free) free xs = rev xs @ free"
  by (induction xs arbitrary: free) simp_all

text \<open>What \<open>release_loop\<close> computes, as the pages whose first slot is in the list.\<close>

fun owned_pages :: "usize \<Rightarrow> usize \<Rightarrow> cache_page_id list \<Rightarrow> usize list" where
  "owned_pages cap ps [] = []"
| "owned_pages cap ps (s # xs) =
     (if s \<ge> cap \<or> s mod ps \<noteq> 0 then owned_pages cap ps xs else (s div ps) # owned_pages cap ps xs)"

fun pages_released :: "usize list \<Rightarrow> usize set \<Rightarrow> usize list" where
  "pages_released [] A = []"
| "pages_released (p # ps) A = (if p \<in> A then p # pages_released ps (A - {p}) else pages_released ps A)"

lemma release_loop_eq:
  "release_loop cap ps xs r A =
     (r @ pages_released (owned_pages cap ps xs) A, A - set (owned_pages cap ps xs))"
  by (induction xs arbitrary: r A)
    (auto simp: Let_def page_index_def slot_index_in_page_def)

lemma release_eq:
  "release a xs =
     a\<lparr>allocated_page_indices := allocated_page_indices a - set (owned_pages (slot_capacity a) (page_size a) xs),
       free_page_indices :=
         pages_released (owned_pages (slot_capacity a) (page_size a) xs) (allocated_page_indices a)
           @ free_page_indices a\<rparr>"
  by (simp add: release_def release_loop_eq foldl_push_front)

lemma set_pages_released: "set (pages_released ps A) = set ps \<inter> A"
  by (induction ps arbitrary: A) auto

lemma distinct_pages_released: "distinct (pages_released ps A)"
  by (induction ps arbitrary: A) (auto simp: set_pages_released)

lemma pages_released_idem: "set ps \<inter> A = {} \<Longrightarrow> pages_released ps A = []"
  by (induction ps) auto

lemma pages_released_all: "distinct ps \<Longrightarrow> set ps \<subseteq> A \<Longrightarrow> pages_released ps A = ps"
proof (induction ps arbitrary: A)
  case (Cons p ps)
  then have "set ps \<subseteq> A - {p}" by auto
  with Cons show ?case by simp
qed simp

lemma release_frame [simp]:
  "page_size (release a xs) = page_size a" "slot_capacity (release a xs) = slot_capacity a"
  by (simp_all add: release_eq)

lemma release_Nil [simp]: "release a [] = a"
  by (simp add: release_eq)

lemma release_inv: "alloc_inv a \<Longrightarrow> alloc_inv (release a xs)"
  unfolding alloc_inv_def release_eq
  by (auto simp: set_pages_released distinct_pages_released)

lemma release_allocated:
  "allocated_page_indices (release a xs) =
     allocated_page_indices a - set (owned_pages (slot_capacity a) (page_size a) xs)"
  by (simp add: release_eq)

lemma owned_pages_append: "owned_pages cap ps (xs @ ys) = owned_pages cap ps xs @ owned_pages cap ps ys"
  by (induction xs) auto

lemma reset_inv: "alloc_inv a \<Longrightarrow> alloc_inv (reset a)"
  by (auto simp: alloc_inv_def reset_def)

lemma reset_frame [simp]:
  "page_size (reset a) = page_size a" "slot_capacity (reset a) = slot_capacity a"
  by (simp_all add: reset_def)

lemma with_page_size_inv: "with_page_size cap ps = Ok a \<Longrightarrow> alloc_inv a"
  by (auto simp: with_page_size_def alloc_inv_def lessThan_atLeast0 split: if_splits)


section \<open>Allocation undone by release\<close>

lemma owned_pages_upt_inner:
  assumes "\<And>s. s \<in> {i..<j} \<Longrightarrow> s mod ps \<noteq> 0"
  shows "owned_pages cap ps [i ..< j] = []"
  using assms
proof (induction "j - i" arbitrary: i)
  case (Suc k)
  then show ?case by (simp add: upt_rec [of i j])
qed simp

lemma owned_pages_page:
  assumes "0 < m" and "m \<le> ps" and "p * ps < cap"
  shows "owned_pages cap ps [p * ps ..< p * ps + m] = [p]"
proof -
  have "owned_pages cap ps [Suc (p * ps) ..< p * ps + m] = []"
  proof (rule owned_pages_upt_inner)
    fix s assume s: "s \<in> {Suc (p * ps) ..< p * ps + m}"
    define d where "d = s - p * ps"
    have "s = p * ps + d" "0 < d" "d < ps" using s assms(2) by (auto simp: d_def)
    then show "s mod ps \<noteq> 0" by simp
  qed
  with assms show ?thesis by (simp add: upt_rec [of "p * ps"])
qed

lemma owned_pages_paged_slots:
  assumes "0 < ps" and "div_ceil n ps \<le> length P" and "\<And>p. p \<in> set P \<Longrightarrow> p * ps < cap"
  shows "owned_pages cap ps (paged_slots ps P n) = take (div_ceil n ps) P"
  using assms(2,3)
proof (induction P arbitrary: n)
  case Nil
  then show ?case by (simp add: paged_slots_def)
next
  case (Cons p P)
  show ?case
  proof (cases "n = 0")
    case False
    then have step: "div_ceil n ps = Suc (div_ceil (n - min n ps) ps)"
      using assms(1) div_ceil_step [of ps n] by simp
    have "owned_pages cap ps (paged_slots ps P (n - min n ps)) = take (div_ceil (n - min n ps) ps) P"
      using Cons step by auto
    moreover have "owned_pages cap ps [p * ps ..< p * ps + min n ps] = [p]"
      by (rule owned_pages_page) (use False assms(1) Cons.prems(2) in auto)
    ultimately show ?thesis
      by (simp add: paged_slots_Cons owned_pages_append step)
  qed simp
qed

lemma alloc_inv_page_bound:
  assumes "alloc_inv a" and "p \<in> set (free_page_indices a) \<union> allocated_page_indices a"
  shows "p * page_size a < slot_capacity a" and "p * page_size a + page_size a \<le> slot_capacity a"
proof -
  obtain c where c: "slot_capacity a = c * page_size a" and ps: "0 < page_size a"
    using assms(1) by (auto simp: alloc_inv_def dvd_def mult.commute)
  then have "p < c" using assms by (auto simp: alloc_inv_def)
  moreover from this have "Suc p * page_size a \<le> c * page_size a" by (intro mult_le_mono1) simp
  ultimately show "p * page_size a + page_size a \<le> slot_capacity a"
    and "p * page_size a < slot_capacity a" using c ps by simp_all
qed

lemma owned_pages_tail:
  assumes "0 < ps" and "t \<le> ps - s mod ps - 1"
  shows "owned_pages cap ps [s + 1 ..< s + 1 + t] = []"
proof (rule owned_pages_upt_inner)
  fix x assume x: "x \<in> {s + 1 ..< s + 1 + t}"
  define d where "d = x - s"
  have "x = s + d" using x by (simp add: d_def)
  then have "x mod ps = (s mod ps + d) mod ps" by (simp add: mod_simps)
  moreover have "s mod ps + d < ps" "0 < d" using x assms(2) by (auto simp: d_def)
  ultimately show "x mod ps \<noteq> 0" by simp
qed

lemma allocated_owned_pages:
  assumes "alloc_inv a" and "allocate_for_sequence a xs n = Ok (slots, a')"
  shows "free_page_indices a =
           owned_pages (slot_capacity a) (page_size a) slots @ free_page_indices a'"
    and "allocated_page_indices a' =
           allocated_page_indices a \<union> set (owned_pages (slot_capacity a) (page_size a) slots)"
proof -
  have ps: "0 < page_size a" using assms(1) by (simp add: alloc_inv_def)
  let ?t = "reusable_tail_slots a xs n" and ?cap = "slot_capacity a" and ?ps = "page_size a"
  define k where "k = div_ceil (n - ?t) ?ps"
  note A = allocate_for_sequence_Ok [OF assms(2) ps, folded k_def]
  have "owned_pages ?cap ?ps (if ?t > 0 then [last xs + 1 ..< last xs + 1 + ?t] else []) = []"
    using owned_pages_tail [OF ps, of ?t "last xs" ?cap]
    by (auto simp: reusable_tail_slots_def slot_index_in_page_def split: if_splits)
  moreover have "owned_pages ?cap ?ps (paged_slots ?ps (take k (free_page_indices a)) (n - ?t)) =
      take (div_ceil (n - ?t) ?ps) (take k (free_page_indices a))"
    by (rule owned_pages_paged_slots [OF ps])
      (use A(3) alloc_inv_page_bound(1) [OF assms(1)] in \<open>auto simp: k_def dest: in_set_takeD\<close>)
  ultimately have own: "owned_pages ?cap ?ps slots = take k (free_page_indices a)"
    by (subst A(1)) (simp only: owned_pages_append, simp add: k_def)
  show "free_page_indices a = owned_pages ?cap ?ps slots @ free_page_indices a'"
    unfolding own by (subst A(2)) simp
  show "allocated_page_indices a' = allocated_page_indices a \<union> set (owned_pages ?cap ?ps slots)"
    unfolding own by (subst A(2)) simp
qed

lemma release_undoes_allocate:
  assumes "alloc_inv a" and "allocate_for_sequence a xs n = Ok (slots, a')"
  shows "release a' slots = a"
proof -
  note frame = allocate_for_sequence_inv(2,3) [OF assms]
  note own = allocated_owned_pages [OF assms]
  let ?Q = "owned_pages (slot_capacity a) (page_size a) slots"
  have d: "distinct ?Q" and dj: "set ?Q \<inter> allocated_page_indices a = {}"
    using assms(1) own(1) by (auto simp: alloc_inv_def)
  have "allocated_page_indices (release a' slots) = allocated_page_indices a"
    using dj by (auto simp: release_allocated frame own(2))
  moreover have "free_page_indices (release a' slots) = free_page_indices a"
    using d by (simp add: release_eq frame pages_released_all own)
  ultimately show ?thesis using frame by simp
qed


section \<open>Properties\<close>

text \<open>
  The interface the scheduler relies on: an allocator state, its pages in use, and the two
  operations a request goes through.  The laws are what makes a failed scheduling attempt
  reversible.
\<close>

locale page_pool =
  fixes take_slots :: "'s \<Rightarrow> cache_page_id list \<Rightarrow> usize \<Rightarrow> ('e, cache_page_id list \<times> 's) outcome"
    and give_back :: "'s \<Rightarrow> cache_page_id list \<Rightarrow> 's"
    and ok :: "'s \<Rightarrow> bool"
    and in_use :: "'s \<Rightarrow> usize set"
  assumes ok_take: "ok s \<Longrightarrow> take_slots s xs n = Ok (ys, s') \<Longrightarrow> ok s'"
    and ok_give_back: "ok s \<Longrightarrow> ok (give_back s ys)"
    and take_no_panic: "ok s \<Longrightarrow> take_slots s xs n \<noteq> Panic"
    and take_length: "ok s \<Longrightarrow> take_slots s xs n = Ok (ys, s') \<Longrightarrow> length ys = n"
    and take_grows: "ok s \<Longrightarrow> take_slots s xs n = Ok (ys, s') \<Longrightarrow> in_use s \<subseteq> in_use s'"
    and give_back_shrinks: "in_use (give_back s ys) \<subseteq> in_use s"
    and give_back_take: "ok s \<Longrightarrow> take_slots s xs n = Ok (ys, s') \<Longrightarrow> give_back s' ys = s"
begin

text \<open>Allocating for several sequences in turn; the slots of each, oldest first.\<close>

fun take_all :: "'s \<Rightarrow> (cache_page_id list \<times> usize) list \<Rightarrow>
    ('e, cache_page_id list list \<times> 's) outcome" where
  "take_all s [] = Ok ([], s)"
| "take_all s ((xs, n) # reqs) =
     and_then (take_slots s xs n) (\<lambda>(ys, s').
       and_then (take_all s' reqs) (\<lambda>(yss, s''). Ok (ys # yss, s'')))"

lemma take_all_no_panic: "ok s \<Longrightarrow> take_all s reqs \<noteq> Panic"
  by (induction s reqs rule: take_all.induct)
    (auto simp: outcome_simps take_no_panic dest: ok_take)

lemma take_all_ok: "ok s \<Longrightarrow> take_all s reqs = Ok (yss, s') \<Longrightarrow> ok s'"
  by (induction s reqs arbitrary: yss s' rule: take_all.induct)
    (auto simp: outcome_simps dest: ok_take)

text \<open>Giving the allocations back, newest first, restores the pool exactly.\<close>

lemma foldr_give_back_take_all:
  "ok s \<Longrightarrow> take_all s reqs = Ok (yss, s') \<Longrightarrow> foldr (\<lambda>ys s. give_back s ys) yss s' = s"
proof (induction s reqs arbitrary: yss s' rule: take_all.induct)
  case (2 s xs n reqs)
  then obtain ys t yss' where "take_slots s xs n = Ok (ys, t)" "take_all t reqs = Ok (yss', s')"
    and yss: "yss = ys # yss'" by (auto simp: outcome_simps)
  moreover from this 2 have "foldr (\<lambda>ys s. give_back s ys) yss' s' = t" using ok_take by blast
  ultimately show ?case using 2 by (simp add: give_back_take)
qed simp

end

interpretation pool: page_pool allocate_for_sequence release alloc_inv allocated_page_indices
proof unfold_locales
  fix a xs n ys a'
  assume inv: "alloc_inv a"
  have ps: "0 < page_size a" using inv by (simp add: alloc_inv_def)
  show "allocate_for_sequence a xs n \<noteq> Panic" by (rule allocate_for_sequence_total(1) [OF ps])
  assume ok: "allocate_for_sequence a xs n = Ok (ys, a')"
  show "alloc_inv a'" by (rule allocate_for_sequence_inv(1) [OF inv ok])
  show "length ys = n" by (rule allocate_for_sequence_Ok(4) [OF ok ps])
  show "allocated_page_indices a \<subseteq> allocated_page_indices a'"
    using allocated_owned_pages(2) [OF inv ok] by blast
  show "release a' ys = a" by (rule release_undoes_allocate [OF inv ok])
qed (auto intro: release_inv simp: release_allocated)

text \<open>
  (C7) Releasing what an allocation returned restores the allocator exactly, free list order
  included, also when the allocation began in the free tail of the sequence's last page: the page
  the sequence already owned is not released.
\<close>

theorem release_after_allocate_restores:
  assumes "alloc_inv a" and "allocate_for_sequence a sequence n = Ok (slots, a')"
  shows "release a' slots = a"
  using assms by (rule pool.give_back_take)

theorem release_after_allocate_restores_witness:
  defines "a \<equiv> \<lparr>slot_capacity = 12, page_size = 4, free_page_indices = [2, 1],
                 allocated_page_indices = {0}\<rparr>"
  shows "allocate_for_sequence a [0, 1] 5 =
           Ok ([2, 3, 8, 9, 10], a\<lparr>free_page_indices := [1], allocated_page_indices := {0, 2}\<rparr>) \<and>
         release (a\<lparr>free_page_indices := [1], allocated_page_indices := {0, 2}\<rparr>) [2, 3, 8, 9, 10] = a"
proof -
  have inv: "alloc_inv a" by (auto simp: a_def alloc_inv_def)
  have ok: "allocate_for_sequence a [0, 1] 5 =
      Ok ([2, 3, 8, 9, 10], a\<lparr>free_page_indices := [1], allocated_page_indices := {0, 2}\<rparr>)"
    unfolding a_def by code_simp
  show ?thesis
    using ok release_after_allocate_restores [OF inv ok] by blast
qed

end
