(* ===== verification/Radix_Cache.thy ===== *)
theory Radix_Cache
  imports Page_Allocator "HOL-Library.Sublist"
begin

text \<open>
  The prefix cache of \<open>crates/sglang-srt/src/cache.rs\<close>: \<open>PrefixMatch\<close>, \<open>RadixCacheError\<close>,
  \<open>RadixNode\<close> and \<open>RadixCache\<close> with \<open>insert\<close>, \<open>match_prefix\<close>, \<open>match_prefix_page_aligned\<close> and
  \<open>clear\<close>.  The abstract view of a cache is the partial map from token paths to cache pages
  (\<open>page_at\<close>); insertion and matching are shown to be an update and a longest-match search on it.
\<close>

section \<open>Definitions\<close>

record prefix_match =
  matched_token_count :: usize
  cache_pages :: "cache_page_id list"
  remaining_input_ids :: "u32 list"

datatype radix_cache_error = TokenPageLengthMismatch usize usize

datatype radix_node =
  RadixNode (node_cache_page: "cache_page_id option") (node_children: "(u32 \<times> radix_node) list")

definition radix_default :: radix_node where
  "radix_default = RadixNode None []"

type_synonym radix_cache = radix_node

definition radix_clear :: "radix_cache \<Rightarrow> radix_cache" where
  "radix_clear c = radix_default"

definition entry_or_default :: "(u32 \<times> radix_node) list \<Rightarrow> u32 \<Rightarrow> radix_node" where
  "entry_or_default ch t = (case map_of ch t of None \<Rightarrow> radix_default | Some n \<Rightarrow> n)"

text \<open>The loop of \<open>insert\<close>: walk down, creating nodes, and overwrite the page of each node.\<close>

fun radix_insert_loop :: "radix_node \<Rightarrow> (u32 \<times> cache_page_id) list \<Rightarrow> radix_node" where
  "radix_insert_loop node [] = node"
| "radix_insert_loop (RadixNode page ch) ((input_id, p) # rest) =
     (let child = entry_or_default ch input_id
      in RadixNode page
           (AList.update input_id
              (radix_insert_loop (RadixNode (Some p) (node_children child)) rest) ch))"

definition radix_insert ::
  "radix_cache \<Rightarrow> u32 list \<Rightarrow> cache_page_id list \<Rightarrow> (radix_cache_error, radix_cache) outcome" where
  "radix_insert c input_ids pages =
     (if length input_ids \<noteq> length pages
      then Err (TokenPageLengthMismatch (length input_ids) (length pages))
      else Ok (radix_insert_loop c (zip input_ids pages)))"

fun match_loop ::
  "radix_node \<Rightarrow> u32 list \<Rightarrow> usize \<Rightarrow> cache_page_id list \<Rightarrow> usize \<times> cache_page_id list" where
  "match_loop node [] matched pages = (matched, pages)"
| "match_loop node (input_id # rest) matched pages =
     (case map_of (node_children node) input_id of
        None \<Rightarrow> (matched, pages)
      | Some child \<Rightarrow>
          (case node_cache_page child of
             None \<Rightarrow> (matched, pages)
           | Some p \<Rightarrow> match_loop child rest (matched + 1) (pages @ [p])))"

definition match_prefix :: "radix_cache \<Rightarrow> u32 list \<Rightarrow> prefix_match" where
  "match_prefix c input_ids =
     (case match_loop c input_ids 0 [] of
        (matched, pages) \<Rightarrow>
          \<lparr> matched_token_count = matched, cache_pages = pages,
            remaining_input_ids = drop matched input_ids \<rparr>)"

definition match_prefix_page_aligned ::
  "radix_cache \<Rightarrow> u32 list \<Rightarrow> usize \<Rightarrow> prefix_match" where
  "match_prefix_page_aligned c input_ids ps =
     (let m = match_prefix c input_ids;
          aligned = matched_token_count m div ps * ps
      in m\<lparr> matched_token_count := aligned,
            cache_pages := take aligned (cache_pages m),
            remaining_input_ids := drop aligned input_ids \<rparr>)"

section \<open>The abstract view\<close>

fun node_at :: "radix_node \<Rightarrow> u32 list \<Rightarrow> radix_node option" where
  "node_at node [] = Some node"
| "node_at node (t # ts) =
     (case map_of (node_children node) t of None \<Rightarrow> None | Some child \<Rightarrow> node_at child ts)"

definition page_at :: "radix_node \<Rightarrow> u32 list \<Rightarrow> cache_page_id option" where
  "page_at node path = Option.bind (node_at node path) node_cache_page"

text \<open>Insertion on the abstract map: every non-empty prefix of the tokens gets its page.\<close>

definition abs_insert ::
  "(u32 list \<Rightarrow> cache_page_id option) \<Rightarrow> u32 list \<Rightarrow> cache_page_id list \<Rightarrow>
   u32 list \<Rightarrow> cache_page_id option" where
  "abs_insert m ids pages path =
     (if path \<noteq> [] \<and> prefix path ids then Some (pages ! (length path - 1)) else m path)"

text \<open>Matching on the abstract map: the pages of the longest run of present prefixes.\<close>

fun abs_match :: "(u32 list \<Rightarrow> cache_page_id option) \<Rightarrow> u32 list \<Rightarrow> u32 list \<Rightarrow> cache_page_id list" where
  "abs_match m before [] = []"
| "abs_match m before (t # ts) =
     (case m (before @ [t]) of None \<Rightarrow> [] | Some p \<Rightarrow> p # abs_match m (before @ [t]) ts)"

section \<open>Insertion\<close>

lemma node_at_default: "ts \<noteq> [] \<Longrightarrow> node_at radix_default ts = None"
  by (cases ts) (simp_all add: radix_default_def)

lemma page_at_Nil [simp]: "page_at node [] = node_cache_page node"
  by (simp add: page_at_def)

lemma page_at_Cons:
  "page_at node (t # ts) =
     (case map_of (node_children node) t of None \<Rightarrow> None | Some child \<Rightarrow> page_at child ts)"
  by (simp add: page_at_def split: option.split)

lemma page_at_default [simp]: "page_at radix_default ts = None"
  by (cases ts) (simp_all add: radix_default_def page_at_Cons)

lemma page_at_children:
  "ts \<noteq> [] \<Longrightarrow> page_at (RadixNode p (node_children node)) ts = page_at node ts"
  by (cases ts) (simp_all add: page_at_Cons)

lemma page_at_entry:
  "ts \<noteq> [] \<Longrightarrow> page_at (RadixNode p (node_children (entry_or_default ch t))) ts =
     (case map_of ch t of None \<Rightarrow> None | Some child \<Rightarrow> page_at child ts)"
  by (simp add: page_at_children entry_or_default_def split: option.split)

lemma node_cache_page_insert [simp]:
  "node_cache_page (radix_insert_loop node kvs) = node_cache_page node"
  by (cases "(node, kvs)" rule: radix_insert_loop.cases) (auto simp: Let_def)

lemma page_at_insert_loop:
  "page_at (radix_insert_loop node kvs) path =
     (if path \<noteq> [] \<and> prefix path (map fst kvs) then Some (snd (kvs ! (length path - 1)))
      else page_at node path)"
proof (induction node kvs arbitrary: path rule: radix_insert_loop.induct)
  case (2 page ch t p rest)
  show ?case
  proof (cases path)
    case (Cons x xs)
    let ?child = "RadixNode (Some p) (node_children (entry_or_default ch t))"
    note IH = "2.IH" [OF refl, of xs]
    show ?thesis
    proof (cases "x = t")
      case True
      have "page_at (radix_insert_loop (RadixNode page ch) ((t, p) # rest)) path =
            page_at (radix_insert_loop ?child rest) xs"
        using Cons True by (simp add: Let_def page_at_Cons update_conv')
      moreover have "xs \<noteq> [] \<Longrightarrow> page_at ?child xs = page_at (RadixNode page ch) path"
        using Cons True by (simp add: page_at_entry page_at_Cons)
      ultimately show ?thesis
        using IH Cons True by (cases xs) auto
    next
      case False
      then show ?thesis using Cons by (simp add: Let_def page_at_Cons update_conv')
    qed
  qed simp
qed simp

lemma page_at_radix_insert:
  assumes "radix_insert c ids pages = Ok c'"
  shows "page_at c' = abs_insert (page_at c) ids pages"
proof
  fix path
  from assms have len: "length ids = length pages" and c': "c' = radix_insert_loop c (zip ids pages)"
    by (auto simp: radix_insert_def split: if_splits)
  have "path \<noteq> [] \<Longrightarrow> prefix path ids \<Longrightarrow> length path - 1 < length ids"
    by (cases path) (auto dest: prefix_length_le)
  with len show "page_at c' path = abs_insert (page_at c) ids pages path"
    by (auto simp: c' page_at_insert_loop abs_insert_def)
qed

section \<open>Matching\<close>

lemma match_loop_eq:
  assumes "\<And>path. path \<noteq> [] \<Longrightarrow> page_at node path = m (before @ path)"
  shows "match_loop node ids k pages =
           (k + length (abs_match m before ids), pages @ abs_match m before ids)"
  using assms
proof (induction ids arbitrary: node k pages before)
  case (Cons t ts)
  have mt: "m (before @ [t]) = page_at node [t]" using Cons.prems [of "[t]"] by simp
  show ?case
  proof (cases "map_of (node_children node) t")
    case None
    then show ?thesis using mt by (simp add: page_at_Cons)
  next
    case (Some child)
    then have mc: "m (before @ [t]) = node_cache_page child" using mt by (simp add: page_at_Cons)
    have "page_at child path = m ((before @ [t]) @ path)" if "path \<noteq> []" for path
      using Cons.prems [of "t # path"] Some by (simp add: page_at_Cons)
    note IH = Cons.IH [OF this]
    show ?thesis using Some mc IH by (simp split: option.split)
  qed
qed simp

lemma match_prefix_eq:
  "match_prefix c ids =
     \<lparr> matched_token_count = length (abs_match (page_at c) [] ids),
       cache_pages = abs_match (page_at c) [] ids,
       remaining_input_ids = drop (length (abs_match (page_at c) [] ids)) ids \<rparr>"
  using match_loop_eq [of c "page_at c" "[]" ids 0 "[]"] by (simp add: match_prefix_def)

lemma abs_match_length: "length (abs_match m before ids) \<le> length ids"
  by (induction ids arbitrary: before) (auto split: option.splits)

lemma abs_match_nth:
  "k < length (abs_match m before ids) \<Longrightarrow>
     m (before @ take (Suc k) ids) = Some (abs_match m before ids ! k)"
proof (induction ids arbitrary: before k)
  case (Cons t ts)
  show ?case
  proof (cases k)
    case 0
    then show ?thesis using Cons.prems by (auto split: option.splits)
  next
    case (Suc j)
    then show ?thesis
      using Cons.prems Cons.IH [of j "before @ [t]"] by (auto split: option.splits)
  qed
qed simp

lemma abs_match_stops:
  "length (abs_match m before ids) < length ids \<Longrightarrow>
     m (before @ take (Suc (length (abs_match m before ids))) ids) = None"
proof (induction ids arbitrary: before)
  case (Cons t ts)
  then show ?case using Cons.IH [of "before @ [t]"] by (auto split: option.splits)
qed simp

lemma abs_match_greatest:
  assumes "n \<le> length ids" and "\<And>k. k < n \<Longrightarrow> m (before @ take (Suc k) ids) \<noteq> None"
  shows "n \<le> length (abs_match m before ids)"
proof (rule ccontr)
  assume "\<not> n \<le> length (abs_match m before ids)"
  then have "length (abs_match m before ids) < n" by simp
  then show False using assms(1) assms(2) [of "length (abs_match m before ids)"]
      abs_match_stops [of m before ids] by simp
qed

lemma abs_match_insert:
  assumes "length ids = length pages"
  shows "k < length ids \<Longrightarrow> abs_match (abs_insert m ids pages) [] (ids @ rest) ! k = pages ! k"
    and "length ids \<le> length (abs_match (abs_insert m ids pages) [] (ids @ rest))"
proof -
  let ?m = "abs_insert m ids pages"
  have present: "?m (take (Suc k) (ids @ rest)) = Some (pages ! k)" if "k < length ids" for k
    using that by (auto simp: abs_insert_def take_is_prefix)
  then show le: "length ids \<le> length (abs_match ?m [] (ids @ rest))"
    by (intro abs_match_greatest) auto
  show "k < length ids \<Longrightarrow> abs_match ?m [] (ids @ rest) ! k = pages ! k"
    using abs_match_nth [of k ?m "[]" "ids @ rest"] present [of k] le by simp
qed

lemma abs_match_mono:
  "(\<And>path. m path \<noteq> None \<Longrightarrow> m' path \<noteq> None) \<Longrightarrow>
     length (abs_match m before ids) \<le> length (abs_match m' before ids)"
  by (induction ids arbitrary: before) (fastforce split: option.splits)+


lemma abs_insert_keeps: "m path \<noteq> None \<Longrightarrow> abs_insert m ids pages path \<noteq> None"
  by (simp add: abs_insert_def)

lemma page_aligned_eq:
  "match_prefix_page_aligned c ids ps =
     (let n = length (abs_match (page_at c) [] ids) div ps * ps
      in \<lparr> matched_token_count = n, cache_pages = take n (abs_match (page_at c) [] ids),
            remaining_input_ids = drop n ids \<rparr>)"
  by (simp add: match_prefix_page_aligned_def match_prefix_eq Let_def)

text \<open>What the scheduler uses of an aligned match: the counts and lists agree.\<close>

lemma page_aligned_facts:
  assumes "m = match_prefix_page_aligned c ids ps"
  shows "length (cache_pages m) = matched_token_count m"
    and "remaining_input_ids m = drop (matched_token_count m) ids"
    and "matched_token_count m \<le> length ids" and "ps dvd matched_token_count m"
proof -
  let ?n = "length (abs_match (page_at c) [] ids)"
  have "?n div ps * ps \<le> length ids"
    by (rule order.trans [OF div_times_less_eq_dividend abs_match_length])
  then show "length (cache_pages m) = matched_token_count m"
    and "remaining_input_ids m = drop (matched_token_count m) ids"
    and "matched_token_count m \<le> length ids" and "ps dvd matched_token_count m"
    using abs_match_length [of "page_at c" "[]" ids]
    by (auto simp: assms page_aligned_eq Let_def)
qed

section \<open>Properties\<close>

text \<open>
  A store of pages indexed by token paths: the contract between the scheduler, which publishes the
  pages of a prompt and later asks for the longest stored prefix, and the trie that implements it.
\<close>

locale prefix_store =
  fixes lookup :: "'c \<Rightarrow> u32 list \<Rightarrow> cache_page_id option"
    and publish :: "'c \<Rightarrow> u32 list \<Rightarrow> cache_page_id list \<Rightarrow> ('e, 'c) outcome"
    and longest :: "'c \<Rightarrow> u32 list \<Rightarrow> cache_page_id list"
  assumes publish_ok: "length ids = length pages \<Longrightarrow> \<exists>c'. publish c ids pages = Ok c'"
    and publish_length: "publish c ids pages = Ok c' \<Longrightarrow> length ids = length pages"
    and lookup_publish: "publish c ids pages = Ok c' \<Longrightarrow> lookup c' = abs_insert (lookup c) ids pages"
    and longest_eq: "longest c ids = abs_match (lookup c) [] ids"
begin

lemma longest_after_publish:
  assumes "publish c ids pages = Ok c'"
  shows "take (length ids) (longest c' (ids @ rest)) = pages"
proof (rule nth_equalityI)
  note len = publish_length [OF assms]
  note ins = abs_match_insert [OF len, where m = "lookup c" and rest = rest]
  have eq: "longest c' (ids @ rest) = abs_match (abs_insert (lookup c) ids pages) [] (ids @ rest)"
    by (simp add: longest_eq lookup_publish [OF assms])
  show "length (take (length ids) (longest c' (ids @ rest))) = length pages"
    using ins(2) len by (simp add: eq)
  fix k assume "k < length (take (length ids) (longest c' (ids @ rest)))"
  then show "take (length ids) (longest c' (ids @ rest)) ! k = pages ! k"
    using ins(1) by (simp add: eq)
qed

lemma longest_grows:
  assumes "publish c ids pages = Ok c'"
  shows "length (longest c other) \<le> length (longest c' other)"
  unfolding longest_eq lookup_publish [OF assms]
  by (rule abs_match_mono) (rule abs_insert_keeps)

lemma longest_characterised:
  shows "length (longest c ids) \<le> length ids"
    and "k < length (longest c ids) \<Longrightarrow> lookup c (take (Suc k) ids) = Some (longest c ids ! k)"
    and "length (longest c ids) < length ids \<Longrightarrow>
           lookup c (take (Suc (length (longest c ids))) ids) = None"
  unfolding longest_eq
  using abs_match_length abs_match_nth [of k "lookup c" "[]" ids] abs_match_stops [of "lookup c" "[]" ids]
  by simp_all

end

interpretation radix: prefix_store page_at radix_insert "\<lambda>c ids. cache_pages (match_prefix c ids)"
proof unfold_locales
  fix c c' ids pages
  show "length ids = length pages \<Longrightarrow> \<exists>c'. radix_insert c ids pages = Ok c'"
    by (simp add: radix_insert_def)
  show "radix_insert c ids pages = Ok c' \<Longrightarrow> length ids = length pages"
    by (simp add: radix_insert_def split: if_splits)
  show "radix_insert c ids pages = Ok c' \<Longrightarrow> page_at c' = abs_insert (page_at c) ids pages"
    by (rule page_at_radix_insert)
  show "cache_pages (match_prefix c ids) = abs_match (page_at c) [] ids"
    by (simp add: match_prefix_eq)
qed

text \<open>
  Publishing the pages of a prompt in the prefix cache and matching any continuation of that
  prompt afterwards returns exactly the published pages for the prompt's tokens, and no prefix that
  was matched before becomes shorter.
\<close>

theorem insert_then_match_prefix:
  assumes "radix_insert c ids pages = Ok c'"
  shows "take (length ids) (cache_pages (match_prefix c' (ids @ rest))) = pages \<and>
         length ids \<le> matched_token_count (match_prefix c' (ids @ rest)) \<and>
         matched_token_count (match_prefix c other) \<le> matched_token_count (match_prefix c' other)"
proof -
  have cnt: "matched_token_count (match_prefix d xs) = length (cache_pages (match_prefix d xs))" for d xs
    by (simp add: match_prefix_eq)
  have t: "take (length ids) (cache_pages (match_prefix c' (ids @ rest))) = pages"
    by (rule radix.longest_after_publish [OF assms])
  then have "length (take (length ids) (cache_pages (match_prefix c' (ids @ rest)))) = length ids"
    using radix.publish_length [OF assms] by simp
  then have "length ids \<le> matched_token_count (match_prefix c' (ids @ rest))"
    by (simp add: cnt)
  with t show ?thesis
    using radix.longest_grows [OF assms, of other] by (simp add: cnt)
qed

theorem insert_then_match_prefix_witness:
  "\<exists>c'. radix_insert radix_default [7, 8] [3, 4] = Ok c' \<and>
        take 2 (cache_pages (match_prefix c' [7, 8, 9])) = [3, 4]"
proof -
  obtain c' where ok: "radix_insert radix_default [7, 8] [3, 4] = Ok c'"
    by (simp add: radix_insert_def)
  show ?thesis
    using ok insert_then_match_prefix [OF ok, of "[9]"] by (simp add: numeral_2_eq_2)
qed

text \<open>
  (C8) \<open>match_prefix\<close> is the longest-prefix search on the stored paths: the count, the pages and
  the rest of the input agree, every counted prefix is stored under the returned page, and the next
  longer prefix is not stored.
\<close>

theorem match_prefix_longest:
  fixes c :: radix_cache and ids :: "u32 list"
  defines "m \<equiv> match_prefix c ids"
  shows "matched_token_count m = length (cache_pages m) \<and>
         remaining_input_ids m = drop (matched_token_count m) ids \<and>
         matched_token_count m \<le> length ids \<and>
         (k < matched_token_count m \<longrightarrow> page_at c (take (Suc k) ids) = Some (cache_pages m ! k)) \<and>
         (matched_token_count m < length ids \<longrightarrow>
            page_at c (take (Suc (matched_token_count m)) ids) = None)"
proof -
  have cnt: "matched_token_count m = length (cache_pages m)"
    and "remaining_input_ids m = drop (matched_token_count m) ids"
    by (simp_all add: m_def match_prefix_eq)
  then show ?thesis
    using radix.longest_characterised [where c = c and ids = ids, folded m_def] by (simp add: m_def)
qed

definition sample_cache :: radix_cache where
  "sample_cache = radix_insert_loop radix_default [(7, 3), (8, 4)]"

theorem match_prefix_longest_witness:
  "matched_token_count (match_prefix sample_cache [7, 8, 9]) = 2 \<and>
   page_at sample_cache (take (Suc 1) [7, 8, 9]) = Some 4 \<and>
   page_at sample_cache (take (Suc 2) [7, 8, 9]) = None"
proof -
  have m: "match_prefix sample_cache [7, 8, 9] =
      \<lparr>matched_token_count = 2, cache_pages = [3, 4], remaining_input_ids = [9]\<rparr>"
    by code_simp
  show ?thesis
    using match_prefix_longest [of sample_cache "[7, 8, 9]" 1] by (simp add: m)
qed

end
