(* ===== verification/Block_Hash.thy ===== *)
theory Block_Hash
  imports Sgl_Prelude
begin

text \<open>
  The block hash chain of \<open>crates/sglang-srt/src/cache.rs\<close> (\<open>compute_sglang_block_hashes\<close>,
  \<open>sglang_hash_block\<close>, \<open>sglang_sha256_digest_to_i64\<close>).  SHA-256 itself is the \<open>sha2\<close> crate and a
  parameter \<open>sha256\<close> of the definitions; no property needs more of it than that it is a function.
\<close>

section \<open>Definitions\<close>

text \<open>Rust's \<open>slice::chunks\<close> (which panics for a zero size; the callers test that first).\<close>

function chunks :: "nat \<Rightarrow> 'a list \<Rightarrow> 'a list list" where
  "chunks n xs = (if n = 0 \<or> xs = [] then [] else take n xs # chunks n (drop n xs))"
  by pat_completeness auto
termination
  by (relation "measure (\<lambda>(n, xs). length xs)") auto

declare chunks.simps [simp del]

definition u32_to_le_bytes :: "u32 \<Rightarrow> u8 list" where
  "u32_to_le_bytes w = map (\<lambda>i. ucast (drop_bit (8 * i) w)) [0 ..< 4]"

definition i64_from_be_bytes :: "u8 list \<Rightarrow> int" where
  "i64_from_be_bytes bs = sint (foldl (\<lambda>acc b. push_bit 8 acc + ucast b) (0 :: u64) bs)"

definition sglang_sha256_digest_to_i64 :: "u8 list \<Rightarrow> int" where
  "sglang_sha256_digest_to_i64 digest = i64_from_be_bytes (take 8 digest)"

definition sglang_hash_block ::
  "(u8 list \<Rightarrow> u8 list) \<Rightarrow> u8 list option \<Rightarrow> u32 list \<Rightarrow> u8 list" where
  "sglang_hash_block sha256 parent_digest input_ids =
     sha256 ((case parent_digest of None \<Rightarrow> [] | Some d \<Rightarrow> d) @
             concat (map u32_to_le_bytes input_ids))"

fun hash_blocks ::
  "(u8 list \<Rightarrow> u8 list) \<Rightarrow> u8 list option \<Rightarrow> u32 list list \<Rightarrow> int list" where
  "hash_blocks sha256 parent [] = []"
| "hash_blocks sha256 parent (block # blocks) =
     (let digest = sglang_hash_block sha256 parent block
      in sglang_sha256_digest_to_i64 digest # hash_blocks sha256 (Some digest) blocks)"

definition compute_sglang_block_hashes ::
  "(u8 list \<Rightarrow> u8 list) \<Rightarrow> u32 list \<Rightarrow> usize \<Rightarrow> ('e, int list) outcome" where
  "compute_sglang_block_hashes sha256 input_ids block_size =
     (if block_size = 0 then Panic
      else if input_ids = [] then Ok []
      else Ok (hash_blocks sha256 None (chunks block_size input_ids)))"

section \<open>Chunks\<close>

lemma chunks_Nil [simp]: "chunks n [] = []"
  by (simp add: chunks.simps)

lemma chunks_append_multiple:
  assumes "0 < n" and "n dvd length xs"
  shows "chunks n (xs @ ys) = chunks n xs @ chunks n ys"
  using assms(2)
proof (induction n xs rule: chunks.induct)
  case (1 n xs)
  show ?case
  proof (cases "n = 0 \<or> xs = []")
    case True
    then show ?thesis using "1.prems" by (auto simp: chunks.simps [of 0])
  next
    case False
    then have le: "n \<le> length xs" using "1.prems" by (auto intro: dvd_imp_le)
    moreover have "n dvd length (drop n xs)" using "1.prems" le by (simp add: dvd_diff_nat)
    ultimately show ?thesis
      using False "1.IH" by (simp add: chunks.simps [of n "xs @ ys"] chunks.simps [of n xs])
  qed
qed

lemma length_chunks: "0 < n \<Longrightarrow> length (chunks n xs) = div_ceil (length xs) n"
proof (induction n xs rule: chunks.induct)
  case (1 n xs)
  show ?case
  proof (cases "xs = []")
    case False
    then have "div_ceil (length xs) n = Suc (div_ceil (length xs - min (length xs) n) n)"
      using div_ceil_step "1.prems" by simp
    moreover have "length xs - min (length xs) n = length xs - n" by simp
    ultimately show ?thesis
      using False "1.IH" "1.prems" by (simp add: chunks.simps [of n xs])
  qed simp
qed

lemma concat_chunks: "0 < n \<Longrightarrow> concat (chunks n xs) = xs"
proof (induction n xs rule: chunks.induct)
  case (1 n xs)
  then show ?case by (cases "xs = []") (simp_all add: chunks.simps [of n xs])
qed

section \<open>The hash chain\<close>

lemma length_hash_blocks [simp]: "length (hash_blocks sha parent bs) = length bs"
  by (induction bs arbitrary: parent) (simp_all add: Let_def)

fun last_digest :: "(u8 list \<Rightarrow> u8 list) \<Rightarrow> u8 list option \<Rightarrow> u32 list list \<Rightarrow> u8 list option" where
  "last_digest sha parent [] = parent"
| "last_digest sha parent (b # bs) = last_digest sha (Some (sglang_hash_block sha parent b)) bs"

lemma hash_blocks_append:
  "hash_blocks sha parent (bs @ cs) =
     hash_blocks sha parent bs @ hash_blocks sha (last_digest sha parent bs) cs"
  by (induction bs arbitrary: parent) (simp_all add: Let_def)

lemma hash_blocks_prefix_multiple:
  assumes "0 < n" and "n dvd k" and "k \<le> length xs"
  shows "hash_blocks sha None (chunks n (take k xs)) =
         take (k div n) (hash_blocks sha None (chunks n xs))"
proof -
  have "chunks n (take k xs @ drop k xs) = chunks n (take k xs) @ chunks n (drop k xs)"
    using assms by (intro chunks_append_multiple) (simp_all add: min_absorb2)
  then have "chunks n xs = chunks n (take k xs) @ chunks n (drop k xs)" by simp
  moreover have "length (chunks n (take k xs)) = k div n"
    using assms by (auto simp: length_chunks min_absorb2 div_ceil_def)
  ultimately show ?thesis by (simp add: hash_blocks_append)
qed

text \<open>
  The hash chain is incremental: hashing the first \<open>k\<close> tokens of a prompt, \<open>k\<close> a multiple of
  the block size, gives exactly the first \<open>k div block_size\<close> hashes of the whole prompt, and the
  prompt of \<open>n\<close> tokens has \<open>n\<close> divided by the block size, rounded up, hashes.  So a block hash
  identifies the tokens from the start of the prompt up to the end of the block, independently of
  what follows.
\<close>

theorem block_hashes_incremental:
  assumes "0 < block_size" and "block_size dvd k" and "k \<le> length input_ids"
    and "compute_sglang_block_hashes sha256 input_ids block_size = Ok hashes"
  shows "compute_sglang_block_hashes sha256 (take k input_ids) block_size =
           Ok (take (k div block_size) hashes) \<and>
         length hashes = div_ceil (length input_ids) block_size"
proof -
  have h: "hashes = hash_blocks sha256 None (chunks block_size input_ids)"
    using assms(1,4) by (auto simp: compute_sglang_block_hashes_def split: if_splits)
  have "compute_sglang_block_hashes sha256 (take k input_ids) block_size =
        Ok (hash_blocks sha256 None (chunks block_size (take k input_ids)))"
    using assms(1) by (auto simp: compute_sglang_block_hashes_def)
  with h assms show ?thesis
    by (simp add: hash_blocks_prefix_multiple length_chunks)
qed

text \<open>A stand-in digest for the witnesses: 32 bytes, the sum of the message in each.\<close>

definition sum_digest :: "u8 list \<Rightarrow> u8 list" where
  "sum_digest msg = replicate 32 (sum_list msg)"

theorem block_hashes_incremental_witness:
  "\<exists>hashes. compute_sglang_block_hashes sum_digest [1, 2, 3, 4, 5] 2 = (Ok hashes :: (unit, int list) outcome) \<and>
     compute_sglang_block_hashes sum_digest (take 4 [1, 2, 3, 4, 5]) 2 =
       (Ok (take 2 hashes) :: (unit, int list) outcome) \<and> length hashes = 3"
proof -
  obtain hashes where ok: "compute_sglang_block_hashes sum_digest [1, 2, 3, 4, 5] 2 =
      (Ok hashes :: (unit, int list) outcome)"
    by (simp add: compute_sglang_block_hashes_def)
  show ?thesis
    using ok block_hashes_incremental [OF _ _ _ ok, of 4] by (auto simp: div_ceil_def)
qed

end
