(* ===== verification/State_Events.thy ===== *)
theory State_Events
  imports Block_Hash
begin

text \<open>
  The KV state events of \<open>crates/sglang-srt/src/transfer/state_events.rs\<close>: \<open>ReusableBoundary\<close>,
  \<open>BlockStoredEvent::from_chunk\<close>, \<open>BlockRemovedEvent\<close> and the publishers \<open>Noop\<close>, \<open>Recording\<close>
  and \<open>Composite\<close>.  A publisher is the record of what it has published; the broadcast channel and the
  ZeroMQ socket publisher are transport and are not modelled.
\<close>

section \<open>Definitions\<close>

record reusable_boundary =
  start_token :: usize
  end_token :: usize
  tier :: string

definition boundary_token_count :: "reusable_boundary \<Rightarrow> usize" where
  "boundary_token_count b = end_token b - start_token b"

record block_stored_event =
  ev_request_id :: string
  ev_block_hashes :: "int list"
  ev_parent_block_hash :: "int option"
  ev_token_ids :: "u32 list"
  ev_block_size :: usize
  ev_data_parallel_rank :: int
  ev_prompt_tokens_processed :: usize
  ev_total_prompt_tokens :: usize
  ev_is_final_chunk :: bool
  ev_boundary :: reusable_boundary

text \<open>
  The slices \<open>full_prompt[start..end]\<close> and \<open>prefix_hashes[start_block_idx..]\<close> panic when their start
  lies behind their end.
\<close>

definition from_chunk ::
  "(u8 list \<Rightarrow> u8 list) \<Rightarrow> string \<Rightarrow> u32 list \<Rightarrow> usize \<times> usize \<Rightarrow> usize \<Rightarrow> int \<Rightarrow>
   (unit, block_stored_event) outcome" where
  "from_chunk sha256 rid full_prompt chunk_range block_size dp_rank =
     (let start = fst chunk_range;
          stop = min (snd chunk_range) (length full_prompt)
      in if block_size = 0 \<or> start > stop then Panic
         else and_then (compute_sglang_block_hashes sha256 (take stop full_prompt) block_size)
           (\<lambda>prefix_hashes.
              let start_block_idx = start div block_size
              in if start_block_idx > length prefix_hashes then Panic
                 else Ok \<lparr> ev_request_id = rid,
                           ev_block_hashes = drop start_block_idx prefix_hashes,
                           ev_parent_block_hash =
                             (if start_block_idx > 0
                              then (if start_block_idx - 1 < length prefix_hashes
                                    then Some (prefix_hashes ! (start_block_idx - 1)) else None)
                              else None),
                           ev_token_ids = take (stop - start) (drop start full_prompt),
                           ev_block_size = block_size,
                           ev_data_parallel_rank = dp_rank,
                           ev_prompt_tokens_processed = stop,
                           ev_total_prompt_tokens = length full_prompt,
                           ev_is_final_chunk = (stop \<ge> length full_prompt),
                           ev_boundary = \<lparr>start_token = start, end_token = stop, tier = ''GPU''\<rparr> \<rparr>))"

record block_removed_event =
  rm_block_hashes :: "int list"
  rm_data_parallel_rank :: int

text \<open>The trait \<open>KvStateEventPublisher\<close>: each implementation changes its own log.\<close>

record event_log =
  stored_events :: "block_stored_event list"
  removed_events :: "block_removed_event list"
  cleared_count :: usize

datatype publisher =
    NoopPublisher
  | RecordingPublisher event_log
  | CompositePublisher "publisher list"

definition empty_log :: event_log where
  "empty_log = \<lparr>stored_events = [], removed_events = [], cleared_count = 0\<rparr>"

fun publish_block_stored :: "publisher \<Rightarrow> block_stored_event \<Rightarrow> publisher" where
  "publish_block_stored NoopPublisher e = NoopPublisher"
| "publish_block_stored (RecordingPublisher l) e =
     RecordingPublisher (l\<lparr>stored_events := stored_events l @ [e]\<rparr>)"
| "publish_block_stored (CompositePublisher ps) e =
     CompositePublisher (map (\<lambda>p. publish_block_stored p e) ps)"

fun publish_block_removed :: "publisher \<Rightarrow> block_removed_event \<Rightarrow> publisher" where
  "publish_block_removed NoopPublisher e = NoopPublisher"
| "publish_block_removed (RecordingPublisher l) e =
     RecordingPublisher (l\<lparr>removed_events := removed_events l @ [e]\<rparr>)"
| "publish_block_removed (CompositePublisher ps) e =
     CompositePublisher (map (\<lambda>p. publish_block_removed p e) ps)"

fun publish_all_blocks_cleared :: "publisher \<Rightarrow> publisher" where
  "publish_all_blocks_cleared NoopPublisher = NoopPublisher"
| "publish_all_blocks_cleared (RecordingPublisher l) =
     RecordingPublisher (l\<lparr>cleared_count := cleared_count l + 1\<rparr>)"
| "publish_all_blocks_cleared (CompositePublisher ps) =
     CompositePublisher (map publish_all_blocks_cleared ps)"

definition composite_push :: "publisher list \<Rightarrow> publisher \<Rightarrow> publisher list" where
  "composite_push ps p = ps @ [p]"

section \<open>Events of consecutive chunks\<close>

lemma from_chunk_Ok:
  assumes "0 < bs" and "start \<le> stop" and "stop \<le> length prompt"
  shows "\<exists>e. from_chunk sha rid prompt (start, stop) bs rank = Ok e \<and>
           ev_block_hashes e =
             drop (start div bs) (hash_blocks sha None (chunks bs (take stop prompt))) \<and>
           ev_parent_block_hash e =
             (if 0 < start div bs
              then Some (hash_blocks sha None (chunks bs prompt) ! (start div bs - 1)) else None) \<and>
           ev_token_ids e = take (stop - start) (drop start prompt) \<and>
           ev_is_final_chunk e = (stop = length prompt)"
proof -
  let ?h = "hash_blocks sha None (chunks bs (take stop prompt))"
  have c: "compute_sglang_block_hashes sha (take stop prompt) bs = (Ok ?h :: (unit, int list) outcome)"
    using assms by (auto simp: compute_sglang_block_hashes_def)
  have len: "length ?h = div_ceil stop bs"
    using assms by (simp add: length_chunks min_absorb2)
  have "start div bs \<le> stop div bs" using assms(2) by (rule div_le_mono)
  then have le: "start div bs \<le> length ?h" unfolding len by (simp add: div_ceil_def)
  have par: "?h ! (start div bs - 1) = hash_blocks sha None (chunks bs prompt) ! (start div bs - 1)"
    if "0 < start div bs"
  proof -
    let ?k = "start div bs * bs"
    have k: "?k \<le> stop" by (rule order.trans [OF div_times_less_eq_dividend assms(2)])
    have "hash_blocks sha None (chunks bs (take ?k (take stop prompt))) = take (start div bs) ?h"
      using hash_blocks_prefix_multiple [of bs ?k "take stop prompt" sha] assms k by simp
    moreover have "hash_blocks sha None (chunks bs (take ?k prompt)) =
        take (start div bs) (hash_blocks sha None (chunks bs prompt))"
      using hash_blocks_prefix_multiple [of bs ?k prompt sha] assms k by simp
    ultimately have "take (start div bs) ?h = take (start div bs) (hash_blocks sha None (chunks bs prompt))"
      using k by (simp add: min_absorb1)
    then show ?thesis using that by (metis diff_less nth_take zero_less_one)
  qed
  show ?thesis
    using assms c le par by (auto simp: from_chunk_def Let_def min_absorb1 min_absorb2)
qed

text \<open>
  Events of consecutive prefill chunks chain up: when a chunk starts where the previous one ended,
  on a block boundary, the hashes published by the two events together are the hashes of the prompt
  up to the end of the second, the parent hash of the second event is the last hash of the first, and
  the two token slices joined are the tokens covered.
\<close>

theorem chunk_events_chain:
  assumes "0 < bs" and "i \<le> j" and "j \<le> k" and "k \<le> length prompt"
    and "bs dvd i" and "bs dvd j" and "i < j"
    and "from_chunk sha256 rid prompt (i, j) bs rank = Ok e1"
    and "from_chunk sha256 rid prompt (j, k) bs rank = Ok e2"
  shows "ev_block_hashes e1 @ ev_block_hashes e2 =
           drop (i div bs) (hash_blocks sha256 None (chunks bs (take k prompt))) \<and>
         ev_parent_block_hash e2 = Some (last (ev_block_hashes e1)) \<and>
         ev_token_ids e1 @ ev_token_ids e2 = take (k - i) (drop i prompt)"
proof -
  let ?H = "hash_blocks sha256 None (chunks bs prompt)"
  let ?Hk = "hash_blocks sha256 None (chunks bs (take k prompt))"
  let ?Hj = "hash_blocks sha256 None (chunks bs (take j prompt))"
  obtain e1h: "ev_block_hashes e1 = drop (i div bs) ?Hj"
    and e1t: "ev_token_ids e1 = take (j - i) (drop i prompt)"
    using from_chunk_Ok [of bs i j prompt sha256 rid rank] assms by auto
  obtain e2h: "ev_block_hashes e2 = drop (j div bs) ?Hk"
    and e2p: "ev_parent_block_hash e2 = (if 0 < j div bs then Some (?H ! (j div bs - 1)) else None)"
    and e2t: "ev_token_ids e2 = take (k - j) (drop j prompt)"
    using from_chunk_Ok [of bs j k prompt sha256 rid rank] assms by auto
  have Hj: "?Hj = take (j div bs) ?Hk"
    using hash_blocks_prefix_multiple [of bs j "take k prompt" sha256] assms
    by (simp add: min_absorb1)
  have Hj': "?Hj = take (j div bs) ?H"
    using hash_blocks_prefix_multiple [of bs j prompt sha256] assms by simp
  have ij: "i div bs < j div bs"
    using assms(1,5,6,7) by (metis dvd_div_mult_self div_le_mono less_imp_le le_neq_implies_less nat_neq_iff)
  have lenHj: "length ?Hj = j div bs"
    using assms by (simp add: length_chunks min_absorb2 div_ceil_def)
  have "take (j div bs) ?Hk @ drop (j div bs) ?Hk = ?Hk" by simp
  then have hashes: "ev_block_hashes e1 @ ev_block_hashes e2 = drop (i div bs) ?Hk"
    unfolding e1h e2h Hj using ij lenHj Hj
    by (metis (no_types, lifting) append_take_drop_id drop_append length_drop less_imp_le diff_is_0_eq drop0)
  have "last (ev_block_hashes e1) = ?Hj ! (j div bs - 1)"
    using ij lenHj by (simp add: e1h last_drop last_conv_nth)
  also have "\<dots> = ?H ! (j div bs - 1)" using ij Hj' by simp
  finally have "ev_parent_block_hash e2 = Some (last (ev_block_hashes e1))"
    using e2p ij by simp
  moreover have "take (j - i) (drop i prompt) @ take (k - j) (drop j prompt) = take (k - i) (drop i prompt)"
    using assms(2,3) take_add [of "j - i" "k - j" "drop i prompt"] by (simp add: add.commute)
  ultimately show ?thesis using hashes e1t e2t by simp
qed


theorem chunk_events_chain_witness:
  "\<exists>e1 e2. from_chunk sum_digest ''r'' [1, 2, 3, 4, 5] (0, 2) 2 0 = Ok e1 \<and>
     from_chunk sum_digest ''r'' [1, 2, 3, 4, 5] (2, 5) 2 0 = Ok e2 \<and>
     ev_parent_block_hash e2 = Some (last (ev_block_hashes e1)) \<and>
     ev_token_ids e1 @ ev_token_ids e2 = [1, 2, 3, 4, 5]"
proof -
  obtain e1 where e1: "from_chunk sum_digest ''r'' [1, 2, 3, 4, 5] (0, 2) 2 0 = Ok e1"
    using from_chunk_Ok [of 2 0 2 "[1, 2, 3, 4, 5]" sum_digest "''r''" 0] by auto
  obtain e2 where e2: "from_chunk sum_digest ''r'' [1, 2, 3, 4, 5] (2, 5) 2 0 = Ok e2"
    using from_chunk_Ok [of 2 2 5 "[1, 2, 3, 4, 5]" sum_digest "''r''" 0] by auto
  show ?thesis
    using e1 e2 chunk_events_chain [OF _ _ _ _ _ _ _ e1 e2] by auto
qed

end
