(* ===== verification/Sched_Types.thy ===== *)
theory Sched_Types
  imports Radix_Cache State_Events
begin

text \<open>
  The data the scheduler works on: \<open>crates/sglang-srt/src/types.rs\<close> (request ids, sampling and
  disaggregation parameters), the \<open>ScheduledRequest\<close>, \<open>ScheduleBatch\<close> and error types of
  \<open>scheduler.rs\<close>, and the worker types and traits of \<open>worker.rs\<close>.  Getters are record selectors and
  one-field setters are record updates; the methods that compute are definitions.
\<close>

section \<open>Request parameters (types.rs)\<close>

type_synonym request_id = string

text \<open>The sampling parameters are only carried along; an \<open>f32\<close> is its bit pattern.\<close>

type_synonym f32 = u32

record sampling_params =
  max_new_tokens :: usize
  temperature :: "f32 option"
  top_p :: "f32 option"
  top_k :: "int option"
  min_p :: "f32 option"
  frequency_penalty :: "f32 option"
  presence_penalty :: "f32 option"
  repetition_penalty :: "f32 option"
  stop_token_ids :: "u32 list"
  ignore_eos :: bool

definition sampling_new :: "usize \<Rightarrow> sampling_params" where
  "sampling_new n = \<lparr> max_new_tokens = n, temperature = None, top_p = None, top_k = None,
     min_p = None, frequency_penalty = None, presence_penalty = None, repetition_penalty = None,
     stop_token_ids = [], ignore_eos = False \<rparr>"

definition FAKE_BOOTSTRAP_HOST :: string where
  "FAKE_BOOTSTRAP_HOST = ''2.2.2.2''"

record disaggregated_params =
  bootstrap_host :: string
  bootstrap_port :: "16 word"
  bootstrap_room :: u64

section \<open>Scheduled requests (scheduler.rs)\<close>

datatype request_stage = PrefillWaiting | PrefillForward | DecodeWaiting | DecodeForward | Finished

datatype forward_mode = Prefill | Decode | Mixed

datatype prefix_cache_policy = Enabled | Disabled

record scheduled_request =
  request_id :: request_id
  input_ids :: "u32 list"
  output_ids :: "u32 list"
  allocated_cache_pages :: "cache_page_id list"
  forward_cache_pages :: "cache_page_id list"
  sequence_cache_pages :: "cache_page_id list"
  cache_hit_token_count :: usize
  sampling :: sampling_params
  disagg_params :: "disaggregated_params option"
  data_parallel_rank :: int
  req_prefix_match :: prefix_match
  stage :: request_stage
  prompt_tokens_processed :: usize
  current_chunk_len :: usize

definition scheduled_request_new ::
  "request_id \<Rightarrow> u32 list \<Rightarrow> sampling_params \<Rightarrow> scheduled_request" where
  "scheduled_request_new rid ids params =
     \<lparr> request_id = rid, input_ids = ids, output_ids = [], allocated_cache_pages = [],
       forward_cache_pages = [], sequence_cache_pages = [], cache_hit_token_count = 0,
       sampling = params, disagg_params = None, data_parallel_rank = 0,
       req_prefix_match = \<lparr> matched_token_count = 0, cache_pages = [], remaining_input_ids = ids \<rparr>,
       stage = PrefillWaiting, prompt_tokens_processed = 0, current_chunk_len = 0 \<rparr>"

definition with_disaggregated_params ::
  "disaggregated_params option \<Rightarrow> scheduled_request \<Rightarrow> scheduled_request" where
  "with_disaggregated_params d r = r\<lparr>disagg_params := d\<rparr>"

definition with_data_parallel_rank :: "int \<Rightarrow> scheduled_request \<Rightarrow> scheduled_request" where
  "with_data_parallel_rank rank r = r\<lparr>data_parallel_rank := rank\<rparr>"

definition skips_radix_cache_insert :: "scheduled_request \<Rightarrow> bool" where
  "skips_radix_cache_insert r =
     (case disagg_params r of None \<Rightarrow> False | Some d \<Rightarrow> bootstrap_host d = FAKE_BOOTSTRAP_HOST)"

definition uncached_input_ids :: "scheduled_request \<Rightarrow> u32 list" where
  "uncached_input_ids r = remaining_input_ids (req_prefix_match r)"

definition append_sequence_cache_pages ::
  "cache_page_id list \<Rightarrow> scheduled_request \<Rightarrow> scheduled_request" where
  "append_sequence_cache_pages pages r =
     r\<lparr>sequence_cache_pages := sequence_cache_pages r @ pages\<rparr>"

definition is_prefill_complete :: "scheduled_request \<Rightarrow> bool" where
  "is_prefill_complete r \<longleftrightarrow> prompt_tokens_processed r \<ge> length (input_ids r)"

definition remaining_prompt_tokens :: "scheduled_request \<Rightarrow> usize" where
  "remaining_prompt_tokens r = length (input_ids r) - prompt_tokens_processed r"

definition advance_prompt_tokens :: "usize \<Rightarrow> scheduled_request \<Rightarrow> scheduled_request" where
  "advance_prompt_tokens n r =
     r\<lparr>prompt_tokens_processed := min (prompt_tokens_processed r + n) (length (input_ids r))\<rparr>"

definition clear_forward_chunk_tracking :: "scheduled_request \<Rightarrow> scheduled_request" where
  "clear_forward_chunk_tracking r =
     r\<lparr>allocated_cache_pages := [], forward_cache_pages := [], current_chunk_len := 0\<rparr>"

definition clear_forward_cache_allocation :: "scheduled_request \<Rightarrow> scheduled_request" where
  "clear_forward_cache_allocation r =
     (let allocated_page_count = length (allocated_cache_pages r);
          r' = (if allocated_page_count > 0
                then r\<lparr>sequence_cache_pages :=
                         take (length (sequence_cache_pages r) - allocated_page_count)
                           (sequence_cache_pages r)\<rparr>
                else r)
      in r'\<lparr>allocated_cache_pages := [], forward_cache_pages := [], current_chunk_len := 0\<rparr>)"

definition append_output_ids :: "u32 list \<Rightarrow> scheduled_request \<Rightarrow> scheduled_request" where
  "append_output_ids ids r = r\<lparr>output_ids := output_ids r @ ids\<rparr>"

definition reached_max_new_tokens :: "scheduled_request \<Rightarrow> bool" where
  "reached_max_new_tokens r \<longleftrightarrow> length (output_ids r) \<ge> max_new_tokens (sampling r)"

record scheduled_output =
  out_request_id :: request_id
  out_token_ids :: "u32 list"
  out_cached_tokens :: usize
  out_finished :: bool

record schedule_batch =
  batch_forward_mode :: forward_mode
  batch_requests :: "scheduled_request list"

definition batch_prefill :: "scheduled_request list \<Rightarrow> schedule_batch" where
  "batch_prefill rs = \<lparr>batch_forward_mode = Prefill, batch_requests = rs\<rparr>"

definition batch_decode :: "scheduled_request list \<Rightarrow> schedule_batch" where
  "batch_decode rs = \<lparr>batch_forward_mode = Decode, batch_requests = rs\<rparr>"

definition batch_mixed :: "scheduled_request list \<Rightarrow> schedule_batch" where
  "batch_mixed rs = \<lparr>batch_forward_mode = Mixed, batch_requests = rs\<rparr>"

definition batch_size :: "schedule_batch \<Rightarrow> usize" where
  "batch_size b = length (batch_requests b)"

definition total_uncached_tokens :: "schedule_batch \<Rightarrow> usize" where
  "total_uncached_tokens b = sum_list (map (\<lambda>r. length (uncached_input_ids r)) (batch_requests b))"

section \<open>Workers (worker.rs)\<close>

record generated_token =
  token_ids :: "u32 list"
  is_finished :: bool

datatype worker_output_error = BatchSizeMismatch usize usize

datatype worker_execution_error = WorkerOutput worker_output_error | WorkerRuntime string

definition from_batch ::
  "schedule_batch \<Rightarrow> generated_token list \<Rightarrow> (worker_output_error, generated_token list) outcome" where
  "from_batch b tokens =
     (if batch_size b \<noteq> length tokens then Err (BatchSizeMismatch (batch_size b) (length tokens))
      else Ok tokens)"

datatype decode_request_state = Ready | Pending | Failed string

record poll_summary =
  completed_batches :: usize
  failed_batches :: usize
  pending_batches :: usize
  completed_descriptor_checksums :: "string list"
  failed_descriptor_checksums :: "string list"
  pending_descriptor_checksums :: "string list"

datatype decode_bootstrap_registry_error =
    DuplicateBootstrapRoom u64
  | MissingBootstrapRoom u64

datatype transfer_error = TransferRegistry decode_bootstrap_registry_error | TransferRuntime string

text \<open>The \<open>Display\<close> text of worker errors, which \<open>poll_transfers\<close> wraps into a transfer error.\<close>

fun show_worker_output_error :: "worker_output_error \<Rightarrow> string" where
  "show_worker_output_error (BatchSizeMismatch request_count output_count) =
     ''batch output count ('' @ show_usize output_count @ '') must match request count ('' @
     show_usize request_count @ '')''"

fun show_worker_execution_error :: "worker_execution_error \<Rightarrow> string" where
  "show_worker_execution_error (WorkerOutput e) = ''worker output error: '' @ show_worker_output_error e"
| "show_worker_execution_error (WorkerRuntime e) = ''worker runtime error: '' @ e"

text \<open>
  The methods of the trait \<open>WorkerExecutor\<close> that the scheduler calls, over a worker state \<open>'w\<close>;
  \<open>&mut self\<close> methods return the new worker.  A \<open>Result\<close> of the worker is a sum, \<open>Inl\<close> the error.
\<close>

record 'w worker_executor =
  execute_batch :: "'w \<Rightarrow> schedule_batch \<Rightarrow> (worker_execution_error + generated_token list) \<times> 'w"
  request_state :: "'w \<Rightarrow> scheduled_request \<Rightarrow> worker_execution_error + decode_request_state"
  worker_poll :: "'w \<Rightarrow> (transfer_error + poll_summary) \<times> 'w"
  complete_request :: "'w \<Rightarrow> scheduled_request \<Rightarrow> 'w"
  finish_request :: "'w \<Rightarrow> scheduled_request \<Rightarrow> (worker_execution_error + unit) \<times> 'w"
  fail_request :: "'w \<Rightarrow> scheduled_request \<Rightarrow> 'w"
  worker_shutdown :: "'w \<Rightarrow> (worker_execution_error + unit) \<times> 'w"

datatype scheduler_error =
    EmptyQueue
  | RunningRequestLimitReached usize
  | DecodeNotReady request_id
  | CacheAllocation cache_allocation_error
  | WorkerError worker_execution_error

end
