(* ===== verification/Scheduler.thy ===== *)
theory Scheduler
  imports Sched_Types
begin

text \<open>
  The scheduler of \<open>crates/sglang-srt/src/scheduler.rs\<close>: queues, batch formation, dispatch,
  completion, abort, flush, transfer polling and shutdown.  The worker is a parameter: a record \<open>W\<close>
  of the methods of the trait \<open>WorkerExecutor\<close> over a worker state.  A method that changes the
  scheduler returns its result and the new state; \<open>Err\<close> results keep the mutations made before the
  error, as \<open>&mut self\<close> does.  Loops that pop a queue are recursions over that queue.
\<close>

record 'w scheduler =
  waiting_queue :: "scheduled_request list"
  decode_queue :: "scheduled_request list"
  prefix_cache :: radix_cache
  cache_policy :: prefix_cache_policy
  pending_prefix_cache_inserts :: "scheduled_request list"
  cache_page_allocator :: "page_allocator option"
  max_running_requests :: "usize option"
  chunked_prefill_size :: "usize option"
  event_publisher :: "publisher option"
  worker :: 'w

section \<open>Construction and small methods\<close>

definition with_cache_resources_and_policy ::
  "'w \<Rightarrow> radix_cache \<Rightarrow> page_allocator \<Rightarrow> prefix_cache_policy \<Rightarrow> 'w scheduler" where
  "with_cache_resources_and_policy w cache allocator p =
     \<lparr> waiting_queue = [], decode_queue = [], prefix_cache = cache, cache_policy = p,
       pending_prefix_cache_inserts = [], cache_page_allocator = Some allocator,
       max_running_requests = None, chunked_prefill_size = None, event_publisher = None,
       worker = w \<rparr>"

definition with_cache_resources :: "'w \<Rightarrow> radix_cache \<Rightarrow> page_allocator \<Rightarrow> 'w scheduler" where
  "with_cache_resources w cache allocator =
     \<lparr> waiting_queue = [], decode_queue = [], prefix_cache = cache, cache_policy = Enabled,
       pending_prefix_cache_inserts = [], cache_page_allocator = Some allocator,
       max_running_requests = None, chunked_prefill_size = None, event_publisher = None,
       worker = w \<rparr>"

definition with_prefix_cache :: "'w \<Rightarrow> radix_cache \<Rightarrow> 'w scheduler" where
  "with_prefix_cache w cache =
     \<lparr> waiting_queue = [], decode_queue = [], prefix_cache = cache, cache_policy = Enabled,
       pending_prefix_cache_inserts = [], cache_page_allocator = None,
       max_running_requests = None, chunked_prefill_size = None, event_publisher = None,
       worker = w \<rparr>"

definition scheduler_new :: "'w \<Rightarrow> 'w scheduler" where
  "scheduler_new w = with_prefix_cache w radix_default"

definition enqueue :: "scheduled_request \<Rightarrow> 'w scheduler \<Rightarrow> 'w scheduler" where
  "enqueue r s = s\<lparr>waiting_queue := waiting_queue s @ [r]\<rparr>"

definition available_cache_pages :: "'w scheduler \<Rightarrow> usize option" where
  "available_cache_pages s = map_option available_pages (cache_page_allocator s)"

text \<open>\<open>if let Some(allocator) = self.cache_page_allocator.as_mut() { allocator.release(..) }\<close>\<close>

definition release_opt :: "page_allocator option \<Rightarrow> cache_page_id list \<Rightarrow> page_allocator option" where
  "release_opt alloc pages = map_option (\<lambda>a. release a pages) alloc"

definition release_unpublished_cache_pages ::
  "scheduled_request \<Rightarrow> 'w scheduler \<Rightarrow> 'w scheduler" where
  "release_unpublished_cache_pages r s =
     s\<lparr>cache_page_allocator := release_opt (cache_page_allocator s) (allocated_cache_pages r)\<rparr>"

definition owned_slots :: "prefix_cache_policy \<Rightarrow> scheduled_request \<Rightarrow> cache_page_id list" where
  "owned_slots p r =
     (case p of
        Disabled \<Rightarrow> sequence_cache_pages r
      | Enabled \<Rightarrow> drop (length (input_ids r)) (sequence_cache_pages r))"

definition release_request_cache_pages :: "scheduled_request \<Rightarrow> 'w scheduler \<Rightarrow> 'w scheduler" where
  "release_request_cache_pages r s =
     s\<lparr>cache_page_allocator := release_opt (cache_page_allocator s) (owned_slots (cache_policy s) r)\<rparr>"

fun remove_request_from_queue ::
  "scheduled_request list \<Rightarrow> request_id \<Rightarrow> (scheduled_request \<times> scheduled_request list) option" where
  "remove_request_from_queue [] rid = None"
| "remove_request_from_queue (r # queue) rid =
     (if request_id r = rid then Some (r, queue)
      else map_option (\<lambda>(x, queue'). (x, r # queue')) (remove_request_from_queue queue rid))"

definition flush_cache :: "'w scheduler \<Rightarrow> bool \<times> 'w scheduler" where
  "flush_cache s =
     (if waiting_queue s \<noteq> [] \<or> decode_queue s \<noteq> [] then (False, s)
      else (True, s\<lparr> prefix_cache := radix_clear (prefix_cache s),
                     pending_prefix_cache_inserts := [],
                     cache_page_allocator := map_option reset (cache_page_allocator s) \<rparr>))"

section \<open>Prefill batches\<close>

definition remaining_running_request_capacity :: "'w scheduler \<Rightarrow> (scheduler_error, usize) outcome" where
  "remaining_running_request_capacity s =
     (case max_running_requests s of
        None \<Rightarrow> Ok usize_max
      | Some limit \<Rightarrow>
          (let remaining = limit - length (decode_queue s)
           in if remaining = 0 then Err (RunningRequestLimitReached limit) else Ok remaining))"

text \<open>The page size the scheduler works with: that of the allocator, or 1.\<close>

definition sched_page_size :: "page_allocator option \<Rightarrow> usize" where
  "sched_page_size alloc = (case alloc of None \<Rightarrow> 1 | Some a \<Rightarrow> page_size a)"

definition prefill_prefix_match ::
  "prefix_cache_policy \<Rightarrow> radix_cache \<Rightarrow> usize \<Rightarrow> u32 list \<Rightarrow> prefix_match" where
  "prefill_prefix_match p cache ps ids =
     (case p of
        Enabled \<Rightarrow> match_prefix_page_aligned cache ids ps
      | Disabled \<Rightarrow> \<lparr>matched_token_count = 0, cache_pages = [], remaining_input_ids = ids\<rparr>)"

text \<open>
  The first half of \<open>prepare_prefill_request_chunk\<close>, run when no prompt token has been processed: the
  prefix match, and the replay of the last prompt token when the whole prompt is cached.  The first
  component says whether the replay path returned.
\<close>

definition begin_prefill ::
  "prefix_cache_policy \<Rightarrow> radix_cache \<Rightarrow> usize \<Rightarrow> scheduled_request \<Rightarrow>
   (scheduler_error, bool \<times> scheduled_request) outcome" where
  "begin_prefill p cache ps r =
     (let pm = prefill_prefix_match p cache ps (input_ids r);
          hit = matched_token_count pm
      in if disagg_params r = None \<and> input_ids r \<noteq> [] \<and> remaining_input_ids pm = []
         then (if cache_pages pm = [] then Panic
               else
                 let replay = last (cache_pages pm);
                     pm' = pm\<lparr> matched_token_count := matched_token_count pm - 1,
                               remaining_input_ids := remaining_input_ids pm @ [last (input_ids r)],
                               cache_pages := butlast (cache_pages pm) \<rparr>
                 in Ok (True, r\<lparr> forward_cache_pages := [replay],
                                 cache_hit_token_count := hit,
                                 prompt_tokens_processed := matched_token_count pm',
                                 req_prefix_match := pm',
                                 sequence_cache_pages := cache_pages pm' @ [replay],
                                 current_chunk_len := 1,
                                 stage := PrefillForward \<rparr>))
         else Ok (False, r\<lparr> cache_hit_token_count := hit,
                            prompt_tokens_processed := matched_token_count pm,
                            req_prefix_match := pm,
                            sequence_cache_pages := cache_pages pm \<rparr>))"

text \<open>The second half: allocate the slots of the next chunk.\<close>

definition allocate_prefill_chunk ::
  "page_allocator option \<Rightarrow> scheduled_request \<Rightarrow> usize \<Rightarrow>
   (scheduler_error, unit) outcome \<times> scheduled_request \<times> page_allocator option" where
  "allocate_prefill_chunk alloc r max_chunk_tokens =
     (let chunk_len = min (remaining_prompt_tokens r) max_chunk_tokens;
          finish = (\<lambda>pages alloc'.
            (Ok (), (append_sequence_cache_pages pages
                       (r\<lparr> forward_cache_pages := pages, allocated_cache_pages := pages \<rparr>))
                     \<lparr> current_chunk_len := chunk_len, stage := PrefillForward \<rparr>, alloc'))
      in case alloc of
           None \<Rightarrow> finish [] None
         | Some a \<Rightarrow>
             (case allocate_for_sequence a (sequence_cache_pages r) chunk_len of
                Err e \<Rightarrow> (Err (CacheAllocation e), r, Some a)
              | Panic \<Rightarrow> (Panic, r, Some a)
              | Ok (pages, a') \<Rightarrow> finish pages (Some a')))"

definition prepare_prefill_request_chunk ::
  "prefix_cache_policy \<Rightarrow> radix_cache \<Rightarrow> page_allocator option \<Rightarrow> scheduled_request \<Rightarrow> usize \<Rightarrow>
   (scheduler_error, unit) outcome \<times> scheduled_request \<times> page_allocator option" where
  "prepare_prefill_request_chunk p cache alloc r max_chunk_tokens =
     (if prompt_tokens_processed r = 0 then
        (case begin_prefill p cache (sched_page_size alloc) r of
           Panic \<Rightarrow> (Panic, r, alloc)
         | Err e \<Rightarrow> (Err e, r, alloc)
         | Ok (replayed, r') \<Rightarrow>
             if replayed then (Ok (), r', alloc)
             else allocate_prefill_chunk alloc r' max_chunk_tokens)
      else allocate_prefill_chunk alloc r max_chunk_tokens)"

definition back_to_prefill_waiting :: "scheduled_request \<Rightarrow> scheduled_request" where
  "back_to_prefill_waiting r = (clear_forward_cache_allocation r)\<lparr>stage := PrefillWaiting\<rparr>"

definition restore_failed_prefill_attempt ::
  "page_allocator option \<Rightarrow> scheduled_request list \<Rightarrow> scheduled_request list \<Rightarrow> scheduled_request \<Rightarrow>
   scheduled_request list \<times> page_allocator option" where
  "restore_failed_prefill_attempt alloc queue prepared failed =
     (foldl (\<lambda>q r. back_to_prefill_waiting r # q) (back_to_prefill_waiting failed # queue) (rev prepared),
      foldl (\<lambda>al r. release_opt al (allocated_cache_pages r))
        (release_opt alloc (allocated_cache_pages failed)) prepared)"

fun prefill_loop ::
  "prefix_cache_policy \<Rightarrow> radix_cache \<Rightarrow> usize \<Rightarrow> usize \<Rightarrow> usize \<Rightarrow> page_allocator option \<Rightarrow>
   scheduled_request list \<Rightarrow> scheduled_request list \<Rightarrow> usize \<Rightarrow>
   (scheduler_error, scheduled_request list) outcome \<times> scheduled_request list \<times> page_allocator option" where
  "prefill_loop p cache chunk_budget max_batch max_tokens alloc [] requests used =
     (Ok requests, [], alloc)"
| "prefill_loop p cache chunk_budget max_batch max_tokens alloc (q # queue) requests used =
     (if \<not> length requests < max_batch then (Ok requests, q # queue, alloc)
      else case prepare_prefill_request_chunk p cache alloc q chunk_budget of
             (Panic, r, alloc') \<Rightarrow> (Panic, queue, alloc')
           | (Err e, r, alloc') \<Rightarrow>
               (case restore_failed_prefill_attempt alloc' queue requests r of
                  (queue', alloc'') \<Rightarrow> (Err e, queue', alloc''))
           | (Ok _, r, alloc') \<Rightarrow>
               (if requests \<noteq> [] \<and> used + current_chunk_len r > max_tokens
                then (Ok requests, back_to_prefill_waiting r # queue,
                      release_opt alloc' (allocated_cache_pages r))
                else prefill_loop p cache chunk_budget max_batch max_tokens alloc' queue
                       (requests @ [r]) (used + current_chunk_len r)))"

text \<open>\<open>self.chunked_prefill_size.unwrap_or(usize::MAX)\<close>\<close>

definition chunk_budget_of :: "'w scheduler \<Rightarrow> usize" where
  "chunk_budget_of s = (case chunked_prefill_size s of None \<Rightarrow> usize_max | Some n \<Rightarrow> n)"

text \<open>The code after the loop, on the loop's result, queue and allocator.\<close>

definition finish_prefill_batch ::
  "'w scheduler \<Rightarrow>
   (scheduler_error, scheduled_request list) outcome \<times> scheduled_request list \<times> page_allocator option \<Rightarrow>
   (scheduler_error, schedule_batch) outcome \<times> 'w scheduler" where
  "finish_prefill_batch s loop_result =
     (case loop_result of
        (Panic, queue, alloc) \<Rightarrow> (Panic, s\<lparr>waiting_queue := queue, cache_page_allocator := alloc\<rparr>)
      | (Err e, queue, alloc) \<Rightarrow> (Err e, s\<lparr>waiting_queue := queue, cache_page_allocator := alloc\<rparr>)
      | (Ok requests, queue, alloc) \<Rightarrow>
          (if requests = [] then
             (case queue of
                [] \<Rightarrow> (Err EmptyQueue, s\<lparr>waiting_queue := [], cache_page_allocator := alloc\<rparr>)
              | q # queue' \<Rightarrow>
                  (case prepare_prefill_request_chunk (cache_policy s) (prefix_cache s) alloc q
                          (chunk_budget_of s) of
                     (Panic, r, alloc') \<Rightarrow>
                       (Panic, s\<lparr>waiting_queue := queue', cache_page_allocator := alloc'\<rparr>)
                   | (Err e, r, alloc') \<Rightarrow>
                       (Err e, s\<lparr>waiting_queue := r # queue', cache_page_allocator := alloc'\<rparr>)
                   | (Ok _, r, alloc') \<Rightarrow>
                       (Ok (batch_prefill [r]),
                        s\<lparr>waiting_queue := queue', cache_page_allocator := alloc'\<rparr>)))
           else (Ok (batch_prefill requests),
                 s\<lparr>waiting_queue := queue, cache_page_allocator := alloc\<rparr>)))"

definition next_prefill_batch_with_token_budget ::
  "'w scheduler \<Rightarrow> usize \<Rightarrow> usize \<Rightarrow> (scheduler_error, schedule_batch) outcome \<times> 'w scheduler" where
  "next_prefill_batch_with_token_budget s max_batch_size max_uncached_tokens =
     (if waiting_queue s = [] \<or> max_batch_size = 0 then (Err EmptyQueue, s)
      else case remaining_running_request_capacity s of
        Panic \<Rightarrow> (Panic, s)
      | Err e \<Rightarrow> (Err e, s)
      | Ok capacity \<Rightarrow>
          finish_prefill_batch s
            (prefill_loop (cache_policy s) (prefix_cache s) (chunk_budget_of s)
               (min max_batch_size capacity) max_uncached_tokens
               (cache_page_allocator s) (waiting_queue s) [] 0))"

definition next_prefill_batch ::
  "'w scheduler \<Rightarrow> usize \<Rightarrow> (scheduler_error, schedule_batch) outcome \<times> 'w scheduler" where
  "next_prefill_batch s max_batch_size =
     next_prefill_batch_with_token_budget s max_batch_size usize_max"

section \<open>Decode batches\<close>

definition prepare_decode_request ::
  "page_allocator option \<Rightarrow> scheduled_request \<Rightarrow>
   (scheduler_error, unit) outcome \<times> scheduled_request \<times> page_allocator option" where
  "prepare_decode_request alloc r =
     (let finish = (\<lambda>pages alloc'.
            (Ok (), append_sequence_cache_pages pages
                      (r\<lparr>forward_cache_pages := pages, allocated_cache_pages := pages\<rparr>), alloc'))
      in case alloc of
           None \<Rightarrow> finish [] None
         | Some a \<Rightarrow>
             (case allocate_for_sequence a (sequence_cache_pages r) 1 of
                Err e \<Rightarrow> (Err (CacheAllocation e), r, Some a)
              | Panic \<Rightarrow> (Panic, r, Some a)
              | Ok (pages, a') \<Rightarrow> finish pages (Some a')))"

definition back_to_decode_waiting :: "scheduled_request \<Rightarrow> scheduled_request" where
  "back_to_decode_waiting r = (clear_forward_cache_allocation r)\<lparr>stage := DecodeWaiting\<rparr>"

definition restore_failed_decode_attempt ::
  "page_allocator option \<Rightarrow> scheduled_request list \<Rightarrow> scheduled_request list \<Rightarrow> scheduled_request \<Rightarrow>
   scheduled_request list \<times> page_allocator option" where
  "restore_failed_decode_attempt alloc queue prepared failed =
     (foldl (\<lambda>q r. back_to_decode_waiting r # q) (failed # queue) (rev prepared),
      foldl (\<lambda>al r. release_opt al (allocated_cache_pages r)) alloc prepared)"

text \<open>
  The loop shared by \<open>next_decode_batch_with_ready_check\<close> and
  \<open>next_decode_batch_with_worker_ready_check\<close>: \<open>check\<close> says whether the front request is ready, and an
  error of \<open>check\<close> returns at once, without putting the prepared requests back.
\<close>

fun decode_loop ::
  "(scheduled_request \<Rightarrow> (scheduler_error, bool) outcome) \<Rightarrow> usize \<Rightarrow> page_allocator option \<Rightarrow>
   scheduled_request list \<Rightarrow> scheduled_request list \<Rightarrow>
   (scheduler_error, scheduled_request list) outcome \<times> scheduled_request list \<times> page_allocator option" where
  "decode_loop check n alloc [] requests = (Ok requests, [], alloc)"
| "decode_loop check n alloc (q # queue) requests =
     (if \<not> length requests < n then (Ok requests, q # queue, alloc)
      else case check q of
             Panic \<Rightarrow> (Panic, q # queue, alloc)
           | Err e \<Rightarrow> (Err e, q # queue, alloc)
           | Ok ready \<Rightarrow>
               (if \<not> ready then
                  (if requests = [] then (Err (DecodeNotReady (request_id q)), q # queue, alloc)
                   else (Ok requests, q # queue, alloc))
                else case prepare_decode_request alloc q of
                       (Panic, r, alloc') \<Rightarrow> (Panic, queue, alloc')
                     | (Err e, r, alloc') \<Rightarrow>
                         (case restore_failed_decode_attempt alloc' queue requests r of
                            (queue', alloc'') \<Rightarrow> (Err e, queue', alloc''))
                     | (Ok _, r, alloc') \<Rightarrow>
                         decode_loop check n alloc' queue (requests @ [r\<lparr>stage := DecodeForward\<rparr>])))"

definition next_decode_batch_checked ::
  "(scheduled_request \<Rightarrow> (scheduler_error, bool) outcome) \<Rightarrow> 'w scheduler \<Rightarrow> usize \<Rightarrow>
   (scheduler_error, schedule_batch) outcome \<times> 'w scheduler" where
  "next_decode_batch_checked check s max_batch_size =
     (if decode_queue s = [] \<or> max_batch_size = 0 then (Err EmptyQueue, s)
      else
        case decode_loop check (min max_batch_size (length (decode_queue s)))
               (cache_page_allocator s) (decode_queue s) [] of
          (res, queue, alloc) \<Rightarrow>
            ((case res of Ok requests \<Rightarrow> Ok (batch_decode requests) | Err e \<Rightarrow> Err e | Panic \<Rightarrow> Panic),
             s\<lparr>decode_queue := queue, cache_page_allocator := alloc\<rparr>))"

definition next_decode_batch_with_ready_check ::
  "'w scheduler \<Rightarrow> usize \<Rightarrow> (scheduled_request \<Rightarrow> bool) \<Rightarrow>
   (scheduler_error, schedule_batch) outcome \<times> 'w scheduler" where
  "next_decode_batch_with_ready_check s max_batch_size is_ready =
     next_decode_batch_checked (\<lambda>r. Ok (is_ready r)) s max_batch_size"

definition next_decode_batch ::
  "'w scheduler \<Rightarrow> usize \<Rightarrow> (scheduler_error, schedule_batch) outcome \<times> 'w scheduler" where
  "next_decode_batch s max_batch_size =
     next_decode_batch_with_ready_check s max_batch_size (\<lambda>_. True)"

definition worker_ready ::
  "'w worker_executor \<Rightarrow> 'w \<Rightarrow> scheduled_request \<Rightarrow> (scheduler_error, bool) outcome" where
  "worker_ready W w r =
     (case request_state W w r of
        Inl e \<Rightarrow> Err (WorkerError e)
      | Inr Ready \<Rightarrow> Ok True
      | Inr Pending \<Rightarrow> Ok False
      | Inr (Failed message) \<Rightarrow> Err (WorkerError (WorkerRuntime message)))"

definition next_decode_batch_with_worker_ready_check ::
  "'w worker_executor \<Rightarrow> 'w scheduler \<Rightarrow> usize \<Rightarrow>
   (scheduler_error, schedule_batch) outcome \<times> 'w scheduler" where
  "next_decode_batch_with_worker_ready_check W s max_batch_size =
     next_decode_batch_checked (worker_ready W (worker s)) s max_batch_size"

end
