(* ===== verification/Sched_Dispatch.thy ===== *)
theory Sched_Dispatch
  imports Scheduler
begin

text \<open>
  The second half of \<open>crates/sglang-srt/src/scheduler.rs\<close>: mixed batches, publication of prefill
  pages, batch completion, dispatch, abort, transfer polling and shutdown.  \<open>sha256\<close> is the digest the
  block events use and \<open>W\<close> the worker.
\<close>

section \<open>Mixed batches\<close>

fun mixed_decode_loop ::
  "(scheduled_request \<Rightarrow> (scheduler_error, bool) outcome) \<Rightarrow> usize \<Rightarrow> usize \<Rightarrow> page_allocator option \<Rightarrow>
   scheduled_request list \<Rightarrow> scheduled_request list \<Rightarrow> usize \<Rightarrow>
   (scheduler_error, scheduled_request list \<times> usize) outcome \<times> scheduled_request list \<times>
   page_allocator option" where
  "mixed_decode_loop check max_batch token_budget alloc [] requests used =
     (Ok (requests, used), [], alloc)"
| "mixed_decode_loop check max_batch token_budget alloc (q # queue) requests used =
     (if \<not> (length requests < max_batch \<and> used < token_budget) then (Ok (requests, used), q # queue, alloc)
      else case check q of
             Panic \<Rightarrow> (Panic, q # queue, alloc)
           | Err e \<Rightarrow> (Err e, q # queue, alloc)
           | Ok ready \<Rightarrow>
               (if \<not> ready then (Ok (requests, used), q # queue, alloc)
                else case prepare_decode_request alloc q of
                       (Panic, r, alloc') \<Rightarrow> (Panic, queue, alloc')
                     | (Err e, r, alloc') \<Rightarrow>
                         (case restore_failed_decode_attempt alloc' queue requests r of
                            (queue', alloc'') \<Rightarrow> (Err e, queue', alloc''))
                     | (Ok _, r, alloc') \<Rightarrow>
                         mixed_decode_loop check max_batch token_budget alloc' queue
                           (requests @ [r\<lparr>stage := DecodeForward\<rparr>]) (used + 1)))"

fun is_out_of_slots :: "scheduler_error \<Rightarrow> bool" where
  "is_out_of_slots (CacheAllocation (OutOfSlots _ _)) = True"
| "is_out_of_slots _ = False"

fun mixed_prefill_loop ::
  "prefix_cache_policy \<Rightarrow> radix_cache \<Rightarrow> usize \<Rightarrow> usize \<Rightarrow> usize \<Rightarrow> page_allocator option \<Rightarrow>
   scheduled_request list \<Rightarrow> scheduled_request list \<Rightarrow> usize \<Rightarrow>
   (scheduler_error, scheduled_request list) outcome \<times> scheduled_request list \<times> page_allocator option" where
  "mixed_prefill_loop p cache chunk_budget max_batch token_budget alloc [] requests used =
     (Ok requests, [], alloc)"
| "mixed_prefill_loop p cache chunk_budget max_batch token_budget alloc (q # queue) requests used =
     (if \<not> (length requests < max_batch \<and> used < token_budget) then (Ok requests, q # queue, alloc)
      else
        let effective_chunk_size = min chunk_budget (token_budget - used)
        in if effective_chunk_size = 0 then (Ok requests, q # queue, alloc)
           else case prepare_prefill_request_chunk p cache alloc q effective_chunk_size of
                  (Panic, r, alloc') \<Rightarrow> (Panic, queue, alloc')
                | (Err e, r, alloc') \<Rightarrow>
                    (if is_out_of_slots e then (Ok requests, r # queue, alloc')
                     else case restore_failed_prefill_attempt alloc' queue requests r of
                            (queue', alloc'') \<Rightarrow> (Err e, queue', alloc''))
                | (Ok _, r, alloc') \<Rightarrow>
                    (if current_chunk_len r = 0 then (Ok (requests @ [r]), queue, alloc')
                     else mixed_prefill_loop p cache chunk_budget max_batch token_budget alloc' queue
                            (requests @ [r]) (used + current_chunk_len r)))"

definition mixed_batch_of :: "scheduled_request list \<Rightarrow> schedule_batch" where
  "mixed_batch_of requests =
     (let has_prefill = (\<exists>r \<in> set requests. stage r = PrefillForward);
          has_decode = (\<exists>r \<in> set requests. stage r = DecodeForward)
      in if has_prefill \<and> has_decode then batch_mixed requests
         else if has_prefill then batch_prefill requests
         else batch_decode requests)"

definition next_mixed_batch ::
  "'w worker_executor \<Rightarrow> 'w scheduler \<Rightarrow> usize \<Rightarrow> usize \<Rightarrow>
   (scheduler_error, schedule_batch) outcome \<times> 'w scheduler" where
  "next_mixed_batch W s max_batch_size token_budget =
     (if (decode_queue s = [] \<and> waiting_queue s = []) \<or> max_batch_size = 0 then (Err EmptyQueue, s)
      else case mixed_decode_loop (worker_ready W (worker s)) max_batch_size token_budget
                  (cache_page_allocator s) (decode_queue s) [] 0 of
             (Panic, dq, alloc) \<Rightarrow> (Panic, s\<lparr>decode_queue := dq, cache_page_allocator := alloc\<rparr>)
           | (Err e, dq, alloc) \<Rightarrow> (Err e, s\<lparr>decode_queue := dq, cache_page_allocator := alloc\<rparr>)
           | (Ok (requests, used), dq, alloc) \<Rightarrow>
               (case mixed_prefill_loop (cache_policy s) (prefix_cache s)
                       (chunk_budget_of s) max_batch_size token_budget alloc (waiting_queue s) requests used of
                  (res, wq, alloc') \<Rightarrow>
                    ((case res of
                        Ok requests' \<Rightarrow>
                          (if requests' = [] then Err EmptyQueue else Ok (mixed_batch_of requests'))
                      | Err e \<Rightarrow> Err e
                      | Panic \<Rightarrow> Panic),
                     s\<lparr>decode_queue := dq, waiting_queue := wq, cache_page_allocator := alloc'\<rparr>)))"

section \<open>Publication of prefill pages\<close>

definition publish_prefill_chunk_cache_pages ::
  "(u8 list \<Rightarrow> u8 list) \<Rightarrow> 'w scheduler \<Rightarrow> scheduled_request \<Rightarrow> usize \<times> usize \<Rightarrow>
   (scheduler_error, unit) outcome \<times> 'w scheduler" where
  "publish_prefill_chunk_cache_pages sha256 s r chunk_range =
     (let stop = min (snd chunk_range) (length (sequence_cache_pages r))
      in if stop > length (input_ids r) then (Panic, s)
         else
           let s1 = (if stop > 0
                     then (case radix_insert (prefix_cache s) (take stop (input_ids r))
                                  (take stop (sequence_cache_pages r)) of
                             Ok cache \<Rightarrow> s\<lparr>prefix_cache := cache\<rparr>
                           | Err _ \<Rightarrow> s
                           | Panic \<Rightarrow> s)
                     else s)
           in case event_publisher s1 of
                None \<Rightarrow> (Ok (), s1)
              | Some pub \<Rightarrow>
                  (case from_chunk sha256 (request_id r) (input_ids r) chunk_range
                          (sched_page_size (cache_page_allocator s1)) (data_parallel_rank r) of
                     Ok event \<Rightarrow>
                       (Ok (), s1\<lparr>event_publisher := Some (publish_block_stored pub event)\<rparr>)
                   | Err _ \<Rightarrow> (Panic, s1)
                   | Panic \<Rightarrow> (Panic, s1)))"

definition stage_prefill_chunk_cache_pages ::
  "(u8 list \<Rightarrow> u8 list) \<Rightarrow> 'w worker_executor \<Rightarrow> 'w scheduler \<Rightarrow> scheduled_request \<Rightarrow> usize \<times> usize \<Rightarrow>
   (scheduler_error, unit) outcome \<times> 'w scheduler" where
  "stage_prefill_chunk_cache_pages sha256 W s r chunk_range =
     (if cache_policy s = Disabled \<or> skips_radix_cache_insert r then (Ok (), s)
      else if disagg_params r \<noteq> None then
        (case request_state W (worker s) r of
           Inl e \<Rightarrow> (Err (WorkerError e), s)
         | Inr Ready \<Rightarrow> publish_prefill_chunk_cache_pages sha256 s r chunk_range
         | Inr Pending \<Rightarrow>
             (Ok (), s\<lparr>pending_prefix_cache_inserts := pending_prefix_cache_inserts s @ [r]\<rparr>)
         | Inr (Failed message) \<Rightarrow> (Err (WorkerError (WorkerRuntime message)), s))
      else publish_prefill_chunk_cache_pages sha256 s r chunk_range)"

section \<open>Completion\<close>

definition scheduled_output_of :: "scheduled_request \<Rightarrow> generated_token \<Rightarrow> bool \<Rightarrow> scheduled_output" where
  "scheduled_output_of r t finished =
     \<lparr> out_request_id = request_id r, out_token_ids = token_ids t,
       out_cached_tokens = cache_hit_token_count r, out_finished = finished \<rparr>"

definition is_prefill_forward :: "forward_mode \<Rightarrow> scheduled_request \<Rightarrow> bool" where
  "is_prefill_forward mode r \<longleftrightarrow>
     stage r = PrefillForward \<or> (mode = Prefill \<and> output_ids r = [])"

text \<open>The end of the loop body: append the generated tokens, then finish or queue for decoding.\<close>

definition complete_with_token ::
  "'w worker_executor \<Rightarrow> 'w scheduler \<Rightarrow> scheduled_request \<Rightarrow> generated_token \<Rightarrow>
   (scheduler_error, scheduled_output option) outcome \<times> 'w scheduler" where
  "complete_with_token W s r0 t =
     (let r = append_output_ids (token_ids t) r0;
          finished = (is_finished t \<or> reached_max_new_tokens r)
      in if finished then
           let r1 = r\<lparr>stage := Finished\<rparr>
           in (case finish_request W (worker s) r1 of
                 (Inl e, w) \<Rightarrow>
                   (Err (WorkerError e), s\<lparr>worker := w, decode_queue := decode_queue s @ [r1]\<rparr>)
               | (Inr _, w) \<Rightarrow>
                   (Ok (Some (scheduled_output_of r1 t finished)),
                    release_request_cache_pages r1 (s\<lparr>worker := w\<rparr>)))
         else
           let r1 = (clear_forward_chunk_tracking r)\<lparr>stage := DecodeWaiting\<rparr>
           in (Ok (Some (scheduled_output_of r1 t finished)),
               s\<lparr>decode_queue := decode_queue s @ [r1]\<rparr>))"

text \<open>One iteration of \<open>complete_batch\<close>: an error is recorded and the loop goes on.\<close>

definition complete_request_step ::
  "(u8 list \<Rightarrow> u8 list) \<Rightarrow> 'w worker_executor \<Rightarrow> forward_mode \<Rightarrow> 'w scheduler \<Rightarrow>
   scheduled_request \<Rightarrow> generated_token \<Rightarrow>
   (scheduler_error, scheduled_output option) outcome \<times> 'w scheduler" where
  "complete_request_step sha256 W mode s r t =
     (if is_prefill_forward mode r then
        let chunk_len = (if current_chunk_len r > 0 then current_chunk_len r
                         else length (uncached_input_ids r));
            r1 = advance_prompt_tokens chunk_len r
        in case stage_prefill_chunk_cache_pages sha256 W s r1
                  (prompt_tokens_processed r, prompt_tokens_processed r1) of
             (Panic, s1) \<Rightarrow> (Panic, s1)
           | (Err e, s1) \<Rightarrow> (Err e, s1\<lparr>decode_queue := decode_queue s1 @ [r1]\<rparr>)
           | (Ok _, s1) \<Rightarrow>
               (if \<not> is_prefill_complete r1
                then (Ok None, s1\<lparr>waiting_queue :=
                        (clear_forward_chunk_tracking r1)\<lparr>stage := PrefillWaiting\<rparr> # waiting_queue s1\<rparr>)
                else complete_with_token W s1 r1 t)
      else complete_with_token W s r t)"

fun complete_loop ::
  "(u8 list \<Rightarrow> u8 list) \<Rightarrow> 'w worker_executor \<Rightarrow> forward_mode \<Rightarrow>
   (scheduled_request \<times> generated_token) list \<Rightarrow> scheduled_output list \<Rightarrow> scheduler_error option \<Rightarrow>
   'w scheduler \<Rightarrow> (scheduler_error, scheduled_output list) outcome \<times> 'w scheduler" where
  "complete_loop sha256 W mode [] outputs err s =
     ((case err of None \<Rightarrow> Ok outputs | Some e \<Rightarrow> Err e), s)"
| "complete_loop sha256 W mode ((r, t) # rest) outputs err s =
     (case complete_request_step sha256 W mode s r t of
        (Panic, s') \<Rightarrow> (Panic, s')
      | (Err e, s') \<Rightarrow> complete_loop sha256 W mode rest outputs (Some e) s'
      | (Ok None, s') \<Rightarrow> complete_loop sha256 W mode rest outputs err s'
      | (Ok (Some out), s') \<Rightarrow> complete_loop sha256 W mode rest (outputs @ [out]) err s')"

definition complete_batch ::
  "(u8 list \<Rightarrow> u8 list) \<Rightarrow> 'w worker_executor \<Rightarrow> 'w scheduler \<Rightarrow> schedule_batch \<Rightarrow>
   generated_token list \<Rightarrow> (scheduler_error, scheduled_output list) outcome \<times> 'w scheduler" where
  "complete_batch sha256 W s batch tokens =
     (let requests = batch_requests batch
      in if length requests \<noteq> length tokens
         then (Err (WorkerError (WorkerOutput (BatchSizeMismatch (length requests) (length tokens)))),
               s\<lparr>decode_queue := decode_queue s @ requests\<rparr>)
         else complete_loop sha256 W (batch_forward_mode batch) (zip requests tokens) [] None s)"

section \<open>Dispatch\<close>

fun release_failed_loop ::
  "'w worker_executor \<Rightarrow> scheduled_request list \<Rightarrow> worker_execution_error option \<Rightarrow> 'w scheduler \<Rightarrow>
   (scheduler_error, unit) outcome \<times> 'w scheduler" where
  "release_failed_loop W [] err s =
     ((case err of None \<Rightarrow> Ok () | Some e \<Rightarrow> Err (WorkerError e)), s)"
| "release_failed_loop W (r # rest) err s =
     (case finish_request W (worker s) r of
        (Inl e, w) \<Rightarrow>
          release_failed_loop W rest (Some e) (s\<lparr>worker := w, decode_queue := decode_queue s @ [r]\<rparr>)
      | (Inr _, w) \<Rightarrow>
          release_failed_loop W rest err
            (s\<lparr> cache_page_allocator := release_opt (cache_page_allocator s) (allocated_cache_pages r),
                worker := fail_request W w r \<rparr>))"

definition release_failed_batch_cache_pages ::
  "'w worker_executor \<Rightarrow> 'w scheduler \<Rightarrow> schedule_batch \<Rightarrow>
   (scheduler_error, unit) outcome \<times> 'w scheduler" where
  "release_failed_batch_cache_pages W s batch = release_failed_loop W (batch_requests batch) None s"

definition dispatch_batch ::
  "(u8 list \<Rightarrow> u8 list) \<Rightarrow> 'w worker_executor \<Rightarrow> 'w scheduler \<Rightarrow> schedule_batch \<Rightarrow>
   (scheduler_error, scheduled_output list) outcome \<times> 'w scheduler" where
  "dispatch_batch sha256 W s batch =
     (case execute_batch W (worker s) batch of
        (Inl e, w) \<Rightarrow>
          (case release_failed_batch_cache_pages W (s\<lparr>worker := w\<rparr>) batch of
             (Ok _, s') \<Rightarrow> (Err (WorkerError e), s')
           | (Err e', s') \<Rightarrow> (Err e', s')
           | (Panic, s') \<Rightarrow> (Panic, s'))
      | (Inr tokens, w) \<Rightarrow> complete_batch sha256 W (s\<lparr>worker := w\<rparr>) batch tokens)"

text \<open>\<open>let batch = self.next_...?; self.dispatch_batch(batch)\<close>\<close>

fun dispatch_formed ::
  "(u8 list \<Rightarrow> u8 list) \<Rightarrow> 'w worker_executor \<Rightarrow>
   (scheduler_error, schedule_batch) outcome \<times> 'w scheduler \<Rightarrow>
   (scheduler_error, scheduled_output list) outcome \<times> 'w scheduler" where
  "dispatch_formed sha256 W (Ok batch, s) = dispatch_batch sha256 W s batch"
| "dispatch_formed sha256 W (Err e, s) = (Err e, s)"
| "dispatch_formed sha256 W (Panic, s) = (Panic, s)"

definition dispatch_prefill_batch_with_token_budget ::
  "(u8 list \<Rightarrow> u8 list) \<Rightarrow> 'w worker_executor \<Rightarrow> 'w scheduler \<Rightarrow> usize \<Rightarrow> usize \<Rightarrow>
   (scheduler_error, scheduled_output list) outcome \<times> 'w scheduler" where
  "dispatch_prefill_batch_with_token_budget sha256 W s n budget =
     dispatch_formed sha256 W (next_prefill_batch_with_token_budget s n budget)"

definition dispatch_prefill_batch ::
  "(u8 list \<Rightarrow> u8 list) \<Rightarrow> 'w worker_executor \<Rightarrow> 'w scheduler \<Rightarrow> usize \<Rightarrow>
   (scheduler_error, scheduled_output list) outcome \<times> 'w scheduler" where
  "dispatch_prefill_batch sha256 W s n =
     dispatch_prefill_batch_with_token_budget sha256 W s n usize_max"

definition dispatch_decode_batch ::
  "(u8 list \<Rightarrow> u8 list) \<Rightarrow> 'w worker_executor \<Rightarrow> 'w scheduler \<Rightarrow> usize \<Rightarrow>
   (scheduler_error, scheduled_output list) outcome \<times> 'w scheduler" where
  "dispatch_decode_batch sha256 W s n =
     dispatch_formed sha256 W (next_decode_batch_with_worker_ready_check W s n)"

definition dispatch_decode_batch_with_ready_check ::
  "(u8 list \<Rightarrow> u8 list) \<Rightarrow> 'w worker_executor \<Rightarrow> 'w scheduler \<Rightarrow> usize \<Rightarrow>
   (scheduled_request \<Rightarrow> bool) \<Rightarrow> (scheduler_error, scheduled_output list) outcome \<times> 'w scheduler" where
  "dispatch_decode_batch_with_ready_check sha256 W s n is_ready =
     dispatch_formed sha256 W (next_decode_batch_with_ready_check s n is_ready)"

definition dispatch_mixed_batch ::
  "(u8 list \<Rightarrow> u8 list) \<Rightarrow> 'w worker_executor \<Rightarrow> 'w scheduler \<Rightarrow> usize \<Rightarrow> usize \<Rightarrow>
   (scheduler_error, scheduled_output list) outcome \<times> 'w scheduler" where
  "dispatch_mixed_batch sha256 W s n budget = dispatch_formed sha256 W (next_mixed_batch W s n budget)"

section \<open>Abort\<close>

definition release_pending_prefix_cache_insert ::
  "request_id \<Rightarrow> 'w scheduler \<Rightarrow> bool \<times> 'w scheduler" where
  "release_pending_prefix_cache_insert rid s =
     (case remove_request_from_queue (pending_prefix_cache_inserts s) rid of
        None \<Rightarrow> (False, s)
      | Some (r, pending) \<Rightarrow>
          (True, release_unpublished_cache_pages r (s\<lparr>pending_prefix_cache_inserts := pending\<rparr>)))"

definition abort_request ::
  "'w worker_executor \<Rightarrow> 'w scheduler \<Rightarrow> request_id \<Rightarrow> bool \<times> 'w scheduler" where
  "abort_request W s rid =
     (case remove_request_from_queue (waiting_queue s) rid of
        Some (r, queue) \<Rightarrow>
          (case finish_request W (worker s) r of
             (Inl _, w) \<Rightarrow> (False, s\<lparr>worker := w, waiting_queue := r # queue\<rparr>)
           | (Inr _, w) \<Rightarrow>
               (True, release_request_cache_pages r (s\<lparr>worker := w, waiting_queue := queue\<rparr>)))
      | None \<Rightarrow>
          (case remove_request_from_queue (decode_queue s) rid of
             Some (r, queue) \<Rightarrow>
               (case finish_request W (worker s) r of
                  (Inl _, w) \<Rightarrow> (False, s\<lparr>worker := w, decode_queue := r # queue\<rparr>)
                | (Inr _, w) \<Rightarrow>
                    (True, release_request_cache_pages r
                       (snd (release_pending_prefix_cache_insert rid
                               (s\<lparr>worker := w, decode_queue := queue\<rparr>)))))
           | None \<Rightarrow> (False, s)))"

fun abort_ids :: "'w worker_executor \<Rightarrow> request_id list \<Rightarrow> 'w scheduler \<Rightarrow> usize \<times> 'w scheduler" where
  "abort_ids W [] s = (0, s)"
| "abort_ids W (rid # ids) s =
     (case abort_request W s rid of
        (aborted, s') \<Rightarrow>
          (case abort_ids W ids s' of (n, s'') \<Rightarrow> ((if aborted then 1 else 0) + n, s'')))"

fun abort_pending ::
  "'w worker_executor \<Rightarrow> scheduled_request list \<Rightarrow> 'w scheduler \<Rightarrow> usize \<times> 'w scheduler" where
  "abort_pending W [] s = (0, s)"
| "abort_pending W (r # rest) s =
     (case finish_request W (worker s) r of
        (Inl _, w) \<Rightarrow>
          abort_pending W rest
            (s\<lparr>worker := w, pending_prefix_cache_inserts := pending_prefix_cache_inserts s @ [r]\<rparr>)
      | (Inr _, w) \<Rightarrow>
          (case abort_pending W rest (release_unpublished_cache_pages r (s\<lparr>worker := w\<rparr>)) of
             (n, s') \<Rightarrow> (n + 1, s')))"

definition abort_all_requests :: "'w worker_executor \<Rightarrow> 'w scheduler \<Rightarrow> usize \<times> 'w scheduler" where
  "abort_all_requests W s =
     (case abort_ids W (map request_id (waiting_queue s @ decode_queue s)) s of
        (aborted, s1) \<Rightarrow>
          (case abort_pending W (pending_prefix_cache_inserts s1)
                  (s1\<lparr>pending_prefix_cache_inserts := []\<rparr>) of
             (n, s2) \<Rightarrow> (aborted + n, s2)))"

definition sched_shutdown ::
  "'w worker_executor \<Rightarrow> 'w scheduler \<Rightarrow> (worker_execution_error + usize) \<times> 'w scheduler" where
  "sched_shutdown W s =
     (case abort_all_requests W s of
        (aborted, s1) \<Rightarrow>
          if waiting_queue s1 \<noteq> [] \<or> decode_queue s1 \<noteq> [] \<or> pending_prefix_cache_inserts s1 \<noteq> []
          then (Inl (WorkerRuntime
                 ''cannot release KV memory: request transfer cancellation has not drained''), s1)
          else (case worker_shutdown W (worker s1) of
                  (Inl e, w) \<Rightarrow> (Inl e, s1\<lparr>worker := w\<rparr>)
                | (Inr _, w) \<Rightarrow> (Inr aborted, s1\<lparr>worker := w\<rparr>)))"

section \<open>Transfer polling\<close>

definition release_failed_pending_prefix_cache ::
  "'w worker_executor \<Rightarrow> scheduled_request \<Rightarrow> 'w scheduler \<Rightarrow> 'w scheduler" where
  "release_failed_pending_prefix_cache W r s =
     (case finish_request W (worker s) r of
        (Inl _, w) \<Rightarrow>
          s\<lparr>worker := w, pending_prefix_cache_inserts := pending_prefix_cache_inserts s @ [r]\<rparr>
      | (Inr _, w) \<Rightarrow>
          (let s1 = release_unpublished_cache_pages r (s\<lparr>worker := w\<rparr>)
           in case remove_request_from_queue (decode_queue s1) (request_id r) of
                None \<Rightarrow> s1\<lparr>worker := complete_request W (worker s1) r\<rparr>
              | Some (r', queue) \<Rightarrow>
                  s1\<lparr>decode_queue := queue, worker := complete_request W (worker s1) r'\<rparr>))"

text \<open>An error of \<open>decode_request_state\<close> returns at once and drops the requests not yet looked at.\<close>

fun reconcile_loop ::
  "(u8 list \<Rightarrow> u8 list) \<Rightarrow> 'w worker_executor \<Rightarrow> scheduled_request list \<Rightarrow> 'w scheduler \<Rightarrow>
   (transfer_error, unit) outcome \<times> 'w scheduler" where
  "reconcile_loop sha256 W [] s = (Ok (), s)"
| "reconcile_loop sha256 W (r # rest) s =
     (case request_state W (worker s) r of
        Inl e \<Rightarrow> (Err (TransferRuntime (show_worker_execution_error e)), s)
      | Inr Ready \<Rightarrow>
          (case publish_prefill_chunk_cache_pages sha256 s r (0, prompt_tokens_processed r) of
             (Ok _, s') \<Rightarrow> reconcile_loop sha256 W rest s'
           | (Err _, s') \<Rightarrow> (Panic, s')
           | (Panic, s') \<Rightarrow> (Panic, s'))
      | Inr Pending \<Rightarrow>
          reconcile_loop sha256 W rest
            (s\<lparr>pending_prefix_cache_inserts := pending_prefix_cache_inserts s @ [r]\<rparr>)
      | Inr (Failed _) \<Rightarrow> reconcile_loop sha256 W rest (release_failed_pending_prefix_cache W r s))"

definition reconcile_pending_prefix_cache_inserts ::
  "(u8 list \<Rightarrow> u8 list) \<Rightarrow> 'w worker_executor \<Rightarrow> 'w scheduler \<Rightarrow>
   (transfer_error, unit) outcome \<times> 'w scheduler" where
  "reconcile_pending_prefix_cache_inserts sha256 W s =
     reconcile_loop sha256 W (pending_prefix_cache_inserts s) (s\<lparr>pending_prefix_cache_inserts := []\<rparr>)"

definition poll_transfers ::
  "(u8 list \<Rightarrow> u8 list) \<Rightarrow> 'w worker_executor \<Rightarrow> 'w scheduler \<Rightarrow>
   (transfer_error, poll_summary) outcome \<times> 'w scheduler" where
  "poll_transfers sha256 W s =
     (case worker_poll W (worker s) of
        (polled, w) \<Rightarrow>
          (case reconcile_pending_prefix_cache_inserts sha256 W (s\<lparr>worker := w\<rparr>) of
             (Err e, s') \<Rightarrow> (Err e, s')
           | (Panic, s') \<Rightarrow> (Panic, s')
           | (Ok _, s') \<Rightarrow> ((case polled of Inr summary \<Rightarrow> Ok summary | Inl e \<Rightarrow> Err e), s')))"

end
