(* ===== verification/Sched_Batch.thy ===== *)
theory Sched_Batch
  imports Sched_Dispatch
begin

text \<open>
  Batch formation of the scheduler: preparing a request never panics and fails only for lack of
  slots; the prefill and decode loops keep every request in order, respect the batch size and the
  token budget, and undo their allocations when they fail.
\<close>

section \<open>Preparing one request\<close>

definition alloc_ok :: "page_allocator option \<Rightarrow> bool" where
  "alloc_ok alloc = (case alloc of None \<Rightarrow> True | Some a \<Rightarrow> alloc_inv a)"

lemma alloc_ok_simps [simp]: "alloc_ok None" "alloc_ok (Some a) \<longleftrightarrow> alloc_inv a"
  by (simp_all add: alloc_ok_def)

lemma alloc_ok_release_opt [simp]: "alloc_ok alloc \<Longrightarrow> alloc_ok (release_opt alloc xs)"
  by (cases alloc) (simp_all add: release_opt_def release_inv)

lemma release_opt_simps [simp]:
  "release_opt None xs = None" "release_opt (Some a) xs = Some (release a xs)" "release_opt al [] = al"
  by (cases al; simp add: release_opt_def)+

lemma sched_page_size_pos: "alloc_ok alloc \<Longrightarrow> 0 < sched_page_size alloc"
  by (cases alloc) (simp_all add: sched_page_size_def alloc_inv_def)

text \<open>The prefix match a prefill starts from, for both policies.\<close>

lemma prefill_prefix_match_facts:
  fixes p cache ps ids
  defines "m \<equiv> prefill_prefix_match p cache ps ids"
  shows "length (cache_pages m) = matched_token_count m"
    and "remaining_input_ids m = drop (matched_token_count m) ids"
    and "matched_token_count m \<le> length ids"
  using page_aligned_facts(1-3) [OF refl, of cache ids ps]
  by (cases p; simp add: m_def prefill_prefix_match_def)+

lemma begin_prefill_cases:
  obtains (replay) r' where "begin_prefill p cache ps r = Ok (True, r')"
      "disagg_params r = None" "input_ids r \<noteq> []" "p = Enabled"
      "prompt_tokens_processed r' = length (input_ids r) - 1" "current_chunk_len r' = 1"
      "length (sequence_cache_pages r') = length (input_ids r)" "stage r' = PrefillForward"
      "allocated_cache_pages r' = allocated_cache_pages r"
      "request_id r' = request_id r" "input_ids r' = input_ids r" "output_ids r' = output_ids r"
      "uncached_input_ids r' = [last (input_ids r)]"
  | (fresh) r' where "begin_prefill p cache ps r = Ok (False, r')"
      "prompt_tokens_processed r' \<le> length (input_ids r)"
      "length (sequence_cache_pages r') = prompt_tokens_processed r'"
      "p = Disabled \<Longrightarrow> sequence_cache_pages r' = [] \<and> prompt_tokens_processed r' = 0"
      "allocated_cache_pages r' = allocated_cache_pages r" "stage r' = stage r"
      "request_id r' = request_id r" "input_ids r' = input_ids r" "output_ids r' = output_ids r"
      "uncached_input_ids r' = drop (prompt_tokens_processed r') (input_ids r)"
proof -
  let ?m = "prefill_prefix_match p cache ps (input_ids r)"
  note m = prefill_prefix_match_facts [of p cache ps "input_ids r"]
  show thesis
  proof (cases "disagg_params r = None \<and> input_ids r \<noteq> [] \<and> remaining_input_ids ?m = []")
    case True
    then have n: "matched_token_count ?m = length (input_ids r)" using m by simp
    then have ne: "cache_pages ?m \<noteq> []" using True m(1) by (metis length_0_conv)
    have "p = Enabled" using True by (cases p) (auto simp: prefill_prefix_match_def)
    then show thesis
      using replay True ne n m
      by (simp add: begin_prefill_def Let_def uncached_input_ids_def)
  next
    case False
    then have "begin_prefill p cache ps r =
        Ok (False, r\<lparr> cache_hit_token_count := matched_token_count ?m,
                      prompt_tokens_processed := matched_token_count ?m,
                      req_prefix_match := ?m, sequence_cache_pages := cache_pages ?m \<rparr>)"
      by (auto simp: begin_prefill_def Let_def)
    then show thesis
      using m fresh by (simp add: uncached_input_ids_def prefill_prefix_match_def)
  qed
qed


text \<open>What a request keeps while it is prepared or put back.\<close>

definition same_request :: "scheduled_request \<Rightarrow> scheduled_request \<Rightarrow> bool" where
  "same_request r r' \<longleftrightarrow> request_id r' = request_id r \<and> input_ids r' = input_ids r \<and>
     output_ids r' = output_ids r \<and> sampling r' = sampling r \<and> disagg_params r' = disagg_params r"

lemma same_request_id: "same_request r r' \<Longrightarrow> request_id r' = request_id r"
  by (simp add: same_request_def)

text \<open>The three ends of an allocation step, shared by prefill chunks and decode steps.\<close>

lemma allocate_prefill_chunk_cases:
  assumes "alloc_ok alloc"
  obtains (ok) pages alloc' r' where
      "allocate_prefill_chunk alloc r n = (Ok (), r', alloc')"
      "r' = r\<lparr>forward_cache_pages := pages, allocated_cache_pages := pages,
              sequence_cache_pages := sequence_cache_pages r @ pages,
              current_chunk_len := min (remaining_prompt_tokens r) n, stage := PrefillForward\<rparr>"
      "alloc = None \<Longrightarrow> pages = [] \<and> alloc' = None"
      "\<And>a. alloc = Some a \<Longrightarrow> \<exists>a'. alloc' = Some a' \<and>
         allocate_for_sequence a (sequence_cache_pages r) (min (remaining_prompt_tokens r) n) = Ok (pages, a')"
  | (full) e where "allocate_prefill_chunk alloc r n = (Err e, r, alloc)" "is_out_of_slots e"
proof (cases alloc)
  case None
  then show thesis
    by (intro ok [where pages = "[]" and alloc' = None])
      (simp_all add: allocate_prefill_chunk_def append_sequence_cache_pages_def)
next
  case (Some a)
  let ?k = "min (remaining_prompt_tokens r) n"
  have ps: "0 < page_size a" using assms Some by (simp add: alloc_inv_def)
  show thesis
  proof (cases "allocate_for_sequence a (sequence_cache_pages r) ?k")
    case (Ok x)
    obtain pages a' where x: "x = (pages, a')" by (cases x)
    show thesis
      by (rule ok [where pages = pages and alloc' = "Some a'"])
        (use Some Ok x in \<open>simp_all add: allocate_prefill_chunk_def append_sequence_cache_pages_def\<close>)
  next
    case (Err e)
    then have "is_out_of_slots (CacheAllocation e)"
      using allocate_for_sequence_total(3) [OF ps Err] by simp
    then show thesis using full Some Err by (simp add: allocate_prefill_chunk_def)
  next
    case Panic
    then show thesis using allocate_for_sequence_total(1) [OF ps] by simp
  qed
qed

lemma prepare_decode_cases:
  assumes "alloc_ok alloc"
  obtains (ok) pages alloc' r' where
      "prepare_decode_request alloc r = (Ok (), r', alloc')"
      "r' = r\<lparr>forward_cache_pages := pages, allocated_cache_pages := pages,
              sequence_cache_pages := sequence_cache_pages r @ pages\<rparr>"
      "alloc = None \<Longrightarrow> pages = [] \<and> alloc' = None"
      "\<And>a. alloc = Some a \<Longrightarrow> \<exists>a'. alloc' = Some a' \<and>
         allocate_for_sequence a (sequence_cache_pages r) 1 = Ok (pages, a')"
  | (full) e where "prepare_decode_request alloc r = (Err e, r, alloc)" "is_out_of_slots e"
proof (cases alloc)
  case None
  then show thesis
    by (intro ok [where pages = "[]" and alloc' = None])
      (simp_all add: prepare_decode_request_def append_sequence_cache_pages_def)
next
  case (Some a)
  have ps: "0 < page_size a" using assms Some by (simp add: alloc_inv_def)
  show thesis
  proof (cases "allocate_for_sequence a (sequence_cache_pages r) 1")
    case (Ok x)
    obtain pages a' where x: "x = (pages, a')" by (cases x)
    show thesis
      by (rule ok [where pages = pages and alloc' = "Some a'"])
        (use Some Ok x in \<open>simp_all add: prepare_decode_request_def append_sequence_cache_pages_def\<close>)
  next
    case (Err e)
    then have "is_out_of_slots (CacheAllocation e)"
      using allocate_for_sequence_total(3) [OF ps Err] by simp
    then show thesis using full Some Err by (simp add: prepare_decode_request_def)
  next
    case Panic
    then show thesis using allocate_for_sequence_total(1) [OF ps] by simp
  qed
qed

section \<open>Pages borrowed by a batch under construction\<close>

text \<open>
  \<open>borrowed alloc0 alloc rs\<close>: the allocator \<open>alloc\<close> is \<open>alloc0\<close> with, in addition, the pages that
  the requests \<open>rs\<close> hold as \<open>allocated_cache_pages\<close>.
\<close>

definition held :: "page_allocator \<Rightarrow> scheduled_request list \<Rightarrow> usize set" where
  "held a rs = (\<Union>r \<in> set rs. set (owned_pages (slot_capacity a) (page_size a) (allocated_cache_pages r)))"

fun borrowed :: "page_allocator option \<Rightarrow> page_allocator option \<Rightarrow> scheduled_request list \<Rightarrow> bool" where
  "borrowed None None rs = True"
| "borrowed (Some a0) (Some a) rs \<longleftrightarrow>
     alloc_inv a0 \<and> alloc_inv a \<and> page_size a = page_size a0 \<and> slot_capacity a = slot_capacity a0 \<and>
     allocated_page_indices a = allocated_page_indices a0 \<union> held a0 rs \<and>
     allocated_page_indices a0 \<inter> held a0 rs = {}"
| "borrowed _ _ rs = False"

lemma held_simps [simp]:
  "held a [] = {}" "held a (rs @ rs') = held a rs \<union> held a rs'"
  "held a (r # rs) = set (owned_pages (slot_capacity a) (page_size a) (allocated_cache_pages r)) \<union> held a rs"
  by (auto simp: held_def)

lemma borrowed_refl: "alloc_ok alloc \<Longrightarrow> borrowed alloc alloc []"
  by (cases alloc) simp_all

lemma borrowed_ok: "borrowed alloc0 alloc rs \<Longrightarrow> alloc_ok alloc"
  by (cases "(alloc0, alloc, rs)" rule: borrowed.cases) simp_all

lemma borrowed_alloc:
  assumes "borrowed (Some a0) (Some a) rs"
    and "allocate_for_sequence a xs n = Ok (allocated_cache_pages r, a')"
  shows "borrowed (Some a0) (Some a') (rs @ [r])"
proof -
  have inv: "alloc_inv a" and frame: "page_size a = page_size a0" "slot_capacity a = slot_capacity a0"
    using assms(1) by simp_all
  let ?Q = "owned_pages (slot_capacity a0) (page_size a0) (allocated_cache_pages r)"
  note own = allocated_owned_pages [OF inv assms(2), unfolded frame]
  have "set ?Q \<inter> allocated_page_indices a = {}"
    using inv own(1) by (auto simp: alloc_inv_def)
  then show ?thesis
    using assms(1) own(2) allocate_for_sequence_inv [OF inv assms(2)] by auto
qed

lemma borrowed_empty_step: "borrowed a0 a rs \<Longrightarrow> allocated_cache_pages r = [] \<Longrightarrow> borrowed a0 a (rs @ [r])"
  by (cases "(a0, a, rs)" rule: borrowed.cases) simp_all

lemma borrowed_step:
  assumes "borrowed a0 alloc rs"
    and "alloc = None \<Longrightarrow> allocated_cache_pages r = [] \<and> alloc' = None"
    and "\<And>a. alloc = Some a \<Longrightarrow> \<exists>a'. alloc' = Some a' \<and>
           allocate_for_sequence a xs n = Ok (allocated_cache_pages r, a')"
  shows "borrowed a0 alloc' (rs @ [r])"
proof (cases alloc)
  case None
  then have "allocated_cache_pages r = []" "alloc' = None" using assms(2) by simp_all
  then show ?thesis using assms(1) None borrowed_empty_step by metis
next
  case (Some a)
  then obtain a' where a': "alloc' = Some a'" "allocate_for_sequence a xs n = Ok (allocated_cache_pages r, a')"
    using assms(3) by blast
  obtain b where b: "a0 = Some b" using assms(1) Some by (cases a0) simp_all
  show ?thesis
    unfolding a'(1) b by (rule borrowed_alloc [OF _ a'(2)]) (use assms(1) Some b in simp)
qed

lemma release_opt_undo:
  assumes "alloc_ok alloc" and "alloc = None \<Longrightarrow> allocated_cache_pages r = [] \<and> alloc' = None"
    and "\<And>a. alloc = Some a \<Longrightarrow> \<exists>a'. alloc' = Some a' \<and>
           allocate_for_sequence a xs n = Ok (allocated_cache_pages r, a')"
  shows "release_opt alloc' (allocated_cache_pages r) = alloc"
proof (cases alloc)
  case (Some a)
  then obtain a' where "alloc' = Some a'" "allocate_for_sequence a xs n = Ok (allocated_cache_pages r, a')"
    using assms(3) by blast
  then show ?thesis using assms(1) Some pool.give_back_take by auto
qed (use assms(2) in simp)

lemma foldl_release_allocated:
  "allocated_page_indices (foldl (\<lambda>a r. release a (allocated_cache_pages r)) a rs) =
     allocated_page_indices a - held a rs \<and>
   page_size (foldl (\<lambda>a r. release a (allocated_cache_pages r)) a rs) = page_size a \<and>
   slot_capacity (foldl (\<lambda>a r. release a (allocated_cache_pages r)) a rs) = slot_capacity a"
  by (induction rs arbitrary: a) (auto simp: release_allocated held_def)

lemma foldl_release_inv: "alloc_inv a \<Longrightarrow> alloc_inv (foldl (\<lambda>a r. release a (allocated_cache_pages r)) a rs)"
  by (induction rs arbitrary: a) (simp_all add: release_inv)

lemma foldl_release_opt:
  "foldl (\<lambda>al r. release_opt al (allocated_cache_pages r)) al rs =
     map_option (\<lambda>a. foldl (\<lambda>a r. release a (allocated_cache_pages r)) a rs) al"
  by (induction rs arbitrary: al) (auto simp: release_opt_def option.map_comp comp_def option.map_ident)

lemma borrowed_release_all:
  assumes "borrowed alloc0 alloc rs"
  shows "borrowed alloc0 (foldl (\<lambda>al r. release_opt al (allocated_cache_pages r)) alloc rs) []"
proof (cases alloc0)
  case None
  then show ?thesis using assms by (cases alloc) (simp_all add: foldl_release_opt)
next
  case (Some a0)
  then obtain a where a: "alloc = Some a" using assms by (cases alloc) simp_all
  then show ?thesis
    using assms Some foldl_release_allocated [of a rs] foldl_release_inv [of a rs]
    by (auto simp: foldl_release_opt held_def)
qed

text \<open>With nothing borrowed, the two allocators hold the same pages.\<close>

lemma borrowed_Nil_available:
  assumes "borrowed (Some a0) (Some a) []"
  shows "allocated_page_indices a = allocated_page_indices a0"
    and "available_pages a = available_pages a0"
proof -
  show eq: "allocated_page_indices a = allocated_page_indices a0" using assms by simp
  have free: "set (free_page_indices b) = {..< slot_capacity b div page_size b} - allocated_page_indices b"
    if "alloc_inv b" for b using that by (auto simp: alloc_inv_def)
  have "set (free_page_indices a) = set (free_page_indices a0)"
    using assms eq free [of a] free [of a0] by simp
  moreover have "distinct (free_page_indices a)" "distinct (free_page_indices a0)"
    using assms by (auto simp: alloc_inv_def)
  ultimately show "available_pages a = available_pages a0"
    by (metis available_pages_def distinct_card)
qed


section \<open>The prefill loop\<close>

lemma back_to_prefill_waiting_simps [simp]:
  "request_id (back_to_prefill_waiting r) = request_id r"
  "input_ids (back_to_prefill_waiting r) = input_ids r"
  "allocated_cache_pages (back_to_prefill_waiting r) = []"
  "stage (back_to_prefill_waiting r) = PrefillWaiting"
  by (simp_all add: back_to_prefill_waiting_def clear_forward_cache_allocation_def Let_def)

lemma back_to_decode_waiting_simps [simp]:
  "request_id (back_to_decode_waiting r) = request_id r"
  "input_ids (back_to_decode_waiting r) = input_ids r"
  "allocated_cache_pages (back_to_decode_waiting r) = []"
  "stage (back_to_decode_waiting r) = DecodeWaiting"
  by (simp_all add: back_to_decode_waiting_def clear_forward_cache_allocation_def Let_def)

lemma foldl_push_map: "foldl (\<lambda>q r. f r # q) q0 (rev rs) = map f rs @ q0"
  by (induction rs arbitrary: q0) simp_all

lemma restore_failed_prefill_eq:
  "restore_failed_prefill_attempt alloc queue prepared failed =
     (map back_to_prefill_waiting (prepared @ [failed]) @ queue,
      foldl (\<lambda>al r. release_opt al (allocated_cache_pages r)) alloc (failed # prepared))"
  by (simp add: restore_failed_prefill_attempt_def foldl_push_map)

lemma restore_failed_decode_eq:
  "restore_failed_decode_attempt alloc queue prepared failed =
     (map back_to_decode_waiting prepared @ failed # queue,
      foldl (\<lambda>al r. release_opt al (allocated_cache_pages r)) alloc prepared)"
  by (simp add: restore_failed_decode_attempt_def foldl_push_map)

lemma prepare_prefill_cases [consumes 2, case_names ready full]:
  assumes ok: "alloc_ok alloc" and none: "allocated_cache_pages r = []"
  obtains (ready) r' alloc' where
      "prepare_prefill_request_chunk p cache alloc r n = (Ok (), r', alloc')"
      "request_id r' = request_id r" "stage r' = PrefillForward"
      "current_chunk_len r' \<le> max 1 n"
      "release_opt alloc' (allocated_cache_pages r') = alloc"
      "\<And>a0 rs. borrowed a0 alloc rs \<Longrightarrow> borrowed a0 alloc' (rs @ [r'])"
  | (full) r' e where
      "prepare_prefill_request_chunk p cache alloc r n = (Err e, r', alloc)"
      "is_out_of_slots e" "request_id r' = request_id r" "allocated_cache_pages r' = []"
proof -
  have step: thesis if call: "prepare_prefill_request_chunk p cache alloc r n = allocate_prefill_chunk alloc x n"
    and x: "request_id x = request_id r" "allocated_cache_pages x = []" for x
  proof (rule allocate_prefill_chunk_cases [OF ok, of x n])
    fix pages alloc' r'
    assume A: "allocate_prefill_chunk alloc x n = (Ok (), r', alloc')"
      and r': "r' = x\<lparr>forward_cache_pages := pages, allocated_cache_pages := pages,
              sequence_cache_pages := sequence_cache_pages x @ pages,
              current_chunk_len := min (remaining_prompt_tokens x) n, stage := PrefillForward\<rparr>"
      and N: "alloc = None \<Longrightarrow> pages = [] \<and> alloc' = None"
      and S: "\<And>a. alloc = Some a \<Longrightarrow> \<exists>a'. alloc' = Some a' \<and>
         allocate_for_sequence a (sequence_cache_pages x) (min (remaining_prompt_tokens x) n) = Ok (pages, a')"
    show thesis
    proof (rule ready)
      show "release_opt alloc' (allocated_cache_pages r') = alloc"
        by (rule release_opt_undo [OF ok]) (use N S r' in simp_all)
      show "borrowed a0 alloc' (rs @ [r'])" if "borrowed a0 alloc rs" for a0 rs
        by (rule borrowed_step [OF that]) (use N S r' in simp_all)
    qed (use A call x r' in \<open>simp_all add: min_le_iff_disj le_max_iff_disj\<close>)
  next
    fix e
    assume "allocate_prefill_chunk alloc x n = (Err e, x, alloc)" "is_out_of_slots e"
    then show thesis using call x by (intro full [of e x]) simp_all
  qed
  show thesis
  proof (cases "prompt_tokens_processed r = 0")
    case True
    show thesis
    proof (cases rule: begin_prefill_cases [of p cache "sched_page_size alloc" r])
      case (replay r')
      show thesis
        by (rule ready [of r' alloc])
          (use True replay none in \<open>auto simp: prepare_prefill_request_chunk_def intro: borrowed_empty_step\<close>)
    next
      case (fresh r')
      then show thesis
        by (intro step [of r']) (use True none in \<open>auto simp: prepare_prefill_request_chunk_def\<close>)
    qed
  next
    case False
    then show thesis using none by (intro step [of r]) (auto simp: prepare_prefill_request_chunk_def)
  qed
qed

abbreviation chunk_tokens :: "scheduled_request list \<Rightarrow> nat" where
  "chunk_tokens rs \<equiv> sum_list (map current_chunk_len rs)"

abbreviation idle :: "scheduled_request list \<Rightarrow> bool" where
  "idle rs \<equiv> \<forall>r \<in> set rs. allocated_cache_pages r = []"

text \<open>What the prefill loop guarantees for each of its results.\<close>

definition prefill_result ::
  "page_allocator option \<Rightarrow> request_id list \<Rightarrow> usize \<Rightarrow> usize \<Rightarrow>
   (scheduler_error, scheduled_request list) outcome \<times> scheduled_request list \<times> page_allocator option \<Rightarrow> bool" where
  "prefill_result a0 ids max_batch max_tokens res =
     (case res of
        (Ok rs, queue, alloc) \<Rightarrow>
          map request_id rs @ map request_id queue = ids \<and> borrowed a0 alloc rs \<and> idle queue \<and>
          length rs \<le> max_batch \<and> (length rs \<le> 1 \<or> chunk_tokens rs \<le> max_tokens) \<and>
          (\<forall>r \<in> set rs. stage r = PrefillForward)
      | (Err e, queue, alloc) \<Rightarrow>
          map request_id queue = ids \<and> borrowed a0 alloc [] \<and> idle queue \<and> is_out_of_slots e
      | (Panic, queue, alloc) \<Rightarrow> False)"

lemma prefill_loop_result:
  assumes "borrowed a0 alloc requests" and "idle queue" and "length requests \<le> max_batch"
    and "used = chunk_tokens requests" and "length requests \<le> 1 \<or> used \<le> max_tokens"
    and "\<forall>r \<in> set requests. stage r = PrefillForward"
  shows "prefill_result a0 (map request_id (requests @ queue)) max_batch max_tokens
           (prefill_loop p cache chunk_budget max_batch max_tokens alloc queue requests used)"
  using assms
proof (induction queue arbitrary: alloc requests used)
  case Nil
  then show ?case by (simp add: prefill_result_def)
next
  case (Cons q queue)
  show ?case
  proof (cases "length requests < max_batch")
    case False
    then show ?thesis using Cons.prems by (simp add: prefill_result_def)
  next
    case True
    have ok: "alloc_ok alloc" and q: "allocated_cache_pages q = []"
      using Cons.prems borrowed_ok by auto
    from ok q show ?thesis
    proof (cases rule: prepare_prefill_cases [where p = p and cache = cache and n = chunk_budget])
      case (ready r alloc')
      show ?thesis
      proof (cases "requests \<noteq> [] \<and> used + current_chunk_len r > max_tokens")
        case True
        then show ?thesis
          using Cons.prems ready \<open>length requests < max_batch\<close> by (simp add: prefill_result_def)
      next
        case False
        have "prefill_result a0 (map request_id ((requests @ [r]) @ queue)) max_batch max_tokens
           (prefill_loop p cache chunk_budget max_batch max_tokens alloc' queue (requests @ [r])
              (used + current_chunk_len r))"
          by (rule Cons.IH) (use Cons.prems ready True False in auto)
        then show ?thesis using ready True False by auto
      qed
    next
      case (full r e)
      have "borrowed a0 (foldl (\<lambda>al r. release_opt al (allocated_cache_pages r)) alloc (r # requests)) []"
        using borrowed_release_all [OF Cons.prems(1)] full(4) by simp
      then show ?thesis
        using Cons.prems True full by (auto simp: prefill_result_def restore_failed_prefill_eq)
    qed
  qed
qed


text \<open>The part of the state batch formation leaves alone.\<close>

definition same_resources :: "'w scheduler \<Rightarrow> 'w scheduler \<Rightarrow> bool" where
  "same_resources s s' \<longleftrightarrow>
     prefix_cache s' = prefix_cache s \<and> cache_policy s' = cache_policy s \<and>
     pending_prefix_cache_inserts s' = pending_prefix_cache_inserts s \<and>
     max_running_requests s' = max_running_requests s \<and>
     chunked_prefill_size s' = chunked_prefill_size s \<and>
     event_publisher s' = event_publisher s \<and> worker s' = worker s"

lemma borrowed_Nil_pages:
  "borrowed alloc0 alloc [] \<Longrightarrow> map_option available_pages alloc = map_option available_pages alloc0"
  by (cases alloc0; cases alloc) (simp_all add: borrowed_Nil_available del: borrowed.simps(2))

lemma remaining_capacity_cases:
  obtains (limited) e where "remaining_running_request_capacity s = Err e"
  | (room) c where "remaining_running_request_capacity s = Ok c" "0 < c"
      "\<And>m k. max_running_requests s = Some m \<Longrightarrow> k \<le> c \<Longrightarrow> length (decode_queue s) + k \<le> m"
proof (cases "max_running_requests s")
  case None
  then show thesis
    by (intro room [of usize_max]) (simp_all add: remaining_running_request_capacity_def usize_max_def)
next
  case (Some m)
  show thesis
  proof (cases "m - length (decode_queue s) = 0")
    case True
    then show thesis using Some limited by (simp add: remaining_running_request_capacity_def)
  next
    case False
    then show thesis
      by (intro room [of "m - length (decode_queue s)"])
        (use Some in \<open>auto simp: remaining_running_request_capacity_def\<close>)
  qed
qed

definition prefill_batch_post ::
  "'w scheduler \<Rightarrow> usize \<Rightarrow> usize \<Rightarrow> (scheduler_error, schedule_batch) outcome \<Rightarrow> 'w scheduler \<Rightarrow> bool" where
  "prefill_batch_post s n budget res s' \<longleftrightarrow>
     decode_queue s' = decode_queue s \<and> same_resources s s' \<and>
     (case res of
        Ok b \<Rightarrow>
          map request_id (batch_requests b) @ map request_id (waiting_queue s') =
            map request_id (waiting_queue s) \<and>
          1 \<le> batch_size b \<and> batch_size b \<le> n \<and>
          (\<forall>m. max_running_requests s = Some m \<longrightarrow> length (decode_queue s) + batch_size b \<le> m) \<and>
          (batch_size b = 1 \<or> chunk_tokens (batch_requests b) \<le> budget)
      | Err e \<Rightarrow>
          map request_id (waiting_queue s') = map request_id (waiting_queue s) \<and>
          available_cache_pages s' = available_cache_pages s
      | Panic \<Rightarrow> False)"

lemma prefill_batch_post_empty:
  "prefill_batch_post s n budget (Err e) s"
  by (simp add: prefill_batch_post_def same_resources_def)

lemma finish_prefill_batch_post:
  assumes L: "prefill_result (cache_page_allocator s) (map request_id (waiting_queue s)) m budget
                (res, queue, alloc)"
    and "m \<le> n" "0 < m" "waiting_queue s \<noteq> []"
    and room: "\<And>l k. max_running_requests s = Some l \<Longrightarrow> k \<le> m \<Longrightarrow> length (decode_queue s) + k \<le> l"
    and fin: "finish_prefill_batch s (res, queue, alloc) = (out, s')"
  shows "prefill_batch_post s n budget out s'"
proof -
  note [simp] = prefill_batch_post_def same_resources_def batch_prefill_def batch_size_def
    available_cache_pages_def prefill_result_def finish_prefill_batch_def
  show ?thesis
  proof (cases res)
    case Panic
    then show ?thesis using L by simp
  next
    case (Err e)
    then have "s' = s\<lparr>waiting_queue := queue, cache_page_allocator := alloc\<rparr>" "out = Err e"
      and "borrowed (cache_page_allocator s) alloc []"
      using fin L by auto
    then show ?thesis using L Err borrowed_Nil_pages by auto
  next
    case (Ok rs)
    show ?thesis
    proof (cases "rs = []")
      case False
      then have "1 \<le> length rs" by (cases rs) simp_all
      moreover have "\<forall>l. max_running_requests s = Some l \<longrightarrow> length (decode_queue s) + length rs \<le> l"
        using L Ok room by simp
      ultimately show ?thesis using L Ok False fin assms(2) by auto
    next
      case True
      have b: "borrowed (cache_page_allocator s) alloc []" and q0: "idle queue"
        and ids: "map request_id queue = map request_id (waiting_queue s)"
        using L Ok True by auto
      obtain q queue' where q: "queue = q # queue'" using ids assms(4) by (cases queue) auto
      have "alloc_ok alloc" "allocated_cache_pages q = []" using borrowed_ok [OF b] q0 q by auto
      then show ?thesis
      proof (cases rule: prepare_prefill_cases [where p = "cache_policy s" and cache = "prefix_cache s"
              and n = "chunk_budget_of s"])
        case (ready r alloc')
        then have "out = Ok (batch_prefill [r])"
          and "s' = s\<lparr>waiting_queue := queue', cache_page_allocator := alloc'\<rparr>"
          using fin Ok True q by auto
        then show ?thesis using room [where k = 1] assms(2,3) ids q ready by auto
      next
        case (full r e)
        then have "out = Err e" and "s' = s\<lparr>waiting_queue := r # queue', cache_page_allocator := alloc\<rparr>"
          using fin Ok True q by auto
        then show ?thesis using ids q full borrowed_Nil_pages [OF b] by auto
      qed
    qed
  qed
qed

lemma next_prefill_batch_post:
  assumes ok: "alloc_ok (cache_page_allocator s)" and idle: "idle (waiting_queue s)"
    and call: "next_prefill_batch_with_token_budget s n budget = (res, s')"
  shows "prefill_batch_post s n budget res s'"
proof (cases "waiting_queue s = [] \<or> n = 0")
  case True
  then show ?thesis
    using call by (auto simp: next_prefill_batch_with_token_budget_def prefill_batch_post_empty)
next
  case False
  show ?thesis
  proof (cases rule: remaining_capacity_cases [of s])
    case (limited e)
    then show ?thesis using False call
      by (auto simp: next_prefill_batch_with_token_budget_def prefill_batch_post_empty)
  next
    case (room c)
    let ?L = "prefill_loop (cache_policy s) (prefix_cache s) (chunk_budget_of s) (min n c) budget
                (cache_page_allocator s) (waiting_queue s) [] 0"
    obtain lres queue alloc where L3: "?L = (lres, queue, alloc)" by (cases ?L) auto
    have L: "prefill_result (cache_page_allocator s) (map request_id (waiting_queue s)) (min n c) budget
               (lres, queue, alloc)"
      unfolding L3 [symmetric]
      using prefill_loop_result [OF borrowed_refl [OF ok] idle] by simp
    have "finish_prefill_batch s (lres, queue, alloc) = (res, s')"
      using call False room(1) L3 by (simp add: next_prefill_batch_with_token_budget_def)
    then show ?thesis
      by (rule finish_prefill_batch_post [OF L, rotated -1]) (use False room(2,3) in auto)
  qed
qed


text \<open>A request with an empty history, for concrete examples.\<close>

definition sample_request :: "request_id \<Rightarrow> u32 list \<Rightarrow> scheduled_request" where
  "sample_request rid ids = scheduled_request_new rid ids (sampling_new 4)"

text \<open>
  A scheduler over 3 pages of 2 slots, two of them free, with at most 3 running requests and
  chunks of at most 8 tokens; its worker state is a unit.
\<close>

definition sample_scheduler :: "scheduled_request list \<Rightarrow> scheduled_request list \<Rightarrow> unit scheduler" where
  "sample_scheduler waiting decoding =
     (with_cache_resources_and_policy () radix_default
        \<lparr>slot_capacity = 6, page_size = 2, free_page_indices = [1, 2], allocated_page_indices = {0}\<rparr>
        Disabled)\<lparr>waiting_queue := waiting, decode_queue := decoding,
                   max_running_requests := Some 3, chunked_prefill_size := Some 8\<rparr>"



section \<open>The decode loop\<close>

text \<open>
  What the decode loop guarantees.  The last line of the error case is the early return on an error
  of the readiness check: the requests \<open>lost\<close> were taken from the queue and still hold their pages.
\<close>

definition decode_result ::
  "page_allocator option \<Rightarrow> (scheduled_request \<Rightarrow> (scheduler_error, bool) outcome) \<Rightarrow> request_id list \<Rightarrow> usize \<Rightarrow>
   (scheduler_error, scheduled_request list) outcome \<times> scheduled_request list \<times> page_allocator option \<Rightarrow> bool" where
  "decode_result a0 check ids n res =
     (case res of
        (Ok rs, queue, alloc) \<Rightarrow>
          map request_id rs @ map request_id queue = ids \<and> borrowed a0 alloc rs \<and> idle queue \<and>
          length rs \<le> n \<and> (\<forall>r \<in> set rs. stage r = DecodeForward)
      | (Err e, queue, alloc) \<Rightarrow>
          idle queue \<and>
          ((map request_id queue = ids \<and> borrowed a0 alloc []) \<or>
           (\<exists>lost q queue'. queue = q # queue' \<and> check q = Err e \<and>
              map request_id lost @ map request_id queue = ids \<and> borrowed a0 alloc lost))
      | (Panic, queue, alloc) \<Rightarrow> (\<exists>q. check q = Panic))"

lemma borrowed_stage: "borrowed a0 a (rs @ [r\<lparr>stage := st\<rparr>]) = borrowed a0 a (rs @ [r])"
  by (cases "(a0, a, rs @ [r])" rule: borrowed.cases) simp_all

lemma prepare_decode_step:
  assumes ok: "alloc_ok alloc"
  obtains (ready) r alloc' where "prepare_decode_request alloc q = (Ok (), r, alloc')"
      "request_id r = request_id q"
      "\<And>a0 rs. borrowed a0 alloc rs \<Longrightarrow> borrowed a0 alloc' (rs @ [r\<lparr>stage := DecodeForward\<rparr>])"
  | (full) e where "prepare_decode_request alloc q = (Err e, q, alloc)" "is_out_of_slots e"
proof (rule prepare_decode_cases [OF ok, of q])
  fix pages alloc' r'
  assume A: "prepare_decode_request alloc q = (Ok (), r', alloc')"
    and r': "r' = q\<lparr>forward_cache_pages := pages, allocated_cache_pages := pages,
            sequence_cache_pages := sequence_cache_pages q @ pages\<rparr>"
    and N: "alloc = None \<Longrightarrow> pages = [] \<and> alloc' = None"
    and S: "\<And>a. alloc = Some a \<Longrightarrow> \<exists>a'. alloc' = Some a' \<and>
       allocate_for_sequence a (sequence_cache_pages q) 1 = Ok (pages, a')"
  show thesis
  proof (rule ready [OF A])
    show "borrowed a0 alloc' (rs @ [r'\<lparr>stage := DecodeForward\<rparr>])" if "borrowed a0 alloc rs" for a0 rs
      unfolding borrowed_stage by (rule borrowed_step [OF that]) (use N S r' in simp_all)
  qed (simp add: r')
qed (rule full)

lemma decode_loop_result:
  assumes "borrowed a0 alloc requests" and "idle queue" and "length requests \<le> n"
    and "\<forall>r \<in> set requests. stage r = DecodeForward"
  shows "decode_result a0 check (map request_id (requests @ queue)) n
           (decode_loop check n alloc queue requests)"
  using assms
proof (induction queue arbitrary: alloc requests)
  case Nil
  then show ?case by (simp add: decode_result_def)
next
  case (Cons q queue)
  show ?case
  proof (cases "length requests < n \<and> check q = Ok True")
    case False
    then show ?thesis using Cons.prems
      by (cases "check q") (auto simp: decode_result_def)
  next
    case True
    have "alloc_ok alloc" using Cons.prems(1) by (rule borrowed_ok)
    then show ?thesis
    proof (cases rule: prepare_decode_step [where q = q])
      case (ready r alloc')
      have "decode_result a0 check (map request_id ((requests @ [r\<lparr>stage := DecodeForward\<rparr>]) @ queue)) n
           (decode_loop check n alloc' queue (requests @ [r\<lparr>stage := DecodeForward\<rparr>]))"
        by (rule Cons.IH) (use Cons.prems ready True in auto)
      then show ?thesis using ready(1,2) True by auto
    next
      case (full e)
      then show ?thesis
        using Cons.prems True borrowed_release_all [OF Cons.prems(1)]
        by (auto simp: decode_result_def restore_failed_decode_eq)
    qed
  qed
qed


definition decode_batch_post ::
  "(scheduled_request \<Rightarrow> (scheduler_error, bool) outcome) \<Rightarrow> 'w scheduler \<Rightarrow> usize \<Rightarrow>
   (scheduler_error, schedule_batch) outcome \<Rightarrow> 'w scheduler \<Rightarrow> bool" where
  "decode_batch_post check s n res s' \<longleftrightarrow>
     waiting_queue s' = waiting_queue s \<and> same_resources s s' \<and>
     (case res of
        Ok b \<Rightarrow>
          map request_id (batch_requests b) @ map request_id (decode_queue s') =
            map request_id (decode_queue s) \<and>
          batch_size b \<le> n \<and> borrowed (cache_page_allocator s) (cache_page_allocator s') (batch_requests b)
      | Err e \<Rightarrow>
          (map request_id (decode_queue s') = map request_id (decode_queue s) \<and>
           available_cache_pages s' = available_cache_pages s) \<or>
          (\<exists>lost q queue. decode_queue s' = q # queue \<and> check q = Err e \<and>
             map request_id lost @ map request_id (decode_queue s') = map request_id (decode_queue s) \<and>
             borrowed (cache_page_allocator s) (cache_page_allocator s') lost)
      | Panic \<Rightarrow> \<exists>q. check q = Panic)"

lemma next_decode_batch_checked_post:
  assumes ok: "alloc_ok (cache_page_allocator s)" and idle: "idle (decode_queue s)"
    and call: "next_decode_batch_checked check s n = (res, s')"
  shows "decode_batch_post check s n res s'"
proof (cases "decode_queue s = [] \<or> n = 0")
  case True
  then show ?thesis
    using call by (auto simp: next_decode_batch_checked_def decode_batch_post_def same_resources_def)
next
  case False
  let ?L = "decode_loop check (min n (length (decode_queue s))) (cache_page_allocator s) (decode_queue s) []"
  obtain lres queue alloc where L3: "?L = (lres, queue, alloc)" by (cases ?L) auto
  have L: "decode_result (cache_page_allocator s) check (map request_id (decode_queue s))
             (min n (length (decode_queue s))) (lres, queue, alloc)"
    unfolding L3 [symmetric] using decode_loop_result [OF borrowed_refl [OF ok] idle] by simp
  have s': "s' = s\<lparr>decode_queue := queue, cache_page_allocator := alloc\<rparr>"
    and res: "res = (case lres of Ok requests \<Rightarrow> Ok (batch_decode requests) | Err e \<Rightarrow> Err e | Panic \<Rightarrow> Panic)"
    using call False L3 by (auto simp: next_decode_batch_checked_def)
  note [simp] = s' res decode_batch_post_def same_resources_def decode_result_def batch_decode_def
    batch_size_def available_cache_pages_def
  show ?thesis
  proof (cases lres)
    case (Err e)
    show ?thesis using L borrowed_Nil_pages [of "cache_page_allocator s" alloc] by (auto simp: Err)
  qed (use L in auto)
qed



text \<open>
  With the worker's readiness check, an error returned for the second request of the queue
  drops the first one: the call returns the error, request \<open>a\<close> is in no queue any more and the pages
  prepared for it stay allocated.
\<close>

theorem worker_error_drops_prepared_request:
  assumes "decode_queue s = a # b # rest" and "2 \<le> n"
    and "worker_ready W (worker s) a = Ok True" and "worker_ready W (worker s) b = Err e"
    and "prepare_decode_request (cache_page_allocator s) a = (Ok (), a', alloc')"
  shows "next_decode_batch_with_worker_ready_check W s n =
           (Err e, s\<lparr>decode_queue := b # rest, cache_page_allocator := alloc'\<rparr>)"
  using assms by (simp add: next_decode_batch_with_worker_ready_check_def next_decode_batch_checked_def)

text \<open>A worker whose link to the peer of request \<open>b\<close> is down.\<close>

definition flaky_worker :: "unit worker_executor" where
  "flaky_worker =
     \<lparr> execute_batch = (\<lambda>w b. (Inl (WorkerRuntime ''link down''), w)),
       request_state = (\<lambda>w r. if request_id r = ''b'' then Inr (Failed ''link down'') else Inr Ready),
       worker_poll = (\<lambda>w. (Inr \<lparr>completed_batches = 0, failed_batches = 0, pending_batches = 0,
          completed_descriptor_checksums = [], failed_descriptor_checksums = [],
          pending_descriptor_checksums = []\<rparr>, w)),
       complete_request = (\<lambda>w r. w), finish_request = (\<lambda>w r. (Inr (), w)),
       fail_request = (\<lambda>w r. w), worker_shutdown = (\<lambda>w. (Inr (), w)) \<rparr>"

theorem worker_error_drops_prepared_request_witness:
  defines "s \<equiv> sample_scheduler [] [sample_request ''a'' [1], sample_request ''b'' [4]]"
  shows "map request_id (decode_queue (snd (next_decode_batch_with_worker_ready_check flaky_worker s 2))) = [''b''] \<and>
         available_cache_pages s = Some 2 \<and>
         available_cache_pages (snd (next_decode_batch_with_worker_ready_check flaky_worker s 2)) = Some 1"
proof -
  let ?a = "sample_request ''a'' [1]" and ?b = "sample_request ''b'' [4]"
  let ?P = "prepare_decode_request (cache_page_allocator s) ?a"
  have q: "decode_queue s = ?a # ?b # []" by (simp add: s_def sample_scheduler_def)
  have a: "worker_ready flaky_worker (worker s) ?a = Ok True"
    and b: "worker_ready flaky_worker (worker s) ?b = Err (WorkerError (WorkerRuntime ''link down''))"
    by code_simp+
  have P: "?P = (Ok (), fst (snd ?P), snd (snd ?P))" unfolding s_def by code_simp
  have al: "map_option available_pages (snd (snd ?P)) = Some 1" "available_cache_pages s = Some 2"
    unfolding s_def by code_simp+
  show ?thesis
    using worker_error_drops_prepared_request [OF q order.refl a b P] al
    by (simp add: available_cache_pages_def) (simp add: sample_request_def scheduled_request_new_def)
qed

section \<open>Mixed batches\<close>

definition mixed_decode_result ::
  "page_allocator option \<Rightarrow> (scheduled_request \<Rightarrow> (scheduler_error, bool) outcome) \<Rightarrow> request_id list \<Rightarrow>
   usize \<Rightarrow> usize \<Rightarrow> (scheduler_error, scheduled_request list \<times> usize) outcome \<times>
   scheduled_request list \<times> page_allocator option \<Rightarrow> bool" where
  "mixed_decode_result a0 check ids n budget res =
     (case res of
        (Ok (rs, used), queue, alloc) \<Rightarrow>
          map request_id rs @ map request_id queue = ids \<and> borrowed a0 alloc rs \<and> idle queue \<and>
          length rs \<le> n \<and> used = length rs \<and> used \<le> budget \<and> (\<forall>r \<in> set rs. stage r = DecodeForward)
      | (Err e, queue, alloc) \<Rightarrow>
          idle queue \<and>
          ((map request_id queue = ids \<and> borrowed a0 alloc []) \<or>
           (\<exists>lost q queue'. queue = q # queue' \<and> check q = Err e \<and>
              map request_id lost @ map request_id queue = ids \<and> borrowed a0 alloc lost))
      | (Panic, queue, alloc) \<Rightarrow> (\<exists>q. check q = Panic))"

lemma mixed_decode_loop_result:
  assumes "borrowed a0 alloc requests" and "idle queue" and "length requests \<le> n"
    and "used = length requests" and "used \<le> budget" and "\<forall>r \<in> set requests. stage r = DecodeForward"
  shows "mixed_decode_result a0 check (map request_id (requests @ queue)) n budget
           (mixed_decode_loop check n budget alloc queue requests used)"
  using assms
proof (induction queue arbitrary: alloc requests used)
  case Nil
  then show ?case by (simp add: mixed_decode_result_def)
next
  case (Cons q queue)
  show ?case
  proof (cases "length requests < n \<and> used < budget \<and> check q = Ok True")
    case False
    then show ?thesis using Cons.prems
      by (cases "check q") (auto simp: mixed_decode_result_def)
  next
    case True
    have "alloc_ok alloc" using Cons.prems(1) by (rule borrowed_ok)
    then show ?thesis
    proof (cases rule: prepare_decode_step [where q = q])
      case (ready r alloc')
      have "mixed_decode_result a0 check (map request_id ((requests @ [r\<lparr>stage := DecodeForward\<rparr>]) @ queue))
              n budget (mixed_decode_loop check n budget alloc' queue
                (requests @ [r\<lparr>stage := DecodeForward\<rparr>]) (used + 1))"
        by (rule Cons.IH) (use Cons.prems ready True in auto)
      then show ?thesis using ready(1,2) True by auto
    next
      case (full e)
      then show ?thesis
        using Cons.prems True borrowed_release_all [OF Cons.prems(1)]
        by (auto simp: mixed_decode_result_def restore_failed_decode_eq)
    qed
  qed
qed

text \<open>The prefill part of a mixed batch never fails: without slots the batch ends.\<close>

lemma mixed_prefill_loop_result:
  assumes "borrowed a0 alloc requests" and "idle queue" and "length requests \<le> n"
    and "used \<le> budget"
  obtains rs queue' alloc' where
    "mixed_prefill_loop p cache chunk_budget n budget alloc queue requests used = (Ok (requests @ rs), queue', alloc')"
    "map request_id rs @ map request_id queue' = map request_id queue"
    "borrowed a0 alloc' (requests @ rs)" "idle queue'" "length requests + length rs \<le> n"
    "used + chunk_tokens rs \<le> budget" "\<forall>r \<in> set rs. stage r = PrefillForward"
  using assms
proof (induction queue arbitrary: thesis alloc requests used)
  case Nil
  show ?case by (rule Nil.prems(1) [of "[]" "[]" alloc]) (use Nil.prems(2-) in simp_all)
next
  case (Cons q queue)
  let ?c = "min chunk_budget (budget - used)"
  show ?case
  proof (cases "length requests < n \<and> used < budget \<and> ?c \<noteq> 0")
    case False
    then show ?thesis by (intro Cons.prems(1) [of "[]"]) (use Cons.prems in auto)
  next
    case True
    have "alloc_ok alloc" "allocated_cache_pages q = []" using Cons.prems borrowed_ok by auto
    then show ?thesis
    proof (cases rule: prepare_prefill_cases [where p = p and cache = cache and n = ?c])
      case (ready r alloc')
      have len: "current_chunk_len r \<le> budget - used" using ready(4) True by auto
      note b = ready(6) [OF Cons.prems(2)]
      show ?thesis
      proof (cases "current_chunk_len r = 0")
        case True
        show ?thesis
          by (rule Cons.prems(1) [of "[r]"])
            (use Cons.prems ready b True \<open>length requests < n \<and> used < budget \<and> ?c \<noteq> 0\<close> in \<open>auto simp: Let_def\<close>)
      next
        case False
        have pre: "idle queue" "length (requests @ [r]) \<le> n" "used + current_chunk_len r \<le> budget"
          using Cons.prems True len by auto
        obtain rs queue' alloc'' where *:
          "mixed_prefill_loop p cache chunk_budget n budget alloc' queue (requests @ [r]) (used + current_chunk_len r)
             = (Ok ((requests @ [r]) @ rs), queue', alloc'')"
          "map request_id rs @ map request_id queue' = map request_id queue"
          "borrowed a0 alloc'' ((requests @ [r]) @ rs)" "idle queue'" "length (requests @ [r]) + length rs \<le> n"
          "used + current_chunk_len r + chunk_tokens rs \<le> budget" "\<forall>r \<in> set rs. stage r = PrefillForward"
          using Cons.IH [OF _ b pre] by blast
        show ?thesis
          by (rule Cons.prems(1) [of "r # rs"]) (use * ready False True in \<open>auto simp: Let_def\<close>)
      qed
    next
      case (full r e)
      show ?thesis
        by (rule Cons.prems(1) [of "[]" "r # queue" alloc])
          (use Cons.prems(2-) full True in \<open>auto simp: Let_def\<close>)
    qed
  qed
qed

definition mixed_batch_post ::
  "'w scheduler \<Rightarrow> usize \<Rightarrow> usize \<Rightarrow> schedule_batch \<Rightarrow> 'w scheduler \<Rightarrow> bool" where
  "mixed_batch_post s n budget b s' \<longleftrightarrow>
     (\<exists>decoding prefilling. batch_requests b = decoding @ prefilling \<and>
        (\<forall>r \<in> set decoding. stage r = DecodeForward) \<and> (\<forall>r \<in> set prefilling. stage r = PrefillForward) \<and>
        map request_id decoding @ map request_id (decode_queue s') = map request_id (decode_queue s) \<and>
        map request_id prefilling @ map request_id (waiting_queue s') = map request_id (waiting_queue s) \<and>
        length decoding + chunk_tokens prefilling \<le> budget \<and>
        batch_forward_mode b =
          (if prefilling = [] then Decode else if decoding = [] then Prefill else Mixed)) \<and>
     1 \<le> batch_size b \<and> batch_size b \<le> n \<and> same_resources s s' \<and>
     borrowed (cache_page_allocator s) (cache_page_allocator s') (batch_requests b)"

lemma mixed_batch_of_mode:
  assumes "\<forall>r \<in> set ds. stage r = DecodeForward" "\<forall>r \<in> set ps. stage r = PrefillForward" "ds @ ps \<noteq> []"
  shows "mixed_batch_of (ds @ ps) =
    \<lparr>batch_forward_mode = (if ps = [] then Decode else if ds = [] then Prefill else Mixed),
     batch_requests = ds @ ps\<rparr>"
proof -
  have "(\<exists>r \<in> set (ds @ ps). stage r = PrefillForward) \<longleftrightarrow> ps \<noteq> []"
    and "(\<exists>r \<in> set (ds @ ps). stage r = DecodeForward) \<longleftrightarrow> ds \<noteq> []"
    using assms(1,2) by (cases ds; cases ps; auto)+
  then show ?thesis
    using assms(3) by (auto simp: mixed_batch_of_def Let_def batch_mixed_def batch_prefill_def batch_decode_def)
qed

lemma next_mixed_batch_post:
  assumes ok: "alloc_ok (cache_page_allocator s)"
    and idle: "idle (decode_queue s)" "idle (waiting_queue s)"
    and call: "next_mixed_batch W s n budget = (Ok b, s')"
  shows "mixed_batch_post s n budget b s'"
proof -
  let ?D = "mixed_decode_loop (worker_ready W (worker s)) n budget (cache_page_allocator s) (decode_queue s) [] 0"
  have some: "n \<noteq> 0" "\<not> (decode_queue s = [] \<and> waiting_queue s = [])"
    using call by (auto simp: next_mixed_batch_def split: if_splits)
  obtain dres dq alloc where D: "?D = (dres, dq, alloc)" by (cases ?D) auto
  have "mixed_decode_result (cache_page_allocator s) (worker_ready W (worker s))
      (map request_id (decode_queue s)) n budget (dres, dq, alloc)"
    unfolding D [symmetric] using mixed_decode_loop_result [OF borrowed_refl [OF ok] idle(1)] by simp
  moreover obtain ds used where dres: "dres = Ok (ds, used)"
    using call some D by (cases dres) (auto simp: next_mixed_batch_def)
  ultimately have d: "map request_id ds @ map request_id dq = map request_id (decode_queue s)"
      "borrowed (cache_page_allocator s) alloc ds" "length ds \<le> n" "used = length ds" "used \<le> budget"
      "\<forall>r \<in> set ds. stage r = DecodeForward"
    by (auto simp: mixed_decode_result_def)
  obtain ps wq alloc' where P:
    "mixed_prefill_loop (cache_policy s) (prefix_cache s) (chunk_budget_of s) n budget alloc (waiting_queue s) ds used
       = (Ok (ds @ ps), wq, alloc')"
    and p: "map request_id ps @ map request_id wq = map request_id (waiting_queue s)"
      "borrowed (cache_page_allocator s) alloc' (ds @ ps)" "length ds + length ps \<le> n"
      "used + chunk_tokens ps \<le> budget" "\<forall>r \<in> set ps. stage r = PrefillForward"
    by (rule mixed_prefill_loop_result [OF d(2) idle(2) d(3,5)])
  have ne: "ds @ ps \<noteq> []" and s': "s' = s\<lparr>decode_queue := dq, waiting_queue := wq, cache_page_allocator := alloc'\<rparr>"
    and b: "b = mixed_batch_of (ds @ ps)"
    using call some D dres P by (auto simp: next_mixed_batch_def split: if_splits)
  have "1 \<le> length (ds @ ps)" using ne by (cases "ds @ ps") auto
  moreover note mixed_batch_of_mode [OF d(6) p(5) ne]
  ultimately show ?thesis
    using s' b d p by (auto simp: mixed_batch_post_def same_resources_def batch_size_def)
qed

text \<open>
  (C6) A mixed batch takes ready decode requests from the front of the decode queue, then prefill
  chunks from the front of the waiting queue, both in order.  It has between one and \<open>n\<close> requests,
  its decode steps and chunk lengths together never exceed the token budget, its forward mode
  is \<open>Mixed\<close> exactly when both kinds are present, and the allocator has taken exactly the pages the
  batch holds.
\<close>

theorem next_mixed_batch_spec:
  assumes "alloc_ok (cache_page_allocator s)"
    and "idle (decode_queue s)" and "idle (waiting_queue s)"
    and "next_mixed_batch W s n budget = (Ok b, s')"
  shows "mixed_batch_post s n budget b s'"
  using assms by (rule next_mixed_batch_post)

theorem next_mixed_batch_spec_witness:
  defines "s \<equiv> sample_scheduler [sample_request ''w'' [1, 2, 3, 4]] [sample_request ''a'' [1]]"
  shows "\<exists>b s'. next_mixed_batch flaky_worker s 2 3 = (Ok b, s') \<and> batch_forward_mode b = Mixed \<and>
           mixed_batch_post s 2 3 b s'"
proof -
  let ?N = "next_mixed_batch flaky_worker s 2 3"
  have ok: "alloc_ok (cache_page_allocator s)"
    by (auto simp: s_def sample_scheduler_def with_cache_resources_and_policy_def alloc_inv_def)
  have idle: "idle (decode_queue s)" "idle (waiting_queue s)"
    by (simp_all add: s_def sample_scheduler_def sample_request_def scheduled_request_new_def)
  have "case fst ?N of Ok b \<Rightarrow> batch_forward_mode b = Mixed | _ \<Rightarrow> False" unfolding s_def by code_simp
  then obtain b where "?N = (Ok b, snd ?N)" "batch_forward_mode b = Mixed"
    by (cases ?N; cases "fst ?N") auto
  then show ?thesis using next_mixed_batch_spec [OF ok idle] by blast
qed

end
