(* ===== verification/Page_Ownership.thy ===== *)
theory Page_Ownership
  imports Page_Allocator
begin

text \<open>
  Who owns the pages of the allocator.  \<open>own a M L\<close> relates an allocator to the slot lists \<open>M\<close> of
  the live sequences: every sequence fills its own pages in order, no page belongs to two sequences,
  and \<open>L\<close> are the allocated pages that belong to no sequence, the leaked ones.  The lemmas say how
  one allocation, one release and the loss of a sequence change the three.
\<close>

definition seq_pages :: "page_allocator \<Rightarrow> cache_page_id list \<Rightarrow> usize list" where
  "seq_pages a xs = owned_pages (slot_capacity a) (page_size a) xs"

definition own :: "page_allocator \<Rightarrow> cache_page_id list multiset \<Rightarrow> usize multiset \<Rightarrow> bool" where
  "own a M L \<longleftrightarrow>
     alloc_inv a \<and> (\<forall>q \<in># M. paged (page_size a) (seq_pages a q) q) \<and>
     (\<Sum>q \<in># M. mset (seq_pages a q)) + L = mset_set (allocated_page_indices a)"

section \<open>Multisets of pages\<close>

lemma mset_set_minus_list:
  assumes "finite A" and "mset xs + X = mset_set A"
  shows "X = mset_set (A - set xs)" and "distinct xs" and "set xs \<subseteq> A"
proof -
  have sub: "mset xs \<subseteq># mset_set A" using assms(2) by (metis mset_subset_eq_add_left)
  have "count (mset xs) x \<le> 1" for x
  proof -
    have "count (mset_set A) x \<le> 1" using assms(1) by (cases "x \<in> A") simp_all
    then show ?thesis using mset_subset_eq_count [OF sub, of x] by linarith
  qed
  then have "count (mset xs) x = (if x \<in> set xs then 1 else 0)" for x
    by (metis One_nat_def Suc_leI count_greater_zero_iff le_antisym not_in_iff set_mset_mset)
  then show d: "distinct xs" using distinct_count_atmost_1 by blast
  show s: "set xs \<subseteq> A" using set_mset_mono [OF sub] assms(1) by simp
  have "X = mset_set A - mset xs" using assms(2) by (metis add_diff_cancel_left')
  also have "mset xs = mset_set (set xs)" using d by (simp add: mset_set_set)
  finally show "X = mset_set (A - set xs)" using s assms(1) by (simp add: mset_set_Diff)
qed

lemma alloc_inv_finite: "alloc_inv a \<Longrightarrow> finite (allocated_page_indices a)"
  by (rule finite_subset [of _ "{..< slot_capacity a div page_size a}"]) (auto simp: alloc_inv_def)

lemma seq_pages_simps [simp]:
  "seq_pages a [] = []" "seq_pages a (xs @ ys) = seq_pages a xs @ seq_pages a ys"
  "seq_pages (release a zs) xs = seq_pages a xs" "seq_pages (reset a) xs = seq_pages a xs"
  by (simp_all add: seq_pages_def owned_pages_append)

lemma release_allocated_seq:
  "allocated_page_indices (release a xs) = allocated_page_indices a - set (seq_pages a xs)"
  by (simp add: release_allocated seq_pages_def)

lemma own_Nil [simp]: "own a (add_mset [] M) L \<longleftrightarrow> own a M L"
  by (simp add: own_def)

lemma own_inv: "own a M L \<Longrightarrow> alloc_inv a"
  by (simp add: own_def)

lemma own_member:
  assumes "own a M L" and "q \<in># M"
  shows "paged (page_size a) (seq_pages a q) q" and "set (seq_pages a q) \<subseteq> allocated_page_indices a"
proof -
  show "paged (page_size a) (seq_pages a q) q" using assms by (simp add: own_def)
  obtain N where M: "M = add_mset q N" using assms(2) by (metis insert_DiffM)
  have "mset (seq_pages a q) + ((\<Sum>q \<in># N. mset (seq_pages a q)) + L) = mset_set (allocated_page_indices a)"
    using assms(1) M by (simp add: own_def ac_simps)
  then show "set (seq_pages a q) \<subseteq> allocated_page_indices a"
    using mset_set_minus_list(3) alloc_inv_finite own_inv assms(1) by blast
qed

section \<open>Allocation\<close>

lemma own_allocate:
  assumes own: "own a (add_mset q M) L" and ok: "allocate_for_sequence a q n = Ok (ys, a')"
  shows "own a' (add_mset (q @ ys) M) L"
proof -
  note inv = own_inv [OF own]
  note frame = allocate_for_sequence_inv [OF inv ok]
  have pages: "seq_pages a' xs = seq_pages a xs" for xs by (simp add: seq_pages_def frame)
  have wf: "paged (page_size a) (seq_pages a q) q" and sub: "set (seq_pages a q) \<subseteq> allocated_page_indices a"
    using own_member [OF own] by simp_all
  have last: "q \<noteq> [] \<longrightarrow> last (seq_pages a q) \<in> allocated_page_indices a"
    using wf sub paged_last(7) [OF wf] inv by (auto simp: alloc_inv_def)
  obtain Q where Q: "paged (page_size a) (seq_pages a q @ Q) (q @ ys)"
      "free_page_indices a = Q @ free_page_indices a'"
      "allocated_page_indices a' = allocated_page_indices a \<union> set Q"
    by (rule allocate_for_sequence_paged [OF inv wf last ok])
  have own_ys: "seq_pages a ys = Q"
    using allocated_owned_pages(1) [OF inv ok] Q(2) by (simp add: seq_pages_def)
  have Qd: "distinct Q" "set Q \<inter> allocated_page_indices a = {}"
    using inv Q(2) by (auto simp: alloc_inv_def)
  have "mset_set (allocated_page_indices a') = mset_set (allocated_page_indices a) + mset Q"
    unfolding Q(3) using Qd alloc_inv_finite [OF inv]
    by (subst mset_set_Union) (auto simp: mset_set_set)
  then show ?thesis
    using own Q(1) own_ys frame(1,2) by (simp add: own_def pages ac_simps)
qed

section \<open>Release\<close>

lemma paged_slots_take:
  assumes "n \<le> k * ps" and "k \<le> length P"
  shows "paged_slots ps (take k P) n = paged_slots ps P n"
proof -
  have "concat (map (page_slots ps) P) =
      concat (map (page_slots ps) (take k P)) @ concat (map (page_slots ps) (drop k P))"
    by (metis append_take_drop_id concat_append map_append)
  then show ?thesis using assms by (simp add: paged_slots_def min_def)
qed

lemma paged_prefix:
  assumes inv: "alloc_inv a" and wf: "paged (page_size a) (seq_pages a (q @ ys)) (q @ ys)"
    and sub: "set (seq_pages a (q @ ys)) \<subseteq> allocated_page_indices a"
  shows "paged (page_size a) (seq_pages a q) q"
proof -
  let ?P = "seq_pages a (q @ ys)" and ?ps = "page_size a"
  have ps: "0 < ?ps" using inv by (simp add: alloc_inv_def)
  have all: "q @ ys = paged_slots ?ps ?P (length (q @ ys))" and len: "length ?P = div_ceil (length (q @ ys)) ?ps"
    using wf unfolding paged_def by blast+
  have "take (length q) (q @ ys) = take (length q) (paged_slots ?ps ?P (length (q @ ys)))"
    using all by (rule arg_cong)
  then have q: "q = paged_slots ?ps ?P (length q)"
    by (simp only: paged_slots_def take_take append_eq_conv_conj length_append min_absorb1 le_add1
        take_append diff_self_eq_0 take_0 append_Nil2 take_all [OF order.refl])
  have fits: "length (q @ ys) \<le> length ?P * ?ps"
    using div_ceil_le_iff [OF ps, of "length (q @ ys)" "length ?P"] len by simp
  then have le: "div_ceil (length q) ?ps \<le> length ?P"
    using div_ceil_le_iff [OF ps, of "length q" "length ?P"] by simp
  have take: "seq_pages a q = take (div_ceil (length q) ?ps) ?P"
    by (subst q, unfold seq_pages_def [of _ "paged_slots _ _ _"], rule owned_pages_paged_slots [OF ps le])
      (use alloc_inv_page_bound(1) [OF inv] sub in blast)
  have "length (seq_pages a q) = div_ceil (length q) ?ps" unfolding take using le by (rule length_take [THEN trans, OF min_absorb2])
  moreover have "length q \<le> div_ceil (length q) ?ps * ?ps"
    using div_ceil_le_iff [OF ps, of "length q" "div_ceil (length q) ?ps"] by simp
  ultimately show ?thesis
    unfolding paged_def using q take paged_slots_take [OF _ le, of "length q" ?ps] by metis
qed

lemma own_release_suffix:
  assumes own: "own a (add_mset (q @ ys) M) L"
  shows "own (release a ys) (add_mset q M) L"
proof -
  note inv = own_inv [OF own]
  have "paged (page_size a) (seq_pages a q) q"
    by (rule paged_prefix [OF inv, of q ys]) (use own_member [OF own, of "q @ ys"] in simp_all)
  moreover have "mset (seq_pages a ys) + ((\<Sum>q \<in># add_mset q M. mset (seq_pages a q)) + L) =
      mset_set (allocated_page_indices a)"
    using own by (simp add: own_def ac_simps)
  note mset_set_minus_list(1) [OF alloc_inv_finite [OF inv] this]
  ultimately show ?thesis
    using own release_inv [OF inv] by (simp add: own_def release_allocated_seq)
qed

lemma own_release: "own a (add_mset q M) L \<Longrightarrow> own (release a q) M L"
  using own_release_suffix [of a "[]" q M L] by simp

lemma own_lose: "own a (add_mset q M) L \<Longrightarrow> own a M (L + mset (seq_pages a q))"
  by (simp add: own_def ac_simps)

lemma own_reset: "alloc_inv a \<Longrightarrow> own (reset a) {#} {#}"
  using reset_inv [of a] by (simp add: own_def) (simp add: reset_def)

lemma own_with_page_size: "with_page_size cap ps = Ok a \<Longrightarrow> own a {#} {#}"
  using with_page_size_inv [of cap ps a]
  by (auto simp: own_def with_page_size_def split: if_splits)

lemmas own_steps = own_allocate own_release_suffix own_release own_lose

section \<open>Slots\<close>

lemma distinct_page_slots: "distinct P \<Longrightarrow> 0 < ps \<Longrightarrow> distinct (concat (map (page_slots ps) P))"
proof (induction P)
  case (Cons p P)
  have "x div ps = r" if "x \<in> set (page_slots ps r)" for x r
    using that Cons.prems(2) by (auto simp: page_slots_def intro: div_nat_eqI simp: mult.commute)
  then have "r = p" if "x \<in> set (page_slots ps p)" "x \<in> set (page_slots ps r)" for x r
    using that by blast
  then have "set (page_slots ps p) \<inter> set (concat (map (page_slots ps) P)) = {}"
    using Cons.prems(1) by auto
  then show ?case using Cons by (simp add: page_slots_def [of ps p])
qed simp

lemma distinct_concat_take:
  "distinct (concat (map f qs)) \<Longrightarrow> (\<And>q. q \<in> set qs \<Longrightarrow> q = take (length q) (f q)) \<Longrightarrow>
   distinct (concat qs) \<and> set (concat qs) \<subseteq> set (concat (map f qs))"
proof (induction qs)
  case (Cons q qs)
  have q: "q = take (length q) (f q)" using Cons.prems(2) by simp
  then have "set q \<subseteq> set (f q)" "distinct q"
    using Cons.prems(1) by (metis set_take_subset, metis concat.simps(2) distinct_append distinct_take list.simps(9))
  moreover have "distinct (concat qs) \<and> set (concat qs) \<subseteq> set (concat (map f qs))"
    by (rule Cons.IH) (use Cons.prems in auto)
  ultimately show ?case using Cons.prems(1) by auto
qed simp

text \<open>Live sequences never share a slot, and every slot is within the capacity.\<close>

lemma own_slots_distinct:
  assumes own: "own a (mset qs) L"
  shows "distinct (concat qs) \<and> set (concat qs) \<subseteq> {..< slot_capacity a}"
proof -
  note inv = own_inv [OF own]
  let ?P = "concat (map (seq_pages a) qs)" and ?f = "\<lambda>q. concat (map (page_slots (page_size a)) (seq_pages a q))"
  have ps: "0 < page_size a" using inv by (simp add: alloc_inv_def)
  have "mset ?P = (\<Sum>q \<in># mset qs. mset (seq_pages a q))" by (induction qs) simp_all
  then have "mset ?P + L = mset_set (allocated_page_indices a)" using own by (simp add: own_def)
  note P = mset_set_minus_list(2,3) [OF alloc_inv_finite [OF inv] this]
  have f: "concat (map ?f qs) = concat (map (page_slots (page_size a)) ?P)" by (induction qs) simp_all
  have "distinct (concat (map ?f qs))" unfolding f by (rule distinct_page_slots [OF P(1) ps])
  moreover have "q = take (length q) (?f q)" if "q \<in> set qs" for q
    using own that by (auto simp: own_def paged_def paged_slots_def)
  ultimately have *: "distinct (concat qs) \<and> set (concat qs) \<subseteq> set (concat (map (page_slots (page_size a)) ?P))"
    using distinct_concat_take [of ?f qs] f by metis
  have "set (page_slots (page_size a) p) \<subseteq> {..< slot_capacity a}" if "p \<in> set ?P" for p
  proof -
    have "p \<in> set (free_page_indices a) \<union> allocated_page_indices a" using that P(2) by blast
    then show ?thesis using alloc_inv_page_bound(2) [OF inv, of p] by (auto simp: page_slots_def)
  qed
  then have "set (concat (map (page_slots (page_size a)) ?P)) \<subseteq> {..< slot_capacity a}"
    unfolding set_concat set_map by blast
  then show ?thesis using * by blast
qed

end
