(* ===== verification/Sched_Ownership.thy ===== *)
theory Sched_Ownership
  imports Sched_Batch Page_Ownership "HOL-Library.Sublist"
begin

text \<open>
  Page ownership through the scheduler when the prefix cache is disabled, the mode of the
  prefill/decode disaggregated workers: every page a request uses is its own.  \<open>sched_own s rs L\<close>
  relates the allocator to the requests of both queues and the requests \<open>rs\<close> in flight; \<open>L\<close> are the
  leaked pages.  Batch formation, completion, abort and flush are shown to keep it, and the last
  section closes it under every sequence of scheduler calls.
\<close>

definition seqs :: "scheduled_request list \<Rightarrow> cache_page_id list multiset" where
  "seqs rs = mset (map sequence_cache_pages rs)"

definition wait_ok :: "scheduled_request \<Rightarrow> bool" where
  "wait_ok r \<longleftrightarrow> allocated_cache_pages r = [] \<and> (prompt_tokens_processed r = 0 \<longrightarrow> sequence_cache_pages r = [])"

definition pf_ok :: "scheduled_request \<Rightarrow> bool" where
  "pf_ok r \<longleftrightarrow> stage r = PrefillForward \<and> suffix (allocated_cache_pages r) (sequence_cache_pages r) \<and>
     length (allocated_cache_pages r) = current_chunk_len r \<and>
     (prompt_tokens_processed r = 0 \<longrightarrow> sequence_cache_pages r = allocated_cache_pages r)"

definition dec_ok :: "scheduled_request \<Rightarrow> bool" where
  "dec_ok r \<longleftrightarrow> stage r = DecodeForward \<and> suffix (allocated_cache_pages r) (sequence_cache_pages r)"

definition batch_ok :: "schedule_batch \<Rightarrow> bool" where
  "batch_ok b \<longleftrightarrow> (\<forall>r \<in> set (batch_requests b). pf_ok r \<or> dec_ok r \<and> batch_forward_mode b \<noteq> Prefill)"

lemma seqs_simps [simp]:
  "seqs [] = {#}" "seqs (r # rs) = add_mset (sequence_cache_pages r) (seqs rs)"
  "seqs (rs @ rs') = seqs rs + seqs rs'"
  by (simp_all add: seqs_def)

section \<open>Preparing and putting back\<close>

lemma clear_forward_pages:
  "suffix (allocated_cache_pages r) (sequence_cache_pages r) \<Longrightarrow>
   sequence_cache_pages r = sequence_cache_pages (clear_forward_cache_allocation r) @ allocated_cache_pages r"
  by (auto simp: clear_forward_cache_allocation_def Let_def suffix_def)

lemma back_to_prefill_waiting_own:
  assumes "pf_ok r"
  shows "sequence_cache_pages r = sequence_cache_pages (back_to_prefill_waiting r) @ allocated_cache_pages r"
    and "wait_ok (back_to_prefill_waiting r)"
proof -
  show eq: "sequence_cache_pages r = sequence_cache_pages (back_to_prefill_waiting r) @ allocated_cache_pages r"
    using clear_forward_pages [of r] assms by (simp add: pf_ok_def back_to_prefill_waiting_def)
  have "prompt_tokens_processed (back_to_prefill_waiting r) = prompt_tokens_processed r"
    by (simp add: back_to_prefill_waiting_def clear_forward_cache_allocation_def Let_def)
  then show "wait_ok (back_to_prefill_waiting r)"
    using assms eq by (auto simp: pf_ok_def wait_ok_def)
qed

lemma back_to_decode_waiting_own:
  "dec_ok r \<Longrightarrow>
   sequence_cache_pages r = sequence_cache_pages (back_to_decode_waiting r) @ allocated_cache_pages r"
  using clear_forward_pages [of r] by (simp add: dec_ok_def back_to_decode_waiting_def)

text \<open>Releasing the pages of a list of requests while each goes back to what it owned before.\<close>

lemma own_release_list:
  assumes "\<And>r. r \<in> set rs \<Longrightarrow> sequence_cache_pages r = sequence_cache_pages (f r) @ allocated_cache_pages r"
    and "own a (seqs rs + M) L"
  shows "\<exists>a'. foldl (\<lambda>al r. release_opt al (allocated_cache_pages r)) (Some a) rs = Some a' \<and>
           own a' (seqs (map f rs) + M) L"
  using assms
proof (induction rs arbitrary: a M)
  case (Cons r rs)
  have "own a (add_mset (sequence_cache_pages (f r) @ allocated_cache_pages r) (seqs rs + M)) L"
    using Cons.prems by simp
  then have "own (release a (allocated_cache_pages r)) (seqs rs + add_mset (sequence_cache_pages (f r)) M) L"
    using own_release_suffix by fastforce
  from Cons.IH [OF _ this] Cons.prems(1) show ?case by simp
qed simp

lemma prepare_prefill_own:
  assumes w: "wait_ok r" and own: "own a (add_mset (sequence_cache_pages r) M) L"
  obtains (ready) r' a' where
      "prepare_prefill_request_chunk Disabled cache (Some a) r n = (Ok (), r', Some a')"
      "pf_ok r'" "own a' (add_mset (sequence_cache_pages r') M) L"
  | (full) r' e where
      "prepare_prefill_request_chunk Disabled cache (Some a) r n = (Err e, r', Some a)"
      "wait_ok r'" "own a (add_mset (sequence_cache_pages r') M) L" "is_out_of_slots e"
proof -
  have step: thesis
    if call: "prepare_prefill_request_chunk Disabled cache (Some a) r n = allocate_prefill_chunk (Some a) x n"
      and x: "wait_ok x" and ownx: "own a (add_mset (sequence_cache_pages x) M) L" for x
  proof (rule allocate_prefill_chunk_cases [of "Some a" x n])
    show "alloc_ok (Some a)" using own_inv [OF own] by simp
    fix pages alloc' r'
    assume A: "allocate_prefill_chunk (Some a) x n = (Ok (), r', alloc')"
      and r': "r' = x\<lparr>forward_cache_pages := pages, allocated_cache_pages := pages,
            sequence_cache_pages := sequence_cache_pages x @ pages,
            current_chunk_len := min (remaining_prompt_tokens x) n, stage := PrefillForward\<rparr>"
      and S: "\<And>b. Some a = Some b \<Longrightarrow> \<exists>a'. alloc' = Some a' \<and>
         allocate_for_sequence b (sequence_cache_pages x) (min (remaining_prompt_tokens x) n) = Ok (pages, a')"
    obtain a' where a': "alloc' = Some a'"
        "allocate_for_sequence a (sequence_cache_pages x) (min (remaining_prompt_tokens x) n) = Ok (pages, a')"
      using S by blast
    have "length pages = min (remaining_prompt_tokens x) n" by (rule pool.take_length [OF own_inv [OF own] a'(2)])
    then have "pf_ok r'" using x by (auto simp: r' pf_ok_def wait_ok_def suffix_def)
    moreover have "own a' (add_mset (sequence_cache_pages r') M) L"
      using own_allocate [OF ownx a'(2)] by (simp add: r')
    ultimately show thesis using A call a'(1) ready by metis
  next
    fix e
    assume "allocate_prefill_chunk (Some a) x n = (Err e, x, Some a)" "is_out_of_slots e"
    then show thesis using full call x ownx by metis
  qed
  show thesis
  proof (cases "prompt_tokens_processed r = 0")
    case True
    have "sequence_cache_pages r = []" using True w by (simp add: wait_ok_def)
    show thesis
    proof (cases rule: begin_prefill_cases [of Disabled cache "sched_page_size (Some a)" r])
      case (fresh r')
      then show thesis
        using True w own \<open>sequence_cache_pages r = []\<close>
        by (intro step [of r']) (auto simp: prepare_prefill_request_chunk_def wait_ok_def)
    qed simp
  next
    case False
    then show thesis using w own by (intro step [of r]) (auto simp: prepare_prefill_request_chunk_def)
  qed
qed

lemma prepare_decode_own:
  assumes own: "own a (add_mset (sequence_cache_pages r) M) L"
  obtains (ready) r' a' where "prepare_decode_request (Some a) r = (Ok (), r', Some a')"
      "dec_ok (r'\<lparr>stage := DecodeForward\<rparr>)" "own a' (add_mset (sequence_cache_pages r') M) L"
  | (full) e where "prepare_decode_request (Some a) r = (Err e, r, Some a)" "is_out_of_slots e"
proof (rule prepare_decode_cases [of "Some a" r])
  show "alloc_ok (Some a)" using own_inv [OF own] by simp
  fix pages alloc' r'
  assume A: "prepare_decode_request (Some a) r = (Ok (), r', alloc')"
    and r': "r' = r\<lparr>forward_cache_pages := pages, allocated_cache_pages := pages,
            sequence_cache_pages := sequence_cache_pages r @ pages\<rparr>"
    and S: "\<And>b. Some a = Some b \<Longrightarrow> \<exists>a'. alloc' = Some a' \<and>
       allocate_for_sequence b (sequence_cache_pages r) 1 = Ok (pages, a')"
  obtain a' where a': "alloc' = Some a'" "allocate_for_sequence a (sequence_cache_pages r) 1 = Ok (pages, a')"
    using S by blast
  have "dec_ok (r'\<lparr>stage := DecodeForward\<rparr>)" by (simp add: r' dec_ok_def suffix_def)
  moreover have "own a' (add_mset (sequence_cache_pages r') M) L"
    using own_allocate [OF own a'(2)] by (simp add: r')
  ultimately show thesis using A a'(1) ready by metis
qed (rule full)

section \<open>Batch formation\<close>

abbreviation all_wait :: "scheduled_request list \<Rightarrow> bool" where
  "all_wait rs \<equiv> \<forall>r \<in> set rs. wait_ok r"

lemma prefill_loop_own:
  assumes "own a (seqs requests + seqs queue + M) L" and "all_wait queue" and "\<forall>r \<in> set requests. pf_ok r"
    and "prefill_loop Disabled cache c n budget (Some a) queue requests used = (res, queue', alloc')"
  shows "\<exists>a'. alloc' = Some a' \<and> all_wait queue' \<and>
     (case res of
        Ok rs \<Rightarrow> own a' (seqs rs + seqs queue' + M) L \<and> (\<forall>r \<in> set rs. pf_ok r)
      | Err e \<Rightarrow> own a' (seqs queue' + M) L
      | Panic \<Rightarrow> False)"
  using assms
proof (induction queue arbitrary: a requests used)
  case (Cons q queue)
  show ?case
  proof (cases "length requests < n")
    case False
    then show ?thesis using Cons.prems by auto
  next
    case True
    have own: "own a (add_mset (sequence_cache_pages q) (seqs requests + seqs queue + M)) L" and w: "wait_ok q"
      using Cons.prems(1,2) by simp_all
    from w own show ?thesis
    proof (cases rule: prepare_prefill_own [where cache = cache and n = c])
      case (ready r a')
      note bk = back_to_prefill_waiting_own [OF ready(2)]
      show ?thesis
      proof (cases "requests \<noteq> [] \<and> used + current_chunk_len r > budget")
        case True
        have "own (release a' (allocated_cache_pages r))
            (add_mset (sequence_cache_pages (back_to_prefill_waiting r)) (seqs requests + seqs queue + M)) L"
          using own_release_suffix ready(3) bk(1) by metis
        then show ?thesis
          using Cons.prems ready(1) True bk(2) \<open>length requests < n\<close> by (auto simp: ac_simps)
      next
        case False
        show ?thesis
          by (rule Cons.IH [of a' "requests @ [r]" "used + current_chunk_len r"])
            (use Cons.prems ready False \<open>length requests < n\<close> in \<open>auto simp: ac_simps\<close>)
      qed
    next
      case (full r e)
      have none: "allocated_cache_pages r = []" using full(2) by (simp add: wait_ok_def)
      obtain a' where fold: "foldl (\<lambda>al r. release_opt al (allocated_cache_pages r)) (Some a) requests = Some a'"
        and "own a' (seqs (map back_to_prefill_waiting requests) + add_mset (sequence_cache_pages r) (seqs queue + M)) L"
        using own_release_list [of requests back_to_prefill_waiting a
            "add_mset (sequence_cache_pages r) (seqs queue + M)" L]
          Cons.prems(3) back_to_prefill_waiting_own(1) full(3) by (auto simp: ac_simps)
      moreover have "sequence_cache_pages (back_to_prefill_waiting r) = sequence_cache_pages r"
        "wait_ok (back_to_prefill_waiting r)"
        using full(2) none
        by (simp_all add: wait_ok_def back_to_prefill_waiting_def clear_forward_cache_allocation_def Let_def)
      moreover have "res = Err e" "alloc' = Some a'"
        "queue' = map back_to_prefill_waiting requests @ back_to_prefill_waiting r # queue"
        using Cons.prems(4) full(1) True none fold by (auto simp: restore_failed_prefill_eq)
      ultimately show ?thesis
        using Cons.prems(2,3) back_to_prefill_waiting_own(2) by (auto simp: ac_simps)
    qed
  qed
qed auto

text \<open>
  Ownership across the scheduler: \<open>rs\<close> are the requests in flight, \<open>L\<close> the leaked pages.
\<close>

definition sched_own :: "'w scheduler \<Rightarrow> scheduled_request list \<Rightarrow> usize multiset \<Rightarrow> bool" where
  "sched_own s rs L \<longleftrightarrow> cache_policy s = Disabled \<and> pending_prefix_cache_inserts s = [] \<and>
     all_wait (waiting_queue s) \<and>
     (\<exists>a. cache_page_allocator s = Some a \<and>
          own a (seqs rs + seqs (waiting_queue s) + seqs (decode_queue s)) L)"

text \<open>What every way of forming a batch guarantees; \<open>safe\<close> excludes an error of the worker's readiness check.\<close>

definition formed ::
  "bool \<Rightarrow> usize multiset \<Rightarrow> (scheduler_error, schedule_batch) outcome \<times> 'w scheduler \<Rightarrow> bool" where
  "formed safe L res =
     (case res of
        (Ok b, s') \<Rightarrow> sched_own s' (batch_requests b) L \<and> batch_ok b
      | (Err e, s') \<Rightarrow> \<exists>L'. sched_own s' [] L' \<and> L \<subseteq># L' \<and> (safe \<longrightarrow> L' = L)
      | (Panic, s') \<Rightarrow> False)"

lemma finish_prefill_own:
  assumes s: "sched_own s [] L" and a: "cache_page_allocator s = Some a"
    and loop: "prefill_loop Disabled (prefix_cache s) (chunk_budget_of s) m budget (Some a) (waiting_queue s) [] 0
                 = (res, queue, alloc)"
  shows "formed True L (finish_prefill_batch s (res, queue, alloc))"
proof -
  have "own a (seqs [] + seqs (waiting_queue s) + seqs (decode_queue s)) L" and w: "all_wait (waiting_queue s)"
    using s a by (auto simp: sched_own_def)
  note L = prefill_loop_own [OF this _ loop, simplified]
  note [simp] = formed_def finish_prefill_batch_def sched_own_def batch_ok_def batch_prefill_def
  show ?thesis
  proof (cases "res = Ok [] \<and> queue \<noteq> []")
    case False
    then show ?thesis using L s by (cases res; cases queue) auto
  next
    case True
    then obtain q queue' where q: "queue = q # queue'" by (cases queue) auto
    obtain a' where a': "alloc = Some a'" "wait_ok q" "all_wait queue'"
      "own a' (add_mset (sequence_cache_pages q) (seqs queue' + seqs (decode_queue s))) L"
      using L True q by auto
    from a'(2,4) show ?thesis
    proof (cases rule: prepare_prefill_own [where cache = "prefix_cache s" and n = "chunk_budget_of s"])
      case (ready r a'')
      then show ?thesis using s True q a' by (auto simp: ac_simps)
    next
      case (full r e)
      then show ?thesis using s True q a' by (auto simp: ac_simps)
    qed
  qed
qed

lemma formed_error: "sched_own s [] L \<Longrightarrow> formed b L (Err e, s)"
  by (auto simp: formed_def)

lemma formed_weaken: "formed True L x \<Longrightarrow> formed b L x"
  by (auto simp: formed_def split: outcome.splits prod.splits)

lemma next_prefill_own:
  assumes "sched_own s [] L"
  shows "formed True L (next_prefill_batch_with_token_budget s n budget)"
proof -
  obtain a where a: "cache_page_allocator s = Some a" and p: "cache_policy s = Disabled"
    using assms by (auto simp: sched_own_def)
  show ?thesis
  proof (cases rule: remaining_capacity_cases [of s])
    case (limited e)
    then show ?thesis using assms
      by (simp add: next_prefill_batch_with_token_budget_def formed_error)
  next
    case (room c)
    let ?P = "prefill_loop Disabled (prefix_cache s) (chunk_budget_of s) (min n c) budget (Some a) (waiting_queue s) [] 0"
    obtain res queue alloc where "?P = (res, queue, alloc)" by (cases ?P) auto
    then show ?thesis using assms finish_prefill_own [OF assms a, of "min n c" budget] a p room(1)
      by (simp add: next_prefill_batch_with_token_budget_def formed_error)
  qed
qed

lemma own_lose_list: "own a (seqs rs + M) L \<Longrightarrow> \<exists>L'. own a M L' \<and> L \<subseteq># L'"
proof (induction rs arbitrary: L)
  case (Cons r rs)
  then have "own a (add_mset (sequence_cache_pages r) (seqs rs + M)) L" by simp
  from Cons.IH [OF own_lose [OF this]] show ?case
    by (meson mset_subset_eq_add_left subset_mset.order_trans)
qed auto

lemma own_put_back_decode:
  assumes "own a (seqs requests + M) L" and "\<forall>r \<in> set requests. dec_ok r"
  obtains a' where
    "restore_failed_decode_attempt (Some a) queue requests q =
       (map back_to_decode_waiting requests @ q # queue, Some a')"
    "own a' (seqs (map back_to_decode_waiting requests) + M) L"
  using own_release_list [of requests back_to_decode_waiting a M L] assms back_to_decode_waiting_own
  by (auto simp: restore_failed_decode_eq)

definition never_errs :: "(scheduled_request \<Rightarrow> (scheduler_error, bool) outcome) \<Rightarrow> bool" where
  "never_errs check \<longleftrightarrow> (\<forall>q. \<exists>b. check q = Ok b)"

text \<open>The guarantee shared by the two decode loops, on their result, queue and allocator.\<close>

definition decode_own ::
  "bool \<Rightarrow> cache_page_id list multiset \<Rightarrow> usize multiset \<Rightarrow>
   (scheduler_error, scheduled_request list) outcome \<Rightarrow> scheduled_request list \<Rightarrow> page_allocator option \<Rightarrow> bool" where
  "decode_own safe M L res queue alloc \<longleftrightarrow>
     (\<exists>a. alloc = Some a \<and>
       (case res of
          Ok rs \<Rightarrow> own a (seqs rs + seqs queue + M) L \<and> (\<forall>r \<in> set rs. dec_ok r)
        | Err e \<Rightarrow> \<exists>L'. own a (seqs queue + M) L' \<and> L \<subseteq># L' \<and> (safe \<longrightarrow> L' = L)
        | Panic \<Rightarrow> False))"

lemma decode_own_check:
  assumes "own a (seqs requests + seqs (q # queue) + M) L"
  shows "\<not> safe \<Longrightarrow> decode_own safe M L (Err e) (q # queue) (Some a)"
    and "\<forall>r \<in> set requests. dec_ok r \<Longrightarrow> decode_own safe M L (Ok requests) (q # queue) (Some a)"
    and "requests = [] \<Longrightarrow> decode_own safe M L (Err e) (q # queue) (Some a)"
  using assms own_lose_list [of a requests "seqs (q # queue) + M" L]
  by (auto simp: decode_own_def ac_simps)

lemma decode_loop_own:
  assumes "own a (seqs requests + seqs queue + M) L" and "\<forall>r \<in> set requests. dec_ok r"
    and "\<And>q. check q \<noteq> Panic"
    and "decode_loop check n (Some a) queue requests = (res, queue', alloc')"
  shows "decode_own (never_errs check) M L res queue' alloc'"
  using assms(1,2,4)
proof (induction queue arbitrary: a requests)
  case Nil
  then show ?case by (auto simp: decode_own_def)
next
  case (Cons q queue)
  show ?case
  proof (cases "length requests < n \<and> check q = Ok True")
    case False
    note chk = decode_own_check [OF Cons.prems(1)]
    show ?thesis
    proof (cases "check q")
      case (Err e)
      then have "\<not> never_errs check" by (metis never_errs_def outcome.distinct(1))
      then show ?thesis using chk Err Cons.prems(2,3) by (auto split: if_splits)
    qed (use chk False Cons.prems(2,3) assms(3) [of q] in \<open>auto split: if_splits\<close>)
  next
    case True
    have own: "own a (add_mset (sequence_cache_pages q) (seqs requests + seqs queue + M)) L"
      using Cons.prems(1) by simp
    then show ?thesis
    proof (cases rule: prepare_decode_own)
      case (ready r a')
      show ?thesis
        by (rule Cons.IH [of a' "requests @ [r\<lparr>stage := DecodeForward\<rparr>]"])
          (use Cons.prems ready True in \<open>auto simp: ac_simps\<close>)
    next
      case (full e)
      have "own a (seqs requests + (seqs (q # queue) + M)) L" using own by (simp add: ac_simps)
      then obtain a' where R: "restore_failed_decode_attempt (Some a) queue requests q =
            (map back_to_decode_waiting requests @ q # queue, Some a')"
          "own a' (seqs (map back_to_decode_waiting requests) + (seqs (q # queue) + M)) L"
        using own_put_back_decode Cons.prems(2) by metis
      then show ?thesis
        using Cons.prems(3) full True by (auto simp: decode_own_def ac_simps)
    qed
  qed
qed

lemma next_decode_checked_own:
  assumes s: "sched_own s [] L" and "\<And>q. check q \<noteq> Panic"
  shows "formed (never_errs check) L (next_decode_batch_checked check s n)"
proof (cases "decode_queue s = [] \<or> n = 0")
  case True
  then show ?thesis using formed_error [OF s] by (simp add: next_decode_batch_checked_def)
next
  case False
  obtain a where a: "cache_page_allocator s = Some a"
    and own: "own a (seqs [] + seqs (decode_queue s) + seqs (waiting_queue s)) L"
    using s by (auto simp: sched_own_def ac_simps)
  let ?D = "decode_loop check (min n (length (decode_queue s))) (Some a) (decode_queue s) []"
  obtain res queue alloc where D: "?D = (res, queue, alloc)" by (cases ?D) auto
  note d = decode_loop_own [OF own _ assms(2) D]
  then show ?thesis
    using False s a D
    by (cases res) (auto simp: next_decode_batch_checked_def formed_def decode_own_def sched_own_def
        batch_ok_def batch_decode_def ac_simps)
qed

definition forget_used ::
  "(scheduler_error, scheduled_request list \<times> usize) outcome \<Rightarrow> (scheduler_error, scheduled_request list) outcome" where
  "forget_used res = (case res of Ok x \<Rightarrow> Ok (fst x) | Err e \<Rightarrow> Err e | Panic \<Rightarrow> Panic)"

lemma forget_used_simps [simp]:
  "forget_used (Ok x) = Ok (fst x)" "forget_used (Err e) = Err e" "forget_used Panic = Panic"
  by (simp_all add: forget_used_def)

lemma mixed_decode_loop_own:
  assumes "own a (seqs requests + seqs queue + M) L" and "\<forall>r \<in> set requests. dec_ok r"
    and "\<And>q. check q \<noteq> Panic"
    and "mixed_decode_loop check n budget (Some a) queue requests used = (res, queue', alloc')"
  shows "decode_own (never_errs check) M L (forget_used res) queue' alloc'"
  using assms(1,2,4)
proof (induction queue arbitrary: a requests used)
  case Nil
  then show ?case by (auto simp: decode_own_def)
next
  case (Cons q queue)
  show ?case
  proof (cases "length requests < n \<and> used < budget \<and> check q = Ok True")
    case False
    note chk = decode_own_check [OF Cons.prems(1)]
    show ?thesis
    proof (cases "check q")
      case (Err e)
      then have "\<not> never_errs check" by (metis never_errs_def outcome.distinct(1))
      then show ?thesis using chk Err Cons.prems(2,3) by (auto split: if_splits)
    qed (use chk False Cons.prems(2,3) assms(3) [of q] in \<open>auto split: if_splits\<close>)
  next
    case True
    have own: "own a (add_mset (sequence_cache_pages q) (seqs requests + seqs queue + M)) L"
      using Cons.prems(1) by simp
    then show ?thesis
    proof (cases rule: prepare_decode_own)
      case (ready r a')
      show ?thesis
        by (rule Cons.IH [of a' "requests @ [r\<lparr>stage := DecodeForward\<rparr>]" "used + 1"])
          (use Cons.prems ready True in \<open>auto simp: ac_simps\<close>)
    next
      case (full e)
      have "own a (seqs requests + (seqs (q # queue) + M)) L" using own by (simp add: ac_simps)
      then obtain a' where R: "restore_failed_decode_attempt (Some a) queue requests q =
            (map back_to_decode_waiting requests @ q # queue, Some a')"
          "own a' (seqs (map back_to_decode_waiting requests) + (seqs (q # queue) + M)) L"
        using own_put_back_decode Cons.prems(2) by metis
      then show ?thesis
        using Cons.prems(3) full True by (auto simp: decode_own_def ac_simps)
    qed
  qed
qed

definition fwd_ok :: "scheduled_request \<Rightarrow> bool" where
  "fwd_ok r \<longleftrightarrow> pf_ok r \<or> dec_ok r"

lemma mixed_prefill_loop_own:
  assumes "own a (seqs requests + seqs queue + M) L" and "all_wait queue" and "\<forall>r \<in> set requests. fwd_ok r"
    and "mixed_prefill_loop Disabled cache c n budget (Some a) queue requests used = (res, queue', alloc')"
  shows "\<exists>a' rs. alloc' = Some a' \<and> all_wait queue' \<and> res = Ok rs \<and>
           own a' (seqs rs + seqs queue' + M) L \<and> (\<forall>r \<in> set rs. fwd_ok r)"
  using assms
proof (induction queue arbitrary: a requests used)
  case (Cons q queue)
  let ?c = "min c (budget - used)"
  show ?case
  proof (cases "length requests < n \<and> used < budget \<and> ?c \<noteq> 0")
    case False
    then show ?thesis using Cons.prems by (auto split: if_splits)
  next
    case True
    have own: "own a (add_mset (sequence_cache_pages q) (seqs requests + seqs queue + M)) L" and w: "wait_ok q"
      using Cons.prems(1,2) by simp_all
    from w own show ?thesis
    proof (cases rule: prepare_prefill_own [where cache = cache and n = ?c])
      case (ready r a')
      have own': "own a' (seqs (requests @ [r]) + seqs queue + M) L"
        and ok': "\<forall>r \<in> set (requests @ [r]). fwd_ok r" "all_wait queue"
        using ready Cons.prems by (auto simp: ac_simps fwd_ok_def)
      show ?thesis
      proof (cases "current_chunk_len r = 0")
        case True
        then have "res = Ok (requests @ [r])" "queue' = queue" "alloc' = Some a'"
          using Cons.prems(4) ready(1) \<open>length requests < n \<and> used < budget \<and> ?c \<noteq> 0\<close> by (auto simp: Let_def)
        then show ?thesis using own' ok' by auto
      next
        case False
        show ?thesis
          by (rule Cons.IH [OF own' ok'(2,1), of "used + current_chunk_len r"])
            (use Cons.prems(4) ready(1) False True in \<open>auto simp: Let_def\<close>)
      qed
    next
      case (full r e)
      then have "res = Ok requests" "queue' = r # queue" "alloc' = Some a"
        using Cons.prems(4) True by (auto simp: Let_def)
      then show ?thesis using full Cons.prems(2,3) by (auto simp: ac_simps)
    qed
  qed
qed auto

lemma mixed_batch_of_ok:
  assumes "\<forall>r \<in> set rs. fwd_ok r" and "rs \<noteq> []"
  shows "batch_ok (mixed_batch_of rs)" and "batch_requests (mixed_batch_of rs) = rs"
proof -
  have st: "\<forall>r \<in> set rs. stage r = PrefillForward \<or> stage r = DecodeForward"
    using assms(1) by (auto simp: fwd_ok_def pf_ok_def dec_ok_def)
  show "batch_requests (mixed_batch_of rs) = rs"
    by (simp add: mixed_batch_of_def Let_def batch_mixed_def batch_prefill_def batch_decode_def)
  show "batch_ok (mixed_batch_of rs)"
    using assms st
    by (auto simp: mixed_batch_of_def Let_def batch_mixed_def batch_prefill_def batch_decode_def
        batch_ok_def fwd_ok_def dec_ok_def)
qed

lemma worker_ready_not_Panic [simp]: "worker_ready W w q \<noteq> Panic"
  by (auto simp: worker_ready_def split: sum.splits decode_request_state.splits)

lemma next_mixed_own:
  assumes s: "sched_own s [] L"
  shows "formed (never_errs (worker_ready W (worker s))) L (next_mixed_batch W s n budget)"
proof (cases "(decode_queue s = [] \<and> waiting_queue s = []) \<or> n = 0")
  case True
  then show ?thesis using formed_error [OF s] by (simp add: next_mixed_batch_def)
next
  case False
  obtain a where a: "cache_page_allocator s = Some a" "cache_policy s = Disabled" "all_wait (waiting_queue s)"
    and own: "own a (seqs [] + seqs (decode_queue s) + seqs (waiting_queue s)) L"
    using s by (auto simp: sched_own_def ac_simps)
  let ?D = "mixed_decode_loop (worker_ready W (worker s)) n budget (Some a) (decode_queue s) [] 0"
  obtain dres dq alloc where D: "?D = (dres, dq, alloc)" by (cases ?D) auto
  note d = mixed_decode_loop_own [OF own _ worker_ready_not_Panic D]
  show ?thesis
  proof (cases dres)
    case (Ok x)
    obtain ds used where x: "x = (ds, used)" by (cases x)
    obtain a1 where a1: "alloc = Some a1" "own a1 (seqs ds + seqs (waiting_queue s) + seqs dq) L"
        "\<forall>r \<in> set ds. fwd_ok r"
      using d Ok x by (auto simp: decode_own_def ac_simps fwd_ok_def)
    let ?P = "mixed_prefill_loop Disabled (prefix_cache s) (chunk_budget_of s) n budget (Some a1) (waiting_queue s) ds used"
    obtain pres wq alloc' where P: "?P = (pres, wq, alloc')" by (cases ?P) auto
    obtain a2 rs where r: "alloc' = Some a2" "all_wait wq" "pres = Ok rs"
        "own a2 (seqs rs + seqs wq + seqs dq) L" "\<forall>r \<in> set rs. fwd_ok r"
      using mixed_prefill_loop_own [OF a1(2) a(3) a1(3) P] by blast
    show ?thesis
      using False s a D Ok x a1(1) P r mixed_batch_of_ok [of rs]
      by (cases "rs = []") (auto simp: next_mixed_batch_def formed_def sched_own_def ac_simps)
  qed (use False s a D d in \<open>auto simp: next_mixed_batch_def formed_def decode_own_def sched_own_def ac_simps\<close>)
qed

end
