(* ===== verification/Sched_Isolation.thy ===== *)
theory Sched_Isolation
  imports Sched_Ownership
begin

text \<open>
  Page ownership through completion, failure, abort, flush and polling, and the closure of it under
  every sequence of scheduler calls: with the prefix cache disabled no two live requests ever share a
  KV slot, whatever the worker answers, and no page is lost unless the worker fails.
\<close>

section \<open>Completion\<close>

lemma stage_chunk_Disabled:
  "cache_policy s = Disabled \<Longrightarrow> stage_prefill_chunk_cache_pages sha256 W s r chunk_range = (Ok (), s)"
  by (simp add: stage_prefill_chunk_cache_pages_def)

lemma sched_own_frame:
  assumes "sched_own s rs L" and "cache_policy s' = cache_policy s"
    and "pending_prefix_cache_inserts s' = pending_prefix_cache_inserts s"
    and "cache_page_allocator s' = cache_page_allocator s" and "all_wait (waiting_queue s')"
    and "seqs rs' + seqs (waiting_queue s') + seqs (decode_queue s') =
         seqs rs + seqs (waiting_queue s) + seqs (decode_queue s)"
  shows "sched_own s' rs' L"
  using assms by (auto simp: sched_own_def)

lemma sched_own_wait: "sched_own s rs L \<Longrightarrow> all_wait (waiting_queue s)"
  by (simp add: sched_own_def)

lemma sched_own_worker [simp]: "sched_own (s\<lparr>worker := w\<rparr>) rs L = sched_own s rs L"
  by (simp add: sched_own_def)

text \<open>Moving a request in flight to the end of the decode queue, unchanged in what it owns.\<close>

lemma sched_own_to_decode:
  assumes "sched_own s (r # rs) L" and "sequence_cache_pages r' = sequence_cache_pages r"
  shows "sched_own (s\<lparr>decode_queue := decode_queue s @ [r']\<rparr>) rs L"
  by (rule sched_own_frame [OF assms(1)]) (use assms sched_own_wait in auto)

lemma sched_own_release:
  assumes "sched_own s (r # rs) L"
  shows "sched_own (release_request_cache_pages r s) rs L"
  using assms own_release
  by (auto simp: sched_own_def release_request_cache_pages_def owned_slots_def)

lemma complete_with_token_own:
  assumes "sched_own s (r # rs) L"
  shows "\<exists>res s'. complete_with_token W s r t = (res, s') \<and> res \<noteq> Panic \<and> sched_own s' rs L"
proof -
  let ?r = "append_output_ids (token_ids t) r"
  have seq: "sequence_cache_pages (?r\<lparr>stage := st\<rparr>) = sequence_cache_pages r"
    "sequence_cache_pages ((clear_forward_chunk_tracking ?r)\<lparr>stage := st\<rparr>) = sequence_cache_pages r" for st
    by (simp_all add: append_output_ids_def clear_forward_chunk_tracking_def)
  have fin: "sched_own s (?r\<lparr>stage := Finished\<rparr> # rs) L"
    by (rule sched_own_frame [OF assms]) (use seq assms sched_own_wait in auto)
  obtain x w where F: "finish_request W (worker s) (?r\<lparr>stage := Finished\<rparr>) = (x, w)"
    by (cases "finish_request W (worker s) (?r\<lparr>stage := Finished\<rparr>)")
  have "sched_own (s\<lparr>worker := w\<rparr>) (?r\<lparr>stage := Finished\<rparr> # rs) L" using fin by simp
  note dn = sched_own_release [OF this] sched_own_to_decode [OF this refl]
  show ?thesis
    using F dn sched_own_to_decode [OF assms seq(2)]
    by (cases x) (auto simp: complete_with_token_def Let_def)
qed

lemma advance_to_waiting_ok:
  assumes "pf_ok r"
  defines "n \<equiv> (if current_chunk_len r > 0 then current_chunk_len r else length (uncached_input_ids r))"
  assumes "\<not> is_prefill_complete (advance_prompt_tokens n r)"
  shows "wait_ok ((clear_forward_chunk_tracking (advance_prompt_tokens n r))\<lparr>stage := PrefillWaiting\<rparr>)"
  using assms
  by (auto simp: wait_ok_def pf_ok_def is_prefill_complete_def advance_prompt_tokens_def
      clear_forward_chunk_tracking_def min_def split: if_splits)

lemma complete_request_step_own:
  assumes s: "sched_own s (r # rs) L" and r: "pf_ok r \<or> dec_ok r \<and> mode \<noteq> Prefill"
  shows "\<exists>res s'. complete_request_step sha256 W mode s r t = (res, s') \<and> res \<noteq> Panic \<and> sched_own s' rs L"
proof (cases "is_prefill_forward mode r")
  case False
  then show ?thesis using complete_with_token_own [OF s] by (simp add: complete_request_step_def)
next
  case True
  then have pf: "pf_ok r" using r by (auto simp: is_prefill_forward_def dec_ok_def)
  let ?n = "if current_chunk_len r > 0 then current_chunk_len r else length (uncached_input_ids r)"
  let ?r = "advance_prompt_tokens ?n r"
  have seq: "sequence_cache_pages ?r = sequence_cache_pages r" by (simp add: advance_prompt_tokens_def)
  have s1: "sched_own s (?r # rs) L"
    by (rule sched_own_frame [OF s]) (use seq s sched_own_wait in auto)
  have dis: "cache_policy s = Disabled" using s by (simp add: sched_own_def)
  show ?thesis
  proof (cases "is_prefill_complete ?r")
    case False
    let ?q = "(clear_forward_chunk_tracking ?r)\<lparr>stage := PrefillWaiting\<rparr>"
    have "sched_own (s\<lparr>waiting_queue := ?q # waiting_queue s\<rparr>) rs L"
    proof (rule sched_own_frame [OF s])
      show "all_wait (waiting_queue (s\<lparr>waiting_queue := ?q # waiting_queue s\<rparr>))"
        using advance_to_waiting_ok [OF pf False] sched_own_wait [OF s] by simp
    qed (simp_all add: clear_forward_chunk_tracking_def advance_prompt_tokens_def)
    then show ?thesis
      using True False dis by (simp add: complete_request_step_def Let_def stage_chunk_Disabled)
  next
    case c: True
    show ?thesis
      using complete_with_token_own [OF s1] True c dis
      by (simp add: complete_request_step_def Let_def stage_chunk_Disabled)
  qed
qed

lemma complete_loop_own:
  assumes "sched_own s (map fst rts) L" and "\<forall>r \<in> set (map fst rts). pf_ok r \<or> dec_ok r \<and> mode \<noteq> Prefill"
  shows "\<exists>res s'. complete_loop sha256 W mode rts outs err s = (res, s') \<and> res \<noteq> Panic \<and> sched_own s' [] L"
  using assms
proof (induction rts arbitrary: outs err s)
  case Nil
  then show ?case by (cases err) auto
next
  case (Cons rt rts)
  obtain r t where rt: "rt = (r, t)" by (cases rt)
  obtain res s' where st: "complete_request_step sha256 W mode s r t = (res, s')" "res \<noteq> Panic"
      "sched_own s' (map fst rts) L"
    using complete_request_step_own [of s r "map fst rts" L mode sha256 W t] Cons.prems rt by auto
  note IH = Cons.IH [OF st(3)]
  show ?case
  proof (cases res)
    case (Ok out)
    then show ?thesis using st(1) rt Cons.prems(2) IH by (cases out) simp_all
  qed (use st(1,2) rt Cons.prems(2) IH in simp_all)
qed

lemma complete_batch_own:
  assumes "sched_own s (batch_requests b) L" and "batch_ok b"
  shows "\<exists>res s'. complete_batch sha256 W s b tokens = (res, s') \<and> res \<noteq> Panic \<and> sched_own s' [] L"
proof (cases "length (batch_requests b) = length tokens")
  case True
  then have "map fst (zip (batch_requests b) tokens) = batch_requests b" by simp
  then show ?thesis
    using complete_loop_own [of s "zip (batch_requests b) tokens" L] assms True
    by (simp add: complete_batch_def batch_ok_def)
next
  case False
  have "sched_own (s\<lparr>decode_queue := decode_queue s @ batch_requests b\<rparr>) [] L"
    by (rule sched_own_frame [OF assms(1)]) (use assms sched_own_wait in auto)
  then show ?thesis using False by (simp add: complete_batch_def Let_def)
qed

section \<open>Failed batches and dispatch\<close>

text \<open>The state after a call that may have lost pages; \<open>safe\<close> says that it has not.\<close>

definition kept :: "bool \<Rightarrow> usize multiset \<Rightarrow> 'w scheduler \<Rightarrow> bool" where
  "kept safe L s' \<longleftrightarrow> (\<exists>L'. sched_own s' [] L' \<and> L \<subseteq># L' \<and> (safe \<longrightarrow> L' = L))"

lemma keptI: "sched_own s' [] L \<Longrightarrow> kept safe L s'"
  by (auto simp: kept_def)

lemma keptE:
  assumes "kept safe L s"
  obtains L' where "sched_own s [] L'" "L \<subseteq># L'" "safe \<longrightarrow> L' = L"
  using assms by (auto simp: kept_def)

lemma kept_lost: "sched_own s' [] L' \<Longrightarrow> L \<subseteq># L' \<Longrightarrow> kept False L s'"
  by (auto simp: kept_def)

text \<open>A failed request releases the pages of its last step only; the rest of its pages leak.\<close>

lemma sched_own_fail:
  assumes "sched_own s (r # rs) L" and "suffix (allocated_cache_pages r) (sequence_cache_pages r)"
  shows "\<exists>L'. sched_own (s\<lparr>cache_page_allocator :=
             release_opt (cache_page_allocator s) (allocated_cache_pages r), worker := w\<rparr>) rs L' \<and> L \<subseteq># L'"
proof -
  obtain a where a: "cache_page_allocator s = Some a"
    and own: "own a (add_mset (sequence_cache_pages r) (seqs rs + seqs (waiting_queue s) + seqs (decode_queue s))) L"
    using assms(1) by (auto simp: sched_own_def)
  obtain q where q: "sequence_cache_pages r = q @ allocated_cache_pages r" using assms(2) by (auto simp: suffix_def)
  have "own (release a (allocated_cache_pages r)) (seqs rs + seqs (waiting_queue s) + seqs (decode_queue s))
      (L + mset (seq_pages (release a (allocated_cache_pages r)) q))"
    by (rule own_lose, rule own_release_suffix) (use own q in simp)
  then show ?thesis
    using assms(1) a by (intro exI conjI) (auto simp: sched_own_def)
qed

lemma release_failed_loop_own:
  assumes "sched_own s rs L" and "\<forall>r \<in> set rs. suffix (allocated_cache_pages r) (sequence_cache_pages r)"
  shows "\<exists>res s'. release_failed_loop W rs err s = (res, s') \<and> res \<noteq> Panic \<and> kept False L s'"
  using assms
proof (induction rs arbitrary: s L err)
  case Nil
  then show ?case using keptI by (cases err) auto
next
  case (Cons r rs)
  obtain x w where F: "finish_request W (worker s) r = (x, w)" by (cases "finish_request W (worker s) r")
  show ?case
  proof (cases x)
    case (Inl e)
    have "sched_own (s\<lparr>worker := w, decode_queue := decode_queue s @ [r]\<rparr>) rs L"
      using sched_own_to_decode [OF Cons.prems(1) refl] by (simp add: sched_own_def)
    from Cons.IH [OF this] Cons.prems(2) F Inl show ?thesis by simp
  next
    case (Inr u)
    let ?s = "s\<lparr>cache_page_allocator := release_opt (cache_page_allocator s) (allocated_cache_pages r),
                worker := fail_request W w r\<rparr>"
    obtain L' where L': "sched_own ?s rs L'" "L \<subseteq># L'"
      using sched_own_fail [OF Cons.prems(1)] Cons.prems(2) by auto
    obtain res s' where "release_failed_loop W rs err ?s = (res, s')" "res \<noteq> Panic" "kept False L' s'"
      using Cons.IH [OF L'(1)] Cons.prems(2) by force
    moreover from this(3) have "kept False L s'"
      by (rule keptE) (use L'(2) in \<open>auto simp: kept_def intro: subset_mset.order_trans\<close>)
    ultimately show ?thesis using F Inr by simp
  qed
qed

definition executes :: "'w worker_executor \<Rightarrow> bool" where
  "executes W \<longleftrightarrow> (\<forall>w b. \<exists>tokens w'. execute_batch W w b = (Inr tokens, w'))"

definition answers :: "'w worker_executor \<Rightarrow> bool" where
  "answers W \<longleftrightarrow> (\<forall>w r. request_state W w r = Inr Ready \<or> request_state W w r = Inr Pending)"

text \<open>A worker that neither fails a batch nor reports a request as failed.\<close>

definition reliable :: "'w worker_executor \<Rightarrow> bool" where
  "reliable W \<longleftrightarrow> executes W \<and> answers W"

lemma reliable_never_errs: "reliable W \<Longrightarrow> never_errs (worker_ready W w)"
  unfolding never_errs_def worker_ready_def reliable_def answers_def
  by (metis decode_request_state.simps(8) decode_request_state.simps(9) sum.simps(6))

lemma dispatch_batch_own:
  assumes s: "sched_own s (batch_requests b) L" and b: "batch_ok b"
  shows "\<exists>res s'. dispatch_batch sha256 W s b = (res, s') \<and> res \<noteq> Panic \<and> kept (executes W) L s'"
proof -
  obtain x w where E: "execute_batch W (worker s) b = (x, w)" by (cases "execute_batch W (worker s) b")
  have s': "sched_own (s\<lparr>worker := w\<rparr>) (batch_requests b) L" using s by simp
  show ?thesis
  proof (cases x)
    case (Inl e)
    then have "\<not> executes W" using E by (metis executes_def old.sum.distinct(1) prod.inject)
    moreover have "\<forall>r \<in> set (batch_requests b). suffix (allocated_cache_pages r) (sequence_cache_pages r)"
      using b by (auto simp: batch_ok_def pf_ok_def dec_ok_def)
    then obtain res t where "release_failed_batch_cache_pages W (s\<lparr>worker := w\<rparr>) b = (res, t)"
        "res \<noteq> Panic" "kept False L t"
      using release_failed_loop_own [OF s'] unfolding release_failed_batch_cache_pages_def by blast
    ultimately show ?thesis using E Inl by (cases res) (auto simp: dispatch_batch_def)
  next
    case (Inr tokens)
    then show ?thesis
      using E complete_batch_own [OF s' b, of sha256 W tokens] keptI by (fastforce simp: dispatch_batch_def)
  qed
qed

lemma dispatch_formed_own:
  assumes "formed safe L x" and "reliable W \<Longrightarrow> safe"
  shows "\<exists>res s'. dispatch_formed sha256 W x = (res, s') \<and> res \<noteq> Panic \<and> kept (reliable W) L s'"
proof -
  obtain res s where x: "x = (res, s)" by (cases x)
  show ?thesis
  proof (cases res)
    case (Ok b)
    then have "sched_own s (batch_requests b) L" "batch_ok b" using assms(1) x by (auto simp: formed_def)
    from dispatch_batch_own [OF this, of sha256 W] show ?thesis
      using x Ok by (auto simp: kept_def reliable_def)
  qed (use assms x in \<open>auto simp: formed_def kept_def\<close>)
qed

section \<open>Abort, flush, polling\<close>

lemma seqs_remove:
  "remove_request_from_queue queue rid = Some (r, queue') \<Longrightarrow>
   seqs queue = add_mset (sequence_cache_pages r) (seqs queue') \<and> set queue = insert r (set queue')"
  by (induction queue arbitrary: queue') (auto split: if_splits)

lemma sched_own_take_waiting:
  assumes "sched_own s rs L" and "remove_request_from_queue (waiting_queue s) rid = Some (r, queue)"
  shows "sched_own (s\<lparr>worker := w, waiting_queue := queue\<rparr>) (r # rs) L"
    and "sched_own (s\<lparr>worker := w, waiting_queue := r # queue\<rparr>) rs L"
  using assms seqs_remove [OF assms(2)] by (auto simp: sched_own_def ac_simps)

lemma sched_own_take_decode:
  assumes "sched_own s rs L" and "remove_request_from_queue (decode_queue s) rid = Some (r, queue)"
  shows "sched_own (s\<lparr>worker := w, decode_queue := queue\<rparr>) (r # rs) L"
    and "sched_own (s\<lparr>worker := w, decode_queue := r # queue\<rparr>) rs L"
  using assms seqs_remove [OF assms(2)] by (auto simp: sched_own_def ac_simps)

lemma no_pending_insert:
  "pending_prefix_cache_inserts s = [] \<Longrightarrow> release_pending_prefix_cache_insert rid s = (False, s)"
  by (simp add: release_pending_prefix_cache_insert_def)

lemma abort_request_own:
  assumes "sched_own s [] L"
  shows "sched_own (snd (abort_request W s rid)) [] L"
proof (cases "remove_request_from_queue (waiting_queue s) rid")
  case (Some x)
  obtain r queue where x: "x = (r, queue)" by (cases x)
  note take = sched_own_take_waiting [OF assms Some [unfolded x]]
  show ?thesis
    using Some x take(2) sched_own_release [OF take(1)]
    by (auto simp: abort_request_def split: prod.splits sum.splits)
next
  case None
  show ?thesis
  proof (cases "remove_request_from_queue (decode_queue s) rid")
    case (Some x)
    obtain r queue where x: "x = (r, queue)" by (cases x)
    note take = sched_own_take_decode [OF assms Some [unfolded x]]
    have "pending_prefix_cache_inserts s = []" using assms by (simp add: sched_own_def)
    then show ?thesis
      using None Some x take(2) sched_own_release [OF take(1)]
      by (auto simp: abort_request_def no_pending_insert split: prod.splits sum.splits)
  qed (use None assms in \<open>simp add: abort_request_def\<close>)
qed

lemma abort_ids_own: "sched_own s [] L \<Longrightarrow> sched_own (snd (abort_ids W ids s)) [] L"
proof (induction ids arbitrary: s)
  case (Cons rid ids)
  then show ?case using abort_request_own [OF Cons.prems, of W rid]
    by (auto simp: split_beta)
qed simp

lemma abort_all_own:
  assumes "sched_own s [] L"
  shows "sched_own (snd (abort_all_requests W s)) [] L"
proof -
  let ?A = "abort_ids W (map request_id (waiting_queue s @ decode_queue s)) s"
  have A: "sched_own (snd ?A) [] L" using assms by (rule abort_ids_own)
  then have "pending_prefix_cache_inserts (snd ?A) = []" by (simp add: sched_own_def)
  then have "snd (abort_all_requests W s) = snd ?A"
    by (cases ?A) (simp add: abort_all_requests_def)
  then show ?thesis using A by simp
qed

text \<open>A flush empties the allocator, so it also takes back pages that had leaked.\<close>

lemma flush_cache_own:
  assumes "sched_own s [] L"
  shows "sched_own (snd (flush_cache s)) [] (if fst (flush_cache s) then {#} else L)"
  using assms own_reset own_inv by (auto simp: flush_cache_def sched_own_def)

lemma poll_transfers_own:
  assumes "sched_own s [] L"
  shows "sched_own (snd (poll_transfers sha256 W s)) [] L" and "fst (poll_transfers sha256 W s) \<noteq> Panic"
proof -
  have p: "pending_prefix_cache_inserts s = []" using assms by (simp add: sched_own_def)
  then have "s\<lparr>pending_prefix_cache_inserts := []\<rparr> = s" by simp
  then show "sched_own (snd (poll_transfers sha256 W s)) [] L" "fst (poll_transfers sha256 W s) \<noteq> Panic"
    using p assms
    by (auto simp: poll_transfers_def reconcile_pending_prefix_cache_inserts_def sched_own_def
        split: prod.splits sum.splits)
qed

section \<open>Sequences of scheduler calls\<close>

text \<open>A request as the engine enqueues it.\<close>

definition fresh_request :: "scheduled_request \<Rightarrow> bool" where
  "fresh_request r \<longleftrightarrow> (\<exists>rid ids params d rank.
     r = with_data_parallel_rank rank (with_disaggregated_params d (scheduled_request_new rid ids params)))"

inductive sched_step ::
  "(u8 list \<Rightarrow> u8 list) \<Rightarrow> 'w worker_executor \<Rightarrow> 'w scheduler \<Rightarrow> 'w scheduler \<Rightarrow> bool" for sha256 W where
  enqueue_step: "fresh_request r \<Longrightarrow> sched_step sha256 W s (enqueue r s)"
| prefill_step: "dispatch_prefill_batch_with_token_budget sha256 W s n budget = (res, s') \<Longrightarrow> sched_step sha256 W s s'"
| decode_step: "dispatch_decode_batch sha256 W s n = (res, s') \<Longrightarrow> sched_step sha256 W s s'"
| ready_step: "dispatch_decode_batch_with_ready_check sha256 W s n is_ready = (res, s') \<Longrightarrow> sched_step sha256 W s s'"
| mixed_step: "dispatch_mixed_batch sha256 W s n budget = (res, s') \<Longrightarrow> sched_step sha256 W s s'"
| abort_step: "abort_request W s rid = (found, s') \<Longrightarrow> sched_step sha256 W s s'"
| abort_all_step: "abort_all_requests W s = (aborted, s') \<Longrightarrow> sched_step sha256 W s s'"
| flush_step: "flush_cache s = (flushed, s') \<Longrightarrow> sched_step sha256 W s s'"
| poll_step: "poll_transfers sha256 W s = (summary, s') \<Longrightarrow> sched_step sha256 W s s'"

inductive sched_reach ::
  "(u8 list \<Rightarrow> u8 list) \<Rightarrow> 'w worker_executor \<Rightarrow> 'w scheduler \<Rightarrow> 'w scheduler \<Rightarrow> bool" for sha256 W s0 where
  sched_start: "sched_reach sha256 W s0 s0"
| sched_next: "sched_reach sha256 W s0 s \<Longrightarrow> sched_step sha256 W s s' \<Longrightarrow> sched_reach sha256 W s0 s'"

inductive_cases sched_step_cases: "sched_step sha256 W s s'"

lemma dispatch_never_panics:
  assumes s: "sched_own s [] L"
  shows "\<exists>res s'. dispatch_prefill_batch_with_token_budget sha256 W s n budget = (res, s') \<and> res \<noteq> Panic \<and>
           kept (reliable W) L s'"
    and "\<exists>res s'. dispatch_decode_batch sha256 W s n = (res, s') \<and> res \<noteq> Panic \<and> kept (reliable W) L s'"
    and "\<exists>res s'. dispatch_decode_batch_with_ready_check sha256 W s n is_ready = (res, s') \<and> res \<noteq> Panic \<and>
           kept (reliable W) L s'"
    and "\<exists>res s'. dispatch_mixed_batch sha256 W s n budget = (res, s') \<and> res \<noteq> Panic \<and> kept (reliable W) L s'"
proof -
  show "\<exists>res s'. dispatch_prefill_batch_with_token_budget sha256 W s n budget = (res, s') \<and> res \<noteq> Panic \<and>
      kept (reliable W) L s'"
    unfolding dispatch_prefill_batch_with_token_budget_def
    by (rule dispatch_formed_own [OF next_prefill_own [OF s]]) simp
  show "\<exists>res s'. dispatch_decode_batch sha256 W s n = (res, s') \<and> res \<noteq> Panic \<and> kept (reliable W) L s'"
    unfolding dispatch_decode_batch_def next_decode_batch_with_worker_ready_check_def
    by (rule dispatch_formed_own [OF next_decode_checked_own [OF s]]) (simp_all add: reliable_never_errs)
  show "\<exists>res s'. dispatch_decode_batch_with_ready_check sha256 W s n is_ready = (res, s') \<and> res \<noteq> Panic \<and>
      kept (reliable W) L s'"
    unfolding dispatch_decode_batch_with_ready_check_def next_decode_batch_with_ready_check_def
    by (rule dispatch_formed_own [OF next_decode_checked_own [OF s]]) (simp_all add: never_errs_def)
  show "\<exists>res s'. dispatch_mixed_batch sha256 W s n budget = (res, s') \<and> res \<noteq> Panic \<and> kept (reliable W) L s'"
    unfolding dispatch_mixed_batch_def
    by (rule dispatch_formed_own [OF next_mixed_own [OF s]]) (simp add: reliable_never_errs)
qed

lemma enqueue_own:
  "sched_own s [] L \<Longrightarrow> fresh_request r \<Longrightarrow> sched_own (enqueue r s) [] L"
  by (auto simp: sched_own_def enqueue_def fresh_request_def wait_ok_def with_data_parallel_rank_def
      with_disaggregated_params_def scheduled_request_new_def)

text \<open>One call: the queues keep owning their pages, and nothing leaks with a reliable worker.\<close>

lemma sched_step_own:
  assumes "sched_step sha256 W s s'" and s: "sched_own s [] L"
  shows "\<exists>L'. sched_own s' [] L' \<and> (reliable W \<and> L = {#} \<longrightarrow> L' = {#})"
  using assms(1)
proof cases
  case (prefill_step n budget res)
  then show ?thesis using dispatch_never_panics(1) [OF s, of sha256 W n budget] by (auto simp: kept_def)
next
  case (decode_step n res)
  then show ?thesis using dispatch_never_panics(2) [OF s, of sha256 W n] by (auto simp: kept_def)
next
  case (ready_step n is_ready res)
  then show ?thesis using dispatch_never_panics(3) [OF s, of sha256 W n is_ready] by (auto simp: kept_def)
next
  case (mixed_step n budget res)
  then show ?thesis using dispatch_never_panics(4) [OF s, of sha256 W n budget] by (auto simp: kept_def)
next
  case (abort_step rid found)
  then show ?thesis using abort_request_own [OF s, of W rid] by auto
next
  case (abort_all_step aborted)
  then show ?thesis using abort_all_own [OF s, of W] by auto
next
  case (flush_step flushed)
  then show ?thesis using flush_cache_own [OF s] by (auto split: if_splits)
next
  case (poll_step summary)
  then show ?thesis using poll_transfers_own(1) [OF s, of sha256 W] by auto
qed (use enqueue_own [OF s] in auto)

lemma sched_reach_own:
  assumes "sched_reach sha256 W s0 s" and "sched_own s0 [] {#}"
  shows "\<exists>L. sched_own s [] L \<and> (reliable W \<longrightarrow> L = {#})"
  using assms
proof induction
  case (sched_next s s')
  then show ?case using sched_step_own by fastforce
qed auto

text \<open>The scheduler of a disaggregated worker when it starts.\<close>

definition initial_scheduler ::
  "'w \<Rightarrow> page_allocator \<Rightarrow> usize option \<Rightarrow> usize option \<Rightarrow> publisher option \<Rightarrow> 'w scheduler" where
  "initial_scheduler w a max_running chunk pub =
     (with_cache_resources_and_policy w radix_default a Disabled)
       \<lparr>max_running_requests := max_running, chunked_prefill_size := chunk, event_publisher := pub\<rparr>"

lemma initial_own: "with_page_size cap ps = Ok a \<Longrightarrow> sched_own (initial_scheduler w a mr c pub) [] {#}"
  by (simp add: sched_own_def initial_scheduler_def with_cache_resources_and_policy_def own_with_page_size)

abbreviation live_slots :: "'w scheduler \<Rightarrow> cache_page_id list" where
  "live_slots s \<equiv> concat (map sequence_cache_pages (waiting_queue s @ decode_queue s))"

lemma sched_own_slots:
  assumes "sched_own s [] L"
  shows "\<exists>a. cache_page_allocator s = Some a \<and> distinct (live_slots s) \<and> set (live_slots s) \<subseteq> {..< slot_capacity a}"
proof -
  obtain a where a: "cache_page_allocator s = Some a"
    and own: "own a (mset (map sequence_cache_pages (waiting_queue s @ decode_queue s))) L"
    using assms by (auto simp: sched_own_def seqs_def)
  then show ?thesis using own_slots_distinct [OF own] by blast
qed

section \<open>Properties\<close>


text \<open>The states of a concrete run: two requests enqueued, then one prefill batch.\<close>

definition sample_start :: "unit scheduler" where
  "sample_start = initial_scheduler ()
     \<lparr>slot_capacity = 4, page_size = 2, free_page_indices = [0, 1], allocated_page_indices = {}\<rparr>
     (Some 2) (Some 8) None"

definition steady_worker :: "unit worker_executor" where
  "steady_worker = flaky_worker
     \<lparr>execute_batch := (\<lambda>w b. (Inr (map (\<lambda>r. \<lparr>token_ids = [7], is_finished = False\<rparr>) (batch_requests b)), w)),
      request_state := (\<lambda>w r. Inr Ready)\<rparr>"

definition sample_run :: "unit scheduler" where
  "sample_run = snd (dispatch_prefill_batch_with_token_budget (\<lambda>xs. xs) steady_worker
     (enqueue (sample_request ''b'' [4, 5]) (enqueue (sample_request ''a'' [1, 2]) sample_start)) 2 8)"

lemma sample_fresh: "fresh_request (sample_request rid ids)"
  unfolding fresh_request_def sample_request_def
  by (intro exI [of _ rid] exI [of _ ids] exI [of _ "sampling_new 4"] exI [of _ None] exI [of _ 0])
    (simp add: with_data_parallel_rank_def with_disaggregated_params_def scheduled_request_new_def)

lemma sample_run_reach: "sched_reach (\<lambda>xs. xs) steady_worker sample_start sample_run"
  unfolding sample_run_def
  by (rule sched_next [OF sched_next [OF sched_next [OF sched_start]], OF
        enqueue_step [OF sample_fresh] enqueue_step [OF sample_fresh] prefill_step [OF prod.collapse [symmetric]]])

lemma sample_alloc:
  "with_page_size 4 2 =
     Ok \<lparr>slot_capacity = 4, page_size = 2, free_page_indices = [0, 1], allocated_page_indices = {}\<rparr>"
  by (simp add: with_page_size_def upt_rec)






text \<open>
  (C13) A decode batch that the worker fails drops its request without giving back the pages of the
  earlier steps: the single request \<open>r\<close> leaves the decode queue, and the allocator is exactly the one
  before the call, with every page of \<open>r\<close> still allocated.
\<close>

theorem failed_decode_leaks_sequence_pages:
  assumes "cache_page_allocator s = Some a" and "alloc_inv a" and "decode_queue s = [r]" and "0 < n"
    and "worker_ready W (worker s) r = Ok True"
    and "allocate_for_sequence a (sequence_cache_pages r) 1 = Ok (pages, a')"
    and "\<And>b. execute_batch W (worker s) b = (Inl e, w)" and "\<And>x. finish_request W w x = (Inr (), w)"
  shows "\<exists>s'. dispatch_decode_batch sha256 W s n = (Err (WorkerError e), s') \<and> decode_queue s' = [] \<and>
           waiting_queue s' = waiting_queue s \<and> cache_page_allocator s' = Some a"
proof -
  have "release a' pages = a" by (rule pool.give_back_take [OF assms(2,6)])
  then show ?thesis
    using assms
    by (simp add: dispatch_decode_batch_def next_decode_batch_with_worker_ready_check_def
        next_decode_batch_checked_def prepare_decode_request_def append_sequence_cache_pages_def batch_decode_def
        dispatch_batch_def release_failed_batch_cache_pages_def)
qed

theorem failed_decode_leaks_sequence_pages_witness:
  defines "r \<equiv> (sample_request ''a'' [1, 2])\<lparr>sequence_cache_pages := [0, 1]\<rparr>"
  shows "available_cache_pages (sample_scheduler [] [r]) = Some 2 \<and>
         decode_queue (snd (dispatch_decode_batch (\<lambda>xs. xs) flaky_worker (sample_scheduler [] [r]) 1)) = [] \<and>
         available_cache_pages (snd (dispatch_decode_batch (\<lambda>xs. xs) flaky_worker (sample_scheduler [] [r]) 1)) = Some 2"
proof -
  let ?a = "\<lparr>slot_capacity = 6, page_size = 2, free_page_indices = [1, 2], allocated_page_indices = {0}\<rparr>"
  have alloc: "cache_page_allocator (sample_scheduler [] [r]) = Some ?a" "decode_queue (sample_scheduler [] [r]) = [r]"
    by (simp_all add: sample_scheduler_def with_cache_resources_and_policy_def)
  have inv: "alloc_inv ?a" by (auto simp: alloc_inv_def)
  have ready: "worker_ready flaky_worker (worker (sample_scheduler [] [r])) r = Ok True"
    unfolding r_def by code_simp
  have seq: "sequence_cache_pages r = [0, 1]" by (simp add: r_def)
  have ok: "allocate_for_sequence ?a (sequence_cache_pages r) 1 =
      Ok ([2], ?a\<lparr>free_page_indices := [2], allocated_page_indices := {0, 1}\<rparr>)"
    unfolding seq by code_simp
  have run: "execute_batch flaky_worker (worker (sample_scheduler [] [r])) b = (Inl (WorkerRuntime ''link down''), ())"
      "finish_request flaky_worker () x = (Inr (), ())" for b x
    by (simp_all add: flaky_worker_def)
  from failed_decode_leaks_sequence_pages [OF alloc(1) inv alloc(2) zero_less_one ready ok run, of "\<lambda>xs. xs"]
  show ?thesis using alloc(1) by (auto simp: available_cache_pages_def available_pages_def)
qed

end
