(* ===== verification/Worker_Batch.thy ===== *)
theory Worker_Batch
  imports Sched_Batch
begin

text \<open>
  The flattened batch a model runs on: \<open>ModelWorkerBatch\<close> of \<open>crates/sglang-srt/src/model_executor.rs\<close>, its
  construction from the scheduler's batch, the test \<open>validate_model_worker_batch\<close> that the dense models make
  before they run, and the selection of one row of logits per request.  The main result: every batch
  whose requests have as many slots as tokens passes the test, and the test is exactly that the flat arrays
  have the right extents.
\<close>

section \<open>Flattening a batch\<close>

record model_worker_batch =
  wb_forward_mode :: forward_mode
  wb_request_ids :: "request_id list"
  wb_input_ids :: "u32 list"
  wb_positions :: "usize list"
  wb_sequence_lengths :: "usize list"
  wb_sequence_token_ids :: "u32 list"
  wb_sequence_offsets :: "usize list"
  wb_sequence_token_counts :: "usize list"
  wb_sequence_cache_pages :: "cache_page_id list"
  wb_request_offsets :: "usize list"
  wb_cached_token_counts :: "usize list"
  wb_input_token_counts :: "usize list"
  wb_prefix_cache_pages :: "cache_page_id list list"
  wb_out_cache_pages :: "cache_page_id list"
  wb_disaggregated_params :: "disaggregated_params option list"
  wb_data_parallel_ranks :: "int list"

text \<open>The range of prompt positions a prefill step covers.\<close>

definition prefill_start :: "scheduled_request \<Rightarrow> usize" where
  "prefill_start r = max (prompt_tokens_processed r) (length (cache_pages (req_prefix_match r)))"

definition prefill_end :: "scheduled_request \<Rightarrow> usize" where
  "prefill_end r =
     (let chunk_len = (if current_chunk_len r > 0 then current_chunk_len r else length (uncached_input_ids r))
      in min (prefill_start r + chunk_len) (length (input_ids r)))"

text \<open>The slice \<open>input_ids[start..end]\<close> panics when the start lies behind the prompt.\<close>

definition push_prefill_request :: "scheduled_request \<Rightarrow> model_worker_batch \<Rightarrow> (unit, model_worker_batch) outcome" where
  "push_prefill_request r wb =
     (let start_pos = prefill_start r;
          end_pos = prefill_end r
      in if end_pos < start_pos then Panic
         else Ok (wb\<lparr>
           wb_sequence_offsets := wb_sequence_offsets wb @ [length (wb_sequence_token_ids wb)],
           wb_sequence_token_ids := wb_sequence_token_ids wb @ take end_pos (input_ids r),
           wb_sequence_token_counts := wb_sequence_token_counts wb @ [end_pos],
           wb_sequence_cache_pages := wb_sequence_cache_pages wb @
             take (min end_pos (length (sequence_cache_pages r))) (sequence_cache_pages r),
           wb_input_ids := wb_input_ids wb @ take (end_pos - start_pos) (drop start_pos (input_ids r)),
           wb_input_token_counts := wb_input_token_counts wb @ [end_pos - start_pos],
           wb_out_cache_pages := wb_out_cache_pages wb @ forward_cache_pages r,
           wb_positions := wb_positions wb @ [start_pos ..< end_pos],
           wb_sequence_lengths := wb_sequence_lengths wb @ [end_pos]\<rparr>))"

text \<open>\<open>input_ids.len() + output_ids.len() - 1\<close> overflows for a request without tokens.\<close>

definition push_decode_request :: "scheduled_request \<Rightarrow> model_worker_batch \<Rightarrow> (unit, model_worker_batch) outcome" where
  "push_decode_request r wb =
     (let decode_token = (if output_ids r = [] then 0 else last (output_ids r));
          n = length (input_ids r) + length (output_ids r)
      in if n = 0 then Panic
         else Ok (wb\<lparr>
           wb_sequence_offsets := wb_sequence_offsets wb @ [length (wb_sequence_token_ids wb)],
           wb_sequence_token_ids := wb_sequence_token_ids wb @ input_ids r @ output_ids r,
           wb_sequence_token_counts := wb_sequence_token_counts wb @ [n],
           wb_sequence_cache_pages := wb_sequence_cache_pages wb @ sequence_cache_pages r,
           wb_input_ids := wb_input_ids wb @ [decode_token],
           wb_input_token_counts := wb_input_token_counts wb @ [1],
           wb_out_cache_pages := wb_out_cache_pages wb @ forward_cache_pages r,
           wb_positions := wb_positions wb @ [n - 1],
           wb_sequence_lengths := wb_sequence_lengths wb @ [n]\<rparr>))"

text \<open>Which of the two a request takes, as the match in \<open>push_request\<close>.\<close>

definition pushes_prefill :: "forward_mode \<Rightarrow> scheduled_request \<Rightarrow> bool" where
  "pushes_prefill mode r =
     (case mode of
        Prefill \<Rightarrow> True
      | Decode \<Rightarrow> False
      | Mixed \<Rightarrow> (case stage r of PrefillForward \<Rightarrow> True | DecodeForward \<Rightarrow> False | _ \<Rightarrow> output_ids r = []))"

definition push_request :: "forward_mode \<Rightarrow> scheduled_request \<Rightarrow> model_worker_batch \<Rightarrow> (unit, model_worker_batch) outcome" where
  "push_request mode r wb =
     (let wb' = wb\<lparr>
        wb_request_ids := wb_request_ids wb @ [request_id r],
        wb_request_offsets := wb_request_offsets wb @ [length (wb_input_ids wb)],
        wb_cached_token_counts := wb_cached_token_counts wb @ [matched_token_count (req_prefix_match r)],
        wb_prefix_cache_pages := wb_prefix_cache_pages wb @ [cache_pages (req_prefix_match r)],
        wb_disaggregated_params := wb_disaggregated_params wb @ [disagg_params r],
        wb_data_parallel_ranks := wb_data_parallel_ranks wb @ [data_parallel_rank r]\<rparr>
      in if pushes_prefill mode r then push_prefill_request r wb' else push_decode_request r wb')"

definition empty_worker_batch :: "forward_mode \<Rightarrow> model_worker_batch" where
  "empty_worker_batch mode =
     \<lparr>wb_forward_mode = mode, wb_request_ids = [], wb_input_ids = [], wb_positions = [], wb_sequence_lengths = [],
      wb_sequence_token_ids = [], wb_sequence_offsets = [], wb_sequence_token_counts = [],
      wb_sequence_cache_pages = [], wb_request_offsets = [], wb_cached_token_counts = [],
      wb_input_token_counts = [], wb_prefix_cache_pages = [], wb_out_cache_pages = [],
      wb_disaggregated_params = [], wb_data_parallel_ranks = []\<rparr>"

fun push_requests :: "forward_mode \<Rightarrow> scheduled_request list \<Rightarrow> model_worker_batch \<Rightarrow> (unit, model_worker_batch) outcome" where
  "push_requests mode [] wb = Ok wb"
| "push_requests mode (r # rs) wb = and_then (push_request mode r wb) (push_requests mode rs)"

definition from_schedule_batch :: "schedule_batch \<Rightarrow> (unit, model_worker_batch) outcome" where
  "from_schedule_batch b = push_requests (batch_forward_mode b) (batch_requests b) (empty_worker_batch (batch_forward_mode b))"

section \<open>The test before the model runs\<close>

datatype model_forward_error =
    EmptyVocabulary
  | RaggedLogits
  | ForwardRuntime string
  | ForwardBatchSizeMismatch usize usize
  | TokenLogitCountMismatch usize usize
  | MissingRequestTokenLogits usize
  | InvalidProbabilityDistribution usize

text \<open>The error texts are the ones of the \<open>format!\<close> calls.\<close>

definition field_length_error :: "string \<Rightarrow> usize \<Rightarrow> usize \<Rightarrow> model_forward_error" where
  "field_length_error name actual expected =
     ForwardRuntime (''batch field '' @ name @ '' has length '' @ show_usize actual @ '', expected '' @ show_usize expected)"

fun check_field_lengths :: "usize \<Rightarrow> (string \<times> usize) list \<Rightarrow> (model_forward_error, unit) outcome" where
  "check_field_lengths request_count [] = Ok ()"
| "check_field_lengths request_count ((name, actual) # rest) =
     (if actual \<noteq> request_count then Err (field_length_error name actual request_count)
      else check_field_lengths request_count rest)"

definition check_request_range :: "model_worker_batch \<Rightarrow> usize \<Rightarrow> (model_forward_error, unit) outcome" where
  "check_request_range wb i =
     and_then (ok_or (ForwardRuntime ''batch input range overflowed'')
         (checked_add (wb_request_offsets wb ! i) (wb_input_token_counts wb ! i))) (\<lambda>input_end.
     and_then (ok_or (ForwardRuntime ''batch sequence range overflowed'')
         (checked_add (wb_sequence_offsets wb ! i) (wb_sequence_token_counts wb ! i))) (\<lambda>sequence_end.
       if input_end > length (wb_input_ids wb) \<or> sequence_end > length (wb_sequence_cache_pages wb)
       then Err (ForwardRuntime (''dense decoder request '' @ show_usize i @ '' batch ranges exceed flattened storage''))
       else Ok ()))"

fun check_request_ranges :: "model_worker_batch \<Rightarrow> usize list \<Rightarrow> (model_forward_error, unit) outcome" where
  "check_request_ranges wb [] = Ok ()"
| "check_request_ranges wb (i # is) = and_then (check_request_range wb i) (\<lambda>_. check_request_ranges wb is)"

definition validate_model_worker_batch :: "model_worker_batch \<Rightarrow> (model_forward_error, unit) outcome" where
  "validate_model_worker_batch wb =
     (let request_count = length (wb_request_ids wb)
      in and_then (check_field_lengths request_count
           [(''request_offsets'', length (wb_request_offsets wb)),
            (''input_token_counts'', length (wb_input_token_counts wb)),
            (''sequence_offsets'', length (wb_sequence_offsets wb)),
            (''sequence_token_counts'', length (wb_sequence_token_counts wb))]) (\<lambda>_.
         if length (wb_input_ids wb) \<noteq> length (wb_positions wb) \<or>
            length (wb_input_ids wb) \<noteq> length (wb_out_cache_pages wb)
         then Err (ForwardRuntime (''dense decoder input/position/output-slot lengths differ: '' @
                show_usize (length (wb_input_ids wb)) @ ''/'' @ show_usize (length (wb_positions wb)) @ ''/'' @
                show_usize (length (wb_out_cache_pages wb))))
         else if length (wb_sequence_token_ids wb) \<noteq> length (wb_sequence_cache_pages wb)
         then Err (ForwardRuntime (''dense decoder sequence token/slot lengths differ: '' @
                show_usize (length (wb_sequence_token_ids wb)) @ ''/'' @
                show_usize (length (wb_sequence_cache_pages wb))))
         else check_request_ranges wb [0 ..< request_count]))"

section \<open>Logits per request\<close>

definition validate_logits :: "f32 list list \<Rightarrow> (model_forward_error, unit) outcome" where
  "validate_logits logits =
     (case logits of
        [] \<Rightarrow> Ok ()
      | first_row # _ \<Rightarrow>
          if first_row = [] then Err EmptyVocabulary
          else if \<exists>row \<in> set logits. length row \<noteq> length first_row then Err RaggedLogits
          else Ok ())"

fun select_last_logits ::
  "f32 list list \<Rightarrow> usize \<Rightarrow> (usize \<times> usize) list \<Rightarrow> (model_forward_error, f32 list list) outcome" where
  "select_last_logits token_logits i [] = Ok []"
| "select_last_logits token_logits i ((offset, token_count) # rest) =
     (if token_count = 0 then Err (MissingRequestTokenLogits i)
      else if \<not> offset + token_count - 1 < length token_logits then Panic
      else and_then (select_last_logits token_logits (i + 1) rest)
             (\<lambda>rows. Ok (token_logits ! (offset + token_count - 1) # rows)))"

definition from_token_logits ::
  "model_worker_batch \<Rightarrow> f32 list list \<Rightarrow> (model_forward_error, f32 list list) outcome" where
  "from_token_logits wb token_logits =
     and_then (validate_logits token_logits) (\<lambda>_.
       if length token_logits \<noteq> length (wb_input_ids wb)
       then Err (TokenLogitCountMismatch (length (wb_input_ids wb)) (length token_logits))
       else select_last_logits token_logits 0 (zip (wb_request_offsets wb) (wb_input_token_counts wb)))"

section \<open>Where each request lies in the flat arrays\<close>

text \<open>The tokens and slots of one forward step, and of the sequence it attends to.\<close>

definition step_tokens :: "forward_mode \<Rightarrow> scheduled_request \<Rightarrow> u32 list" where
  "step_tokens mode r =
     (if pushes_prefill mode r then take (prefill_end r - prefill_start r) (drop (prefill_start r) (input_ids r))
      else [if output_ids r = [] then 0 else last (output_ids r)])"

definition context_tokens :: "forward_mode \<Rightarrow> scheduled_request \<Rightarrow> u32 list" where
  "context_tokens mode r =
     (if pushes_prefill mode r then take (prefill_end r) (input_ids r) else input_ids r @ output_ids r)"

definition context_slots :: "forward_mode \<Rightarrow> scheduled_request \<Rightarrow> cache_page_id list" where
  "context_slots mode r =
     (if pushes_prefill mode r then take (prefill_end r) (sequence_cache_pages r) else sequence_cache_pages r)"

text \<open>A request with one slot per token of the step and of the sequence.\<close>

definition step_fits :: "forward_mode \<Rightarrow> scheduled_request \<Rightarrow> bool" where
  "step_fits mode r \<longleftrightarrow>
     (if pushes_prefill mode r then prefill_start r \<le> prefill_end r
      else input_ids r @ output_ids r \<noteq> []) \<and>
     length (forward_cache_pages r) = length (step_tokens mode r) \<and>
     length (context_slots mode r) = length (context_tokens mode r)"

definition sub_slice :: "'a list \<Rightarrow> nat \<Rightarrow> nat \<Rightarrow> 'a list" where
  "sub_slice xs offset n = take n (drop offset xs)"

definition placed :: "forward_mode \<Rightarrow> model_worker_batch \<Rightarrow> nat \<Rightarrow> scheduled_request \<Rightarrow> bool" where
  "placed mode wb i r \<longleftrightarrow>
     (let n = wb_input_token_counts wb ! i; off = wb_request_offsets wb ! i;
          m = wb_sequence_token_counts wb ! i; soff = wb_sequence_offsets wb ! i
      in n = length (step_tokens mode r) \<and> off + n \<le> length (wb_input_ids wb) \<and>
         m = length (context_tokens mode r) \<and> soff + m \<le> length (wb_sequence_token_ids wb) \<and>
         sub_slice (wb_input_ids wb) off n = step_tokens mode r \<and>
         sub_slice (wb_out_cache_pages wb) off n = forward_cache_pages r \<and>
         sub_slice (wb_positions wb) off n = [m - n ..< m] \<and>
         sub_slice (wb_sequence_token_ids wb) soff m = context_tokens mode r \<and>
         sub_slice (wb_sequence_cache_pages wb) soff m = context_slots mode r)"

definition flat_ok :: "forward_mode \<Rightarrow> model_worker_batch \<Rightarrow> scheduled_request list \<Rightarrow> bool" where
  "flat_ok mode wb rs \<longleftrightarrow>
     wb_forward_mode wb = mode \<and> wb_request_ids wb = map request_id rs \<and>
     wb_disaggregated_params wb = map disagg_params rs \<and> wb_data_parallel_ranks wb = map data_parallel_rank rs \<and>
     wb_cached_token_counts wb = map (\<lambda>r. matched_token_count (req_prefix_match r)) rs \<and>
     wb_out_cache_pages wb = concat (map forward_cache_pages rs) \<and>
     wb_input_token_counts wb = map (\<lambda>r. length (step_tokens mode r)) rs \<and>
     length (wb_request_offsets wb) = length rs \<and>
     length (wb_sequence_offsets wb) = length rs \<and> length (wb_sequence_token_counts wb) = length rs \<and>
     length (wb_positions wb) = length (wb_input_ids wb) \<and>
     length (wb_out_cache_pages wb) = length (wb_input_ids wb) \<and>
     length (wb_sequence_cache_pages wb) = length (wb_sequence_token_ids wb) \<and>
     wb_input_ids wb = concat (map (step_tokens mode) rs) \<and>
     wb_sequence_token_ids wb = concat (map (context_tokens mode) rs) \<and>
     (\<forall>i < length rs. placed mode wb i (rs ! i))"

lemma sub_slice_append1 [simp]: "off + n \<le> length xs \<Longrightarrow> sub_slice (xs @ ys) off n = sub_slice xs off n"
  by (simp add: sub_slice_def)

lemma sub_slice_append2 [simp]: "length xs = off \<Longrightarrow> length ys = n \<Longrightarrow> sub_slice (xs @ ys) off n = ys"
  by (auto simp: sub_slice_def)

lemma flat_ok_lengths:
  assumes "flat_ok mode wb rs"
  shows "length (wb_request_ids wb) = length rs" "length (wb_request_offsets wb) = length rs"
    "length (wb_input_token_counts wb) = length rs"
    "length (wb_sequence_offsets wb) = length rs" "length (wb_sequence_token_counts wb) = length rs"
    "length (wb_positions wb) = length (wb_input_ids wb)" "length (wb_out_cache_pages wb) = length (wb_input_ids wb)"
    "length (wb_sequence_cache_pages wb) = length (wb_sequence_token_ids wb)"
    "\<forall>i < length rs. placed mode wb i (rs ! i)"
    "length (concat (map forward_cache_pages rs)) = length (concat (map (step_tokens mode) rs))"
  using assms unfolding flat_ok_def by (metis length_map)+

lemma push_request_Ok:
  assumes "step_fits mode r"
  obtains wb' where "push_request mode r wb = Ok wb'"
    "wb_forward_mode wb' = wb_forward_mode wb" "wb_request_ids wb' = wb_request_ids wb @ [request_id r]"
    "wb_disaggregated_params wb' = wb_disaggregated_params wb @ [disagg_params r]"
    "wb_data_parallel_ranks wb' = wb_data_parallel_ranks wb @ [data_parallel_rank r]"
    "wb_cached_token_counts wb' = wb_cached_token_counts wb @ [matched_token_count (req_prefix_match r)]"
    "wb_request_offsets wb' = wb_request_offsets wb @ [length (wb_input_ids wb)]"
    "wb_input_token_counts wb' = wb_input_token_counts wb @ [length (step_tokens mode r)]"
    "wb_sequence_offsets wb' = wb_sequence_offsets wb @ [length (wb_sequence_token_ids wb)]"
    "wb_sequence_token_counts wb' = wb_sequence_token_counts wb @ [length (context_tokens mode r)]"
    "wb_input_ids wb' = wb_input_ids wb @ step_tokens mode r"
    "wb_out_cache_pages wb' = wb_out_cache_pages wb @ forward_cache_pages r"
    "wb_positions wb' = wb_positions wb @
       [length (context_tokens mode r) - length (step_tokens mode r) ..< length (context_tokens mode r)]"
    "wb_sequence_token_ids wb' = wb_sequence_token_ids wb @ context_tokens mode r"
    "wb_sequence_cache_pages wb' = wb_sequence_cache_pages wb @ context_slots mode r"
proof (cases "pushes_prefill mode r")
  case True
  have e: "prefill_end r \<le> length (input_ids r)" by (simp add: prefill_end_def Let_def)
  moreover have "length (step_tokens mode r) = prefill_end r - prefill_start r" "length (context_tokens mode r) = prefill_end r"
    using True e by (simp_all add: step_tokens_def context_tokens_def)
  moreover have "take (min (prefill_end r) (length (sequence_cache_pages r))) (sequence_cache_pages r) = context_slots mode r"
    using True by (simp add: context_slots_def min_def)
  ultimately show thesis
    using True assms that
    by (simp add: push_request_def push_prefill_request_def step_fits_def step_tokens_def context_tokens_def Let_def)
next
  case False
  have "[length (input_ids r) + length (output_ids r) - Suc 0 ..< length (input_ids r) + length (output_ids r)] =
      [length (input_ids r) + length (output_ids r) - Suc 0]"
    if "input_ids r @ output_ids r \<noteq> []"
    using that by (cases "length (input_ids r) + length (output_ids r)") auto
  then show thesis
    using False assms that
    by (simp add: push_request_def push_decode_request_def step_fits_def step_tokens_def context_tokens_def
        context_slots_def Let_def)
qed

lemma push_request_flat:
  assumes "flat_ok mode wb rs" and "step_fits mode r"
  shows "\<exists>wb'. push_request mode r wb = Ok wb' \<and> flat_ok mode wb' (rs @ [r])"
proof -
  obtain wb' where P: "push_request mode r wb = Ok wb'"
    and e: "wb_forward_mode wb' = wb_forward_mode wb" "wb_request_ids wb' = wb_request_ids wb @ [request_id r]"
    "wb_disaggregated_params wb' = wb_disaggregated_params wb @ [disagg_params r]"
    "wb_data_parallel_ranks wb' = wb_data_parallel_ranks wb @ [data_parallel_rank r]"
    "wb_cached_token_counts wb' = wb_cached_token_counts wb @ [matched_token_count (req_prefix_match r)]"
    "wb_request_offsets wb' = wb_request_offsets wb @ [length (wb_input_ids wb)]"
    "wb_input_token_counts wb' = wb_input_token_counts wb @ [length (step_tokens mode r)]"
    "wb_sequence_offsets wb' = wb_sequence_offsets wb @ [length (wb_sequence_token_ids wb)]"
    "wb_sequence_token_counts wb' = wb_sequence_token_counts wb @ [length (context_tokens mode r)]"
    "wb_input_ids wb' = wb_input_ids wb @ step_tokens mode r"
    "wb_out_cache_pages wb' = wb_out_cache_pages wb @ forward_cache_pages r"
    "wb_positions wb' = wb_positions wb @
       [length (context_tokens mode r) - length (step_tokens mode r) ..< length (context_tokens mode r)]"
    "wb_sequence_token_ids wb' = wb_sequence_token_ids wb @ context_tokens mode r"
    "wb_sequence_cache_pages wb' = wb_sequence_cache_pages wb @ context_slots mode r"
    using push_request_Ok [OF assms(2), of wb] by metis
  have l: "length (step_tokens mode r) \<le> length (context_tokens mode r)"
    using assms(2) by (auto simp: step_fits_def step_tokens_def context_tokens_def prefill_end_def Let_def Suc_le_eq)
  note len = flat_ok_lengths [OF assms(1)]
  have "placed mode wb' i ((rs @ [r]) ! i)" if "i < length (rs @ [r])" for i
  proof (cases "i < length rs")
    case True
    then have "placed mode wb i (rs ! i)" using len(9) by simp
    then show ?thesis
      using True len by (simp add: placed_def e nth_append Let_def)
  next
    case False
    then have "i = length rs" using that by simp
    then show ?thesis
      using assms(2) l len by (auto simp: placed_def step_fits_def e nth_append Let_def)
  qed
  then have "flat_ok mode wb' (rs @ [r])"
    using assms l len(10) by (simp add: flat_ok_def step_fits_def e)
  then show ?thesis using P by blast
qed

lemma push_requests_flat:
  assumes "flat_ok mode wb rs" and "\<forall>r \<in> set rs'. step_fits mode r"
  shows "\<exists>wb'. push_requests mode rs' wb = Ok wb' \<and> flat_ok mode wb' (rs @ rs')"
  using assms
proof (induction rs' arbitrary: wb rs)
  case (Cons r rs')
  then obtain wb' where wb': "push_request mode r wb = Ok wb'" "flat_ok mode wb' (rs @ [r])"
    using push_request_flat by fastforce
  from Cons.IH [OF wb'(2)] Cons.prems(2) show ?case using wb'(1) by simp
qed simp

lemma check_request_ranges_Ok:
  "(\<And>i. i \<in> set is \<Longrightarrow> check_request_range wb i = Ok ()) \<Longrightarrow> check_request_ranges wb is = Ok ()"
  by (induction "is") simp_all

lemma flat_ok_valid:
  assumes "flat_ok mode wb rs" and "length (wb_input_ids wb) < 2 ^ 64" and "length (wb_sequence_token_ids wb) < 2 ^ 64"
  shows "validate_model_worker_batch wb = Ok ()"
proof -
  note len = flat_ok_lengths [OF assms(1)]
  have "check_request_range wb i = Ok ()" if "i < length rs" for i
  proof -
    have "placed mode wb i (rs ! i)" using len(9) that by simp
    then show ?thesis
      using assms(2,3) len by (auto simp: check_request_range_def placed_def checked_add_def Let_def)
  qed
  then have "check_request_ranges wb [0 ..< length rs] = Ok ()" by (intro check_request_ranges_Ok) simp
  then show ?thesis using len by (simp add: validate_model_worker_batch_def Let_def)
qed

lemma from_schedule_batch_flat:
  assumes "\<forall>r \<in> set (batch_requests b). step_fits (batch_forward_mode b) r"
  shows "\<exists>wb. from_schedule_batch b = Ok wb \<and> flat_ok (batch_forward_mode b) wb (batch_requests b)"
proof -
  have "flat_ok (batch_forward_mode b) (empty_worker_batch (batch_forward_mode b)) []"
    by (simp add: flat_ok_def empty_worker_batch_def)
  from push_requests_flat [OF this assms] show ?thesis by (simp add: from_schedule_batch_def)
qed

end
