(* ===== verification/Sched_Shape.thy ===== *)
theory Sched_Shape
  imports Worker_Batch Sched_Isolation
begin

text \<open>
  The scheduler and the model agree on the shape of a batch.  With the prefix cache disabled and a worker
  that answers every batch with one token per request (as \<open>ModelRunner\<close> does) and finishes requests without
  an error, every queued request has exactly one KV slot per token processed so far.  Hence every
  batch any of the dispatch functions forms is flattened without a panic and accepted by
  \<open>validate_model_worker_batch\<close>.
\<close>

section \<open>Requests with one slot per token\<close>

definition wait_fit :: "scheduled_request \<Rightarrow> bool" where
  "wait_fit r \<longleftrightarrow> allocated_cache_pages r = [] \<and> output_ids r = [] \<and> cache_pages (req_prefix_match r) = [] \<and>
     matched_token_count (req_prefix_match r) = 0 \<and>
     length (sequence_cache_pages r) = prompt_tokens_processed r \<and>
     (prompt_tokens_processed r = 0 \<or> prompt_tokens_processed r < length (input_ids r))"

definition prefill_fit :: "scheduled_request \<Rightarrow> bool" where
  "prefill_fit r \<longleftrightarrow> stage r = PrefillForward \<and> output_ids r = [] \<and> cache_pages (req_prefix_match r) = [] \<and>
     matched_token_count (req_prefix_match r) = 0 \<and>
     suffix (allocated_cache_pages r) (sequence_cache_pages r) \<and> forward_cache_pages r = allocated_cache_pages r \<and>
     length (allocated_cache_pages r) = current_chunk_len r \<and>
     length (sequence_cache_pages r) = prompt_tokens_processed r + current_chunk_len r \<and>
     prompt_tokens_processed r + current_chunk_len r \<le> length (input_ids r) \<and>
     (current_chunk_len r = 0 \<longrightarrow> input_ids r = [])"

definition decode_fit :: "scheduled_request \<Rightarrow> bool" where
  "decode_fit r \<longleftrightarrow> output_ids r \<noteq> [] \<and>
     length (sequence_cache_pages r) + 1 = length (input_ids r) + length (output_ids r)"

definition step_fit :: "scheduled_request \<Rightarrow> bool" where
  "step_fit r \<longleftrightarrow> stage r = DecodeForward \<and> output_ids r \<noteq> [] \<and>
     suffix (allocated_cache_pages r) (sequence_cache_pages r) \<and> forward_cache_pages r = allocated_cache_pages r \<and>
     length (allocated_cache_pages r) = 1 \<and>
     length (sequence_cache_pages r) = length (input_ids r) + length (output_ids r)"

definition forward_fit :: "scheduled_request \<Rightarrow> bool" where
  "forward_fit r \<longleftrightarrow> prefill_fit r \<or> step_fit r"

abbreviation all_fit :: "scheduled_request list \<Rightarrow> bool" where
  "all_fit rs \<equiv> \<forall>r \<in> set rs. forward_fit r"

abbreviation wait_fits :: "scheduled_request list \<Rightarrow> bool" where
  "wait_fits rs \<equiv> \<forall>r \<in> set rs. wait_fit r"

abbreviation decode_fits :: "scheduled_request list \<Rightarrow> bool" where
  "decode_fits rs \<equiv> \<forall>r \<in> set rs. decode_fit r"

lemma prefill_fit_range:
  assumes "prefill_fit r"
  shows "prefill_start r = prompt_tokens_processed r"
    and "prefill_end r = prompt_tokens_processed r + current_chunk_len r"
  using assms by (auto simp: prefill_fit_def prefill_start_def prefill_end_def Let_def)

lemma prefill_fit_step:
  assumes "prefill_fit r" and "mode \<noteq> Decode"
  shows "step_fits mode r"
proof -
  have "pushes_prefill mode r" using assms by (cases mode) (auto simp: pushes_prefill_def prefill_fit_def)
  then show ?thesis
    using assms prefill_fit_range [OF assms(1)]
    by (auto simp: step_fits_def step_tokens_def context_tokens_def context_slots_def prefill_fit_def)
qed

lemma step_fit_step:
  assumes "step_fit r" and "mode \<noteq> Prefill"
  shows "step_fits mode r"
proof -
  have "\<not> pushes_prefill mode r" using assms by (cases mode) (auto simp: pushes_prefill_def step_fit_def)
  then show ?thesis
    using assms by (auto simp: step_fits_def step_tokens_def context_tokens_def context_slots_def step_fit_def)
qed

text \<open>A batch of fitting requests under a mode that matches their stages.\<close>

definition batch_fit :: "schedule_batch \<Rightarrow> bool" where
  "batch_fit b \<longleftrightarrow> (\<forall>r \<in> set (batch_requests b).
     prefill_fit r \<and> batch_forward_mode b \<noteq> Decode \<or> step_fit r \<and> batch_forward_mode b \<noteq> Prefill)"

lemma batch_fit_steps: "batch_fit b \<Longrightarrow> \<forall>r \<in> set (batch_requests b). step_fits (batch_forward_mode b) r"
  using prefill_fit_step step_fit_step by (auto simp: batch_fit_def)

section \<open>Preparing and putting back\<close>

lemma take_prefill_fit:
  assumes "alloc_inv a" and "wait_fit r" and "0 < n"
  obtains (ready) r' a' where
      "prepare_prefill_request_chunk Disabled cache (Some a) r n = (Ok (), r', Some a')" "prefill_fit r'" "alloc_inv a'"
  | (full) r' e where
      "prepare_prefill_request_chunk Disabled cache (Some a) r n = (Err e, r', Some a)" "wait_fit r'" "is_out_of_slots e"
proof -
  have step: thesis
    if call: "prepare_prefill_request_chunk Disabled cache (Some a) r n = allocate_prefill_chunk (Some a) x n"
      and x: "wait_fit x" for x
  proof (rule allocate_prefill_chunk_cases [of "Some a" x n])
    show "alloc_ok (Some a)" using assms(1) by simp
    fix pages alloc' r'
    assume A: "allocate_prefill_chunk (Some a) x n = (Ok (), r', alloc')"
      and r': "r' = x\<lparr>forward_cache_pages := pages, allocated_cache_pages := pages,
            sequence_cache_pages := sequence_cache_pages x @ pages,
            current_chunk_len := min (remaining_prompt_tokens x) n, stage := PrefillForward\<rparr>"
      and S: "\<And>b. Some a = Some b \<Longrightarrow> \<exists>a'. alloc' = Some a' \<and>
         allocate_for_sequence b (sequence_cache_pages x) (min (remaining_prompt_tokens x) n) = Ok (pages, a')"
    obtain a' where a': "alloc' = Some a'"
        "allocate_for_sequence a (sequence_cache_pages x) (min (remaining_prompt_tokens x) n) = Ok (pages, a')"
      using S by blast
    have "length pages = min (remaining_prompt_tokens x) n" by (rule pool.take_length [OF assms(1) a'(2)])
    then have "prefill_fit r'"
      using x assms(3) by (auto simp: r' prefill_fit_def wait_fit_def suffix_def remaining_prompt_tokens_def min_def)
    moreover have "alloc_inv a'" using allocate_for_sequence_inv assms(1) a'(2) by blast
    ultimately show thesis using A call a'(1) ready by metis
  next
    fix e
    assume "allocate_prefill_chunk (Some a) x n = (Err e, x, Some a)" "is_out_of_slots e"
    then show thesis using full call x by metis
  qed
  show thesis
  proof (cases "prompt_tokens_processed r = 0")
    case True
    let ?m = "prefill_prefix_match Disabled cache (sched_page_size (Some a)) (input_ids r)"
    let ?r = "r\<lparr>cache_hit_token_count := matched_token_count ?m, prompt_tokens_processed := matched_token_count ?m,
        req_prefix_match := ?m, sequence_cache_pages := cache_pages ?m\<rparr>"
    have "begin_prefill Disabled cache (sched_page_size (Some a)) r = Ok (False, ?r)"
      by (simp add: begin_prefill_def prefill_prefix_match_def Let_def)
    then show thesis
      using True assms(2)
      by (intro step [of ?r]) (simp_all add: prepare_prefill_request_chunk_def wait_fit_def prefill_prefix_match_def)
  next
    case False
    then show thesis using assms(2) by (intro step [of r]) (auto simp: prepare_prefill_request_chunk_def)
  qed
qed

lemma take_decode_fit:
  assumes "alloc_inv a" and "decode_fit r"
  obtains (ready) r' a' where "prepare_decode_request (Some a) r = (Ok (), r', Some a')"
      "step_fit (r'\<lparr>stage := DecodeForward\<rparr>)" "alloc_inv a'"
  | (full) e where "prepare_decode_request (Some a) r = (Err e, r, Some a)"
proof (rule prepare_decode_cases [of "Some a" r])
  show "alloc_ok (Some a)" using assms(1) by simp
  fix pages alloc' r'
  assume A: "prepare_decode_request (Some a) r = (Ok (), r', alloc')"
    and r': "r' = r\<lparr>forward_cache_pages := pages, allocated_cache_pages := pages,
            sequence_cache_pages := sequence_cache_pages r @ pages\<rparr>"
    and S: "\<And>b. Some a = Some b \<Longrightarrow> \<exists>a'. alloc' = Some a' \<and>
       allocate_for_sequence b (sequence_cache_pages r) 1 = Ok (pages, a')"
  obtain a' where a': "alloc' = Some a'" "allocate_for_sequence a (sequence_cache_pages r) 1 = Ok (pages, a')"
    using S by blast
  have "length pages = 1" by (rule pool.take_length [OF assms(1) a'(2)])
  then have "step_fit (r'\<lparr>stage := DecodeForward\<rparr>)"
    using assms(2) by (auto simp: r' step_fit_def decode_fit_def suffix_def)
  moreover have "alloc_inv a'" using allocate_for_sequence_inv assms(1) a'(2) by blast
  ultimately show thesis using A a'(1) ready by metis
qed (rule full)

lemma put_back_fit:
  "prefill_fit r \<Longrightarrow> wait_fit (back_to_prefill_waiting r)" "step_fit r \<Longrightarrow> decode_fit (back_to_decode_waiting r)"
  "wait_fit r \<Longrightarrow> wait_fit (back_to_prefill_waiting r)"
  by (auto simp: prefill_fit_def step_fit_def wait_fit_def decode_fit_def back_to_prefill_waiting_def
      back_to_decode_waiting_def clear_forward_cache_allocation_def Let_def suffix_def)

lemma foldl_release_inv_opt:
  "alloc_inv a \<Longrightarrow> \<exists>a'. foldl (\<lambda>al r. release_opt al (allocated_cache_pages r)) (Some a) rs = Some a' \<and> alloc_inv a'"
  by (induction rs arbitrary: a) (auto simp: release_inv)

section \<open>Batch formation\<close>

lemma prefill_loop_fit:
  assumes "alloc_inv a" and "wait_fits queue" and "\<forall>r \<in> set requests. prefill_fit r" and "0 < c"
    and "prefill_loop Disabled cache c n budget (Some a) queue requests used = (res, queue', alloc')"
  shows "(\<exists>a'. alloc' = Some a' \<and> alloc_inv a') \<and> wait_fits queue' \<and> (\<forall>rs. res = Ok rs \<longrightarrow> (\<forall>r \<in> set rs. prefill_fit r))"
  using assms
proof (induction queue arbitrary: a requests used)
  case (Cons q queue)
  show ?case
  proof (cases "length requests < n")
    case True
    have w: "wait_fit q" using Cons.prems(2) by simp
    from Cons.prems(1) w Cons.prems(4) show ?thesis
    proof (cases rule: take_prefill_fit [where cache = cache])
      case (ready r a')
      show ?thesis
      proof (cases "requests \<noteq> [] \<and> used + current_chunk_len r > budget")
        case over: True
        then have "res = Ok requests" "queue' = back_to_prefill_waiting r # queue"
          "alloc' = Some (release a' (allocated_cache_pages r))"
          using Cons.prems(5) ready(1) True by auto
        then show ?thesis using Cons.prems(2,3) ready put_back_fit(1) by (simp add: release_inv)
      next
        case False
        show ?thesis
          by (rule Cons.IH [of a' "requests @ [r]" "used + current_chunk_len r"])
            (use Cons.prems ready False True in auto)
      qed
    next
      case (full r e)
      then show ?thesis
        using Cons.prems True foldl_release_inv_opt [of "release a (allocated_cache_pages r)" requests] put_back_fit
        by (auto simp: restore_failed_prefill_eq release_inv)
    qed
  qed (use Cons.prems in auto)
qed auto

definition sched_fit :: "'w scheduler \<Rightarrow> bool" where
  "sched_fit s \<longleftrightarrow> cache_policy s = Disabled \<and> pending_prefix_cache_inserts s = [] \<and> 0 < chunk_budget_of s \<and>
     (\<exists>a. cache_page_allocator s = Some a \<and> alloc_inv a) \<and>
     wait_fits (waiting_queue s) \<and> decode_fits (decode_queue s)"

text \<open>What forming a batch gives.\<close>

definition formed_fit :: "(scheduler_error, schedule_batch) outcome \<times> 'w scheduler \<Rightarrow> bool" where
  "formed_fit x \<longleftrightarrow> sched_fit (snd x) \<and> (\<forall>b. fst x = Ok b \<longrightarrow> batch_fit b)"

lemma chunk_budget_frame [simp]:
  "chunk_budget_of (s\<lparr>waiting_queue := wq\<rparr>) = chunk_budget_of s" "chunk_budget_of (s\<lparr>decode_queue := dq\<rparr>) = chunk_budget_of s"
  "chunk_budget_of (s\<lparr>cache_page_allocator := al\<rparr>) = chunk_budget_of s" "chunk_budget_of (s\<lparr>worker := w\<rparr>) = chunk_budget_of s"
  "chunk_budget_of (s\<lparr>prefix_cache := pc\<rparr>) = chunk_budget_of s"
  "chunk_budget_of (s\<lparr>pending_prefix_cache_inserts := pp\<rparr>) = chunk_budget_of s"
  by (simp_all add: chunk_budget_of_def)

lemma next_prefill_fit:
  assumes "sched_fit s"
  shows "formed_fit (next_prefill_batch_with_token_budget s n budget)"
proof (cases rule: remaining_capacity_cases [of s])
  case (limited e)
  then show ?thesis using assms by (auto simp: next_prefill_batch_with_token_budget_def formed_fit_def)
next
  case (room c)
  obtain a where a: "cache_page_allocator s = Some a" "alloc_inv a" "cache_policy s = Disabled" "0 < chunk_budget_of s"
    "wait_fits (waiting_queue s)" using assms by (auto simp: sched_fit_def)
  let ?P = "prefill_loop Disabled (prefix_cache s) (chunk_budget_of s) (min n c) budget (Some a) (waiting_queue s) [] 0"
  obtain res queue alloc where P: "?P = (res, queue, alloc)" by (cases ?P) auto
  obtain a' where L: "alloc = Some a'" "alloc_inv a'" "wait_fits queue"
      "\<forall>rs. res = Ok rs \<longrightarrow> (\<forall>r \<in> set rs. prefill_fit r)"
    using prefill_loop_fit [OF a(2,5) _ a(4) P] by auto
  have "formed_fit (finish_prefill_batch s (res, queue, alloc))"
  proof (cases "res = Ok [] \<and> queue \<noteq> []")
    case False
    then show ?thesis using L assms
      by (cases res; cases queue) (auto simp: finish_prefill_batch_def formed_fit_def sched_fit_def batch_fit_def batch_prefill_def)
  next
    case True
    then obtain q queue' where q: "queue = q # queue'" by (cases queue) auto
    then have "wait_fit q" using L(3) by simp
    from L(2) this a(4) show ?thesis
      by (cases rule: take_prefill_fit [where cache = "prefix_cache s"])
        (use True q L assms a(3) in \<open>auto simp: finish_prefill_batch_def formed_fit_def sched_fit_def batch_fit_def batch_prefill_def\<close>)
  qed
  then show ?thesis using assms a P room(1) by (auto simp: next_prefill_batch_with_token_budget_def formed_fit_def)
qed

lemma decode_loop_fit:
  assumes "alloc_inv a" and "decode_fits queue" and "\<forall>r \<in> set requests. step_fit r"
    and "decode_loop check n (Some a) queue requests = (res, queue', alloc')"
  shows "(\<exists>a'. alloc' = Some a' \<and> alloc_inv a') \<and> decode_fits queue' \<and> (\<forall>rs. res = Ok rs \<longrightarrow> (\<forall>r \<in> set rs. step_fit r))"
  using assms
proof (induction queue arbitrary: a requests)
  case (Cons q queue)
  show ?case
  proof (cases "length requests < n \<and> check q = Ok True")
    case True
    have "decode_fit q" using Cons.prems(2) by simp
    from Cons.prems(1) this show ?thesis
    proof (cases rule: take_decode_fit)
      case (ready r a')
      show ?thesis
        by (rule Cons.IH [of a' "requests @ [r\<lparr>stage := DecodeForward\<rparr>]"]) (use Cons.prems ready True in auto)
    next
      case (full e)
      then show ?thesis
        using Cons.prems True foldl_release_inv_opt [of a requests] put_back_fit(2)
        by (auto simp: restore_failed_decode_eq)
    qed
  qed (use Cons.prems in \<open>auto split: outcome.splits if_splits\<close>)
qed auto

lemma next_decode_fit:
  assumes "sched_fit s"
  shows "formed_fit (next_decode_batch_checked check s n)"
proof -
  obtain a where a: "cache_page_allocator s = Some a" "alloc_inv a" "decode_fits (decode_queue s)"
    using assms by (auto simp: sched_fit_def)
  let ?D = "decode_loop check (min n (length (decode_queue s))) (Some a) (decode_queue s) []"
  obtain res queue alloc where D: "?D = (res, queue, alloc)" by (cases ?D) auto
  from decode_loop_fit [OF a(2,3) _ D] show ?thesis
    using assms a D
    by (cases res) (auto simp: next_decode_batch_checked_def formed_fit_def sched_fit_def batch_fit_def batch_decode_def)
qed

lemma mixed_decode_loop_fit:
  assumes "alloc_inv a" and "decode_fits queue" and "\<forall>r \<in> set requests. step_fit r"
    and "mixed_decode_loop check n budget (Some a) queue requests used = (res, queue', alloc')"
  shows "(\<exists>a'. alloc' = Some a' \<and> alloc_inv a') \<and> decode_fits queue' \<and> (\<forall>rs u. res = Ok (rs, u) \<longrightarrow> (\<forall>r \<in> set rs. step_fit r))"
  using assms
proof (induction queue arbitrary: a requests used)
  case (Cons q queue)
  show ?case
  proof (cases "length requests < n \<and> used < budget \<and> check q = Ok True")
    case True
    have "decode_fit q" using Cons.prems(2) by simp
    from Cons.prems(1) this show ?thesis
    proof (cases rule: take_decode_fit)
      case (ready r a')
      show ?thesis
        by (rule Cons.IH [of a' "requests @ [r\<lparr>stage := DecodeForward\<rparr>]" "used + 1"]) (use Cons.prems ready True in auto)
    next
      case (full e)
      then show ?thesis
        using Cons.prems True foldl_release_inv_opt [of a requests] put_back_fit(2)
        by (auto simp: restore_failed_decode_eq)
    qed
  qed (use Cons.prems in \<open>auto split: outcome.splits if_splits\<close>)
qed auto

lemma mixed_prefill_loop_fit:
  assumes "alloc_inv a" and "wait_fits queue" and "all_fit requests"
    and "mixed_prefill_loop Disabled cache c n budget (Some a) queue requests used = (res, queue', alloc')"
  shows "(\<exists>a'. alloc' = Some a' \<and> alloc_inv a') \<and> wait_fits queue' \<and> (\<forall>rs. res = Ok rs \<longrightarrow> all_fit rs)"
  using assms
proof (induction queue arbitrary: a requests used)
  case (Cons q queue)
  let ?c = "min c (budget - used)"
  show ?case
  proof (cases "length requests < n \<and> used < budget \<and> ?c \<noteq> 0")
    case True
    have w: "wait_fit q" and c: "0 < ?c" using Cons.prems(2) True by simp_all
    from Cons.prems(1) w c show ?thesis
    proof (cases rule: take_prefill_fit [where cache = cache])
      case (ready r a')
      then have rs: "all_fit (requests @ [r])" using Cons.prems(3) by (simp add: forward_fit_def)
      show ?thesis
      proof (cases "current_chunk_len r = 0")
        case empty: True
        then have "res = Ok (requests @ [r])" "queue' = queue" "alloc' = Some a'"
          using Cons.prems(4) ready(1) True by (auto simp: Let_def)
        then show ?thesis using rs ready(3) Cons.prems(2) by simp
      next
        case False
        show ?thesis
          by (rule Cons.IH [of a' "requests @ [r]" "used + current_chunk_len r"])
            (use Cons.prems ready False True rs in \<open>auto simp: Let_def\<close>)
      qed
    next
      case (full r e)
      then show ?thesis using Cons.prems True by (auto simp: Let_def)
    qed
  qed (use Cons.prems in \<open>auto split: if_splits\<close>)
qed auto

lemma mixed_batch_of_fit: "all_fit rs \<Longrightarrow> batch_fit (mixed_batch_of rs)"
  by (auto simp: mixed_batch_of_def Let_def batch_mixed_def batch_prefill_def batch_decode_def batch_fit_def
      forward_fit_def prefill_fit_def step_fit_def)

lemma next_mixed_fit:
  assumes "sched_fit s"
  shows "formed_fit (next_mixed_batch W s n budget)"
proof -
  obtain a where a: "cache_page_allocator s = Some a" "alloc_inv a" "cache_policy s = Disabled"
    "wait_fits (waiting_queue s)" "decode_fits (decode_queue s)" using assms by (auto simp: sched_fit_def)
  let ?D = "mixed_decode_loop (worker_ready W (worker s)) n budget (Some a) (decode_queue s) [] 0"
  obtain dres dq alloc where D: "?D = (dres, dq, alloc)" by (cases ?D) auto
  obtain a1 where d: "alloc = Some a1" "alloc_inv a1" "decode_fits dq" "\<forall>rs u. dres = Ok (rs, u) \<longrightarrow> (\<forall>r \<in> set rs. step_fit r)"
    using mixed_decode_loop_fit [OF a(2,5) _ D] by auto
  show ?thesis
  proof (cases dres)
    case (Ok x)
    obtain ds used where x: "x = (ds, used)" by (cases x)
    let ?P = "mixed_prefill_loop Disabled (prefix_cache s) (chunk_budget_of s) n budget (Some a1) (waiting_queue s) ds used"
    obtain pres wq alloc' where P: "?P = (pres, wq, alloc')" by (cases ?P) auto
    have "all_fit ds" using d(4) Ok x by (auto simp: forward_fit_def)
    from mixed_prefill_loop_fit [OF d(2) a(4) this P] show ?thesis
      using assms a D Ok x d P mixed_batch_of_fit
      by (cases pres) (auto simp: next_mixed_batch_def formed_fit_def sched_fit_def)
  qed (use assms a D d in \<open>auto simp: next_mixed_batch_def formed_fit_def sched_fit_def\<close>)
qed

section \<open>Completion and failure\<close>

text \<open>What is assumed of the worker: one token per request, and cleanup that does not fail.\<close>

definition one_token_each :: "'w worker_executor \<Rightarrow> bool" where
  "one_token_each W \<longleftrightarrow> (\<forall>w b tokens w'. execute_batch W w b = (Inr tokens, w') \<longrightarrow>
     length tokens = batch_size b \<and> (\<forall>t \<in> set tokens. length (token_ids t) = 1))"

definition finishes :: "'w worker_executor \<Rightarrow> bool" where
  "finishes W \<longleftrightarrow> (\<forall>w r. \<exists>w'. finish_request W w r = (Inr (), w'))"

lemma release_pages_fit [simp]: "sched_fit s \<Longrightarrow> sched_fit (release_request_cache_pages r s)"
  by (auto simp: sched_fit_def release_request_cache_pages_def release_inv)

lemma sched_fit_worker [simp]: "sched_fit (s\<lparr>worker := w\<rparr>) = sched_fit s"
  by (simp add: sched_fit_def)

lemma complete_with_token_fit:
  assumes "sched_fit s" and "finishes W" and "length (token_ids t) = 1"
    and "length (sequence_cache_pages r) = length (input_ids r) + length (output_ids r)"
  shows "\<exists>out s'. complete_with_token W s r t = (Ok (Some out), s') \<and> sched_fit s'"
proof -
  let ?r = "append_output_ids (token_ids t) r"
  obtain w where w: "finish_request W (worker s) (?r\<lparr>stage := Finished\<rparr>) = (Inr (), w)"
    using assms(2) by (auto simp: finishes_def)
  have "decode_fit ((clear_forward_chunk_tracking ?r)\<lparr>stage := DecodeWaiting\<rparr>)"
    using assms(3,4) by (auto simp: decode_fit_def clear_forward_chunk_tracking_def append_output_ids_def)
  moreover have "sched_fit (s\<lparr>decode_queue := decode_queue s @ [q]\<rparr>)" if "decode_fit q" for q
    using assms(1) that by (auto simp: sched_fit_def)
  ultimately show ?thesis using assms(1) w by (auto simp: complete_with_token_def Let_def)
qed

lemma complete_request_step_fit:
  assumes s: "sched_fit s" and "finishes W" and "length (token_ids t) = 1"
    and r: "prefill_fit r \<and> mode \<noteq> Decode \<or> step_fit r \<and> mode \<noteq> Prefill"
  shows "\<exists>out s'. complete_request_step sha256 W mode s r t = (Ok out, s') \<and> sched_fit s'"
proof (cases "prefill_fit r")
  case False
  then have "step_fit r" "mode \<noteq> Prefill" using r by auto
  then have "\<not> is_prefill_forward mode r" "length (sequence_cache_pages r) = length (input_ids r) + length (output_ids r)"
    by (auto simp: is_prefill_forward_def step_fit_def)
  then show ?thesis using complete_with_token_fit [OF s assms(2,3)] by (fastforce simp: complete_request_step_def)
next
  case True
  let ?n = "if current_chunk_len r > 0 then current_chunk_len r else length (uncached_input_ids r)"
  let ?r = "advance_prompt_tokens ?n r"
  have pf: "is_prefill_forward mode r" using True by (simp add: is_prefill_forward_def prefill_fit_def)
  have dis: "cache_policy s = Disabled" using s by (simp add: sched_fit_def)
  show ?thesis
  proof (cases "is_prefill_complete ?r")
    case False
    then have "wait_fit ((clear_forward_chunk_tracking ?r)\<lparr>stage := PrefillWaiting\<rparr>)"
      using True by (auto simp: wait_fit_def prefill_fit_def is_prefill_complete_def advance_prompt_tokens_def
          clear_forward_chunk_tracking_def min_def split: if_splits)
    then have "sched_fit (s\<lparr>waiting_queue := (clear_forward_chunk_tracking ?r)\<lparr>stage := PrefillWaiting\<rparr> # waiting_queue s\<rparr>)"
      using s by (simp add: sched_fit_def)
    then show ?thesis using pf False dis by (simp add: complete_request_step_def Let_def stage_chunk_Disabled)
  next
    case c: True
    then have "length (sequence_cache_pages ?r) = length (input_ids ?r) + length (output_ids ?r)"
      using True by (auto simp: prefill_fit_def is_prefill_complete_def advance_prompt_tokens_def split: if_splits)
    from complete_with_token_fit [OF s assms(2,3) this] show ?thesis
      using pf c dis by (auto simp: complete_request_step_def Let_def stage_chunk_Disabled)
  qed
qed

lemma complete_loop_fit:
  assumes "sched_fit s" and "finishes W"
    and "\<forall>(r, t) \<in> set rts. length (token_ids t) = 1 \<and> (prefill_fit r \<and> mode \<noteq> Decode \<or> step_fit r \<and> mode \<noteq> Prefill)"
  shows "sched_fit (snd (complete_loop sha256 W mode rts outs err s))"
  using assms
proof (induction rts arbitrary: outs err s)
  case (Cons rt rts)
  obtain r t where rt: "rt = (r, t)" by (cases rt)
  obtain out s' where st: "complete_request_step sha256 W mode s r t = (Ok out, s')" "sched_fit s'"
    using complete_request_step_fit [OF Cons.prems(1,2), of t r mode sha256] Cons.prems(3) rt by auto
  show ?case using Cons.IH [OF st(2) Cons.prems(2)] Cons.prems(3) st(1) rt by (cases out) simp_all
qed simp

lemma release_failed_loop_fit:
  assumes "sched_fit s" and "finishes W"
  shows "sched_fit (snd (release_failed_loop W rs err s))"
  using assms
proof (induction rs arbitrary: s err)
  case (Cons r rs)
  obtain w where w: "finish_request W (worker s) r = (Inr (), w)" using assms(2) by (auto simp: finishes_def)
  have "sched_fit (s\<lparr>cache_page_allocator := release_opt (cache_page_allocator s) (allocated_cache_pages r),
      worker := fail_request W w r\<rparr>)"
    using Cons.prems(1) by (auto simp: sched_fit_def release_inv)
  from Cons.IH [OF this assms(2)] show ?case using w by simp
qed simp

lemma dispatch_batch_fit:
  assumes "sched_fit s" and "batch_fit b" and W: "one_token_each W" "finishes W"
  shows "sched_fit (snd (dispatch_batch sha256 W s b))"
proof -
  obtain x w where E: "execute_batch W (worker s) b = (x, w)" by (cases "execute_batch W (worker s) b")
  have s: "sched_fit (s\<lparr>worker := w\<rparr>)" using assms(1) by simp
  show ?thesis
  proof (cases x)
    case (Inl e)
    have "sched_fit (snd (release_failed_batch_cache_pages W (s\<lparr>worker := w\<rparr>) b))"
      unfolding release_failed_batch_cache_pages_def by (rule release_failed_loop_fit [OF s W(2)])
    then show ?thesis using E Inl by (auto simp: dispatch_batch_def split: outcome.splits prod.splits)
  next
    case (Inr tokens)
    then have "length tokens = length (batch_requests b)" "\<forall>t \<in> set tokens. length (token_ids t) = 1"
      using W(1) E by (auto simp: one_token_each_def batch_size_def)
    moreover from this have "\<forall>(r, t) \<in> set (zip (batch_requests b) tokens). length (token_ids t) = 1 \<and>
        (prefill_fit r \<and> batch_forward_mode b \<noteq> Decode \<or> step_fit r \<and> batch_forward_mode b \<noteq> Prefill)"
      using assms(2) by (auto simp: batch_fit_def dest: set_zip_leftD set_zip_rightD)
    ultimately show ?thesis
      using E Inr complete_loop_fit [OF s W(2)] by (simp add: dispatch_batch_def complete_batch_def)
  qed
qed

lemma dispatch_formed_fit:
  assumes "formed_fit x" and "one_token_each W" and "finishes W"
  shows "sched_fit (snd (dispatch_formed sha256 W x))"
proof -
  obtain res s where x: "x = (res, s)" by (cases x)
  show ?thesis using assms x dispatch_batch_fit by (cases res) (auto simp: formed_fit_def)
qed

section \<open>Every sequence of calls\<close>

lemma remove_queue_fit:
  "remove_request_from_queue queue rid = Some (r, queue') \<Longrightarrow> set queue' \<subseteq> set queue"
  using seqs_remove by blast

lemma abort_request_fit:
  assumes "sched_fit s" and "finishes W"
  shows "sched_fit (snd (abort_request W s rid))"
proof -
  have p: "pending_prefix_cache_inserts s = []" using assms(1) by (simp add: sched_fit_def)
  show ?thesis
  proof (cases "remove_request_from_queue (waiting_queue s) rid")
    case (Some x)
    obtain r queue w where x: "x = (r, queue)" "finish_request W (worker s) r = (Inr (), w)"
      using assms(2) unfolding finishes_def by (metis surj_pair)
    then have "sched_fit (s\<lparr>worker := w, waiting_queue := queue\<rparr>)"
      using assms(1) remove_queue_fit Some by (fastforce simp: sched_fit_def)
    then show ?thesis using Some x by (simp add: abort_request_def)
  next
    case None
    show ?thesis
    proof (cases "remove_request_from_queue (decode_queue s) rid")
      case (Some x)
      obtain r queue w where x: "x = (r, queue)" "finish_request W (worker s) r = (Inr (), w)"
        using assms(2) unfolding finishes_def by (metis surj_pair)
      then have "sched_fit (s\<lparr>worker := w, decode_queue := queue\<rparr>)"
        using assms(1) remove_queue_fit Some by (fastforce simp: sched_fit_def)
      then show ?thesis using None Some x p by (simp add: abort_request_def no_pending_insert)
    qed (use None assms in \<open>simp add: abort_request_def\<close>)
  qed
qed

lemma abort_ids_fit: "sched_fit s \<Longrightarrow> finishes W \<Longrightarrow> sched_fit (snd (abort_ids W ids s))"
proof (induction ids arbitrary: s)
  case (Cons rid ids)
  then show ?case using abort_request_fit [of s W rid] by (auto simp: split_beta)
qed simp

lemma abort_all_fit:
  assumes "sched_fit s" and "finishes W"
  shows "sched_fit (snd (abort_all_requests W s))"
proof -
  let ?A = "abort_ids W (map request_id (waiting_queue s @ decode_queue s)) s"
  have A: "sched_fit (snd ?A)" using assms by (rule abort_ids_fit)
  then have "pending_prefix_cache_inserts (snd ?A) = []" by (simp add: sched_fit_def)
  then have "snd (abort_all_requests W s) = snd ?A" by (cases ?A) (simp add: abort_all_requests_def)
  then show ?thesis using A by simp
qed

lemma poll_transfers_fit: "sched_fit s \<Longrightarrow> sched_fit (snd (poll_transfers sha256 W s))"
  by (auto simp: poll_transfers_def reconcile_pending_prefix_cache_inserts_def sched_fit_def
      split: prod.splits sum.splits)

lemma sched_step_fit:
  assumes "sched_step sha256 W s s'" and s: "sched_fit s" and W: "one_token_each W" "finishes W"
  shows "sched_fit s'"
  using assms(1)
proof cases
  case (enqueue_step r)
  then show ?thesis
    using s by (auto simp: sched_fit_def enqueue_def fresh_request_def wait_fit_def with_data_parallel_rank_def
        with_disaggregated_params_def scheduled_request_new_def)
next
  case (prefill_step n budget res)
  then show ?thesis using dispatch_formed_fit [OF next_prefill_fit [OF s] W]
    by (metis dispatch_prefill_batch_with_token_budget_def snd_conv)
next
  case (decode_step n res)
  then show ?thesis using dispatch_formed_fit [OF next_decode_fit [OF s] W]
    by (metis dispatch_decode_batch_def next_decode_batch_with_worker_ready_check_def snd_conv)
next
  case (ready_step n is_ready res)
  then show ?thesis using dispatch_formed_fit [OF next_decode_fit [OF s] W]
    by (metis dispatch_decode_batch_with_ready_check_def next_decode_batch_with_ready_check_def snd_conv)
next
  case (mixed_step n budget res)
  then show ?thesis using dispatch_formed_fit [OF next_mixed_fit [OF s] W] by (metis dispatch_mixed_batch_def snd_conv)
next
  case (abort_step rid found)
  then show ?thesis using abort_request_fit [OF s W(2), of rid] by simp
next
  case (abort_all_step aborted)
  then show ?thesis using abort_all_fit [OF s W(2)] by simp
next
  case (flush_step flushed)
  then show ?thesis using s by (auto simp: flush_cache_def sched_fit_def reset_inv split: if_splits)
next
  case (poll_step summary)
  then show ?thesis using poll_transfers_fit [OF s, of sha256 W] by simp
qed

lemma sched_reach_fit:
  assumes "sched_reach sha256 W s0 s" and "sched_fit s0" and "one_token_each W" "finishes W"
  shows "sched_fit s"
  using assms by induction (auto intro: sched_step_fit)

lemma initial_fit:
  assumes "with_page_size cap ps = Ok a" and "chunk \<noteq> Some 0"
  shows "sched_fit (initial_scheduler w a mr chunk pub)"
  using assms
  by (auto simp: sched_fit_def initial_scheduler_def with_cache_resources_and_policy_def with_page_size_inv
      chunk_budget_of_def usize_max_def split: option.splits)

section \<open>Properties\<close>

text \<open>Any of the ways in which the scheduler forms a batch.\<close>

definition forms_batch :: "'w worker_executor \<Rightarrow> 'w scheduler \<Rightarrow> schedule_batch \<Rightarrow> bool" where
  "forms_batch W s b \<longleftrightarrow>
     (\<exists>n budget. fst (next_prefill_batch_with_token_budget s n budget) = Ok b) \<or>
     (\<exists>n. fst (next_decode_batch_with_worker_ready_check W s n) = Ok b) \<or>
     (\<exists>n is_ready. fst (next_decode_batch_with_ready_check s n is_ready) = Ok b) \<or>
     (\<exists>n budget. fst (next_mixed_batch W s n budget) = Ok b)"


lemma steady_worker_fit: "one_token_each steady_worker" "finishes steady_worker"
  by (auto simp: one_token_each_def finishes_def steady_worker_def flaky_worker_def batch_size_def)

definition sample_queued :: "unit scheduler" where
  "sample_queued = enqueue (sample_request ''b'' [4, 5]) (enqueue (sample_request ''a'' [1, 2]) sample_start)"

definition sample_batch :: schedule_batch where
  "sample_batch = (case fst (next_prefill_batch_with_token_budget sample_queued 2 8) of Ok b \<Rightarrow> b | _ \<Rightarrow> batch_prefill [])"

lemma sample_batch_formed: "fst (next_prefill_batch_with_token_budget sample_queued 2 8) = Ok sample_batch"
  by code_simp


text \<open>
  With the prefix cache enabled the count goes wrong in one path.  A fully cached prompt of \<open>n\<close> tokens replays its
  last token: \<open>n\<close> slots are attached and \<open>n - 1\<close> tokens count as processed.  When the token budget puts
  the request back, the slots stay; the next attempt takes the ordinary path and allocates one more, so the
  request goes on with \<open>n + 1\<close> slots for \<open>n\<close> tokens and its first decode step is refused by the model.
\<close>

lemma replayed_request_gains_slot:
  assumes "begin_prefill Enabled cache ps r = Ok (True, r')" and "allocated_cache_pages r = []"
    and "1 < length (input_ids r)" and "0 < c" and "alloc_inv a"
    and "prepare_prefill_request_chunk Enabled cache (Some a) (back_to_prefill_waiting r') c = (Ok (), r'', alloc')"
  shows "length (sequence_cache_pages r'') = length (input_ids r'') + 1" and "prefill_end r'' = length (input_ids r'')"
proof -
  let ?q = "back_to_prefill_waiting r'"
  have r': "prompt_tokens_processed r' = length (input_ids r) - 1" "length (sequence_cache_pages r') = length (input_ids r)"
    "allocated_cache_pages r' = []" "input_ids r' = input_ids r" "length (cache_pages (req_prefix_match r')) = length (input_ids r) - 1"
    using assms(1,2) prefill_prefix_match_facts [of Enabled cache ps "input_ids r"]
    by (auto simp: begin_prefill_def Let_def split: if_splits)
  then have q: "prompt_tokens_processed ?q = length (input_ids r) - 1" "length (sequence_cache_pages ?q) = length (input_ids r)"
    "input_ids ?q = input_ids r" "req_prefix_match ?q = req_prefix_match r'"
    by (simp_all add: back_to_prefill_waiting_def clear_forward_cache_allocation_def Let_def)
  have "prepare_prefill_request_chunk Enabled cache (Some a) ?q c = allocate_prefill_chunk (Some a) ?q c"
    using q(1) assms(3) by (simp add: prepare_prefill_request_chunk_def)
  then have call: "allocate_prefill_chunk (Some a) ?q c = (Ok (), r'', alloc')" using assms(6) by simp
  have one: "min (remaining_prompt_tokens ?q) c = 1" using q assms(3,4) by (simp add: remaining_prompt_tokens_def)
  obtain pages a' where p: "allocate_for_sequence a (sequence_cache_pages ?q) 1 = Ok (pages, a')"
    using call one by (auto simp: allocate_prefill_chunk_def Let_def split: outcome.splits)
  have "length pages = 1" by (rule pool.take_length [OF assms(5) p])
  moreover have "sequence_cache_pages r'' = sequence_cache_pages ?q @ pages" "input_ids r'' = input_ids r"
    "current_chunk_len r'' = 1" "prompt_tokens_processed r'' = prompt_tokens_processed ?q" "req_prefix_match r'' = req_prefix_match r'"
    using call one p q by (auto simp: allocate_prefill_chunk_def append_sequence_cache_pages_def Let_def)
  ultimately show "length (sequence_cache_pages r'') = length (input_ids r'') + 1" "prefill_end r'' = length (input_ids r'')"
    using q r' assms(3) by (simp_all add: prefill_end_def prefill_start_def Let_def)
qed

end
