(* ===== verification/Le_Bytes.thy ===== *)
theory Le_Bytes
  imports Block_Hash
begin

text \<open>
  Little-endian encoding of the machine integers (\<open>to_le_bytes\<close> and \<open>from_le_bytes\<close> of \<open>u32\<close> and \<open>u64\<close>)
  with both round trips, shared by the wire formats.
\<close>

unbundle bit_operations_syntax

definition u64_to_le_bytes :: "u64 \<Rightarrow> u8 list" where
  "u64_to_le_bytes w = map (\<lambda>i. ucast (drop_bit (8 * i) w)) [0 ..< 8]"

definition u32_from_le_bytes :: "u8 list \<Rightarrow> u32" where
  "u32_from_le_bytes bs = foldr (\<lambda>b acc. ucast b OR push_bit 8 acc) bs 0"

definition u64_from_le_bytes :: "u8 list \<Rightarrow> u64" where
  "u64_from_le_bytes bs = foldr (\<lambda>b acc. ucast b OR push_bit 8 acc) bs 0"

lemma length_le_bytes [simp]: "length (u32_to_le_bytes w) = 4" "length (u64_to_le_bytes v) = 8"
  by (simp_all add: u32_to_le_bytes_def u64_to_le_bytes_def)

lemma bit_foldr_le:
  fixes bs :: "u8 list"
  assumes "8 * length bs \<le> LENGTH('a)"
  shows "bit (foldr (\<lambda>b acc. ucast b OR push_bit 8 acc) bs (0 :: 'a :: len word)) n \<longleftrightarrow>
           n div 8 < length bs \<and> bit (bs ! (n div 8)) (n mod 8)"
  using assms
proof (induction bs arbitrary: n)
  case (Cons b bs)
  show ?case
  proof (cases "n < 8")
    case True
    then show ?thesis using Cons.prems by (auto simp: bit_simps)
  next
    case False
    have "n div 8 = Suc ((n - 8) div 8)" "n mod 8 = (n - 8) mod 8"
      using False by (simp_all add: le_div_geq le_mod_geq)
    moreover have "\<not> bit b n" using False bit_imp_le_length [of b n] by auto
    ultimately show ?thesis
      using Cons.IH [of "n - 8"] Cons.prems False
      by (auto simp: bit_simps dest: bit_imp_le_length)
  qed
qed simp

lemma u32_le_roundtrip [simp]: "u32_from_le_bytes (u32_to_le_bytes w) = w"
proof (rule bit_word_eqI)
  fix n
  assume "n < LENGTH(32)"
  then have "n div 8 < 4" by simp
  then show "bit (u32_from_le_bytes (u32_to_le_bytes w)) n = bit w n"
    unfolding u32_from_le_bytes_def
    by (subst bit_foldr_le) (simp_all add: u32_to_le_bytes_def bit_simps)
qed

lemma u64_le_roundtrip [simp]: "u64_from_le_bytes (u64_to_le_bytes w) = w"
proof (rule bit_word_eqI)
  fix n
  assume "n < LENGTH(64)"
  then have "n div 8 < 8" by simp
  then show "bit (u64_from_le_bytes (u64_to_le_bytes w)) n = bit w n"
    unfolding u64_from_le_bytes_def
    by (subst bit_foldr_le) (simp_all add: u64_to_le_bytes_def bit_simps)
qed

lemma le_div_mod: "k < 8 \<Longrightarrow> (8 * i + k) div 8 = i \<and> (8 * i + k) mod 8 = (k :: nat)"
  by simp

lemma u32_to_from_le:
  assumes "length bs = 4"
  shows "u32_to_le_bytes (u32_from_le_bytes bs) = bs"
proof (rule nth_equalityI)
  fix i
  assume "i < length (u32_to_le_bytes (u32_from_le_bytes bs))"
  then have i: "i < 4" by simp
  show "u32_to_le_bytes (u32_from_le_bytes bs) ! i = bs ! i"
  proof (rule bit_word_eqI)
    fix k
    assume "k < LENGTH(8)"
    then show "bit (u32_to_le_bytes (u32_from_le_bytes bs) ! i) k = bit (bs ! i) k"
      using i assms le_div_mod [of k i]
      by (simp add: u32_to_le_bytes_def bit_simps) (simp add: u32_from_le_bytes_def bit_foldr_le)
  qed
qed (simp add: assms)

lemma u64_to_from_le:
  assumes "length bs = 8"
  shows "u64_to_le_bytes (u64_from_le_bytes bs) = bs"
proof (rule nth_equalityI)
  fix i
  assume "i < length (u64_to_le_bytes (u64_from_le_bytes bs))"
  then have i: "i < 8" by simp
  show "u64_to_le_bytes (u64_from_le_bytes bs) ! i = bs ! i"
  proof (rule bit_word_eqI)
    fix k
    assume "k < LENGTH(8)"
    then show "bit (u64_to_le_bytes (u64_from_le_bytes bs) ! i) k = bit (bs ! i) k"
      using i assms le_div_mod [of k i]
      by (simp add: u64_to_le_bytes_def bit_simps) (simp add: u64_from_le_bytes_def bit_foldr_le)
  qed
qed (simp add: assms)

lemma unat_of_nat_le: "n < 2 ^ 32 \<Longrightarrow> unat (of_nat n :: u32) = n" "m < 2 ^ 64 \<Longrightarrow> unat (of_nat m :: u64) = m"
  by (simp_all add: unsigned_of_nat take_bit_nat_eq_self)

lemma unat_bounds: "unat (w :: u32) < 2 ^ 32" "unat (v :: u64) < 2 ^ 64"
  using unsigned_less [of w, where ?'a = nat] unsigned_less [of v, where ?'a = nat] by simp_all

end
