(* ===== verification/Transfer_Plan.thy ===== *)
theory Transfer_Plan
  imports Sched_Shape Le_Bytes
begin

text \<open>
  Which KV pages a prefill worker sends to its decode peer: the decode bootstrap registry, the transfer spans with
  their descriptor checksum, and the transfer plan of \<open>crates/sglang-srt/src/transfer/mod.rs\<close>.  A bootstrap
  room is the key of one transfer.  Strings are byte strings, as in the hashed descriptor.
\<close>

unbundle bit_operations_syntax

section \<open>The decode bootstrap registry\<close>

datatype kv_poll = PollFailed | Bootstrapping | WaitingForInput | Transferring | Success

record bootstrap_session =
  bs_request_id :: request_id
  bs_params :: disaggregated_params
  bs_rank :: int
  bs_status :: kv_poll

definition bootstrap_session_new :: "request_id \<Rightarrow> disaggregated_params \<Rightarrow> int \<Rightarrow> bootstrap_session" where
  "bootstrap_session_new rid params rank = \<lparr>bs_request_id = rid, bs_params = params, bs_rank = rank, bs_status = Bootstrapping\<rparr>"

text \<open>The \<open>BTreeMap\<close> of sessions; it is never iterated, so its order does not matter.\<close>

type_synonym bootstrap_registry = "(u64 \<times> bootstrap_session) list"

definition bootstrap_register ::
  "bootstrap_session \<Rightarrow> bootstrap_registry \<Rightarrow> (decode_bootstrap_registry_error, bootstrap_registry) outcome" where
  "bootstrap_register session reg =
     (let room = bootstrap_room (bs_params session)
      in if map_of reg room \<noteq> None then Err (DuplicateBootstrapRoom room) else Ok (AList.update room session reg))"

definition bootstrap_get :: "bootstrap_registry \<Rightarrow> u64 \<Rightarrow> bootstrap_session option" where
  "bootstrap_get reg room = map_of reg room"

definition query_data_parallel_rank :: "bootstrap_registry \<Rightarrow> u64 \<Rightarrow> int option" where
  "query_data_parallel_rank reg room = map_option bs_rank (bootstrap_get reg room)"

definition bootstrap_update_status ::
  "u64 \<Rightarrow> kv_poll \<Rightarrow> bootstrap_registry \<Rightarrow> (decode_bootstrap_registry_error, bootstrap_registry) outcome" where
  "bootstrap_update_status room status reg =
     (case map_of reg room of
        None \<Rightarrow> Err (MissingBootstrapRoom room)
      | Some session \<Rightarrow> Ok (AList.update room (session\<lparr>bs_status := status\<rparr>) reg))"

definition bootstrap_remove :: "u64 \<Rightarrow> bootstrap_registry \<Rightarrow> bootstrap_registry" where
  "bootstrap_remove room reg = AList.delete room reg"

fun show_registry_error :: "decode_bootstrap_registry_error \<Rightarrow> string" where
  "show_registry_error (DuplicateBootstrapRoom room) = ''duplicate decode bootstrap room: '' @ show_usize (unat room)"
| "show_registry_error (MissingBootstrapRoom room) = ''missing decode bootstrap room: '' @ show_usize (unat room)"

fun show_transfer_error :: "transfer_error \<Rightarrow> string" where
  "show_transfer_error (TransferRegistry e) = ''decode bootstrap registry error: '' @ show_registry_error e"
| "show_transfer_error (TransferRuntime e) = ''KV cache transfer runtime error: '' @ e"

section \<open>Transfer spans\<close>

record kv_span =
  ts_request_id :: request_id
  ts_params :: disaggregated_params
  ts_rank :: int
  ts_token_offset :: usize
  ts_token_count :: usize
  ts_cache_pages :: "cache_page_id list"
  ts_page_size :: usize
  ts_page_indices :: "usize list"
  ts_first_token :: "u32 option"
  ts_recurrent_state :: "u8 list option"

definition ts_room :: "kv_span \<Rightarrow> u64" where
  "ts_room span = bootstrap_room (ts_params span)"

definition ts_page_offset :: "kv_span \<Rightarrow> usize" where
  "ts_page_offset span = ts_token_offset span div ts_page_size span"

definition is_noop :: "kv_span \<Rightarrow> bool" where
  "is_noop span \<longleftrightarrow> ts_token_count span = 0"

definition str_bytes :: "string \<Rightarrow> u8 list" where
  "str_bytes s = map of_char s"

definition u16_to_le_bytes :: "16 word \<Rightarrow> u8 list" where
  "u16_to_le_bytes w = map (\<lambda>i. ucast (drop_bit (8 * i) w)) [0 ..< 2]"

definition i32_to_le_bytes :: "int \<Rightarrow> u8 list" where
  "i32_to_le_bytes i = u32_to_le_bytes (word_of_int i)"

definition usize_bytes :: "usize \<Rightarrow> u8 list" where
  "usize_bytes n = u64_to_le_bytes (of_nat n)"

definition len_prefixed_str :: "string \<Rightarrow> u8 list" where
  "len_prefixed_str s = usize_bytes (length s) @ str_bytes s"

definition hex_nibble :: "u8 \<Rightarrow> char" where
  "hex_nibble b = ''0123456789abcdef'' ! unat b"

definition hex_encode :: "u8 list \<Rightarrow> string" where
  "hex_encode bytes = concat (map (\<lambda>b. [hex_nibble (drop_bit 4 b), hex_nibble (b AND 0x0F)]) bytes)"

text \<open>Everything that is fed to the hasher, in order.\<close>

definition descriptor_bytes :: "kv_span \<Rightarrow> u8 list" where
  "descriptor_bytes span =
     str_bytes ''sglang-rs.kv-transfer-span.v2'' @ [0] @
     len_prefixed_str (ts_request_id span) @ len_prefixed_str (bootstrap_host (ts_params span)) @
     u16_to_le_bytes (bootstrap_port (ts_params span)) @ u64_to_le_bytes (bootstrap_room (ts_params span)) @
     i32_to_le_bytes (ts_rank span) @ usize_bytes (ts_token_offset span) @ usize_bytes (ts_token_count span) @
     usize_bytes (ts_page_size span) @
     usize_bytes (length (ts_cache_pages span)) @ concat (map usize_bytes (ts_cache_pages span)) @
     usize_bytes (length (ts_page_indices span)) @ concat (map usize_bytes (ts_page_indices span))"

definition descriptor_checksum :: "(u8 list \<Rightarrow> u8 list) \<Rightarrow> kv_span \<Rightarrow> string" where
  "descriptor_checksum sha256 span = hex_encode (sha256 (descriptor_bytes span))"

section \<open>Planning\<close>

datatype plan_error =
    NonPrefillBatch
  | PlanZeroPageSize
  | CachePageCountMismatch request_id usize usize
  | TrailingCachePages usize usize
  | UnalignedTokenOffset request_id usize usize
  | UnalignedCacheSlot request_id usize usize
  | NonContiguousCacheSlots request_id usize usize

fun show_plan_error :: "plan_error \<Rightarrow> string" where
  "show_plan_error NonPrefillBatch = ''KV transfer plan requires prefill batch''"
| "show_plan_error PlanZeroPageSize = ''KV transfer page size must be non-zero''"
| "show_plan_error (CachePageCountMismatch rid n m) =
     ''request '' @ rid @ '' has '' @ show_usize n @ '' input tokens but '' @ show_usize m @ '' cache pages available''"
| "show_plan_error (TrailingCachePages n m) =
     ''KV transfer plan consumed '' @ show_usize n @ '' cache pages but batch has '' @ show_usize m"
| "show_plan_error (UnalignedTokenOffset rid off ps) =
     ''request '' @ rid @ '' KV delta starts at token '' @ show_usize off @
     '', which is not aligned to page size '' @ show_usize ps"
| "show_plan_error (UnalignedCacheSlot rid slot ps) =
     ''request '' @ rid @ '' KV cache slot '' @ show_usize slot @ '' does not start a page of size '' @ show_usize ps"
| "show_plan_error (NonContiguousCacheSlots rid expected actual) =
     ''request '' @ rid @ '' KV cache page expected slot '' @ show_usize expected @ '' but found '' @ show_usize actual"

fun check_contiguous :: "request_id \<Rightarrow> usize \<Rightarrow> usize list \<Rightarrow> (plan_error, unit) outcome" where
  "check_contiguous rid expected [] = Ok ()"
| "check_contiguous rid expected (actual # slots) =
     (if actual \<noteq> expected then Err (NonContiguousCacheSlots rid expected actual)
      else check_contiguous rid (expected + 1) slots)"

fun page_index_loop :: "request_id \<Rightarrow> usize \<Rightarrow> usize list list \<Rightarrow> (plan_error, usize list) outcome" where
  "page_index_loop rid ps [] = Ok []"
| "page_index_loop rid ps (slots # rest) =
     (let first_slot = hd slots
      in if \<not> is_multiple_of first_slot ps then Err (UnalignedCacheSlot rid first_slot ps)
         else and_then (check_contiguous rid first_slot slots) (\<lambda>_.
              and_then (page_index_loop rid ps rest) (\<lambda>indices. Ok (first_slot div ps # indices))))"

definition transfer_page_indices ::
  "request_id \<Rightarrow> usize \<Rightarrow> cache_page_id list \<Rightarrow> usize \<Rightarrow> (plan_error, usize list) outcome" where
  "transfer_page_indices rid token_offset cache_slots ps =
     (if cache_slots = [] then Ok []
      else if \<not> is_multiple_of token_offset ps then Err (UnalignedTokenOffset rid token_offset ps)
      else page_index_loop rid ps (chunks ps cache_slots))"

text \<open>Indexing of a \<open>Vec\<close>.\<close>

definition vec_get :: "'a list \<Rightarrow> usize \<Rightarrow> ('e, 'a) outcome" where
  "vec_get xs i = (if i < length xs then Ok (xs ! i) else Panic)"

fun plan_loop ::
  "model_worker_batch \<Rightarrow> usize \<Rightarrow> usize list \<Rightarrow> usize \<Rightarrow> kv_span list \<Rightarrow> (plan_error, usize \<times> kv_span list) outcome" where
  "plan_loop wb ps [] cache_page_offset spans = Ok (cache_page_offset, spans)"
| "plan_loop wb ps (i # is) cache_page_offset spans =
     and_then (vec_get (wb_input_token_counts wb) i) (\<lambda>input_token_count.
       let cache_page_end = cache_page_offset + input_token_count
       in if cache_page_end > length (wb_out_cache_pages wb)
          then and_then (vec_get (wb_request_ids wb) i) (\<lambda>rid.
            Err (CachePageCountMismatch rid input_token_count (length (wb_out_cache_pages wb) - cache_page_offset)))
          else
            let pages = sub_slice (wb_out_cache_pages wb) cache_page_offset input_token_count
            in and_then (vec_get (wb_disaggregated_params wb) i) (\<lambda>params.
                 case params of
                   None \<Rightarrow> plan_loop wb ps is cache_page_end spans
                 | Some d \<Rightarrow>
                     and_then (vec_get (wb_request_ids wb) i) (\<lambda>rid.
                     and_then (vec_get (wb_cached_token_counts wb) i) (\<lambda>token_offset.
                     and_then (transfer_page_indices rid token_offset pages ps) (\<lambda>indices.
                     and_then (vec_get (wb_data_parallel_ranks wb) i) (\<lambda>rank.
                       plan_loop wb ps is cache_page_end (spans @
                         [\<lparr>ts_request_id = rid, ts_params = d, ts_rank = rank, ts_token_offset = token_offset,
                           ts_token_count = input_token_count, ts_cache_pages = pages, ts_page_size = ps,
                           ts_page_indices = indices, ts_first_token = None, ts_recurrent_state = None\<rparr>])))))))"

definition from_prefill_worker_batch_with_page_size ::
  "model_worker_batch \<Rightarrow> usize \<Rightarrow> (plan_error, kv_span list) outcome" where
  "from_prefill_worker_batch_with_page_size wb ps =
     (if wb_forward_mode wb \<noteq> Prefill then Err NonPrefillBatch
      else if ps = 0 then Err PlanZeroPageSize
      else and_then (plan_loop wb ps [0 ..< length (wb_request_ids wb)] 0 []) (\<lambda>(consumed, spans).
        if consumed \<noteq> length (wb_out_cache_pages wb)
        then Err (TrailingCachePages consumed (length (wb_out_cache_pages wb)))
        else Ok spans))"

definition from_prefill_worker_batch :: "model_worker_batch \<Rightarrow> (plan_error, kv_span list) outcome" where
  "from_prefill_worker_batch wb = from_prefill_worker_batch_with_page_size wb 1"

text \<open>The sampled first token goes with each span; the position of the request in the batch selects it.\<close>

fun position :: "('a \<Rightarrow> bool) \<Rightarrow> 'a list \<Rightarrow> usize option" where
  "position P [] = None"
| "position P (x # xs) = (if P x then Some 0 else map_option Suc (position P xs))"

fun with_prefill_output ::
  "schedule_batch \<Rightarrow> generated_token list \<Rightarrow> kv_span list \<Rightarrow> (worker_execution_error, kv_span list) outcome" where
  "with_prefill_output batch tokens [] = Ok []"
| "with_prefill_output batch tokens (span # spans) =
     and_then (ok_or (WorkerRuntime ''transfer span has no matching prefill request'')
         (position (\<lambda>r. request_id r = ts_request_id span) (batch_requests batch))) (\<lambda>index.
     and_then (vec_get tokens index) (\<lambda>generated.
       if length (token_ids generated) \<noteq> 1
       then Err (WorkerRuntime ''single-rank PD requires exactly one prefill output token'')
       else and_then (with_prefill_output batch tokens spans) (\<lambda>rest.
         Ok (span\<lparr>ts_first_token := Some (hd (token_ids generated))\<rparr> # rest))))"

section \<open>Pages and slots\<close>

text \<open>The page indices of a plan are the pages the slots fill, in the sense of the allocator.\<close>

lemma check_contiguous_Ok: "check_contiguous rid k xs = Ok () \<longleftrightarrow> xs = [k ..< k + length xs]"
proof (induction xs arbitrary: k)
  case (Cons x xs)
  have e: "[k ..< k + length (x # xs)] = k # [k + 1 ..< k + 1 + length xs]" by (simp add: upt_conv_Cons del: upt_Suc)
  show ?case using Cons.IH [of "k + 1"] unfolding e by (auto simp del: upt_Suc)
qed simp

lemma check_contiguous_not_Panic [simp]: "check_contiguous rid k xs \<noteq> Panic"
  by (induction rid k xs rule: check_contiguous.induct) auto

lemma page_index_loop_not_Panic [simp]: "page_index_loop rid ps cs \<noteq> Panic"
  by (induction cs) (auto simp: Let_def outcome_simps)

lemma transfer_page_indices_not_Panic [simp]: "transfer_page_indices rid off slots ps \<noteq> Panic"
  by (simp add: transfer_page_indices_def)

lemma paged_chunk:
  assumes "0 < ps" and "xs \<noteq> []"
  shows "paged ps P xs \<longleftrightarrow>
    (\<exists>p Q. P = p # Q \<and> take ps xs = [p * ps ..< p * ps + length (take ps xs)] \<and> paged ps Q (drop ps xs))"
proof -
  have d: "div_ceil (length xs) ps = Suc (div_ceil (length (drop ps xs)) ps)"
    using div_ceil_step [OF assms(1), of "length xs"] assms(2) by (simp add: min_def)
  have split: "xs = ys @ zs \<longleftrightarrow> take ps xs = ys \<and> drop ps xs = zs" if "length ys = min (length xs) ps" for ys zs
    using that by (metis append_eq_conv_conj append_take_drop_id length_take)
  show ?thesis
  proof (cases P)
    case Nil
    then show ?thesis using d by (simp add: paged_def)
  next
    case (Cons p Q)
    then show ?thesis
      using d by (simp add: paged_def paged_slots_Cons split min_def)
  qed
qed

lemma page_index_loop_paged:
  assumes "0 < ps"
  shows "page_index_loop rid ps (chunks ps xs) = Ok P \<longleftrightarrow> paged ps P xs"
  using assms
proof (induction ps xs arbitrary: P rule: chunks.induct)
  case (1 n xs)
  show ?case
  proof (cases "xs = []")
    case True
    then show ?thesis by auto
  next
    case False
    have IH: "page_index_loop rid n (chunks n (drop n xs)) = Ok Q \<longleftrightarrow> paged n Q (drop n xs)" for Q
      using 1 False by simp
    have h: "hd (take n xs) = p * n" if "take n xs = [p * n ..< p * n + length (take n xs)]" for p
      using that False "1.prems" by (metis hd_upt length_greater_0_conv less_add_same_cancel1 not_gr_zero take_eq_Nil)
    have c: "chunks n xs = take n xs # chunks n (drop n xs)" using False "1.prems" by (simp add: chunks.simps [of n xs])
    have "page_index_loop rid n (chunks n xs) = Ok P \<longleftrightarrow> (\<exists>Q. n dvd hd (take n xs) \<and>
        take n xs = [hd (take n xs) ..< hd (take n xs) + length (take n xs)] \<and>
        paged n Q (drop n xs) \<and> P = hd (take n xs) div n # Q)"
      unfolding c by (auto simp: Let_def outcome_simps IH check_contiguous_Ok)
    also have "\<dots> \<longleftrightarrow> paged n P xs"
      unfolding paged_chunk [OF "1.prems" False]
      using h "1.prems" by (metis dvd_div_mult_self dvd_triv_right nonzero_mult_div_cancel_right not_gr_zero)
    finally show ?thesis .
  qed
qed

lemma transfer_page_indices_iff:
  assumes "0 < ps"
  shows "transfer_page_indices rid off slots ps = Ok P \<longleftrightarrow> paged ps P slots \<and> (slots \<noteq> [] \<longrightarrow> ps dvd off)"
  using page_index_loop_paged [OF assms, of rid slots P] by (auto simp: transfer_page_indices_def)

section \<open>The plan of a flattened batch\<close>

text \<open>The plan, request by request.\<close>

definition span_of :: "usize \<Rightarrow> scheduled_request \<Rightarrow> disaggregated_params \<Rightarrow> usize list \<Rightarrow> kv_span" where
  "span_of ps r d indices =
     \<lparr>ts_request_id = request_id r, ts_params = d, ts_rank = data_parallel_rank r,
      ts_token_offset = matched_token_count (req_prefix_match r), ts_token_count = length (forward_cache_pages r),
      ts_cache_pages = forward_cache_pages r, ts_page_size = ps, ts_page_indices = indices,
      ts_first_token = None, ts_recurrent_state = None\<rparr>"

fun plan_requests :: "usize \<Rightarrow> scheduled_request list \<Rightarrow> (plan_error, kv_span list) outcome" where
  "plan_requests ps [] = Ok []"
| "plan_requests ps (r # rs) =
     (case disagg_params r of
        None \<Rightarrow> plan_requests ps rs
      | Some d \<Rightarrow>
          and_then (transfer_page_indices (request_id r) (matched_token_count (req_prefix_match r)) (forward_cache_pages r) ps)
            (\<lambda>indices. and_then (plan_requests ps rs) (\<lambda>spans. Ok (span_of ps r d indices # spans))))"

lemma plan_requests_not_Panic [simp]: "plan_requests ps rs \<noteq> Panic"
  by (induction rs) (auto simp: outcome_simps split: option.splits)

lemma and_then_assoc: "and_then (and_then m f) g = and_then m (\<lambda>x. and_then (f x) g)"
  by (cases m) simp_all

lemma plan_loop_requests:
  assumes "flat_ok mode wb (pre @ suf)" and "\<forall>r \<in> set (pre @ suf). length (forward_cache_pages r) = length (step_tokens mode r)"
  shows "plan_loop wb ps [length pre ..< length (pre @ suf)] (length (concat (map forward_cache_pages pre))) spans =
    and_then (plan_requests ps suf) (\<lambda>ss. Ok (length (wb_out_cache_pages wb), spans @ ss))"
  using assms
proof (induction suf arbitrary: pre spans)
  case Nil
  then show ?case by (simp add: flat_ok_def)
next
  case (Cons r suf)
  let ?i = "length pre" and ?off = "length (concat (map forward_cache_pages pre))"
  define rest where "rest = [length (pre @ [r]) ..< length ((pre @ [r]) @ suf)]"
  have range: "[?i ..< length (pre @ r # suf)] = ?i # rest"
    by (simp add: rest_def upt_conv_Cons del: upt_Suc)
  have n: "length (step_tokens mode r) = length (forward_cache_pages r)" using Cons.prems(2) by simp
  have out: "wb_out_cache_pages wb = concat (map forward_cache_pages pre) @ forward_cache_pages r @ concat (map forward_cache_pages suf)"
    using Cons.prems(1) by (simp add: flat_ok_def)
  have get: "vec_get (wb_input_token_counts wb) ?i = Ok (length (forward_cache_pages r))"
    "vec_get (wb_disaggregated_params wb) ?i = Ok (disagg_params r)" "vec_get (wb_request_ids wb) ?i = Ok (request_id r)"
    "vec_get (wb_cached_token_counts wb) ?i = Ok (matched_token_count (req_prefix_match r))"
    "vec_get (wb_data_parallel_ranks wb) ?i = Ok (data_parallel_rank r)"
    using Cons.prems(1) n by (simp_all add: flat_ok_def vec_get_def nth_append)
  have sl: "sub_slice (wb_out_cache_pages wb) ?off (length (forward_cache_pages r)) = forward_cache_pages r"
    by (simp add: out sub_slice_def)
  have IH: "plan_loop wb ps rest (?off + length (forward_cache_pages r)) spans' =
      and_then (plan_requests ps suf) (\<lambda>ss. Ok (length (wb_out_cache_pages wb), spans' @ ss))" for spans'
    unfolding rest_def using Cons.IH [of "pre @ [r]" spans'] Cons.prems by (simp del: upt_Suc)
  have le: "\<not> length (wb_out_cache_pages wb) < ?off + length (forward_cache_pages r)" by (simp add: out)
  show ?case
    unfolding range
    by (simp add: get sl IH le Let_def and_then_assoc span_of_def split: option.splits)
qed

lemma plan_of_flat:
  assumes "flat_ok Prefill wb rs" and "\<forall>r \<in> set rs. length (forward_cache_pages r) = length (step_tokens Prefill r)" and "0 < ps"
  shows "from_prefill_worker_batch_with_page_size wb ps = plan_requests ps rs"
proof -
  have "plan_loop wb ps [0 ..< length rs] 0 [] = and_then (plan_requests ps rs) (\<lambda>ss. Ok (length (wb_out_cache_pages wb), ss))"
    using plan_loop_requests [of Prefill wb "[]" rs ps "[]"] assms(1,2) by simp
  moreover have "wb_forward_mode wb = Prefill" using assms(1) unfolding flat_ok_def by blast
  ultimately show ?thesis
    using flat_ok_lengths(1) [OF assms(1)] assms(3)
    by (cases "plan_requests ps rs") (simp_all add: from_prefill_worker_batch_with_page_size_def)
qed

text \<open>A span that carries exactly the slots of one request.\<close>

definition carries :: "usize \<Rightarrow> scheduled_request \<Rightarrow> kv_span \<Rightarrow> bool" where
  "carries ps r span \<longleftrightarrow> (\<exists>d indices. disagg_params r = Some d \<and> span = span_of ps r d indices \<and>
     paged ps indices (forward_cache_pages r))"

text \<open>A request whose slots can be sent page by page.\<close>

definition sendable :: "usize \<Rightarrow> scheduled_request \<Rightarrow> bool" where
  "sendable ps r \<longleftrightarrow> forward_cache_pages r = [] \<or>
     ps dvd matched_token_count (req_prefix_match r) \<and> (\<exists>P. paged ps P (forward_cache_pages r))"

abbreviation disaggregated :: "scheduled_request list \<Rightarrow> scheduled_request list" where
  "disaggregated rs \<equiv> filter (\<lambda>r. disagg_params r \<noteq> None) rs"

lemma plan_requests_spec:
  assumes "0 < ps"
  shows "case plan_requests ps rs of
      Ok spans \<Rightarrow> list_all2 (carries ps) (disaggregated rs) spans \<and> (\<forall>r \<in> set (disaggregated rs). sendable ps r)
    | Err e \<Rightarrow> \<exists>r \<in> set (disaggregated rs). \<not> sendable ps r
    | Panic \<Rightarrow> False"
proof (induction rs)
  case (Cons r rs)
  show ?case
  proof (cases "disagg_params r")
    case None
    then show ?thesis using Cons.IH by (auto split: outcome.splits)
  next
    case (Some d)
    let ?T = "transfer_page_indices (request_id r) (matched_token_count (req_prefix_match r)) (forward_cache_pages r) ps"
    note iff = transfer_page_indices_iff [OF assms, of "request_id r" "matched_token_count (req_prefix_match r)" "forward_cache_pages r"]
    show ?thesis
    proof (cases ?T)
      case (Ok indices)
      then have "carries ps r (span_of ps r d indices)" "sendable ps r"
        using Some iff [of indices] by (auto simp: carries_def sendable_def)
      then show ?thesis using Cons.IH Some Ok by (auto split: outcome.splits)
    next
      case (Err e)
      then have "\<not> sendable ps r" using iff by (auto simp: sendable_def)
      then show ?thesis using Some Err by auto
    qed simp
  qed
qed simp

lemma list_all2_right: "list_all2 P xs ys \<Longrightarrow> y \<in> set ys \<Longrightarrow> \<exists>x \<in> set xs. P x y"
  by (induction rule: list_all2_induct) auto

text \<open>The batches of the scheduler, with the prefix cache disabled.\<close>

lemma prefill_batch_requests:
  assumes "batch_fit b" and "batch_forward_mode b = Prefill" and "r \<in> set (batch_requests b)"
  shows "prefill_fit r" "length (forward_cache_pages r) = length (step_tokens Prefill r)"
  using assms batch_fit_steps [OF assms(1)] by (auto simp: batch_fit_def step_fits_def)

lemma first_chunk_sendable:
  assumes "prefill_fit r" and "own a (seqs rs + M) L" and "r \<in> set rs" and "prompt_tokens_processed r = 0"
  shows "sendable (page_size a) r"
proof -
  have "sequence_cache_pages r \<in># seqs rs + M" using assms(3) by (auto simp: seqs_def)
  then have "paged (page_size a) (seq_pages a (sequence_cache_pages r)) (sequence_cache_pages r)"
    using assms(2) by (auto simp: own_def)
  moreover have "sequence_cache_pages r = forward_cache_pages r"
    using assms(1,4) by (auto simp: prefill_fit_def suffix_def)
  ultimately show ?thesis using assms(1) by (auto simp: sendable_def prefill_fit_def)
qed

section \<open>The descriptor identifies the span\<close>

lemma append_fixed: "length u = length v \<Longrightarrow> u @ x = v @ y \<longleftrightarrow> u = v \<and> x = y"
  by simp

lemma length_bytes [simp]:
  "length (u16_to_le_bytes p) = 2" "length (i32_to_le_bytes i) = 4" "length (usize_bytes n) = 8" "length (str_bytes s) = length s"
  by (simp_all add: u16_to_le_bytes_def i32_to_le_bytes_def usize_bytes_def str_bytes_def)

lemma usize_bytes_inj: "n < 2 ^ 64 \<Longrightarrow> m < 2 ^ 64 \<Longrightarrow> usize_bytes n = usize_bytes m \<longleftrightarrow> n = m"
  unfolding usize_bytes_def by (metis u64_le_roundtrip unat_of_nat_le(2))

lemma u64_bytes_inj: "u64_to_le_bytes v = u64_to_le_bytes w \<longleftrightarrow> v = w"
  by (metis u64_le_roundtrip)

lemma u16_bytes_inj: "u16_to_le_bytes p = u16_to_le_bytes q \<longleftrightarrow> p = q"
proof
  assume eq: "u16_to_le_bytes p = u16_to_le_bytes q"
  show "p = q"
  proof (rule bit_word_eqI)
    fix n
    assume "n < LENGTH(16)"
    then have n: "n div 8 < 2" "n mod 8 < 8" "8 * (n div 8) + n mod 8 = n" by simp_all
    have "bit (u16_to_le_bytes p ! (n div 8)) (n mod 8) = bit p n" for p
      using n by (simp add: u16_to_le_bytes_def bit_simps)
    then show "bit p n = bit q n" using eq by metis
  qed
qed simp

lemma i32_bytes_inj:
  assumes "- (2 ^ 31) \<le> i" "i < 2 ^ 31" "- (2 ^ 31) \<le> j" "j < 2 ^ 31"
  shows "i32_to_le_bytes i = i32_to_le_bytes j \<longleftrightarrow> i = j"
proof
  assume "i32_to_le_bytes i = i32_to_le_bytes j"
  then have "(word_of_int i :: u32) = word_of_int j" unfolding i32_to_le_bytes_def by (metis u32_le_roundtrip)
  then have "sint (word_of_int i :: u32) = sint (word_of_int j :: u32)" by simp
  then show "i = j" using assms by (simp add: signed_of_int signed_take_bit_int_eq_self)
qed simp

lemma str_bytes_inj: "str_bytes s = str_bytes t \<longleftrightarrow> s = t"
proof -
  have "(of_char c :: u8) = of_char d \<longleftrightarrow> c = d" for c d
  proof -
    have "unat (of_char e :: u8) = of_char e" for e :: char
    proof -
      have "(of_char e :: u8) = of_nat (of_char e)" using of_nat_of_char [of e, where ?'a = u8] by simp
      then show ?thesis
        using nat_of_char_less_256 [of e] by (simp add: unsigned_of_nat take_bit_nat_eq_self del: of_nat_of_char)
    qed
    then show ?thesis by (metis of_char_eq_iff)
  qed
  then show ?thesis unfolding str_bytes_def by (metis inj_def inj_map_eq_map)
qed

lemma len_prefixed_append:
  assumes "length s < 2 ^ 64" "length t < 2 ^ 64"
  shows "len_prefixed_str s @ x = len_prefixed_str t @ y \<longleftrightarrow> s = t \<and> x = y"
  using usize_bytes_inj [OF assms] str_bytes_inj [of s t]
  by (cases "length s = length t") (auto simp: len_prefixed_str_def append_fixed)

lemma concat_usize_bytes_inj:
  assumes "length xs = length ys" and "\<forall>x \<in> set xs \<union> set ys. x < 2 ^ 64"
  shows "concat (map usize_bytes xs) @ u = concat (map usize_bytes ys) @ v \<longleftrightarrow> xs = ys \<and> u = v"
  using assms
proof (induction xs ys rule: list_induct2)
  case (Cons x xs y ys)
  then show ?case by (simp add: append_fixed usize_bytes_inj)
qed simp

lemma counted_usizes_append:
  assumes "length xs < 2 ^ 64" "length ys < 2 ^ 64" and "\<forall>x \<in> set xs \<union> set ys. x < 2 ^ 64"
  shows "usize_bytes (length xs) @ concat (map usize_bytes xs) @ u = usize_bytes (length ys) @ concat (map usize_bytes ys) @ v
    \<longleftrightarrow> xs = ys \<and> u = v"
  using concat_usize_bytes_inj [OF _ assms(3)] usize_bytes_inj [OF assms(1,2)]
  by (cases "length xs = length ys") (auto simp: append_fixed)

text \<open>The bounds of the machine types.\<close>

definition span_bounded :: "kv_span \<Rightarrow> bool" where
  "span_bounded s \<longleftrightarrow> length (ts_request_id s) < 2 ^ 64 \<and> length (bootstrap_host (ts_params s)) < 2 ^ 64 \<and>
     - (2 ^ 31) \<le> ts_rank s \<and> ts_rank s < 2 ^ 31 \<and> ts_token_offset s < 2 ^ 64 \<and> ts_token_count s < 2 ^ 64 \<and>
     ts_page_size s < 2 ^ 64 \<and> length (ts_cache_pages s) < 2 ^ 64 \<and> length (ts_page_indices s) < 2 ^ 64 \<and>
     (\<forall>x \<in> set (ts_cache_pages s) \<union> set (ts_page_indices s). x < 2 ^ 64)"

text \<open>The part of a span that the descriptor covers.\<close>

definition descriptor :: "kv_span \<Rightarrow> kv_span" where
  "descriptor s = s\<lparr>ts_first_token := None, ts_recurrent_state := None\<rparr>"

lemma descriptor_bytes_inj:
  assumes "span_bounded s" and "span_bounded t" and "descriptor_bytes s = descriptor_bytes t"
  shows "descriptor s = descriptor t"
proof -
  have P: "str_bytes h @ [0] @ x = str_bytes h @ [0] @ y \<longleftrightarrow> x = y" for h x y by simp
  have R: "i32_to_le_bytes (ts_rank s) = i32_to_le_bytes (ts_rank t) \<longleftrightarrow> ts_rank s = ts_rank t"
    by (rule i32_bytes_inj) (use assms(1,2) in \<open>simp_all add: span_bounded_def\<close>)
  have C: "usize_bytes (length (ts_cache_pages s)) @ concat (map usize_bytes (ts_cache_pages s)) @ u =
      usize_bytes (length (ts_cache_pages t)) @ concat (map usize_bytes (ts_cache_pages t)) @ v \<longleftrightarrow>
      ts_cache_pages s = ts_cache_pages t \<and> u = v" for u v
    by (rule counted_usizes_append) (use assms(1,2) in \<open>auto simp: span_bounded_def\<close>)
  have I: "usize_bytes (length (ts_page_indices s)) @ concat (map usize_bytes (ts_page_indices s)) =
      usize_bytes (length (ts_page_indices t)) @ concat (map usize_bytes (ts_page_indices t)) \<longleftrightarrow>
      ts_page_indices s = ts_page_indices t"
    using counted_usizes_append [of "ts_page_indices s" "ts_page_indices t" "[]" "[]"] assms(1,2)
    by (auto simp: span_bounded_def)
  have "ts_request_id s = ts_request_id t \<and> bootstrap_host (ts_params s) = bootstrap_host (ts_params t) \<and>
      bootstrap_port (ts_params s) = bootstrap_port (ts_params t) \<and> bootstrap_room (ts_params s) = bootstrap_room (ts_params t) \<and>
      ts_rank s = ts_rank t \<and> ts_token_offset s = ts_token_offset t \<and> ts_token_count s = ts_token_count t \<and>
      ts_page_size s = ts_page_size t \<and> ts_cache_pages s = ts_cache_pages t \<and> ts_page_indices s = ts_page_indices t"
    using assms(3) assms(1,2) unfolding descriptor_bytes_def P
    by (simp add: append_fixed len_prefixed_append usize_bytes_inj u64_bytes_inj u16_bytes_inj R C I span_bounded_def)
  then show ?thesis by (cases s; cases t) (auto simp: descriptor_def)
qed

lemma hex_nibble_inj: "a < 16 \<Longrightarrow> b < 16 \<Longrightarrow> hex_nibble a = hex_nibble b \<longleftrightarrow> a = b"
proof -
  assume "a < 16" "b < 16"
  then have "unat a < 16" "unat b < 16" by (simp_all add: word_less_nat_alt)
  moreover have "distinct ''0123456789abcdef''" "length ''0123456789abcdef'' = 16" by simp_all
  ultimately show ?thesis unfolding hex_nibble_def by (metis nth_eq_iff_index_eq word_unat_eq_iff)
qed

lemma hex_encode_inj: "hex_encode xs = hex_encode ys \<Longrightarrow> xs = ys"
proof (induction xs arbitrary: ys)
  case Nil
  then show ?case by (cases ys) (simp_all add: hex_encode_def)
next
  case (Cons x xs)
  then obtain y ys' where ys: "ys = y # ys'" by (cases ys) (simp_all add: hex_encode_def)
  have m: "z AND 0x0F = take_bit 4 z" for z :: u8 by (simp add: take_bit_eq_mask mask_eq_exp_minus_1)
  have lt: "drop_bit 4 z < 16" "take_bit 4 z < 16" for z :: u8
    using unsigned_less [of z, where ?'a = nat]
    by (simp_all add: word_less_nat_alt drop_bit_eq_div take_bit_eq_mod unat_div unat_mod)
  have "drop_bit 4 x = drop_bit 4 y" "take_bit 4 x = take_bit 4 y" "hex_encode xs = hex_encode ys'"
    using Cons.prems ys lt by (auto simp: hex_encode_def hex_nibble_inj m)
  then show ?case using Cons.IH ys bits_ident [of 4 x] bits_ident [of 4 y] by metis
qed

section \<open>Properties\<close>


definition pd_request :: "string \<Rightarrow> u32 list \<Rightarrow> u64 \<Rightarrow> scheduled_request" where
  "pd_request rid ids room =
     with_disaggregated_params (Some \<lparr>bootstrap_host = ''h'', bootstrap_port = 1, bootstrap_room = room\<rparr>)
       (scheduled_request_new rid ids (sampling_new 4))"

lemma pd_request_fresh: "fresh_request (pd_request rid ids room)"
  unfolding fresh_request_def pd_request_def
  by (intro exI [of _ rid] exI [of _ ids] exI [of _ "sampling_new 4"] exI [of _ "Some \<lparr>bootstrap_host = ''h'', bootstrap_port = 1, bootstrap_room = room\<rparr>"] exI [of _ 0])
    (simp add: with_data_parallel_rank_def with_disaggregated_params_def scheduled_request_new_def)

definition pd_queued :: "unit scheduler" where
  "pd_queued = enqueue (pd_request ''a'' [1, 2, 3] 7) sample_start"

definition pd_batch :: schedule_batch where
  "pd_batch = (case fst (next_prefill_batch_with_token_budget pd_queued 1 8) of Ok b \<Rightarrow> b | _ \<Rightarrow> batch_prefill [])"

lemma pd_batch_formed:
  "next_prefill_batch_with_token_budget pd_queued 1 8 = (Ok pd_batch, snd (next_prefill_batch_with_token_budget pd_queued 1 8))"
proof -
  have "fst (next_prefill_batch_with_token_budget pd_queued 1 8) = Ok pd_batch" by code_simp
  then show ?thesis by (metis prod.collapse)
qed

lemma pd_reach: "sched_reach (\<lambda>xs. xs) steady_worker sample_start pd_queued"
  unfolding pd_queued_def by (rule sched_next [OF sched_start enqueue_step [OF pd_request_fresh]])


text \<open>
  Two spans with the same descriptor checksum have the same request, room, rank, offsets and pages, unless SHA-256
  collides: the hashed bytes determine every field that the descriptor covers.
\<close>

theorem descriptor_checksum_identifies_span:
  assumes "span_bounded s" and "span_bounded t" and "descriptor_checksum sha256 s = descriptor_checksum sha256 t"
  shows "descriptor s = descriptor t \<or> (\<exists>x y. x \<noteq> y \<and> sha256 x = sha256 y)"
proof -
  have "sha256 (descriptor_bytes s) = sha256 (descriptor_bytes t)"
    using assms(3) hex_encode_inj by (auto simp: descriptor_checksum_def)
  then show ?thesis using descriptor_bytes_inj [OF assms(1,2)] by blast
qed

theorem descriptor_checksum_identifies_span_witness:
  defines "s \<equiv> span_of 2 (pd_request ''a'' [1, 2] 7) \<lparr>bootstrap_host = ''h'', bootstrap_port = 1, bootstrap_room = 7\<rparr> [0]"
  shows "descriptor (s\<lparr>ts_first_token := Some 5\<rparr>) = descriptor s \<or> (\<exists>x y :: u8 list. x \<noteq> y \<and> x = y)"
proof -
  have "span_bounded s" "span_bounded (s\<lparr>ts_first_token := Some 5\<rparr>)"
    by (simp_all add: s_def span_of_def pd_request_def span_bounded_def with_disaggregated_params_def scheduled_request_new_def)
  moreover have "descriptor_checksum (\<lambda>x. x) (s\<lparr>ts_first_token := Some 5\<rparr>) = descriptor_checksum (\<lambda>x. x) s"
    by (simp add: descriptor_checksum_def descriptor_bytes_def)
  ultimately show ?thesis using descriptor_checksum_identifies_span by blast
qed

end
