(* ===== verification/Transfer_Requests.thy ===== *)
theory Transfer_Requests
  imports Transfer_Plan
begin

text \<open>
  From a transfer span to the writes of the transport: \<open>build_kv_transfer_requests\<close> and
  \<open>build_remote_kv_transfer_requests\<close> of \<open>crates/sglang-srt/src/transfer/mod.rs\<close>, with the byte semantics of a
  list of writes.  Addresses and offsets are 64 bit numbers with the checked arithmetic of the code.
\<close>

section \<open>Layouts and requests\<close>

datatype kv_opcode = OpRead | OpWrite

datatype kv_status_code = StWaiting | StPending | StInvalid | StCanceled | StCompleted | StTimeout | StFailed

text \<open>Decimal output of a signed integer.\<close>

definition show_int :: "int \<Rightarrow> string" where
  "show_int i = (if i < 0 then ''-'' @ show_usize (nat (- i)) else show_usize (nat i))"

definition status_code_of :: "int \<Rightarrow> (transfer_error, kv_status_code) outcome" where
  "status_code_of v =
     (if v = 0 then Ok StWaiting else if v = 1 then Ok StPending else if v = 2 then Ok StInvalid
      else if v = 3 then Ok StCanceled else if v = 4 then Ok StCompleted else if v = 5 then Ok StTimeout
      else if v = 6 then Ok StFailed
      else Err (TransferRuntime (''unknown KV transfer status: '' @ show_int v)))"

record kv_transfer_request =
  rq_opcode :: kv_opcode
  rq_source :: usize
  rq_target_id :: int
  rq_target_offset :: usize
  rq_length :: usize

record kv_transfer_layout =
  source_base_addr :: usize
  page_size_bytes :: usize
  target_base_offset :: usize

record kv_remote_layout =
  dst_kv_ptrs :: "usize list"
  dst_kv_indices :: "int list"
  dst_kv_item_len :: usize

datatype request_build_error =
    ReqZeroPageSize
  | ZeroRemoteKvItemSize
  | MissingRemoteKvPointers
  | SpanPageCountMismatch usize usize
  | RemoteKvIndexCountMismatch usize usize
  | RemoteKvItemLayoutMismatch usize usize
  | NegativeRemoteKvIndex int
  | AddressOverflow
  | OffsetOverflow

fun show_request_build_error :: "request_build_error \<Rightarrow> string" where
  "show_request_build_error ReqZeroPageSize = ''KV page size must be non-zero''"
| "show_request_build_error ZeroRemoteKvItemSize = ''remote KV item size must be non-zero''"
| "show_request_build_error MissingRemoteKvPointers = ''remote KV pointers must not be empty''"
| "show_request_build_error (SpanPageCountMismatch n m) =
     ''KV transfer span requires '' @ show_usize n @ '' physical pages but has '' @ show_usize m @ '' source page indices''"
| "show_request_build_error (RemoteKvIndexCountMismatch n m) =
     ''KV transfer span has '' @ show_usize n @ '' source pages but '' @ show_usize m @ '' remote KV indices''"
| "show_request_build_error (RemoteKvItemLayoutMismatch n m) =
     ''remote KV item layout requires exactly '' @ show_usize n @ '' bytes but has '' @ show_usize m @ '' bytes''"
| "show_request_build_error (NegativeRemoteKvIndex i) = ''remote KV index must be non-negative: '' @ show_int i"
| "show_request_build_error AddressOverflow = ''source address overflow''"
| "show_request_build_error OffsetOverflow = ''target offset overflow''"

section \<open>One write per page\<close>

definition page_request ::
  "kv_span \<Rightarrow> kv_transfer_layout \<Rightarrow> int \<Rightarrow> usize \<Rightarrow> usize \<Rightarrow> (request_build_error, kv_transfer_request) outcome" where
  "page_request span layout target_id i source_page_index =
     and_then (ok_or AddressOverflow (checked_mul source_page_index (page_size_bytes layout))) (\<lambda>source_offset.
     and_then (ok_or AddressOverflow (checked_add (source_base_addr layout) source_offset)) (\<lambda>source_addr.
     and_then (ok_or OffsetOverflow (checked_add (ts_page_offset span) i)) (\<lambda>target_page_index.
     and_then (ok_or OffsetOverflow (checked_mul target_page_index (page_size_bytes layout))) (\<lambda>page_bytes.
     and_then (ok_or OffsetOverflow (checked_add (target_base_offset layout) page_bytes)) (\<lambda>target_offset.
       Ok \<lparr>rq_opcode = OpWrite, rq_source = source_addr, rq_target_id = target_id,
           rq_target_offset = target_offset, rq_length = page_size_bytes layout\<rparr>)))))"

fun page_request_loop ::
  "kv_span \<Rightarrow> kv_transfer_layout \<Rightarrow> int \<Rightarrow> usize \<Rightarrow> usize list \<Rightarrow> (request_build_error, kv_transfer_request list) outcome" where
  "page_request_loop span layout target_id i [] = Ok []"
| "page_request_loop span layout target_id i (p # ps) =
     and_then (page_request span layout target_id i p) (\<lambda>r.
     and_then (page_request_loop span layout target_id (i + 1) ps) (\<lambda>rs. Ok (r # rs)))"

text \<open>\<open>div_ceil\<close> and \<open>page_offset\<close> divide by the page size of the span.\<close>

definition build_kv_transfer_requests ::
  "kv_span \<Rightarrow> kv_transfer_layout \<Rightarrow> int \<Rightarrow> (request_build_error, kv_transfer_request list) outcome" where
  "build_kv_transfer_requests span layout target_id =
     (if page_size_bytes layout = 0 then Err ReqZeroPageSize
      else if ts_page_size span = 0 then Panic
      else
        let expected_page_count = div_ceil (ts_token_count span) (ts_page_size span)
        in if expected_page_count \<noteq> length (ts_page_indices span)
           then Err (SpanPageCountMismatch expected_page_count (length (ts_page_indices span)))
           else page_request_loop span layout target_id 0 (ts_page_indices span))"

section \<open>One write per page and remote buffer\<close>

fun item_request_loop ::
  "usize \<Rightarrow> usize \<Rightarrow> int \<Rightarrow> int \<Rightarrow> usize \<Rightarrow> usize list \<Rightarrow> (request_build_error, kv_transfer_request list) outcome" where
  "item_request_loop source_page_addr item_len target_id dst_kv_index j [] = Ok []"
| "item_request_loop source_page_addr item_len target_id dst_kv_index j (dst_kv_ptr # ptrs) =
     and_then (ok_or AddressOverflow (checked_mul j item_len)) (\<lambda>item_offset.
     and_then (ok_or AddressOverflow (checked_add source_page_addr item_offset)) (\<lambda>source_addr.
     and_then (ok_or OffsetOverflow (checked_mul (nat dst_kv_index) item_len)) (\<lambda>dst_offset.
     and_then (ok_or OffsetOverflow (checked_add dst_kv_ptr dst_offset)) (\<lambda>target_offset.
     and_then (item_request_loop source_page_addr item_len target_id dst_kv_index (j + 1) ptrs) (\<lambda>rs.
       Ok (\<lparr>rq_opcode = OpWrite, rq_source = source_addr, rq_target_id = target_id,
            rq_target_offset = target_offset, rq_length = item_len\<rparr> # rs))))))"

fun remote_request_loop ::
  "kv_transfer_layout \<Rightarrow> int \<Rightarrow> kv_remote_layout \<Rightarrow> (usize \<times> int) list \<Rightarrow> (request_build_error, kv_transfer_request list) outcome" where
  "remote_request_loop layout target_id remote [] = Ok []"
| "remote_request_loop layout target_id remote ((source_page_index, dst_kv_index) # rest) =
     (if dst_kv_index < 0 then Err (NegativeRemoteKvIndex dst_kv_index)
      else and_then (ok_or AddressOverflow (checked_mul source_page_index (page_size_bytes layout))) (\<lambda>source_offset.
           and_then (ok_or AddressOverflow (checked_add (source_base_addr layout) source_offset)) (\<lambda>source_page_addr.
           and_then (item_request_loop source_page_addr (dst_kv_item_len remote) target_id dst_kv_index 0 (dst_kv_ptrs remote)) (\<lambda>items.
           and_then (remote_request_loop layout target_id remote rest) (\<lambda>rs. Ok (items @ rs))))))"

definition build_remote_kv_transfer_requests ::
  "kv_span \<Rightarrow> kv_transfer_layout \<Rightarrow> int \<Rightarrow> kv_remote_layout \<Rightarrow> (request_build_error, kv_transfer_request list) outcome" where
  "build_remote_kv_transfer_requests span layout target_id remote =
     (if page_size_bytes layout = 0 then Err ReqZeroPageSize
      else if dst_kv_item_len remote = 0 then Err ZeroRemoteKvItemSize
      else if dst_kv_ptrs remote = [] then Err MissingRemoteKvPointers
      else if ts_page_size span = 0 then Panic
      else
        let expected_page_count = div_ceil (ts_token_count span) (ts_page_size span)
        in if expected_page_count \<noteq> length (ts_page_indices span)
           then Err (SpanPageCountMismatch expected_page_count (length (ts_page_indices span)))
           else if length (ts_page_indices span) \<noteq> length (dst_kv_indices remote)
           then Err (RemoteKvIndexCountMismatch (length (ts_page_indices span)) (length (dst_kv_indices remote)))
           else and_then (ok_or AddressOverflow (checked_mul (dst_kv_item_len remote) (length (dst_kv_ptrs remote)))) (\<lambda>split_page_size.
             if split_page_size \<noteq> page_size_bytes layout
             then Err (RemoteKvItemLayoutMismatch (page_size_bytes layout) split_page_size)
             else remote_request_loop layout target_id remote (zip (ts_page_indices span) (dst_kv_indices remote))))"

section \<open>What a list of writes does\<close>

type_synonym memory = "usize \<Rightarrow> u8"

definition run_request :: "memory \<Rightarrow> kv_transfer_request \<Rightarrow> memory \<Rightarrow> memory" where
  "run_request src q dst = (\<lambda>x. if rq_target_offset q \<le> x \<and> x < rq_target_offset q + rq_length q
     then src (rq_source q + (x - rq_target_offset q)) else dst x)"

definition run_requests :: "memory \<Rightarrow> kv_transfer_request list \<Rightarrow> memory \<Rightarrow> memory" where
  "run_requests src qs dst = fold (run_request src) qs dst"

definition target_range :: "kv_transfer_request \<Rightarrow> usize set" where
  "target_range q = {rq_target_offset q ..< rq_target_offset q + rq_length q}"

definition disjoint_targets :: "kv_transfer_request list \<Rightarrow> bool" where
  "disjoint_targets qs \<longleftrightarrow> sorted_wrt (\<lambda>q q'. target_range q \<inter> target_range q' = {}) qs"

lemma run_requests_outside: "(\<forall>q \<in> set qs. x \<notin> target_range q) \<Longrightarrow> run_requests src qs dst x = dst x"
  by (induction qs arbitrary: dst) (auto simp: run_requests_def run_request_def target_range_def)

lemma run_requests_at:
  assumes "disjoint_targets qs" and "q \<in> set qs" and "k < rq_length q"
  shows "run_requests src qs dst (rq_target_offset q + k) = src (rq_source q + k)"
  using assms
proof (induction qs arbitrary: dst)
  case (Cons q0 qs)
  have x: "rq_target_offset q + k \<in> target_range q" using Cons.prems(3) by (simp add: target_range_def)
  show ?case
  proof (cases "q \<in> set qs")
    case True
    then show ?thesis using Cons by (simp add: run_requests_def disjoint_targets_def)
  next
    case False
    then have q: "q = q0" using Cons.prems(2) by simp
    have "\<forall>q' \<in> set qs. rq_target_offset q + k \<notin> target_range q'"
      using Cons.prems(1) x q by (auto simp: disjoint_targets_def)
    from run_requests_outside [OF this, of src "run_request src q0 dst"] show ?thesis
      using q Cons.prems(3) by (simp add: run_requests_def run_request_def)
  qed
qed simp

section \<open>Pages arrive where the layout says\<close>

definition page_write :: "kv_span \<Rightarrow> kv_transfer_layout \<Rightarrow> int \<Rightarrow> usize \<Rightarrow> usize \<Rightarrow> kv_transfer_request" where
  "page_write span layout target_id i p =
     \<lparr>rq_opcode = OpWrite, rq_source = source_base_addr layout + p * page_size_bytes layout, rq_target_id = target_id,
      rq_target_offset = target_base_offset layout + (ts_page_offset span + i) * page_size_bytes layout,
      rq_length = page_size_bytes layout\<rparr>"

lemma page_request_cases:
  assumes "0 < page_size_bytes layout"
  shows "case page_request span layout target_id i p of
      Ok q \<Rightarrow> q = page_write span layout target_id i p
    | Err e \<Rightarrow> e = AddressOverflow \<and> 2 ^ 64 \<le> source_base_addr layout + p * page_size_bytes layout \<or>
        e = OffsetOverflow \<and> 2 ^ 64 \<le> target_base_offset layout + (ts_page_offset span + i) * page_size_bytes layout
    | Panic \<Rightarrow> False"
proof -
  have "2 ^ 64 \<le> n \<Longrightarrow> 2 ^ 64 \<le> m + n * page_size_bytes layout" for n m :: nat
  proof -
    assume "2 ^ 64 \<le> n"
    moreover have "n * 1 \<le> n * page_size_bytes layout" using assms by (intro mult_le_mono2) simp
    ultimately show ?thesis by linarith
  qed
  then show ?thesis
    by (auto simp: page_request_def page_write_def checked_mul_def checked_add_def intro: trans_le_add2)
qed

lemma page_request_loop_cases:
  assumes "0 < page_size_bytes layout"
  shows "case page_request_loop span layout target_id i ps of
      Ok qs \<Rightarrow> qs = map (\<lambda>(k, p). page_write span layout target_id k p) (enumerate i ps)
    | Err e \<Rightarrow> e = AddressOverflow \<and> (\<exists>p \<in> set ps. 2 ^ 64 \<le> source_base_addr layout + p * page_size_bytes layout) \<or>
        e = OffsetOverflow \<and> (\<exists>k < i + length ps. 2 ^ 64 \<le> target_base_offset layout + (ts_page_offset span + k) * page_size_bytes layout)
    | Panic \<Rightarrow> False"
proof (induction ps arbitrary: i)
  case (Cons p ps)
  show ?case
    using page_request_cases [OF assms, of span target_id i p] Cons.IH [of "i + 1"]
    by (auto split: outcome.splits)
qed simp

lemma page_writes_disjoint:
  "disjoint_targets (map (\<lambda>(k, p). page_write span layout target_id k p) (enumerate i ps))"
proof -
  have d: "target_range (page_write span layout t k p) \<inter> target_range (page_write span layout t k' p') = {}" if "k < k'" for t k p k' p'
  proof -
    have "(ts_page_offset span + k + 1) * page_size_bytes layout \<le> (ts_page_offset span + k') * page_size_bytes layout"
      using that by (intro mult_le_mono1) simp
    then show ?thesis by (auto simp: target_range_def page_write_def algebra_simps)
  qed
  have "sorted_wrt (\<lambda>x y. fst x < fst y) (enumerate i ps)"
    by (simp add: sorted_wrt_iff_nth_less nth_enumerate_eq)
  then show ?thesis
    unfolding disjoint_targets_def sorted_wrt_map
    by (rule sorted_wrt_mono_rel [rotated]) (simp add: d case_prod_beta)
qed

text \<open>The bytes of page \<open>i\<close> of a span after the writes.\<close>

lemma page_writes_copy:
  assumes "i < length ps" and "k < page_size_bytes layout"
  shows "run_requests src (map (\<lambda>(k, p). page_write span layout target_id k p) (enumerate 0 ps)) dst
       (target_base_offset layout + (ts_page_offset span + i) * page_size_bytes layout + k) =
     src (source_base_addr layout + ps ! i * page_size_bytes layout + k)"
proof -
  let ?q = "page_write span layout target_id i (ps ! i)"
  have "(i, ps ! i) \<in> set (enumerate 0 ps)" using assms(1) by (simp add: in_set_enumerate_eq)
  then have q: "?q \<in> set (map (\<lambda>(k, p). page_write span layout target_id k p) (enumerate 0 ps))" by force
  show ?thesis
    using run_requests_at [OF page_writes_disjoint q, of k src dst] assms(2) by (simp add: page_write_def)
qed

section \<open>Items arrive in the remote buffers\<close>

definition item_write :: "kv_transfer_layout \<Rightarrow> int \<Rightarrow> kv_remote_layout \<Rightarrow> usize \<Rightarrow> int \<Rightarrow> usize \<Rightarrow> usize \<Rightarrow> kv_transfer_request" where
  "item_write layout target_id remote p d j ptr =
     \<lparr>rq_opcode = OpWrite, rq_source = source_base_addr layout + p * page_size_bytes layout + j * dst_kv_item_len remote,
      rq_target_id = target_id, rq_target_offset = ptr + nat d * dst_kv_item_len remote, rq_length = dst_kv_item_len remote\<rparr>"

definition item_writes :: "kv_transfer_layout \<Rightarrow> int \<Rightarrow> kv_remote_layout \<Rightarrow> usize \<Rightarrow> int \<Rightarrow> kv_transfer_request list" where
  "item_writes layout target_id remote p d =
     map (\<lambda>(j, ptr). item_write layout target_id remote p d j ptr) (enumerate 0 (dst_kv_ptrs remote))"

lemma item_request_loop_Ok:
  "item_request_loop (source_base_addr layout + p * page_size_bytes layout) (dst_kv_item_len remote) target_id d j ptrs = Ok qs \<Longrightarrow>
   qs = map (\<lambda>(j, ptr). item_write layout target_id remote p d j ptr) (enumerate j ptrs)"
  by (induction ptrs arbitrary: j qs) (auto simp: outcome_simps item_write_def)

lemma remote_request_loop_Ok:
  "remote_request_loop layout target_id remote pds = Ok qs \<Longrightarrow>
   qs = concat (map (\<lambda>(p, d). item_writes layout target_id remote p d) pds) \<and> (\<forall>(p, d) \<in> set pds. 0 \<le> d)"
proof (induction pds arbitrary: qs)
  case (Cons pd pds)
  obtain p d where pd: "pd = (p, d)" by (cases pd)
  obtain items rs where *: "0 \<le> d" "remote_request_loop layout target_id remote pds = Ok rs" "qs = items @ rs"
      "item_request_loop (source_base_addr layout + p * page_size_bytes layout) (dst_kv_item_len remote) target_id d 0 (dst_kv_ptrs remote) = Ok items"
    using Cons.prems pd by (auto simp: outcome_simps split: if_splits)
  then show ?case using Cons.IH [OF *(2)] item_request_loop_Ok [OF *(4)] pd by (simp add: item_writes_def)
qed simp

text \<open>
  The buffers of the decode worker do not overlap: different pages have different indices, and the items of different
  buffers are apart.
\<close>

definition item_range :: "kv_remote_layout \<Rightarrow> usize \<Rightarrow> int \<Rightarrow> usize set" where
  "item_range remote ptr d = {ptr + nat d * dst_kv_item_len remote ..< ptr + nat d * dst_kv_item_len remote + dst_kv_item_len remote}"

definition buffers_apart :: "kv_remote_layout \<Rightarrow> bool" where
  "buffers_apart remote \<longleftrightarrow> distinct (dst_kv_indices remote) \<and>
     (\<forall>i < length (dst_kv_ptrs remote). \<forall>j < length (dst_kv_ptrs remote). \<forall>d \<in> set (dst_kv_indices remote). \<forall>d' \<in> set (dst_kv_indices remote).
        i \<noteq> j \<longrightarrow> item_range remote (dst_kv_ptrs remote ! i) d \<inter> item_range remote (dst_kv_ptrs remote ! j) d' = {})"

lemma item_range_apart:
  assumes "d \<noteq> d'" and "0 \<le> d" and "0 \<le> d'"
  shows "item_range remote ptr d \<inter> item_range remote ptr d' = {}"
proof -
  have "(nat d + 1) * dst_kv_item_len remote \<le> nat d' * dst_kv_item_len remote \<or>
      (nat d' + 1) * dst_kv_item_len remote \<le> nat d * dst_kv_item_len remote"
    using assms mult_le_mono1 [of "nat d + 1" "nat d'" "dst_kv_item_len remote"] mult_le_mono1 [of "nat d' + 1" "nat d" "dst_kv_item_len remote"]
    by linarith
  then show ?thesis by (auto simp: item_range_def)
qed

lemma item_writes_disjoint:
  assumes "buffers_apart remote" and "set ds \<subseteq> set (dst_kv_indices remote)" and "distinct ds" and "\<forall>d \<in> set ds. 0 \<le> d"
    and "length ps = length ds"
  shows "disjoint_targets (concat (map (\<lambda>(p, d). item_writes layout target_id remote p d) (zip ps ds)))"
  using assms(5,2-4)
proof (induction ps ds rule: list_induct2)
  case (Cons p ps d ds)
  have rng: "target_range (item_write layout target_id remote p d j ptr) = item_range remote ptr d" for p d j ptr
    by (simp add: target_range_def item_write_def item_range_def)
  have "sorted_wrt (\<lambda>x y. item_range remote (snd x) d \<inter> item_range remote (snd y) d = {}) (enumerate 0 (dst_kv_ptrs remote))"
    using assms(1) Cons.prems(1) by (auto simp: sorted_wrt_iff_nth_less nth_enumerate_eq buffers_apart_def)
  then have own: "disjoint_targets (item_writes layout target_id remote p d)"
    by (simp add: disjoint_targets_def item_writes_def sorted_wrt_map rng case_prod_beta)
  have other: "target_range q \<inter> target_range q' = {}"
    if qq: "q \<in> set (item_writes layout target_id remote p d)" "q' \<in> set (item_writes layout target_id remote p' d')" "d' \<in> set ds" for q q' p' d'
  proof -
    obtain j where j: "j < length (dst_kv_ptrs remote)" "target_range q = item_range remote (dst_kv_ptrs remote ! j) d"
      using qq(1) by (auto simp: item_writes_def rng in_set_enumerate_eq)
    obtain j' where j': "j' < length (dst_kv_ptrs remote)" "target_range q' = item_range remote (dst_kv_ptrs remote ! j') d'"
      using qq(2) by (auto simp: item_writes_def rng in_set_enumerate_eq)
    have "d \<noteq> d'" "0 \<le> d" "0 \<le> d'" using qq(3) Cons.prems by auto
    moreover have "item_range remote (dst_kv_ptrs remote ! j) d \<inter> item_range remote (dst_kv_ptrs remote ! j') d' = {}" if "j \<noteq> j'"
    proof -
      have "d \<in> set (dst_kv_indices remote)" "d' \<in> set (dst_kv_indices remote)" using qq(3) Cons.prems(1) by auto
      then show ?thesis using assms(1) j(1) j'(1) that unfolding buffers_apart_def by blast
    qed
    ultimately show ?thesis using j(2) j'(2) item_range_apart by (cases "j = j'") simp_all
  qed
  have "\<forall>q \<in> set (item_writes layout target_id remote p d). \<forall>q' \<in> set (concat (map (\<lambda>(p, d). item_writes layout target_id remote p d) (zip ps ds))).
      target_range q \<inter> target_range q' = {}"
  proof (intro ballI)
    fix q q'
    assume q: "q \<in> set (item_writes layout target_id remote p d)"
      and "q' \<in> set (concat (map (\<lambda>(p, d). item_writes layout target_id remote p d) (zip ps ds)))"
    then obtain p' d' where "(p', d') \<in> set (zip ps ds)" and q': "q' \<in> set (item_writes layout target_id remote p' d')" by auto
    then have "d' \<in> set ds" by (auto dest: set_zip_rightD)
    from other [OF q q' this] show "target_range q \<inter> target_range q' = {}" .
  qed
  then show ?case using Cons own by (simp add: disjoint_targets_def sorted_wrt_append)
qed (simp add: disjoint_targets_def)

section \<open>No panic\<close>

lemma item_request_loop_not_Panic [simp]: "item_request_loop a n target_id d j ptrs \<noteq> Panic"
  by (induction ptrs arbitrary: j) (auto simp: outcome_simps)

lemma remote_request_loop_not_Panic [simp]: "remote_request_loop layout target_id remote pds \<noteq> Panic"
  by (induction pds rule: remote_request_loop.induct) (auto simp: outcome_simps)

lemma build_requests_not_Panic:
  assumes "0 < ts_page_size span"
  shows "build_kv_transfer_requests span layout target_id \<noteq> Panic" "build_remote_kv_transfer_requests span layout target_id remote \<noteq> Panic"
  using assms page_request_loop_cases [of layout span target_id 0 "ts_page_indices span"]
  by (auto simp: build_kv_transfer_requests_def build_remote_kv_transfer_requests_def Let_def outcome_simps split: if_splits outcome.splits)

section \<open>Properties\<close>

text \<open>
  (C25) The writes of a span: they never panic for a span with a positive page size; an error means a wrong page count, a
  zero page size or an address beyond 64 bits.  When they are built, running them copies each page of
  the span, byte by byte, from its place in the source cache to the next page behind the span's page offset at the
  target, and changes nothing else there.
\<close>

theorem transfer_requests_copy_pages:
  assumes "0 < ts_page_size span"
  shows "case build_kv_transfer_requests span layout target_id of
      Ok qs \<Rightarrow>
        (\<forall>i < length (ts_page_indices span). \<forall>k < page_size_bytes layout.
           run_requests src qs dst (target_base_offset layout + (ts_page_offset span + i) * page_size_bytes layout + k) =
             src (source_base_addr layout + ts_page_indices span ! i * page_size_bytes layout + k)) \<and>
        (\<forall>x. x < target_base_offset layout + ts_page_offset span * page_size_bytes layout \<or>
             target_base_offset layout + (ts_page_offset span + length (ts_page_indices span)) * page_size_bytes layout \<le> x \<longrightarrow>
           run_requests src qs dst x = dst x)
    | Err e \<Rightarrow> page_size_bytes layout = 0 \<or> div_ceil (ts_token_count span) (ts_page_size span) \<noteq> length (ts_page_indices span) \<or>
        (\<exists>p \<in> set (ts_page_indices span). 2 ^ 64 \<le> source_base_addr layout + p * page_size_bytes layout) \<or>
        (\<exists>i < length (ts_page_indices span). 2 ^ 64 \<le> target_base_offset layout + (ts_page_offset span + i) * page_size_bytes layout)
    | Panic \<Rightarrow> False"
proof (cases "0 < page_size_bytes layout \<and> div_ceil (ts_token_count span) (ts_page_size span) = length (ts_page_indices span)")
  case False
  then show ?thesis using assms by (auto simp: build_kv_transfer_requests_def Let_def)
next
  case True
  let ?ps = "ts_page_indices span" and ?b = "page_size_bytes layout"
  have call: "build_kv_transfer_requests span layout target_id = page_request_loop span layout target_id 0 ?ps"
    using True assms by (simp add: build_kv_transfer_requests_def)
  note L = page_request_loop_cases [of layout span target_id 0 ?ps]
  show ?thesis
  proof (cases "page_request_loop span layout target_id 0 ?ps")
    case (Ok qs)
    then have qs: "qs = map (\<lambda>(k, p). page_write span layout target_id k p) (enumerate 0 ?ps)" using L True by simp
    have out: "run_requests src qs dst x = dst x"
      if x: "x < target_base_offset layout + ts_page_offset span * ?b \<or> target_base_offset layout + (ts_page_offset span + length ?ps) * ?b \<le> x" for x
    proof (rule run_requests_outside, rule ballI)
      fix q
      assume "q \<in> set qs"
      then obtain k where k: "k < length ?ps" "rq_target_offset q = target_base_offset layout + (ts_page_offset span + k) * ?b" "rq_length q = ?b"
        by (auto simp: qs in_set_enumerate_eq page_write_def)
      have "ts_page_offset span * ?b \<le> (ts_page_offset span + k) * ?b" "(ts_page_offset span + k + 1) * ?b \<le> (ts_page_offset span + length ?ps) * ?b"
        using k(1) by (intro mult_le_mono1; simp)+
      then show "x \<notin> target_range q"
        using x unfolding target_range_def atLeastLessThan_iff k(2,3) add_mult_distrib nat_mult_1 by linarith
    qed
    then show ?thesis using call Ok qs page_writes_copy by simp
  qed (use L True call in auto)
qed

definition sample_span :: kv_span where
  "sample_span = (span_of 2 (pd_request ''a'' [1, 2, 3] 7) \<lparr>bootstrap_host = ''h'', bootstrap_port = 1, bootstrap_room = 7\<rparr> [4, 2])
     \<lparr>ts_token_count := 3, ts_cache_pages := [8, 9, 4]\<rparr>"

definition sample_layout :: kv_transfer_layout where
  "sample_layout = \<lparr>source_base_addr = 100, page_size_bytes = 10, target_base_offset = 1000\<rparr>"

lemma sample_span_fields:
  "ts_page_size sample_span = 2" "ts_page_indices sample_span = [4, 2]" "ts_page_offset sample_span = 0" "ts_token_count sample_span = 3"
  by (simp_all add: sample_span_def span_of_def ts_page_offset_def pd_request_def with_disaggregated_params_def scheduled_request_new_def)

lemma sample_layout_fields:
  "source_base_addr sample_layout = 100" "page_size_bytes sample_layout = 10" "target_base_offset sample_layout = 1000"
  by (simp_all add: sample_layout_def)

lemma sample_requests: "build_kv_transfer_requests sample_span sample_layout 1 =
    Ok [page_write sample_span sample_layout 1 0 4, page_write sample_span sample_layout 1 1 2]"
  by (simp add: build_kv_transfer_requests_def sample_span_fields div_ceil_def page_request_def page_write_def sample_layout_def
      checked_mul_def checked_add_def)

theorem transfer_requests_copy_pages_witness:
  "run_requests (\<lambda>x. of_nat x) [page_write sample_span sample_layout 1 0 4, page_write sample_span sample_layout 1 1 2] (\<lambda>x. 0) 1013 = 123"
proof -
  have "0 < ts_page_size sample_span" by (simp add: sample_span_fields)
  note T = transfer_requests_copy_pages [OF this, where layout = sample_layout and target_id = 1 and src = "\<lambda>x. of_nat x" and dst = "\<lambda>x. 0",
      unfolded sample_requests outcome.case, THEN conjunct1, rule_format, of 1 3]
  then show ?thesis by (simp add: sample_layout_fields sample_span_fields)
qed

text \<open>
  The writes into the buffers that the decode worker registered: when they are built and the buffers do not overlap,
  running them puts item \<open>j\<close> of page \<open>i\<close> of the span into buffer \<open>j\<close> at the index the decode worker
  chose for that page.
\<close>

theorem remote_requests_fill_buffers:
  assumes "build_remote_kv_transfer_requests span layout target_id remote = Ok qs" and "buffers_apart remote"
    and "i < length (ts_page_indices span)" and "j < length (dst_kv_ptrs remote)" and "k < dst_kv_item_len remote"
  shows "run_requests src qs dst (dst_kv_ptrs remote ! j + nat (dst_kv_indices remote ! i) * dst_kv_item_len remote + k) =
      src (source_base_addr layout + ts_page_indices span ! i * page_size_bytes layout + j * dst_kv_item_len remote + k) \<and>
    j * dst_kv_item_len remote + k < page_size_bytes layout"
proof

  have len: "length (ts_page_indices span) = length (dst_kv_indices remote)"
    and item: "dst_kv_item_len remote * length (dst_kv_ptrs remote) = page_size_bytes layout"
    and loop: "remote_request_loop layout target_id remote (zip (ts_page_indices span) (dst_kv_indices remote)) = Ok qs"
    using assms(1) by (auto simp: build_remote_kv_transfer_requests_def Let_def outcome_simps split: if_splits)
  let ?p = "ts_page_indices span ! i" and ?d = "dst_kv_indices remote ! i"
  let ?q = "item_write layout target_id remote ?p ?d j (dst_kv_ptrs remote ! j)"
  have qs: "qs = concat (map (\<lambda>(p, d). item_writes layout target_id remote p d) (zip (ts_page_indices span) (dst_kv_indices remote)))"
    and pos: "\<forall>(p, d) \<in> set (zip (ts_page_indices span) (dst_kv_indices remote)). 0 \<le> d"
    using remote_request_loop_Ok [OF loop] by auto
  have "\<forall>d \<in> set (dst_kv_indices remote). 0 \<le> d" using pos len by (fastforce simp: set_zip in_set_conv_nth)
  then have dis: "disjoint_targets qs"
    unfolding qs using item_writes_disjoint [OF assms(2) subset_refl] assms(2) len by (simp add: buffers_apart_def)
  have "(?p, ?d) \<in> set (zip (ts_page_indices span) (dst_kv_indices remote))" using assms(3) len by (auto simp: set_zip)
  moreover have "?q \<in> set (item_writes layout target_id remote ?p ?d)"
    using assms(4) by (force simp: item_writes_def in_set_enumerate_eq)
  ultimately have q: "?q \<in> set qs" by (auto simp: qs)
  show "run_requests src qs dst (dst_kv_ptrs remote ! j + nat ?d * dst_kv_item_len remote + k) =
      src (source_base_addr layout + ?p * page_size_bytes layout + j * dst_kv_item_len remote + k)"
    using run_requests_at [OF dis q, of k src dst] assms(5) by (simp add: item_write_def)
  have "(j + 1) * dst_kv_item_len remote \<le> length (dst_kv_ptrs remote) * dst_kv_item_len remote"
    using assms(4) by (intro mult_le_mono1) simp
  then show "j * dst_kv_item_len remote + k < page_size_bytes layout" using assms(5) item by (simp add: mult.commute)
qed

definition sample_remote :: kv_remote_layout where
  "sample_remote = \<lparr>dst_kv_ptrs = [500, 800], dst_kv_indices = [3, 0], dst_kv_item_len = 5\<rparr>"

lemma sample_remote_apart: "buffers_apart sample_remote"
  by (auto simp: buffers_apart_def sample_remote_def item_range_def less_Suc_eq numeral_2_eq_2)

lemma sample_remote_requests: "build_remote_kv_transfer_requests sample_span sample_layout 1 sample_remote =
    Ok (item_writes sample_layout 1 sample_remote 4 3 @ item_writes sample_layout 1 sample_remote 2 0)"
  by (simp add: build_remote_kv_transfer_requests_def sample_span_fields div_ceil_def sample_layout_def sample_remote_def
      checked_mul_def checked_add_def item_writes_def item_write_def)

theorem remote_requests_fill_buffers_witness:
  "run_requests (\<lambda>x. of_nat x) (item_writes sample_layout 1 sample_remote 4 3 @ item_writes sample_layout 1 sample_remote 2 0) (\<lambda>x. 0) 803 = 128"
  using remote_requests_fill_buffers [OF sample_remote_requests sample_remote_apart, of 1 1 3 "\<lambda>x. of_nat x" "\<lambda>x. 0"]
  by (simp add: sample_span_fields sample_layout_fields sample_remote_def)

end
