(* ===== verification/Ordered_Map.thy ===== *)
theory Ordered_Map
  imports Sgl_Prelude "HOL-Library.List_Lexorder" "HOL-Library.Char_ord"
begin

text \<open>
  The \<open>BTreeMap\<close> of the standard library: an association list that is kept sorted by key, so that iteration is list
  traversal.  Lookup is \<open>map_of\<close>, removal is \<open>AList.delete\<close>; insertion keeps the order.  Strings are
  ordered by their characters from left to right, as \<open>String\<close> is.
\<close>

section \<open>Insertion\<close>

fun btree_insert :: "'k::linorder \<Rightarrow> 'v \<Rightarrow> ('k \<times> 'v) list \<Rightarrow> ('k \<times> 'v) list" where
  "btree_insert k v [] = [(k, v)]"
| "btree_insert k v ((k', v') # m) =
     (if k < k' then (k, v) # (k', v') # m else if k = k' then (k, v) # m else (k', v') # btree_insert k v m)"

definition btree_ok :: "('k::linorder \<times> 'v) list \<Rightarrow> bool" where
  "btree_ok m \<longleftrightarrow> sorted_wrt (<) (map fst m)"

definition btree_of :: "('k::linorder \<times> 'v) list \<Rightarrow> ('k \<times> 'v) list" where
  "btree_of kvs = fold (\<lambda>(k, v). btree_insert k v) kvs []"

named_theorems btree_simps

lemma btree_ok_Nil [btree_simps, simp]: "btree_ok []"
  by (simp add: btree_ok_def)

lemma btree_ok_distinct: "btree_ok m \<Longrightarrow> distinct (map fst m)"
  by (simp add: btree_ok_def strict_sorted_iff)

lemma keys_btree_insert [btree_simps, simp]: "fst ` set (btree_insert k v m) = insert k (fst ` set m)"
  by (induction k v m rule: btree_insert.induct) (simp_all add: insert_commute)

lemma btree_ok_insert [btree_simps, simp]:
  assumes "btree_ok m"
  shows "btree_ok (btree_insert k v m)"
  using assms
proof (induction m)
  case (Cons kv m)
  have "btree_ok (btree_insert k v m)" using Cons by (simp add: btree_ok_def)
  moreover have "\<forall>x \<in> fst ` set (btree_insert k v m). x = k \<or> fst kv < x"
    using Cons.prems unfolding keys_btree_insert by (auto simp: btree_ok_def)
  ultimately show ?case using Cons.prems by (cases kv) (fastforce simp: btree_ok_def)
qed (simp add: btree_ok_def)

lemma map_of_btree_insert [btree_simps, simp]:
  assumes "btree_ok m"
  shows "map_of (btree_insert k v m) = (map_of m)(k \<mapsto> v)"
  using assms
proof (induction m)
  case (Cons kv m)
  then have "map_of (btree_insert k v m) = (map_of m)(k \<mapsto> v)" by (auto simp: btree_ok_def fun_upd_def)
  then show ?case by (cases kv) (auto simp: fun_upd_twist)
qed simp

lemma btree_ok_delete [btree_simps, simp]: "btree_ok m \<Longrightarrow> btree_ok (AList.delete k m)"
  by (induction m) (auto simp: btree_ok_def AList.delete_eq)

lemma btree_ok_of [btree_simps, simp]: "btree_ok (btree_of kvs)"
proof -
  have "btree_ok m \<Longrightarrow> btree_ok (fold (\<lambda>(k, v). btree_insert k v) kvs m)" for m
    by (induction kvs arbitrary: m) auto
  then show ?thesis by (simp add: btree_of_def)
qed

end
