(* ===== verification/Transfer_Executor.thy ===== *)
theory Transfer_Executor
  imports Transfer_Requests Ordered_Map
begin

text \<open>
  The executor that submits, polls and cancels KV transfers, with the lease on the registered memory:
  \<open>KvCacheTransferExecutor\<close>, \<open>RegisteredKvCacheMemory\<close> and the target resolvers of
  \<open>crates/sglang-srt/src/transfer/mod.rs\<close>.

  The transport below the executor (the trait objects that submit, read the status, free a batch, register memory and
  open a segment) is a record of functions on the state \<open>'w\<close> of the outside world.  Nothing is assumed about
  it.  Waiting loops are partial functions into \<open>option\<close>: \<open>None\<close> is a loop that never ends.
\<close>

section \<open>Results with a state\<close>

definition and_with :: "('e, 'a) outcome \<times> 's \<Rightarrow> ('a \<Rightarrow> 's \<Rightarrow> ('e, 'b) outcome \<times> 's) \<Rightarrow> ('e, 'b) outcome \<times> 's" where
  "and_with p f = (case p of (Ok a, s) \<Rightarrow> f a s | (Err e, s) \<Rightarrow> (Err e, s) | (Panic, s) \<Rightarrow> (Panic, s))"

lemma and_with_simps [simp]:
  "and_with (Ok a, s) f = f a s" "and_with (Err e, s) f = (Err e, s)" "and_with (Panic, s) f = (Panic, s)"
  by (simp_all add: and_with_def)

lemma and_with_Ok [outcome_simps]: "and_with p f = (Ok b, t) \<longleftrightarrow> (\<exists>a s. p = (Ok a, s) \<and> f a s = (Ok b, t))"
  by (cases p; cases "fst p") auto

text \<open>\<open>map_err\<close> on a result with a state, for the sum type of the interfaces.\<close>

definition lift_sum :: "('e \<Rightarrow> 'f) \<Rightarrow> ('e + 'a) \<times> 's \<Rightarrow> ('f, 'a) outcome \<times> 's" where
  "lift_sum f p = (case p of (Inl e, s) \<Rightarrow> (Err (f e), s) | (Inr a, s) \<Rightarrow> (Ok a, s))"

lemma lift_sum_simps [simp]: "lift_sum f (Inl e, s) = (Err (f e), s)" "lift_sum f (Inr a, s) = (Ok a, s)"
  by (simp_all add: lift_sum_def)

section \<open>Memory, transport and registrar\<close>

text \<open>
  \<open>TransferableKvCacheMemory\<close> and \<open>KvCacheMemoryLocation\<close> belong to the package \<open>nexus_transfer\<close>; the records
  hold what their accessors return: the regions with base address and length, the page size and the location.  A location
  without a label carries its debug text.
\<close>

datatype memory_location =
    CpuMemory usize | CudaMemory usize | RocmMemory usize | MusaMemory usize | NpuMemory usize
  | MetalMemory string | XpuMemory string | HpuMemory string

record transferable_memory =
  tm_regions :: "(usize \<times> usize) list"
  tm_page_size_bytes :: usize
  tm_location :: memory_location

datatype kv_transport_error =
    TransportInternal string
  | ConnectionFailed string
  | UnsupportedMemoryLocation string
  | RegisterMemoryFailed string
  | UnregisterMemoryFailed string
  | OpenSegmentFailed string
  | SubmitTransferFailed string
  | StatusQueryFailed string
  | FreeBatchFailed string

fun show_kv_transport_error :: "kv_transport_error \<Rightarrow> string" where
  "show_kv_transport_error (TransportInternal msg) = ''KV transport internal error: '' @ msg"
| "show_kv_transport_error (ConnectionFailed msg) = ''KV transport connection failed: '' @ msg"
| "show_kv_transport_error (UnsupportedMemoryLocation loc) = ''unsupported KV memory location: '' @ loc"
| "show_kv_transport_error (RegisterMemoryFailed msg) = ''KV memory register failed: '' @ msg"
| "show_kv_transport_error (UnregisterMemoryFailed msg) = ''KV memory unregister failed: '' @ msg"
| "show_kv_transport_error (OpenSegmentFailed msg) = ''KV open segment failed: '' @ msg"
| "show_kv_transport_error (SubmitTransferFailed msg) = ''KV transfer submit failed: '' @ msg"
| "show_kv_transport_error (StatusQueryFailed msg) = ''KV status query failed: '' @ msg"
| "show_kv_transport_error (FreeBatchFailed msg) = ''KV free batch failed: '' @ msg"

definition runtime_error :: "kv_transport_error \<Rightarrow> transfer_error" where
  "runtime_error e = TransferRuntime (show_kv_transport_error e)"

fun kv_memory_location_label :: "memory_location \<Rightarrow> kv_transport_error + string" where
  "kv_memory_location_label (CpuMemory n) = Inr (''cpu:'' @ show_usize n)"
| "kv_memory_location_label (CudaMemory n) = Inr (''cuda:'' @ show_usize n)"
| "kv_memory_location_label (RocmMemory n) = Inr (''hip:'' @ show_usize n)"
| "kv_memory_location_label (MusaMemory n) = Inr (''musa:'' @ show_usize n)"
| "kv_memory_location_label (NpuMemory n) = Inr (''npu:'' @ show_usize n)"
| "kv_memory_location_label (MetalMemory loc) = Inl (UnsupportedMemoryLocation loc)"
| "kv_memory_location_label (XpuMemory loc) = Inl (UnsupportedMemoryLocation loc)"
| "kv_memory_location_label (HpuMemory loc) = Inl (UnsupportedMemoryLocation loc)"

definition kv_prefill_layout :: "transferable_memory \<Rightarrow> usize \<Rightarrow> ('e, kv_transfer_layout) outcome" where
  "kv_prefill_layout m base =
     and_then (vec_get (tm_regions m) 0) (\<lambda>region.
       Ok \<lparr>source_base_addr = fst region, page_size_bytes = tm_page_size_bytes m, target_base_offset = base\<rparr>)"

definition kv_decode_remote_layout :: "transferable_memory \<Rightarrow> int list \<Rightarrow> ('e, kv_remote_layout) outcome" where
  "kv_decode_remote_layout m dst_indices =
     (if tm_regions m = [] then Panic
      else Ok \<lparr>dst_kv_ptrs = map fst (tm_regions m), dst_kv_indices = dst_indices,
              dst_kv_item_len = tm_page_size_bytes m div length (tm_regions m)\<rparr>)"

record 'w transport =
  submit_transfer :: "kv_transfer_request list \<Rightarrow> 'w \<Rightarrow> (kv_transport_error + u64) \<times> 'w"
  transfer_status :: "u64 \<Rightarrow> usize \<Rightarrow> 'w \<Rightarrow> (kv_transport_error + int) \<times> 'w"
  free_batch :: "u64 \<Rightarrow> 'w \<Rightarrow> (kv_transport_error + unit) \<times> 'w"

record 'w memory_registrar =
  register_memory_batch :: "(usize \<times> usize) list \<Rightarrow> string \<Rightarrow> 'w \<Rightarrow> (kv_transport_error + unit) \<times> 'w"
  unregister_memory_batch :: "usize list \<Rightarrow> 'w \<Rightarrow> (kv_transport_error + unit) \<times> 'w"

section \<open>The lease on registered memory\<close>

record 'w registered_memory =
  rm_registrar :: "'w memory_registrar"
  rm_memory :: transferable_memory
  rm_registered_addrs :: "usize list"
  rm_active :: bool

definition register_memory ::
  "'w memory_registrar \<Rightarrow> transferable_memory \<Rightarrow> 'w \<Rightarrow> (kv_transport_error + 'w registered_memory) \<times> 'w" where
  "register_memory reg m w =
     (case kv_memory_location_label (tm_location m) of
        Inl e \<Rightarrow> (Inl e, w)
      | Inr location \<Rightarrow>
          (case register_memory_batch reg (tm_regions m) location w of
             (Inl e, w') \<Rightarrow> (Inl e, w')
           | (Inr _, w') \<Rightarrow>
               (Inr \<lparr>rm_registrar = reg, rm_memory = m, rm_registered_addrs = map fst (tm_regions m), rm_active = True\<rparr>, w')))"

definition unregister_memory ::
  "'w registered_memory \<Rightarrow> 'w \<Rightarrow> (kv_transport_error + unit) \<times> 'w registered_memory \<times> 'w" where
  "unregister_memory l w =
     (if \<not> rm_active l then (Inr (), l, w)
      else case unregister_memory_batch (rm_registrar l) (rm_registered_addrs l) w of
             (Inl e, w') \<Rightarrow> (Inl e, l, w')
           | (Inr _, w') \<Rightarrow> (Inr (), l\<lparr>rm_active := False\<rparr>, w'))"

text \<open>\<open>Drop\<close> of the lease: an error aborts the process, which is \<open>Panic\<close> here.\<close>

definition drop_registered_memory :: "'w registered_memory \<Rightarrow> 'w \<Rightarrow> (kv_transport_error, unit) outcome \<times> 'w" where
  "drop_registered_memory l w =
     (case unregister_memory l w of (Inl e, l', w') \<Rightarrow> (Panic, w') | (Inr _, l', w') \<Rightarrow> (Ok (), w'))"

section \<open>Target resolvers\<close>

record ('r, 'w) target_resolver =
  resolve_target :: "kv_span \<Rightarrow> 'r \<times> 'w \<Rightarrow> (transfer_error + int) \<times> 'r \<times> 'w"
  resolve_session_target :: "kv_span \<Rightarrow> string \<Rightarrow> 'r \<times> 'w \<Rightarrow> (transfer_error + int) \<times> 'r \<times> 'w"

definition fixed_resolver :: "int \<Rightarrow> ('r, 'w) target_resolver" where
  "fixed_resolver target_id =
     \<lparr>resolve_target = \<lambda>span s. (Inr target_id, s), resolve_session_target = \<lambda>span session_id s. (Inr target_id, s)\<rparr>"

record session_resolver =
  sessions_by_room :: "(u64 \<times> string) list"
  targets_by_session :: "(string \<times> int) list"

definition session_resolver_new :: "(u64 \<times> string) list \<Rightarrow> session_resolver" where
  "session_resolver_new sessions = \<lparr>sessions_by_room = btree_of sessions, targets_by_session = []\<rparr>"

definition insert_room_session :: "u64 \<Rightarrow> string \<Rightarrow> session_resolver \<Rightarrow> session_resolver" where
  "insert_room_session room session_id r = r\<lparr>sessions_by_room := btree_insert room session_id (sessions_by_room r)\<rparr>"

text \<open>\<open>open_segment\<close> is the method of the opener.\<close>

definition resolve_session ::
  "(string \<Rightarrow> 'w \<Rightarrow> (kv_transport_error + int) \<times> 'w) \<Rightarrow> string \<Rightarrow> session_resolver \<times> 'w \<Rightarrow> (transfer_error + int) \<times> session_resolver \<times> 'w" where
  "resolve_session open_segment session_id s =
     (case map_of (targets_by_session (fst s)) session_id of
        Some target_id \<Rightarrow> (Inr target_id, s)
      | None \<Rightarrow>
          (case open_segment session_id (snd s) of
             (Inl e, w') \<Rightarrow> (Inl (runtime_error e), fst s, w')
           | (Inr target_id, w') \<Rightarrow>
               (Inr target_id, (fst s)\<lparr>targets_by_session := btree_insert session_id target_id (targets_by_session (fst s))\<rparr>, w')))"

definition session_resolve_target ::
  "(string \<Rightarrow> 'w \<Rightarrow> (kv_transport_error + int) \<times> 'w) \<Rightarrow> kv_span \<Rightarrow> session_resolver \<times> 'w \<Rightarrow> (transfer_error + int) \<times> session_resolver \<times> 'w" where
  "session_resolve_target open_segment span s =
     (case map_of (sessions_by_room (fst s)) (ts_room span) of
        None \<Rightarrow> (Inl (TransferRuntime (''missing session for bootstrap room '' @ show_usize (unat (ts_room span)))), s)
      | Some session_id \<Rightarrow> resolve_session open_segment session_id s)"

definition session_target_resolver ::
  "(string \<Rightarrow> 'w \<Rightarrow> (kv_transport_error + int) \<times> 'w) \<Rightarrow> (session_resolver, 'w) target_resolver" where
  "session_target_resolver open_segment =
     \<lparr>resolve_target = session_resolve_target open_segment,
      resolve_session_target = \<lambda>span session_id. resolve_session open_segment session_id\<rparr>"

section \<open>Submitted batches and completion events\<close>

record submitted_batch =
  sb_room :: u64
  sb_batch_id :: u64
  sb_task_count :: usize
  sb_checksum :: string

definition submitted_batch_of_span :: "(u8 list \<Rightarrow> u8 list) \<Rightarrow> kv_span \<Rightarrow> u64 \<Rightarrow> usize \<Rightarrow> submitted_batch" where
  "submitted_batch_of_span sha256 span batch_id task_count =
     \<lparr>sb_room = ts_room span, sb_batch_id = batch_id, sb_task_count = task_count, sb_checksum = descriptor_checksum sha256 span\<rparr>"

datatype event_status = EventCompleted | EventFailed string | EventCanceled

record completion_event =
  ev_room :: u64
  ev_checksum :: string
  ev_status :: event_status

record transfer_poll =
  poll_events :: "completion_event list"
  pending_transfers :: usize

definition event_for :: "submitted_batch \<Rightarrow> event_status \<Rightarrow> completion_event" where
  "event_for t st = \<lparr>ev_room = sb_room t, ev_checksum = sb_checksum t, ev_status = st\<rparr>"

datatype polled_state = BatchCompleted | BatchPending | BatchFailed string

text \<open>The accumulator of the task loop: number of completed tasks, first failure, whether a task is still pending.\<close>

type_synonym task_counts = "usize \<times> string option \<times> bool"

fun count_status :: "u64 \<Rightarrow> usize \<Rightarrow> int \<Rightarrow> task_counts \<Rightarrow> (transfer_error, task_counts) outcome" where
  "count_status batch_id task_id status (completed, failure, pending) =
     and_then (status_code_of status) (\<lambda>code.
       Ok (case code of
         StCompleted \<Rightarrow> (completed + 1, failure, pending)
       | StWaiting \<Rightarrow> (completed, failure, True)
       | StPending \<Rightarrow> (completed, failure, True)
       | _ \<Rightarrow> (completed,
           case failure of
             None \<Rightarrow> Some (''KV transfer batch '' @ show_usize (unat batch_id) @ '' task '' @ show_usize task_id @
               '' failed with status '' @ show_int status)
           | Some m \<Rightarrow> Some m,
           pending)))"

fun poll_tasks :: "'w transport \<Rightarrow> u64 \<Rightarrow> usize list \<Rightarrow> task_counts \<Rightarrow> 'w \<Rightarrow> (transfer_error, task_counts) outcome \<times> 'w" where
  "poll_tasks tr batch_id [] acc w = (Ok acc, w)"
| "poll_tasks tr batch_id (task_id # ts) acc w =
     and_with (lift_sum runtime_error (transfer_status tr batch_id task_id w)) (\<lambda>status w.
     and_with (count_status batch_id task_id status acc, w) (\<lambda>acc w. poll_tasks tr batch_id ts acc w))"

definition poll_kv_submitted_batch :: "'w transport \<Rightarrow> submitted_batch \<Rightarrow> 'w \<Rightarrow> (transfer_error, polled_state) outcome \<times> 'w" where
  "poll_kv_submitted_batch tr b w =
     and_with (poll_tasks tr (sb_batch_id b) [0 ..< sb_task_count b] (0, None, False) w) (\<lambda>(completed, failure, pending) w.
       (Ok (if pending then BatchPending
            else case failure of
              Some m \<Rightarrow> BatchFailed m
            | None \<Rightarrow> if completed = sb_task_count b then BatchCompleted else BatchPending), w))"

fun poll_kv_transfer_batches :: "'w transport \<Rightarrow> submitted_batch list \<Rightarrow> transfer_poll \<Rightarrow> 'w \<Rightarrow> (transfer_error, transfer_poll) outcome \<times> 'w" where
  "poll_kv_transfer_batches tr [] p w = (Ok p, w)"
| "poll_kv_transfer_batches tr (b # bs) p w =
     and_with (poll_kv_submitted_batch tr b w) (\<lambda>st w.
       poll_kv_transfer_batches tr bs
         (case st of
            BatchCompleted \<Rightarrow> p\<lparr>poll_events := poll_events p @ [event_for b EventCompleted]\<rparr>
          | BatchPending \<Rightarrow> p\<lparr>pending_transfers := pending_transfers p + 1\<rparr>
          | BatchFailed m \<Rightarrow> p\<lparr>poll_events := poll_events p @ [event_for b (EventFailed m)]\<rparr>) w)"

section \<open>The executor\<close>

type_synonym remote_layouts = "(u64 \<times> (string \<times> kv_remote_layout) list) list"

record ('r, 'w) kv_executor =
  ex_registration :: "'w registered_memory option"
  ex_registrar :: "'w memory_registrar option"
  ex_submitter :: "'w transport"
  ex_layout :: kv_transfer_layout
  ex_resolver_ops :: "('r, 'w) target_resolver"
  ex_resolver :: 'r
  ex_remote_layouts :: remote_layouts
  ex_batches :: "u64 list"
  ex_transfers :: "submitted_batch list"
  ex_events :: "completion_event list"

text \<open>\<open>entry(room).or_default().insert(session_id, layout)\<close>.\<close>

definition insert_layout :: "u64 \<Rightarrow> string \<Rightarrow> kv_remote_layout \<Rightarrow> remote_layouts \<Rightarrow> remote_layouts" where
  "insert_layout room session_id lay m =
     btree_insert room (btree_insert session_id lay (case map_of m room of None \<Rightarrow> [] | Some inner \<Rightarrow> inner)) m"

definition with_session_layouts ::
  "'w transport \<Rightarrow> kv_transfer_layout \<Rightarrow> ('r, 'w) target_resolver \<Rightarrow> 'r \<Rightarrow> (u64 \<times> string \<times> kv_remote_layout) list \<Rightarrow> ('r, 'w) kv_executor" where
  "with_session_layouts tr lay rs r layouts =
     \<lparr>ex_registration = None, ex_registrar = None, ex_submitter = tr, ex_layout = lay, ex_resolver_ops = rs, ex_resolver = r,
      ex_remote_layouts = fold (\<lambda>(room, session_id, l). insert_layout room session_id l) layouts [],
      ex_batches = [], ex_transfers = [], ex_events = []\<rparr>"

definition with_remote_layouts ::
  "'w transport \<Rightarrow> kv_transfer_layout \<Rightarrow> ('r, 'w) target_resolver \<Rightarrow> 'r \<Rightarrow> (u64 \<times> kv_remote_layout) list \<Rightarrow> ('r, 'w) kv_executor" where
  "with_remote_layouts tr lay rs r layouts =
     \<lparr>ex_registration = None, ex_registrar = None, ex_submitter = tr, ex_layout = lay, ex_resolver_ops = rs, ex_resolver = r,
      ex_remote_layouts = fold (\<lambda>(room, l). insert_layout room [] l) layouts [],
      ex_batches = [], ex_transfers = [], ex_events = []\<rparr>"

definition with_target_resolver ::
  "'w transport \<Rightarrow> kv_transfer_layout \<Rightarrow> ('r, 'w) target_resolver \<Rightarrow> 'r \<Rightarrow> ('r, 'w) kv_executor" where
  "with_target_resolver tr lay rs r =
     \<lparr>ex_registration = None, ex_registrar = None, ex_submitter = tr, ex_layout = lay, ex_resolver_ops = rs, ex_resolver = r,
      ex_remote_layouts = [], ex_batches = [], ex_transfers = [], ex_events = []\<rparr>"

definition insert_remote_kv_session_layout :: "u64 \<Rightarrow> string \<Rightarrow> kv_remote_layout \<Rightarrow> ('r, 'w) kv_executor \<Rightarrow> ('r, 'w) kv_executor" where
  "insert_remote_kv_session_layout room session_id lay ex = ex\<lparr>ex_remote_layouts := insert_layout room session_id lay (ex_remote_layouts ex)\<rparr>"

definition insert_remote_kv_layout :: "u64 \<Rightarrow> kv_remote_layout \<Rightarrow> ('r, 'w) kv_executor \<Rightarrow> ('r, 'w) kv_executor" where
  "insert_remote_kv_layout room lay ex = insert_remote_kv_session_layout room [] lay ex"

definition with_memory_registrar :: "'w memory_registrar \<Rightarrow> ('r, 'w) kv_executor \<Rightarrow> ('r, 'w) kv_executor" where
  "with_memory_registrar reg ex = ex\<lparr>ex_registrar := Some reg\<rparr>"

text \<open>A memory region list without entries makes the comparison of the base address panic.\<close>

definition with_local_memory_registration ::
  "'w registered_memory \<Rightarrow> ('r, 'w) kv_executor \<Rightarrow> (transfer_error, ('r, 'w) kv_executor) outcome" where
  "with_local_memory_registration l ex =
     (if ex_registration ex \<noteq> None then Err (TransferRuntime ''KV executor already owns a local memory registration'')
      else if tm_page_size_bytes (rm_memory l) \<noteq> page_size_bytes (ex_layout ex)
      then Err (TransferRuntime ''KV memory registration does not match the executor KV layout'')
      else and_then (vec_get (tm_regions (rm_memory l)) 0) (\<lambda>region.
        if fst region \<noteq> source_base_addr (ex_layout ex)
        then Err (TransferRuntime ''KV memory registration does not match the executor KV layout'')
        else Ok (ex\<lparr>ex_registration := Some l\<rparr>)))"

definition executor_register ::
  "transferable_memory \<Rightarrow> ('r, 'w) kv_executor \<times> 'w \<Rightarrow> (transfer_error, unit) outcome \<times> ('r, 'w) kv_executor \<times> 'w" where
  "executor_register m s =
     (let ex = fst s
      in if ex_registration ex \<noteq> None then (Err (TransferRuntime ''KV memory is already registered''), s)
         else if length (tm_regions m) \<noteq> 1 \<or> fst (tm_regions m ! 0) \<noteq> source_base_addr (ex_layout ex) \<or>
             tm_page_size_bytes m \<noteq> page_size_bytes (ex_layout ex)
         then (Err (TransferRuntime ''NexusKV descriptor does not match the KV executor source layout''), s)
         else case ex_registrar ex of
           None \<Rightarrow> (Err (TransferRuntime ''KV backend has no memory registrar; construct it through the production transfer backend factory''), s)
         | Some reg \<Rightarrow>
             (case register_memory reg m (snd s) of
                (Inl e, w') \<Rightarrow> (Err (runtime_error e), ex\<lparr>ex_registrar := None\<rparr>, w')
              | (Inr l, w') \<Rightarrow> (Ok (), ex\<lparr>ex_registrar := None, ex_registration := Some l\<rparr>, w')))"

subsection \<open>Submission\<close>

definition request_error :: "request_build_error \<Rightarrow> transfer_error" where
  "request_error e = TransferRuntime (show_request_build_error e)"

fun remote_requests ::
  "('r, 'w) target_resolver \<Rightarrow> kv_transfer_layout \<Rightarrow> kv_span \<Rightarrow> (string \<times> kv_remote_layout) list \<Rightarrow> kv_transfer_request list \<Rightarrow>
   'r \<times> 'w \<Rightarrow> (transfer_error, kv_transfer_request list) outcome \<times> 'r \<times> 'w" where
  "remote_requests rs lay span [] requests s = (Ok requests, s)"
| "remote_requests rs lay span ((session_id, remote) # rest) requests s =
     and_with (lift_sum id (resolve_session_target rs span session_id s)) (\<lambda>target_id s.
     and_with (map_err request_error (build_remote_kv_transfer_requests span lay target_id remote), s) (\<lambda>qs s.
       remote_requests rs lay span rest (requests @ qs) s))"

definition span_requests ::
  "kv_span \<Rightarrow> ('r, 'w) kv_executor \<Rightarrow> 'w \<Rightarrow> (transfer_error, kv_transfer_request list) outcome \<times> 'r \<times> 'w" where
  "span_requests span ex w =
     (case map_of (ex_remote_layouts ex) (ts_room span) of
        Some layouts \<Rightarrow> remote_requests (ex_resolver_ops ex) (ex_layout ex) span layouts [] (ex_resolver ex, w)
      | None \<Rightarrow>
          and_with (lift_sum id (resolve_target (ex_resolver_ops ex) span (ex_resolver ex, w))) (\<lambda>target_id s.
            (map_err request_error (build_kv_transfer_requests span (ex_layout ex) target_id), s)))"

definition executor_submit ::
  "(u8 list \<Rightarrow> u8 list) \<Rightarrow> kv_span \<Rightarrow> ('r, 'w) kv_executor \<times> 'w \<Rightarrow> (transfer_error, unit) outcome \<times> ('r, 'w) kv_executor \<times> 'w" where
  "executor_submit sha256 span s =
     (let ex = fst s
      in if ex_registration ex = None
         then (Err (TransferRuntime ''KV backend must register ModelRunner-owned NexusKV memory before submit''), s)
         else case span_requests span ex (snd s) of
           (r, resolver', w') \<Rightarrow>
             and_with (r, ex\<lparr>ex_resolver := resolver'\<rparr>, w') (\<lambda>requests (ex, w).
               if requests = []
               then (Ok (), ex\<lparr>ex_events := ex_events ex @
                      [\<lparr>ev_room = ts_room span, ev_checksum = descriptor_checksum sha256 span, ev_status = EventCompleted\<rparr>]\<rparr>, w)
               else case submit_transfer (ex_submitter ex) requests w of
                 (Inl e, w') \<Rightarrow> (Err (runtime_error e), ex, w')
               | (Inr batch_id, w') \<Rightarrow>
                   (Ok (), ex\<lparr>ex_batches := ex_batches ex @ [batch_id],
                      ex_transfers := ex_transfers ex @ [submitted_batch_of_span sha256 span batch_id (length requests)]\<rparr>, w')))"

subsection \<open>Waiting and cancelling\<close>

partial_function (option) wait_batch ::
  "'w transport \<Rightarrow> submitted_batch \<Rightarrow> 'w \<Rightarrow> ((transfer_error, unit) outcome \<times> 'w) option" where
  "wait_batch tr b w =
     (case poll_kv_submitted_batch tr b w of
        (Ok st, w') \<Rightarrow> if st = BatchPending then wait_batch tr b w' else Some (Ok (), w')
      | (Err e, w') \<Rightarrow> Some (Err e, w')
      | (Panic, w') \<Rightarrow> Some (Panic, w'))"

text \<open>\<open>Vec::remove\<close> panics beyond the end.\<close>

definition remove_nth :: "usize \<Rightarrow> 'a list \<Rightarrow> 'a list" where
  "remove_nth i xs = take i xs @ drop (Suc i) xs"

lemma position_Some: "position P xs = Some i \<Longrightarrow> i < length xs \<and> P (xs ! i) \<and> (\<forall>j < i. \<not> P (xs ! j))"
proof (induction xs arbitrary: i)
  case (Cons x xs)
  then show ?case by (cases i) (auto split: if_splits simp: less_Suc_eq_0_disj nth_Cons')
qed simp

lemma position_None: "position P xs = None \<longleftrightarrow> (\<forall>x \<in> set xs. \<not> P x)"
  by (induction xs) auto

lemma length_remove_nth [simp]: "i < length xs \<Longrightarrow> length (remove_nth i xs) = length xs - 1"
  by (simp add: remove_nth_def)

text \<open>The two removals at the end of an iteration.\<close>

definition remove_submitted ::
  "usize \<Rightarrow> ('r, 'w) kv_executor \<times> 'w \<Rightarrow> (transfer_error, unit) outcome \<times> ('r, 'w) kv_executor \<times> 'w" where
  "remove_submitted i s =
     (let ex = (fst s)\<lparr>ex_transfers := remove_nth i (ex_transfers (fst s))\<rparr>
      in if i < length (ex_batches ex) then (Ok (), ex\<lparr>ex_batches := remove_nth i (ex_batches ex)\<rparr>, snd s)
         else (Panic, ex, snd s))"

definition free_transfer ::
  "submitted_batch \<Rightarrow> ('r, 'w) kv_executor \<times> 'w \<Rightarrow> (transfer_error, unit) outcome \<times> ('r, 'w) kv_executor \<times> 'w" where
  "free_transfer t s =
     (case lift_sum runtime_error (free_batch (ex_submitter (fst s)) (sb_batch_id t) (snd s)) of (r, w') \<Rightarrow> (r, fst s, w'))"

lemma free_transfer_Ok:
  "free_transfer t s = (Ok u, s') \<longleftrightarrow> fst s' = fst s \<and> free_batch (ex_submitter (fst s)) (sb_batch_id t) (snd s) = (Inr u, snd s')"
  by (cases s') (auto simp: free_transfer_def lift_sum_def split: prod.splits sum.splits)

definition cancel_one ::
  "usize \<Rightarrow> ('r, 'w) kv_executor \<times> 'w \<Rightarrow> ((transfer_error, unit) outcome \<times> ('r, 'w) kv_executor \<times> 'w) option" where
  "cancel_one i s =
     (let ex = fst s; t = ex_transfers ex ! i
      in map_option (\<lambda>(r, w).
           and_with (r, ex, w) (\<lambda>_ s. and_with (free_transfer t s) (\<lambda>_ s. remove_submitted i s)))
         (wait_batch (ex_submitter ex) t (snd s)))"

lemma remove_submitted_Ok:
  "remove_submitted i s = (Ok u, s') \<longleftrightarrow> i < length (ex_batches (fst s)) \<and>
   s' = ((fst s)\<lparr>ex_transfers := remove_nth i (ex_transfers (fst s)), ex_batches := remove_nth i (ex_batches (fst s))\<rparr>, snd s)"
  by (auto simp: remove_submitted_def Let_def)

lemma cancel_one_Ok:
  assumes "cancel_one i s = Some (Ok u, s')"
  obtains w w' where "wait_batch (ex_submitter (fst s)) (ex_transfers (fst s) ! i) (snd s) = Some (Ok (), w)"
    and "free_batch (ex_submitter (fst s)) (sb_batch_id (ex_transfers (fst s) ! i)) w = (Inr (), w')"
    and "i < length (ex_batches (fst s))"
    and "s' = ((fst s)\<lparr>ex_transfers := remove_nth i (ex_transfers (fst s)), ex_batches := remove_nth i (ex_batches (fst s))\<rparr>, w')"
  using assms
  by (auto simp: cancel_one_def Let_def outcome_simps remove_submitted_Ok free_transfer_Ok)

function cancel_loop ::
  "u64 \<Rightarrow> ('r, 'w) kv_executor \<times> 'w \<Rightarrow> ((transfer_error, unit) outcome \<times> ('r, 'w) kv_executor \<times> 'w) option" where
  "cancel_loop room s =
     (case position (\<lambda>t. sb_room t = room) (ex_transfers (fst s)) of
        None \<Rightarrow> Some (Ok (), s)
      | Some i \<Rightarrow> (case cancel_one i s of Some (Ok _, s') \<Rightarrow> cancel_loop room s' | r \<Rightarrow> r))"
  by pat_completeness auto
termination
proof (relation "measure (\<lambda>(room, s). length (ex_transfers (fst s)))", goal_cases)
  case (2 room s i r o' s' u)
  then have "length (ex_transfers (fst s')) = length (ex_transfers (fst s)) - 1"
    using position_Some [of _ "ex_transfers (fst s)" i] by (auto elim!: cancel_one_Ok)
  then show ?case using 2(1) position_Some [of _ "ex_transfers (fst s)" i] by fastforce
qed simp

declare cancel_loop.simps [simp del]

definition executor_cancel ::
  "u64 \<Rightarrow> ('r, 'w) kv_executor \<times> 'w \<Rightarrow> ((transfer_error, unit) outcome \<times> ('r, 'w) kv_executor \<times> 'w) option" where
  "executor_cancel room s =
     (case cancel_loop room s of
        Some (Ok _, ex, w) \<Rightarrow>
          Some (Ok (), ex\<lparr>ex_events := filter (\<lambda>e. ev_room e \<noteq> room) (ex_events ex),
             ex_remote_layouts := AList.delete room (ex_remote_layouts ex)\<rparr>, w)
      | r \<Rightarrow> r)"

subsection \<open>Polling\<close>

definition finish_polled ::
  "usize \<Rightarrow> event_status \<Rightarrow> ('r, 'w) kv_executor \<times> 'w \<Rightarrow> (transfer_error, unit) outcome \<times> ('r, 'w) kv_executor \<times> 'w" where
  "finish_polled i st s =
     (let ex = fst s; t = ex_transfers ex ! i
      in and_with (free_transfer t s) (\<lambda>_ s.
           remove_submitted i ((fst s)\<lparr>ex_events := ex_events (fst s) @ [event_for t st]\<rparr>, snd s)))"

lemma finish_polled_Ok:
  assumes "finish_polled i st s = (Ok u, s')"
  obtains w where "free_batch (ex_submitter (fst s)) (sb_batch_id (ex_transfers (fst s) ! i)) (snd s) = (Inr (), w)"
    and "i < length (ex_batches (fst s))"
    and "s' = ((fst s)\<lparr>ex_events := ex_events (fst s) @ [event_for (ex_transfers (fst s) ! i) st],
        ex_transfers := remove_nth i (ex_transfers (fst s)), ex_batches := remove_nth i (ex_batches (fst s))\<rparr>, w)"
  using assms by (auto simp: finish_polled_def Let_def outcome_simps remove_submitted_Ok free_transfer_Ok)

lemma finish_polled_length:
  "finish_polled i st s = (Ok u, s') \<Longrightarrow> i < length (ex_transfers (fst s)) \<Longrightarrow> length (ex_transfers (fst s')) = length (ex_transfers (fst s)) - 1"
  by (auto elim!: finish_polled_Ok)

function poll_loop ::
  "usize \<Rightarrow> ('r, 'w) kv_executor \<times> 'w \<Rightarrow> (transfer_error, unit) outcome \<times> ('r, 'w) kv_executor \<times> 'w" where
  "poll_loop i s =
     (let ex = fst s
      in if i < length (ex_transfers ex)
         then case poll_kv_submitted_batch (ex_submitter ex) (ex_transfers ex ! i) (snd s) of
             (Ok BatchPending, w') \<Rightarrow> poll_loop (i + 1) (ex, w')
           | (Ok BatchCompleted, w') \<Rightarrow>
               (case finish_polled i EventCompleted (ex, w') of (Ok _, s') \<Rightarrow> poll_loop i s' | (r, s') \<Rightarrow> (r, s'))
           | (Ok (BatchFailed m), w') \<Rightarrow>
               (case finish_polled i (EventFailed m) (ex, w') of (Ok _, s') \<Rightarrow> poll_loop i s' | (r, s') \<Rightarrow> (r, s'))
           | (Err e, w') \<Rightarrow> (Err e, ex, w')
           | (Panic, w') \<Rightarrow> (Panic, ex, w')
         else (Ok (), s))"
  by pat_completeness auto
termination
  by (relation "measure (\<lambda>(i, s). length (ex_transfers (fst s)) - i)")
    (auto dest!: finish_polled_length [OF sym])

declare poll_loop.simps [simp del]

definition executor_poll ::
  "('r, 'w) kv_executor \<times> 'w \<Rightarrow> (transfer_error, transfer_poll) outcome \<times> ('r, 'w) kv_executor \<times> 'w" where
  "executor_poll s =
     and_with (poll_loop 0 s) (\<lambda>_ (ex, w).
       (Ok \<lparr>poll_events = ex_events ex, pending_transfers = length (ex_transfers ex)\<rparr>, ex\<lparr>ex_events := []\<rparr>, w))"

subsection \<open>Shutdown and destruction\<close>

fun cancel_rooms ::
  "u64 list \<Rightarrow> ('r, 'w) kv_executor \<times> 'w \<Rightarrow> ((transfer_error, unit) outcome \<times> ('r, 'w) kv_executor \<times> 'w) option" where
  "cancel_rooms [] s = Some (Ok (), s)"
| "cancel_rooms (room # rooms) s =
     (case executor_cancel room s of
        Some (Ok _, s') \<Rightarrow> cancel_rooms rooms s'
      | r \<Rightarrow> r)"

text \<open>Assigning \<open>None\<close> drops the lease, which is inactive by then.\<close>

definition executor_shutdown ::
  "('r, 'w) kv_executor \<times> 'w \<Rightarrow> ((transfer_error, unit) outcome \<times> ('r, 'w) kv_executor \<times> 'w) option" where
  "executor_shutdown s =
     (case cancel_rooms (map sb_room (ex_transfers (fst s))) s of
        Some (Ok _, ex, w) \<Rightarrow>
          Some (case ex_registration ex of
              None \<Rightarrow> (Ok (), ex, w)
            | Some l \<Rightarrow>
                (case unregister_memory l w of
                   (Inl e, l', w') \<Rightarrow> (Err (runtime_error e), ex\<lparr>ex_registration := Some l'\<rparr>, w')
                 | (Inr _, l', w') \<Rightarrow>
                     (case drop_registered_memory l' w' of
                        (Panic, w'') \<Rightarrow> (Panic, ex, w'')
                      | (_, w'') \<Rightarrow> (Ok (), ex\<lparr>ex_registration := None\<rparr>, w''))))
      | r \<Rightarrow> r)"

text \<open>
  \<open>Drop\<close> of the executor drains the transfers, then its fields are dropped, the lease first.  An error aborts the
  process (\<open>Panic\<close>).
\<close>

lemma remove_nth_filter:
  "position P xs = Some i \<Longrightarrow> filter (\<lambda>x. \<not> P x) (remove_nth i xs) = filter (\<lambda>x. \<not> P x) xs"
proof (induction xs arbitrary: i)
  case (Cons x xs)
  then show ?case by (cases i) (auto simp: remove_nth_def split: if_splits)
qed simp

lemma cancel_loop_Ok:
  "cancel_loop room s = Some (Ok u, s') \<Longrightarrow> ex_transfers (fst s') = filter (\<lambda>t. sb_room t \<noteq> room) (ex_transfers (fst s))"
proof (induction room s rule: cancel_loop.induct)
  case (1 room s)
  show ?case
  proof (cases "position (\<lambda>t. sb_room t = room) (ex_transfers (fst s))")
    case None
    then show ?thesis using 1(2) by (simp add: cancel_loop.simps [of room s]) (auto simp: position_None filter_id_conv)
  next
    case (Some i)
    then obtain u1 s1 where *: "cancel_one i s = Some (Ok u1, s1)" "cancel_loop room s1 = Some (Ok u, s')"
      using 1(2) by (auto simp: cancel_loop.simps [of room s] split: option.splits outcome.splits prod.splits)
    have "ex_transfers (fst s1) = remove_nth i (ex_transfers (fst s))" using *(1) by (auto elim!: cancel_one_Ok)
    then show ?thesis using 1(1) [OF Some *(1) refl refl *(2)] remove_nth_filter [OF Some] by simp
  qed
qed

lemma executor_cancel_Ok:
  "executor_cancel room s = Some (Ok u, s') \<Longrightarrow>
   ex_transfers (fst s') = filter (\<lambda>t. sb_room t \<noteq> room) (ex_transfers (fst s)) \<and> (\<forall>e \<in> set (ex_events (fst s')). ev_room e \<noteq> room)"
  using cancel_loop_Ok [of room s]
  by (fastforce simp: executor_cancel_def split: option.splits outcome.splits prod.splits)

function drain_loop ::
  "('r, 'w) kv_executor \<times> 'w \<Rightarrow> ((transfer_error, unit) outcome \<times> ('r, 'w) kv_executor \<times> 'w) option" where
  "drain_loop s =
     (case ex_transfers (fst s) of
        [] \<Rightarrow> Some (Ok (), s)
      | t # ts \<Rightarrow>
          (case executor_cancel (sb_room t) s of
             Some (Ok _, s') \<Rightarrow> drain_loop s'
           | Some (_, s') \<Rightarrow> Some (Panic, s')
           | None \<Rightarrow> None))"
  by pat_completeness auto
termination
  by (relation "measure (\<lambda>s. length (ex_transfers (fst s)))") (auto dest!: executor_cancel_Ok simp: le_imp_less_Suc)

declare drain_loop.simps [simp del]

definition drop_executor ::
  "('r, 'w) kv_executor \<times> 'w \<Rightarrow> ((transfer_error, unit) outcome \<times> 'w) option" where
  "drop_executor s =
     (case drain_loop s of
        None \<Rightarrow> None
      | Some (Ok _, ex, w) \<Rightarrow>
          Some (case ex_registration ex of
              None \<Rightarrow> (Ok (), w)
            | Some l \<Rightarrow> (case drop_registered_memory l w of (Panic, w') \<Rightarrow> (Panic, w') | (_, w') \<Rightarrow> (Ok (), w')))
      | Some (_, ex, w) \<Rightarrow> Some (Panic, w))"

end
