(* ===== verification/Pd_Wire.thy ===== *)
theory Pd_Wire
  imports Transfer_Executor
begin

text \<open>
  The frames by which a decode instance registers its KV memory and announces a transfer to a prefill instance
  (\<open>transfer/pd_bootstrap.rs\<close>): decimal fields, UTF-8 fields, packed integer lists, the two frame types with their
  encoders and decoders, and the two round trips.  A Rust \<open>String\<close> is the list of its UTF-8 bytes.
\<close>

section \<open>Decimal numbers and UTF-8\<close>

definition digit_value :: "char \<Rightarrow> usize option" where
  "digit_value c = (let n = of_char c :: nat in if 48 \<le> n \<and> n \<le> 57 then Some (n - 48) else None)"

fun parse_digits :: "usize \<Rightarrow> usize \<Rightarrow> string \<Rightarrow> usize option" where
  "parse_digits limit acc [] = Some acc"
| "parse_digits limit acc (c # cs) =
     (case digit_value c of
        None \<Rightarrow> None
      | Some d \<Rightarrow> if acc * 10 + d < limit then parse_digits limit (acc * 10 + d) cs else None)"

text \<open>The standard \<open>FromStr\<close> of the integers: an optional sign, at least one digit, no overflow of \<open>limit\<close>.\<close>

definition parse_nonempty :: "usize \<Rightarrow> string \<Rightarrow> usize option" where
  "parse_nonempty limit s = (if s = [] then None else parse_digits limit 0 s)"

definition parse_unsigned :: "usize \<Rightarrow> string \<Rightarrow> usize option" where
  "parse_unsigned limit s =
     (case s of
        c # rest \<Rightarrow> if c = CHR ''+'' then parse_nonempty limit rest else parse_digits limit 0 s
      | [] \<Rightarrow> None)"

definition parse_signed :: "usize \<Rightarrow> string \<Rightarrow> int option" where
  "parse_signed limit s =
     (case s of
        c # rest \<Rightarrow>
          if c = CHR ''-'' then map_option (\<lambda>n. - int n) (parse_nonempty (limit + 1) rest)
          else map_option int (parse_unsigned limit s)
      | [] \<Rightarrow> None)"

definition continuation :: "u8 \<Rightarrow> bool" where
  "continuation b \<longleftrightarrow> 0x80 \<le> b \<and> b \<le> 0xBF"

text \<open>
  One step of the standard library's UTF-8 scanner: whether a well-formed character comes next, and how many bytes it or the
  ill-formed sequence takes.  No overlong form, no surrogate, nothing above U+10FFFF; a missing byte reads as zero.
\<close>

definition byte_at :: "u8 list \<Rightarrow> usize \<Rightarrow> u8" where
  "byte_at bs i = (if i < length bs then bs ! i else 0)"

definition second_byte :: "u8 \<Rightarrow> u8 \<Rightarrow> bool" where
  "second_byte b c \<longleftrightarrow> continuation c \<and> (b = 0xE0 \<longrightarrow> 0xA0 \<le> c) \<and> (b = 0xED \<longrightarrow> c \<le> 0x9F) \<and>
     (b = 0xF0 \<longrightarrow> 0x90 \<le> c) \<and> (b = 0xF4 \<longrightarrow> c \<le> 0x8F)"

definition utf8_scan :: "u8 list \<Rightarrow> bool \<times> usize" where
  "utf8_scan bs =
     (let b = byte_at bs 0
      in if b < 0x80 then (True, 1)
         else if 0xC2 \<le> b \<and> b \<le> 0xDF then (if continuation (byte_at bs 1) then (True, 2) else (False, 1))
         else if 0xE0 \<le> b \<and> b \<le> 0xEF
         then (if \<not> second_byte b (byte_at bs 1) then (False, 1)
               else if continuation (byte_at bs 2) then (True, 3) else (False, 2))
         else if 0xF0 \<le> b \<and> b \<le> 0xF4
         then (if \<not> second_byte b (byte_at bs 1) then (False, 1)
               else if \<not> continuation (byte_at bs 2) then (False, 2)
               else if continuation (byte_at bs 3) then (True, 4) else (False, 3))
         else (False, 1))"

lemma utf8_scan_pos: "0 < snd (utf8_scan bs)"
  by (simp add: utf8_scan_def Let_def)

function utf8_valid :: "u8 list \<Rightarrow> bool" where
  "utf8_valid bs = (if bs = [] then True else if fst (utf8_scan bs) then utf8_valid (drop (snd (utf8_scan bs)) bs) else False)"
  by pat_completeness auto
termination by (relation "measure length") (simp_all add: utf8_scan_pos)

text \<open>\<open>String::from_utf8_lossy\<close> puts U+FFFD for each ill-formed sequence.\<close>

function utf8_lossy :: "u8 list \<Rightarrow> u8 list" where
  "utf8_lossy bs =
     (if bs = [] then []
      else (if fst (utf8_scan bs) then take (snd (utf8_scan bs)) bs else [0xEF, 0xBF, 0xBD]) @
           utf8_lossy (drop (snd (utf8_scan bs)) bs))"
  by pat_completeness auto
termination by (relation "measure length") (simp_all add: utf8_scan_pos)

declare utf8_valid.simps [simp del] utf8_lossy.simps [simp del]

lemma utf8_valid_Nil [simp]: "utf8_valid []"
  by (subst utf8_valid.simps) simp

lemma utf8_valid_ascii [simp]: "b < 0x80 \<Longrightarrow> utf8_valid (b # bs) = utf8_valid bs"
  by (subst utf8_valid.simps) (simp add: utf8_scan_def byte_at_def)

lemma utf8_lossy_valid: "utf8_valid bs \<Longrightarrow> utf8_lossy bs = bs"
proof (induction bs rule: utf8_lossy.induct)
  case (1 bs)
  then show ?case using utf8_valid.simps [of bs] by (subst utf8_lossy.simps) (auto split: if_splits)
qed

definition bytes_str :: "u8 list \<Rightarrow> string" where
  "bytes_str bs = map (\<lambda>b. char_of (unat b)) bs"

definition from_utf8 :: "u8 list \<Rightarrow> string option" where
  "from_utf8 bs = (if utf8_valid bs then Some (bytes_str bs) else None)"

definition rust_string :: "string \<Rightarrow> bool" where
  "rust_string s \<longleftrightarrow> utf8_valid (str_bytes s)"

definition decimal :: "usize \<Rightarrow> u8 list" where
  "decimal n = str_bytes (show_usize n)"

definition decimal_int :: "int \<Rightarrow> u8 list" where
  "decimal_int i = str_bytes (show_int i)"

section \<open>Reading the fields of a frame\<close>

type_synonym frame = "u8 list list"

datatype frame_error =
    MissingField string usize usize
  | Utf8Field string
  | IntegerField string string
  | BinaryLength string usize usize
  | PackedListHeader string
  | PackedListLength string

fun show_frame_error :: "frame_error \<Rightarrow> string" where
  "show_frame_error (MissingField f expected actual) =
     f @ '' frame requires at least '' @ show_usize expected @ '' fields, got '' @ show_usize actual"
| "show_frame_error (Utf8Field f) = f @ '' must be ASCII/UTF-8''"
| "show_frame_error (IntegerField f v) = f @ '' must be an integer, got '' @ v"
| "show_frame_error (BinaryLength f width actual) =
     f @ '' byte length '' @ show_usize actual @ '' must be divisible by '' @ show_usize width"
| "show_frame_error (PackedListHeader f) = f @ '' packed list header is incomplete''"
| "show_frame_error (PackedListLength f) = f @ '' packed list payload is incomplete''"

definition frame_get :: "frame \<Rightarrow> usize \<Rightarrow> u8 list option" where
  "frame_get fr i = (if i < length fr then Some (fr ! i) else None)"

definition require_min_fields :: "frame \<Rightarrow> usize \<Rightarrow> string \<Rightarrow> (frame_error, unit) outcome" where
  "require_min_fields fr expected frame_name =
     (if length fr < expected then Err (MissingField frame_name expected (length fr)) else Ok ())"

definition field :: "frame \<Rightarrow> usize \<Rightarrow> string \<Rightarrow> (frame_error, u8 list) outcome" where
  "field fr index name = ok_or (MissingField name (index + 1) (length fr)) (frame_get fr index)"

definition ascii_field :: "frame \<Rightarrow> usize \<Rightarrow> string \<Rightarrow> (frame_error, string) outcome" where
  "ascii_field fr index name = and_then (field fr index name) (\<lambda>bs. ok_or (Utf8Field name) (from_utf8 bs))"

definition parse_i32 :: "frame \<Rightarrow> usize \<Rightarrow> string \<Rightarrow> (frame_error, int) outcome" where
  "parse_i32 fr index name =
     and_then (ascii_field fr index name) (\<lambda>v. ok_or (IntegerField name v) (parse_signed (2 ^ 31) v))"

definition parse_bootstrap_room :: "frame \<Rightarrow> usize \<Rightarrow> string \<Rightarrow> (frame_error, u64) outcome" where
  "parse_bootstrap_room fr index name =
     and_then (ascii_field fr index name) (\<lambda>v.
     and_then (ok_or (IntegerField name v) (parse_unsigned (2 ^ 64) v)) (\<lambda>room.
       if room > 2 ^ 63 - 1 then Err (IntegerField name v) else Ok (of_nat room)))"

definition parse_u16 :: "frame \<Rightarrow> usize \<Rightarrow> string \<Rightarrow> (frame_error, 16 word) outcome" where
  "parse_u16 fr index name =
     and_then (ascii_field fr index name) (\<lambda>v.
     and_then (ok_or (IntegerField name v) (parse_unsigned (2 ^ 16) v)) (\<lambda>n. Ok (of_nat n)))"

definition parse_usize :: "frame \<Rightarrow> usize \<Rightarrow> string \<Rightarrow> (frame_error, usize) outcome" where
  "parse_usize fr index name =
     and_then (ascii_field fr index name) (\<lambda>v. ok_or (IntegerField name v) (parse_unsigned (2 ^ 64) v))"

definition optional_usize :: "frame \<Rightarrow> usize \<Rightarrow> string \<Rightarrow> (frame_error, usize option) outcome" where
  "optional_usize fr index name =
     (case frame_get fr index of
        None \<Rightarrow> Ok None
      | Some value \<Rightarrow> if value = [] then Ok None else and_then (parse_usize fr index name) (\<lambda>n. Ok (Some n)))"

section \<open>Packed integers\<close>

definition pack_i32s :: "int list \<Rightarrow> u8 list" where
  "pack_i32s values = concat (map i32_to_le_bytes values)"

definition pack_u64s :: "u64 list \<Rightarrow> u8 list" where
  "pack_u64s values = concat (map u64_to_le_bytes values)"

definition pack_list_of_buffers :: "u8 list list \<Rightarrow> u8 list" where
  "pack_list_of_buffers buffers =
     (if buffers = [] then []
      else u32_to_le_bytes (of_nat (length buffers)) @
           concat (map (\<lambda>b. u32_to_le_bytes (of_nat (length b))) buffers) @ concat buffers)"

definition pack_i32_lists :: "int list list \<Rightarrow> u8 list" where
  "pack_i32_lists values = pack_list_of_buffers (map pack_i32s values)"

definition pack_u64_lists :: "u64 list list \<Rightarrow> u8 list" where
  "pack_u64_lists values = pack_list_of_buffers (map pack_u64s values)"

definition pack_u32_lists :: "u32 list list \<Rightarrow> u8 list" where
  "pack_u32_lists values = pack_list_of_buffers (map (\<lambda>vs. concat (map u32_to_le_bytes vs)) values)"

definition unpack_fixed_width :: "u8 list \<Rightarrow> usize \<Rightarrow> string \<Rightarrow> (u8 list \<Rightarrow> 'a) \<Rightarrow> (frame_error, 'a list) outcome" where
  "unpack_fixed_width bytes width f decode =
     (if \<not> is_multiple_of (length bytes) width then Err (BinaryLength f width (length bytes))
      else Ok (map decode (chunks width bytes)))"

definition unpack_u64s :: "u8 list \<Rightarrow> (frame_error, u64 list) outcome" where
  "unpack_u64s bytes = unpack_fixed_width bytes 8 ''u64 values'' u64_from_le_bytes"

definition i32_from_le_bytes :: "u8 list \<Rightarrow> int" where
  "i32_from_le_bytes bs = sint (u32_from_le_bytes bs)"

definition unpack_i32s :: "u8 list \<Rightarrow> (frame_error, int list) outcome" where
  "unpack_i32s bytes = unpack_fixed_width bytes 4 ''i32 values'' i32_from_le_bytes"

definition u32_at :: "u8 list \<Rightarrow> usize \<Rightarrow> usize" where
  "u32_at bytes offset = unat (u32_from_le_bytes (take 4 (drop offset bytes)))"

fun split_buffers :: "string \<Rightarrow> u8 list \<Rightarrow> usize \<Rightarrow> usize list \<Rightarrow> (frame_error, u8 list list) outcome" where
  "split_buffers f bytes offset [] = Ok []"
| "split_buffers f bytes offset (len # lens) =
     (if length bytes < offset + len then Err (PackedListLength f)
      else and_then (split_buffers f bytes (offset + len) lens) (\<lambda>buffers. Ok (take len (drop offset bytes) # buffers)))"

definition unpack_list_of_buffers :: "u8 list \<Rightarrow> string \<Rightarrow> (frame_error, u8 list list) outcome" where
  "unpack_list_of_buffers bytes f =
     (if bytes = [] then Ok []
      else if length bytes < 4 then Err (PackedListHeader f)
      else
        let count = u32_at bytes 0; header_len = 4 + count * 4
        in if length bytes < header_len then Err (PackedListHeader f)
           else split_buffers f bytes header_len (map (\<lambda>index. u32_at bytes (4 + index * 4)) [0 ..< count]))"

definition unpack_u64_lists :: "u8 list \<Rightarrow> (frame_error, u64 list list) outcome" where
  "unpack_u64_lists bytes = and_then (unpack_list_of_buffers bytes ''u64 lists'') (try_collect unpack_u64s)"

definition unpack_u32_lists :: "u8 list \<Rightarrow> (frame_error, u32 list list) outcome" where
  "unpack_u32_lists bytes =
     and_then (unpack_list_of_buffers bytes ''u32 lists'')
       (try_collect (\<lambda>b. unpack_fixed_width b 4 ''u32 values'' u32_from_le_bytes))"

definition unpack_i32_lists :: "u8 list \<Rightarrow> (frame_error, int list list) outcome" where
  "unpack_i32_lists bytes = and_then (unpack_list_of_buffers bytes ''i32 lists'') (try_collect unpack_i32s)"

definition optional_u32_lists :: "frame \<Rightarrow> usize \<Rightarrow> (frame_error, u32 list list) outcome" where
  "optional_u32_lists fr index =
     (case frame_get fr index of None \<Rightarrow> Ok [] | Some value \<Rightarrow> unpack_u32_lists value)"

section \<open>The two frame types\<close>

record kv_args_info =
  ka_room :: string
  ka_endpoint :: string
  ka_dst_port :: "16 word"
  ka_session_id :: string
  ka_dst_kv_ptrs :: "u64 list"
  ka_dst_aux_ptrs :: "u64 list"
  ka_dst_state_data_ptrs :: "u64 list list"
  ka_dst_tp_rank :: int
  ka_dst_attn_tp_size :: usize
  ka_dst_kv_item_len :: usize
  ka_dst_state_item_lens :: "u32 list list"
  ka_dst_state_dim_per_tensor :: "u32 list list"

definition kv_args_from_frame :: "frame \<Rightarrow> (frame_error, kv_args_info) outcome" where
  "kv_args_from_frame fr =
     and_then (require_min_fields fr 10 ''KVArgs registration'') (\<lambda>_.
     and_then (ascii_field fr 0 ''room'') (\<lambda>room.
     and_then (ascii_field fr 1 ''endpoint'') (\<lambda>endpoint.
     and_then (parse_u16 fr 2 ''dst_port'') (\<lambda>dst_port.
     and_then (ascii_field fr 3 ''session_id'') (\<lambda>session_id.
     and_then (and_then (field fr 4 ''dst_kv_ptrs'') unpack_u64s) (\<lambda>kv_ptrs.
     and_then (and_then (field fr 5 ''dst_aux_ptrs'') unpack_u64s) (\<lambda>aux_ptrs.
     and_then (and_then (field fr 6 ''dst_state_data_ptrs'') unpack_u64_lists) (\<lambda>state_ptrs.
     and_then (parse_i32 fr 7 ''dst_tp_rank'') (\<lambda>tp_rank.
     and_then (parse_usize fr 8 ''dst_attn_tp_size'') (\<lambda>attn_tp_size.
     and_then (parse_usize fr 9 ''dst_kv_item_len'') (\<lambda>item_len.
     and_then (optional_u32_lists fr 10) (\<lambda>item_lens.
     and_then (optional_u32_lists fr 11) (\<lambda>dims.
       Ok \<lparr>ka_room = room, ka_endpoint = endpoint, ka_dst_port = dst_port, ka_session_id = session_id,
           ka_dst_kv_ptrs = kv_ptrs, ka_dst_aux_ptrs = aux_ptrs, ka_dst_state_data_ptrs = state_ptrs,
           ka_dst_tp_rank = tp_rank, ka_dst_attn_tp_size = attn_tp_size, ka_dst_kv_item_len = item_len,
           ka_dst_state_item_lens = item_lens, ka_dst_state_dim_per_tensor = dims\<rparr>)))))))))))))"

record transfer_info =
  ti_room :: u64
  ti_endpoint :: string
  ti_dst_port :: "16 word"
  ti_session_id :: string
  ti_dst_kv_indices :: "int list"
  ti_dst_aux_index :: "int option"
  ti_dst_state_indices :: "int list list"
  ti_required_dst_info_num :: usize
  ti_is_dummy :: bool
  ti_decode_prefix_len :: "usize option"

definition transfer_indices :: "frame \<Rightarrow> bool \<Rightarrow> (frame_error, int list \<times> int option \<times> int list list) outcome" where
  "transfer_indices fr is_dummy =
     (if is_dummy then Ok ([], None, [])
      else and_then (and_then (field fr 4 ''dst_kv_indices'') unpack_i32s) (\<lambda>kv_indices.
           and_then (parse_i32 fr 5 ''dst_aux_index'') (\<lambda>aux_index.
           and_then (and_then (field fr 6 ''dst_state_indices'') unpack_i32_lists) (\<lambda>state_indices.
             Ok (kv_indices, Some aux_index, state_indices)))))"

text \<open>The test of field 4 comes first: field 5 is only looked at when field 4 is empty.\<close>

definition dummy_frame :: "frame \<Rightarrow> (frame_error, bool) outcome" where
  "dummy_frame fr =
     and_then (field fr 4 ''dst_kv_indices'') (\<lambda>kv.
       if kv = [] then and_then (field fr 5 ''dst_aux_index'') (\<lambda>aux. Ok (aux = [])) else Ok False)"

definition transfer_from_frame :: "frame \<Rightarrow> (frame_error, transfer_info) outcome" where
  "transfer_from_frame fr =
     and_then (require_min_fields fr 8 ''transfer metadata'') (\<lambda>_.
     and_then (dummy_frame fr) (\<lambda>is_dummy.
     and_then (transfer_indices fr is_dummy) (\<lambda>(kv_indices, aux_index, state_indices).
     and_then (parse_bootstrap_room fr 0 ''room'') (\<lambda>room.
     and_then (ascii_field fr 1 ''endpoint'') (\<lambda>endpoint.
     and_then (parse_u16 fr 2 ''dst_port'') (\<lambda>dst_port.
     and_then (ascii_field fr 3 ''session_id'') (\<lambda>session_id.
     and_then (parse_usize fr 7 ''required_dst_info_num'') (\<lambda>required.
     and_then (optional_usize fr 8 ''decode_prefix_len'') (\<lambda>prefix_len.
       Ok \<lparr>ti_room = room, ti_endpoint = endpoint, ti_dst_port = dst_port, ti_session_id = session_id,
           ti_dst_kv_indices = kv_indices, ti_dst_aux_index = aux_index, ti_dst_state_indices = state_indices,
           ti_required_dst_info_num = required, ti_is_dummy = is_dummy, ti_decode_prefix_len = prefix_len\<rparr>)))))))))"

record kv_args_registration =
  kr_endpoint :: string
  kr_dst_port :: "16 word"
  kr_session_id :: string
  kr_dst_kv_ptrs :: "u64 list"
  kr_dst_aux_ptrs :: "u64 list"
  kr_dst_state_data_ptrs :: "u64 list list"
  kr_dst_tp_rank :: int
  kr_dst_attn_tp_size :: usize
  kr_dst_kv_item_len :: usize
  kr_dst_state_item_lens :: "u32 list list"
  kr_dst_state_dim_per_tensor :: "u32 list list"

definition kv_args_to_frame :: "kv_args_registration \<Rightarrow> frame" where
  "kv_args_to_frame r =
     [str_bytes ''None'', str_bytes (kr_endpoint r), decimal (unat (kr_dst_port r)), str_bytes (kr_session_id r),
      pack_u64s (kr_dst_kv_ptrs r), pack_u64s (kr_dst_aux_ptrs r), pack_u64_lists (kr_dst_state_data_ptrs r),
      decimal_int (kr_dst_tp_rank r), decimal (kr_dst_attn_tp_size r), decimal (kr_dst_kv_item_len r),
      pack_u32_lists (kr_dst_state_item_lens r), pack_u32_lists (kr_dst_state_dim_per_tensor r), [], str_bytes ''0'']"

record transfer_metadata =
  md_room :: u64
  md_endpoint :: string
  md_dst_port :: "16 word"
  md_session_id :: string
  md_dst_kv_indices :: "int list"
  md_dst_aux_index :: "int option"
  md_dst_state_indices :: "int list list"
  md_required_dst_info_num :: usize
  md_decode_prefix_len :: "usize option"
  md_is_dummy :: bool

datatype decode_bootstrap_error =
    BootHttpStatus "16 word" string
  | InvalidHttpResponse
  | BootIo string
  | BootJson string
  | MissingAuxIndex string
  | BootTaskJoin string
  | BootZmq string

fun show_decode_bootstrap_error :: "decode_bootstrap_error \<Rightarrow> string" where
  "show_decode_bootstrap_error (BootHttpStatus st body) =
     ''bootstrap route query failed with HTTP '' @ show_usize (unat st) @ '': '' @ body"
| "show_decode_bootstrap_error InvalidHttpResponse = ''invalid bootstrap HTTP response''"
| "show_decode_bootstrap_error (BootIo e) = ''bootstrap HTTP client I/O error: '' @ e"
| "show_decode_bootstrap_error (BootJson e) = ''bootstrap HTTP JSON error: '' @ e"
| "show_decode_bootstrap_error (MissingAuxIndex session_id) =
     ''transfer metadata for '' @ session_id @ '' needs aux index''"
| "show_decode_bootstrap_error (BootTaskJoin e) = ''bootstrap client task join error: '' @ e"
| "show_decode_bootstrap_error (BootZmq e) = ''bootstrap ZMQ client error: '' @ e"

definition transfer_to_frame :: "transfer_metadata \<Rightarrow> (decode_bootstrap_error, frame) outcome" where
  "transfer_to_frame m =
     and_then
       (if md_is_dummy m then Ok ([], [], [])
        else and_then (ok_or (MissingAuxIndex (md_session_id m)) (md_dst_aux_index m)) (\<lambda>aux.
          Ok (pack_i32s (md_dst_kv_indices m), decimal_int aux, pack_i32_lists (md_dst_state_indices m))))
       (\<lambda>(kv_indices, aux_index, state_indices).
         Ok [decimal (unat (md_room m)), str_bytes (md_endpoint m), decimal (unat (md_dst_port m)), str_bytes (md_session_id m),
             kv_indices, aux_index, state_indices, decimal (md_required_dst_info_num m),
             decimal (case md_decode_prefix_len m of None \<Rightarrow> 0 | Some n \<Rightarrow> n)])"

section \<open>Printed numbers are read back\<close>

lemma of_char_char_of_digit: "d < 10 \<Longrightarrow> digit_value (char_of (48 + d)) = Some d"
  by (simp add: digit_value_def of_char_of)

lemma parse_digits_append:
  "parse_digits limit acc (xs @ ys) = Option.bind (parse_digits limit acc xs) (\<lambda>a. parse_digits limit a ys)"
  by (induction limit acc xs rule: parse_digits.induct) (auto split: option.splits)

lemma parse_digits_show: "n < limit \<Longrightarrow> parse_digits limit 0 (show_usize n) = Some n"
proof (induction n rule: show_usize.induct)
  case (1 n)
  show ?case
  proof (cases "n < 10")
    case True
    then show ?thesis using "1.prems" by (simp add: show_usize.simps [of n] of_char_char_of_digit)
  next
    case False
    then have "parse_digits limit 0 (show_usize (n div 10)) = Some (n div 10)" using 1 by simp
    moreover have "n div 10 * 10 + n mod 10 = n" by simp
    ultimately show ?thesis
      using False "1.prems" by (simp add: show_usize.simps [of n] parse_digits_append of_char_char_of_digit)
  qed
qed

lemma show_usize_digits: "c \<in> set (show_usize n) \<Longrightarrow> 48 \<le> (of_char c :: nat) \<and> (of_char c :: nat) \<le> 57"
proof (induction n rule: show_usize.induct)
  case (1 n)
  have "d < 10 \<Longrightarrow> of_char (char_of (48 + d) :: char) = 48 + d" for d :: nat
    by (simp add: of_char_of)
  then show ?case using 1 by (cases "n < 10") (auto simp: show_usize.simps [of n])
qed

lemma show_usize_ne [simp]: "show_usize n \<noteq> []"
  by (simp add: show_usize.simps [of n])

lemma show_usize_no_sign: "hd (show_usize n) \<noteq> CHR ''+''" "hd (show_usize n) \<noteq> CHR ''-''"
  using show_usize_digits [of "hd (show_usize n)" n] by auto

lemma parse_unsigned_show: "n < limit \<Longrightarrow> parse_unsigned limit (show_usize n) = Some n"
  using show_usize_no_sign(1) [of n] parse_digits_show [of n limit]
  by (cases "show_usize n") (simp_all add: parse_unsigned_def show_usize_ne [unfolded neq_Nil_conv])

lemma parse_signed_show:
  assumes "- int limit \<le> i" "i < int limit"
  shows "parse_signed limit (show_int i) = Some i"
proof (cases "i < 0")
  case True
  then have "nat (- i) < limit + 1" using assms by simp
  from parse_digits_show [OF this] show ?thesis
    using True by (simp add: parse_signed_def show_int_def parse_nonempty_def)
next
  case False
  then have "nat i < limit" using assms by simp
  from parse_unsigned_show [OF this] show ?thesis
    using False show_usize_no_sign(2) [of "nat i"]
    by (cases "show_usize (nat i)") (simp_all add: parse_signed_def show_int_def)
qed

lemma bytes_str_str_bytes [simp]: "bytes_str (str_bytes s) = s"
proof -
  have "char_of (unat (of_char c :: u8)) = c" for c
  proof -
    have "(of_char c :: u8) = of_nat (of_char c)" by (simp add: of_nat_of_char)
    moreover have "(of_char c :: nat) < 256" by simp
    ultimately show ?thesis by (simp add: unsigned_of_nat take_bit_nat_eq_self)
  qed
  then show ?thesis by (simp add: bytes_str_def str_bytes_def comp_def)
qed

lemma rust_string_ascii: "(\<And>c. c \<in> set s \<Longrightarrow> (of_char c :: nat) < 128) \<Longrightarrow> rust_string s"
proof (induction s)
  case (Cons c s)
  have "(of_char c :: u8) = of_nat (of_char c)" by (simp add: of_nat_of_char)
  then have "(of_char c :: u8) < 0x80"
    using Cons.prems [of c] by (simp add: word_less_nat_alt unsigned_of_nat take_bit_nat_eq_self)
  then show ?case using Cons by (simp add: rust_string_def str_bytes_def)
qed (simp add: rust_string_def str_bytes_def)

lemma rust_string_numbers [simp]: "rust_string (show_usize n)" "rust_string (show_int i)"
proof -
  show "rust_string (show_usize n)" for n by (rule rust_string_ascii) (drule show_usize_digits, simp)
  show "rust_string (show_int i)"
    by (rule rust_string_ascii) (auto simp: show_int_def dest: show_usize_digits split: if_splits)
qed

lemma from_utf8_str_bytes [simp]: "rust_string s \<Longrightarrow> from_utf8 (str_bytes s) = Some s"
  by (simp add: from_utf8_def rust_string_def)

section \<open>Packed lists are read back\<close>

lemma chunks_concat:
  assumes "\<forall>x \<in> set xs. length x = n" "0 < n"
  shows "chunks n (concat xs) = xs"
  using assms(1)
proof (induction xs)
  case (Cons x xs)
  then show ?case using assms(2) by (auto simp: chunks.simps [of n "x @ concat xs"])
qed simp

lemma unpack_fixed_width_concat:
  assumes "\<And>x. x \<in> set xs \<Longrightarrow> length (enc x) = w \<and> dec (enc x) = x" "0 < w"
  shows "unpack_fixed_width (concat (map enc xs)) w f dec = Ok xs"
proof -
  have "sum_list (map (length \<circ> enc) xs) = length xs * w"
    using assms(1) by (induction xs) simp_all
  then have "is_multiple_of (length (concat (map enc xs))) w"
    using assms(2) by (simp add: is_multiple_of_def length_concat)
  moreover have "chunks w (concat (map enc xs)) = map enc xs"
    by (rule chunks_concat) (use assms in auto)
  moreover have "map (dec \<circ> enc) xs = xs" using assms(1) by (simp add: map_idI)
  ultimately show ?thesis by (simp add: unpack_fixed_width_def)
qed

lemma split_buffers_concat:
  "split_buffers f (pre @ concat bs) (length pre) (map length bs) = Ok bs"
proof (induction bs arbitrary: pre)
  case (Cons b bs)
  from Cons [of "pre @ b"] show ?case by simp
qed simp

lemma u32_at_append: "u32_at (pre @ bytes) (length pre) = u32_at bytes 0"
  by (simp add: u32_at_def)

lemma u32_at_word: "u32_at (u32_to_le_bytes w @ rest) 0 = unat w"
  by (simp add: u32_at_def)

lemma u32_at_index:
  assumes "i < length ns"
  shows "u32_at (concat (map (\<lambda>n. u32_to_le_bytes (of_nat n)) ns) @ rest) (i * 4) = unat (of_nat (ns ! i) :: u32)"
  using assms
proof (induction ns arbitrary: i)
  case (Cons n ns)
  show ?case
  proof (cases i)
    case (Suc j)
    then show ?thesis
      using Cons u32_at_append [of "u32_to_le_bytes (of_nat n)"]
      by (simp add: u32_at_def)
  qed (simp add: u32_at_word)
qed simp

definition fits_u32 :: "'a list list \<Rightarrow> usize \<Rightarrow> bool" where
  "fits_u32 values width \<longleftrightarrow> length values < 2 ^ 32 \<and> (\<forall>v \<in> set values. length v * width < 2 ^ 32)"

lemma unpack_pack_buffers:
  assumes "fits_u32 bs 1"
  shows "unpack_list_of_buffers (pack_list_of_buffers bs) f = Ok bs"
proof (cases "bs = []")
  case False
  let ?lens = "concat (map (\<lambda>n. u32_to_le_bytes (of_nat n)) (map length bs))"
  let ?pre = "u32_to_le_bytes (of_nat (length bs)) @ ?lens"
  have packed: "pack_list_of_buffers bs = ?pre @ concat bs"
    using False by (simp add: pack_list_of_buffers_def comp_def)
  have count: "u32_at (?pre @ concat bs) 0 = length bs"
    using assms by (simp add: u32_at_word fits_u32_def unat_of_nat_le)
  have pre: "length ?pre = 4 + length bs * 4"
    by (simp add: length_concat comp_def sum_list_triv)
  have lens: "u32_at (?pre @ concat bs) (4 + i * 4) = length (bs ! i)" if "i < length bs" for i
  proof -
    have "length (bs ! i) < 2 ^ 32" using that assms by (simp add: fits_u32_def)
    then show ?thesis
      using that u32_at_index [of i "map length bs" "concat bs"] by (simp add: u32_at_def unat_of_nat_le)
  qed
  have "map (\<lambda>i. u32_at (?pre @ concat bs) (4 + i * 4)) [0 ..< length bs] = map length bs"
    by (rule nth_equalityI) (use lens in simp_all)
  moreover have "?pre @ concat bs \<noteq> []" "\<not> length (?pre @ concat bs) < 4" "\<not> length (?pre @ concat bs) < 4 + length bs * 4"
    using pre by (auto simp del: append_assoc dest: arg_cong [where f = length])
  ultimately have "unpack_list_of_buffers (pack_list_of_buffers bs) f =
      split_buffers f (?pre @ concat bs) (length ?pre) (map length bs)"
    unfolding unpack_list_of_buffers_def packed count Let_def pre by (simp only: if_False)
  then show ?thesis using split_buffers_concat [of f ?pre bs] by simp
qed (simp add: pack_list_of_buffers_def unpack_list_of_buffers_def)

lemma unpack_u64s_pack [simp]: "unpack_u64s (pack_u64s vs) = Ok vs"
  unfolding unpack_u64s_def pack_u64s_def by (rule unpack_fixed_width_concat) simp_all

lemma unpack_u32s_pack: "unpack_fixed_width (concat (map u32_to_le_bytes vs)) 4 f u32_from_le_bytes = Ok vs"
  by (rule unpack_fixed_width_concat) simp_all

definition i32_range :: "int \<Rightarrow> bool" where
  "i32_range i \<longleftrightarrow> - (2 ^ 31) \<le> i \<and> i < 2 ^ 31"

lemma i32_le_roundtrip: "i32_range i \<Longrightarrow> i32_from_le_bytes (i32_to_le_bytes i) = i"
  by (simp add: i32_from_le_bytes_def i32_to_le_bytes_def i32_range_def signed_of_int signed_take_bit_int_eq_self)

lemma unpack_i32s_pack: "\<forall>v \<in> set vs. i32_range v \<Longrightarrow> unpack_i32s (pack_i32s vs) = Ok vs"
  unfolding unpack_i32s_def pack_i32s_def by (rule unpack_fixed_width_concat) (simp_all add: i32_le_roundtrip)

lemma length_concat_width: "(\<And>x. length (enc x) = w) \<Longrightarrow> length (concat (map enc xs)) = length xs * w"
  by (induction xs) simp_all

lemma fits_map: "(\<And>x. length (enc x) = w) \<Longrightarrow> fits_u32 values w \<Longrightarrow> fits_u32 (map (\<lambda>vs. concat (map enc vs)) values) 1"
  by (auto simp: fits_u32_def length_concat_width)

lemma unpack_u64_lists_pack [simp]: "fits_u32 vs 8 \<Longrightarrow> unpack_u64_lists (pack_u64_lists vs) = Ok vs"
  using fits_map [of u64_to_le_bytes 8 vs] unpack_pack_buffers [of "map pack_u64s vs"]
  by (simp add: unpack_u64_lists_def pack_u64_lists_def pack_u64s_def [abs_def] try_collect_map)
    (simp add: try_collect_map flip: pack_u64s_def)

lemma unpack_u32_lists_pack [simp]: "fits_u32 vs 4 \<Longrightarrow> unpack_u32_lists (pack_u32_lists vs) = Ok vs"
  using fits_map [of u32_to_le_bytes 4 vs] unpack_pack_buffers [of "map (\<lambda>vs. concat (map u32_to_le_bytes vs)) vs"]
  by (simp add: unpack_u32_lists_def pack_u32_lists_def try_collect_map unpack_u32s_pack)

lemma unpack_i32_lists_pack:
  assumes "fits_u32 vs 4" "\<forall>v \<in> set vs. \<forall>i \<in> set v. i32_range i"
  shows "unpack_i32_lists (pack_i32_lists vs) = Ok vs"
proof -
  have "fits_u32 (map pack_i32s vs) 1"
    using fits_map [of i32_to_le_bytes 4 vs] assms(1) by (simp add: pack_i32s_def [abs_def])
  from unpack_pack_buffers [OF this] show ?thesis
    using assms(2) by (simp add: unpack_i32_lists_def pack_i32_lists_def try_collect_map unpack_i32s_pack)
qed

section \<open>Frames are read back\<close>

lemma frame_get_field: "i < length fr \<Longrightarrow> field fr i name = Ok (fr ! i)"
  by (simp add: field_def frame_get_def ok_or_def)

lemma ascii_field_str: "i < length fr \<Longrightarrow> fr ! i = str_bytes s \<Longrightarrow> rust_string s \<Longrightarrow> ascii_field fr i name = Ok s"
  by (simp add: ascii_field_def frame_get_field ok_or_def)

lemma parse_usize_decimal: "i < length fr \<Longrightarrow> fr ! i = decimal n \<Longrightarrow> n < 2 ^ 64 \<Longrightarrow> parse_usize fr i name = Ok n"
  by (simp add: parse_usize_def decimal_def ascii_field_str parse_unsigned_show ok_or_def)

lemma parse_u16_decimal: "i < length fr \<Longrightarrow> fr ! i = decimal (unat p) \<Longrightarrow> parse_u16 fr i name = Ok p"
  using unsigned_less [of p, where ?'a = nat]
  by (simp add: parse_u16_def decimal_def ascii_field_str parse_unsigned_show ok_or_def)

lemma parse_i32_decimal: "i < length fr \<Longrightarrow> fr ! i = decimal_int v \<Longrightarrow> i32_range v \<Longrightarrow> parse_i32 fr i name = Ok v"
  by (simp add: parse_i32_def decimal_int_def ascii_field_str parse_signed_show ok_or_def i32_range_def)

lemma parse_room_decimal:
  "i < length fr \<Longrightarrow> fr ! i = decimal (unat room) \<Longrightarrow> unat room < 2 ^ 63 \<Longrightarrow> parse_bootstrap_room fr i name = Ok room"
  by (simp add: parse_bootstrap_room_def decimal_def ascii_field_str parse_unsigned_show ok_or_def)

lemma decimal_ne: "decimal n \<noteq> []" "decimal_int i \<noteq> []"
  by (simp_all add: decimal_def decimal_int_def str_bytes_def show_int_def)

definition wf_registration :: "kv_args_registration \<Rightarrow> bool" where
  "wf_registration r \<longleftrightarrow> rust_string (kr_endpoint r) \<and> rust_string (kr_session_id r) \<and> i32_range (kr_dst_tp_rank r) \<and>
     kr_dst_attn_tp_size r < 2 ^ 64 \<and> kr_dst_kv_item_len r < 2 ^ 64 \<and> fits_u32 (kr_dst_state_data_ptrs r) 8 \<and>
     fits_u32 (kr_dst_state_item_lens r) 4 \<and> fits_u32 (kr_dst_state_dim_per_tensor r) 4"

definition registered_info :: "kv_args_registration \<Rightarrow> kv_args_info" where
  "registered_info r =
     \<lparr>ka_room = ''None'', ka_endpoint = kr_endpoint r, ka_dst_port = kr_dst_port r, ka_session_id = kr_session_id r,
      ka_dst_kv_ptrs = kr_dst_kv_ptrs r, ka_dst_aux_ptrs = kr_dst_aux_ptrs r, ka_dst_state_data_ptrs = kr_dst_state_data_ptrs r,
      ka_dst_tp_rank = kr_dst_tp_rank r, ka_dst_attn_tp_size = kr_dst_attn_tp_size r, ka_dst_kv_item_len = kr_dst_kv_item_len r,
      ka_dst_state_item_lens = kr_dst_state_item_lens r, ka_dst_state_dim_per_tensor = kr_dst_state_dim_per_tensor r\<rparr>"

lemma rust_string_None: "rust_string ''None''"
  by (rule rust_string_ascii) auto

theorem kv_args_frame_roundtrip:
  assumes "wf_registration r"
  shows "kv_args_from_frame (kv_args_to_frame r) = Ok (registered_info r)"
proof -
  let ?fr = "kv_args_to_frame r"
  have len: "length ?fr = 14" by (simp add: kv_args_to_frame_def)
  have fields: "?fr ! 0 = str_bytes ''None''" "?fr ! 1 = str_bytes (kr_endpoint r)" "?fr ! 2 = decimal (unat (kr_dst_port r))"
    "?fr ! 3 = str_bytes (kr_session_id r)" "?fr ! 4 = pack_u64s (kr_dst_kv_ptrs r)" "?fr ! 5 = pack_u64s (kr_dst_aux_ptrs r)"
    "?fr ! 6 = pack_u64_lists (kr_dst_state_data_ptrs r)" "?fr ! 7 = decimal_int (kr_dst_tp_rank r)"
    "?fr ! 8 = decimal (kr_dst_attn_tp_size r)" "?fr ! 9 = decimal (kr_dst_kv_item_len r)"
    "?fr ! 10 = pack_u32_lists (kr_dst_state_item_lens r)" "?fr ! 11 = pack_u32_lists (kr_dst_state_dim_per_tensor r)"
    by (simp_all add: kv_args_to_frame_def)
  show ?thesis
    using assms unfolding kv_args_from_frame_def wf_registration_def
    by (simp add: require_min_fields_def optional_u32_lists_def frame_get_def len fields
        ascii_field_str [where fr = ?fr] parse_usize_decimal [where fr = ?fr] parse_u16_decimal [where fr = ?fr]
        parse_i32_decimal [where fr = ?fr] frame_get_field [where fr = ?fr] rust_string_None registered_info_def del: One_nat_def)
qed

definition wf_metadata :: "transfer_metadata \<Rightarrow> bool" where
  "wf_metadata m \<longleftrightarrow> unat (md_room m) < 2 ^ 63 \<and> rust_string (md_endpoint m) \<and> rust_string (md_session_id m) \<and>
     (\<forall>i \<in> set (md_dst_kv_indices m). i32_range i) \<and> (\<forall>v \<in> set (md_dst_state_indices m). \<forall>i \<in> set v. i32_range i) \<and>
     (\<forall>a \<in> set_option (md_dst_aux_index m). i32_range a) \<and> fits_u32 (md_dst_state_indices m) 4 \<and>
     md_required_dst_info_num m < 2 ^ 64 \<and> (\<forall>n \<in> set_option (md_decode_prefix_len m). n < 2 ^ 64)"

text \<open>What the receiver knows: a dummy carries no indices, and an absent prefix length arrives as zero.\<close>

definition announced_info :: "transfer_metadata \<Rightarrow> transfer_info" where
  "announced_info m =
     \<lparr>ti_room = md_room m, ti_endpoint = md_endpoint m, ti_dst_port = md_dst_port m, ti_session_id = md_session_id m,
      ti_dst_kv_indices = (if md_is_dummy m then [] else md_dst_kv_indices m),
      ti_dst_aux_index = (if md_is_dummy m then None else md_dst_aux_index m),
      ti_dst_state_indices = (if md_is_dummy m then [] else md_dst_state_indices m),
      ti_required_dst_info_num = md_required_dst_info_num m, ti_is_dummy = md_is_dummy m,
      ti_decode_prefix_len = Some (case md_decode_prefix_len m of None \<Rightarrow> 0 | Some n \<Rightarrow> n)\<rparr>"

theorem transfer_frame_roundtrip:
  assumes "transfer_to_frame m = Ok fr" "wf_metadata m"
  shows "transfer_from_frame fr = Ok (announced_info m)"
proof -
  let ?d = "md_is_dummy m" and ?n = "case md_decode_prefix_len m of None \<Rightarrow> 0 | Some n \<Rightarrow> n"
  from assms(1) obtain kv aux st where idx:
      "(if ?d then Ok ([], [], [])
        else and_then (ok_or (MissingAuxIndex (md_session_id m)) (md_dst_aux_index m)) (\<lambda>aux.
          Ok (pack_i32s (md_dst_kv_indices m), decimal_int aux, pack_i32_lists (md_dst_state_indices m)))) = Ok (kv, aux, st)"
    and fr: "fr = [decimal (unat (md_room m)), str_bytes (md_endpoint m), decimal (unat (md_dst_port m)), str_bytes (md_session_id m),
             kv, aux, st, decimal (md_required_dst_info_num m), decimal ?n]"
    by (auto simp: transfer_to_frame_def and_then_Ok)
  have len: "length fr = 9" and f: "fr ! 0 = decimal (unat (md_room m))" "fr ! 1 = str_bytes (md_endpoint m)"
    "fr ! 2 = decimal (unat (md_dst_port m))" "fr ! 3 = str_bytes (md_session_id m)" "fr ! 4 = kv" "fr ! 5 = aux" "fr ! 6 = st"
    "fr ! 7 = decimal (md_required_dst_info_num m)" "fr ! 8 = decimal ?n"
    by (simp_all add: fr)
  have n: "?n < 2 ^ 64" using assms(2) by (simp add: wf_metadata_def split: option.splits)
  have dummy: "dummy_frame fr = Ok ?d"
    using idx by (auto simp: dummy_frame_def frame_get_field len f decimal_ne outcome_simps split: if_splits)
  have indices: "transfer_indices fr ?d =
      Ok (ti_dst_kv_indices (announced_info m), ti_dst_aux_index (announced_info m), ti_dst_state_indices (announced_info m))"
  proof (cases ?d)
    case False
    then obtain a where "md_dst_aux_index m = Some a" "aux = decimal_int a" "kv = pack_i32s (md_dst_kv_indices m)"
      "st = pack_i32_lists (md_dst_state_indices m)" using idx by (auto simp: outcome_simps)
    then show ?thesis
      using False assms(2)
      by (simp add: transfer_indices_def frame_get_field len f parse_i32_decimal unpack_i32s_pack unpack_i32_lists_pack
          wf_metadata_def announced_info_def)
  qed (simp add: transfer_indices_def announced_info_def)
  show ?thesis
    using assms(2) n unfolding transfer_from_frame_def wf_metadata_def
    by (simp add: require_min_fields_def dummy indices optional_usize_def frame_get_def len f decimal_ne
        ascii_field_str parse_usize_decimal parse_u16_decimal parse_room_decimal del: One_nat_def)
      (simp add: announced_info_def)
qed

section \<open>No frame makes the reader panic\<close>

named_theorems no_panic

lemma and_then_no_panic [no_panic]: "m \<noteq> Panic \<Longrightarrow> (\<And>a. f a \<noteq> Panic) \<Longrightarrow> and_then m f \<noteq> Panic"
  by (cases m) simp_all

lemma ok_or_no_panic [no_panic]: "ok_or e x \<noteq> Panic"
  by (simp add: ok_or_def split: option.splits)

lemma split_buffers_no_panic [no_panic]: "split_buffers f bytes offset lens \<noteq> Panic"
  by (induction f bytes offset lens rule: split_buffers.induct) (simp_all add: outcome_simps)

lemma try_collect_no_panic [no_panic]: "(\<And>x. f x \<noteq> Panic) \<Longrightarrow> try_collect f xs \<noteq> Panic"
  by (induction xs) (simp_all add: outcome_simps)

lemma fields_no_panic [no_panic]:
  "field fr i name \<noteq> Panic" "ascii_field fr i name \<noteq> Panic" "parse_u16 fr i name \<noteq> Panic" "parse_i32 fr i name \<noteq> Panic"
  "parse_usize fr i name \<noteq> Panic" "parse_bootstrap_room fr i name \<noteq> Panic" "optional_usize fr i name \<noteq> Panic"
  "require_min_fields fr k name \<noteq> Panic"
  by (auto simp: field_def ascii_field_def parse_u16_def parse_i32_def parse_usize_def parse_bootstrap_room_def
      optional_usize_def require_min_fields_def outcome_simps ok_or_no_panic split: option.splits if_splits)

lemma unpack_no_panic [no_panic]:
  "unpack_fixed_width b w f d \<noteq> Panic" "unpack_u64s b \<noteq> Panic" "unpack_i32s b \<noteq> Panic" "unpack_list_of_buffers b f \<noteq> Panic"
  by (simp_all add: unpack_fixed_width_def unpack_u64s_def unpack_i32s_def unpack_list_of_buffers_def Let_def
      split_buffers_no_panic)

lemma unpack_lists_no_panic [no_panic]:
  "unpack_u64_lists b \<noteq> Panic" "unpack_u32_lists b \<noteq> Panic" "unpack_i32_lists b \<noteq> Panic" "optional_u32_lists fr i \<noteq> Panic"
  unfolding unpack_u64_lists_def unpack_u32_lists_def unpack_i32_lists_def optional_u32_lists_def
  by (intro no_panic, auto simp: no_panic split: option.splits)+

lemma kv_args_no_panic [no_panic]: "kv_args_from_frame fr \<noteq> Panic"
  unfolding kv_args_from_frame_def by (intro no_panic outcome.distinct)

lemma transfer_no_panic [no_panic]: "transfer_from_frame fr \<noteq> Panic"
proof -
  have "dummy_frame fr \<noteq> Panic" by (auto simp: dummy_frame_def outcome_simps no_panic split: if_splits)
  moreover have "transfer_indices fr d \<noteq> Panic" for d
    by (auto simp: transfer_indices_def outcome_simps no_panic split: if_splits)
  ultimately show ?thesis
    unfolding transfer_from_frame_def by (auto simp: outcome_simps no_panic split: prod.splits)
qed

end
