(* ===== verification/Pd_Control.thy ===== *)
theory Pd_Control
  imports Pd_Wire
begin

text \<open>
  The control channel by which a prefill instance tells a decode instance how a transfer ended (\<open>transfer/pd_control.rs\<close>):
  the inbox of the decode side with one entry per room, the frames and their ingestion, and the waits.  The receive loop of the
  socket thread is \<open>receive_message\<close>; a wait sees the inbox states that the condition variable wakes it for.
\<close>

section \<open>Inbox\<close>

text \<open>\<open>ControlUtf8 bs\<close> stands for the message of the \<open>Utf8Error\<close> on these bytes.\<close>

datatype control_error = ControlText string | ControlUtf8 "u8 list"

record pd_room =
  pr_token :: "u32 option"
  pr_recurrent_state :: "u8 list option"
  pr_terminal :: "(control_error + unit) option"
  pr_abort_ack :: bool

definition pd_room_default :: pd_room where
  "pd_room_default = \<lparr>pr_token = None, pr_recurrent_state = None, pr_terminal = None, pr_abort_ack = False\<rparr>"

record pd_inbox =
  ib_rooms :: "(u64 \<times> pd_room) list"
  ib_failure :: "control_error option"

definition pd_inbox_default :: pd_inbox where
  "pd_inbox_default = \<lparr>ib_rooms = [], ib_failure = None\<rparr>"

definition show_room :: "u64 \<Rightarrow> string" where
  "show_room room = show_usize (unat room)"

definition register_room :: "u64 \<Rightarrow> pd_inbox \<Rightarrow> (control_error, unit) outcome \<times> pd_inbox" where
  "register_room room st =
     (case map_of (ib_rooms st) room of
        None \<Rightarrow> (Ok (), st\<lparr>ib_rooms := btree_insert room pd_room_default (ib_rooms st)\<rparr>)
      | Some _ \<Rightarrow> (Err (ControlText (''duplicate decode receive room '' @ show_room room)), st))"

definition room_drained :: "pd_room \<Rightarrow> bool" where
  "room_drained r \<longleftrightarrow> pr_abort_ack r \<or> pr_terminal r \<noteq> None"

definition is_drained :: "u64 \<Rightarrow> pd_inbox \<Rightarrow> bool" where
  "is_drained room st = (case map_of (ib_rooms st) room of None \<Rightarrow> False | Some received \<Rightarrow> room_drained received)"

definition remove_room :: "u64 \<Rightarrow> pd_inbox \<Rightarrow> pd_inbox" where
  "remove_room room st = st\<lparr>ib_rooms := AList.delete room (ib_rooms st)\<rparr>"

text \<open>The body of the loop of \<open>wait\<close> up to the deadline test: \<open>None\<close> when it goes on waiting.\<close>

definition wait_check ::
  "u64 \<Rightarrow> bool \<Rightarrow> pd_inbox \<Rightarrow> (control_error, u32 option \<times> u8 list option) outcome option" where
  "wait_check room cancel st =
     (case ib_failure st of
        Some e \<Rightarrow> Some (Err e)
      | None \<Rightarrow>
          (case map_of (ib_rooms st) room of
             None \<Rightarrow> Some (Err (ControlText (''unregistered decode room '' @ show_room room)))
           | Some received \<Rightarrow>
               if cancel \<and> room_drained received then Some (Ok (pr_token received, pr_recurrent_state received))
               else case pr_terminal received of
                   Some (Inl e) \<Rightarrow> Some (Err e)
                 | Some (Inr _) \<Rightarrow>
                     if pr_token received \<noteq> None then Some (Ok (pr_token received, pr_recurrent_state received)) else None
                 | None \<Rightarrow> None))"

text \<open>The states the wait sees: one at entry, one per wake-up before the deadline.\<close>

fun wait_room ::
  "u64 \<Rightarrow> bool \<Rightarrow> pd_inbox list \<Rightarrow> (control_error, u32 option \<times> u8 list option) outcome" where
  "wait_room room cancel [] =
     Err (ControlText (''timed out waiting for PD control room '' @ show_room room @
       ''; KV memory remains reserved until sender drain acknowledgement''))"
| "wait_room room cancel (st # seen) = (case wait_check room cancel st of Some r \<Rightarrow> r | None \<Rightarrow> wait_room room cancel seen)"

definition receiver_token_and_state :: "u64 \<Rightarrow> pd_inbox list \<Rightarrow> (control_error, u32 \<times> u8 list option) outcome" where
  "receiver_token_and_state room seen =
     and_then (wait_room room False seen) (\<lambda>(token, state).
     and_then (ok_or (ControlText (''room '' @ show_room room @ '' completed without a first token'')) token) (\<lambda>token.
       Ok (token, state)))"

definition wait_drained :: "u64 \<Rightarrow> pd_inbox list \<Rightarrow> (control_error, unit) outcome" where
  "wait_drained room seen = and_then (wait_room room True seen) (\<lambda>_. Ok ())"

section \<open>Ingestion of control frames\<close>

definition control_ascii :: "(string \<Rightarrow> 'a option) \<Rightarrow> u8 list option \<Rightarrow> (control_error, 'a) outcome" where
  "control_ascii parse fr =
     and_then (ok_or (ControlText ''missing PD control field'') fr) (\<lambda>bs.
     and_then (ok_or (ControlUtf8 bs) (from_utf8 bs)) (\<lambda>s.
       ok_or (ControlText ''invalid PD control field'') (parse s)))"

definition u32_from_be_bytes :: "u8 list \<Rightarrow> u32" where
  "u32_from_be_bytes bs = u32_from_le_bytes (rev bs)"

definition u32_to_be_bytes :: "u32 \<Rightarrow> u8 list" where
  "u32_to_be_bytes w = rev (u32_to_le_bytes w)"

text \<open>The native byte order of the supported targets is little endian.\<close>

definition aux_token :: "u8 list \<Rightarrow> (control_error, u32) outcome" where
  "aux_token payload =
     (let token = i32_from_le_bytes (take 4 payload)
      in if token < 0 then Err (ControlText ''negative prefill token'') else Ok (word_of_int token))"

definition ingest_aux :: "frame \<Rightarrow> pd_room \<Rightarrow> (control_error, pd_room) outcome" where
  "ingest_aux frs room =
     (if length frs \<noteq> 6 then Err (ControlText ''invalid AUX_DATA frame count'')
      else and_then (control_ascii (parse_unsigned (2 ^ 64)) (frame_get frs 2)) (\<lambda>buffer.
           and_then (control_ascii (parse_unsigned (2 ^ 64)) (frame_get frs 3)) (\<lambda>_.
             if length (frs ! 4) \<noteq> 4 then Err (ControlText ''invalid AUX_DATA length'')
             else
               let len = unat (u32_from_be_bytes (frs ! 4))
               in if length (frs ! 5) \<noteq> len then Err (ControlText ''AUX_DATA payload length mismatch'')
                  else if buffer = 0
                  then (if len \<noteq> 64 then Err (ControlText ''first-token auxiliary buffer must contain 16 int32 values'')
                        else and_then (aux_token (frs ! 5)) (\<lambda>token. Ok (room\<lparr>pr_token := Some token\<rparr>)))
                  else if buffer = 1 then Ok (room\<lparr>pr_recurrent_state := Some (frs ! 5)\<rparr>)
                  else Ok room)))"

definition rank_zero :: "frame \<Rightarrow> string \<Rightarrow> (control_error, unit) outcome" where
  "rank_zero frs message =
     (if length frs < 3 then Err (ControlText message)
      else and_then (control_ascii (parse_unsigned (2 ^ 32)) (frame_get frs 2)) (\<lambda>rank.
        if rank \<noteq> 0 then Err (ControlText message) else Ok ()))"

definition ingest_ack :: "frame \<Rightarrow> pd_room \<Rightarrow> (control_error, pd_room) outcome" where
  "ingest_ack frs room =
     and_then (rank_zero frs ''single-rank PD requires rank-zero drain acknowledgement'') (\<lambda>_. Ok (room\<lparr>pr_abort_ack := True\<rparr>))"

definition ingest_status :: "frame \<Rightarrow> pd_room \<Rightarrow> (control_error, pd_room) outcome" where
  "ingest_status frs room =
     and_then (rank_zero frs ''single-rank PD requires rank-zero completion'') (\<lambda>_.
     and_then (control_ascii (parse_unsigned (2 ^ 8)) (frame_get frs 1)) (\<lambda>status.
       if status = 4 then Ok (room\<lparr>pr_terminal := Some (Inr ())\<rparr>)
       else if status = 0
       then Ok (room\<lparr>pr_terminal := Some (Inl (ControlText
              (case frame_get frs 3 of Some bytes \<Rightarrow> bytes_str (utf8_lossy bytes) | None \<Rightarrow> ''prefill transfer failed'')))\<rparr>)
       else Err (ControlText (''unexpected nonterminal PD control status '' @ show_usize status))))"

definition ingest :: "frame \<Rightarrow> pd_inbox \<Rightarrow> (control_error, pd_inbox) outcome" where
  "ingest frs st =
     (case frs of
        [] \<Rightarrow> Err (ControlText ''empty PD control frame'')
      | header # _ \<Rightarrow>
          let aux = (header = str_bytes ''AUX_DATA''); ack = (header = str_bytes ''ABORT_ACK'')
          in and_then (control_ascii (parse_unsigned (2 ^ 64)) (frame_get frs (if aux \<or> ack then 1 else 0))) (\<lambda>n.
               let room_id = of_nat n
               in case map_of (ib_rooms st) room_id of
                    None \<Rightarrow> Ok st
                  | Some room \<Rightarrow>
                      and_then (if ack then ingest_ack frs room else if aux then ingest_aux frs room else ingest_status frs room)
                        (\<lambda>room. Ok (st\<lparr>ib_rooms := AList.update room_id room (ib_rooms st)\<rparr>))))"

text \<open>The socket thread: a frame that cannot be ingested is recorded as the failure of the receiver.\<close>

definition receive_message :: "frame \<Rightarrow> pd_inbox \<Rightarrow> pd_inbox" where
  "receive_message frs st = (case ingest frs st of Ok st' \<Rightarrow> st' | Err e \<Rightarrow> st\<lparr>ib_failure := Some e\<rparr> | Panic \<Rightarrow> st)"

section \<open>Completion frames\<close>

definition token_frame :: "u64 \<Rightarrow> u32 \<Rightarrow> int \<Rightarrow> frame" where
  "token_frame room token aux_index =
     [str_bytes ''AUX_DATA'', str_bytes (show_room room), str_bytes ''0'', decimal_int aux_index, u32_to_be_bytes 64,
      u32_to_le_bytes token @ replicate 60 0]"

definition state_frame :: "u64 \<Rightarrow> u8 list \<Rightarrow> int \<Rightarrow> frame" where
  "state_frame room state aux_index =
     [str_bytes ''AUX_DATA'', str_bytes (show_room room), str_bytes ''1'', decimal_int aux_index,
      u32_to_be_bytes (of_nat (length state)), state]"

definition status_frame :: "u64 \<Rightarrow> string option \<Rightarrow> frame" where
  "status_frame room e =
     [str_bytes (show_room room), str_bytes (if e \<noteq> None then ''0'' else ''4''), str_bytes ''0'',
      str_bytes (case e of None \<Rightarrow> [] | Some m \<Rightarrow> m)]"

definition completion_frames ::
  "u64 \<Rightarrow> u32 option \<Rightarrow> u8 list option \<Rightarrow> string option \<Rightarrow> int \<Rightarrow> (string, frame list) outcome" where
  "completion_frames room token recurrent_state e aux_index =
     and_then (case token of
         None \<Rightarrow> Ok []
       | Some t \<Rightarrow> if unat t \<ge> 2 ^ 31 then Err ''prefill token exceeds community int32 auxiliary field''
                   else Ok [token_frame room t aux_index]) (\<lambda>frames1.
     and_then (case recurrent_state of
         None \<Rightarrow> Ok []
       | Some s \<Rightarrow> if length s \<ge> 2 ^ 32 then Err ''recurrent state length exceeds u32''
                   else Ok [state_frame room s aux_index]) (\<lambda>frames2.
       Ok (frames1 @ frames2 @ [status_frame room e])))"

definition abort_ack_frame :: "u64 \<Rightarrow> frame" where
  "abort_ack_frame room = [str_bytes ''ABORT_ACK'', str_bytes (show_room room), str_bytes ''0'']"

section \<open>What a control frame says\<close>

text \<open>Readings of a frame that do not depend on the inbox: the room it is for and what it reports of it.\<close>

definition number_at :: "usize \<Rightarrow> frame \<Rightarrow> usize \<Rightarrow> usize option" where
  "number_at limit f i = Option.bind (Option.bind (frame_get f i) from_utf8) (parse_unsigned limit)"

definition aux_for :: "u64 \<Rightarrow> usize \<Rightarrow> u8 list \<Rightarrow> frame \<Rightarrow> bool" where
  "aux_for room buffer payload f \<longleftrightarrow> frame_get f 0 = Some (str_bytes ''AUX_DATA'') \<and>
     map_option of_nat (number_at (2 ^ 64) f 1) = Some room \<and> number_at (2 ^ 64) f 2 = Some buffer \<and> frame_get f 5 = Some payload"

definition token_for :: "u64 \<Rightarrow> u32 \<Rightarrow> frame \<Rightarrow> bool" where
  "token_for room token f \<longleftrightarrow> (\<exists>payload. aux_for room 0 payload f \<and> length payload = 64 \<and>
     u32_from_le_bytes (take 4 payload) = token \<and> unat token < 2 ^ 31)"

definition status_for :: "u64 \<Rightarrow> usize \<Rightarrow> frame \<Rightarrow> bool" where
  "status_for room status f \<longleftrightarrow> map_option of_nat (number_at (2 ^ 64) f 0) = Some room \<and>
     number_at (2 ^ 8) f 1 = Some status \<and> number_at (2 ^ 32) f 2 = Some 0"

definition ack_for :: "u64 \<Rightarrow> frame \<Rightarrow> bool" where
  "ack_for room f \<longleftrightarrow> frame_get f 0 = Some (str_bytes ''ABORT_ACK'') \<and>
     map_option of_nat (number_at (2 ^ 64) f 1) = Some room \<and> number_at (2 ^ 32) f 2 = Some 0"

lemma control_ascii_Ok: "control_ascii (parse_unsigned limit) (frame_get f i) = Ok n \<longleftrightarrow> number_at limit f i = Some n"
  by (auto simp: control_ascii_def number_at_def outcome_simps bind_eq_Some_conv)

lemma control_ascii_no_panic [no_panic]: "control_ascii parse fr \<noteq> Panic"
  by (auto simp: control_ascii_def outcome_simps no_panic)

lemma rank_zero_Ok: "rank_zero f m = Ok u \<longleftrightarrow> 3 \<le> length f \<and> number_at (2 ^ 32) f 2 = Some 0"
  by (auto simp: rank_zero_def outcome_simps control_ascii_Ok not_less)

lemma rank_zero_no_panic [no_panic]: "rank_zero f m \<noteq> Panic"
  by (auto simp: rank_zero_def outcome_simps no_panic)

lemma ingest_no_panic [no_panic]: "ingest f st \<noteq> Panic"
  by (auto simp: ingest_def Let_def ingest_ack_def ingest_aux_def ingest_status_def aux_token_def outcome_simps no_panic
      split: list.splits option.splits if_splits)

definition room_entry :: "pd_inbox \<Rightarrow> u64 \<Rightarrow> pd_room option" where
  "room_entry st room = map_of (ib_rooms st) room"

lemma sint_nonneg_iff: "0 \<le> sint (w :: u32) \<longleftrightarrow> unat w < 2 ^ 31"
proof -
  have "0 \<le> uint w" "uint w < 2 ^ 32" using unsigned_less [of w, where ?'a = int] by simp_all
  then have "even (uint w div 2 ^ 31) \<longleftrightarrow> uint w < 2 ^ 31"
    by (cases "uint w < 2 ^ 31") (auto simp: div_pos_geq)
  moreover have "0 \<le> sint w \<longleftrightarrow> \<not> bit (uint w) 31"
    by (simp add: sint_uint signed_take_bit_nonnegative_iff)
  moreover have "unat w < 2 ^ 31 \<longleftrightarrow> uint w < 2 ^ 31"
    using of_nat_less_iff [of "unat w" "2 ^ 31", where ?'a = int] by simp
  ultimately show ?thesis by (simp only: bit_iff_odd not_not)
qed

lemma aux_token_Ok: "aux_token payload = Ok t \<longleftrightarrow> u32_from_le_bytes (take 4 payload) = t \<and> unat t < 2 ^ 31"
  using sint_nonneg_iff [of "u32_from_le_bytes (take 4 payload)"]
  by (auto simp: aux_token_def i32_from_le_bytes_def)

text \<open>The effect of one frame on the entry of its room, as a relation between the entry before and after.\<close>

inductive says :: "u64 \<Rightarrow> frame \<Rightarrow> pd_room \<Rightarrow> pd_room \<Rightarrow> bool" for room f where
  ack: "ack_for room f \<Longrightarrow> says room f r (r\<lparr>pr_abort_ack := True\<rparr>)"
| token: "token_for room t f \<Longrightarrow> says room f r (r\<lparr>pr_token := Some t\<rparr>)"
| state: "aux_for room 1 payload f \<Longrightarrow> says room f r (r\<lparr>pr_recurrent_state := Some payload\<rparr>)"
| other: "says room f r r"
| success: "status_for room 4 f \<Longrightarrow> says room f r (r\<lparr>pr_terminal := Some (Inr ())\<rparr>)"
| failure: "status_for room 0 f \<Longrightarrow> says room f r (r\<lparr>pr_terminal := Some (Inl e)\<rparr>)"

lemma number_at_frame: "number_at limit f i = Some n \<Longrightarrow> i < length f"
  by (auto simp: number_at_def frame_get_def bind_eq_Some_conv split: if_splits)

lemma ingest_ack_says:
  assumes "ingest_ack f r = Ok r'" "frame_get f 0 = Some (str_bytes ''ABORT_ACK'')" "map_option of_nat (number_at (2 ^ 64) f 1) = Some room"
  shows "says room f r r'"
proof -
  have "r' = r\<lparr>pr_abort_ack := True\<rparr>" "ack_for room f"
    using assms by (auto simp: ingest_ack_def outcome_simps rank_zero_Ok ack_for_def)
  then show ?thesis by (simp add: says.ack)
qed

lemma ingest_status_says:
  assumes "ingest_status f r = Ok r'" "map_option of_nat (number_at (2 ^ 64) f 0) = Some room"
  shows "says room f r r'"
proof -
  from assms obtain st where st: "number_at (2 ^ 8) f 1 = Some st" "number_at (2 ^ 32) f 2 = Some 0"
    and "st = 4 \<and> r' = r\<lparr>pr_terminal := Some (Inr ())\<rparr> \<or> st = 0 \<and> (\<exists>e. r' = r\<lparr>pr_terminal := Some (Inl e)\<rparr>)"
    by (auto simp: ingest_status_def outcome_simps rank_zero_Ok control_ascii_Ok split: if_splits)
  then show ?thesis
    using assms(2) says.success [of room f r] says.failure [of room f r] by (auto simp: status_for_def)
qed

lemma ingest_aux_says:
  assumes "ingest_aux f r = Ok r'" "frame_get f 0 = Some (str_bytes ''AUX_DATA'')" "map_option of_nat (number_at (2 ^ 64) f 1) = Some room"
  shows "says room f r r'"
proof -
  from assms(1) obtain buffer where len: "length f = 6" and buffer: "number_at (2 ^ 64) f 2 = Some buffer"
    and body: "buffer = 0 \<and> length (f ! 5) = 64 \<and> (\<exists>t. aux_token (f ! 5) = Ok t \<and> r' = r\<lparr>pr_token := Some t\<rparr>) \<or>
      buffer = 1 \<and> r' = r\<lparr>pr_recurrent_state := Some (f ! 5)\<rparr> \<or> r' = r"
    by (auto simp: ingest_aux_def outcome_simps control_ascii_Ok Let_def split: if_splits)
  have aux: "aux_for room buffer (f ! 5) f"
    using assms(2,3) buffer len by (simp add: aux_for_def frame_get_def)
  from body show ?thesis
  proof (elim disjE conjE exE)
    fix t
    assume "buffer = 0" "length (f ! 5) = 64" "aux_token (f ! 5) = Ok t" "r' = r\<lparr>pr_token := Some t\<rparr>"
    moreover from this have "token_for room t f" using aux by (auto simp: token_for_def aux_token_Ok)
    ultimately show ?thesis by (simp add: says.token)
  qed (use aux in \<open>auto intro: says.state says.other\<close>)
qed

lemma ingest_says:
  assumes "ingest f st = Ok st'"
  shows "ib_failure st' = ib_failure st \<and>
    (\<forall>room. rel_option (says room f) (room_entry st room) (room_entry st' room))"
proof -
  have same: "rel_option (says room f) x x" for room x by (cases x) (auto intro: says.other)
  from assms obtain header rest where f: "f = header # rest" by (cases f) (auto simp: ingest_def)
  then have get: "frame_get f 0 = Some header" by (simp add: frame_get_def)
  let ?aux = "header = str_bytes ''AUX_DATA''" and ?ack = "header = str_bytes ''ABORT_ACK''"
  from assms obtain n where n: "number_at (2 ^ 64) f (if ?aux \<or> ?ack then 1 else 0) = Some n"
    and step: "(case map_of (ib_rooms st) (of_nat n) of
                    None \<Rightarrow> Ok st
                  | Some r \<Rightarrow>
                      and_then (if ?ack then ingest_ack f r else if ?aux then ingest_aux f r else ingest_status f r)
                        (\<lambda>r. Ok (st\<lparr>ib_rooms := AList.update (of_nat n) r (ib_rooms st)\<rparr>))) = Ok st'"
    unfolding ingest_def f by (auto simp: outcome_simps control_ascii_Ok Let_def)
  show ?thesis
  proof (cases "map_of (ib_rooms st) (of_nat n)")
    case None
    then show ?thesis using step by (simp add: same)
  next
    case (Some r)
    then obtain r' where r': "(if ?ack then ingest_ack f r else if ?aux then ingest_aux f r else ingest_status f r) = Ok r'"
      and st': "st' = st\<lparr>ib_rooms := AList.update (of_nat n) r' (ib_rooms st)\<rparr>"
      using step by (auto simp: outcome_simps)
    have "says (of_nat n) f r r'"
      using r' n get ingest_ack_says [of f r r' "of_nat n"] ingest_aux_says [of f r r' "of_nat n"]
        ingest_status_says [of f r r' "of_nat n"] by (simp split: if_splits)
    then show ?thesis using Some by (auto simp: st' room_entry_def update_conv' same)
  qed
qed

lemma receive_says: "rel_option (says room f) (room_entry st room) (room_entry (receive_message f st) room)"
proof (cases "ingest f st")
  case (Ok st')
  then show ?thesis using ingest_says [OF Ok] by (simp add: receive_message_def)
next
  case (Err e)
  then show ?thesis by (cases "room_entry st room") (auto simp: receive_message_def room_entry_def intro: says.other)
qed (simp add: no_panic)

section \<open>What a wait may conclude\<close>

definition justified :: "u64 \<Rightarrow> frame list \<Rightarrow> pd_room \<Rightarrow> bool" where
  "justified room msgs r \<longleftrightarrow> (\<forall>t. pr_token r = Some t \<longrightarrow> (\<exists>f \<in> set msgs. token_for room t f)) \<and>
     (\<forall>b. pr_recurrent_state r = Some b \<longrightarrow> (\<exists>f \<in> set msgs. aux_for room 1 b f)) \<and>
     (pr_terminal r = Some (Inr ()) \<longrightarrow> (\<exists>f \<in> set msgs. status_for room 4 f)) \<and>
     (\<forall>e. pr_terminal r = Some (Inl e) \<longrightarrow> (\<exists>f \<in> set msgs. status_for room 0 f)) \<and>
     (pr_abort_ack r \<longrightarrow> (\<exists>f \<in> set msgs. ack_for room f))"

lemma justified_mono: "justified room msgs r \<Longrightarrow> set msgs \<subseteq> set msgs' \<Longrightarrow> justified room msgs' r"
  unfolding justified_def by blast

lemma justified_says: "justified room msgs r \<Longrightarrow> says room f r r' \<Longrightarrow> f \<in> set msgs \<Longrightarrow> justified room msgs r'"
  by (erule says.cases) (auto simp: justified_def)

lemma received_justified:
  assumes "room_entry st room = Some pd_room_default"
  shows "\<exists>r. room_entry (fold receive_message msgs st) room = Some r \<and> justified room msgs r"
proof (induction msgs rule: rev_induct)
  case Nil
  then show ?case using assms by (simp add: justified_def pd_room_default_def)
next
  case (snoc f msgs)
  then obtain r where r: "room_entry (fold receive_message msgs st) room = Some r" "justified room (msgs @ [f]) r"
    using justified_mono [of room msgs _ "msgs @ [f]"] by auto
  with receive_says [of room f "fold receive_message msgs st"]
  obtain r' where "room_entry (receive_message f (fold receive_message msgs st)) room = Some r'" "says room f r r'"
    by (auto simp: option_rel_Some1)
  then show ?case using justified_says [OF r(2)] by auto
qed

lemma wait_room_Ok: "wait_room room cancel seen = Ok x \<Longrightarrow> \<exists>s \<in> set seen. wait_check room cancel s = Some (Ok x)"
  by (induction seen) (auto split: option.splits)

lemma wait_check_Ok:
  assumes "wait_check room cancel s = Some (Ok (token, state))"
  shows "\<exists>r. room_entry s room = Some r \<and> token = pr_token r \<and> state = pr_recurrent_state r \<and>
    (if cancel then room_drained r \<or> pr_terminal r = Some (Inr ()) else pr_terminal r = Some (Inr ()))"
  using assms by (auto simp: wait_check_def room_entry_def split: option.splits sum.splits if_splits)

lemma seen_justified:
  assumes "room_entry st room = Some pd_room_default" "s = fold receive_message (take k msgs) st" "room_entry s room = Some r"
  shows "justified room msgs r"
proof -
  obtain r' where "room_entry s room = Some r'" "justified room (take k msgs) r'"
    using received_justified [OF assms(1), of "take k msgs"] assms(2) by blast
  with assms(3) have "justified room (take k msgs) r" by simp
  then show ?thesis by (rule justified_mono) (rule set_take_subset)
qed

text \<open>
  (C22) \<open>PdDecodeReceiver::receive_token_and_state\<close>: whatever frames arrive in whatever order, and whenever the waiting thread is
  woken, the decode side only gets a first token for a room when the peer has sent, for this room, both a success status and a
  64-byte auxiliary buffer that holds this very token, and a recurrent state only as it was sent for this room.
\<close>

theorem token_only_after_success:
  assumes "room_entry st room = Some pd_room_default"
    and "\<forall>s \<in> set seen. \<exists>k. s = fold receive_message (take k msgs) st"
    and "receiver_token_and_state room seen = Ok (t, state)"
  shows "(\<exists>f \<in> set msgs. status_for room 4 f) \<and> (\<exists>f \<in> set msgs. token_for room t f) \<and>
    (\<forall>b. state = Some b \<longrightarrow> (\<exists>f \<in> set msgs. aux_for room 1 b f))"
proof -
  have "wait_room room False seen = Ok (Some t, state)"
    using assms(3) by (auto simp: receiver_token_and_state_def outcome_simps)
  then obtain s where s: "s \<in> set seen" "wait_check room False s = Some (Ok (Some t, state))"
    by (blast dest: wait_room_Ok)
  then obtain r where r: "room_entry s room = Some r" "pr_token r = Some t" "pr_recurrent_state r = state" "pr_terminal r = Some (Inr ())"
    using wait_check_Ok [OF s(2)] by auto
  have "justified room msgs r" using assms(1,2) s(1) r(1) seen_justified by blast
  then show ?thesis using r by (auto simp: justified_def)
qed

text \<open>The drain wait of a cancelled room ends well only on an acknowledgement or on a terminal status of that room.\<close>

theorem drained_only_after_peer_stopped:
  assumes "room_entry st room = Some pd_room_default"
    and "\<forall>s \<in> set seen. \<exists>k. s = fold receive_message (take k msgs) st"
    and "wait_drained room seen = Ok u"
  shows "\<exists>f \<in> set msgs. ack_for room f \<or> status_for room 4 f \<or> status_for room 0 f"
proof -
  obtain x where "wait_room room True seen = Ok x" using assms(3) by (auto simp: wait_drained_def outcome_simps)
  then obtain s where s: "s \<in> set seen" "wait_check room True s = Some (Ok x)" by (blast dest: wait_room_Ok)
  then obtain r where r: "room_entry s room = Some r" "room_drained r"
    using wait_check_Ok [of room True s "fst x" "snd x"] by (auto simp: room_drained_def)
  have "justified room msgs r" using assms(1,2) s(1) r(1) seen_justified by blast
  moreover have "pr_abort_ack r \<or> pr_terminal r = Some (Inr ()) \<or> (\<exists>e. pr_terminal r = Some (Inl e))"
    using r(2) by (cases "pr_terminal r"; cases "the (pr_terminal r)") (auto simp: room_drained_def)
  ultimately show ?thesis unfolding justified_def by blast
qed

section \<open>Completion frames are understood\<close>

lemma show_small: "show_usize 0 = ''0''" "show_usize 1 = ''1''" "show_usize 4 = ''4''"
  by code_simp+

lemma map_entry_as_update: "map_of al k = Some v \<Longrightarrow> AList.update k (g v) al = AList.map_entry k g al"
  by (induction al) auto

lemma map_entry_absent: "map_of al k = None \<Longrightarrow> AList.map_entry k g al = al"
  by (induction al) auto

lemma map_entry_map_entry: "AList.map_entry k g (AList.map_entry k h al) = AList.map_entry k (g \<circ> h) al"
  by (induction al) auto

lemma map_entry_lookup: "map_of (AList.map_entry k g al) k = map_option g (map_of al k)"
  by (induction al) auto

definition map_room :: "u64 \<Rightarrow> (pd_room \<Rightarrow> pd_room) \<Rightarrow> pd_inbox \<Rightarrow> pd_inbox" where
  "map_room room g st = st\<lparr>ib_rooms := AList.map_entry room g (ib_rooms st)\<rparr>"

lemma map_room_map_room: "map_room room g (map_room room h st) = map_room room (g \<circ> h) st"
  by (simp add: map_room_def map_entry_map_entry)

lemma room_entry_map_room: "room_entry (map_room room g st) room = map_option g (room_entry st room)"
  using map_entry_lookup [of room g "ib_rooms st"] by (simp add: room_entry_def map_room_def)

lemma control_ascii_show: "n < limit \<Longrightarrow> control_ascii (parse_unsigned limit) (Some (str_bytes (show_usize n))) = Ok n"
  by (simp add: control_ascii_def ok_or_def parse_unsigned_show)

lemma control_ascii_room: "control_ascii (parse_unsigned (2 ^ 64)) (Some (str_bytes (show_room room))) = Ok (unat room)"
  using unat_bounds(2) [of room] by (simp add: show_room_def control_ascii_show)

lemma control_ascii_small:
  "1 < limit \<Longrightarrow> control_ascii (parse_unsigned limit) (Some (str_bytes ''0'')) = Ok 0"
  "1 < limit \<Longrightarrow> control_ascii (parse_unsigned limit) (Some (str_bytes ''1'')) = Ok 1"
  "4 < limit \<Longrightarrow> control_ascii (parse_unsigned limit) (Some (str_bytes ''4'')) = Ok 4"
  using control_ascii_show [of 0 limit] control_ascii_show [of 1 limit] control_ascii_show [of 4 limit]
  by (simp_all add: show_small [simplified])

lemma control_ascii_index:
  assumes "0 \<le> i" "i < 2 ^ 31"
  shows "control_ascii (parse_unsigned (2 ^ 64)) (Some (decimal_int i)) = Ok (nat i)"
proof -
  have "nat i < 2 ^ 64" using assms by simp
  from control_ascii_show [OF this] show ?thesis using assms by (simp add: decimal_int_def show_int_def)
qed

lemmas control_reads = control_ascii_room [simplified] control_ascii_small control_ascii_index [simplified]

lemma headers: "str_bytes (show_room room) \<noteq> str_bytes ''AUX_DATA''" "str_bytes (show_room room) \<noteq> str_bytes ''ABORT_ACK''"
  "str_bytes ''AUX_DATA'' \<noteq> str_bytes ''ABORT_ACK''"
proof -
  have "show_room room \<noteq> CHR ''A'' # cs" for cs
    using show_usize_digits [of "CHR ''A''" "unat room"] by (auto simp: show_room_def)
  then show "str_bytes (show_room room) \<noteq> str_bytes ''AUX_DATA''" "str_bytes (show_room room) \<noteq> str_bytes ''ABORT_ACK''"
    unfolding str_bytes_inj by blast+
qed (simp add: str_bytes_inj)

lemma length_be_bytes [simp]: "length (u32_to_be_bytes w) = 4" "u32_from_be_bytes (u32_to_be_bytes w) = w"
  by (simp_all add: u32_to_be_bytes_def u32_from_be_bytes_def)

lemma receive_as_map:
  assumes "\<And>st. ingest f st = Ok (case map_of (ib_rooms st) room of None \<Rightarrow> st
      | Some r \<Rightarrow> st\<lparr>ib_rooms := AList.update room (g r) (ib_rooms st)\<rparr>)"
  shows "receive_message f = map_room room g"
  by (rule ext) (simp add: receive_message_def assms map_room_def map_entry_as_update map_entry_absent split: option.splits)

lemma receive_token_frame:
  assumes "unat t < 2 ^ 31" "0 \<le> i" "i < 2 ^ 31"
  shows "receive_message (token_frame room t i) = map_room room (\<lambda>r. r\<lparr>pr_token := Some t\<rparr>)"
proof (rule receive_as_map)
  have "aux_token (u32_to_le_bytes t @ replicate 60 0) = Ok t" using assms(1) by (simp add: aux_token_Ok)
  then show "ingest (token_frame room t i) st = Ok (case map_of (ib_rooms st) room of None \<Rightarrow> st
      | Some r \<Rightarrow> st\<lparr>ib_rooms := AList.update room (r\<lparr>pr_token := Some t\<rparr>) (ib_rooms st)\<rparr>)" for st
    using assms by (simp add: ingest_def token_frame_def frame_get_def headers ingest_aux_def control_reads
        Let_def split: option.splits)
qed

lemma receive_state_frame:
  assumes "length b < 2 ^ 32" "0 \<le> i" "i < 2 ^ 31"
  shows "receive_message (state_frame room b i) = map_room room (\<lambda>r. r\<lparr>pr_recurrent_state := Some b\<rparr>)"
  by (rule receive_as_map)
    (use assms in \<open>simp add: ingest_def state_frame_def frame_get_def headers ingest_aux_def control_reads
        Let_def unat_of_nat_le split: option.splits\<close>)

lemma receive_status_frame:
  assumes "\<And>m. e = Some m \<Longrightarrow> rust_string m"
  shows "receive_message (status_frame room e) =
    map_room room (\<lambda>r. r\<lparr>pr_terminal := Some (case e of None \<Rightarrow> Inr () | Some m \<Rightarrow> Inl (ControlText m))\<rparr>)"
  by (rule receive_as_map)
    (use assms in \<open>simp add: ingest_def status_frame_def frame_get_def headers ingest_status_def rank_zero_def control_reads
       utf8_lossy_valid rust_string_def Let_def split: option.splits\<close>)

lemma receive_abort_ack: "receive_message (abort_ack_frame room) = map_room room (\<lambda>r. r\<lparr>pr_abort_ack := True\<rparr>)"
  by (rule receive_as_map)
    (simp add: ingest_def abort_ack_frame_def frame_get_def headers headers(3) [symmetric] ingest_ack_def rank_zero_def
       control_reads Let_def split: option.splits)

definition room_after :: "u32 option \<Rightarrow> u8 list option \<Rightarrow> string option \<Rightarrow> pd_room" where
  "room_after token state e =
     \<lparr>pr_token = token, pr_recurrent_state = state,
      pr_terminal = Some (case e of None \<Rightarrow> Inr () | Some m \<Rightarrow> Inl (ControlText m)), pr_abort_ack = False\<rparr>"

lemma completion_frames_Ok:
  assumes "completion_frames room token state e i = Ok frames"
  shows "frames = (case token of None \<Rightarrow> [] | Some t \<Rightarrow> [token_frame room t i]) @
      (case state of None \<Rightarrow> [] | Some b \<Rightarrow> [state_frame room b i]) @ [status_frame room e] \<and>
    (\<forall>t. token = Some t \<longrightarrow> unat t < 2 ^ 31) \<and> (\<forall>b. state = Some b \<longrightarrow> length b < 2 ^ 32)"
  using assms by (cases token; cases state) (auto simp: completion_frames_def split: if_splits)

lemma room_updates_commute:
  "(r :: pd_room)\<lparr>pr_terminal := a, pr_token := b\<rparr> = r\<lparr>pr_token := b, pr_terminal := a\<rparr>"
  "r\<lparr>pr_terminal := a, pr_recurrent_state := c\<rparr> = r\<lparr>pr_recurrent_state := c, pr_terminal := a\<rparr>"
  "r\<lparr>pr_recurrent_state := c, pr_token := b\<rparr> = r\<lparr>pr_token := b, pr_recurrent_state := c\<rparr>"
  by simp_all

lemma completion_received:
  assumes "completion_frames room token state e i = Ok frames" "mset sent = mset frames"
    and "0 \<le> i" "i < 2 ^ 31" "\<forall>m. e = Some m \<longrightarrow> rust_string m"
  shows "\<exists>g. fold receive_message sent = map_room room g \<and> g pd_room_default = room_after token state e"
proof -
  note shape = completion_frames_Ok [OF assms(1)]
  have tok: "receive_message (token_frame room t i) = map_room room (\<lambda>r. r\<lparr>pr_token := Some t\<rparr>)" if "token = Some t" for t
    using that shape assms(3,4) by (intro receive_token_frame) simp_all
  have sta: "receive_message (state_frame room b i) = map_room room (\<lambda>r. r\<lparr>pr_recurrent_state := Some b\<rparr>)" if "state = Some b" for b
    using that shape assms(3,4) by (intro receive_state_frame) simp_all
  note tst = receive_status_frame [of e room, OF assms(5) [rule_format]]
  have comm: "receive_message f \<circ> receive_message f' = receive_message f' \<circ> receive_message f"
    if "f \<in> set sent" "f' \<in> set sent" for f f'
  proof -
    have "set sent = set frames" using assms(2) by (rule mset_eq_setD)
    then show ?thesis
      using that shape by (auto simp: fun_eq_iff map_room_map_room comp_def tok sta tst room_updates_commute split: option.splits)
  qed
  have "fold receive_message sent = fold receive_message frames"
    by (rule fold_multiset_equiv) (use comm assms(2) in auto)
  moreover have "\<exists>g. fold receive_message frames = map_room room g \<and> g pd_room_default = room_after token state e"
    using shape tst by (cases token; cases state; simp add: tok sta comp_def fun_eq_iff map_room_map_room)
      (fastforce simp: room_after_def pd_room_default_def comp_def)+
  ultimately show ?thesis by simp
qed

text \<open>
  (C21) \<open>completion_frames\<close> and \<open>ingest\<close>: the frames that a prefill instance sends for a room, received in any order by a decode
  instance that has registered the room, make its wait return the first token and the recurrent state that were sent, or the
  error message that was sent; a success without a token leaves the wait to its time limit.
\<close>

theorem completion_delivered:
  assumes "completion_frames room token state e i = Ok frames" "mset sent = mset frames"
    and "room_entry st room = Some pd_room_default" "ib_failure st = None"
    and "0 \<le> i" "i < 2 ^ 31" "\<forall>m. e = Some m \<longrightarrow> rust_string m"
  shows "receiver_token_and_state room [fold receive_message sent st] =
    (case e of
       Some m \<Rightarrow> Err (ControlText m)
     | None \<Rightarrow> (case token of Some t \<Rightarrow> Ok (t, state) | None \<Rightarrow> receiver_token_and_state room []))"
proof -
  obtain g where g: "fold receive_message sent = map_room room g" "g pd_room_default = room_after token state e"
    using completion_received [OF assms(1,2,5,6,7)] by blast
  then have "room_entry (fold receive_message sent st) room = Some (room_after token state e)"
    using assms(3) by (simp add: room_entry_map_room)
  moreover have "ib_failure (fold receive_message sent st) = None" using assms(4) by (simp add: g(1) map_room_def)
  ultimately show ?thesis
    by (simp add: receiver_token_and_state_def wait_check_def room_entry_def room_after_def ok_or_def split: option.splits)
qed

definition waiting_inbox :: pd_inbox where
  "waiting_inbox = \<lparr>ib_rooms = [(7, pd_room_default)], ib_failure = None\<rparr>"

theorem token_only_after_success_witness:
  "(\<exists>f \<in> set [token_frame 7 3 0, status_frame 7 None]. status_for 7 4 f) \<and>
   (\<exists>f \<in> set [token_frame 7 3 0, status_frame 7 None]. token_for 7 3 f)"
proof -
  let ?msgs = "[token_frame 7 3 0, status_frame 7 None]" and ?seen = "[waiting_inbox, fold receive_message [token_frame 7 3 0, status_frame 7 None] waiting_inbox]"
  have start: "room_entry waiting_inbox 7 = Some pd_room_default" by (simp add: waiting_inbox_def room_entry_def)
  have "waiting_inbox = fold receive_message (take 0 ?msgs) waiting_inbox"
    "fold receive_message ?msgs waiting_inbox = fold receive_message (take 2 ?msgs) waiting_inbox" by simp_all
  then have seen: "\<forall>s \<in> set ?seen. \<exists>k. s = fold receive_message (take k ?msgs) waiting_inbox" by (metis (no_types) set_ConsD empty_iff list.set(1))
  have "receiver_token_and_state 7 ?seen = Ok (3, None)"
    by (simp add: receive_token_frame receive_status_frame [of None, simplified] map_room_def waiting_inbox_def pd_room_default_def
        receiver_token_and_state_def wait_check_def ok_or_def)
  from token_only_after_success [OF start seen this] show ?thesis by blast
qed

theorem completion_delivered_witness:
  "receiver_token_and_state 7 [fold receive_message [status_frame 7 None, token_frame 7 3 0] waiting_inbox] = Ok (3, None)"
  using completion_delivered [of 7 "Some 3" None None 0 "[token_frame 7 3 0, status_frame 7 None]"
      "[status_frame 7 None, token_frame 7 3 0]" waiting_inbox]
  by (simp add: completion_frames_def add_mset_commute waiting_inbox_def room_entry_def)

text \<open>A negative auxiliary index, which the transfer announcement allows, is refused by the receiver of the completion.\<close>

lemma negative_aux_index_refused:
  assumes "i < 0"
  shows "parse_unsigned limit (show_int i) = None"
  using assms by (simp add: parse_unsigned_def show_int_def digit_value_def)

end
