(* ===== verification/Pd_Bootstrap.thy ===== *)
theory Pd_Bootstrap
  imports Pd_Control
begin

text \<open>
  The state of a prefill instance's bootstrap service (\<open>PrefillBootstrapState\<close> of \<open>transfer/pd_bootstrap.rs\<close>), the frames it
  ingests, the HTTP handlers that read and write it, and the message step of the control socket.  The receiver side of the frames of \<open>Pd_Wire\<close>.
  A \<open>BTreeSet\<close> of rooms is a sorted list without repetition; the clock is the argument \<open>now\<close>, in seconds.
\<close>

section \<open>State\<close>

record rank_info =
  rank_ip :: string
  rank_port :: "16 word"

definition zmq_endpoint :: "rank_info \<Rightarrow> string" where
  "zmq_endpoint r = ''tcp://'' @ rank_ip r @ '':'' @ show_usize (unat (rank_port r))"

record pd_transfer_room =
  tr_required_dst_info_num :: usize
  tr_status :: kv_poll
  tr_decode_prefix_len :: "usize option"
  tr_transfers :: "(string \<times> transfer_info) list"

record registered_dp_rank =
  rd_dp_rank :: int
  rd_timestamp :: usize

type_synonym pp_table = "(usize \<times> rank_info) list"
type_synonym tp_table = "(usize \<times> pp_table) list"
type_synonym cp_table = "(usize \<times> tp_table) list"
type_synonym port_table = "(usize \<times> cp_table) list"

record bootstrap_state =
  bt_attn_tp_size :: "usize option"
  bt_attn_cp_size :: "usize option"
  bt_dp_size :: "usize option"
  bt_pp_size :: "usize option"
  bt_page_size :: "usize option"
  bt_kv_cache_dtype :: "string option"
  bt_follow_bootstrap_room :: "bool option"
  bt_registered_count :: usize
  bt_port_table :: port_table
  bt_room_to_dp_rank :: "(u64 \<times> registered_dp_rank) list"
  bt_kv_args_table :: "(string \<times> kv_args_info) list"
  bt_kv_args_count :: usize
  bt_transfer_rooms :: "(u64 \<times> pd_transfer_room) list"
  bt_active_rooms :: "u64 list"
  bt_aborted_rooms :: "u64 list"
  bt_abort_targets :: "(u64 \<times> string list) list"

definition bootstrap_default :: bootstrap_state where
  "bootstrap_default =
     \<lparr>bt_attn_tp_size = None, bt_attn_cp_size = None, bt_dp_size = None, bt_pp_size = None, bt_page_size = None,
      bt_kv_cache_dtype = None, bt_follow_bootstrap_room = None, bt_registered_count = 0, bt_port_table = [],
      bt_room_to_dp_rank = [], bt_kv_args_table = [], bt_kv_args_count = 0, bt_transfer_rooms = [], bt_active_rooms = [],
      bt_aborted_rooms = [], bt_abort_targets = []\<rparr>"

section \<open>Ingestion of bootstrap frames\<close>

definition room_announced :: "transfer_info \<Rightarrow> bool \<Rightarrow> pd_transfer_room option \<Rightarrow> pd_transfer_room" where
  "room_announced t is_aborted entry =
     (let r = (case entry of
            Some r \<Rightarrow> r
          | None \<Rightarrow> \<lparr>tr_required_dst_info_num = ti_required_dst_info_num t, tr_status = Bootstrapping,
              tr_decode_prefix_len = None, tr_transfers = []\<rparr>);
          r = r\<lparr>tr_required_dst_info_num := ti_required_dst_info_num t\<rparr>;
          r = (if tr_decode_prefix_len r = None \<and> ti_decode_prefix_len t \<noteq> None
               then r\<lparr>tr_decode_prefix_len := ti_decode_prefix_len t\<rparr> else r);
          r = r\<lparr>tr_transfers := btree_insert (ti_session_id t) t (tr_transfers r)\<rparr>
      in if length (tr_transfers r) = tr_required_dst_info_num r
         then r\<lparr>tr_status := if is_aborted then PollFailed else WaitingForInput\<rparr> else r)"

definition ingest_bootstrap_frame :: "frame \<Rightarrow> bootstrap_state \<Rightarrow> (frame_error, unit) outcome \<times> bootstrap_state" where
  "ingest_bootstrap_frame fr st =
     (case ascii_field fr 0 ''room'' of
        Err e \<Rightarrow> (Err e, st)
      | Panic \<Rightarrow> (Panic, st)
      | Ok room \<Rightarrow>
          if room = ''WATERMARK'' \<or> room = ''STAGING_RSP'' then (Ok (), st)
          else if room = ''None''
          then (case kv_args_from_frame fr of
              Ok register \<Rightarrow>
                (Ok (), st\<lparr>bt_kv_args_table := btree_insert (ka_session_id register) register (bt_kv_args_table st),
                           bt_kv_args_count := bt_kv_args_count st + 1\<rparr>)
            | Err e \<Rightarrow> (Err e, st)
            | Panic \<Rightarrow> (Panic, st))
          else (case transfer_from_frame fr of
              Ok t \<Rightarrow>
                (Ok (), st\<lparr>bt_transfer_rooms :=
                   btree_insert (ti_room t)
                     (room_announced t (ti_room t \<in> set (bt_aborted_rooms st)) (map_of (bt_transfer_rooms st) (ti_room t)))
                     (bt_transfer_rooms st)\<rparr>)
            | Err e \<Rightarrow> (Err e, st)
            | Panic \<Rightarrow> (Panic, st)))"

definition bootstrap_transfer_status :: "bootstrap_state \<Rightarrow> u64 \<Rightarrow> kv_poll option" where
  "bootstrap_transfer_status st room = map_option tr_status (map_of (bt_transfer_rooms st) room)"

datatype remote_layout_error =
    MissingTransferRoom u64
  | MissingKvArgsRegistration u64 string

fun show_remote_layout_error :: "remote_layout_error \<Rightarrow> string" where
  "show_remote_layout_error (MissingTransferRoom room) = ''missing transfer room: '' @ show_room room"
| "show_remote_layout_error (MissingKvArgsRegistration room session_id) =
     ''missing KVArgs registration for room '' @ show_room room @ '' session '' @ session_id"

fun room_layouts ::
  "u64 \<Rightarrow> (string \<times> kv_args_info) list \<Rightarrow> transfer_info list \<Rightarrow> (remote_layout_error, (string \<times> kv_remote_layout) list) outcome" where
  "room_layouts room table [] = Ok []"
| "room_layouts room table (t # ts) =
     (if ti_is_dummy t then room_layouts room table ts
      else and_then (ok_or (MissingKvArgsRegistration room (ti_session_id t)) (map_of table (ti_session_id t))) (\<lambda>kv_args.
           and_then (room_layouts room table ts) (\<lambda>layouts.
             Ok ((ti_session_id t,
                  \<lparr>dst_kv_ptrs = map unat (ka_dst_kv_ptrs kv_args), dst_kv_indices = ti_dst_kv_indices t,
                   dst_kv_item_len = ka_dst_kv_item_len kv_args\<rparr>) # layouts))))"

definition remote_kv_layouts_for_room ::
  "u64 \<Rightarrow> bootstrap_state \<Rightarrow> (remote_layout_error, (string \<times> kv_remote_layout) list) outcome" where
  "remote_kv_layouts_for_room room st =
     and_then (ok_or (MissingTransferRoom room) (map_of (bt_transfer_rooms st) room)) (\<lambda>r.
       room_layouts room (bt_kv_args_table st) (map snd (tr_transfers r)))"

section \<open>Routes\<close>

record route_registration =
  rr_attn_tp_size :: usize
  rr_attn_tp_rank :: usize
  rr_attn_cp_size :: usize
  rr_attn_cp_rank :: usize
  rr_attn_dp_size :: usize
  rr_attn_dp_rank :: usize
  rr_pp_size :: usize
  rr_pp_rank :: usize
  rr_system_dp_size :: usize
  rr_system_dp_rank :: usize
  rr_rank_ip :: string
  rr_rank_port :: "16 word"
  rr_page_size :: "usize option"
  rr_kv_cache_dtype :: "string option"
  rr_load_balance_method :: "string option"

fun get_or_insert :: "'a option \<Rightarrow> 'a \<Rightarrow> 'a option" where
  "get_or_insert (Some a) b = Some a"
| "get_or_insert None b = Some b"

definition or_default :: "'k \<Rightarrow> ('k \<times> 'v list) list \<Rightarrow> 'v list" where
  "or_default k m = (case map_of m k of None \<Rightarrow> [] | Some v \<Rightarrow> v)"

definition insert_rank :: "usize \<Rightarrow> usize \<Rightarrow> usize \<Rightarrow> usize \<Rightarrow> rank_info \<Rightarrow> port_table \<Rightarrow> port_table" where
  "insert_rank dp cp tp pp info table =
     (let cps = or_default dp table; tps = or_default cp cps; pps = or_default tp tps
      in btree_insert dp (btree_insert cp (btree_insert tp (btree_insert pp info pps) tps) cps) table)"

definition registration_dp_group :: "route_registration \<Rightarrow> usize" where
  "registration_dp_group r = (if rr_system_dp_size r = 1 then rr_attn_dp_rank r else rr_system_dp_rank r)"

definition register_route :: "route_registration \<Rightarrow> bootstrap_state \<Rightarrow> bootstrap_state" where
  "register_route r st =
     st\<lparr>bt_attn_tp_size := get_or_insert (bt_attn_tp_size st) (rr_attn_tp_size r),
        bt_attn_cp_size := get_or_insert (bt_attn_cp_size st) (rr_attn_cp_size r),
        bt_dp_size := get_or_insert (bt_dp_size st) (if rr_system_dp_size r = 1 then rr_attn_dp_size r else rr_system_dp_size r),
        bt_pp_size := get_or_insert (bt_pp_size st) (rr_pp_size r),
        bt_page_size := (case rr_page_size r of None \<Rightarrow> bt_page_size st | Some n \<Rightarrow> get_or_insert (bt_page_size st) n),
        bt_kv_cache_dtype := (case rr_kv_cache_dtype r of None \<Rightarrow> bt_kv_cache_dtype st | Some d \<Rightarrow> get_or_insert (bt_kv_cache_dtype st) d),
        bt_follow_bootstrap_room := get_or_insert (bt_follow_bootstrap_room st)
          ((case rr_load_balance_method r of None \<Rightarrow> ''follow_bootstrap_room'' | Some m \<Rightarrow> m) = ''follow_bootstrap_room''),
        bt_port_table := insert_rank (registration_dp_group r) (rr_attn_cp_rank r) (rr_attn_tp_rank r) (rr_pp_rank r)
          \<lparr>rank_ip = rr_rank_ip r, rank_port = rr_rank_port r\<rparr> (bt_port_table st),
        bt_registered_count := bt_registered_count st + 1\<rparr>"

text \<open>The product of the four sizes is taken without wrap-around.\<close>

definition bootstrap_is_ready :: "bootstrap_state \<Rightarrow> bool" where
  "bootstrap_is_ready st =
     (case (bt_dp_size st, bt_attn_cp_size st, bt_attn_tp_size st, bt_pp_size st) of
        (Some dp, Some cp, Some tp, Some pp) \<Rightarrow> bt_registered_count st \<ge> dp * cp * tp * pp
      | _ \<Rightarrow> False)"

record server_info_record =
  si_attn_tp_size :: usize
  si_attn_cp_size :: usize
  si_dp_size :: usize
  si_pp_size :: usize
  si_page_size :: "usize option"
  si_kv_cache_dtype :: "string option"
  si_follow_bootstrap_room :: bool

definition server_info :: "bootstrap_state \<Rightarrow> server_info_record option" where
  "server_info st =
     (if \<not> bootstrap_is_ready st then None
      else case (bt_attn_tp_size st, bt_attn_cp_size st, bt_dp_size st, bt_pp_size st) of
          (Some tp, Some cp, Some dp, Some pp) \<Rightarrow>
            Some \<lparr>si_attn_tp_size = tp, si_attn_cp_size = cp, si_dp_size = dp, si_pp_size = pp, si_page_size = bt_page_size st,
                  si_kv_cache_dtype = bt_kv_cache_dtype st,
                  si_follow_bootstrap_room = (case bt_follow_bootstrap_room st of None \<Rightarrow> True | Some b \<Rightarrow> b)\<rparr>
        | _ \<Rightarrow> None)"

definition rank_info_of :: "usize \<Rightarrow> usize \<Rightarrow> usize \<Rightarrow> usize \<Rightarrow> bootstrap_state \<Rightarrow> rank_info option" where
  "rank_info_of dp cp tp pp st =
     Option.bind (map_of (bt_port_table st) dp) (\<lambda>cps.
     Option.bind (map_of cps cp) (\<lambda>tps. Option.bind (map_of tps tp) (\<lambda>pps. map_of pps pp)))"

datatype route_response =
    RouteServerInfo server_info_record
  | RouteRank rank_info
  | RouteUnavailable usize
  | RouteBadRank
  | RouteNotFound int int int int

definition route_get :: "int \<Rightarrow> int \<Rightarrow> int \<Rightarrow> int \<Rightarrow> bootstrap_state \<Rightarrow> route_response" where
  "route_get dp cp tp pp st =
     (if dp = -1 \<and> cp = -1 \<and> tp = -1 \<and> pp = -1
      then (case server_info st of Some info \<Rightarrow> RouteServerInfo info | None \<Rightarrow> RouteUnavailable (bt_registered_count st))
      else if \<not> bootstrap_is_ready st then RouteUnavailable (bt_registered_count st)
      else if dp < 0 \<or> cp < 0 \<or> tp < 0 \<or> pp < 0 then RouteBadRank
      else case rank_info_of (nat dp) (nat cp) (nat tp) (nat pp) st of
          Some info \<Rightarrow> RouteRank info
        | None \<Rightarrow> RouteNotFound dp cp tp pp)"

section \<open>Data parallel ranks of rooms\<close>

definition cleanup_interval :: usize where
  "cleanup_interval = 120"

definition prune_expired :: "usize \<Rightarrow> bootstrap_state \<Rightarrow> usize \<times> bootstrap_state" where
  "prune_expired now st =
     (let kept = filter (\<lambda>(_, entry). now - rd_timestamp entry \<le> cleanup_interval) (bt_room_to_dp_rank st)
      in (length (bt_room_to_dp_rank st) - length kept, st\<lparr>bt_room_to_dp_rank := kept\<rparr>))"

definition register_dp_rank :: "usize \<Rightarrow> u64 \<Rightarrow> int \<Rightarrow> bootstrap_state \<Rightarrow> bootstrap_state" where
  "register_dp_rank now room dp_rank st =
     (let st = snd (prune_expired now st)
      in st\<lparr>bt_room_to_dp_rank := btree_insert room \<lparr>rd_dp_rank = dp_rank, rd_timestamp = now\<rparr> (bt_room_to_dp_rank st)\<rparr>)"

text \<open>The JSON object is a map ordered by the printed room.\<close>

definition query_dp_ranks :: "usize \<Rightarrow> u64 list \<Rightarrow> bootstrap_state \<Rightarrow> (string \<times> int) list \<times> bootstrap_state" where
  "query_dp_ranks now rooms st =
     (let st = snd (prune_expired now st)
      in (fold (\<lambda>room result.
              case map_of (bt_room_to_dp_rank st) room of
                Some entry \<Rightarrow> btree_insert (show_room room) (rd_dp_rank entry) result
              | None \<Rightarrow> result) rooms [], st))"

section \<open>The control socket\<close>

definition room_insert :: "u64 \<Rightarrow> u64 list \<Rightarrow> u64 list" where
  "room_insert room rooms = insort_insert room rooms"

definition push_abort_target :: "u64 \<Rightarrow> string \<Rightarrow> bootstrap_state \<Rightarrow> bootstrap_state" where
  "push_abort_target room endpoint st =
     st\<lparr>bt_abort_targets := btree_insert room (or_default room (bt_abort_targets st) @ [endpoint]) (bt_abort_targets st)\<rparr>"

text \<open>
  One message of \<open>serve_bootstrap_zmq_with_shutdown\<close>.  \<open>Ok (Some (endpoint, frame))\<close> is a drain acknowledgement that is sent at once;
  an error ends the serving loop.
\<close>

definition serve_abort :: "frame \<Rightarrow> bootstrap_state \<Rightarrow> (frame_error, (string \<times> frame) option) outcome \<times> bootstrap_state" where
  "serve_abort fr st =
     (case and_then (parse_bootstrap_room fr 1 ''room'') (\<lambda>room.
           and_then (ascii_field fr 2 ''decode host'') (\<lambda>host.
           and_then (parse_u16 fr 3 ''decode port'') (\<lambda>port. Ok (room, host, port)))) of
        Err e \<Rightarrow> (Err e, st)
      | Panic \<Rightarrow> (Panic, st)
      | Ok (room, host, port) \<Rightarrow>
          let endpoint = ''tcp://'' @ host @ '':'' @ show_usize (unat port);
              st = st\<lparr>bt_aborted_rooms := room_insert room (bt_aborted_rooms st)\<rparr>
          in if room \<in> set (bt_active_rooms st) then (Ok None, push_abort_target room endpoint st)
             else (Ok (Some (endpoint, abort_ack_frame room)), st))"

definition serve_message :: "frame \<Rightarrow> bootstrap_state \<Rightarrow> (frame_error, (string \<times> frame) option) outcome \<times> bootstrap_state" where
  "serve_message fr st =
     (if fr \<noteq> [] \<and> hd fr = str_bytes ''ABORT'' then serve_abort fr st
      else case ingest_bootstrap_frame fr st of (r, st') \<Rightarrow> (and_then r (\<lambda>_. Ok None), st'))"

section \<open>Well-formed tables\<close>

definition values_ok :: "('v \<Rightarrow> bool) \<Rightarrow> ('k::linorder \<times> 'v) list \<Rightarrow> bool" where
  "values_ok P m \<longleftrightarrow> btree_ok m \<and> (\<forall>v \<in> snd ` set m. P v)"

definition port_table_ok :: "port_table \<Rightarrow> bool" where
  "port_table_ok t \<longleftrightarrow> values_ok (values_ok (values_ok btree_ok)) t"

definition bootstrap_ok :: "bootstrap_state \<Rightarrow> bool" where
  "bootstrap_ok st \<longleftrightarrow> btree_ok (bt_kv_args_table st) \<and>
     values_ok (\<lambda>r. btree_ok (tr_transfers r)) (bt_transfer_rooms st) \<and> btree_ok (bt_room_to_dp_rank st) \<and>
     btree_ok (bt_abort_targets st) \<and> port_table_ok (bt_port_table st) \<and>
     (\<forall>room \<in> fst ` set (bt_abort_targets st). room \<in> set (bt_aborted_rooms st))"

lemma snd_btree_insert: "snd ` set (btree_insert k v m) \<subseteq> insert v (snd ` set m)"
  by (induction k v m rule: btree_insert.induct) auto

lemma values_ok_Nil [simp]: "values_ok P []"
  by (simp add: values_ok_def)

lemma values_ok_insert: "values_ok P m \<Longrightarrow> P v \<Longrightarrow> values_ok P (btree_insert k v m)"
  using snd_btree_insert [of k v m] unfolding values_ok_def by (metis (no_types) btree_ok_insert insertE subsetD)

lemma values_ok_lookup: "values_ok P m \<Longrightarrow> map_of m k = Some v \<Longrightarrow> P v"
  by (force simp: values_ok_def dest: map_of_SomeD)

lemma values_ok_or_default: "values_ok P m \<Longrightarrow> P [] \<Longrightarrow> P (or_default k m)"
  by (auto simp: or_default_def dest: values_ok_lookup split: option.splits)

lemma values_ok_delete: "values_ok P m \<Longrightarrow> values_ok P (AList.delete k m)"
  by (auto simp: values_ok_def AList.delete_eq dest: btree_ok_delete [of _ k])

lemma btree_ok_filter: "btree_ok m \<Longrightarrow> btree_ok (filter P m)"
  unfolding btree_ok_def by (induction m) auto

lemma bootstrap_ok_default: "bootstrap_ok bootstrap_default"
  by (simp add: bootstrap_ok_def bootstrap_default_def port_table_ok_def)

lemma port_table_ok_insert:
  assumes "port_table_ok t"
  shows "port_table_ok (insert_rank dp cp tp pp info t)"
proof -
  let ?cps = "or_default dp t"
  let ?tps = "or_default cp ?cps"
  let ?pps = "or_default tp ?tps"
  have cps: "values_ok (values_ok btree_ok) ?cps"
    using values_ok_or_default [where P = "values_ok (values_ok btree_ok)"] assms by (simp add: port_table_ok_def)
  have tps: "values_ok btree_ok ?tps" using values_ok_or_default [where P = "values_ok btree_ok", OF cps] by simp
  have "btree_ok ?pps" using values_ok_or_default [where P = btree_ok, OF tps] by simp
  then show ?thesis
    using assms cps tps by (simp add: port_table_ok_def insert_rank_def Let_def values_ok_insert)
qed

lemma register_route_ok: "bootstrap_ok st \<Longrightarrow> bootstrap_ok (register_route r st)"
  by (simp add: bootstrap_ok_def register_route_def port_table_ok_insert)

lemma prune_ok: "bootstrap_ok st \<Longrightarrow> bootstrap_ok (snd (prune_expired now st))"
  by (simp add: bootstrap_ok_def prune_expired_def Let_def btree_ok_filter)

lemma register_dp_rank_ok: "bootstrap_ok st \<Longrightarrow> bootstrap_ok (register_dp_rank now room rank st)"
  using prune_ok [of st now] by (simp add: bootstrap_ok_def register_dp_rank_def Let_def)

lemma query_dp_ranks_ok: "bootstrap_ok st \<Longrightarrow> bootstrap_ok (snd (query_dp_ranks now rooms st))"
  using prune_ok [of st now] by (simp add: query_dp_ranks_def Let_def)

lemma room_announced_ok:
  "(\<And>r. entry = Some r \<Longrightarrow> btree_ok (tr_transfers r)) \<Longrightarrow> btree_ok (tr_transfers (room_announced t a entry))"
  by (cases entry) (simp_all add: room_announced_def Let_def)

lemma ingest_ok:
  assumes st: "bootstrap_ok st" and run: "ingest_bootstrap_frame fr st = (r, st')"
  shows "bootstrap_ok st'"
proof -
  have args: "bootstrap_ok (st\<lparr>bt_kv_args_table := btree_insert k v (bt_kv_args_table st), bt_kv_args_count := n\<rparr>)" for k v n
    using st by (simp add: bootstrap_ok_def)
  have rooms: "bootstrap_ok (st\<lparr>bt_transfer_rooms := btree_insert k (room_announced t a (map_of (bt_transfer_rooms st) k)) (bt_transfer_rooms st)\<rparr>)"
    for k t a
  proof -
    have vals: "values_ok (\<lambda>r. btree_ok (tr_transfers r)) (bt_transfer_rooms st)" using st by (simp add: bootstrap_ok_def)
    then have "btree_ok (tr_transfers (room_announced t a (map_of (bt_transfer_rooms st) k)))"
      by (intro room_announced_ok) (rule values_ok_lookup)
    from values_ok_insert [where P = "\<lambda>r. btree_ok (tr_transfers r)", OF vals this] show ?thesis
      using st by (simp add: bootstrap_ok_def)
  qed
  from run show ?thesis
    using st args rooms by (auto simp: ingest_bootstrap_frame_def split: outcome.splits if_splits)
qed

lemma set_room_insert [simp]: "set (room_insert room rooms) = insert room (set rooms)"
  by (simp add: room_insert_def set_insort_insert)

lemma serve_ok:
  assumes "bootstrap_ok st" "serve_message fr st = (r, st')"
  shows "bootstrap_ok st'"
proof (cases "fr \<noteq> [] \<and> hd fr = str_bytes ''ABORT''")
  case True
  then have run: "serve_abort fr st = (r, st')" using assms(2) by (simp add: serve_message_def)
  have "bootstrap_ok (st\<lparr>bt_aborted_rooms := room_insert room (bt_aborted_rooms st)\<rparr>)" for room
    using assms(1) by (auto simp: bootstrap_ok_def)
  moreover have "bootstrap_ok (push_abort_target room e (st\<lparr>bt_aborted_rooms := room_insert room (bt_aborted_rooms st)\<rparr>))" for room e
    using assms(1) by (auto simp: bootstrap_ok_def push_abort_target_def)
  ultimately show ?thesis
    using run assms(1) by (auto simp: serve_abort_def Let_def split: outcome.splits if_splits)
next
  case False
  then show ?thesis
    using assms ingest_ok by (auto simp: serve_message_def split: prod.splits)
qed

section \<open>Registration and announcement\<close>

lemma ingest_registration:
  assumes "wf_registration r"
  shows "ingest_bootstrap_frame (kv_args_to_frame r) st =
    (Ok (), st\<lparr>bt_kv_args_table := btree_insert (kr_session_id r) (registered_info r) (bt_kv_args_table st),
               bt_kv_args_count := bt_kv_args_count st + 1\<rparr>)"
proof -
  have "ascii_field (kv_args_to_frame r) 0 name = Ok ''None''" for name
    by (rule ascii_field_str) (simp_all add: kv_args_to_frame_def rust_string_None)
  then show ?thesis
    by (simp add: ingest_bootstrap_frame_def kv_args_frame_roundtrip [OF assms]) (simp add: registered_info_def)
qed

lemma show_usize_not_word: "show_usize n \<noteq> ''WATERMARK''" "show_usize n \<noteq> ''STAGING_RSP''" "show_usize n \<noteq> ''None''"
  using show_usize_digits [of "CHR ''W''" n] show_usize_digits [of "CHR ''S''" n] show_usize_digits [of "CHR ''N''" n] by auto

lemma ingest_announcement:
  assumes "transfer_to_frame m = Ok fr" "wf_metadata m"
  shows "ingest_bootstrap_frame fr st =
    (Ok (), st\<lparr>bt_transfer_rooms := btree_insert (md_room m)
       (room_announced (announced_info m) (md_room m \<in> set (bt_aborted_rooms st)) (map_of (bt_transfer_rooms st) (md_room m)))
       (bt_transfer_rooms st)\<rparr>)"
proof -
  have "fr \<noteq> [] \<and> fr ! 0 = str_bytes (show_usize (unat (md_room m)))"
    using assms(1) by (auto simp: transfer_to_frame_def outcome_simps decimal_def)
  then have "ascii_field fr 0 name = Ok (show_usize (unat (md_room m)))" for name
    by (intro ascii_field_str) simp_all
  then show ?thesis
    by (simp add: ingest_bootstrap_frame_def transfer_frame_roundtrip [OF assms] show_usize_not_word) (simp add: announced_info_def)
qed

text \<open>
  The exchange over the wire: once a prefill instance has ingested the registration frame and the announcement frame
  of a decode instance, in either order, the layout it writes to for that room is the one of the decode instance.
\<close>

lemma announced_layout_used:
  assumes "bootstrap_ok st" "map_of (bt_transfer_rooms st) (md_room m) = None"
    and "wf_registration r" "wf_metadata m" "\<not> md_is_dummy m" "kr_session_id r = md_session_id m"
    and "transfer_to_frame m = Ok announcement"
    and "frames = [kv_args_to_frame r, announcement] \<or> frames = [announcement, kv_args_to_frame r]"
  shows "remote_kv_layouts_for_room (md_room m) (fold (\<lambda>fr st. snd (ingest_bootstrap_frame fr st)) frames st) =
    Ok [(md_session_id m, \<lparr>dst_kv_ptrs = map unat (kr_dst_kv_ptrs r), dst_kv_indices = md_dst_kv_indices m,
                          dst_kv_item_len = kr_dst_kv_item_len r\<rparr>)]"
proof -
  have rooms: "btree_ok (bt_transfer_rooms st)" and args: "btree_ok (bt_kv_args_table st)"
    using assms(1) by (simp_all add: bootstrap_ok_def values_ok_def)
  let ?st = "fold (\<lambda>fr st. snd (ingest_bootstrap_frame fr st)) frames st"
  have table: "map_of (bt_kv_args_table ?st) (md_session_id m) = Some (registered_info r)"
    using assms(6,8) args by (auto simp: ingest_registration [OF assms(3)] ingest_announcement [OF assms(7,4)])
  have "map_of (bt_transfer_rooms ?st) (md_room m) = Some (room_announced (announced_info m) (md_room m \<in> set (bt_aborted_rooms st)) None)"
    using assms(2,8) rooms by (auto simp: ingest_registration [OF assms(3)] ingest_announcement [OF assms(7,4)])
  moreover have "tr_transfers (room_announced (announced_info m) a None) = [(md_session_id m, announced_info m)]" for a
    by (simp add: room_announced_def Let_def announced_info_def)
  ultimately show ?thesis
    using table assms(5)
    by (simp add: remote_kv_layouts_for_room_def ok_or_def announced_info_def registered_info_def)
qed

section \<open>Routes and ranks\<close>

text \<open>Registering a rank makes it the answer of the route query for its coordinates and changes no other.\<close>

lemma rank_info_registered:
  assumes "bootstrap_ok st"
  shows "rank_info_of dp cp tp pp (register_route r st) =
    (if (dp, cp, tp, pp) = (registration_dp_group r, rr_attn_cp_rank r, rr_attn_tp_rank r, rr_pp_rank r)
     then Some \<lparr>rank_ip = rr_rank_ip r, rank_port = rr_rank_port r\<rparr> else rank_info_of dp cp tp pp st)"
proof -
  let ?t = "bt_port_table st" and ?g = "registration_dp_group r"
  let ?cps = "or_default ?g ?t"
  let ?tps = "or_default (rr_attn_cp_rank r) ?cps"
  let ?pps = "or_default (rr_attn_tp_rank r) ?tps"
  have t: "values_ok (values_ok (values_ok btree_ok)) ?t" using assms by (simp add: bootstrap_ok_def port_table_ok_def)
  have cps: "values_ok (values_ok btree_ok) ?cps"
    using values_ok_or_default [where P = "values_ok (values_ok btree_ok)", OF t] by simp
  have tps: "values_ok btree_ok ?tps" using values_ok_or_default [where P = "values_ok btree_ok", OF cps] by simp
  have pps: "btree_ok ?pps" using values_ok_or_default [where P = btree_ok, OF tps] by simp
  have ok: "btree_ok ?t" "btree_ok ?cps" "btree_ok ?tps" using t cps tps by (simp_all add: values_ok_def)
  show ?thesis
    using ok pps by (auto simp: rank_info_of_def register_route_def insert_rank_def Let_def or_default_def bind_eq_Some_conv
        split: option.splits)
qed

text \<open>Readiness counts registrations, not ranks: a rank that registers twice stands in for one that never did.\<close>

definition lone_rank :: route_registration where
  "lone_rank = \<lparr>rr_attn_tp_size = 2, rr_attn_tp_rank = 0, rr_attn_cp_size = 1, rr_attn_cp_rank = 0, rr_attn_dp_size = 1,
     rr_attn_dp_rank = 0, rr_pp_size = 1, rr_pp_rank = 0, rr_system_dp_size = 1, rr_system_dp_rank = 0, rr_rank_ip = ''h'',
     rr_rank_port = 1, rr_page_size = None, rr_kv_cache_dtype = None, rr_load_balance_method = None\<rparr>"

lemma ready_with_missing_rank:
  "bootstrap_is_ready (register_route lone_rank (register_route lone_rank bootstrap_default)) \<and>
   route_get 0 0 1 0 (register_route lone_rank (register_route lone_rank bootstrap_default)) = RouteNotFound 0 0 1 0"
  by code_simp

text \<open>The rank of a room is known for two minutes after its registration.\<close>

lemma dp_rank_query:
  assumes "bootstrap_ok st" "now \<le> later"
  shows "fst (query_dp_ranks later [room] (register_dp_rank now room rank st)) =
    (if later - now \<le> cleanup_interval then [(show_room room, rank)] else [])"
proof -
  let ?m = "bt_room_to_dp_rank (register_dp_rank now room rank st)"
  have ok: "btree_ok ?m" using register_dp_rank_ok [OF assms(1)] by (simp add: bootstrap_ok_def)
  have "btree_ok (bt_room_to_dp_rank (snd (prune_expired now st)))" using prune_ok [OF assms(1)] by (simp add: bootstrap_ok_def)
  then have look: "map_of ?m room = Some \<lparr>rd_dp_rank = rank, rd_timestamp = now\<rparr>"
    by (simp add: register_dp_rank_def Let_def)
  have "map_of (filter (\<lambda>(_, e). later - rd_timestamp e \<le> cleanup_interval) ?m) room =
      (if later - now \<le> cleanup_interval then Some \<lparr>rd_dp_rank = rank, rd_timestamp = now\<rparr> else None)"
    using map_of_filter_in [of ?m room] look btree_ok_distinct [OF ok]
    by (auto simp: map_of_eq_None_iff dest!: map_of_SomeD) (metis (mono_tags, lifting) eq_key_imp_eq_value registered_dp_rank.select_convs(2))
  then show ?thesis by (simp add: query_dp_ranks_def prune_expired_def Let_def)
qed

end
