(* ===== verification/Transfer_Safety.thy ===== *)
theory Transfer_Safety
  imports Transfer_Executor
begin

text \<open>
  What the executor does to the transport and to the registered memory, for every transport: the calls that succeeded are
  written to a log, and the log of every run satisfies a safety condition.  The last section shows when
  the waiting loops end.
\<close>

section \<open>Logging\<close>

datatype transport_call =
    Submitted u64 usize
  | StatusRead u64 usize int
  | Freed u64
  | Registered "usize list"
  | Unregistered "usize list"

type_synonym call_log = "transport_call list"

text \<open>The newest call is the head of the log.\<close>

definition log_ok :: "('e + 'a) \<times> 'w \<Rightarrow> ('a \<Rightarrow> transport_call) \<Rightarrow> call_log \<Rightarrow> ('e + 'a) \<times> 'w \<times> call_log" where
  "log_ok p c l = (case p of (Inl e, w) \<Rightarrow> (Inl e, w, l) | (Inr a, w) \<Rightarrow> (Inr a, w, c a # l))"

lemma log_ok_simps [simp]: "log_ok (Inl e, w) c l = (Inl e, w, l)" "log_ok (Inr a, w) c l = (Inr a, w, c a # l)"
  by (simp_all add: log_ok_def)

lemma log_ok_cases:
  assumes "log_ok p c l = (r, w, l')"
  obtains (fail) e where "r = Inl e" "l' = l" | (success) a where "r = Inr a" "l' = c a # l"
  using assms by (auto simp: log_ok_def split: prod.splits sum.splits)

definition logged_transport :: "'w transport \<Rightarrow> ('w \<times> call_log) transport" where
  "logged_transport tr =
     \<lparr>submit_transfer = \<lambda>qs (w, l). log_ok (submit_transfer tr qs w) (\<lambda>b. Submitted b (length qs)) l,
      transfer_status = \<lambda>b i (w, l). log_ok (transfer_status tr b i w) (StatusRead b i) l,
      free_batch = \<lambda>b (w, l). log_ok (free_batch tr b w) (\<lambda>_. Freed b) l\<rparr>"

definition logged_registrar :: "'w memory_registrar \<Rightarrow> ('w \<times> call_log) memory_registrar" where
  "logged_registrar g =
     \<lparr>register_memory_batch = \<lambda>bufs loc (w, l). log_ok (register_memory_batch g bufs loc w) (\<lambda>_. Registered (map fst bufs)) l,
      unregister_memory_batch = \<lambda>addrs (w, l). log_ok (unregister_memory_batch g addrs w) (\<lambda>_. Unregistered addrs) l\<rparr>"

definition keep_log :: "('a \<times> 'r \<times> 'w) \<Rightarrow> call_log \<Rightarrow> 'a \<times> 'r \<times> 'w \<times> call_log" where
  "keep_log p l = (case p of (a, r, w) \<Rightarrow> (a, r, w, l))"

definition logged_resolver :: "('r, 'w) target_resolver \<Rightarrow> ('r, 'w \<times> call_log) target_resolver" where
  "logged_resolver rs =
     \<lparr>resolve_target = \<lambda>span (r, w, l). keep_log (resolve_target rs span (r, w)) l,
      resolve_session_target = \<lambda>span session_id (r, w, l). keep_log (resolve_session_target rs span session_id (r, w)) l\<rparr>"

section \<open>The safety condition\<close>

fun outstanding :: "call_log \<Rightarrow> u64 multiset" where
  "outstanding [] = {#}"
| "outstanding (Submitted b n # l) = add_mset b (outstanding l)"
| "outstanding (Freed b # l) = outstanding l - {#b#}"
| "outstanding (_ # l) = outstanding l"

fun registered :: "call_log \<Rightarrow> bool" where
  "registered [] = False"
| "registered (Registered addrs # l) = True"
| "registered (Unregistered addrs # l) = False"
| "registered (_ # l) = registered l"

definition terminal :: "int \<Rightarrow> bool" where
  "terminal v \<longleftrightarrow> 2 \<le> v \<and> v \<le> 6"

text \<open>The last calls read a terminal status of each of the \<open>n\<close> tasks of the batch.\<close>

definition drained :: "u64 \<Rightarrow> usize \<Rightarrow> call_log \<Rightarrow> bool" where
  "drained b n l \<longleftrightarrow> (\<exists>vs before. length vs = n \<and> (\<forall>v \<in> set vs. terminal v) \<and>
     l = rev (map2 (StatusRead b) [0 ..< n] vs) @ before)"

text \<open>
  A batch is submitted only while the memory is registered; a batch is freed only when it is outstanding and all its
  tasks have just been seen in a terminal state; the memory is unregistered only when no batch is outstanding.
\<close>

fun call_safe :: "transport_call \<Rightarrow> call_log \<Rightarrow> bool" where
  "call_safe (Submitted b n) l = registered l"
| "call_safe (Freed b) l = (b \<in># outstanding l \<and> (\<exists>n. Submitted b n \<in> set l \<and> drained b n l))"
| "call_safe (Unregistered addrs) l = (outstanding l = {#} \<and> registered l)"
| "call_safe _ l = True"

fun log_safe :: "call_log \<Rightarrow> bool" where
  "log_safe [] = True"
| "log_safe (c # l) = (call_safe c l \<and> log_safe l)"

section \<open>Status reads\<close>

lemma logged_transport_simps [simp]:
  "submit_transfer (logged_transport tr) qs (w, l) = log_ok (submit_transfer tr qs w) (\<lambda>b. Submitted b (length qs)) l"
  "transfer_status (logged_transport tr) b i (w, l) = log_ok (transfer_status tr b i w) (StatusRead b i) l"
  "free_batch (logged_transport tr) b (w, l) = log_ok (free_batch tr b w) (\<lambda>_. Freed b) l"
  by (simp_all add: logged_transport_def)

lemma count_status_Ok:
  "count_status b t v acc = Ok acc' \<Longrightarrow> snd (snd acc') \<or> terminal v \<and> snd (snd acc') = snd (snd acc)"
  by (cases acc) (auto simp: status_code_of_def terminal_def outcome_simps split: if_splits kv_status_code.splits)

lemma count_status_not_Panic [simp]: "count_status b t v acc \<noteq> Panic"
  by (cases acc) (auto simp: status_code_of_def outcome_simps split: if_splits)

lemma poll_tasks_logged:
  "poll_tasks (logged_transport tr) b ts acc (w, l) = (r, w', l') \<Longrightarrow>
   \<exists>vs. l' = rev (map2 (StatusRead b) ts vs) @ l \<and> r \<noteq> Panic \<and>
     (\<forall>c f. r = Ok (c, f, False) \<longrightarrow> length vs = length ts \<and> (\<forall>v \<in> set vs. terminal v) \<and> \<not> snd (snd acc))"
proof (induction ts arbitrary: acc w l)
  case (Cons t ts)
  obtain st w1 where st: "transfer_status tr b t w = (st, w1)" by (cases "transfer_status tr b t w")
  show ?case
  proof (cases st)
    case (Inl e)
    then show ?thesis using Cons.prems st by (auto intro: exI [of _ "[]"])
  next
    case (Inr v)
    show ?thesis
    proof (cases "count_status b t v acc")
      case (Ok acc')
      then have "poll_tasks (logged_transport tr) b ts acc' (w1, StatusRead b t v # l) = (r, w', l')"
        using Cons.prems st Inr by simp
      from Cons.IH [OF this] obtain vs where vs: "l' = rev (map2 (StatusRead b) ts vs) @ StatusRead b t v # l" "r \<noteq> Panic"
          "\<forall>c f. r = Ok (c, f, False) \<longrightarrow> length vs = length ts \<and> (\<forall>v \<in> set vs. terminal v) \<and> \<not> snd (snd acc')"
        by blast
      then show ?thesis using count_status_Ok [OF Ok] by (intro exI [of _ "v # vs"]) auto
    qed (use Cons.prems st Inr in \<open>auto intro: exI [of _ "[v]"]\<close>)
  qed
qed auto

definition reads :: "call_log \<Rightarrow> bool" where
  "reads l \<longleftrightarrow> (\<forall>c \<in> set l. \<exists>b i v. c = StatusRead b i v)"

lemma poll_batch_logged:
  assumes "poll_kv_submitted_batch (logged_transport tr) t (w, l) = (r, w', l')"
  obtains rs where "l' = rs @ l" and "reads rs" and "r \<noteq> Panic"
    and "\<And>st. r = Ok st \<Longrightarrow> st \<noteq> BatchPending \<Longrightarrow> drained (sb_batch_id t) (sb_task_count t) l'"
proof -
  obtain r1 w1 l1 where 1: "poll_tasks (logged_transport tr) (sb_batch_id t) [0 ..< sb_task_count t] (0, None, False) (w, l) = (r1, w1, l1)"
    by (cases "poll_tasks (logged_transport tr) (sb_batch_id t) [0 ..< sb_task_count t] (0, None, False) (w, l)") auto
  from poll_tasks_logged [OF 1] obtain vs where vs: "l1 = rev (map2 (StatusRead (sb_batch_id t)) [0 ..< sb_task_count t] vs) @ l" "r1 \<noteq> Panic"
      "\<forall>c f. r1 = Ok (c, f, False) \<longrightarrow> length vs = sb_task_count t \<and> (\<forall>v \<in> set vs. terminal v)"
    by auto
  have l': "l' = l1" "r = Panic \<Longrightarrow> r1 = Panic" using assms 1 by (cases r1; auto simp: poll_kv_submitted_batch_def)+
  have "reads (rev (map2 (StatusRead (sb_batch_id t)) [0 ..< sb_task_count t] vs))" by (auto simp: reads_def)
  moreover have "drained (sb_batch_id t) (sb_task_count t) l'" if st: "r = Ok st" "st \<noteq> BatchPending" for st
  proof -
    have "\<exists>c f. r1 = Ok (c, f, False)"
      using assms 1 st by (cases r1) (auto simp: poll_kv_submitted_batch_def split: if_splits)
    then show ?thesis using vs l'(1) unfolding drained_def by blast
  qed
  ultimately show ?thesis using that vs(1,2) l' by blast
qed

lemma wait_batch_logged:
  assumes "wait_batch (logged_transport tr) t (w, l) = Some (r, w', l')"
  shows "\<exists>rs. l' = rs @ l \<and> reads rs \<and> r \<noteq> Panic \<and> (\<forall>u. r = Ok u \<longrightarrow> drained (sb_batch_id t) (sb_task_count t) l')"
proof -
  define P where "P tr' t' s q \<longleftrightarrow> tr' = logged_transport tr \<longrightarrow>
    (\<exists>rs. snd (snd q) = rs @ snd s \<and> reads rs \<and> fst q \<noteq> Panic \<and> (\<forall>u. fst q = Ok u \<longrightarrow> drained (sb_batch_id t') (sb_task_count t') (snd (snd q))))"
    for tr' and t' :: submitted_batch and s :: "'a \<times> call_log" and q :: "(transfer_error, unit) outcome \<times> 'a \<times> call_log"
  have "P (logged_transport tr) t (w, l) (r, w', l')"
  proof (rule wait_batch.raw_induct [OF _ assms])
    fix wb tr' t' s q
    assume IH: "\<And>tr' t' s q. wb tr' t' s = Some q \<Longrightarrow> P tr' t' s q"
      and step: "(case poll_kv_submitted_batch tr' t' s of
          (Ok st, w') \<Rightarrow> if st = BatchPending then wb tr' t' w' else Some (Ok (), w')
        | (Err e, w') \<Rightarrow> Some (Err e, w') | (Panic, w') \<Rightarrow> Some (Panic, w')) = Some q"
    show "P tr' t' s q"
      unfolding P_def
    proof
      assume tr': "tr' = logged_transport tr"
      obtain r1 w1 l1 where 1: "poll_kv_submitted_batch (logged_transport tr) t' (fst s, snd s) = (r1, w1, l1)"
        by (cases "poll_kv_submitted_batch (logged_transport tr) t' (fst s, snd s)") auto
      from 1 obtain rs where rs: "l1 = rs @ snd s" "reads rs" "r1 \<noteq> Panic"
          "\<And>st. r1 = Ok st \<Longrightarrow> st \<noteq> BatchPending \<Longrightarrow> drained (sb_batch_id t') (sb_task_count t') l1"
        by (rule poll_batch_logged) blast
      show "\<exists>rs. snd (snd q) = rs @ snd s \<and> reads rs \<and> fst q \<noteq> Panic \<and> (\<forall>u. fst q = Ok u \<longrightarrow> drained (sb_batch_id t') (sb_task_count t') (snd (snd q)))"
      proof (cases "r1 = Ok BatchPending")
        case True
        then have "wb tr' t' (w1, l1) = Some q" using step 1 tr' by simp
        from IH [OF this] obtain rs' where "snd (snd q) = rs' @ l1" "reads rs'" "fst q \<noteq> Panic"
            "\<forall>u. fst q = Ok u \<longrightarrow> drained (sb_batch_id t') (sb_task_count t') (snd (snd q))"
          unfolding P_def tr' by auto
        then show ?thesis using rs(1,2) by (intro exI [of _ "rs' @ rs"]) (auto simp: reads_def)
      next
        case False
        then show ?thesis using step 1 tr' rs by (cases r1) auto
      qed
    qed
  qed
  then show ?thesis by (simp add: P_def)
qed

section \<open>The invariant of the executor\<close>

definition wired :: "('r, 'w \<times> call_log) kv_executor \<Rightarrow> bool" where
  "wired ex \<longleftrightarrow> (\<exists>tr. ex_submitter ex = logged_transport tr) \<and> (\<exists>rs. ex_resolver_ops ex = logged_resolver rs) \<and>
     pred_option (\<lambda>reg. \<exists>g. reg = logged_registrar g) (ex_registrar ex) \<and>
     pred_option (\<lambda>lease. rm_active lease \<and> (\<exists>g. rm_registrar lease = logged_registrar g)) (ex_registration ex)"

definition accounted :: "('r, 'w) kv_executor \<Rightarrow> call_log \<Rightarrow> bool" where
  "accounted ex l \<longleftrightarrow> ex_batches ex = map sb_batch_id (ex_transfers ex) \<and> mset (ex_batches ex) = outstanding l \<and>
     (\<forall>t \<in> set (ex_transfers ex). Submitted (sb_batch_id t) (sb_task_count t) \<in> set l) \<and>
     (ex_registration ex \<noteq> None \<longrightarrow> registered l) \<and> log_safe l"

definition ex_inv :: "('r, 'w \<times> call_log) kv_executor \<times> 'w \<times> call_log \<Rightarrow> bool" where
  "ex_inv s \<longleftrightarrow> wired (fst s) \<and> accounted (fst s) (snd (snd s))"

lemma reads_effects: "reads rs \<Longrightarrow> outstanding (rs @ l) = outstanding l \<and> registered (rs @ l) = registered l \<and> log_safe (rs @ l) = log_safe l"
  by (induction rs) (auto simp: reads_def)

lemma accounted_reads: "accounted ex l \<Longrightarrow> reads rs \<Longrightarrow> accounted ex (rs @ l)"
  using reads_effects [of rs l] by (auto simp: accounted_def)

lemma mset_remove_nth: "i < length xs \<Longrightarrow> mset (remove_nth i xs) = mset xs - {#xs ! i#}"
  by (metis add_mset_add_single add_mset_remove_trivial id_take_nth_drop mset.simps(2) mset_append remove_nth_def union_mset_add_mset_right)

lemma set_remove_nth: "set (remove_nth i xs) \<subseteq> set xs"
  by (auto simp: remove_nth_def dest: in_set_takeD in_set_dropD)

lemma map_remove_nth: "map f (remove_nth i xs) = remove_nth i (map f xs)"
  by (simp add: remove_nth_def take_map drop_map)

lemma accounted_free:
  assumes "accounted ex l" and "i < length (ex_transfers ex)"
    and "drained (sb_batch_id (ex_transfers ex ! i)) (sb_task_count (ex_transfers ex ! i)) l"
  shows "accounted (ex\<lparr>ex_transfers := remove_nth i (ex_transfers ex), ex_batches := remove_nth i (ex_batches ex)\<rparr>)
     (Freed (sb_batch_id (ex_transfers ex ! i)) # l)"
proof -
  have i: "i < length (ex_batches ex)" "ex_batches ex ! i = sb_batch_id (ex_transfers ex ! i)" using assms(1,2) by (auto simp: accounted_def)
  have "sb_batch_id (ex_transfers ex ! i) \<in># outstanding l" using assms(1) i by (metis accounted_def nth_mem set_mset_mset)
  moreover have "Submitted (sb_batch_id (ex_transfers ex ! i)) (sb_task_count (ex_transfers ex ! i)) \<in> set l"
    using assms(1,2) by (simp add: accounted_def)
  ultimately show ?thesis
    using assms i set_remove_nth [of i "ex_transfers ex"] by (auto simp: accounted_def map_remove_nth mset_remove_nth)
qed

lemma accounted_events [simp]: "accounted (ex\<lparr>ex_events := es\<rparr>) l = accounted ex l"
  by (simp add: accounted_def)

lemma accounted_layouts [simp]: "accounted (ex\<lparr>ex_remote_layouts := m\<rparr>) l = accounted ex l"
  by (simp add: accounted_def)

lemma wired_updates [simp]:
  "wired (ex\<lparr>ex_events := es\<rparr>) = wired ex" "wired (ex\<lparr>ex_remote_layouts := m\<rparr>) = wired ex"
  "wired (ex\<lparr>ex_transfers := ts\<rparr>) = wired ex" "wired (ex\<lparr>ex_batches := bs\<rparr>) = wired ex" "wired (ex\<lparr>ex_resolver := r\<rparr>) = wired ex"
  by (simp_all add: wired_def)

text \<open>Freeing and removing a drained transfer.\<close>

lemma release_drained:
  assumes "wired ex" and "accounted ex l" and "i < length (ex_transfers ex)"
    and "drained (sb_batch_id (ex_transfers ex ! i)) (sb_task_count (ex_transfers ex ! i)) l"
    and "and_with (free_transfer (ex_transfers ex ! i) (ex, w, l)) (\<lambda>_ s. remove_submitted i ((fst s)\<lparr>ex_events := es\<rparr>, snd s)) = (r, s')"
  shows "ex_inv s' \<and> r \<noteq> Panic"
proof -
  obtain tr where tr: "ex_submitter ex = logged_transport tr" using assms(1) by (auto simp: wired_def)
  have i: "i < length (ex_batches ex)" using assms(2,3) by (simp add: accounted_def)
  obtain q w1 where q: "free_batch tr (sb_batch_id (ex_transfers ex ! i)) w = (q, w1)" by (cases "free_batch tr (sb_batch_id (ex_transfers ex ! i)) w")
  show ?thesis
  proof (cases q)
    case (Inl e)
    then show ?thesis using assms tr q by (auto simp: free_transfer_def ex_inv_def)
  next
    case (Inr u)
    then have "r = Ok ()" "s' = (ex\<lparr>ex_transfers := remove_nth i (ex_transfers ex), ex_batches := remove_nth i (ex_batches ex), ex_events := es\<rparr>,
        w1, Freed (sb_batch_id (ex_transfers ex ! i)) # l)"
      using assms(5) tr q i by (auto simp: free_transfer_def remove_submitted_def Let_def)
    then show ?thesis using accounted_free [OF assms(2-4)] assms(1) by (simp add: ex_inv_def)
  qed
qed

lemma cancel_one_inv:
  assumes "ex_inv s" and "i < length (ex_transfers (fst s))" and "cancel_one i s = Some (r, s')"
  shows "ex_inv s' \<and> r \<noteq> Panic"
proof -
  obtain ex w l where s: "s = (ex, w, l)" by (cases s)
  have inv: "wired ex" "accounted ex l" using assms(1) s by (auto simp: ex_inv_def)
  then obtain tr where tr: "ex_submitter ex = logged_transport tr" by (auto simp: wired_def)
  let ?t = "ex_transfers ex ! i"
  obtain r1 w1 l1 where 1: "wait_batch (logged_transport tr) ?t (w, l) = Some (r1, w1, l1)"
    and rest: "(r, s') = and_with (r1, ex, w1, l1) (\<lambda>_ s. and_with (free_transfer ?t s) (\<lambda>_ s. remove_submitted i s))"
    using assms(3) by (auto simp: cancel_one_def s tr Let_def)
  obtain rs where rs: "l1 = rs @ l" "reads rs" "r1 \<noteq> Panic" "\<forall>u. r1 = Ok u \<longrightarrow> drained (sb_batch_id ?t) (sb_task_count ?t) l1"
    using wait_batch_logged [OF 1] by blast
  have acc: "accounted ex l1" using accounted_reads [OF inv(2) rs(2)] rs(1) by simp
  show ?thesis
  proof (cases r1)
    case (Ok u)
    have "ex\<lparr>ex_events := ex_events ex\<rparr> = ex" by simp
    then show ?thesis
      using release_drained [OF inv(1) acc, of i w1 "ex_events ex" r s'] rest rs(4) Ok assms(2) s
      by (auto simp: free_transfer_def and_with_def split: prod.splits outcome.splits)
  qed (use rest rs(3) inv(1) acc in \<open>auto simp: ex_inv_def\<close>)
qed

lemma cancel_loop_inv: "ex_inv s \<Longrightarrow> cancel_loop room s = Some (r, s') \<Longrightarrow> ex_inv s' \<and> r \<noteq> Panic"
proof (induction room s rule: cancel_loop.induct)
  case (1 room s)
  show ?case
  proof (cases "position (\<lambda>t. sb_room t = room) (ex_transfers (fst s))")
    case None
    then show ?thesis using 1(2,3) by (simp add: cancel_loop.simps [of room s]) auto
  next
    case (Some i)
    have i: "i < length (ex_transfers (fst s))" using position_Some [OF Some] by simp
    obtain r1 s1 where c: "cancel_one i s = Some (r1, s1)"
      using 1(3) Some by (auto simp: cancel_loop.simps [of room s] split: option.splits)
    note c1 = cancel_one_inv [OF 1(2) i c]
    show ?thesis
    proof (cases r1)
      case (Ok u)
      then have "cancel_loop room s1 = Some (r, s')" using 1(3) Some c by (simp add: cancel_loop.simps [of room s])
      then show ?thesis using 1(1) [OF Some c refl Ok] c1 by blast
    qed (use 1(3) Some c c1 in \<open>auto simp: cancel_loop.simps [of room s]\<close>)
  qed
qed

lemma executor_cancel_inv:
  assumes "ex_inv s" and "executor_cancel room s = Some (r, s')"
  shows "ex_inv s' \<and> r \<noteq> Panic"
proof -
  obtain r1 ex w where c: "cancel_loop room s = Some (r1, ex, w)"
    using assms(2) by (auto simp: executor_cancel_def split: option.splits prod.splits)
  then show ?thesis
    using cancel_loop_inv [OF assms(1) c] assms(2) by (cases r1) (auto simp: executor_cancel_def ex_inv_def)
qed

lemma cancel_rooms_inv: "ex_inv s \<Longrightarrow> cancel_rooms rooms s = Some (r, s') \<Longrightarrow> ex_inv s' \<and> r \<noteq> Panic"
proof (induction rooms arbitrary: s)
  case (Cons room rooms)
  obtain r1 s1 where c: "executor_cancel room s = Some (r1, s1)" using Cons.prems(2) by (auto split: option.splits)
  then show ?case
    using executor_cancel_inv [OF Cons.prems(1) c] Cons.IH [of s1] Cons.prems(2) by (cases r1) auto
qed auto

lemma finish_polled_inv:
  assumes "wired ex" and "accounted ex l" and "i < length (ex_transfers ex)"
    and "drained (sb_batch_id (ex_transfers ex ! i)) (sb_task_count (ex_transfers ex ! i)) l"
    and "finish_polled i st (ex, w, l) = (r, s')"
  shows "ex_inv s' \<and> r \<noteq> Panic"
proof (rule release_drained [OF assms(1-4)])
  show "and_with (free_transfer (ex_transfers ex ! i) (ex, w, l))
      (\<lambda>_ s. remove_submitted i ((fst s)\<lparr>ex_events := ex_events ex @ [event_for (ex_transfers ex ! i) st]\<rparr>, snd s)) = (r, s')"
    using assms(5) by (auto simp: finish_polled_def Let_def free_transfer_def and_with_def split: prod.splits outcome.splits)
qed

lemma poll_loop_inv: "ex_inv s \<Longrightarrow> poll_loop i s = (r, s') \<Longrightarrow> ex_inv s' \<and> r \<noteq> Panic"
proof (induction i s rule: poll_loop.induct)
  case (1 i s)
  obtain ex w l where s: "s = (ex, w, l)" by (cases s)
  show ?case
  proof (cases "i < length (ex_transfers ex)")
    case False
    then show ?thesis using 1(4,5) s by (simp add: poll_loop.simps [of i "(ex, w, l)"]) auto
  next
    case True
    have inv: "wired ex" "accounted ex l" using 1(4) s by (auto simp: ex_inv_def)
    then obtain tr where tr: "ex_submitter ex = logged_transport tr" by (auto simp: wired_def)
    let ?t = "ex_transfers ex ! i"
    obtain r1 w1 l1 where p: "poll_kv_submitted_batch (logged_transport tr) ?t (w, l) = (r1, w1, l1)"
      by (cases "poll_kv_submitted_batch (logged_transport tr) ?t (w, l)") auto
    obtain rs where rs: "l1 = rs @ l" "reads rs" "r1 \<noteq> Panic"
        "\<And>st. r1 = Ok st \<Longrightarrow> st \<noteq> BatchPending \<Longrightarrow> drained (sb_batch_id ?t) (sb_task_count ?t) l1"
      using p by (rule poll_batch_logged) blast
    have acc: "accounted ex l1" using accounted_reads [OF inv(2) rs(2)] rs(1) by simp
    have fin: "ex_inv s2 \<and> r2 \<noteq> Panic" if "r1 = Ok st" "st \<noteq> BatchPending" "finish_polled i es (ex, w1, l1) = (r2, s2)" for st es r2 s2
      using finish_polled_inv [OF inv(1) acc True rs(4) that(3)] that(1,2) by blast
    note unfolded = 1(5) [unfolded poll_loop.simps [of i s]]
    show ?thesis
    proof (cases r1)
      case (Ok st)
      show ?thesis
      proof (cases st)
        case BatchPending
        then have "poll_loop (i + 1) (ex, w1, l1) = (r, s')" using unfolded True s p tr Ok by (simp add: Let_def)
        moreover have "ex_inv (ex, w1, l1)" using inv(1) acc by (simp add: ex_inv_def)
        ultimately show ?thesis
          using 1(2) [of ex r1 "(w1, l1)" st] True s p tr Ok BatchPending by simp
      next
        case BatchCompleted
        obtain r2 s2 where f: "finish_polled i EventCompleted (ex, w1, l1) = (r2, s2)" by (cases "finish_polled i EventCompleted (ex, w1, l1)")
        then show ?thesis
          using 1(1) [of ex r1 "(w1, l1)" st r2 s2] fin [OF Ok _ f] unfolded True s p tr Ok BatchCompleted by (cases r2) (auto simp: Let_def)
      next
        case (BatchFailed m)
        obtain r2 s2 where f: "finish_polled i (EventFailed m) (ex, w1, l1) = (r2, s2)" by (cases "finish_polled i (EventFailed m) (ex, w1, l1)")
        then show ?thesis
          using 1(3) [of ex r1 "(w1, l1)" st m r2 s2] fin [OF Ok _ f] unfolded True s p tr Ok BatchFailed by (cases r2) (auto simp: Let_def)
      qed
    qed (use unfolded True s p tr rs(3) inv(1) acc in \<open>auto simp: Let_def ex_inv_def\<close>)
  qed
qed

lemma executor_poll_inv:
  assumes "ex_inv s" and "executor_poll s = (r, s')"
  shows "ex_inv s' \<and> r \<noteq> Panic"
proof -
  obtain r1 ex w where p: "poll_loop 0 s = (r1, ex, w)" by (cases "poll_loop 0 s") auto
  then show ?thesis using poll_loop_inv [OF assms(1) p] assms(2) by (cases r1) (auto simp: executor_poll_def ex_inv_def)
qed

lemma logged_resolver_simps [simp]:
  "resolve_target (logged_resolver rs) span (res, w, l) = keep_log (resolve_target rs span (res, w)) l"
  "resolve_session_target (logged_resolver rs) span session_id (res, w, l) = keep_log (resolve_session_target rs span session_id (res, w)) l"
  by (simp_all add: logged_resolver_def)

lemma map_err_iff [simp]: "map_err f r = Panic \<longleftrightarrow> r = Panic" "map_err f r = Ok a \<longleftrightarrow> r = Ok a"
  by (cases r; simp)+

lemma resolved_requests:
  assumes "and_with (lift_sum id (keep_log p l)) (\<lambda>target_id s. (map_err request_error (build target_id), s)) = (r, res', w', l')"
    and "\<And>target_id. build target_id \<noteq> Panic"
  shows "l' = l \<and> r \<noteq> Panic"
proof -
  obtain q res1 w1 where p: "p = (q, res1, w1)" by (cases p)
  show ?thesis using assms by (cases q) (auto simp: p keep_log_def)
qed

lemma remote_requests_log:
  "remote_requests (logged_resolver rs) lay span layouts qs (res, w, l) = (r, res', w', l') \<Longrightarrow>
   0 < ts_page_size span \<Longrightarrow> l' = l \<and> r \<noteq> Panic"
proof (induction layouts arbitrary: qs res w)
  case (Cons sl layouts)
  obtain session_id remote where sl: "sl = (session_id, remote)" by (cases sl)
  obtain q res1 w1 where q: "resolve_session_target rs span session_id (res, w) = (q, res1, w1)"
    by (cases "resolve_session_target rs span session_id (res, w)")
  show ?case
  proof (cases q)
    case (Inl e)
    then show ?thesis using Cons.prems by (auto simp: sl q keep_log_def)
  next
    case (Inr target_id)
    then show ?thesis
      using Cons build_requests_not_Panic(2) [OF Cons.prems(2), of lay target_id remote]
      by (cases "build_remote_kv_transfer_requests span lay target_id remote") (auto simp: sl q keep_log_def)
  qed
qed auto

lemma span_requests_log:
  assumes "wired ex" and "span_requests span ex (w, l) = (r, res', w', l')" and "0 < ts_page_size span"
  shows "l' = l \<and> r \<noteq> Panic"
proof -
  obtain rs where rs: "ex_resolver_ops ex = logged_resolver rs" using assms(1) by (auto simp: wired_def)
  show ?thesis
  proof (cases "map_of (ex_remote_layouts ex) (ts_room span)")
    case None
    then show ?thesis
      using assms(2) resolved_requests [OF _ build_requests_not_Panic(1) [OF assms(3)]] by (simp add: span_requests_def rs)
  next
    case (Some layouts)
    then show ?thesis using assms(2,3) remote_requests_log by (simp add: span_requests_def rs)
  qed
qed

lemma executor_submit_inv:
  assumes "ex_inv s" and "executor_submit sha256 span s = (r, s')" and "0 < ts_page_size span"
  shows "ex_inv s' \<and> r \<noteq> Panic"
proof (cases "ex_registration (fst s) = None")
  case True
  then show ?thesis using assms(1,2) by (auto simp: executor_submit_def)
next
  case False
  obtain ex w l where s: "s = (ex, w, l)" by (cases s)
  have inv: "wired ex" "accounted ex l" using assms(1) s by (auto simp: ex_inv_def)
  then obtain tr where tr: "ex_submitter ex = logged_transport tr" by (auto simp: wired_def)
  obtain r1 res1 w1 l1 where q: "span_requests span ex (w, l) = (r1, res1, w1, l1)" by (cases "span_requests span ex (w, l)")
  then have l1: "l1 = l" "r1 \<noteq> Panic" using span_requests_log [OF inv(1) q assms(3)] by auto
  show ?thesis
  proof (cases r1)
    case (Ok qs)
    obtain b w2 where b: "submit_transfer tr qs w1 = (b, w2)" by (cases "submit_transfer tr qs w1")
    have "registered l" using inv(2) False s by (simp add: accounted_def)
    then show ?thesis
      using assms(2) False s q l1 Ok b tr inv
      by (cases b; cases "qs = []") (auto simp: executor_submit_def Let_def ex_inv_def accounted_def submitted_batch_of_span_def)
  qed (use assms(2) False s q l1 inv in \<open>auto simp: executor_submit_def Let_def ex_inv_def accounted_def\<close>)
qed

section \<open>Registration and shutdown\<close>

lemma register_memory_log:
  assumes "register_memory (logged_registrar g) m (w, l) = (r, w', l')"
  shows "case r of Inl e \<Rightarrow> l' = l
    | Inr lease \<Rightarrow> l' = Registered (map fst (tm_regions m)) # l \<and> rm_active lease \<and> rm_registrar lease = logged_registrar g \<and> rm_memory lease = m"
  using assms
  by (auto simp: register_memory_def logged_registrar_def split: sum.splits prod.splits elim!: log_ok_cases)

lemma executor_register_inv:
  assumes "ex_inv s" and "executor_register m s = (r, s')"
  shows "ex_inv s' \<and> r \<noteq> Panic"
proof -
  obtain ex w l where s: "s = (ex, w, l)" by (cases s)
  have inv: "wired ex" "accounted ex l" using assms(1) s by (auto simp: ex_inv_def)
  show ?thesis
  proof (cases "ex_registrar ex")
    case None
    then show ?thesis using assms by (auto simp: executor_register_def Let_def s split: if_splits)
  next
    case (Some reg)
    then obtain g where g: "reg = logged_registrar g" using inv(1) by (auto simp: wired_def)
    obtain q w1 l1 where q: "register_memory reg m (w, l) = (q, w1, l1)" by (cases "register_memory reg m (w, l)") auto
    note reg = register_memory_log [OF q [unfolded g]]
    show ?thesis
      using assms(2) inv reg Some q
      by (cases q) (auto simp: executor_register_def Let_def s ex_inv_def wired_def accounted_def split: if_splits)
  qed
qed

lemma with_registration_inv:
  assumes "ex_inv (ex, w, l)" and "register_memory (logged_registrar g) m (w, l) = (Inr lease, w', l')"
    and "with_local_memory_registration lease ex = Ok ex'"
  shows "ex_inv (ex', w', l')"
  using assms register_memory_log [OF assms(2)]
  by (auto simp: with_local_memory_registration_def ex_inv_def wired_def accounted_def outcome_simps split: if_splits)

lemma cancel_rooms_Ok:
  "cancel_rooms rooms s = Some (Ok u, s') \<Longrightarrow> ex_transfers (fst s') = filter (\<lambda>t. sb_room t \<notin> set rooms) (ex_transfers (fst s))"
proof (induction rooms arbitrary: s)
  case (Cons room rooms)
  then obtain u1 s1 where c: "executor_cancel room s = Some (Ok u1, s1)" "cancel_rooms rooms s1 = Some (Ok u, s')"
    by (auto split: option.splits outcome.splits prod.splits)
  show ?case using Cons.IH [OF c(2)] executor_cancel_Ok [OF c(1)] by (simp add: conj_commute)
qed auto

lemma unregister_log:
  assumes "rm_active lease" and "rm_registrar lease = logged_registrar g" and "unregister_memory lease (w, l) = (r, lease', w', l')"
  shows "case r of Inl e \<Rightarrow> l' = l \<and> lease' = lease | Inr _ \<Rightarrow> l' = Unregistered (rm_registered_addrs lease) # l \<and> lease' = lease\<lparr>rm_active := False\<rparr>"
  using assms by (auto simp: unregister_memory_def logged_registrar_def split: prod.splits sum.splits elim!: log_ok_cases)

lemma drop_inactive [simp]: "drop_registered_memory (lease\<lparr>rm_active := False\<rparr>) w = (Ok (), w)"
  by (simp add: drop_registered_memory_def unregister_memory_def)

lemma executor_shutdown_inv:
  assumes "ex_inv s" and "executor_shutdown s = Some (r, s')"
  shows "ex_inv s' \<and> r \<noteq> Panic"
proof -
  obtain r1 ex w l where c: "cancel_rooms (map sb_room (ex_transfers (fst s))) s = Some (r1, ex, w, l)"
    using assms(2) by (auto simp: executor_shutdown_def split: option.splits)
  note c1 = cancel_rooms_inv [OF assms(1) c]
  show ?thesis
  proof (cases r1)
    case (Ok u)
    have empty: "ex_transfers ex = []" using cancel_rooms_Ok [OF c [unfolded Ok]] by (auto simp: filter_empty_conv)
    have inv: "wired ex" "accounted ex l" using c1 by (auto simp: ex_inv_def)
    show ?thesis
    proof (cases "ex_registration ex")
      case None
      then show ?thesis using assms(2) c Ok c1 by (auto simp: executor_shutdown_def)
    next
      case (Some lease)
      then obtain g where g: "rm_active lease" "rm_registrar lease = logged_registrar g" using inv(1) by (auto simp: wired_def)
      obtain q lease' w1 l1 where q: "unregister_memory lease (w, l) = (q, lease', w1, l1)" by (cases "unregister_memory lease (w, l)") auto
      have "outstanding l = {#}" "registered l" using inv(2) empty Some by (auto simp: accounted_def)
      then show ?thesis
        using unregister_log [OF g q] assms(2) c Ok Some q inv empty
        by (cases q) (auto simp: executor_shutdown_def ex_inv_def wired_def accounted_def)
    qed
  qed (use assms(2) c c1 in \<open>auto simp: executor_shutdown_def\<close>)
qed

section \<open>Runs\<close>

text \<open>
  The states an executor over a logged transport reaches by the calls of its interface, from its construction with an
  empty log.  Between two calls the world may change in any way that does not write to the log.  \<open>None\<close> as result of a call is
  a call that does not return.
\<close>

inductive executor_run :: "(u8 list \<Rightarrow> u8 list) \<Rightarrow> ('r, 'w \<times> call_log) kv_executor \<times> 'w \<times> call_log \<Rightarrow> bool" for sha256 where
  start: "executor_run sha256 (with_session_layouts (logged_transport tr) lay (logged_resolver rs) res layouts, w, [])"
| start_rooms: "executor_run sha256 (with_remote_layouts (logged_transport tr) lay (logged_resolver rs) res rooms, w, [])"
| start_plain: "executor_run sha256 (with_target_resolver (logged_transport tr) lay (logged_resolver rs) res, w, [])"
| world: "executor_run sha256 (ex, w, l) \<Longrightarrow> executor_run sha256 (ex, w', l)"
| registrar: "executor_run sha256 (ex, w, l) \<Longrightarrow> executor_run sha256 (with_memory_registrar (logged_registrar g) ex, w, l)"
| lease: "executor_run sha256 (ex, w, l) \<Longrightarrow> register_memory (logged_registrar g) m (w, l) = (Inr lease, w', l') \<Longrightarrow>
    with_local_memory_registration lease ex = Ok ex' \<Longrightarrow> executor_run sha256 (ex', w', l')"
| layout: "executor_run sha256 (ex, w, l) \<Longrightarrow> executor_run sha256 (insert_remote_kv_session_layout room session_id remote ex, w, l)"
| register: "executor_run sha256 s \<Longrightarrow> executor_register m s = (r, s') \<Longrightarrow> executor_run sha256 s'"
| submit: "executor_run sha256 s \<Longrightarrow> 0 < ts_page_size span \<Longrightarrow> executor_submit sha256 span s = (r, s') \<Longrightarrow> executor_run sha256 s'"
| poll: "executor_run sha256 s \<Longrightarrow> executor_poll s = (p, s') \<Longrightarrow> executor_run sha256 s'"
| cancel: "executor_run sha256 s \<Longrightarrow> executor_cancel room s = Some (r, s') \<Longrightarrow> executor_run sha256 s'"
| shutdown: "executor_run sha256 s \<Longrightarrow> executor_shutdown s = Some (r, s') \<Longrightarrow> executor_run sha256 s'"

lemma executor_run_inv: "executor_run sha256 s \<Longrightarrow> ex_inv s"
proof (induction rule: executor_run.induct)
  case (lease ex w l g m lease w' l' ex')
  show ?case by (rule with_registration_inv [OF lease(4) lease(2) lease(3)])
next
  case (register s m r s')
  then show ?case using executor_register_inv by blast
next
  case (submit s span r s')
  then show ?case using executor_submit_inv by blast
next
  case (poll s p s')
  then show ?case using executor_poll_inv by blast
next
  case (cancel s room r s')
  then show ?case using executor_cancel_inv by blast
next
  case (shutdown s r s')
  then show ?case using executor_shutdown_inv by blast
qed (simp_all add: ex_inv_def wired_def accounted_def with_session_layouts_def with_remote_layouts_def with_target_resolver_def
    with_memory_registrar_def insert_remote_kv_session_layout_def, auto)

text \<open>
  (C26) Safety of the registered memory, for every transport, every resolver and every sequence of calls: the log of the
  successful transport calls is safe (a batch is submitted only while the memory is registered, is freed only when every one of its tasks has
  just been seen in a terminal state, and the memory is unregistered only when no batch is outstanding), the batches the
  executor keeps are exactly the outstanding ones, and no call panics.
\<close>

theorem registered_memory_outlives_transfers:
  assumes "executor_run sha256 (ex, w, l)" and "0 < ts_page_size span"
  shows "log_safe l \<and> mset (map sb_batch_id (ex_transfers ex)) = outstanding l \<and>
    fst (executor_register m (ex, w, l)) \<noteq> Panic \<and> fst (executor_submit sha256 span (ex, w, l)) \<noteq> Panic \<and>
    fst (executor_poll (ex, w, l)) \<noteq> Panic \<and> map_option fst (executor_cancel room (ex, w, l)) \<noteq> Some Panic \<and>
    map_option fst (executor_shutdown (ex, w, l)) \<noteq> Some Panic"
proof -
  note inv = executor_run_inv [OF assms(1)]
  have "log_safe l" "mset (map sb_batch_id (ex_transfers ex)) = outstanding l"
    using inv by (auto simp: ex_inv_def accounted_def)
  moreover have "fst (executor_register m (ex, w, l)) \<noteq> Panic" using executor_register_inv [OF inv] by (metis prod.collapse)
  moreover have "fst (executor_submit sha256 span (ex, w, l)) \<noteq> Panic" using executor_submit_inv [OF inv _ assms(2)] by (metis prod.collapse)
  moreover have "fst (executor_poll (ex, w, l)) \<noteq> Panic" using executor_poll_inv [OF inv] by (metis prod.collapse)
  moreover have "map_option fst (executor_cancel room (ex, w, l)) \<noteq> Some Panic"
    using executor_cancel_inv [OF inv, of room] by fastforce
  moreover have "map_option fst (executor_shutdown (ex, w, l)) \<noteq> Some Panic"
    using executor_shutdown_inv [OF inv] by fastforce
  ultimately show ?thesis by blast
qed

text \<open>A run with a transport that answers at once.\<close>

definition sample_transport :: "unit transport" where
  "sample_transport = \<lparr>submit_transfer = \<lambda>qs w. (Inr 5, w), transfer_status = \<lambda>b i w. (Inr 4, w), free_batch = \<lambda>b w. (Inr (), w)\<rparr>"

definition sample_registrar :: "unit memory_registrar" where
  "sample_registrar = \<lparr>register_memory_batch = \<lambda>bufs loc w. (Inr (), w), unregister_memory_batch = \<lambda>addrs w. (Inr (), w)\<rparr>"

definition sample_memory :: transferable_memory where
  "sample_memory = \<lparr>tm_regions = [(100, 1000)], tm_page_size_bytes = 10, tm_location = CpuMemory 0\<rparr>"

definition sample_started :: "(unit, unit \<times> call_log) kv_executor \<times> unit \<times> call_log" where
  "sample_started = (with_memory_registrar (logged_registrar sample_registrar)
     (with_target_resolver (logged_transport sample_transport) sample_layout (logged_resolver (fixed_resolver 1)) ()), (), [])"

definition sample_registered :: "(unit, unit \<times> call_log) kv_executor \<times> unit \<times> call_log" where
  "sample_registered = snd (executor_register sample_memory sample_started)"

definition sample_submitted :: "(unit, unit \<times> call_log) kv_executor \<times> unit \<times> call_log" where
  "sample_submitted = snd (executor_submit id sample_span sample_registered)"

lemma sample_registered_state:
  "ex_registration (fst sample_registered) \<noteq> None" "ex_layout (fst sample_registered) = sample_layout"
  "ex_remote_layouts (fst sample_registered) = []" "ex_resolver_ops (fst sample_registered) = logged_resolver (fixed_resolver 1)"
  "ex_submitter (fst sample_registered) = logged_transport sample_transport" "snd sample_registered = ((), [Registered [100]])"
  by (simp_all add: sample_registered_def sample_started_def executor_register_def with_memory_registrar_def with_target_resolver_def
      sample_memory_def sample_layout_def register_memory_def logged_registrar_def sample_registrar_def Let_def)

lemma sample_submitted_log: "snd (snd sample_submitted) = [Submitted 5 2, Registered [100]]"
  using sample_registered_state
  by (cases "sample_registered")
    (auto simp: sample_submitted_def executor_submit_def span_requests_def Let_def fixed_resolver_def keep_log_def sample_requests sample_transport_def)

lemma sample_submitted_run: "executor_run id sample_submitted"
proof -
  have "executor_run id sample_started"
    unfolding sample_started_def by (intro executor_run.registrar executor_run.start_plain)
  then have "executor_run id sample_registered"
    unfolding sample_registered_def by (rule executor_run.register) (rule prod.collapse [symmetric])
  moreover have "0 < ts_page_size sample_span" by (simp add: sample_span_fields)
  ultimately show ?thesis
    unfolding sample_submitted_def by (rule executor_run.submit) (rule prod.collapse [symmetric])
qed

theorem registered_memory_outlives_transfers_witness:
  "log_safe [Submitted 5 2, Registered [100]] \<and> mset (map sb_batch_id (ex_transfers (fst sample_submitted))) = {#5#} \<and>
   fst (executor_poll sample_submitted) \<noteq> Panic"
proof -
  obtain ex where s: "sample_submitted = (ex, (), [Submitted 5 2, Registered [100]])"
    using sample_submitted_log by (metis prod.collapse old.unit.exhaust)
  have "0 < ts_page_size sample_span" by (simp add: sample_span_fields)
  from registered_memory_outlives_transfers [OF sample_submitted_run [unfolded s] this]
  show ?thesis by (auto simp: s)
qed

section \<open>Waiting ends when the transport makes progress\<close>

definition progresses :: "'w transport \<Rightarrow> ('w \<Rightarrow> nat) \<Rightarrow> bool" where
  "progresses tr m \<longleftrightarrow> (\<forall>b w w'. poll_kv_submitted_batch tr b w = (Ok BatchPending, w') \<longrightarrow> m w' < m w)"

lemma wait_batch_returns:
  assumes "progresses tr m"
  shows "\<exists>r w'. wait_batch tr b w = Some (r, w')"
proof (induction w rule: measure_induct_rule [where f = m])
  case (less w)
  obtain r w1 where p: "poll_kv_submitted_batch tr b w = (r, w1)" by (cases "poll_kv_submitted_batch tr b w")
  show ?case
  proof (cases "r = Ok BatchPending")
    case True
    then have "m w1 < m w" using assms p by (auto simp: progresses_def)
    then show ?thesis using less p True by (simp add: wait_batch.simps [of tr b w])
  next
    case False
    then show ?thesis using p by (cases r) (auto simp: wait_batch.simps [of tr b w])
  qed
qed

lemma cancel_one_returns:
  assumes "progresses (ex_submitter (fst s)) m"
  shows "\<exists>r s'. cancel_one i s = Some (r, s') \<and> ex_submitter (fst s') = ex_submitter (fst s)"
proof -
  obtain r w where w: "wait_batch (ex_submitter (fst s)) (ex_transfers (fst s) ! i) (snd s) = Some (r, w)"
    using wait_batch_returns [OF assms] by blast
  show ?thesis
    using w
    by (cases r) (auto simp: cancel_one_def free_transfer_def lift_sum_def remove_submitted_def Let_def split: prod.splits sum.splits)
qed

lemma cancel_loop_returns:
  "progresses (ex_submitter (fst s)) m \<Longrightarrow> \<exists>r s'. cancel_loop room s = Some (r, s') \<and> ex_submitter (fst s') = ex_submitter (fst s)"
proof (induction room s rule: cancel_loop.induct)
  case (1 room s)
  show ?case
  proof (cases "position (\<lambda>t. sb_room t = room) (ex_transfers (fst s))")
    case None
    then show ?thesis by (simp add: cancel_loop.simps [of room s])
  next
    case (Some i)
    obtain r s1 where c: "cancel_one i s = Some (r, s1)" "ex_submitter (fst s1) = ex_submitter (fst s)"
      using cancel_one_returns [OF 1(2)] by blast
    then show ?thesis
      using 1(1) [OF Some c(1) refl] 1(2) Some by (cases r) (auto simp: cancel_loop.simps [of room s])
  qed
qed

lemma executor_cancel_returns:
  assumes "progresses (ex_submitter (fst s)) m"
  shows "\<exists>r s'. executor_cancel room s = Some (r, s') \<and> ex_submitter (fst s') = ex_submitter (fst s)"
proof -
  obtain r ex w where "cancel_loop room s = Some (r, ex, w)" "ex_submitter ex = ex_submitter (fst s)"
    using cancel_loop_returns [OF assms, of room] by auto
  then show ?thesis by (cases r) (auto simp: executor_cancel_def)
qed

lemma cancel_rooms_returns: "progresses (ex_submitter (fst s)) m \<Longrightarrow> \<exists>r s'. cancel_rooms rooms s = Some (r, s')"
proof (induction rooms arbitrary: s)
  case (Cons room rooms)
  obtain r s1 where c: "executor_cancel room s = Some (r, s1)" "ex_submitter (fst s1) = ex_submitter (fst s)"
    using executor_cancel_returns [OF Cons.prems] by blast
  then show ?case using Cons.IH [of s1] Cons.prems by (cases r) auto
qed simp

text \<open>
  Cancelling a room and shutting down return, although they wait for the transport: it is enough that each status
  query that finds a pending batch brings the transport nearer to an end.
\<close>

theorem cancel_and_shutdown_return:
  assumes "progresses (ex_submitter ex) m"
  shows "(\<exists>r s'. executor_cancel room (ex, w) = Some (r, s')) \<and> (\<exists>r s'. executor_shutdown (ex, w) = Some (r, s'))"
proof -
  have "\<exists>r s'. executor_cancel room (ex, w) = Some (r, s')" using executor_cancel_returns [of "(ex, w)" m room] assms by auto
  moreover obtain r ex' w' where "cancel_rooms (map sb_room (ex_transfers ex)) (ex, w) = Some (r, ex', w')"
    using cancel_rooms_returns [of "(ex, w)" m "map sb_room (ex_transfers ex)"] assms by auto
  then have "executor_shutdown (ex, w) \<noteq> None" by (cases r) (simp_all add: executor_shutdown_def)
  ultimately show ?thesis by fast
qed

text \<open>A transport that is pending until its counter is 0.\<close>

definition countdown :: "nat transport" where
  "countdown = \<lparr>submit_transfer = \<lambda>qs w. (Inr 5, w), transfer_status = \<lambda>b i w. (Inr (if w = 0 then 4 else 1), w - 1), free_batch = \<lambda>b w. (Inr (), w)\<rparr>"

lemma countdown_status:
  "count_status b t (if w = (0 :: nat) then 4 else 1) (c, f, p) = Ok (if w = 0 then (c + 1, f, p) else (c, f, True))"
  by (simp add: status_code_of_def)

lemma countdown_tasks:
  "poll_tasks countdown b ts (c, f, p) w = (Ok (c', f', p'), w') \<Longrightarrow>
   w' \<le> w \<and> (if p' then p \<or> w' < w else \<not> p \<and> c' = c + length ts \<and> f' = f)"
proof (induction ts arbitrary: c f p w)
  case (Cons t ts)
  have "poll_tasks countdown b ts (if w = 0 then c + 1 else c, f, if w = 0 then p else True) (w - 1) = (Ok (c', f', p'), w')"
    using Cons.prems countdown_status [of b t w c f p] by (cases "w = 0") (simp_all add: countdown_def)
  from Cons.IH [OF this] show ?case by (auto split: if_splits)
qed simp

lemma countdown_progresses: "progresses countdown id"
proof (unfold progresses_def, intro allI impI)
  fix b w w'
  assume p: "poll_kv_submitted_batch countdown b w = (Ok BatchPending, w')"
  then obtain c f q where t: "poll_tasks countdown (sb_batch_id b) [0 ..< sb_task_count b] (0, None, False) w = (Ok (c, f, q), w')"
    by (auto simp: poll_kv_submitted_batch_def outcome_simps)
  show "id w' < id w"
    using countdown_tasks [OF t] p t by (auto simp: poll_kv_submitted_batch_def split: if_splits option.splits)
qed

theorem cancel_and_shutdown_return_witness:
  "\<exists>r s'. executor_shutdown (with_target_resolver countdown sample_layout (fixed_resolver 1) ()\<lparr>ex_batches := [5],
      ex_transfers := [\<lparr>sb_room = 7, sb_batch_id = 5, sb_task_count = 2, sb_checksum = []\<rparr>]\<rparr>, 9) = Some (r, s')"
proof -
  have "progresses (ex_submitter (with_target_resolver countdown sample_layout (fixed_resolver 1) ()\<lparr>ex_batches := [5],
      ex_transfers := [\<lparr>sb_room = 7, sb_batch_id = 5, sb_task_count = 2, sb_checksum = []\<rparr>]\<rparr>)) id"
    using countdown_progresses by (simp add: with_target_resolver_def)
  from cancel_and_shutdown_return [OF this] show ?thesis by blast
qed

end
