(* ===== verification/Transfer_Worker.thy ===== *)
theory Transfer_Worker
  imports Transfer_Safety
begin

text \<open>
  The model worker of a disaggregated server: \<open>execute_kv_cache_transfer_plan\<close>, \<open>apply_transfer_completion_events\<close>,
  \<open>is_decode_request_kv_ready\<close> and \<open>KvTransferModelWorker\<close> of \<open>crates/sglang-srt/src/transfer/mod.rs\<close>.  The wrapped worker and
  the bootstrap publisher are records of functions, the transfer backend is the interface \<open>backend\<close>; the locale
  \<open>transfer_backend\<close> says what the worker relies on, and the executor is an instance of it.
\<close>

section \<open>Interfaces\<close>

record 'e backend =
  backend_submit :: "kv_span \<Rightarrow> 'e \<Rightarrow> (transfer_error, unit) outcome \<times> 'e"
  backend_poll :: "'e \<Rightarrow> (transfer_error, transfer_poll) outcome \<times> 'e"
  backend_cancel :: "u64 \<Rightarrow> 'e \<Rightarrow> ((transfer_error, unit) outcome \<times> 'e) option"
  backend_shutdown :: "'e \<Rightarrow> ((transfer_error, unit) outcome \<times> 'e) option"

definition kv_executor_backend :: "(u8 list \<Rightarrow> u8 list) \<Rightarrow> (('r, 'w) kv_executor \<times> 'w) backend" where
  "kv_executor_backend sha256 =
     \<lparr>backend_submit = executor_submit sha256, backend_poll = executor_poll, backend_cancel = executor_cancel,
      backend_shutdown = executor_shutdown\<rparr>"

record 'p bootstrap_publisher =
  publish_metadata :: "kv_span list \<Rightarrow> 'p \<Rightarrow> (string + unit) \<times> 'p"
  receive_token_and_state :: "u64 \<Rightarrow> 'p \<Rightarrow> (string + u32 \<times> u8 list option) \<times> 'p"
  cancel_receive :: "u64 \<Rightarrow> 'p \<Rightarrow> (string + unit) \<times> 'p"

definition noop_publisher :: "'p bootstrap_publisher" where
  "noop_publisher =
     \<lparr>publish_metadata = \<lambda>spans p. (Inr (), p),
      receive_token_and_state = \<lambda>room p. (Inl ''decode bootstrap publisher has no receive/completion implementation'', p),
      cancel_receive = \<lambda>room p. (Inl ''decode bootstrap publisher has no safe receive cancellation implementation'', p)\<rparr>"

record 'w model_worker =
  mw_generate :: "schedule_batch \<Rightarrow> 'w \<Rightarrow> (worker_execution_error + generated_token list) \<times> 'w"
  mw_request_state :: "'w \<Rightarrow> scheduled_request \<Rightarrow> worker_execution_error + decode_request_state"
  mw_finish_request :: "scheduled_request \<Rightarrow> 'w \<Rightarrow> (worker_execution_error + unit) \<times> 'w"
  mw_fail_request :: "scheduled_request \<Rightarrow> 'w \<Rightarrow> 'w"
  mw_shutdown :: "'w \<Rightarrow> (worker_execution_error + unit) \<times> 'w"
  mw_export_state :: "'w \<Rightarrow> request_id \<Rightarrow> worker_execution_error + u8 list option"
  mw_restore_state :: "request_id \<Rightarrow> u8 list \<Rightarrow> 'w \<Rightarrow> (worker_execution_error + unit) \<times> 'w"

section \<open>Plans and events\<close>

record transfer_summary =
  submitted_spans :: usize
  noop_spans :: usize
  snapshot_checksums :: "string list"

definition registry_error :: "decode_bootstrap_registry_error \<Rightarrow> transfer_error" where
  "registry_error e = TransferRegistry e"

definition set_status ::
  "u64 \<Rightarrow> kv_poll \<Rightarrow> bootstrap_registry \<times> 'e \<Rightarrow> (transfer_error, unit) outcome \<times> bootstrap_registry \<times> 'e" where
  "set_status room st s =
     (case bootstrap_update_status room st (fst s) of
        Ok reg \<Rightarrow> (Ok (), reg, snd s) | Err e \<Rightarrow> (Err (registry_error e), s) | Panic \<Rightarrow> (Panic, s))"

fun execute_plan ::
  "'e backend \<Rightarrow> kv_span list \<Rightarrow> transfer_summary \<Rightarrow> bootstrap_registry \<times> 'e \<Rightarrow>
   (transfer_error, transfer_summary) outcome \<times> bootstrap_registry \<times> 'e" where
  "execute_plan be [] summary s = (Ok summary, s)"
| "execute_plan be (span # spans) summary s =
     (if is_noop span \<and> ts_first_token span = None
      then and_with (set_status (ts_room span) Success s) (\<lambda>_ s.
             execute_plan be spans (summary\<lparr>noop_spans := noop_spans summary + 1\<rparr>) s)
      else and_with (set_status (ts_room span) Transferring s) (\<lambda>_ s.
             case backend_submit be span (snd s) of
               (Err e, ex) \<Rightarrow> and_with (set_status (ts_room span) PollFailed (fst s, ex)) (\<lambda>_ s. (Err e, s))
             | (Panic, ex) \<Rightarrow> (Panic, fst s, ex)
             | (Ok _, ex) \<Rightarrow> execute_plan be spans (summary\<lparr>submitted_spans := submitted_spans summary + 1\<rparr>) (fst s, ex)))"

definition empty_summary :: transfer_summary where
  "empty_summary = \<lparr>submitted_spans = 0, noop_spans = 0, snapshot_checksums = []\<rparr>"

definition execute_kv_cache_transfer_plan ::
  "'e backend \<Rightarrow> kv_span list \<Rightarrow> bootstrap_registry \<times> 'e \<Rightarrow> (transfer_error, transfer_summary) outcome \<times> bootstrap_registry \<times> 'e" where
  "execute_kv_cache_transfer_plan be spans s = execute_plan be spans empty_summary s"

text \<open>A checksum is only reported when there is one.\<close>

definition push_checksum :: "string \<Rightarrow> string list \<Rightarrow> string list" where
  "push_checksum c cs = (if c = [] then cs else cs @ [c])"

fun apply_events ::
  "completion_event list \<Rightarrow> poll_summary \<Rightarrow> bootstrap_registry \<Rightarrow> (transfer_error, poll_summary) outcome \<times> bootstrap_registry" where
  "apply_events [] summary reg = (Ok summary, reg)"
| "apply_events (e # es) summary reg =
     (case ev_status e of
        EventCompleted \<Rightarrow>
          (case bootstrap_update_status (ev_room e) Success reg of
             Ok reg' \<Rightarrow> apply_events es (summary\<lparr>completed_batches := completed_batches summary + 1,
                 completed_descriptor_checksums := push_checksum (ev_checksum e) (completed_descriptor_checksums summary)\<rparr>) reg'
           | Err err \<Rightarrow> (Err (registry_error err), reg)
           | Panic \<Rightarrow> (Panic, reg))
      | _ \<Rightarrow>
          (case bootstrap_update_status (ev_room e) PollFailed reg of
             Ok reg' \<Rightarrow> apply_events es (summary\<lparr>failed_batches := failed_batches summary + 1,
                 failed_descriptor_checksums := push_checksum (ev_checksum e) (failed_descriptor_checksums summary)\<rparr>) reg'
           | Err err \<Rightarrow> (Err (registry_error err), reg)
           | Panic \<Rightarrow> (Panic, reg)))"

definition apply_transfer_completion_events ::
  "transfer_poll \<Rightarrow> bootstrap_registry \<Rightarrow> (transfer_error, poll_summary) outcome \<times> bootstrap_registry" where
  "apply_transfer_completion_events p reg =
     apply_events (poll_events p)
       \<lparr>completed_batches = 0, failed_batches = 0, pending_batches = pending_transfers p, completed_descriptor_checksums = [],
        failed_descriptor_checksums = [], pending_descriptor_checksums = []\<rparr> reg"

definition is_decode_request_kv_ready :: "scheduled_request \<Rightarrow> bootstrap_registry \<Rightarrow> (transfer_error, bool) outcome" where
  "is_decode_request_kv_ready req reg =
     (case disagg_params req of
        None \<Rightarrow> Ok True
      | Some params \<Rightarrow>
          and_then (ok_or (registry_error (MissingBootstrapRoom (bootstrap_room params))) (bootstrap_get reg (bootstrap_room params))) (\<lambda>session.
            Ok (bs_status session = Success)))"

section \<open>The worker\<close>

record ('w, 'e, 'p) transfer_worker =
  tw_publisher :: 'p
  tw_executor :: 'e
  tw_worker :: 'w
  tw_registry :: bootstrap_registry
  tw_page_size :: usize
  tw_submit_prefill :: bool
  tw_prefill_only :: bool
  tw_last_summary :: "transfer_summary option"

record ('w, 'e, 'p) worker_parts =
  wp_publisher :: "'p bootstrap_publisher"
  wp_backend :: "'e backend"
  wp_worker :: "'w model_worker"

definition transfer_worker_new :: "'w \<Rightarrow> bootstrap_registry \<Rightarrow> 'e \<Rightarrow> 'p \<Rightarrow> ('w, 'e, 'p) transfer_worker" where
  "transfer_worker_new w reg ex p =
     \<lparr>tw_publisher = p, tw_executor = ex, tw_worker = w, tw_registry = reg, tw_page_size = 1, tw_submit_prefill = True,
      tw_prefill_only = False, tw_last_summary = None\<rparr>"

definition with_decode_side_bootstrap_only :: "('w, 'e, 'p) transfer_worker \<Rightarrow> ('w, 'e, 'p) transfer_worker" where
  "with_decode_side_bootstrap_only tw = tw\<lparr>tw_submit_prefill := False\<rparr>"

definition with_prefill_only :: "('w, 'e, 'p) transfer_worker \<Rightarrow> ('w, 'e, 'p) transfer_worker" where
  "with_prefill_only tw = tw\<lparr>tw_prefill_only := True\<rparr>"

definition with_kv_page_size :: "usize \<Rightarrow> ('w, 'e, 'p) transfer_worker \<Rightarrow> ('w, 'e, 'p) transfer_worker" where
  "with_kv_page_size ps tw = tw\<lparr>tw_page_size := ps\<rparr>"

fun register_sessions ::
  "scheduled_request list \<Rightarrow> bootstrap_registry \<Rightarrow> (decode_bootstrap_registry_error, unit) outcome \<times> bootstrap_registry" where
  "register_sessions [] reg = (Ok (), reg)"
| "register_sessions (req # reqs) reg =
     (case disagg_params req of
        None \<Rightarrow> register_sessions reqs reg
      | Some params \<Rightarrow>
          if bootstrap_get reg (bootstrap_room params) \<noteq> None then register_sessions reqs reg
          else case bootstrap_register (bootstrap_session_new (request_id req) params (data_parallel_rank req)) reg of
            Ok reg' \<Rightarrow> register_sessions reqs reg'
          | Err e \<Rightarrow> (Err e, reg)
          | Panic \<Rightarrow> (Panic, reg))"

type_synonym ('a, 'w, 'e, 'p) worker_result = "(worker_execution_error, 'a) outcome \<times> ('w, 'e, 'p) transfer_worker"

definition register_prefill_bootstrap_sessions ::
  "schedule_batch \<Rightarrow> ('w, 'e, 'p) transfer_worker \<Rightarrow> (decode_bootstrap_registry_error, unit) outcome \<times> ('w, 'e, 'p) transfer_worker" where
  "register_prefill_bootstrap_sessions batch tw =
     (case register_sessions (batch_requests batch) (tw_registry tw) of (r, reg) \<Rightarrow> (r, tw\<lparr>tw_registry := reg\<rparr>))"

definition tw_request_state ::
  "('w, 'e, 'p) worker_parts \<Rightarrow> ('w, 'e, 'p) transfer_worker \<Rightarrow> scheduled_request \<Rightarrow> worker_execution_error + decode_request_state" where
  "tw_request_state wp tw req =
     (case disagg_params req of
        None \<Rightarrow> mw_request_state (wp_worker wp) (tw_worker tw) req
      | Some params \<Rightarrow>
          (case bootstrap_get (tw_registry tw) (bootstrap_room params) of
             None \<Rightarrow> Inr Pending
           | Some session \<Rightarrow>
               (case bs_status session of
                  Success \<Rightarrow> mw_request_state (wp_worker wp) (tw_worker tw) req
                | PollFailed \<Rightarrow> Inr (Failed (''KV transfer failed for bootstrap room '' @ show_usize (unat (bootstrap_room params))))
                | _ \<Rightarrow> Inr Pending)))"

definition tw_poll_transfers ::
  "('w, 'e, 'p) worker_parts \<Rightarrow> ('w, 'e, 'p) transfer_worker \<Rightarrow> (transfer_error, poll_summary) outcome \<times> ('w, 'e, 'p) transfer_worker" where
  "tw_poll_transfers wp tw =
     (case backend_poll (wp_backend wp) (tw_executor tw) of
        (Ok p, ex) \<Rightarrow>
          (case apply_transfer_completion_events p (tw_registry tw) of (r, reg) \<Rightarrow> (r, tw\<lparr>tw_executor := ex, tw_registry := reg\<rparr>))
      | (Err e, ex) \<Rightarrow> (Err e, tw\<lparr>tw_executor := ex\<rparr>)
      | (Panic, ex) \<Rightarrow> (Panic, tw\<lparr>tw_executor := ex\<rparr>))"

subsection \<open>The decode side: receive the first tokens\<close>

definition receive_one ::
  "('w, 'e, 'p) worker_parts \<Rightarrow> scheduled_request \<Rightarrow> ('w, 'e, 'p) transfer_worker \<Rightarrow> (generated_token, 'w, 'e, 'p) worker_result" where
  "receive_one wp req tw =
     (case disagg_params req of
        None \<Rightarrow> (Err (WorkerRuntime ''decode PD request requires bootstrap metadata''), tw)
      | Some params \<Rightarrow>
          let room = bootstrap_room params
          in case receive_token_and_state (wp_publisher wp) room (tw_publisher tw) of
               (Inl e, p) \<Rightarrow> (Err (WorkerRuntime e), tw\<lparr>tw_publisher := p\<rparr>)
             | (Inr (token, state), p) \<Rightarrow>
                 let tw = tw\<lparr>tw_publisher := p\<rparr>
                 in and_with
                      (case state of
                         None \<Rightarrow> (Ok (), tw)
                       | Some bytes \<Rightarrow>
                           (case mw_restore_state (wp_worker wp) (request_id req) bytes (tw_worker tw) of
                              (Inl e, w) \<Rightarrow> (Err e, tw\<lparr>tw_worker := w\<rparr>) | (Inr _, w) \<Rightarrow> (Ok (), tw\<lparr>tw_worker := w\<rparr>)))
                      (\<lambda>_ tw.
                         case bootstrap_update_status room Success (tw_registry tw) of
                           Err e \<Rightarrow> (Err (WorkerRuntime (show_registry_error e)), tw)
                         | Panic \<Rightarrow> (Panic, tw)
                         | Ok reg \<Rightarrow>
                             (Ok \<lparr>token_ids = [token],
                                 is_finished = \<not> ignore_eos (sampling req) \<and> token \<in> set (stop_token_ids (sampling req))\<rparr>,
                              tw\<lparr>tw_registry := reg\<rparr>)))"

fun receive_loop ::
  "('w, 'e, 'p) worker_parts \<Rightarrow> scheduled_request list \<Rightarrow> generated_token list \<Rightarrow> ('w, 'e, 'p) transfer_worker \<Rightarrow>
   (generated_token list, 'w, 'e, 'p) worker_result" where
  "receive_loop wp [] tokens tw = (Ok tokens, tw)"
| "receive_loop wp (req # reqs) tokens tw =
     and_with (receive_one wp req tw) (\<lambda>token tw. receive_loop wp reqs (tokens @ [token]) tw)"

definition generate_on_decode_side ::
  "('w, 'e, 'p) worker_parts \<Rightarrow> schedule_batch \<Rightarrow> kv_span list \<Rightarrow> ('w, 'e, 'p) transfer_worker \<Rightarrow> (generated_token list, 'w, 'e, 'p) worker_result" where
  "generate_on_decode_side wp batch spans tw =
     and_with (case register_prefill_bootstrap_sessions batch tw of (r, tw) \<Rightarrow> (map_err (\<lambda>e. WorkerRuntime (show_registry_error e)) r, tw)) (\<lambda>_ tw.
     and_with (receive_loop wp (batch_requests batch) [] tw) (\<lambda>tokens tw.
       (map_err WorkerOutput (from_batch batch tokens),
        tw\<lparr>tw_last_summary := Some (empty_summary\<lparr>noop_spans := length (filter is_noop spans)\<rparr>)\<rparr>)))"

subsection \<open>The prefill side: generate, then submit\<close>

fun export_states ::
  "('w, 'e, 'p) worker_parts \<Rightarrow> kv_span list \<Rightarrow> ('w, 'e, 'p) transfer_worker \<Rightarrow> (worker_execution_error, kv_span list) outcome" where
  "export_states wp [] tw = Ok []"
| "export_states wp (span # spans) tw =
     (case mw_export_state (wp_worker wp) (tw_worker tw) (ts_request_id span) of
        Inl e \<Rightarrow> Err e
      | Inr st \<Rightarrow> and_then (export_states wp spans tw) (\<lambda>rest. Ok (span\<lparr>ts_recurrent_state := st\<rparr> # rest)))"

definition waits_for_transfer :: "('w, 'e, 'p) transfer_worker \<Rightarrow> scheduled_request \<Rightarrow> bool" where
  "waits_for_transfer tw req =
     (case disagg_params req of
        None \<Rightarrow> False
      | Some params \<Rightarrow>
          (case bootstrap_get (tw_registry tw) (bootstrap_room params) of
             None \<Rightarrow> False
           | Some session \<Rightarrow> bs_status session \<noteq> Success))"

fun check_failed ::
  "('w, 'e, 'p) worker_parts \<Rightarrow> ('w, 'e, 'p) transfer_worker \<Rightarrow> scheduled_request list \<Rightarrow> (worker_execution_error, unit) outcome" where
  "check_failed wp tw [] = Ok ()"
| "check_failed wp tw (req # reqs) =
     (case tw_request_state wp tw req of
        Inl e \<Rightarrow> Err e
      | Inr (Failed _) \<Rightarrow> Err (WorkerRuntime ''prefill KV transfer failed'')
      | Inr _ \<Rightarrow> check_failed wp tw reqs)"

definition wait_step ::
  "('w, 'e, 'p) worker_parts \<Rightarrow> schedule_batch \<Rightarrow> ('w, 'e, 'p) transfer_worker \<Rightarrow> (unit, 'w, 'e, 'p) worker_result" where
  "wait_step wp batch tw =
     (case tw_poll_transfers wp tw of
        (Ok _, tw) \<Rightarrow> (check_failed wp tw (batch_requests batch), tw)
      | (Err e, tw) \<Rightarrow> (Err (WorkerRuntime (show_transfer_error e)), tw)
      | (Panic, tw) \<Rightarrow> (Panic, tw))"

partial_function (option) wait_transfers ::
  "('w, 'e, 'p) worker_parts \<Rightarrow> schedule_batch \<Rightarrow> ('w, 'e, 'p) transfer_worker \<Rightarrow> (unit, 'w, 'e, 'p) worker_result option" where
  "wait_transfers wp batch tw =
     (if list_ex (waits_for_transfer tw) (batch_requests batch)
      then case wait_step wp batch tw of
          (Ok _, tw') \<Rightarrow> wait_transfers wp batch tw'
        | (Err e, tw') \<Rightarrow> Some (Err e, tw')
        | (Panic, tw') \<Rightarrow> Some (Panic, tw')
      else Some (Ok (), tw))"

definition submit_prefill ::
  "('w, 'e, 'p) worker_parts \<Rightarrow> schedule_batch \<Rightarrow> kv_span list \<Rightarrow> generated_token list \<Rightarrow> ('w, 'e, 'p) transfer_worker \<Rightarrow>
   (unit, 'w, 'e, 'p) worker_result" where
  "submit_prefill wp batch spans output tw =
     and_with (case register_prefill_bootstrap_sessions batch tw of
         (r, tw) \<Rightarrow> (map_err (\<lambda>e. WorkerRuntime (''KV transfer bootstrap registration failed: '' @ show_registry_error e)) r, tw)) (\<lambda>_ tw.
     and_with (with_prefill_output batch output spans, tw) (\<lambda>spans tw.
     and_with (export_states wp spans tw, tw) (\<lambda>spans tw.
       case execute_kv_cache_transfer_plan (wp_backend wp) spans (tw_registry tw, tw_executor tw) of
         (r, reg, ex) \<Rightarrow>
           let tw = tw\<lparr>tw_registry := reg, tw_executor := ex\<rparr>
           in case r of
                Ok summary \<Rightarrow> (Ok (), tw\<lparr>tw_last_summary := Some summary\<rparr>)
              | Err e \<Rightarrow> (Err (WorkerRuntime (''KV transfer execution failed: '' @ show_transfer_error e)), tw)
              | Panic \<Rightarrow> (Panic, tw))))"

definition finish_prefill ::
  "('w, 'e, 'p) worker_parts \<Rightarrow> schedule_batch \<Rightarrow> generated_token list \<Rightarrow> ('w, 'e, 'p) transfer_worker \<Rightarrow>
   (generated_token list, 'w, 'e, 'p) worker_result option" where
  "finish_prefill wp batch output tw =
     (if \<not> tw_prefill_only tw then Some (Ok output, tw)
      else map_option (\<lambda>q. and_with q (\<lambda>_ tw.
             (map_err WorkerOutput (from_batch batch (map (\<lambda>t. \<lparr>token_ids = token_ids t, is_finished = True\<rparr>) output)), tw)))
           (wait_transfers wp batch tw))"

text \<open>The plan of a prefill batch, published before the model runs.\<close>

definition plan_and_publish ::
  "('w, 'e, 'p) worker_parts \<Rightarrow> schedule_batch \<Rightarrow> ('w, 'e, 'p) transfer_worker \<Rightarrow> (kv_span list option, 'w, 'e, 'p) worker_result" where
  "plan_and_publish wp batch tw =
     (if batch_forward_mode batch = Prefill
      then and_with (map_err (\<lambda>_. WorkerRuntime []) (from_schedule_batch batch), tw) (\<lambda>wb tw.
           and_with (map_err (\<lambda>e. WorkerRuntime (''KV transfer planning failed: '' @ show_plan_error e))
               (from_prefill_worker_batch_with_page_size wb (tw_page_size tw)), tw) (\<lambda>spans tw.
             case publish_metadata (wp_publisher wp) spans (tw_publisher tw) of
               (Inl e, p) \<Rightarrow> (Err (WorkerRuntime (''decode bootstrap metadata publish failed: '' @ e)), tw\<lparr>tw_publisher := p\<rparr>)
             | (Inr _, p) \<Rightarrow> (Ok (Some spans), tw\<lparr>tw_publisher := p\<rparr>)))
      else (Ok None, tw))"

definition tw_generate ::
  "('w, 'e, 'p) worker_parts \<Rightarrow> schedule_batch \<Rightarrow> ('w, 'e, 'p) transfer_worker \<Rightarrow> (generated_token list, 'w, 'e, 'p) worker_result option" where
  "tw_generate wp batch tw =
     (case plan_and_publish wp batch tw of
        (Err e, tw) \<Rightarrow> Some (Err e, tw)
      | (Panic, tw) \<Rightarrow> Some (Panic, tw)
      | (Ok plan, tw) \<Rightarrow>
          if \<not> tw_submit_prefill tw \<and> plan \<noteq> None then Some (generate_on_decode_side wp batch (the plan) tw)
          else case mw_generate (wp_worker wp) batch (tw_worker tw) of
              (Inl e, w) \<Rightarrow> Some (Err e, tw\<lparr>tw_worker := w\<rparr>)
            | (Inr output, w) \<Rightarrow>
                let tw = tw\<lparr>tw_worker := w\<rparr>
                in case plan of
                     None \<Rightarrow> Some (Ok output, tw)
                   | Some spans \<Rightarrow>
                       (case submit_prefill wp batch spans output tw of
                          (Ok _, tw) \<Rightarrow> finish_prefill wp batch output tw
                        | (Err e, tw) \<Rightarrow> Some (Err e, tw)
                        | (Panic, tw) \<Rightarrow> Some (Panic, tw)))"

subsection \<open>The end of a request\<close>

definition tw_finish_request ::
  "('w, 'e, 'p) worker_parts \<Rightarrow> scheduled_request \<Rightarrow> ('w, 'e, 'p) transfer_worker \<Rightarrow> (unit, 'w, 'e, 'p) worker_result option" where
  "tw_finish_request wp req tw =
     (let finish_inner = (\<lambda>tw. case mw_finish_request (wp_worker wp) req (tw_worker tw) of
            (Inl e, w) \<Rightarrow> (Err e, tw\<lparr>tw_worker := w\<rparr>) | (Inr u, w) \<Rightarrow> (Ok u, tw\<lparr>tw_worker := w\<rparr>))
      in case disagg_params req of
           None \<Rightarrow> Some (finish_inner tw)
         | Some params \<Rightarrow>
             (case (if tw_submit_prefill tw then (Ok (), tw)
                    else case cancel_receive (wp_publisher wp) (bootstrap_room params) (tw_publisher tw) of
                      (Inl e, p) \<Rightarrow> (Err (WorkerRuntime e), tw\<lparr>tw_publisher := p\<rparr>)
                    | (Inr _, p) \<Rightarrow> (Ok (), tw\<lparr>tw_publisher := p\<rparr>)) of
                (Ok _, tw) \<Rightarrow>
                  map_option (\<lambda>(r, ex).
                      case r of
                        Ok _ \<Rightarrow> finish_inner (tw\<lparr>tw_executor := ex, tw_registry := bootstrap_remove (bootstrap_room params) (tw_registry tw)\<rparr>)
                      | Err e \<Rightarrow> (Err (WorkerRuntime (show_transfer_error e)), tw\<lparr>tw_executor := ex\<rparr>)
                      | Panic \<Rightarrow> (Panic, tw\<lparr>tw_executor := ex\<rparr>))
                    (backend_cancel (wp_backend wp) (bootstrap_room params) (tw_executor tw))
              | r \<Rightarrow> Some r))"

definition tw_complete_request ::
  "('w, 'e, 'p) worker_parts \<Rightarrow> scheduled_request \<Rightarrow> ('w, 'e, 'p) transfer_worker \<Rightarrow> (unit, 'w, 'e, 'p) worker_result option" where
  "tw_complete_request wp req tw =
     map_option (\<lambda>(r, tw). (if r = Panic then Panic else Ok (), tw)) (tw_finish_request wp req tw)"

definition tw_fail_request ::
  "('w, 'e, 'p) worker_parts \<Rightarrow> scheduled_request \<Rightarrow> ('w, 'e, 'p) transfer_worker \<Rightarrow> (unit, 'w, 'e, 'p) worker_result option" where
  "tw_fail_request wp req tw =
     map_option (\<lambda>(r, tw).
         case r of
           Ok _ \<Rightarrow> (Ok (), tw\<lparr>tw_worker := mw_fail_request (wp_worker wp) req (tw_worker tw)\<rparr>)
         | Err e \<Rightarrow> (Ok (), tw)
         | Panic \<Rightarrow> (Panic, tw))
       (tw_finish_request wp req tw)"

definition tw_shutdown ::
  "('w, 'e, 'p) worker_parts \<Rightarrow> ('w, 'e, 'p) transfer_worker \<Rightarrow> (unit, 'w, 'e, 'p) worker_result option" where
  "tw_shutdown wp tw =
     map_option (\<lambda>(r, ex).
         case r of
           Ok _ \<Rightarrow>
             (case mw_shutdown (wp_worker wp) (tw_worker tw) of
                (Inl e, w) \<Rightarrow> (Err e, tw\<lparr>tw_executor := ex, tw_registry := [], tw_worker := w\<rparr>)
              | (Inr u, w) \<Rightarrow> (Ok u, tw\<lparr>tw_executor := ex, tw_registry := [], tw_worker := w\<rparr>))
         | Err e \<Rightarrow> (Err (WorkerRuntime (''KV transfer backend shutdown failed: '' @ show_transfer_error e)), tw\<lparr>tw_executor := ex\<rparr>)
         | Panic \<Rightarrow> (Panic, tw\<lparr>tw_executor := ex\<rparr>))
       (backend_shutdown (wp_backend wp) (tw_executor tw))"

end
