(* ===== verification/Transfer_Sessions.thy ===== *)
theory Transfer_Sessions
  imports Transfer_Worker
begin

text \<open>
  Sessions and transfers of a disaggregated worker: what a poll does to the registry, that no completion event
  refers to a missing session, and that a prefill-only worker answers after its transfers have succeeded.
\<close>

section \<open>Rooms of a plan\<close>

definition request_rooms :: "scheduled_request list \<Rightarrow> u64 set" where
  "request_rooms reqs = {bootstrap_room d | d req. req \<in> set reqs \<and> disagg_params req = Some d}"

lemma request_rooms_Cons [simp]:
  "request_rooms (req # reqs) = (case disagg_params req of None \<Rightarrow> {} | Some d \<Rightarrow> {bootstrap_room d}) \<union> request_rooms reqs"
  by (auto simp: request_rooms_def split: option.splits)

lemma request_rooms_Nil [simp]: "request_rooms [] = {}"
  by (simp add: request_rooms_def)

lemma push_request_params:
  "push_request mode r wb = Ok wb' \<Longrightarrow> wb_disaggregated_params wb' = wb_disaggregated_params wb @ [disagg_params r]"
  by (auto simp: push_request_def push_prefill_request_def push_decode_request_def Let_def split: if_splits)

lemma push_requests_params:
  "push_requests mode rs wb = Ok wb' \<Longrightarrow> wb_disaggregated_params wb' = wb_disaggregated_params wb @ map disagg_params rs"
proof (induction rs arbitrary: wb)
  case (Cons r rs)
  then obtain wb1 where "push_request mode r wb = Ok wb1" "push_requests mode rs wb1 = Ok wb'" by (auto simp: outcome_simps)
  then show ?case using Cons.IH push_request_params by simp
qed simp

lemma from_schedule_batch_params:
  "from_schedule_batch b = Ok wb \<Longrightarrow> wb_disaggregated_params wb = map disagg_params (batch_requests b)"
  using push_requests_params by (fastforce simp: from_schedule_batch_def empty_worker_batch_def)

lemma plan_loop_params:
  "plan_loop wb ps is off spans = Ok (off', spans') \<Longrightarrow>
   ts_params ` set spans' \<subseteq> ts_params ` set spans \<union> {d. Some d \<in> set (wb_disaggregated_params wb)}"
proof (induction "is" arbitrary: off spans)
  case (Cons i "is")
  let ?n = "wb_input_token_counts wb ! i"
  have i: "i < length (wb_input_token_counts wb)" "i < length (wb_disaggregated_params wb)" "\<not> length (wb_out_cache_pages wb) < off + ?n"
    using Cons.prems by (auto simp: outcome_simps vec_get_def Let_def split: if_splits)
  have mem: "wb_disaggregated_params wb ! i \<in> set (wb_disaggregated_params wb)" using i(2) by simp
  show ?case
  proof (cases "wb_disaggregated_params wb ! i")
    case None
    then show ?thesis using Cons i by (simp add: vec_get_def Let_def)
  next
    case (Some d)
    obtain span where "plan_loop wb ps is (off + ?n) (spans @ [span]) = Ok (off', spans')" "ts_params span = d"
      using Cons.prems i Some by (auto simp: vec_get_def Let_def outcome_simps split: if_splits)
    then show ?thesis using Cons.IH [of "off + ?n" "spans @ [span]"] mem Some by auto
  qed
qed simp

lemma plan_params:
  assumes "from_prefill_worker_batch_with_page_size wb ps = Ok spans" and "span \<in> set spans"
  shows "Some (ts_params span) \<in> set (wb_disaggregated_params wb)"
proof -
  obtain off where "plan_loop wb ps [0 ..< length (wb_request_ids wb)] 0 [] = Ok (off, spans)"
    using assms(1) by (auto simp: from_prefill_worker_batch_with_page_size_def outcome_simps split: if_splits)
  from plan_loop_params [OF this] show ?thesis using assms(2) by auto
qed

lemma plan_rooms:
  assumes "from_schedule_batch b = Ok wb" and "from_prefill_worker_batch_with_page_size wb ps = Ok spans"
  shows "ts_room ` set spans \<subseteq> request_rooms (batch_requests b)"
  using plan_params [OF assms(2)] from_schedule_batch_params [OF assms(1)]
  by (fastforce simp: request_rooms_def ts_room_def)

lemma with_prefill_output_rooms:
  "with_prefill_output b tokens spans = Ok spans' \<Longrightarrow> map ts_params spans' = map ts_params spans"
  by (induction spans arbitrary: spans') (auto simp: outcome_simps split: if_splits)

lemma export_states_rooms: "export_states wp spans tw = Ok spans' \<Longrightarrow> map ts_params spans' = map ts_params spans"
  by (induction spans arbitrary: spans') (auto simp: outcome_simps split: sum.splits)

section \<open>The registry\<close>

definition sessions :: "bootstrap_registry \<Rightarrow> u64 set" where
  "sessions reg = dom (map_of reg)"

lemma in_sessions: "room \<in> sessions reg \<longleftrightarrow> (\<exists>session. map_of reg room = Some session)"
  by (auto simp: sessions_def)

lemma sessions_eqI: "(\<And>room. map_of reg room = None \<longleftrightarrow> map_of reg' room = None) \<Longrightarrow> sessions reg = sessions reg'"
  by (auto simp: sessions_def dom_def)

definition with_status :: "kv_poll \<Rightarrow> bootstrap_session \<Rightarrow> bootstrap_session" where
  "with_status st session = session\<lparr>bs_status := st\<rparr>"

lemma update_status_cases:
  "bootstrap_update_status room st reg =
     (if room \<in> sessions reg then Ok (AList.update room (with_status st (the (map_of reg room))) reg) else Err (MissingBootstrapRoom room))"
  by (auto simp: bootstrap_update_status_def with_status_def in_sessions split: option.splits)

lemma sessions_update [simp]: "sessions (AList.update room session reg) = insert room (sessions reg)"
  by (auto simp: sessions_def update_conv' split: if_splits)

lemma sessions_remove [simp]: "sessions (bootstrap_remove room reg) = sessions reg - {room}"
  by (auto simp: sessions_def bootstrap_remove_def delete_conv' split: if_splits)

lemma register_sessions_spec:
  "\<exists>reg'. register_sessions reqs reg = (Ok (), reg') \<and> sessions reg' = sessions reg \<union> request_rooms reqs \<and>
     (\<forall>room \<in> sessions reg. map_of reg' room = map_of reg room)"
proof (induction reqs arbitrary: reg)
  case (Cons req reqs)
  show ?case
  proof (cases "disagg_params req")
    case None
    then show ?thesis using Cons.IH [of reg] by simp
  next
    case (Some d)
    show ?thesis
    proof (cases "bootstrap_get reg (bootstrap_room d)")
      case None
      let ?session = "bootstrap_session_new (request_id req) d (data_parallel_rank req)"
      let ?reg = "AList.update (bootstrap_room d) ?session reg"
      have "bootstrap_register ?session reg = Ok ?reg"
        using None by (simp add: bootstrap_register_def bootstrap_session_new_def bootstrap_get_def)
      moreover obtain reg' where reg': "register_sessions reqs ?reg = (Ok (), reg')"
          "sessions reg' = sessions ?reg \<union> request_rooms reqs" "\<forall>room \<in> sessions ?reg. map_of reg' room = map_of ?reg room"
        using Cons.IH [of ?reg] by blast
      moreover have "map_of reg' room = map_of reg room" if room: "room \<in> sessions reg" for room
      proof -
        have "room \<noteq> bootstrap_room d" using room None by (auto simp: bootstrap_get_def in_sessions)
        moreover have "map_of reg' room = map_of ?reg room" using reg'(3) room by simp
        ultimately show ?thesis by (simp add: update_conv')
      qed
      ultimately show ?thesis using Some None by auto
    next
      case (Some session)
      then show ?thesis using Cons.IH [of reg] \<open>disagg_params req = Some d\<close> by (auto simp: bootstrap_get_def insert_absorb in_sessions)
    qed
  qed
qed simp

text \<open>The status of a room after a list of events.\<close>

fun status_after :: "u64 \<Rightarrow> completion_event list \<Rightarrow> kv_poll \<Rightarrow> kv_poll" where
  "status_after room [] st = st"
| "status_after room (e # es) st =
     status_after room es (if ev_room e = room then (if ev_status e = EventCompleted then Success else PollFailed) else st)"

lemma apply_events_spec:
  assumes "ev_room ` set es \<subseteq> sessions reg"
  shows "\<exists>sm' reg'. apply_events es sm reg = (Ok sm', reg') \<and>
     completed_batches sm' = completed_batches sm + length (filter (\<lambda>e. ev_status e = EventCompleted) es) \<and>
     failed_batches sm' = failed_batches sm + length (filter (\<lambda>e. ev_status e \<noteq> EventCompleted) es) \<and>
     pending_batches sm' = pending_batches sm \<and>
     map_of reg' = (\<lambda>room. map_option (\<lambda>session. with_status (status_after room es (bs_status session)) session) (map_of reg room))"
  using assms
proof (induction es arbitrary: sm reg)
  case Nil
  then show ?case by (simp add: with_status_def map_option.id [unfolded id_def])
next
  case (Cons e es)
  let ?st = "if ev_status e = EventCompleted then Success else PollFailed"
  obtain session where s: "map_of reg (ev_room e) = Some session" using Cons.prems by (auto simp: in_sessions)
  let ?reg = "AList.update (ev_room e) (with_status ?st session) reg"
  have upd: "bootstrap_update_status (ev_room e) ?st reg = Ok ?reg" using s by (auto simp: update_status_cases in_sessions)
  have "ev_room ` set es \<subseteq> sessions ?reg" using Cons.prems by auto
  note IH = Cons.IH [OF this]
  have m: "(\<lambda>room. map_option (\<lambda>x. with_status (status_after room es (bs_status x)) x) (map_of ?reg room)) =
      (\<lambda>room. map_option (\<lambda>x. with_status (status_after room (e # es) (bs_status x)) x) (map_of reg room))"
    using s by (auto simp: update_conv' with_status_def fun_eq_iff)
  show ?case
  proof (cases "ev_status e = EventCompleted")
    case True
    then show ?thesis
      using IH [of "sm\<lparr>completed_batches := completed_batches sm + 1,
          completed_descriptor_checksums := push_checksum (ev_checksum e) (completed_descriptor_checksums sm)\<rparr>"] upd
      unfolding m by auto
  next
    case False
    then show ?thesis
      using IH [of "sm\<lparr>failed_batches := failed_batches sm + 1,
          failed_descriptor_checksums := push_checksum (ev_checksum e) (failed_descriptor_checksums sm)\<rparr>"] upd
      unfolding m by (cases "ev_status e") auto
  qed
qed

lemma receive_one_sessions:
  "receive_one wp req tw = (r, tw') \<Longrightarrow> tw_executor tw' = tw_executor tw \<and> sessions (tw_registry tw') = sessions (tw_registry tw)"
  by (auto simp: receive_one_def Let_def update_status_cases insert_absorb and_with_def
      split: option.splits prod.splits sum.splits outcome.splits if_splits)

lemma receive_loop_sessions:
  "receive_loop wp reqs tokens tw = (r, tw') \<Longrightarrow> tw_executor tw' = tw_executor tw \<and> sessions (tw_registry tw') = sessions (tw_registry tw)"
proof (induction reqs arbitrary: tokens tw)
  case (Cons req reqs)
  obtain r1 tw1 where 1: "receive_one wp req tw = (r1, tw1)" by (cases "receive_one wp req tw")
  then show ?case using receive_one_sessions [OF 1] Cons by (cases r1) auto
qed simp

lemma finish_prefill_waits:
  assumes "finish_prefill wp batch toks tw = Some (r, tw')" and "tw_prefill_only tw"
  shows "\<exists>r1. wait_transfers wp batch tw = Some (r1, tw') \<and> (\<forall>a. r = Ok a \<longrightarrow> r1 = Ok ())"
proof -
  obtain r1 tw1 where 1: "wait_transfers wp batch tw = Some (r1, tw1)" using assms by (auto simp: finish_prefill_def)
  show ?thesis using assms 1 by (cases r1) (auto simp: finish_prefill_def)
qed

lemma set_status_sessions:
  "set_status room st s = (r, s') \<Longrightarrow> sessions (fst s') = sessions (fst s) \<and> snd s' = snd s"
  by (auto simp: set_status_def update_status_cases insert_absorb split: if_splits)

lemma rooms_of_params: "ts_room ` set spans = bootstrap_room ` set (map ts_params spans)"
  by (simp add: image_image ts_room_def)

section \<open>The interface of a backend\<close>

text \<open>
  \<open>rooms\<close> are the rooms a backend may still report an event for.  Submitting adds the room of the span, polling reports only
  such rooms, cancelling forgets a room.
\<close>

locale transfer_backend =
  fixes be :: "'e backend" and rooms :: "'e \<Rightarrow> u64 set"
  assumes submit_law: "backend_submit be span ex = (r, ex') \<Longrightarrow> rooms ex' \<subseteq> insert (ts_room span) (rooms ex)"
    and poll_law: "backend_poll be ex = (r', ex') \<Longrightarrow> rooms ex' \<subseteq> rooms ex \<and> (\<forall>p. r' = Ok p \<longrightarrow> ev_room ` set (poll_events p) \<subseteq> rooms ex)"
    and cancel_law: "backend_cancel be room ex = Some (r, ex') \<Longrightarrow> rooms ex' \<subseteq> rooms ex \<and> (\<forall>u. r = Ok u \<longrightarrow> room \<notin> rooms ex')"
begin

definition tracked :: "('w, 'e, 'p) transfer_worker \<Rightarrow> bool" where
  "tracked tw \<longleftrightarrow> rooms (tw_executor tw) \<subseteq> sessions (tw_registry tw)"

lemma execute_plan_tracked:
  "execute_plan be spans sm s = (r, s') \<Longrightarrow> ts_room ` set spans \<subseteq> sessions (fst s) \<Longrightarrow> rooms (snd s) \<subseteq> sessions (fst s) \<Longrightarrow>
   sessions (fst s') = sessions (fst s) \<and> rooms (snd s') \<subseteq> sessions (fst s')"
proof (induction spans arbitrary: sm s)
  case (Cons span spans)
  let ?st = "if is_noop span \<and> ts_first_token span = None then Success else Transferring"
  obtain r1 s1 where 1: "set_status (ts_room span) ?st s = (r1, s1)" by (cases "set_status (ts_room span) ?st s")
  note s1 = set_status_sessions [OF 1]
  show ?case
  proof (cases "r1 = Ok ()")
    case False
    then show ?thesis using Cons.prems 1 s1 by (cases r1) (auto split: if_splits)
  next
    case ok: True
    show ?thesis
    proof (cases "is_noop span \<and> ts_first_token span = None")
      case True
      then show ?thesis using Cons.IH [of "sm\<lparr>noop_spans := noop_spans sm + 1\<rparr>" s1] Cons.prems 1 s1 ok by auto
    next
      case False
      obtain r2 ex2 where 2: "backend_submit be span (snd s1) = (r2, ex2)" by (cases "backend_submit be span (snd s1)")
      have 1: "set_status (ts_room span) Transferring s = (Ok (), s1)" using 1 ok False by (simp only: if_False)
      have rooms2: "rooms ex2 \<subseteq> sessions (fst s1)" using submit_law [OF 2] s1 Cons.prems(2,3) by auto
      obtain r3 s3 where 3: "set_status (ts_room span) PollFailed (fst s1, ex2) = (r3, s3)" by (cases "set_status (ts_room span) PollFailed (fst s1, ex2)")
      note s3 = set_status_sessions [OF 3]
      show ?thesis
      proof (cases r2)
        case (Ok u)
        then show ?thesis
          using Cons.IH [of "sm\<lparr>submitted_spans := submitted_spans sm + 1\<rparr>" "(fst s1, ex2)"] Cons.prems(1,2) False 1 2 s1 rooms2 by auto
      next
        case (Err e)
        then show ?thesis using Cons.prems(1) False 1 2 3 s1 s3 rooms2 by (cases r3) auto
      qed (use Cons.prems(1) False 1 2 s1 rooms2 in auto)
    qed
  qed
qed auto

lemma poll_tracked:
  assumes "tracked tw" and "wp_backend wp = be" and "tw_poll_transfers wp tw = (r, tw')"
  shows "tracked tw' \<and> sessions (tw_registry tw') = sessions (tw_registry tw)"
proof -
  obtain r1 ex1 where 1: "backend_poll be (tw_executor tw) = (r1, ex1)" by (cases "backend_poll be (tw_executor tw)")
  note law = poll_law [OF 1]
  show ?thesis
  proof (cases "\<exists>p. r1 = Ok p")
    case False
    then have "tw' = tw\<lparr>tw_executor := ex1\<rparr>" using assms 1 by (cases r1) (simp_all add: tw_poll_transfers_def)
    then show ?thesis using law assms(1) by (simp add: tracked_def) blast
  next
    case True
    then obtain p where Ok: "r1 = Ok p" ..
    have "ev_room ` set (poll_events p) \<subseteq> sessions (tw_registry tw)" using law Ok assms(1) by (auto simp: tracked_def)
    from apply_events_spec [OF this] obtain sm reg where ev: "apply_transfer_completion_events p (tw_registry tw) = (Ok sm, reg)"
        "map_of reg = (\<lambda>room. map_option (\<lambda>session. with_status (status_after room (poll_events p) (bs_status session)) session) (map_of (tw_registry tw) room))"
      unfolding apply_transfer_completion_events_def by blast
    have "sessions reg = sessions (tw_registry tw)" by (rule sessions_eqI) (simp add: ev(2))
    moreover have "tw' = tw\<lparr>tw_executor := ex1, tw_registry := reg\<rparr>" using assms 1 Ok ev(1) by (simp add: tw_poll_transfers_def)
    ultimately show ?thesis using law assms(1) by (simp add: tracked_def) blast
  qed
qed

lemma wait_step_tracked:
  assumes "tracked tw" and "wp_backend wp = be" and "wait_step wp batch tw = (r, tw')"
  shows "tracked tw' \<and> sessions (tw_registry tw') = sessions (tw_registry tw)"
proof -
  obtain r1 tw1 where 1: "tw_poll_transfers wp tw = (r1, tw1)" by (cases "tw_poll_transfers wp tw")
  then show ?thesis using poll_tracked [OF assms(1,2) 1] assms(3) by (cases r1) (auto simp: wait_step_def)
qed

lemma wait_tracked:
  fixes wp :: "('w, 'e, 'p) worker_parts"
  assumes "tracked tw" and "wp_backend wp = be" and "wait_transfers wp batch tw = Some (r, tw')"
  shows "tracked tw' \<and> sessions (tw_registry tw') = sessions (tw_registry tw)"
proof -
  define P where "P wp b tw q \<longleftrightarrow> (tracked tw \<and> wp_backend wp = be \<longrightarrow>
      tracked (snd q) \<and> sessions (tw_registry (snd q)) = sessions (tw_registry tw))"
    for wp :: "('w, 'e, 'p) worker_parts" and b :: schedule_batch and tw :: "('w, 'e, 'p) transfer_worker" and q :: "(unit, 'w, 'e, 'p) worker_result"
  have "P wp batch tw (r, tw')"
  proof (rule wait_transfers.raw_induct [OF _ assms(3)])
    fix wt and wp :: "('w, 'e, 'p) worker_parts" and b tw q
    assume IH: "\<And>wp b tw q. wt wp b tw = Some q \<Longrightarrow> P wp b tw q"
      and step: "(if list_ex (waits_for_transfer tw) (batch_requests b)
          then case wait_step wp b tw of (Ok _, tw') \<Rightarrow> wt wp b tw' | (Err e, tw') \<Rightarrow> Some (Err e, tw') | (Panic, tw') \<Rightarrow> Some (Panic, tw')
          else Some (Ok (), tw)) = Some q"
    obtain r1 tw1 where 1: "wait_step wp b tw = (r1, tw1)" by (cases "wait_step wp b tw")
    show "P wp b tw q"
      unfolding P_def
    proof
      assume a: "tracked tw \<and> wp_backend wp = be"
      note w = wait_step_tracked [OF conjunct1 [OF a] conjunct2 [OF a] 1]
      show "tracked (snd q) \<and> sessions (tw_registry (snd q)) = sessions (tw_registry tw)"
      proof (cases "\<exists>u. r1 = Ok u \<and> list_ex (waits_for_transfer tw) (batch_requests b)")
        case True
        then have "wt wp b tw1 = Some q" using step 1 by auto
        then show ?thesis using IH [of wp b tw1 q] a w by (simp add: P_def)
      next
        case False
        then have "snd q = tw \<or> snd q = tw1" using step by (cases r1) (auto simp: 1 split: if_splits)
        then show ?thesis using a w by fastforce
      qed
    qed
  qed
  then show ?thesis using assms(1,2) by (simp add: P_def)
qed

lemma register_tracked:
  assumes "register_prefill_bootstrap_sessions batch tw = (r, tw')"
  shows "r = Ok () \<and> tw_executor tw' = tw_executor tw \<and>
    sessions (tw_registry tw') = sessions (tw_registry tw) \<union> request_rooms (batch_requests batch)"
  using assms register_sessions_spec [of "batch_requests batch" "tw_registry tw"]
  by (auto simp: register_prefill_bootstrap_sessions_def)

lemma submit_prefill_tracked:
  assumes "tracked tw" and "wp_backend wp = be" and "ts_room ` set spans \<subseteq> request_rooms (batch_requests batch)"
    and "submit_prefill wp batch spans output tw = (r, tw')"
  shows "tracked tw' \<and> request_rooms (batch_requests batch) \<subseteq> sessions (tw_registry tw')"
proof -
  obtain r1 tw1 where 1: "register_prefill_bootstrap_sessions batch tw = (r1, tw1)" by (cases "register_prefill_bootstrap_sessions batch tw")
  note reg = register_tracked [OF 1]
  have t1: "tracked tw1" using assms(1) reg by (auto simp: tracked_def)
  show ?thesis
  proof (cases "\<exists>s2 s3. with_prefill_output batch output spans = Ok s2 \<and> export_states wp s2 tw1 = Ok s3")
    case False
    then have "tw' = tw1"
      using assms(4) 1 reg
      by (cases "with_prefill_output batch output spans")
        (auto simp: submit_prefill_def and_with_def split: outcome.splits)
    then show ?thesis using t1 reg by auto
  next
    case True
    then obtain s2 s3 where s: "with_prefill_output batch output spans = Ok s2" "export_states wp s2 tw1 = Ok s3" by blast
    have "map ts_params s3 = map ts_params spans" using with_prefill_output_rooms [OF s(1)] export_states_rooms [OF s(2)] by simp
    then have rooms3: "ts_room ` set s3 \<subseteq> request_rooms (batch_requests batch)"
      using assms(3) by (simp only: rooms_of_params)
    obtain r4 reg4 ex4 where 4: "execute_kv_cache_transfer_plan be s3 (tw_registry tw1, tw_executor tw1) = (r4, reg4, ex4)"
      by (cases "execute_kv_cache_transfer_plan be s3 (tw_registry tw1, tw_executor tw1)") auto
    have "sessions reg4 = sessions (tw_registry tw1)" "rooms ex4 \<subseteq> sessions reg4"
      using execute_plan_tracked [OF 4 [unfolded execute_kv_cache_transfer_plan_def]] rooms3 t1 reg by (auto simp: tracked_def)
    moreover have "tw_registry tw' = reg4 \<and> tw_executor tw' = ex4"
      using assms(2,4) 1 reg s 4 by (cases r4) (auto simp: submit_prefill_def Let_def)
    ultimately show ?thesis using reg by (auto simp: tracked_def)
  qed
qed

lemma plan_and_publish_tracked:
  assumes "plan_and_publish wp batch tw = (r, tw')"
  shows "tw_executor tw' = tw_executor tw \<and> tw_registry tw' = tw_registry tw \<and>
    (\<forall>spans. r = Ok (Some spans) \<longrightarrow> ts_room ` set spans \<subseteq> request_rooms (batch_requests batch))"
proof (cases "batch_forward_mode batch = Prefill")
  case False
  then show ?thesis using assms by (auto simp: plan_and_publish_def)
next
  case True
  show ?thesis
  proof (cases "\<exists>wb spans. from_schedule_batch batch = Ok wb \<and> from_prefill_worker_batch_with_page_size wb (tw_page_size tw) = Ok spans")
    case ok: True
    then obtain wb spans where p: "from_schedule_batch batch = Ok wb" "from_prefill_worker_batch_with_page_size wb (tw_page_size tw) = Ok spans"
      by blast
    show ?thesis using assms True p plan_rooms [OF p] by (auto simp: plan_and_publish_def split: prod.splits sum.splits)
  next
    case False
    then show ?thesis
      using assms True by (cases "from_schedule_batch batch") (auto simp: plan_and_publish_def and_with_def split: outcome.splits)
  qed
qed

lemma generate_on_decode_side_tracked:
  assumes "tracked tw" and "generate_on_decode_side wp batch spans tw = (r, tw')"
  shows "tracked tw'"
proof -
  obtain r1 tw1 where 1: "register_prefill_bootstrap_sessions batch tw = (r1, tw1)" by (cases "register_prefill_bootstrap_sessions batch tw")
  obtain r2 tw2 where 2: "receive_loop wp (batch_requests batch) [] tw1 = (r2, tw2)" by (cases "receive_loop wp (batch_requests batch) [] tw1")
  have "tracked tw2" using assms(1) register_tracked [OF 1] receive_loop_sessions [OF 2] by (auto simp: tracked_def)
  then show ?thesis
    using assms(2) 1 2 register_tracked [OF 1] by (cases r2) (auto simp: generate_on_decode_side_def tracked_def)
qed

lemma generate_tracked:
  assumes "tracked tw" and "wp_backend wp = be" and "tw_generate wp batch tw = Some (r, tw')"
  shows "tracked tw'"
proof -
  obtain r1 tw1 where 1: "plan_and_publish wp batch tw = (r1, tw1)" by (cases "plan_and_publish wp batch tw")
  note p = plan_and_publish_tracked [OF 1]
  have t1: "tracked tw1" using assms(1) p by (simp add: tracked_def)
  show ?thesis
  proof (cases r1)
    case (Ok plan)
    show ?thesis
    proof (cases "\<not> tw_submit_prefill tw1 \<and> plan \<noteq> None")
      case True
      then show ?thesis using assms(3) 1 Ok generate_on_decode_side_tracked [OF t1] by (auto simp: tw_generate_def)
    next
      case False
      obtain q w where g: "mw_generate (wp_worker wp) batch (tw_worker tw1) = (q, w)" by (cases "mw_generate (wp_worker wp) batch (tw_worker tw1)")
      let ?tw = "tw1\<lparr>tw_worker := w\<rparr>"
      have t2: "tracked ?tw" using t1 by (simp add: tracked_def)
      show ?thesis
      proof (cases "\<exists>toks spans. q = Inr toks \<and> plan = Some spans")
        case no: False
        then show ?thesis using assms(3) 1 Ok g t2 False by (cases q; cases plan) (auto simp: tw_generate_def Let_def)
      next
        case True
        then obtain toks spans where q: "q = Inr toks" "plan = Some spans" by blast
        obtain r3 tw3 where 3: "submit_prefill wp batch spans toks ?tw = (r3, tw3)" by (cases "submit_prefill wp batch spans toks ?tw")
        have t3: "tracked tw3" using submit_prefill_tracked [OF t2 assms(2) _ 3] p Ok q by blast
        have "\<exists>tw4. tracked tw4 \<and> tw' = tw4"
        proof (cases "r3 = Ok () \<and> tw_prefill_only tw3")
          case True
          then have "finish_prefill wp batch toks tw3 = Some (r, tw')" using assms(3) 1 Ok g q 3 False by (auto simp: tw_generate_def Let_def)
          from finish_prefill_waits [OF this] True show ?thesis using wait_tracked [OF t3 assms(2)] by blast
        next
          case no: False
          then show ?thesis using assms(3) 1 Ok g q 3 False t3
            by (cases r3) (auto simp: tw_generate_def Let_def finish_prefill_def)
        qed
        then show ?thesis by blast
      qed
    qed
  qed (use assms(3) 1 t1 in \<open>auto simp: tw_generate_def\<close>)
qed

lemma finish_tracked:
  assumes "tracked tw" and "wp_backend wp = be" and "tw_finish_request wp req tw = Some (r, tw')"
  shows "tracked tw'"
proof (cases "disagg_params req")
  case None
  then show ?thesis using assms by (auto simp: tw_finish_request_def Let_def tracked_def split: prod.splits sum.splits)
next
  case (Some d)
  define c where "c = (if tw_submit_prefill tw then (Ok (), tw)
      else case cancel_receive (wp_publisher wp) (bootstrap_room d) (tw_publisher tw) of
        (Inl e, p) \<Rightarrow> (Err (WorkerRuntime e), tw\<lparr>tw_publisher := p\<rparr>)
      | (Inr _, p) \<Rightarrow> (Ok (), tw\<lparr>tw_publisher := p\<rparr>))"
  obtain r1 tw1 where 1: "c = (r1, tw1)" by (cases c)
  have t1: "tw_executor tw1 = tw_executor tw" "tw_registry tw1 = tw_registry tw"
    using 1 by (auto simp: c_def split: if_splits prod.splits sum.splits)
  note unfolded = assms(3) [unfolded tw_finish_request_def Let_def Some option.case, folded c_def, unfolded 1]
  show ?thesis
  proof (cases r1)
    case (Ok u)
    then obtain r2 ex where 2: "backend_cancel be (bootstrap_room d) (tw_executor tw) = Some (r2, ex)"
      using unfolded assms(2) t1 by auto
    have ex: "rooms ex \<subseteq> sessions (tw_registry tw)" "\<forall>u. r2 = Ok u \<longrightarrow> rooms ex \<subseteq> sessions (bootstrap_remove (bootstrap_room d) (tw_registry tw))"
      using cancel_law [OF 2] assms(1) by (auto simp: tracked_def)
    have "tw_executor tw' = ex" "tw_registry tw' = (if r2 = Ok () then bootstrap_remove (bootstrap_room d) (tw_registry tw) else tw_registry tw)"
      using unfolded assms(2) t1 2 Ok by (cases r2; auto split: prod.splits sum.splits)+
    then show ?thesis using ex by (auto simp: tracked_def)
  qed (use unfolded t1 assms(1) in \<open>auto simp: tracked_def\<close>)
qed

end

section \<open>The executor reports every accepted span once\<close>

text \<open>Spans the executor still owes an event for, and those whose event waits for the next poll.\<close>

definition transfer_ids :: "('r, 'w) kv_executor \<Rightarrow> (u64 \<times> string) multiset" where
  "transfer_ids ex = image_mset (\<lambda>t. (sb_room t, sb_checksum t)) (mset (ex_transfers ex)) +
     image_mset (\<lambda>e. (ev_room e, ev_checksum e)) (mset (ex_events ex))"

definition executor_rooms :: "('r, 'w) kv_executor \<times> 'w \<Rightarrow> u64 set" where
  "executor_rooms s = fst ` set_mset (transfer_ids (fst s))"

lemma remove_submitted_transfers:
  "remove_submitted i s = (r, s') \<Longrightarrow>
   ex_transfers (fst s') = remove_nth i (ex_transfers (fst s)) \<and> ex_events (fst s') = ex_events (fst s)"
  by (auto simp: remove_submitted_def Let_def split: if_splits)

lemma finish_polled_ids:
  assumes "finish_polled i st s = (r, s')" and "i < length (ex_transfers (fst s))"
  shows "transfer_ids (fst s') = transfer_ids (fst s)"
proof -
  let ?t = "ex_transfers (fst s) ! i"
  obtain r1 s1 where 1: "free_transfer ?t s = (r1, s1)" by (cases "free_transfer ?t s")
  then have s1: "fst s1 = fst s" by (auto simp: free_transfer_def split: prod.splits)
  show ?thesis
  proof (cases r1)
    case (Ok u)
    then have "remove_submitted i ((fst s)\<lparr>ex_events := ex_events (fst s) @ [event_for ?t st]\<rparr>, snd s1) = (r, s')"
      using assms(1) 1 s1 by (simp add: finish_polled_def Let_def)
    from remove_submitted_transfers [OF this] show ?thesis
      using assms(2) mset_remove_nth [OF assms(2)]
      by (simp add: transfer_ids_def event_for_def image_mset_Diff nth_mem)
  qed (use assms(1) 1 s1 in \<open>auto simp: finish_polled_def Let_def\<close>)
qed

lemma poll_loop_ids: "poll_loop i s = (r, s') \<Longrightarrow> transfer_ids (fst s') = transfer_ids (fst s)"
proof (induction i s rule: poll_loop.induct)
  case (1 i s)
  show ?case
  proof (cases "i < length (ex_transfers (fst s))")
    case False
    then show ?thesis using 1(4) by (simp add: poll_loop.simps [of i s])
  next
    case True
    obtain r1 w1 where p: "poll_kv_submitted_batch (ex_submitter (fst s)) (ex_transfers (fst s) ! i) (snd s) = (r1, w1)"
      by (cases "poll_kv_submitted_batch (ex_submitter (fst s)) (ex_transfers (fst s) ! i) (snd s)")
    have fin: "transfer_ids (fst s') = transfer_ids (fst s)"
      if "r1 = Ok q" "q \<noteq> BatchPending" "(case finish_polled i st (fst s, w1) of (Ok _, s') \<Rightarrow> poll_loop i s' | (r, s') \<Rightarrow> (r, s')) = (r, s')"
        "\<And>s2 u. finish_polled i st (fst s, w1) = (Ok u, s2) \<Longrightarrow> poll_loop i s2 = (r, s') \<Longrightarrow> transfer_ids (fst s') = transfer_ids (fst s2)" for q st
    proof -
      obtain r2 s2 where f: "finish_polled i st (fst s, w1) = (r2, s2)" by (cases "finish_polled i st (fst s, w1)")
      show ?thesis using that(3,4) f finish_polled_ids [OF f] True by (cases r2) auto
    qed
    show ?thesis
    proof (cases r1)
      case (Ok q)
      show ?thesis
      proof (cases q)
        case BatchCompleted
        show ?thesis by (rule fin [OF Ok]) (use BatchCompleted 1(1,4) True p Ok in \<open>auto simp: poll_loop.simps [of i s] Let_def\<close>)
      next
        case BatchPending
        then show ?thesis using 1(2) [OF refl True p [symmetric] Ok] 1(4) True p Ok by (simp add: poll_loop.simps [of i s] Let_def)
      next
        case (BatchFailed m)
        show ?thesis by (rule fin [OF Ok]) (use BatchFailed 1(3,4) True p Ok in \<open>auto simp: poll_loop.simps [of i s] Let_def\<close>)
      qed
    qed (use 1(4) True p in \<open>auto simp: poll_loop.simps [of i s] Let_def\<close>)
  qed
qed

lemma executor_poll_ids:
  assumes "executor_poll s = (r, s')"
  shows "transfer_ids (fst s) = transfer_ids (fst s') +
      (case r of Ok p \<Rightarrow> image_mset (\<lambda>e. (ev_room e, ev_checksum e)) (mset (poll_events p)) | _ \<Rightarrow> {#}) \<and>
    (\<forall>p. r = Ok p \<longrightarrow> ex_events (fst s') = [] \<and> pending_transfers p = length (ex_transfers (fst s')))"
proof -
  obtain r1 ex w where p: "poll_loop 0 s = (r1, ex, w)" by (cases "poll_loop 0 s") auto
  show ?thesis
    using poll_loop_ids [OF p] assms p by (cases r1) (auto simp: executor_poll_def transfer_ids_def)
qed

lemma executor_submit_ids:
  assumes "executor_submit sha256 span s = (r, s')"
  shows "transfer_ids (fst s') = transfer_ids (fst s) + (case r of Ok _ \<Rightarrow> {#(ts_room span, descriptor_checksum sha256 span)#} | _ \<Rightarrow> {#})"
proof (cases "ex_registration (fst s) = None")
  case True
  then show ?thesis using assms by (auto simp: executor_submit_def)
next
  case False
  obtain q res w where q: "span_requests span (fst s) (snd s) = (q, res, w)" by (cases "span_requests span (fst s) (snd s)")
  show ?thesis
  proof (cases q)
    case (Ok qs)
    then show ?thesis
      using assms False q
      by (auto simp: executor_submit_def Let_def transfer_ids_def submitted_batch_of_span_def split: if_splits prod.splits sum.splits)
  qed (use assms False q in \<open>auto simp: executor_submit_def Let_def transfer_ids_def\<close>)
qed

lemma cancel_one_ids:
  assumes "cancel_one i s = Some (r, s')" and "i < length (ex_transfers (fst s))"
  shows "transfer_ids (fst s') \<subseteq># transfer_ids (fst s)"
proof -
  obtain r1 w1 where 1: "wait_batch (ex_submitter (fst s)) (ex_transfers (fst s) ! i) (snd s) = Some (r1, w1)"
    and rest: "(r, s') = and_with (r1, fst s, w1) (\<lambda>_ s'. and_with (free_transfer (ex_transfers (fst s) ! i) s') (\<lambda>_ s. remove_submitted i s))"
    using assms(1) by (auto simp: cancel_one_def Let_def)
  obtain r2 s2 where 2: "free_transfer (ex_transfers (fst s) ! i) (fst s, w1) = (r2, s2)" by (cases "free_transfer (ex_transfers (fst s) ! i) (fst s, w1)")
  then have s2: "fst s2 = fst s" by (auto simp: free_transfer_def split: prod.splits)
  have "(ex_transfers (fst s') = ex_transfers (fst s) \<or> ex_transfers (fst s') = remove_nth i (ex_transfers (fst s))) \<and> ex_events (fst s') = ex_events (fst s)"
    using rest 2 s2 remove_submitted_transfers [of i s2 r s'] by (cases r1; cases r2) auto
  then show ?thesis
    using mset_remove_nth [OF assms(2)] by (auto simp: transfer_ids_def image_mset_subseteq_mono)
qed

lemma cancel_loop_ids: "cancel_loop room s = Some (r, s') \<Longrightarrow> transfer_ids (fst s') \<subseteq># transfer_ids (fst s)"
proof (induction room s rule: cancel_loop.induct)
  case (1 room s)
  show ?case
  proof (cases "position (\<lambda>t. sb_room t = room) (ex_transfers (fst s))")
    case None
    then show ?thesis using 1(2) by (simp add: cancel_loop.simps [of room s])
  next
    case (Some i)
    obtain r1 s1 where c: "cancel_one i s = Some (r1, s1)" using 1(2) Some by (auto simp: cancel_loop.simps [of room s] split: option.splits)
    have le: "transfer_ids (fst s1) \<subseteq># transfer_ids (fst s)" using cancel_one_ids [OF c] position_Some [OF Some] by simp
    show ?thesis
    proof (cases r1)
      case (Ok u)
      then have "cancel_loop room s1 = Some (r, s')" using 1(2) Some c by (simp add: cancel_loop.simps [of room s])
      then show ?thesis using 1(1) [OF Some c refl Ok] le subset_mset.order_trans by blast
    qed (use 1(2) Some c le in \<open>auto simp: cancel_loop.simps [of room s]\<close>)
  qed
qed

lemma executor_cancel_ids:
  assumes "executor_cancel room s = Some (r, s')"
  shows "transfer_ids (fst s') \<subseteq># transfer_ids (fst s) \<and> (\<forall>u. r = Ok u \<longrightarrow> room \<notin> executor_rooms s')"
proof -
  obtain r1 ex w where c: "cancel_loop room s = Some (r1, ex, w)"
    using assms by (auto simp: executor_cancel_def split: option.splits prod.splits)
  have le: "transfer_ids ex \<subseteq># transfer_ids (fst s)" using cancel_loop_ids [OF c] by simp
  have "transfer_ids (ex\<lparr>ex_events := filter P (ex_events ex), ex_remote_layouts := m\<rparr>) \<subseteq># transfer_ids ex" for P m
    by (simp add: transfer_ids_def image_mset_subseteq_mono multiset_filter_subset mset_filter)
  from subset_mset.order_trans [OF this le]
  have "transfer_ids (ex\<lparr>ex_events := filter P (ex_events ex), ex_remote_layouts := m\<rparr>) \<subseteq># transfer_ids (fst s)" for P m .
  then have "transfer_ids (fst s') \<subseteq># transfer_ids (fst s)"
    using assms c le by (cases r1) (auto simp: executor_cancel_def)
  moreover have "room \<notin> executor_rooms s'" if "r = Ok u" for u
    using executor_cancel_Ok [of room s u s'] assms that by (auto simp: executor_rooms_def transfer_ids_def)
  ultimately show ?thesis by blast
qed

interpretation kvx: transfer_backend "kv_executor_backend sha256" executor_rooms for sha256
proof
  fix span r and ex ex' :: "('a, 'b) kv_executor \<times> 'b"
  assume "backend_submit (kv_executor_backend sha256) span ex = (r, ex')"
  then show "executor_rooms ex' \<subseteq> insert (ts_room span) (executor_rooms ex)"
    using executor_submit_ids [of sha256 span ex r ex'] by (auto simp: kv_executor_backend_def executor_rooms_def split: outcome.splits)
next
  fix r and ex ex' :: "('a, 'b) kv_executor \<times> 'b"
  assume "backend_poll (kv_executor_backend sha256) ex = (r, ex')"
  then have "executor_poll ex = (r, ex')" by (simp add: kv_executor_backend_def)
  from executor_poll_ids [OF this]
  show "executor_rooms ex' \<subseteq> executor_rooms ex \<and> (\<forall>p. r = Ok p \<longrightarrow> ev_room ` set (poll_events p) \<subseteq> executor_rooms ex)"
    by (force simp: executor_rooms_def split: outcome.splits)
next
  fix room r and ex ex' :: "('a, 'b) kv_executor \<times> 'b"
  assume "backend_cancel (kv_executor_backend sha256) room ex = Some (r, ex')"
  then have "executor_cancel room ex = Some (r, ex')" by (simp add: kv_executor_backend_def)
  from executor_cancel_ids [OF this]
  show "executor_rooms ex' \<subseteq> executor_rooms ex \<and> (\<forall>u. r = Ok u \<longrightarrow> room \<notin> executor_rooms ex')"
    by (auto simp: executor_rooms_def dest: set_mset_mono)
qed

section \<open>Runs of the worker\<close>

text \<open>
  The states of a worker over the executor: it starts with an executor that has nothing submitted, the calls of the worker
  interface may have any result, and between calls the wrapped worker, the publisher and the executor may change, as long as the
  executor submits nothing on its own.  A successful shutdown ends the run.
\<close>

inductive worker_run ::
  "('w, ('r, 'x) kv_executor \<times> 'x, 'p) worker_parts \<Rightarrow> ('w, ('r, 'x) kv_executor \<times> 'x, 'p) transfer_worker \<Rightarrow> bool" for wp where
  start: "ex_transfers (fst ex) = [] \<Longrightarrow> ex_events (fst ex) = [] \<Longrightarrow> worker_run wp (transfer_worker_new w reg ex p)"
| decode_side: "worker_run wp tw \<Longrightarrow> worker_run wp (with_decode_side_bootstrap_only tw)"
| prefill_only: "worker_run wp tw \<Longrightarrow> worker_run wp (with_prefill_only tw)"
| page_size: "worker_run wp tw \<Longrightarrow> worker_run wp (with_kv_page_size ps tw)"
| outside: "worker_run wp tw \<Longrightarrow> ex_transfers (fst ex) = ex_transfers (fst (tw_executor tw)) \<Longrightarrow>
    ex_events (fst ex) = ex_events (fst (tw_executor tw)) \<Longrightarrow>
    worker_run wp (tw\<lparr>tw_executor := ex, tw_worker := w, tw_publisher := p\<rparr>)"
| generate: "worker_run wp tw \<Longrightarrow> tw_generate wp batch tw = Some (r, tw') \<Longrightarrow> worker_run wp tw'"
| poll: "worker_run wp tw \<Longrightarrow> tw_poll_transfers wp tw = (sm, tw') \<Longrightarrow> worker_run wp tw'"
| finish: "worker_run wp tw \<Longrightarrow> tw_finish_request wp req tw = Some (u, tw') \<Longrightarrow> worker_run wp tw'"
| complete: "worker_run wp tw \<Longrightarrow> tw_complete_request wp req tw = Some (u, tw') \<Longrightarrow> worker_run wp tw'"
| fail: "worker_run wp tw \<Longrightarrow> tw_fail_request wp req tw = Some (u, tw') \<Longrightarrow> worker_run wp tw'"

lemma executor_rooms_empty: "ex_transfers (fst ex) = [] \<Longrightarrow> ex_events (fst ex) = [] \<Longrightarrow> executor_rooms ex = {}"
  by (simp add: executor_rooms_def transfer_ids_def)

lemma executor_rooms_cong:
  "ex_transfers (fst ex) = ex_transfers (fst ex') \<Longrightarrow> ex_events (fst ex) = ex_events (fst ex') \<Longrightarrow> executor_rooms ex = executor_rooms ex'"
  by (simp add: executor_rooms_def transfer_ids_def)

lemma worker_run_tracked:
  assumes "wp_backend wp = kv_executor_backend sha256" and "worker_run wp tw"
  shows "kvx.tracked tw"
  using assms(2)
proof induction
  case (generate tw batch r tw')
  then show ?case using kvx.generate_tracked [OF _ assms(1)] by blast
next
  case (poll tw sm tw')
  then show ?case using kvx.poll_tracked [OF _ assms(1)] by blast
next
  case (finish tw req u tw')
  then show ?case using kvx.finish_tracked [OF _ assms(1)] by blast
next
  case (complete tw req u tw')
  then obtain u1 where "tw_finish_request wp req tw = Some (u1, tw')" by (auto simp: tw_complete_request_def)
  then show ?case using kvx.finish_tracked [OF complete(3) assms(1)] by blast
next
  case (fail tw req u tw')
  then obtain u1 tw1 where f: "tw_finish_request wp req tw = Some (u1, tw1)" by (auto simp: tw_fail_request_def)
  have "tw_executor tw' = tw_executor tw1" "tw_registry tw' = tw_registry tw1"
    using fail(2) f by (cases u1; auto simp: tw_fail_request_def)+
  then show ?case using kvx.finish_tracked [OF fail(3) assms(1) f] by (simp add: kvx.tracked_def)
next
  case (outside tw ex w p)
  then show ?case using executor_rooms_cong [of ex "tw_executor tw"] by (simp add: kvx.tracked_def)
qed (simp_all add: kvx.tracked_def transfer_worker_new_def executor_rooms_empty with_decode_side_bootstrap_only_def
    with_prefill_only_def with_kv_page_size_def)



section \<open>A prefill-only worker answers after its transfers\<close>

lemma apply_events_sessions: "sessions (snd (apply_events es sm reg)) = sessions reg"
  by (induction es arbitrary: sm reg) (auto simp: update_status_cases insert_absorb split: event_status.splits)

lemma poll_sessions: "tw_poll_transfers wp tw = (r, tw') \<Longrightarrow> sessions (tw_registry tw') = sessions (tw_registry tw)"
  unfolding tw_poll_transfers_def apply_transfer_completion_events_def
  by (auto split: prod.split_asm outcome.split_asm) (metis apply_events_sessions snd_conv)+

lemma execute_plan_sessions: "execute_plan be spans sm s = (r, s') \<Longrightarrow> sessions (fst s') = sessions (fst s)"
proof (induction spans arbitrary: sm s)
  case (Cons span spans)
  then show ?case
    by (auto simp: and_with_def split: if_splits prod.splits outcome.splits dest!: set_status_sessions)
qed simp

lemma wait_step_sessions: "wait_step wp batch tw = (r, tw') \<Longrightarrow> sessions (tw_registry tw') = sessions (tw_registry tw)"
  by (auto simp: wait_step_def dest!: poll_sessions split: prod.split_asm outcome.split_asm)

lemma wait_transfers_Ok:
  fixes wp :: "('w, 'e, 'p) worker_parts"
  assumes "wait_transfers wp batch tw = Some (r, tw')"
  shows "sessions (tw_registry tw') = sessions (tw_registry tw) \<and> (\<forall>u. r = Ok u \<longrightarrow> \<not> list_ex (waits_for_transfer tw') (batch_requests batch))"
proof -
  define P where "P wp b tw q \<longleftrightarrow> sessions (tw_registry (snd q)) = sessions (tw_registry tw) \<and>
      (\<forall>u. fst q = Ok u \<longrightarrow> \<not> list_ex (waits_for_transfer (snd q)) (batch_requests b))"
    for wp :: "('w, 'e, 'p) worker_parts" and b :: schedule_batch and tw :: "('w, 'e, 'p) transfer_worker" and q :: "(unit, 'w, 'e, 'p) worker_result"
  have "P wp batch tw (r, tw')"
  proof (rule wait_transfers.raw_induct [OF _ assms])
    fix wt and wp :: "('w, 'e, 'p) worker_parts" and b tw q
    assume IH: "\<And>wp b tw q. wt wp b tw = Some q \<Longrightarrow> P wp b tw q"
      and step: "(if list_ex (waits_for_transfer tw) (batch_requests b)
          then case wait_step wp b tw of (Ok _, tw') \<Rightarrow> wt wp b tw' | (Err e, tw') \<Rightarrow> Some (Err e, tw') | (Panic, tw') \<Rightarrow> Some (Panic, tw')
          else Some (Ok (), tw)) = Some q"
    obtain r1 tw1 where 1: "wait_step wp b tw = (r1, tw1)" by (cases "wait_step wp b tw")
    show "P wp b tw q"
    proof (cases "\<exists>u. r1 = Ok u \<and> list_ex (waits_for_transfer tw) (batch_requests b)")
      case True
      then have "wt wp b tw1 = Some q" using step 1 by auto
      then show ?thesis using IH [of wp b tw1 q] wait_step_sessions [OF 1] by (simp add: P_def)
    next
      case False
      then have "q = (Ok (), tw) \<and> \<not> list_ex (waits_for_transfer tw) (batch_requests b) \<or> snd q = tw1 \<and> (\<forall>u. fst q \<noteq> Ok u)"
        using step by (cases r1) (auto simp: 1 split: if_splits)
      then show ?thesis unfolding P_def using wait_step_sessions [OF 1] by (elim disjE conjE) simp_all
    qed
  qed
  then show ?thesis by (simp add: P_def)
qed

lemma register_sessions_rooms:
  "register_prefill_bootstrap_sessions batch tw = (r, tw') \<Longrightarrow> request_rooms (batch_requests batch) \<subseteq> sessions (tw_registry tw')"
  using register_sessions_spec [of "batch_requests batch" "tw_registry tw"]
  by (auto simp: register_prefill_bootstrap_sessions_def)

lemma submit_prefill_Ok:
  assumes "submit_prefill wp batch spans toks tw = (Ok u, tw')"
  shows "request_rooms (batch_requests batch) \<subseteq> sessions (tw_registry tw') \<and> tw_prefill_only tw' = tw_prefill_only tw"
proof -
  obtain r1 tw1 where 1: "register_prefill_bootstrap_sessions batch tw = (r1, tw1)" by (cases "register_prefill_bootstrap_sessions batch tw")
  obtain s2 s3 where s: "r1 = Ok ()" "with_prefill_output batch toks spans = Ok s2" "export_states wp s2 tw1 = Ok s3"
    using assms 1 by (auto simp: submit_prefill_def outcome_simps)
  obtain r4 reg4 ex4 where 4: "execute_kv_cache_transfer_plan (wp_backend wp) s3 (tw_registry tw1, tw_executor tw1) = (r4, reg4, ex4)"
    by (cases "execute_kv_cache_transfer_plan (wp_backend wp) s3 (tw_registry tw1, tw_executor tw1)") auto
  have tw': "tw_registry tw' = reg4" "tw_prefill_only tw' = tw_prefill_only tw1"
    using assms 1 s 4 by (cases r4; auto simp: submit_prefill_def Let_def)+
  have "tw_prefill_only tw1 = tw_prefill_only tw" using 1 by (auto simp: register_prefill_bootstrap_sessions_def split: prod.splits)
  then show ?thesis
    using register_sessions_rooms [OF 1] execute_plan_sessions [OF 4 [unfolded execute_kv_cache_transfer_plan_def]] tw' by simp
qed


section \<open>A worker with one request\<close>

definition one_request :: scheduled_request where
  "one_request = (pd_request ''a'' [1] 7)\<lparr>forward_cache_pages := [6], sequence_cache_pages := [6], allocated_cache_pages := [6], stage := PrefillForward\<rparr>"

definition one_batch :: schedule_batch where
  "one_batch = batch_prefill [one_request]"

definition one_span :: kv_span where
  "one_span = span_of 1 one_request \<lparr>bootstrap_host = ''h'', bootstrap_port = 1, bootstrap_room = 7\<rparr> [6]"

definition one_token_worker :: "unit model_worker" where
  "one_token_worker =
     \<lparr>mw_generate = \<lambda>b w. (Inr (map (\<lambda>_. \<lparr>token_ids = [9], is_finished = False\<rparr>) (batch_requests b)), w),
      mw_request_state = \<lambda>w r. Inr Ready, mw_finish_request = \<lambda>r w. (Inr (), w), mw_fail_request = \<lambda>r w. w,
      mw_shutdown = \<lambda>w. (Inr (), w), mw_export_state = \<lambda>w r. Inr None, mw_restore_state = \<lambda>r b w. (Inr (), w)\<rparr>"

definition sample_parts :: "(unit, (unit, unit) kv_executor \<times> unit, unit) worker_parts" where
  "sample_parts = \<lparr>wp_publisher = noop_publisher, wp_backend = kv_executor_backend id, wp_worker = one_token_worker\<rparr>"

definition sample_executor :: "(unit, unit) kv_executor" where
  "sample_executor = (with_target_resolver sample_transport sample_layout (fixed_resolver 1) ())\<lparr>ex_registration :=
     Some \<lparr>rm_registrar = sample_registrar, rm_memory = sample_memory, rm_registered_addrs = [100], rm_active = True\<rparr>\<rparr>"

definition sample_worker :: "(unit, (unit, unit) kv_executor \<times> unit, unit) transfer_worker" where
  "sample_worker = transfer_worker_new () [] (sample_executor, ()) ()"

lemma one_plan:
  assumes "tw_page_size tw = 1"
  shows "plan_and_publish sample_parts one_batch tw = (Ok (Some [one_span]), tw)"
proof -
  have "(case from_schedule_batch one_batch of Ok wb \<Rightarrow> from_prefill_worker_batch_with_page_size wb 1 | _ \<Rightarrow> Panic) = Ok [one_span]"
    by code_simp
  then obtain wb where "from_schedule_batch one_batch = Ok wb" "from_prefill_worker_batch_with_page_size wb 1 = Ok [one_span]"
    by (auto split: outcome.split_asm)
  then show ?thesis
    using assms by (simp add: plan_and_publish_def one_batch_def batch_prefill_def sample_parts_def noop_publisher_def)
qed

definition one_sent :: kv_span where
  "one_sent = one_span\<lparr>ts_first_token := Some 9\<rparr>"

lemma one_sent_fields:
  "ts_room one_sent = 7" "\<not> is_noop one_sent" "ts_page_size one_sent = 1" "ts_token_count one_sent = 1" "ts_page_indices one_sent = [6]"
  "ts_page_offset one_sent = 0" "ts_request_id one_sent = ''a''" "one_sent\<lparr>ts_recurrent_state := None\<rparr> = one_sent"
  by (simp_all add: one_sent_def one_span_def span_of_def ts_room_def is_noop_def ts_page_offset_def one_request_def pd_request_def
      with_disaggregated_params_def scheduled_request_new_def)

definition one_session :: "kv_poll \<Rightarrow> bootstrap_session" where
  "one_session st = \<lparr>bs_request_id = ''a'', bs_params = \<lparr>bootstrap_host = ''h'', bootstrap_port = 1, bootstrap_room = 7\<rparr>, bs_rank = 0, bs_status = st\<rparr>"

lemma one_registered: "register_prefill_bootstrap_sessions one_batch tw = (Ok (), tw\<lparr>tw_registry := [(7, one_session Bootstrapping)]\<rparr>)"
  if "tw_registry tw = []"
  using that
  by (simp add: register_prefill_bootstrap_sessions_def one_batch_def batch_prefill_def one_request_def pd_request_def with_disaggregated_params_def
      scheduled_request_new_def bootstrap_get_def bootstrap_register_def bootstrap_session_new_def one_session_def)

definition one_transfer :: submitted_batch where
  "one_transfer = submitted_batch_of_span id one_sent 5 1"

lemma one_submitted:
  "executor_submit id one_sent (sample_executor, ()) = (Ok (), sample_executor\<lparr>ex_batches := [5], ex_transfers := [one_transfer]\<rparr>, ())"
proof -
  have "build_kv_transfer_requests one_sent sample_layout 1 = Ok [page_write one_sent sample_layout 1 0 6]"
    by (simp add: build_kv_transfer_requests_def one_sent_fields div_ceil_def page_request_def page_write_def sample_layout_def
        checked_mul_def checked_add_def)
  then show ?thesis
    by (simp add: executor_submit_def sample_executor_def span_requests_def with_target_resolver_def fixed_resolver_def Let_def
        sample_transport_def one_transfer_def)
qed

definition one_running :: "(unit, (unit, unit) kv_executor \<times> unit, unit) transfer_worker" where
  "one_running = sample_worker\<lparr>tw_registry := [(7, one_session Transferring)],
     tw_executor := (sample_executor\<lparr>ex_batches := [5], ex_transfers := [one_transfer]\<rparr>, ()),
     tw_last_summary := Some \<lparr>submitted_spans = 1, noop_spans = 0, snapshot_checksums = []\<rparr>\<rparr>"

lemma one_prefilled:
  "submit_prefill sample_parts one_batch [one_span] [\<lparr>token_ids = [9], is_finished = False\<rparr>] (sample_worker\<lparr>tw_prefill_only := only\<rparr>) =
   (Ok (), one_running\<lparr>tw_prefill_only := only\<rparr>)"
proof -
  have out: "with_prefill_output one_batch [\<lparr>token_ids = [9], is_finished = False\<rparr>] [one_span] = Ok [one_sent]"
    by (simp add: one_batch_def batch_prefill_def one_sent_def one_span_def span_of_def vec_get_def)
  have ex: "export_states sample_parts [one_sent] tw = Ok [one_sent]" for tw
    by (simp add: sample_parts_def one_token_worker_def one_sent_fields)
  have plan: "execute_kv_cache_transfer_plan (wp_backend sample_parts) [one_sent] ([(7, one_session Bootstrapping)], sample_executor, ()) =
      (Ok \<lparr>submitted_spans = 1, noop_spans = 0, snapshot_checksums = []\<rparr>, [(7, one_session Transferring)],
       sample_executor\<lparr>ex_batches := [5], ex_transfers := [one_transfer]\<rparr>, ())"
    by (simp add: execute_kv_cache_transfer_plan_def one_sent_fields set_status_def bootstrap_update_status_def one_session_def
        kv_executor_backend_def one_submitted empty_summary_def sample_parts_def)
  have reg: "register_prefill_bootstrap_sessions one_batch (sample_worker\<lparr>tw_prefill_only := only\<rparr>) =
      (Ok (), (sample_worker\<lparr>tw_prefill_only := only\<rparr>)\<lparr>tw_registry := [(7, one_session Bootstrapping)]\<rparr>)"
    by (rule one_registered) (simp add: sample_worker_def transfer_worker_new_def)
  show ?thesis
    unfolding submit_prefill_def reg
    by (simp add: out ex plan sample_worker_def transfer_worker_new_def one_running_def del: with_prefill_output.simps export_states.simps)
qed

lemma one_generated:
  "tw_generate sample_parts one_batch (sample_worker\<lparr>tw_prefill_only := only\<rparr>) =
   finish_prefill sample_parts one_batch [\<lparr>token_ids = [9], is_finished = False\<rparr>] (one_running\<lparr>tw_prefill_only := only\<rparr>)"
proof -
  have gen: "mw_generate (wp_worker sample_parts) one_batch () = (Inr [\<lparr>token_ids = [9], is_finished = False\<rparr>], ())"
    by (simp add: sample_parts_def one_token_worker_def one_batch_def batch_prefill_def)
  have w: "sample_worker\<lparr>tw_prefill_only := only\<rparr> = \<lparr>tw_publisher = (), tw_executor = (sample_executor, ()), tw_worker = (), tw_registry = [],
      tw_page_size = 1, tw_submit_prefill = True, tw_prefill_only = only, tw_last_summary = None\<rparr>"
    by (simp add: sample_worker_def transfer_worker_new_def)
  show ?thesis
    using one_prefilled [of only] one_plan [of "sample_worker\<lparr>tw_prefill_only := only\<rparr>"]
    unfolding tw_generate_def w by (simp add: gen)
qed

lemma one_polled:
  "executor_poll (tw_executor one_running) =
   (Ok \<lparr>poll_events = [event_for one_transfer EventCompleted], pending_transfers = 0\<rparr>, sample_executor, ())"
proof -
  have "poll_kv_submitted_batch sample_transport one_transfer () = (Ok BatchCompleted, ())"
    by (simp add: poll_kv_submitted_batch_def one_transfer_def submitted_batch_of_span_def sample_transport_def status_code_of_def)
  then show ?thesis
    by (simp add: executor_poll_def one_running_def poll_loop.simps sample_executor_def with_target_resolver_def finish_polled_def
        free_transfer_def remove_submitted_def remove_nth_def sample_transport_def Let_def)
qed

lemma one_running_run: "worker_run sample_parts one_running"
proof -
  have "worker_run sample_parts sample_worker"
    unfolding sample_worker_def
    by (rule worker_run.start) (simp_all add: sample_executor_def with_target_resolver_def)
  moreover have "tw_generate sample_parts one_batch sample_worker = Some (Ok [\<lparr>token_ids = [9], is_finished = False\<rparr>], one_running)"
    using one_generated [of False] by (simp add: finish_prefill_def sample_worker_def transfer_worker_new_def one_running_def)
  ultimately show ?thesis by (rule worker_run.generate)
qed



end
