(* ===== verification/Pd_Executor.thy ===== *)
theory Pd_Executor
  imports Pd_Bootstrap Transfer_Sessions
begin

text \<open>
  The transfer executor of a prefill instance that serves the bootstrap protocol (\<open>PdBootstrapKvCacheTransferExecutor\<close> of
  \<open>transfer/pd_bootstrap.rs\<close>): it wraps the executor of \<open>Transfer_Executor\<close>, shares its state with the control socket, and tells the
  decode instances how each transfer ended.

  The control socket and the HTTP handlers run on other threads and take the lock of the shared state between the critical
  sections of the executor; \<open>px_arrivals\<close> lists what they handle at each such point, so that every interleaving is the run of
  some list.  A send is answered by \<open>net\<close>, which knows all earlier sends, and is written to \<open>px_sent\<close> (newest first) together with the
  rooms whose transfers are in flight at that moment.
\<close>

section \<open>State and environment\<close>

datatype arrival =
    ControlMessage frame
  | RoutePut route_registration
  | RankPut usize u64 int

record sent_message =
  se_endpoint :: string
  se_frames :: "frame list"
  se_in_flight :: "u64 list"
  se_error :: "string option"

type_synonym network = "sent_message list \<Rightarrow> string \<Rightarrow> frame list \<Rightarrow> string option"

record ('r, 'w) pd_executor =
  px_service :: bootstrap_state
  px_serving :: bool
  px_inner :: "('r, 'w) kv_executor \<times> 'w"
  px_tokens :: "(u64 \<times> u32) list"
  px_states :: "(u64 \<times> u8 list) list"
  px_sent :: "sent_message list"
  px_arrivals :: "arrival list list"

definition pd_executor_new :: "bootstrap_state \<Rightarrow> ('r, 'w) kv_executor \<times> 'w \<Rightarrow> arrival list list \<Rightarrow> ('r, 'w) pd_executor" where
  "pd_executor_new service inner arrivals =
     \<lparr>px_service = service, px_serving = True, px_inner = inner, px_tokens = [], px_states = [], px_sent = [], px_arrivals = arrivals\<rparr>"

definition in_flight :: "('r, 'w) pd_executor \<Rightarrow> u64 list" where
  "in_flight s = map sb_room (ex_transfers (fst (px_inner s)))"

definition send_frames ::
  "network \<Rightarrow> string \<Rightarrow> frame list \<Rightarrow> ('r, 'w) pd_executor \<Rightarrow> (transfer_error, unit) outcome \<times> ('r, 'w) pd_executor" where
  "send_frames net endpoint frames s =
     (let e = net (px_sent s) endpoint frames;
          s = s\<lparr>px_sent := \<lparr>se_endpoint = endpoint, se_frames = frames, se_in_flight = in_flight s, se_error = e\<rparr> # px_sent s\<rparr>
      in (case e of None \<Rightarrow> Ok () | Some m \<Rightarrow> Err (TransferRuntime m), s))"

text \<open>The serving loop ends with the first message it cannot handle or acknowledge.\<close>

fun serve :: "network \<Rightarrow> arrival \<Rightarrow> ('r, 'w) pd_executor \<Rightarrow> ('r, 'w) pd_executor" where
  "serve net (RoutePut r) s = s\<lparr>px_service := register_route r (px_service s)\<rparr>"
| "serve net (RankPut now room rank) s = s\<lparr>px_service := register_dp_rank now room rank (px_service s)\<rparr>"
| "serve net (ControlMessage fr) s =
     (if \<not> px_serving s then s
      else case serve_message fr (px_service s) of
        (r, st) \<Rightarrow>
          let s = s\<lparr>px_service := st\<rparr>
          in case r of
               Ok None \<Rightarrow> s
             | Ok (Some (endpoint, ack)) \<Rightarrow>
                 (case send_frames net endpoint [ack] s of (Ok _, s) \<Rightarrow> s | (_, s) \<Rightarrow> s\<lparr>px_serving := False\<rparr>)
             | _ \<Rightarrow> s\<lparr>px_serving := False\<rparr>)"

definition interrupt :: "network \<Rightarrow> ('r, 'w) pd_executor \<Rightarrow> ('r, 'w) pd_executor" where
  "interrupt net s =
     (case px_arrivals s of [] \<Rightarrow> s | arrived # rest \<Rightarrow> fold (serve net) arrived (s\<lparr>px_arrivals := rest\<rparr>))"

section \<open>Notification of a room\<close>

type_synonym ('a, 'r, 'w) pd_result = "(transfer_error, 'a) outcome \<times> ('r, 'w) pd_executor"

definition room_targets :: "u64 \<Rightarrow> bootstrap_state \<Rightarrow> (string \<times> 16 word \<times> int) list" where
  "room_targets room st =
     (case map_of (bt_transfer_rooms st) room of
        None \<Rightarrow> []
      | Some r \<Rightarrow> map (\<lambda>(_, t). (ti_endpoint t, ti_dst_port t, case ti_dst_aux_index t of None \<Rightarrow> 0 | Some i \<Rightarrow> i)) (tr_transfers r))"

definition tcp_endpoint :: "string \<Rightarrow> 16 word \<Rightarrow> string" where
  "tcp_endpoint host port = ''tcp://'' @ host @ '':'' @ show_usize (unat port)"

fun notify_targets ::
  "network \<Rightarrow> u64 \<Rightarrow> u32 option \<Rightarrow> u8 list option \<Rightarrow> string option \<Rightarrow> (string \<times> 16 word \<times> int) list \<Rightarrow> ('r, 'w) pd_executor \<Rightarrow>
   (unit, 'r, 'w) pd_result" where
  "notify_targets net room token state e [] s = (Ok (), s)"
| "notify_targets net room token state e ((host, port, aux) # targets) s =
     (if token = None then notify_targets net room token state e targets s
      else and_with (map_err TransferRuntime (completion_frames room (if e = None then token else None) state e aux), s) (\<lambda>frames s.
           and_with (send_frames net (tcp_endpoint host port) frames s) (\<lambda>_ s.
             notify_targets net room token state e targets (interrupt net s))))"

fun notify_aborts :: "network \<Rightarrow> u64 \<Rightarrow> string list \<Rightarrow> ('r, 'w) pd_executor \<Rightarrow> (unit, 'r, 'w) pd_result" where
  "notify_aborts net room [] s = (Ok (), s)"
| "notify_aborts net room (endpoint # endpoints) s =
     and_with (send_frames net endpoint [abort_ack_frame room] s) (\<lambda>_ s. notify_aborts net room endpoints (interrupt net s))"

definition forget_room :: "u64 \<Rightarrow> ('r, 'w) pd_executor \<Rightarrow> ('r, 'w) pd_executor" where
  "forget_room room s =
     s\<lparr>px_service := (px_service s)\<lparr>bt_active_rooms := removeAll room (bt_active_rooms (px_service s)),
         bt_abort_targets := AList.delete room (bt_abort_targets (px_service s)),
         bt_transfer_rooms := AList.delete room (bt_transfer_rooms (px_service s))\<rparr>,
       px_tokens := AList.delete room (px_tokens s), px_states := AList.delete room (px_states s)\<rparr>"

definition notify_room :: "network \<Rightarrow> u64 \<Rightarrow> string option \<Rightarrow> ('r, 'w) pd_executor \<Rightarrow> (unit, 'r, 'w) pd_result" where
  "notify_room net room e s =
     (let targets = room_targets room (px_service s);
          abort_targets = or_default room (bt_abort_targets (px_service s));
          token = map_of (px_tokens s) room; state = map_of (px_states s) room
      in and_with (notify_targets net room token state e targets (interrupt net s)) (\<lambda>_ s.
         and_with (notify_aborts net room abort_targets s) (\<lambda>_ s. (Ok (), forget_room room s))))"

section \<open>Operations\<close>

text \<open>\<open>bind_with\<close> composes calls that may not return.\<close>

definition bind_with ::
  "(('e, 'a) outcome \<times> 's) option \<Rightarrow> ('a \<Rightarrow> 's \<Rightarrow> (('e, 'b) outcome \<times> 's) option) \<Rightarrow> (('e, 'b) outcome \<times> 's) option" where
  "bind_with m f =
     (case m of
        None \<Rightarrow> None
      | Some (Ok a, s) \<Rightarrow> f a s
      | Some (Err e, s) \<Rightarrow> Some (Err e, s)
      | Some (Panic, s) \<Rightarrow> Some (Panic, s))"

definition inner_cancel :: "network \<Rightarrow> u64 \<Rightarrow> ('r, 'w) pd_executor \<Rightarrow> (unit, 'r, 'w) pd_result option" where
  "inner_cancel net room s =
     map_option (\<lambda>(r, inner). (r, interrupt net (s\<lparr>px_inner := inner\<rparr>))) (executor_cancel room (px_inner s))"

definition pd_register :: "transferable_memory \<Rightarrow> ('r, 'w) pd_executor \<Rightarrow> (unit, 'r, 'w) pd_result" where
  "pd_register m s = (case executor_register m (px_inner s) of (r, inner) \<Rightarrow> (r, s\<lparr>px_inner := inner\<rparr>))"

text \<open>The layouts are polled for until the deadline; \<open>polls\<close> is the number of polls that find the deadline not yet reached.\<close>

fun wait_layouts :: "network \<Rightarrow> nat \<Rightarrow> u64 \<Rightarrow> ('r, 'w) pd_executor \<Rightarrow> ((string \<times> kv_remote_layout) list, 'r, 'w) pd_result" where
  "wait_layouts net 0 room s =
     (map_err (\<lambda>e. TransferRuntime (show_remote_layout_error e)) (remote_kv_layouts_for_room room (px_service s)), s)"
| "wait_layouts net (Suc polls) room s =
     (case remote_kv_layouts_for_room room (px_service s) of
        Ok layouts \<Rightarrow> (Ok layouts, s)
      | Err e \<Rightarrow> wait_layouts net polls room (interrupt net s)
      | Panic \<Rightarrow> (Panic, s))"

definition insert_layouts :: "u64 \<Rightarrow> (string \<times> kv_remote_layout) list \<Rightarrow> ('r, 'w) kv_executor \<Rightarrow> ('r, 'w) kv_executor" where
  "insert_layouts room layouts ex = fold (\<lambda>(session_id, lay). insert_remote_kv_session_layout room session_id lay) layouts ex"

definition keep_output :: "kv_span \<Rightarrow> ('r, 'w) pd_executor \<Rightarrow> ('r, 'w) pd_executor" where
  "keep_output span s =
     s\<lparr>px_tokens := (case ts_first_token span of Some t \<Rightarrow> btree_insert (ts_room span) t (px_tokens s) | None \<Rightarrow> px_tokens s),
       px_states := (case ts_recurrent_state span of Some b \<Rightarrow> btree_insert (ts_room span) b (px_states s) | None \<Rightarrow> px_states s)\<rparr>"

definition activate :: "u64 \<Rightarrow> ('r, 'w) pd_executor \<Rightarrow> ('r, 'w) pd_executor" where
  "activate room s = s\<lparr>px_service := (px_service s)\<lparr>bt_active_rooms := room_insert room (bt_active_rooms (px_service s))\<rparr>\<rparr>"

definition submit_active ::
  "network \<Rightarrow> (u8 list \<Rightarrow> u8 list) \<Rightarrow> kv_span \<Rightarrow> (string \<times> kv_remote_layout) list \<Rightarrow> ('r, 'w) pd_executor \<Rightarrow> (unit, 'r, 'w) pd_result option" where
  "submit_active net sha256 span layouts s =
     (case executor_submit sha256 span (insert_layouts (ts_room span) layouts (fst (px_inner s)), snd (px_inner s)) of
        (result, inner) \<Rightarrow>
          let s = keep_output span (s\<lparr>px_inner := inner\<rparr>)
          in case result of
               Err e \<Rightarrow>
                 bind_with (inner_cancel net (ts_room span) (interrupt net s)) (\<lambda>_ s.
                 bind_with (Some (notify_room net (ts_room span) (Some (show_transfer_error e)) s)) (\<lambda>_ s. Some (Err e, s)))
             | r \<Rightarrow> Some (r, s))"

definition pd_submit ::
  "network \<Rightarrow> (u8 list \<Rightarrow> u8 list) \<Rightarrow> usize \<Rightarrow> nat \<Rightarrow> kv_span \<Rightarrow> ('r, 'w) pd_executor \<Rightarrow> (unit, 'r, 'w) pd_result option" where
  "pd_submit net sha256 now polls span s =
     (let s = interrupt net (s\<lparr>px_service := register_dp_rank now (ts_room span) (ts_rank span) (px_service s)\<rparr>)
      in bind_with (Some (wait_layouts net polls (ts_room span) s)) (\<lambda>layouts s.
         let s = interrupt net s
         in if ts_room span \<in> set (bt_aborted_rooms (px_service s))
            then Some (Err (TransferRuntime ''decode aborted this transfer room before submission''), s)
            else submit_active net sha256 span layouts (interrupt net (activate (ts_room span) s))))"

fun cancel_aborted :: "network \<Rightarrow> u64 list \<Rightarrow> ('r, 'w) pd_executor \<Rightarrow> (completion_event list, 'r, 'w) pd_result option" where
  "cancel_aborted net [] s = Some (Ok [], s)"
| "cancel_aborted net (room # rooms) s =
     bind_with (inner_cancel net room s) (\<lambda>_ s.
     bind_with (Some (notify_room net room (Some ''decode aborted the transfer'') s)) (\<lambda>_ s.
     bind_with (cancel_aborted net rooms s) (\<lambda>events s.
       Some (Ok (\<lparr>ev_room = room, ev_checksum = [], ev_status = EventCanceled\<rparr> # events), s))))"

fun event_error :: "event_status \<Rightarrow> string option" where
  "event_error EventCompleted = None"
| "event_error (EventFailed m) = Some m"
| "event_error EventCanceled = Some ''prefill transfer canceled''"

fun notify_events :: "network \<Rightarrow> completion_event list \<Rightarrow> ('r, 'w) pd_executor \<Rightarrow> (unit, 'r, 'w) pd_result" where
  "notify_events net [] s = (Ok (), s)"
| "notify_events net (e # es) s =
     and_with (notify_room net (ev_room e) (event_error (ev_status e)) s) (\<lambda>_ s. notify_events net es s)"

definition pd_poll :: "network \<Rightarrow> ('r, 'w) pd_executor \<Rightarrow> (transfer_poll, 'r, 'w) pd_result option" where
  "pd_poll net s =
     (let st = px_service s;
          aborted = filter (\<lambda>room. room \<in> set (bt_aborted_rooms st)) (bt_active_rooms st)
      in bind_with (cancel_aborted net aborted (interrupt net s)) (\<lambda>canceled s.
         case executor_poll (px_inner s) of
           (r, inner) \<Rightarrow>
             bind_with (Some (r, interrupt net (s\<lparr>px_inner := inner\<rparr>))) (\<lambda>p s.
             bind_with (Some (notify_events net (poll_events p) s)) (\<lambda>_ s.
               Some (Ok \<lparr>poll_events = poll_events p @ canceled, pending_transfers = pending_transfers p\<rparr>, s)))))"

definition pd_cancel :: "network \<Rightarrow> u64 \<Rightarrow> ('r, 'w) pd_executor \<Rightarrow> (unit, 'r, 'w) pd_result option" where
  "pd_cancel net room s =
     bind_with (inner_cancel net room s) (\<lambda>_ s. Some (notify_room net room (Some ''prefill request canceled'') s))"

fun cancel_all :: "network \<Rightarrow> u64 list \<Rightarrow> ('r, 'w) pd_executor \<Rightarrow> (unit, 'r, 'w) pd_result option" where
  "cancel_all net [] s = Some (Ok (), s)"
| "cancel_all net (room # rooms) s = bind_with (pd_cancel net room s) (\<lambda>_ s. cancel_all net rooms s)"

definition pd_shutdown :: "network \<Rightarrow> ('r, 'w) pd_executor \<Rightarrow> (unit, 'r, 'w) pd_result option" where
  "pd_shutdown net s =
     bind_with (cancel_all net (map fst (px_tokens s)) s) (\<lambda>_ s.
       map_option (\<lambda>(r, inner). (r, s\<lparr>px_inner := inner\<rparr>)) (executor_shutdown (px_inner s)))"

section \<open>Invariant\<close>

text \<open>Rooms the wrapped executor still owes an event for, with multiplicity.\<close>

definition owed :: "('r, 'w) pd_executor \<Rightarrow> u64 multiset" where
  "owed s = image_mset fst (transfer_ids (fst (px_inner s)))"

definition acks :: "u64 \<Rightarrow> sent_message \<Rightarrow> bool" where
  "acks room m \<longleftrightarrow> abort_ack_frame room \<in> set (se_frames m)"

abbreviation aborted_set :: "('r, 'w) pd_executor \<Rightarrow> u64 set" where
  "aborted_set s \<equiv> set (bt_aborted_rooms (px_service s))"

abbreviation active_set :: "('r, 'w) pd_executor \<Rightarrow> u64 set" where
  "active_set s \<equiv> set (bt_active_rooms (px_service s))"

text \<open>The frames of the protocol; a status is only sent for a room without transfers in flight.\<close>

definition protocol_frame :: "u64 set \<Rightarrow> frame \<Rightarrow> bool" where
  "protocol_frame busy f \<longleftrightarrow> (\<exists>room t i. f = token_frame room t i) \<or> (\<exists>room b i. f = state_frame room b i) \<or>
     (\<exists>room e. f = status_frame room e \<and> room \<notin> busy) \<or> (\<exists>room. f = abort_ack_frame room)"

definition pd_inv :: "('r, 'w) pd_executor \<Rightarrow> bool" where
  "pd_inv s \<longleftrightarrow> bootstrap_ok (px_service s) \<and> set_mset (owed s) \<subseteq> active_set s \<and> (\<forall>room. count (owed s) room \<le> 1) \<and>
     (\<forall>m \<in> set (px_sent s). \<forall>f \<in> set (se_frames m). protocol_frame (set (se_in_flight m)) f) \<and>
     (\<forall>m \<in> set (px_sent s). \<forall>room. acks room m \<longrightarrow> room \<notin> set (se_in_flight m) \<and> room \<in> aborted_set s \<and> room \<notin># owed s)"

text \<open>What other threads may do: they leave the wrapped executor and the active rooms alone and never forget an abort.\<close>

definition calm :: "('r, 'w) pd_executor \<Rightarrow> ('r, 'w) pd_executor \<Rightarrow> bool" where
  "calm s s' \<longleftrightarrow> px_inner s' = px_inner s \<and> bt_active_rooms (px_service s') = bt_active_rooms (px_service s) \<and>
     aborted_set s \<subseteq> aborted_set s' \<and> px_tokens s' = px_tokens s \<and> px_states s' = px_states s"

lemma calm_refl [simp]: "calm s s"
  by (simp add: calm_def)

lemma calm_trans: "calm s s' \<Longrightarrow> calm s' s'' \<Longrightarrow> calm s s''"
  by (auto simp: calm_def)

lemma calm_owed: "calm s s' \<Longrightarrow> owed s' = owed s"
  by (simp add: calm_def owed_def)

lemma in_flight_owed: "set (in_flight s) \<subseteq> set_mset (owed s)"
  by (force simp: in_flight_def owed_def transfer_ids_def)

lemma send_frames_calm: "send_frames net endpoint frames s = (r, s') \<Longrightarrow> calm s s'"
  by (auto simp: send_frames_def Let_def calm_def)

lemma send_frames_inv:
  assumes "pd_inv s" "send_frames net endpoint frames s = (r, s')"
    and "\<And>room. abort_ack_frame room \<in> set frames \<Longrightarrow> room \<in> aborted_set s \<and> room \<notin># owed s"
    and "\<And>f. f \<in> set frames \<Longrightarrow> protocol_frame (set_mset (owed s)) f"
  shows "pd_inv s'"
proof -
  have "\<forall>f \<in> set frames. protocol_frame (set (in_flight s)) f"
    using assms(4) in_flight_owed [of s] unfolding protocol_frame_def by blast
  moreover have "s' = s\<lparr>px_sent := \<lparr>se_endpoint = endpoint, se_frames = frames, se_in_flight = in_flight s,
      se_error = net (px_sent s) endpoint frames\<rparr> # px_sent s\<rparr>"
    using assms(2) by (simp add: send_frames_def Let_def)
  moreover have "room \<notin> set (in_flight s)" if "abort_ack_frame room \<in> set frames" for room
    using assms(3) [OF that] in_flight_owed [of s] by blast
  ultimately show ?thesis using assms(1,3) unfolding pd_inv_def acks_def by (auto simp: owed_def)
qed

lemma abort_ack_frame_inj [simp]: "abort_ack_frame room = abort_ack_frame room' \<longleftrightarrow> room = room'"
proof
  assume "abort_ack_frame room = abort_ack_frame room'"
  then have "show_usize (unat room) = show_usize (unat room')" by (simp add: abort_ack_frame_def str_bytes_inj show_room_def)
  then have "unat room = unat room'" using parse_unsigned_show unat_bounds(2) by (metis option.inject)
  then show "room = room'" by (rule unsigned_word_eqI)
qed simp

lemma serve_message_rooms:
  assumes "serve_message fr st = (r, st')"
  shows "bt_active_rooms st' = bt_active_rooms st \<and> set (bt_aborted_rooms st) \<subseteq> set (bt_aborted_rooms st') \<and>
    (\<forall>e f. r = Ok (Some (e, f)) \<longrightarrow> (\<exists>room. f = abort_ack_frame room \<and> room \<in> set (bt_aborted_rooms st') \<and> room \<notin> set (bt_active_rooms st)))"
proof (cases "fr \<noteq> [] \<and> hd fr = str_bytes ''ABORT''")
  case True
  then have "serve_abort fr st = (r, st')" using assms by (simp add: serve_message_def)
  then show ?thesis
    by (auto simp: serve_abort_def Let_def push_abort_target_def split: outcome.splits if_splits)
next
  case False
  then obtain q where q: "ingest_bootstrap_frame fr st = (q, st')" "r = and_then q (\<lambda>_. Ok None)"
    using assms by (auto simp: serve_message_def split: prod.splits)
  then have "bt_active_rooms st' = bt_active_rooms st \<and> bt_aborted_rooms st' = bt_aborted_rooms st"
    by (auto simp: ingest_bootstrap_frame_def split: outcome.splits if_splits)
  then show ?thesis using q(2) by (cases q) auto
qed

lemma serve_inv:
  assumes "pd_inv s"
  shows "pd_inv (serve net a s) \<and> calm s (serve net a s)"
proof (cases a)
  case (RoutePut r)
  then show ?thesis using assms register_route_ok by (auto simp: pd_inv_def calm_def owed_def register_route_def)
next
  case (RankPut now room rank)
  then show ?thesis
    using assms register_dp_rank_ok [of "px_service s" now room rank]
    by (auto simp: pd_inv_def calm_def owed_def register_dp_rank_def prune_expired_def Let_def)
next
  case (ControlMessage fr)
  obtain r st where m: "serve_message fr (px_service s) = (r, st)" by (cases "serve_message fr (px_service s)")
  let ?s = "s\<lparr>px_service := st\<rparr>"
  note rooms = serve_message_rooms [OF m]
  have inv: "pd_inv ?s" using assms rooms serve_ok [OF _ m] by (auto simp: pd_inv_def owed_def)
  have calm: "calm s ?s" using rooms by (simp add: calm_def)
  have off: "pd_inv (x\<lparr>px_serving := False\<rparr>) = pd_inv x" "calm s (x\<lparr>px_serving := False\<rparr>) = calm s x" for x :: "('a, 'b) pd_executor"
    by (simp_all add: pd_inv_def calm_def owed_def)
  have snd: "pd_inv s2 \<and> calm s s2" if ack: "r = Ok (Some (e, f))" and run: "send_frames net e [f] ?s = (q, s2)" for e f q s2
  proof -
    obtain room where room: "f = abort_ack_frame room" "room \<in> set (bt_aborted_rooms st)" "room \<notin> active_set s"
      using rooms ack by blast
    moreover have "room \<notin># owed s" using assms room(3) by (auto simp: pd_inv_def)
    ultimately have "pd_inv s2" by (intro send_frames_inv [OF inv run]) (auto simp: owed_def protocol_frame_def)
    then show ?thesis using calm_trans [OF calm send_frames_calm [OF run]] by simp
  qed
  show ?thesis
    using ControlMessage assms inv calm off snd m
    by (auto simp: Let_def split: outcome.splits option.splits prod.splits)
qed

lemma interrupt_inv:
  assumes "pd_inv s"
  shows "pd_inv (interrupt net s) \<and> calm s (interrupt net s)"
proof -
  have fold: "pd_inv x \<Longrightarrow> pd_inv (fold (serve net) as x) \<and> calm x (fold (serve net) as x)" for as and x :: "('a, 'b) pd_executor"
  proof (induction as arbitrary: x)
    case (Cons a as)
    then show ?case using serve_inv [of x net a] calm_trans by auto
  qed simp
  have drop: "pd_inv (s\<lparr>px_arrivals := rest\<rparr>)" "calm s (s\<lparr>px_arrivals := rest\<rparr>)" for rest
    using assms by (simp_all add: pd_inv_def calm_def owed_def)
  show ?thesis
    using assms fold [OF drop(1)] calm_trans [OF drop(2)] by (auto simp: interrupt_def split: list.splits)
qed

lemma completion_no_ack: "completion_frames room token state e i = Ok frames \<Longrightarrow> abort_ack_frame room' \<notin> set frames"
  by (auto dest!: completion_frames_Ok simp: abort_ack_frame_def token_frame_def state_frame_def status_frame_def headers
      headers(3) [symmetric] headers(2) [symmetric] split: option.splits)

lemma completion_protocol:
  "completion_frames room token state e i = Ok frames \<Longrightarrow> room \<notin> busy \<Longrightarrow> f \<in> set frames \<Longrightarrow> protocol_frame busy f"
proof -
  assume frames: "completion_frames room token state e i = Ok frames" and room: "room \<notin> busy" and f: "f \<in> set frames"
  have "f = status_frame room e \<or> (\<exists>t. f = token_frame room t i) \<or> (\<exists>b. f = state_frame room b i)"
    using completion_frames_Ok [OF frames] f by (auto split: option.splits)
  then show ?thesis using room unfolding protocol_frame_def by blast
qed

lemma notify_targets_inv:
  assumes "pd_inv s" "room \<notin># owed s" "notify_targets net room token state e targets s = (r, s')"
  shows "pd_inv s' \<and> calm s s'"
  using assms
proof (induction targets arbitrary: s)
  case (Cons target targets)
  obtain host port aux where target: "target = (host, port, aux)" by (cases target)
  show ?case
  proof (cases "token = None")
    case True
    then show ?thesis using Cons by (simp add: target)
  next
    case False
    let ?frames = "completion_frames room (if e = None then token else None) state e aux"
    show ?thesis
    proof (cases ?frames)
      case (Ok frames)
      obtain q s1 where send: "send_frames net (tcp_endpoint host port) frames s = (q, s1)"
        by (cases "send_frames net (tcp_endpoint host port) frames s")
      have inv: "pd_inv s1"
        using send_frames_inv [OF Cons.prems(1) send] completion_no_ack [OF Ok] completion_protocol [OF Ok Cons.prems(2)] by blast
      have calm: "calm s s1" by (rule send_frames_calm [OF send])
      show ?thesis
      proof (cases q)
        case (Ok u)
        then have "notify_targets net room token state e targets (interrupt net s1) = (r, s')"
          using Cons.prems(3) False send \<open>?frames = Ok frames\<close> by (simp add: target)
        then show ?thesis using Cons.IH interrupt_inv [OF inv] calm calm_trans calm_owed Cons.prems(2) by metis
      qed (use Cons.prems(3) False send \<open>?frames = Ok frames\<close> inv calm in \<open>auto simp: target\<close>)
    qed (use Cons.prems False in \<open>auto simp: target\<close>)
  qed
qed simp

lemma notify_aborts_inv:
  assumes "pd_inv s" "notify_aborts net room endpoints s = (r, s')"
    and "endpoints \<noteq> [] \<Longrightarrow> room \<in> aborted_set s" "room \<notin># owed s"
  shows "pd_inv s' \<and> calm s s'"
  using assms
proof (induction endpoints arbitrary: s)
  case (Cons endpoint endpoints)
  obtain q s1 where send: "send_frames net endpoint [abort_ack_frame room] s = (q, s1)"
    by (cases "send_frames net endpoint [abort_ack_frame room] s")
  have inv: "pd_inv s1" using Cons.prems(3,4) by (intro send_frames_inv [OF Cons.prems(1) send]) (auto simp: protocol_frame_def)
  have calm: "calm s s1" by (rule send_frames_calm [OF send])
  show ?case
  proof (cases q)
    case (Ok u)
    have int: "pd_inv (interrupt net s1)" "calm s (interrupt net s1)"
      using interrupt_inv [OF inv] calm calm_trans by blast+
    moreover have "notify_aborts net room endpoints (interrupt net s1) = (r, s')"
      using Cons.prems(2) send Ok by simp
    moreover have "room \<in> aborted_set (interrupt net s1)" "room \<notin># owed (interrupt net s1)"
      using int(2) Cons.prems(3,4) calm_owed [OF int(2)] by (auto simp: calm_def)
    ultimately show ?thesis using Cons.IH calm_trans by blast
  qed (use Cons.prems(2) send inv calm in auto)
qed simp

lemma delete_keys: "set (AList.delete k m) \<subseteq> set m"
  by (auto simp: AList.delete_eq)

lemma forget_inv: "pd_inv s \<Longrightarrow> room \<notin># owed s \<Longrightarrow> pd_inv (forget_room room s)"
proof -
  assume inv: "pd_inv s" and out: "room \<notin># owed s"
  have "bootstrap_ok (px_service (forget_room room s))"
    using inv values_ok_delete [of _ "bt_transfer_rooms (px_service s)" room] delete_keys [of room "bt_abort_targets (px_service s)"]
    by (force simp: pd_inv_def bootstrap_ok_def forget_room_def)
  then show ?thesis using inv out by (auto simp: pd_inv_def forget_room_def owed_def)
qed

lemma notify_room_inv:
  assumes "pd_inv s" "room \<notin># owed s" "notify_room net room e s = (r, s')"
  shows "pd_inv s' \<and> px_inner s' = px_inner s \<and> aborted_set s \<subseteq> aborted_set s' \<and>
    active_set s' \<subseteq> active_set s \<and> (r = Ok u \<longrightarrow> room \<notin> active_set s')"
proof -
  let ?ends = "or_default room (bt_abort_targets (px_service s))"
  let ?tok = "map_of (px_tokens s) room" and ?sta = "map_of (px_states s) room"
  let ?targets = "room_targets room (px_service s)"
  have int: "pd_inv (interrupt net s)" "calm s (interrupt net s)" using interrupt_inv [OF assms(1)] by blast+
  obtain q s1 where 1: "notify_targets net room ?tok ?sta e ?targets (interrupt net s) = (q, s1)"
    by (cases "notify_targets net room ?tok ?sta e ?targets (interrupt net s)")
  have s1: "pd_inv s1" "calm s s1" using notify_targets_inv [OF int(1) _ 1] calm_trans [OF int(2)] calm_owed [OF int(2)] assms(2) by auto
  have aborted: "?ends \<noteq> [] \<Longrightarrow> room \<in> aborted_set s"
    using assms(1) by (force simp: pd_inv_def bootstrap_ok_def or_default_def dest: map_of_SomeD split: option.splits)
  obtain q2 s2 where 2: "notify_aborts net room ?ends s1 = (q2, s2)" by (cases "notify_aborts net room ?ends s1")
  have s2: "pd_inv s2 \<and> calm s1 s2"
    by (rule notify_aborts_inv [OF s1(1) 2]) (use aborted s1(2) assms(2) calm_owed [OF s1(2)] in \<open>auto simp: calm_def\<close>)
  have calm2: "calm s s2" using s1(2) s2 calm_trans by blast
  have run: "(r, s') = and_with (q, s1) (\<lambda>_ s. and_with (notify_aborts net room ?ends s) (\<lambda>_ s. (Ok (), forget_room room s)))"
    using assms(3) 1 by (simp add: notify_room_def Let_def)
  consider "s' = s1" "r \<noteq> Ok u" | "s' = s2" "r \<noteq> Ok u" | "s' = forget_room room s2"
    using run 2 by (cases q; cases q2) auto
  then show ?thesis
  proof cases
    case 3
    have "pd_inv s'" unfolding 3 by (rule forget_inv) (use s2 calm_owed [OF calm2] assms(2) in simp_all)
    then show ?thesis using 3 calm2 by (auto simp: calm_def forget_room_def)
  qed (use s1 s2 calm2 in \<open>auto simp: calm_def\<close>)
qed

section \<open>The operations keep the invariant\<close>

lemma executor_rooms_owed: "executor_rooms (px_inner s) = set_mset (owed s)"
  by (simp add: executor_rooms_def owed_def)

lemma pd_inv_inner:
  assumes "pd_inv s" "image_mset fst (transfer_ids (fst inner)) \<subseteq># owed s"
  shows "pd_inv (s\<lparr>px_inner := inner\<rparr>)"
proof -
  let ?s = "s\<lparr>px_inner := inner\<rparr>"
  have le: "owed ?s \<subseteq># owed s" using assms(2) by (simp add: owed_def)
  then have "\<forall>room. count (owed ?s) room \<le> count (owed s) room" by (simp add: mset_subset_eq_count)
  moreover have "set_mset (owed ?s) \<subseteq> set_mset (owed s)" using le by (rule set_mset_mono)
  ultimately show ?thesis using assms(1) unfolding pd_inv_def by (simp, meson order_trans subset_iff)
qed

lemma inner_cancel_inv:
  assumes "pd_inv s" "inner_cancel net room s = Some (r, s')"
  shows "pd_inv s' \<and> owed s' \<subseteq># owed s \<and> (r = Ok u \<longrightarrow> room \<notin># owed s')"
proof -
  obtain inner where c: "executor_cancel room (px_inner s) = Some (r, inner)" and s': "s' = interrupt net (s\<lparr>px_inner := inner\<rparr>)"
    using assms(2) by (auto simp: inner_cancel_def)
  have le: "image_mset fst (transfer_ids (fst inner)) \<subseteq># owed s"
    using executor_cancel_ids [OF c] by (simp add: owed_def image_mset_subseteq_mono)
  note int = interrupt_inv [OF pd_inv_inner [OF assms(1) le], of net]
  then have "owed s' = image_mset fst (transfer_ids (fst inner))" using calm_owed s' by (force simp: owed_def)
  moreover have "r = Ok u \<Longrightarrow> room \<notin> executor_rooms inner" using executor_cancel_ids [OF c] by blast
  ultimately show ?thesis using int le s' by (auto simp: executor_rooms_def)
qed

lemma bind_with_Some:
  assumes "bind_with m f = Some (r, s')"
  shows "\<exists>q s. m = Some (q, s) \<and> ((\<exists>a. q = Ok a \<and> f a s = Some (r, s')) \<or> s' = s \<and> (\<forall>a. q \<noteq> Ok a) \<and> (\<forall>u. r \<noteq> Ok u))"
  using assms by (cases m; cases "fst (the m)") (auto simp: bind_with_def split: prod.splits)

lemma pd_cancel_inv:
  assumes "pd_inv s" "pd_cancel net room s = Some (r, s')"
  shows "pd_inv s' \<and> owed s' \<subseteq># owed s"
proof -
  from bind_with_Some [OF assms(2) [unfolded pd_cancel_def]] obtain q s1 where 1: "inner_cancel net room s = Some (q, s1)"
    and rest: "(\<exists>a. q = Ok a \<and> notify_room net room (Some ''prefill request canceled'') s1 = (r, s')) \<or> s' = s1" by auto
  from rest show ?thesis
  proof
    assume "\<exists>a. q = Ok a \<and> notify_room net room (Some ''prefill request canceled'') s1 = (r, s')"
    then have "q = Ok ()" "notify_room net room (Some ''prefill request canceled'') s1 = (r, s')" by auto
    then show ?thesis
      using inner_cancel_inv [OF assms(1) 1, of "()"] notify_room_inv [of s1 room net _ r s'] by (auto simp: owed_def)
  qed (use inner_cancel_inv [OF assms(1) 1] in auto)
qed

lemma cancel_all_inv: "pd_inv s \<Longrightarrow> cancel_all net rooms s = Some (r, s') \<Longrightarrow> pd_inv s' \<and> owed s' \<subseteq># owed s"
proof (induction rooms arbitrary: s)
  case (Cons room rooms)
  from bind_with_Some [of "pd_cancel net room s"] Cons.prems(2) obtain q s1
    where 1: "pd_cancel net room s = Some (q, s1)" and rest: "(\<exists>a. q = Ok a \<and> cancel_all net rooms s1 = Some (r, s')) \<or> s' = s1"
    by fastforce
  have s1: "pd_inv s1 \<and> owed s1 \<subseteq># owed s" by (rule pd_cancel_inv [OF Cons.prems(1) 1])
  from rest show ?case
  proof
    assume "\<exists>a. q = Ok a \<and> cancel_all net rooms s1 = Some (r, s')"
    then show ?thesis using Cons.IH s1 subset_mset.order_trans by blast
  qed (use s1 in simp)
qed simp

lemma cancel_rooms_ids: "cancel_rooms rooms s = Some (r, s') \<Longrightarrow> transfer_ids (fst s') \<subseteq># transfer_ids (fst s)"
proof (induction rooms arbitrary: s)
  case (Cons room rooms)
  obtain q s1 where c: "executor_cancel room s = Some (q, s1)" using Cons.prems by (auto split: option.splits)
  have le: "transfer_ids (fst s1) \<subseteq># transfer_ids (fst s)" using executor_cancel_ids [OF c] by blast
  show ?case
  proof (cases q)
    case (Ok u)
    then show ?thesis using Cons.prems c Cons.IH [of s1] le subset_mset.order_trans by auto
  qed (use Cons.prems c le in auto)
qed simp

lemma executor_shutdown_ids:
  assumes "executor_shutdown s = Some (r, s')"
  shows "transfer_ids (fst s') \<subseteq># transfer_ids (fst s)"
proof -
  obtain q ex w where c: "cancel_rooms (map sb_room (ex_transfers (fst s))) s = Some (q, ex, w)"
    using assms by (auto simp: executor_shutdown_def split: option.splits)
  have "ex_transfers (fst s') = ex_transfers ex \<and> ex_events (fst s') = ex_events ex"
    using assms c by (cases q)
      (auto simp: executor_shutdown_def split: option.splits prod.splits sum.splits outcome.splits)
  then show ?thesis using cancel_rooms_ids [OF c] by (simp add: transfer_ids_def)
qed

lemma pd_shutdown_inv:
  assumes "pd_inv s" "pd_shutdown net s = Some (r, s')"
  shows "pd_inv s'"
proof -
  from bind_with_Some [OF assms(2) [unfolded pd_shutdown_def]] obtain q s1
    where 1: "cancel_all net (map fst (px_tokens s)) s = Some (q, s1)"
      and rest: "(\<exists>inner. executor_shutdown (px_inner s1) = Some (r, inner) \<and> s' = s1\<lparr>px_inner := inner\<rparr>) \<or> s' = s1" by auto
  have s1: "pd_inv s1" using cancel_all_inv [OF assms(1) 1] by blast
  from rest show ?thesis
  proof
    assume "\<exists>inner. executor_shutdown (px_inner s1) = Some (r, inner) \<and> s' = s1\<lparr>px_inner := inner\<rparr>"
    then obtain inner where inner: "executor_shutdown (px_inner s1) = Some (r, inner)" "s' = s1\<lparr>px_inner := inner\<rparr>" by blast
    have "image_mset fst (transfer_ids (fst inner)) \<subseteq># owed s1"
      using executor_shutdown_ids [OF inner(1)] by (simp add: owed_def image_mset_subseteq_mono)
    then show ?thesis using pd_inv_inner [OF s1] inner(2) by simp
  qed (use s1 in simp)
qed

lemma cancel_aborted_inv:
  "pd_inv s \<Longrightarrow> cancel_aborted net rooms s = Some (r, s') \<Longrightarrow> pd_inv s' \<and> owed s' \<subseteq># owed s"
proof (induction rooms arbitrary: s r s')
  case (Cons room rooms)
  let ?msg = "Some ''decode aborted the transfer''"
  from Cons.prems(2) obtain q s1 where 1: "inner_cancel net room s = Some (q, s1)" by (auto dest!: bind_with_Some)
  have s1: "pd_inv s1" "owed s1 \<subseteq># owed s" "q = Ok () \<Longrightarrow> room \<notin># owed s1"
    using inner_cancel_inv [OF Cons.prems(1) 1, of "()"] by blast+
  obtain q2 s2 where 2: "notify_room net room ?msg s1 = (q2, s2)" by (cases "notify_room net room ?msg s1")
  show ?case
  proof (cases q)
    case (Ok u)
    then have s2: "pd_inv s2" "owed s2 = owed s1"
      using s1(3) notify_room_inv [OF s1(1) _ 2] by (auto simp: owed_def)
    show ?thesis
    proof (cases q2)
      case (Ok u2)
      then obtain q3 s3 where 3: "cancel_aborted net rooms s2 = Some (q3, s3)" and s': "s' = s3"
        using Cons.prems(2) 1 2 \<open>q = Ok u\<close> by (auto simp: bind_with_def split: option.splits prod.splits outcome.splits)
      have "pd_inv s3 \<and> owed s3 \<subseteq># owed s2" by (rule Cons.IH [OF s2(1) 3])
      then show ?thesis using s' s1(2) s2(2) subset_mset.order_trans by auto
    qed (use Cons.prems(2) 1 2 \<open>q = Ok u\<close> s1(2) s2 in \<open>auto simp: bind_with_def\<close>)
  qed (use Cons.prems(2) 1 s1 in \<open>auto simp: bind_with_def\<close>)
qed simp

lemma notify_events_inv:
  "pd_inv s \<Longrightarrow> \<forall>e \<in> set events. ev_room e \<notin># owed s \<Longrightarrow> notify_events net events s = (r, s') \<Longrightarrow> pd_inv s' \<and> px_inner s' = px_inner s"
proof (induction events arbitrary: s)
  case (Cons e es)
  obtain q s1 where 1: "notify_room net (ev_room e) (event_error (ev_status e)) s = (q, s1)"
    by (cases "notify_room net (ev_room e) (event_error (ev_status e)) s")
  have s1: "pd_inv s1" "px_inner s1 = px_inner s"
    using notify_room_inv [OF Cons.prems(1) _ 1] Cons.prems(2) by auto
  then have "owed s1 = owed s" by (simp add: owed_def)
  then show ?case using Cons s1 1 by (cases q) auto
qed simp

lemma unique_disjoint:
  assumes "(M :: u64 multiset) = A + image_mset f (mset xs)" "\<forall>room. count M room \<le> 1" "x \<in> set xs"
  shows "f x \<notin># A"
proof -
  have "1 \<le> count (image_mset f (mset xs)) (f x)" using assms(3) by (simp only: count_greater_eq_one_iff) simp
  moreover have "count A (f x) + count (image_mset f (mset xs)) (f x) \<le> 1" using assms(1,2) by (metis count_union)
  ultimately have "count A (f x) = 0" by linarith
  then show ?thesis by (simp add: not_in_iff)
qed

lemma pd_poll_inv:
  assumes "pd_inv s" "pd_poll net s = Some (r, s')"
  shows "pd_inv s' \<and> owed s' \<subseteq># owed s"
proof -
  let ?aborted = "filter (\<lambda>room. room \<in> aborted_set s) (bt_active_rooms (px_service s))"
  have int: "pd_inv (interrupt net s)" "owed (interrupt net s) = owed s" using interrupt_inv [OF assms(1)] calm_owed by blast+
  from assms(2) obtain q s1 where 1: "cancel_aborted net ?aborted (interrupt net s) = Some (q, s1)"
    by (auto simp: pd_poll_def Let_def dest!: bind_with_Some)
  have s1: "pd_inv s1" "owed s1 \<subseteq># owed s" using cancel_aborted_inv [OF int(1) 1] int(2) by auto
  obtain p inner where p: "executor_poll (px_inner s1) = (p, inner)" by (cases "executor_poll (px_inner s1)")
  let ?s2 = "interrupt net (s1\<lparr>px_inner := inner\<rparr>)"
  note ids = executor_poll_ids [OF p]
  then have le: "image_mset fst (transfer_ids (fst inner)) \<subseteq># owed s1" by (auto simp: owed_def split: outcome.splits)
  have s2: "pd_inv ?s2" and owed2: "owed ?s2 = image_mset fst (transfer_ids (fst inner))"
    using interrupt_inv [OF pd_inv_inner [OF s1(1) le], of net] calm_owed by (force simp: owed_def)+
  have gone: "ev_room e \<notin># owed ?s2" if "p = Ok pl" "e \<in> set (poll_events pl)" for e pl
  proof -
    have "owed s1 = owed ?s2 + image_mset ev_room (mset (poll_events pl))"
      using ids that(1) owed2 by (simp add: owed_def multiset.map_comp comp_def)
    then show ?thesis by (rule unique_disjoint) (use s1(1) that(2) in \<open>simp_all add: pd_inv_def\<close>)
  qed
  have done2: "owed ?s2 \<subseteq># owed s" using le owed2 s1(2) subset_mset.order_trans by simp
  show ?thesis
  proof (cases q)
    case (Ok canceled)
    show ?thesis
    proof (cases p)
      case (Ok pl)
      obtain q3 s3 where 3: "notify_events net (poll_events pl) ?s2 = (q3, s3)" by (cases "notify_events net (poll_events pl) ?s2")
      have "pd_inv s3 \<and> px_inner s3 = px_inner ?s2" by (rule notify_events_inv [OF s2 _ 3]) (use gone Ok in blast)
      moreover have "s' = s3"
        using assms(2) 1 p 3 Ok \<open>q = Ok canceled\<close> by (cases q3) (auto simp: pd_poll_def Let_def bind_with_def)
      ultimately show ?thesis using done2 by (simp add: owed_def)
    qed (use assms(2) 1 p \<open>q = Ok canceled\<close> s2 done2 in \<open>auto simp: pd_poll_def Let_def bind_with_def\<close>)
  qed (use assms(2) 1 s1 in \<open>auto simp: pd_poll_def Let_def bind_with_def\<close>)
qed

definition acked :: "u64 \<Rightarrow> ('r, 'w) pd_executor \<Rightarrow> bool" where
  "acked room s \<longleftrightarrow> (\<exists>m \<in> set (px_sent s). acks room m)"

lemma serve_acked:
  assumes "room \<in> active_set s" "acked room (serve net a s)"
  shows "acked room s"
proof (cases a)
  case (ControlMessage fr)
  obtain r st where m: "serve_message fr (px_service s) = (r, st)" by (cases "serve_message fr (px_service s)")
  have send: "acked room s" if "r = Ok (Some (e, f))" "send_frames net e [f] (s\<lparr>px_service := st\<rparr>) = (q, s2)" "acked room s2" for e f q s2
    using that assms(1) serve_message_rooms [OF m] by (auto simp: acked_def acks_def send_frames_def Let_def)
  have off: "acked room (x\<lparr>px_serving := False\<rparr>) = acked room x" for x :: "('a, 'b) pd_executor" by (simp add: acked_def)
  have serv: "acked room (s\<lparr>px_service := st\<rparr>) = acked room s" by (simp add: acked_def)
  show ?thesis
    using assms(2) ControlMessage m send off serv
    by (auto simp: Let_def split: outcome.splits option.splits prod.splits if_splits)
qed (use assms in \<open>auto simp: acked_def\<close>)

lemma interrupt_acked:
  assumes "pd_inv s" "room \<in> active_set s" "acked room (interrupt net s)"
  shows "acked room s"
proof -
  have fold: "pd_inv x \<Longrightarrow> room \<in> active_set x \<Longrightarrow> acked room (fold (serve net) as x) \<Longrightarrow> acked room x" for as and x :: "('a, 'b) pd_executor"
  proof (induction as arbitrary: x)
    case (Cons a as)
    then have "acked room (serve net a x)" using serve_inv [OF Cons.prems(1), of net a] by (simp add: calm_def)
    then show ?case using serve_acked Cons.prems(2) by blast
  qed simp
  have drop: "pd_inv (s\<lparr>px_arrivals := rest\<rparr>)" "acked room (s\<lparr>px_arrivals := rest\<rparr>) = acked room s" for rest
    using assms(1) by (simp_all add: pd_inv_def acked_def owed_def)
  show ?thesis
    using assms fold [OF drop(1)] drop(2) by (auto simp: interrupt_def split: list.splits)
qed

lemma wait_layouts_inv: "pd_inv s \<Longrightarrow> wait_layouts net polls room s = (r, s') \<Longrightarrow> pd_inv s' \<and> calm s s'"
proof (induction polls arbitrary: s)
  case (Suc polls)
  have int: "pd_inv (interrupt net s)" "calm s (interrupt net s)" using interrupt_inv [OF Suc.prems(1)] by blast+
  show ?case
  proof (cases "remote_kv_layouts_for_room room (px_service s)")
    case (Err e)
    then have "wait_layouts net polls room (interrupt net s) = (r, s')" using Suc.prems(2) by simp
    then show ?thesis using Suc.IH int calm_trans by blast
  qed (use Suc.prems in auto)
qed auto

lemma insert_layouts_ids [simp]: "transfer_ids (insert_layouts room layouts ex) = transfer_ids ex"
  unfolding insert_layouts_def
  by (induction layouts arbitrary: ex) (auto simp: insert_remote_kv_session_layout_def transfer_ids_def)

lemma keep_output_inv [simp]: "pd_inv (keep_output span s) = pd_inv s" "owed (keep_output span s) = owed s"
  "active_set (keep_output span s) = active_set s" "acked room (keep_output span s) = acked room s"
  by (simp_all add: keep_output_def pd_inv_def owed_def acked_def)

lemma pd_inv_submitted:
  assumes "pd_inv s" "room \<in> active_set s" "\<not> acked room s" "room \<notin># owed s"
    and "image_mset fst (transfer_ids (fst inner)) = add_mset room (owed s)"
  shows "pd_inv (s\<lparr>px_inner := inner\<rparr>)"
proof -
  have "owed (s\<lparr>px_inner := inner\<rparr>) = add_mset room (owed s)" using assms(5) by (simp add: owed_def)
  moreover have "count (owed s) room = 0" using assms(4) by (simp add: not_in_iff)
  ultimately show ?thesis using assms(1-4) unfolding pd_inv_def acked_def by auto
qed

lemma submit_active_inv:
  assumes "pd_inv s" "ts_room span \<in> active_set s" "\<not> acked (ts_room span) s" "ts_room span \<notin># owed s"
    and "submit_active net sha256 span layouts s = Some (r, s')"
  shows "pd_inv s' \<and> set_mset (owed s') \<subseteq> insert (ts_room span) (set_mset (owed s))"
proof -
  let ?room = "ts_room span"
  obtain q inner where sub: "executor_submit sha256 span (insert_layouts ?room layouts (fst (px_inner s)), snd (px_inner s)) = (q, inner)"
    by (cases "executor_submit sha256 span (insert_layouts ?room layouts (fst (px_inner s)), snd (px_inner s))")
  have ids: "image_mset fst (transfer_ids (fst inner)) = (case q of Ok _ \<Rightarrow> add_mset ?room (owed s) | _ \<Rightarrow> owed s)"
    using executor_submit_ids [OF sub] by (auto simp: owed_def split: outcome.splits)
  let ?s1 = "keep_output span (s\<lparr>px_inner := inner\<rparr>)"
  have s1: "pd_inv ?s1"
    using pd_inv_submitted [OF assms(1-4)] pd_inv_inner [OF assms(1)] ids by (cases q) simp_all
  have owed1: "owed ?s1 = (case q of Ok _ \<Rightarrow> add_mset ?room (owed s) | _ \<Rightarrow> owed s)" using ids by (simp add: owed_def [of "s\<lparr>px_inner := inner\<rparr>"])
  show ?thesis
  proof (cases q)
    case (Err e)
    let ?msg = "Some (show_transfer_error e)"
    have int: "pd_inv (interrupt net ?s1)" "owed (interrupt net ?s1) = owed s"
      using interrupt_inv [OF s1, of net] calm_owed owed1 Err by force+
    obtain q2 s2 where 2: "inner_cancel net ?room (interrupt net ?s1) = Some (q2, s2)"
      using assms(5) sub Err by (auto simp: submit_active_def Let_def dest!: bind_with_Some)
    have s2: "pd_inv s2" "owed s2 \<subseteq># owed s" "q2 = Ok () \<Longrightarrow> ?room \<notin># owed s2"
      using inner_cancel_inv [OF int(1) 2, of "()"] int(2) by auto
    obtain q3 s3 where 3: "notify_room net ?room ?msg s2 = (q3, s3)" by (cases "notify_room net ?room ?msg s2")
    have "s' = s2 \<or> q2 = Ok () \<and> s' = s3"
      using assms(5) sub Err 2 3 by (cases q2; cases q3) (auto simp: submit_active_def Let_def bind_with_def)
    moreover have "pd_inv s3 \<and> owed s3 = owed s2" if "q2 = Ok ()"
      using notify_room_inv [OF s2(1) s2(3) [OF that] 3] by (auto simp: owed_def)
    ultimately show ?thesis using s2(1) set_mset_mono [OF s2(2)] by auto
  qed (use assms(5) sub s1 owed1 in \<open>auto simp: submit_active_def Let_def\<close>)
qed

lemma activate_inv:
  assumes "pd_inv s"
  shows "pd_inv (activate room s) \<and> owed (activate room s) = owed s \<and> room \<in> active_set (activate room s) \<and>
    acked room' (activate room s) = acked room' s"
  using assms by (auto simp: pd_inv_def bootstrap_ok_def activate_def owed_def acked_def)

lemma pd_submit_inv:
  assumes "pd_inv s" "ts_room span \<notin># owed s" "pd_submit net sha256 now polls span s = Some (r, s')"
  shows "pd_inv s' \<and> set_mset (owed s') \<subseteq> insert (ts_room span) (set_mset (owed s))"
proof -
  let ?room = "ts_room span"
  let ?s0 = "serve net (RankPut now ?room (ts_rank span)) s"
  have s0: "pd_inv ?s0" "calm s ?s0" using serve_inv [OF assms(1)] by blast+
  have i0: "pd_inv (interrupt net ?s0)" "calm s (interrupt net ?s0)" using interrupt_inv [OF s0(1)] calm_trans [OF s0(2)] by blast+
  obtain q s1 where 1: "wait_layouts net polls ?room (interrupt net ?s0) = (q, s1)" by (cases "wait_layouts net polls ?room (interrupt net ?s0)")
  have s1: "pd_inv s1" "calm s s1" using wait_layouts_inv [OF i0(1) 1] calm_trans [OF i0(2)] by blast+
  let ?s2 = "interrupt net s1"
  have s2: "pd_inv ?s2" "calm s ?s2" using interrupt_inv [OF s1(1)] calm_trans [OF s1(2)] by blast+
  let ?s3 = "activate ?room ?s2"
  have s3: "pd_inv ?s3" "owed ?s3 = owed s" "?room \<in> active_set ?s3" "acked ?room ?s3 = acked ?room ?s2"
    using activate_inv [OF s2(1)] calm_owed [OF s2(2)] by auto
  let ?s4 = "interrupt net ?s3"
  have s4: "pd_inv ?s4" "?room \<in> active_set ?s4" "owed ?s4 = owed s"
    using interrupt_inv [OF s3(1), of net] s3(2,3) calm_owed by (force simp: calm_def)+
  show ?thesis
  proof (cases q)
    case (Ok layouts)
    have run: "(if ?room \<in> aborted_set ?s2
        then Some (Err (TransferRuntime ''decode aborted this transfer room before submission''), ?s2)
        else submit_active net sha256 span layouts ?s4) = Some (r, s')"
      using assms(3) 1 Ok by (simp add: pd_submit_def Let_def bind_with_def)
    show ?thesis
    proof (cases "?room \<in> aborted_set ?s2")
      case True
      then show ?thesis using run s2 calm_owed [OF s2(2)] by auto
    next
      case False
      then have "\<not> acked ?room ?s2" using s2(1) by (auto simp: pd_inv_def acked_def)
      then have "\<not> acked ?room ?s4" using interrupt_acked [OF s3(1,3)] s3(4) by blast
      then show ?thesis using submit_active_inv [OF s4(1,2)] s4(3) assms(2) run False by auto
    qed
  qed (use assms(3) 1 s1 calm_owed [OF s1(2)] in \<open>auto simp: pd_submit_def Let_def bind_with_def\<close>)
qed

section \<open>Runs\<close>

text \<open>
  The states the executor and the service reach together: calls of the executor, each with any arrivals in between, and messages
  and requests that arrive between calls.  A room is submitted while the wrapped executor owes nothing for it: the
  protocol knows one span per room, which holds when a prompt is prefilled in one batch.
\<close>

inductive pd_run :: "network \<Rightarrow> (u8 list \<Rightarrow> u8 list) \<Rightarrow> ('r, 'w) pd_executor \<Rightarrow> bool" for net sha256 where
  start: "ex_transfers (fst inner) = [] \<Longrightarrow> ex_events (fst inner) = [] \<Longrightarrow>
    pd_run net sha256 (pd_executor_new bootstrap_default inner arrivals)"
| arrive: "pd_run net sha256 s \<Longrightarrow> pd_run net sha256 (serve net a s)"
| schedule: "pd_run net sha256 s \<Longrightarrow> pd_run net sha256 (s\<lparr>px_arrivals := arrivals\<rparr>)"
| world: "pd_run net sha256 s \<Longrightarrow> pd_run net sha256 (s\<lparr>px_inner := (fst (px_inner s), w)\<rparr>)"
| register: "pd_run net sha256 s \<Longrightarrow> pd_register m s = (r, s') \<Longrightarrow> pd_run net sha256 s'"
| submit: "pd_run net sha256 s \<Longrightarrow> ts_room span \<notin># owed s \<Longrightarrow> pd_submit net sha256 now polls span s = Some (r, s') \<Longrightarrow>
    pd_run net sha256 s'"
| poll: "pd_run net sha256 s \<Longrightarrow> pd_poll net s = Some (p, s') \<Longrightarrow> pd_run net sha256 s'"
| cancel: "pd_run net sha256 s \<Longrightarrow> pd_cancel net room s = Some (r, s') \<Longrightarrow> pd_run net sha256 s'"
| shutdown: "pd_run net sha256 s \<Longrightarrow> pd_shutdown net s = Some (r, s') \<Longrightarrow> pd_run net sha256 s'"

lemma executor_register_ids: "executor_register m s = (r, s') \<Longrightarrow> transfer_ids (fst s') = transfer_ids (fst s)"
  by (auto simp: executor_register_def Let_def transfer_ids_def split: if_splits option.splits prod.splits sum.splits)

lemma pd_run_inv: "pd_run net sha256 s \<Longrightarrow> pd_inv s"
proof (induction rule: pd_run.induct)
  case (start inner arrivals)
  then show ?case
    by (simp add: pd_inv_def pd_executor_new_def bootstrap_ok_default owed_def transfer_ids_def)
next
  case (arrive s a)
  then show ?case using serve_inv by blast
next
  case (register s m r s')
  then obtain inner where inner: "executor_register m (px_inner s) = (r, inner)" "s' = s\<lparr>px_inner := inner\<rparr>"
    by (auto simp: pd_register_def split: prod.splits)
  show ?case
    unfolding inner(2) by (rule pd_inv_inner [OF register.IH]) (simp add: owed_def executor_register_ids [OF inner(1)])
next
  case (submit s span now polls r s')
  then show ?case using pd_submit_inv by blast
next
  case (poll s p s')
  then show ?case using pd_poll_inv by blast
next
  case (cancel s room r s')
  then show ?case using pd_cancel_inv by blast
next
  case (shutdown s r s')
  then show ?case using pd_shutdown_inv by blast
qed (simp_all add: pd_inv_def owed_def)

lemma room_layouts_no_panic: "room_layouts room table ts \<noteq> Panic"
  by (induction room table ts rule: room_layouts.induct) (auto simp: outcome_simps no_panic)

lemma wait_layouts_no_panic: "fst (wait_layouts net polls room s) \<noteq> Panic"
proof (induction polls arbitrary: s)
  case 0
  then show ?case by (auto simp: remote_kv_layouts_for_room_def outcome_simps no_panic room_layouts_no_panic)
next
  case (Suc polls)
  then show ?case
    by (auto simp: remote_kv_layouts_for_room_def outcome_simps no_panic room_layouts_no_panic split: outcome.splits)
qed

lemma pd_submit_aborted:
  assumes "pd_inv s" "ts_room span \<in> aborted_set s"
  shows "\<exists>e s'. pd_submit net sha256 now polls span s = Some (Err e, s') \<and> px_inner s' = px_inner s"
proof -
  let ?room = "ts_room span"
  let ?s0 = "serve net (RankPut now ?room (ts_rank span)) s"
  have s0: "pd_inv ?s0" "calm s ?s0" using serve_inv [OF assms(1)] by blast+
  have i0: "pd_inv (interrupt net ?s0)" "calm s (interrupt net ?s0)" using interrupt_inv [OF s0(1)] calm_trans [OF s0(2)] by blast+
  obtain q s1 where 1: "wait_layouts net polls ?room (interrupt net ?s0) = (q, s1)" by (cases "wait_layouts net polls ?room (interrupt net ?s0)")
  have s1: "pd_inv s1" "calm s s1" using wait_layouts_inv [OF i0(1) 1] calm_trans [OF i0(2)] by blast+
  have s2: "calm s (interrupt net s1)" using interrupt_inv [OF s1(1)] calm_trans [OF s1(2)] by blast
  have "q \<noteq> Panic" using wait_layouts_no_panic [of net polls ?room "interrupt net ?s0"] 1 by simp
  moreover have "?room \<in> aborted_set (interrupt net s1)" using s2 assms(2) by (auto simp: calm_def)
  ultimately show ?thesis
    using 1 s1(2) s2 by (cases q) (simp_all add: pd_submit_def Let_def bind_with_def calm_def)
qed

text \<open>
  (C19) The abort protocol of the bootstrap service, for every network and every interleaving of control messages with the executor: when
  a drain acknowledgement for a room is sent, no transfer of this room is in flight; none is in flight or due in any later
  state; and every later submission for the room is refused without touching the wrapped executor.  The decode
  instance that has the acknowledgement may therefore reuse the KV memory of the room.
\<close>

theorem acknowledged_room_stays_quiet:
  assumes "pd_run net sha256 s" "m \<in> set (px_sent s)" "acks room m"
  shows "room \<notin> set (se_in_flight m) \<and> room \<notin> set (in_flight s) \<and> room \<notin> executor_rooms (px_inner s) \<and>
    (\<forall>span. ts_room span = room \<longrightarrow>
       (\<exists>e s'. pd_submit net sha256 now polls span s = Some (Err e, s') \<and> px_inner s' = px_inner s))"
proof -
  have inv: "pd_inv s" by (rule pd_run_inv [OF assms(1)])
  then have "room \<notin> set (se_in_flight m)" "room \<in> aborted_set s" "room \<notin># owed s"
    using assms(2,3) by (auto simp: pd_inv_def)
  then show ?thesis
    using pd_submit_aborted [OF inv] in_flight_owed [of s] by (auto simp: executor_rooms_owed)
qed

text \<open>A room that decode aborts before anything was submitted for it.\<close>

definition abort_frame :: frame where
  "abort_frame = [str_bytes ''ABORT'', decimal 7, str_bytes ''h'', decimal 9]"

definition perfect_network :: network where
  "perfect_network sent endpoint frames = None"

definition sample_pd :: "(unit, unit) pd_executor" where
  "sample_pd = serve perfect_network (ControlMessage abort_frame) (pd_executor_new bootstrap_default (sample_executor, ()) [])"

lemma sample_pd_sent:
  "px_sent sample_pd = [\<lparr>se_endpoint = ''tcp://h:9'', se_frames = [abort_ack_frame 7], se_in_flight = [], se_error = None\<rparr>]"
proof -
  have h: "rust_string ''h''" by (rule rust_string_ascii) simp
  have nine: "show_usize 9 = ''9''" by code_simp
  have room: "parse_bootstrap_room abort_frame 1 n = Ok 7" for n by (rule parse_room_decimal) (simp_all add: abort_frame_def)
  have host: "ascii_field abort_frame 2 n = Ok ''h''" for n by (rule ascii_field_str) (simp_all add: abort_frame_def h)
  have port: "parse_u16 abort_frame 3 n = Ok 9" for n by (rule parse_u16_decimal) (simp_all add: abort_frame_def)
  have "serve_message abort_frame bootstrap_default = serve_abort abort_frame bootstrap_default"
    by (simp add: serve_message_def abort_frame_def)
  also have "\<dots> = (Ok (Some (''tcp://h:9'', abort_ack_frame 7)), bootstrap_default\<lparr>bt_aborted_rooms := [7]\<rparr>)"
    unfolding serve_abort_def room host port
    by (simp add: nine Let_def) (simp add: bootstrap_default_def room_insert_def insort_insert_key_def)
  finally show ?thesis
    by (simp add: sample_pd_def pd_executor_new_def send_frames_def perfect_network_def in_flight_def sample_executor_def
        with_target_resolver_def)
qed

theorem acknowledged_room_stays_quiet_witness:
  "7 \<notin> set (in_flight sample_pd) \<and>
   (\<exists>e s'. pd_submit perfect_network id 0 0 one_span sample_pd = Some (Err e, s') \<and> px_inner s' = px_inner sample_pd)"
proof -
  have run: "pd_run perfect_network id sample_pd"
    unfolding sample_pd_def
    by (intro pd_run.arrive pd_run.start) (simp_all add: sample_executor_def with_target_resolver_def)
  have room: "ts_room one_span = 7" by (simp add: ts_room_def one_span_def span_of_def)
  show ?thesis
    using acknowledged_room_stays_quiet [OF run, of "hd (px_sent sample_pd)" 7 0 0] room
    by (simp add: sample_pd_sent acks_def)
qed

section \<open>Limits of the protocol\<close>

text \<open>One message that is not UTF-8 ends the serving loop for good: later aborts are neither recorded nor acknowledged.\<close>

lemma malformed_message_stops_service: "\<not> px_serving (serve net (ControlMessage [[0xFF]]) s)"
proof -
  have "\<not> utf8_valid [0xFF]" by (subst utf8_valid.simps) (simp add: utf8_scan_def byte_at_def)
  then have "ascii_field [[0xFF]] 0 n = Err (Utf8Field n)" for n
    by (simp add: ascii_field_def field_def frame_get_def from_utf8_def ok_or_def)
  moreover have "str_bytes ''ABORT'' \<noteq> [0xFF]" by (simp add: str_bytes_def)
  ultimately show ?thesis
    by (simp add: serve_message_def ingest_bootstrap_frame_def)
qed

lemma stopped_service_ignores: "\<not> px_serving s \<Longrightarrow> serve net (ControlMessage fr) s = s"
  by simp

text \<open>
  A notification that cannot be sent makes the whole poll fail, and the events that the wrapped executor has already handed over are
  gone: no later poll can report them.
\<close>

lemma failed_notification_loses_events:
  assumes "pd_inv s" "active_set s \<inter> aborted_set s = {}" "executor_poll (px_inner s) = (Ok p, inner)"
    and "notify_events net (poll_events p) (interrupt net ((interrupt net s)\<lparr>px_inner := inner\<rparr>)) = (Err e, s')"
  shows "pd_poll net s = Some (Err e, s') \<and> (\<forall>ev \<in> set (poll_events p). ev_room ev \<notin> executor_rooms (px_inner s'))"
proof -
  have none: "filter (\<lambda>room. room \<in> aborted_set s) (bt_active_rooms (px_service s)) = []"
    using assms(2) by (auto simp: filter_empty_conv)
  have same: "px_inner (interrupt net s) = px_inner s" using interrupt_inv [OF assms(1), of net] by (simp add: calm_def)
  have run: "pd_poll net s = Some (Err e, s')"
    unfolding pd_poll_def Let_def none by (simp add: bind_with_def same assms(3,4))
  have int: "pd_inv (interrupt net s)" "owed (interrupt net s) = owed s" using interrupt_inv [OF assms(1), of net] calm_owed by blast+
  have ids: "owed s = image_mset fst (transfer_ids (fst inner)) + image_mset ev_room (mset (poll_events p))"
    using executor_poll_ids [OF assms(3)] by (simp add: owed_def multiset.map_comp comp_def)
  let ?s2 = "interrupt net ((interrupt net s)\<lparr>px_inner := inner\<rparr>)"
  have le: "image_mset fst (transfer_ids (fst inner)) \<subseteq># owed (interrupt net s)" using ids int(2) by simp
  have s2: "pd_inv ?s2" "px_inner ?s2 = inner"
    using interrupt_inv [OF pd_inv_inner [OF int(1) le], of net] by (auto simp: calm_def)
  have gone: "ev_room ev \<notin># image_mset fst (transfer_ids (fst inner))" if "ev \<in> set (poll_events p)" for ev
    using unique_disjoint [OF ids] that assms(1) by (simp add: pd_inv_def)
  have "px_inner s' = inner"
    using notify_events_inv [OF s2(1) _ assms(4)] gone s2(2) by (auto simp: owed_def)
  then show ?thesis using run gone by (auto simp: executor_rooms_def)
qed

text \<open>Without arrivals the environment does nothing.\<close>

lemma interrupt_idle: "px_arrivals s = [] \<Longrightarrow> interrupt net s = s"
  by (simp add: interrupt_def)

lemma send_frames_arrivals: "send_frames net endpoint frames s = (r, s') \<Longrightarrow> px_arrivals s' = px_arrivals s"
  by (auto simp: send_frames_def Let_def)

lemma notify_targets_idle:
  "px_arrivals s = [] \<Longrightarrow> notify_targets net room token state e targets s = (r, s') \<Longrightarrow> px_arrivals s' = []"
proof (induction targets arbitrary: s)
  case (Cons target targets)
  obtain host port aux where t: "target = (host, port, aux)" by (cases target)
  let ?frames = "completion_frames room (if e = None then token else None) state e aux"
  show ?case
  proof (cases "token = None")
    case False
    show ?thesis
    proof (cases ?frames)
      case (Ok frames)
      obtain q s1 where 1: "send_frames net (tcp_endpoint host port) frames s = (q, s1)"
        by (cases "send_frames net (tcp_endpoint host port) frames s")
      show ?thesis
        using Cons send_frames_arrivals [OF 1] interrupt_idle [of s1] False Ok 1 by (cases q) (auto simp: t)
    qed (use Cons.prems False in \<open>auto simp: t\<close>)
  qed (use Cons in \<open>auto simp: t\<close>)
qed simp

lemma notify_aborts_idle: "px_arrivals s = [] \<Longrightarrow> notify_aborts net room endpoints s = (r, s') \<Longrightarrow> px_arrivals s' = []"
proof (induction endpoints arbitrary: s)
  case (Cons endpoint endpoints)
  obtain q s1 where 1: "send_frames net endpoint [abort_ack_frame room] s = (q, s1)"
    by (cases "send_frames net endpoint [abort_ack_frame room] s")
  show ?case using Cons send_frames_arrivals [OF 1] interrupt_idle [of s1] 1 by (cases q) auto
qed simp

lemma notify_room_idle:
  assumes "px_arrivals s = []" "notify_room net room e s = (Ok u, s')"
  shows "px_arrivals s' = [] \<and> map_of (bt_transfer_rooms (px_service s')) room = None"
proof -
  let ?ends = "or_default room (bt_abort_targets (px_service s))"
  obtain q1 s1 where 1: "notify_targets net room (map_of (px_tokens s) room) (map_of (px_states s) room) e (room_targets room (px_service s)) s = (q1, s1)"
    by (cases "notify_targets net room (map_of (px_tokens s) room) (map_of (px_states s) room) e (room_targets room (px_service s)) s")
  obtain q2 s2 where 2: "notify_aborts net room ?ends s1 = (q2, s2)" by (cases "notify_aborts net room ?ends s1")
  have "s' = forget_room room s2"
    using assms(2) 1 2 interrupt_idle [OF assms(1)] by (cases q1; cases q2) (auto simp: notify_room_def Let_def)
  moreover have "px_arrivals s2 = []" using notify_aborts_idle [OF notify_targets_idle [OF assms(1) 1] 2] .
  ultimately show ?thesis by (simp add: forget_room_def delete_conv')
qed

lemma wait_layouts_missing:
  assumes "px_arrivals s = []" "map_of (bt_transfer_rooms (px_service s)) room = None"
  shows "wait_layouts net polls room s = (Err (TransferRuntime (show_remote_layout_error (MissingTransferRoom room))), s)"
proof -
  have "remote_kv_layouts_for_room room (px_service s) = Err (MissingTransferRoom room)"
    using assms(2) by (simp add: remote_kv_layouts_for_room_def ok_or_def)
  then show ?thesis using interrupt_idle [OF assms(1)] by (induction polls) simp_all
qed

text \<open>
  The end of a room's first span forgets the announcement of the room, so a second span for it (the next chunk of a chunked
  prefill) is refused unless the decode instance announces the room again.
\<close>

lemma finished_room_refuses_next_span:
  assumes "px_arrivals s = []" "notify_room net room e s = (Ok u, s')" "ts_room span = room"
  shows "\<exists>s''. pd_submit net sha256 now polls span s' =
    Some (Err (TransferRuntime (show_remote_layout_error (MissingTransferRoom room))), s'')"
proof -
  let ?s = "s'\<lparr>px_service := register_dp_rank now room (ts_rank span) (px_service s')\<rparr>"
  have "px_arrivals ?s = []" "map_of (bt_transfer_rooms (px_service ?s)) room = None"
    using notify_room_idle [OF assms(1,2)] by (simp_all add: register_dp_rank_def prune_expired_def Let_def)
  from wait_layouts_missing [OF this] interrupt_idle [OF this(1)] show ?thesis
    using assms(3) by (simp add: pd_submit_def Let_def bind_with_def)
qed

end
