(* ===== verification/Pd_Publisher.thy ===== *)
theory Pd_Publisher
  imports Pd_Bootstrap Transfer_Worker
begin

text \<open>
  The decode side of the bootstrap protocol (\<open>PdDecodeBootstrapPublisher\<close> of \<open>transfer/pd_bootstrap.rs\<close>): what it announces for a
  transfer span, how it looks up the prefill rank, how it receives the first token, and how it cancels a receive.  The
  HTTP connection, the sockets and the JSON parser are the record \<open>bootstrap_client\<close>; the frames that reach the inbox while the publisher
  waits are the list \<open>dp_arrivals\<close>, one entry per wake-up of the condition variable.
\<close>

section \<open>HTTP responses\<close>

fun split_once :: "string \<Rightarrow> string \<Rightarrow> (string \<times> string) option" where
  "split_once sep [] = (if sep = [] then Some ([], []) else None)"
| "split_once sep (c # s) =
     (if take (length sep) (c # s) = sep then Some ([], drop (length sep) (c # s))
      else map_option (\<lambda>(a, b). (c # a, b)) (split_once sep s))"

text \<open>\<open>str::lines().next()\<close>: up to the first line feed, without a carriage return before it; nothing for the empty string.\<close>

definition first_line :: "string \<Rightarrow> string option" where
  "first_line s =
     (if s = [] then None
      else let l = takeWhile (\<lambda>c. c \<noteq> CHR 0x0A) s
           in Some (if l \<noteq> s \<and> l \<noteq> [] \<and> last l = CHR 0x0D then butlast l else l))"

text \<open>The number of bytes of the Unicode white space character at the front, zero if there is none.\<close>

definition white_len :: "string \<Rightarrow> usize" where
  "white_len s =
     (case map of_char s :: nat list of
        a # b # c # _ \<Rightarrow>
          if a = 0x20 \<or> (0x09 \<le> a \<and> a \<le> 0x0D) then 1
          else if a = 0xC2 \<and> (b = 0x85 \<or> b = 0xA0) then 2
          else if (a, b, c) = (0xE1, 0x9A, 0x80) \<or> (a = 0xE2 \<and> b = 0x80 \<and> (0x80 \<le> c \<and> c \<le> 0x8A \<or> c = 0xA8 \<or> c = 0xA9 \<or> c = 0xAF)) \<or>
            (a, b, c) = (0xE2, 0x81, 0x9F) \<or> (a, b, c) = (0xE3, 0x80, 0x80) then 3
          else 0
      | [a, b] \<Rightarrow> if a = 0x20 \<or> (0x09 \<le> a \<and> a \<le> 0x0D) then 1 else if a = 0xC2 \<and> (b = 0x85 \<or> b = 0xA0) then 2 else 0
      | [a] \<Rightarrow> if a = 0x20 \<or> (0x09 \<le> a \<and> a \<le> 0x0D) then 1 else 0
      | [] \<Rightarrow> 0)"

text \<open>\<open>split_whitespace\<close> with the word read so far; empty words are skipped.\<close>

function words_from :: "string \<Rightarrow> string \<Rightarrow> string list" where
  "words_from w s =
     (if s = [] then (if w = [] then [] else [w])
      else if white_len s = 0 then words_from (w @ [hd s]) (tl s)
      else (if w = [] then [] else [w]) @ words_from [] (drop (white_len s) s))"
  by pat_completeness auto
termination by (relation "measure (\<lambda>(w, s). length s)") auto

definition split_whitespace :: "string \<Rightarrow> string list" where
  "split_whitespace s = words_from [] s"

definition nth_opt :: "'a list \<Rightarrow> usize \<Rightarrow> 'a option" where
  "nth_opt xs i = (if i < length xs then Some (xs ! i) else None)"

definition http_status :: "string \<Rightarrow> usize option" where
  "http_status headers =
     Option.bind (first_line headers) (\<lambda>line.
     Option.bind (nth_opt (split_whitespace line) 1) (parse_unsigned (2 ^ 16)))"

definition http_success_body :: "string \<Rightarrow> (decode_bootstrap_error, string) outcome" where
  "http_success_body response =
     and_then (ok_or InvalidHttpResponse (split_once [CHR 0x0D, CHR 0x0A, CHR 0x0D, CHR 0x0A] response)) (\<lambda>(headers, body).
     and_then (ok_or InvalidHttpResponse (http_status headers)) (\<lambda>status.
       if status \<noteq> 200 then Err (BootHttpStatus (of_nat status) body) else Ok body))"

section \<open>Client calls\<close>

record 'n bootstrap_client =
  bc_http_get :: "string \<Rightarrow> string \<Rightarrow> 'n \<Rightarrow> (decode_bootstrap_error + string) \<times> 'n"
  bc_parse_rank :: "string \<Rightarrow> decode_bootstrap_error + rank_info"
  bc_send_bootstrap :: "string \<Rightarrow> frame \<Rightarrow> 'n \<Rightarrow> (decode_bootstrap_error + unit) \<times> 'n"
  bc_send_control :: "string \<Rightarrow> frame list \<Rightarrow> 'n \<Rightarrow> (string + unit) \<times> 'n"

definition route_path :: "int \<Rightarrow> int \<Rightarrow> int \<Rightarrow> int \<Rightarrow> string" where
  "route_path dp cp tp pp =
     ''/route?prefill_dp_rank='' @ show_int dp @ ''&prefill_cp_rank='' @ show_int cp @ ''&target_tp_rank='' @ show_int tp @
     ''&target_pp_rank='' @ show_int pp"

definition query_route ::
  "'n bootstrap_client \<Rightarrow> string \<Rightarrow> string \<Rightarrow> 'n \<Rightarrow> (decode_bootstrap_error, rank_info) outcome \<times> 'n" where
  "query_route cl addr path n =
     and_with (lift_sum id (bc_http_get cl addr path n)) (\<lambda>response n.
     and_with (http_success_body response, n) (\<lambda>body n. (case bc_parse_rank cl body of Inl e \<Rightarrow> Err e | Inr r \<Rightarrow> Ok r, n)))"

definition query_prefill_route ::
  "'n bootstrap_client \<Rightarrow> string \<Rightarrow> int \<Rightarrow> int \<Rightarrow> int \<Rightarrow> int \<Rightarrow> 'n \<Rightarrow> (decode_bootstrap_error, rank_info) outcome \<times> 'n" where
  "query_prefill_route cl addr dp cp tp pp n = query_route cl addr (route_path dp cp tp pp) n"

definition query_control_target :: "'n bootstrap_client \<Rightarrow> string \<Rightarrow> 'n \<Rightarrow> (string, string) outcome \<times> 'n" where
  "query_control_target cl addr n =
     (case query_route cl addr (route_path 0 0 0 0) n of
        (r, n) \<Rightarrow> (map_err show_decode_bootstrap_error (and_then r (\<lambda>rank. Ok (zmq_endpoint rank))), n))"

definition publish_decode_metadata ::
  "'n bootstrap_client \<Rightarrow> string \<Rightarrow> int \<Rightarrow> int \<Rightarrow> int \<Rightarrow> kv_args_registration option \<Rightarrow> transfer_metadata \<Rightarrow> 'n \<Rightarrow> (string, unit) outcome \<times> 'n" where
  "publish_decode_metadata cl addr dp tp pp registration metadata n =
     (case and_with (query_prefill_route cl addr dp 0 tp pp n) (\<lambda>rank n.
           and_with (case registration of
               None \<Rightarrow> (Ok (), n)
             | Some r \<Rightarrow> lift_sum id (bc_send_bootstrap cl (zmq_endpoint rank) (kv_args_to_frame r) n)) (\<lambda>_ n.
           and_with (transfer_to_frame metadata, n) (\<lambda>fr n.
             lift_sum id (bc_send_bootstrap cl (zmq_endpoint rank) fr n)))) of
        (r, n) \<Rightarrow> (map_err show_decode_bootstrap_error r, n))"

section \<open>The publisher\<close>

record 'n decode_publisher =
  dp_endpoint :: string
  dp_dst_port :: "16 word"
  dp_session_id :: string
  dp_kv_cache_layout :: "kv_transfer_layout option"
  dp_target_tp_rank :: int
  dp_target_pp_rank :: int
  dp_dst_aux_index :: "int option"
  dp_required_dst_info_num :: usize
  dp_registered_endpoints :: "string list"
  dp_receiver :: "pd_inbox option"
  dp_receive_targets :: "(u64 \<times> string) list"
  dp_arrivals :: "frame list list"
  dp_net :: 'n

definition decode_publisher_new :: "string \<Rightarrow> 16 word \<Rightarrow> string \<Rightarrow> 'n \<Rightarrow> 'n decode_publisher" where
  "decode_publisher_new endpoint port session_id n =
     \<lparr>dp_endpoint = endpoint, dp_dst_port = port, dp_session_id = session_id, dp_kv_cache_layout = None, dp_target_tp_rank = 0,
      dp_target_pp_rank = 0, dp_dst_aux_index = Some 0, dp_required_dst_info_num = 1, dp_registered_endpoints = [],
      dp_receiver = None, dp_receive_targets = [], dp_arrivals = [], dp_net = n\<rparr>"

text \<open>\<open>with_receiver\<close> takes the port that the receiver's socket was bound to.\<close>

definition with_receiver :: "16 word \<Rightarrow> 'n decode_publisher \<Rightarrow> 'n decode_publisher" where
  "with_receiver port p = p\<lparr>dp_dst_port := port, dp_receiver := Some pd_inbox_default\<rparr>"

fun page_i32s :: "usize list \<Rightarrow> (string, int list) outcome" where
  "page_i32s [] = Ok []"
| "page_i32s (page # pages) =
     (if page < 2 ^ 31 then and_then (page_i32s pages) (\<lambda>is. Ok (int page # is))
      else Err (''physical KV page '' @ show_usize page @ '' cannot fit into metadata i32 index''))"

definition metadata_for_span :: "kv_span \<Rightarrow> 'n decode_publisher \<Rightarrow> (string, transfer_metadata) outcome" where
  "metadata_for_span span p =
     and_then (page_i32s (ts_page_indices span)) (\<lambda>indices.
       Ok \<lparr>md_room = ts_room span, md_endpoint = dp_endpoint p, md_dst_port = dp_dst_port p, md_session_id = dp_session_id p,
           md_dst_kv_indices = indices, md_dst_aux_index = dp_dst_aux_index p, md_dst_state_indices = [],
           md_required_dst_info_num = dp_required_dst_info_num p, md_decode_prefix_len = Some (ts_token_offset span), md_is_dummy = False\<rparr>)"

definition kv_args_registration_of :: "'n decode_publisher \<Rightarrow> kv_args_registration option" where
  "kv_args_registration_of p =
     Option.bind (dp_kv_cache_layout p) (\<lambda>layout.
       if source_base_addr layout = 0 then None
       else Some \<lparr>kr_endpoint = dp_endpoint p, kr_dst_port = dp_dst_port p, kr_session_id = dp_session_id p,
              kr_dst_kv_ptrs = [of_nat (source_base_addr layout)], kr_dst_aux_ptrs = [], kr_dst_state_data_ptrs = [],
              kr_dst_tp_rank = dp_target_tp_rank p, kr_dst_attn_tp_size = 1, kr_dst_kv_item_len = page_size_bytes layout,
              kr_dst_state_item_lens = [], kr_dst_state_dim_per_tensor = []\<rparr>)"

definition span_addr :: "kv_span \<Rightarrow> string" where
  "span_addr span = bootstrap_host (ts_params span) @ '':'' @ show_usize (unat (bootstrap_port (ts_params span)))"

definition registration_key :: "kv_span \<Rightarrow> 'n decode_publisher \<Rightarrow> string" where
  "registration_key span p =
     span_addr span @ ''|'' @ show_int (ts_rank span) @ ''|'' @ show_int (dp_target_tp_rank p) @ ''|'' @
     show_int (dp_target_pp_rank p) @ ''|'' @ dp_session_id p"

text \<open>The message of \<open>Utf8Error\<close>: where the ill-formed sequence starts, and its length unless the input ends within it.\<close>

function utf8_error_from :: "usize \<Rightarrow> u8 list \<Rightarrow> string" where
  "utf8_error_from index bs =
     (if bs = [] then []
      else if fst (utf8_scan bs) then utf8_error_from (index + snd (utf8_scan bs)) (drop (snd (utf8_scan bs)) bs)
      else if snd (utf8_scan bs) \<ge> length bs \<and> 0xC2 \<le> hd bs \<and> hd bs \<le> 0xF4
      then ''incomplete utf-8 byte sequence from index '' @ show_usize index
      else ''invalid utf-8 sequence of '' @ show_usize (snd (utf8_scan bs)) @ '' bytes from index '' @ show_usize index)"
  by pat_completeness auto
termination by (relation "measure (\<lambda>(i, bs). length bs)") (simp_all add: utf8_scan_pos)

declare utf8_error_from.simps [simp del] words_from.simps [simp del]

fun control_message :: "control_error \<Rightarrow> string" where
  "control_message (ControlText m) = m"
| "control_message (ControlUtf8 bs) = utf8_error_from 0 bs"

definition register_receive :: "u64 \<Rightarrow> 'n decode_publisher \<Rightarrow> (string, unit) outcome \<times> 'n decode_publisher" where
  "register_receive room p =
     (case dp_receiver p of
        None \<Rightarrow> (Ok (), p)
      | Some inbox \<Rightarrow> (case register_room room inbox of (r, inbox) \<Rightarrow> (map_err control_message r, p\<lparr>dp_receiver := Some inbox\<rparr>)))"

definition publish_span :: "'n bootstrap_client \<Rightarrow> kv_span \<Rightarrow> 'n decode_publisher \<Rightarrow> (string, unit) outcome \<times> 'n decode_publisher" where
  "publish_span cl span p =
     and_with (metadata_for_span span p, p) (\<lambda>metadata p.
       let key = registration_key span p;
           registration = (if key \<in> set (dp_registered_endpoints p) then None else kv_args_registration_of p)
       in and_with (register_receive (ts_room span) p) (\<lambda>_ p.
            let p = p\<lparr>dp_receive_targets := btree_insert (ts_room span) (span_addr span) (dp_receive_targets p)\<rparr>
            in case publish_decode_metadata cl (span_addr span) (ts_rank span) (dp_target_tp_rank p) (dp_target_pp_rank p)
                     registration metadata (dp_net p) of
                 (r, n) \<Rightarrow> and_with (r, p\<lparr>dp_net := n\<rparr>) (\<lambda>_ p.
                   (Ok (), if registration \<noteq> None then p\<lparr>dp_registered_endpoints := insort_insert key (dp_registered_endpoints p)\<rparr> else p))))"

fun publish_decode_bootstrap_metadata ::
  "'n bootstrap_client \<Rightarrow> kv_span list \<Rightarrow> 'n decode_publisher \<Rightarrow> (string, usize) outcome \<times> 'n decode_publisher" where
  "publish_decode_bootstrap_metadata cl [] p = (Ok 0, p)"
| "publish_decode_bootstrap_metadata cl (span # spans) p =
     and_with (publish_span cl span p) (\<lambda>_ p.
     and_with (publish_decode_bootstrap_metadata cl spans p) (\<lambda>n p. (Ok (n + 1), p)))"

section \<open>Receiving and cancelling\<close>

fun await_room ::
  "u64 \<Rightarrow> bool \<Rightarrow> pd_inbox \<Rightarrow> frame list list \<Rightarrow> (control_error, u32 option \<times> u8 list option) outcome \<times> pd_inbox \<times> frame list list" where
  "await_room room cancel st [] = (wait_room room cancel [st], st, [])"
| "await_room room cancel st (arrived # rest) =
     (case wait_check room cancel st of
        Some r \<Rightarrow> (r, st, arrived # rest)
      | None \<Rightarrow> await_room room cancel (fold receive_message arrived st) rest)"

definition drop_receive :: "u64 \<Rightarrow> pd_inbox \<Rightarrow> frame list list \<Rightarrow> 'n decode_publisher \<Rightarrow> 'n decode_publisher" where
  "drop_receive room inbox arrivals p =
     p\<lparr>dp_receiver := Some (remove_room room inbox), dp_arrivals := arrivals,
       dp_receive_targets := AList.delete room (dp_receive_targets p)\<rparr>"

definition receive_prefill_token_and_state ::
  "u64 \<Rightarrow> 'n decode_publisher \<Rightarrow> (string, u32 \<times> u8 list option) outcome \<times> 'n decode_publisher" where
  "receive_prefill_token_and_state room p =
     (case dp_receiver p of
        None \<Rightarrow> (Err ''decode receiver was not started'', p)
      | Some inbox \<Rightarrow>
          (case await_room room False inbox (dp_arrivals p) of
             (r, inbox, arrivals) \<Rightarrow>
               let p' = p\<lparr>dp_receiver := Some inbox, dp_arrivals := arrivals\<rparr>
               in and_with (map_err control_message r, p') (\<lambda>(token, state) p'.
                    (case token of
                       None \<Rightarrow> (Err (''room '' @ show_room room @ '' completed without a first token''), p')
                     | Some t \<Rightarrow> (Ok (t, state), drop_receive room inbox arrivals p')))))"

definition receive_abort_frame :: "u64 \<Rightarrow> 'n decode_publisher \<Rightarrow> frame" where
  "receive_abort_frame room p = [str_bytes ''ABORT'', str_bytes (show_room room), str_bytes (dp_endpoint p), decimal (unat (dp_dst_port p))]"

definition publisher_cancel_receive :: "'n bootstrap_client \<Rightarrow> u64 \<Rightarrow> 'n decode_publisher \<Rightarrow> (string, unit) outcome \<times> 'n decode_publisher" where
  "publisher_cancel_receive cl room p =
     (case map_of (dp_receive_targets p) room of
        None \<Rightarrow> (Ok (), p)
      | Some addr \<Rightarrow>
          (case dp_receiver p of
             None \<Rightarrow> (Err ''decode receiver was not started'', p)
           | Some inbox \<Rightarrow>
               if is_drained room inbox then (Ok (), drop_receive room inbox (dp_arrivals p) p)
               else (case query_control_target cl addr (dp_net p) of
                   (r, n) \<Rightarrow> and_with (r, p\<lparr>dp_net := n\<rparr>) (\<lambda>target p.
                     case bc_send_control cl target [receive_abort_frame room p] (dp_net p) of
                       (r, n) \<Rightarrow> and_with (lift_sum id (r, p\<lparr>dp_net := n\<rparr>)) (\<lambda>_ p.
                         case await_room room True inbox (dp_arrivals p) of
                           (r, inbox, arrivals) \<Rightarrow>
                             and_with (map_err control_message r, p\<lparr>dp_receiver := Some inbox, dp_arrivals := arrivals\<rparr>) (\<lambda>_ p.
                               (Ok (), drop_receive room inbox arrivals p)))))))"

text \<open>\<open>Drop\<close> cancels every receive and aborts the process (\<open>Panic\<close>) when one cannot be confirmed.\<close>

fun drop_rooms :: "'n bootstrap_client \<Rightarrow> u64 list \<Rightarrow> 'n decode_publisher \<Rightarrow> (string, unit) outcome \<times> 'n decode_publisher" where
  "drop_rooms cl [] p = (Ok (), p)"
| "drop_rooms cl (room # rooms) p =
     (if dp_receiver p = None then drop_rooms cl rooms p
      else case publisher_cancel_receive cl room p of
        (Ok _, p) \<Rightarrow> drop_rooms cl rooms p
      | (_, p) \<Rightarrow> (Panic, p))"

definition drop_publisher :: "'n bootstrap_client \<Rightarrow> 'n decode_publisher \<Rightarrow> (string, unit) outcome \<times> 'n decode_publisher" where
  "drop_publisher cl p = drop_rooms cl (map fst (dp_receive_targets p)) p"

text \<open>The publisher as the model worker of \<open>Transfer_Worker\<close> sees it.\<close>

definition outcome_sum :: "('e, 'a) outcome \<Rightarrow> 'e \<Rightarrow> 'e + 'a" where
  "outcome_sum r e = (case r of Ok a \<Rightarrow> Inr a | Err m \<Rightarrow> Inl m | Panic \<Rightarrow> Inl e)"

definition decode_publisher_ops :: "'n bootstrap_client \<Rightarrow> 'n decode_publisher bootstrap_publisher" where
  "decode_publisher_ops cl =
     \<lparr>publish_metadata = \<lambda>spans p. (case publish_decode_bootstrap_metadata cl spans p of (r, p) \<Rightarrow> (outcome_sum (and_then r (\<lambda>_. Ok ())) [], p)),
      receive_token_and_state = \<lambda>room p. (case receive_prefill_token_and_state room p of (r, p) \<Rightarrow> (outcome_sum r [], p)),
      cancel_receive = \<lambda>room p. (case publisher_cancel_receive cl room p of (r, p) \<Rightarrow> (outcome_sum r [], p))\<rparr>"

section \<open>What is announced arrives\<close>

lemma page_i32s_Ok: "page_i32s pages = Ok is \<Longrightarrow> is = map int pages \<and> (\<forall>page \<in> set pages. page < 2 ^ 31)"
  by (induction pages arbitrary: "is") (auto simp: outcome_simps split: if_splits)

definition publisher_ok :: "'n decode_publisher \<Rightarrow> bool" where
  "publisher_ok p \<longleftrightarrow> rust_string (dp_endpoint p) \<and> rust_string (dp_session_id p) \<and> i32_range (dp_target_tp_rank p) \<and>
     (\<forall>a \<in> set_option (dp_dst_aux_index p). i32_range a) \<and> dp_required_dst_info_num p < 2 ^ 64 \<and>
     (\<forall>lay \<in> set_option (dp_kv_cache_layout p). source_base_addr lay < 2 ^ 64 \<and> page_size_bytes lay < 2 ^ 64)"

lemma published_registration_wf: "publisher_ok p \<Longrightarrow> kv_args_registration_of p = Some r \<Longrightarrow> wf_registration r"
  by (auto simp: kv_args_registration_of_def publisher_ok_def wf_registration_def fits_u32_def bind_eq_Some_conv split: if_splits)

lemma published_metadata_wf:
  assumes "publisher_ok p" "metadata_for_span span p = Ok m" "unat (ts_room span) < 2 ^ 63" "ts_token_offset span < 2 ^ 64"
  shows "wf_metadata m"
proof -
  obtain indices where "page_i32s (ts_page_indices span) = Ok indices" "md_dst_kv_indices m = indices"
    using assms(2) by (auto simp: metadata_for_span_def outcome_simps)
  then have "\<forall>i \<in> set (md_dst_kv_indices m). i32_range i" using page_i32s_Ok by (fastforce simp: i32_range_def)
  then show ?thesis
    using assms by (auto simp: metadata_for_span_def outcome_simps publisher_ok_def wf_metadata_def fits_u32_def)
qed

lemma published_layout:
  assumes "bootstrap_ok st" "map_of (bt_transfer_rooms st) (ts_room span) = None" "publisher_ok p" "dp_kv_cache_layout p = Some lay"
    and "unat (ts_room span) < 2 ^ 63" "ts_token_offset span < 2 ^ 64"
    and "metadata_for_span span p = Ok m" "transfer_to_frame m = Ok announcement" "kv_args_registration_of p = Some r"
    and "frames = [kv_args_to_frame r, announcement] \<or> frames = [announcement, kv_args_to_frame r]"
  shows "remote_kv_layouts_for_room (ts_room span) (fold (\<lambda>fr st. snd (ingest_bootstrap_frame fr st)) frames st) =
    Ok [(dp_session_id p, \<lparr>dst_kv_ptrs = [source_base_addr lay], dst_kv_indices = map int (ts_page_indices span),
                           dst_kv_item_len = page_size_bytes lay\<rparr>)]"
proof -
  have r: "kr_session_id r = dp_session_id p" "kr_dst_kv_ptrs r = [of_nat (source_base_addr lay)]" "kr_dst_kv_item_len r = page_size_bytes lay"
    using assms(4,9) by (auto simp: kv_args_registration_of_def split: if_splits)
  have m: "md_room m = ts_room span" "md_session_id m = dp_session_id p" "\<not> md_is_dummy m" "md_dst_kv_indices m = map int (ts_page_indices span)"
    using assms(7) page_i32s_Ok by (auto simp: metadata_for_span_def outcome_simps)
  have base: "unat (of_nat (source_base_addr lay) :: u64) = source_base_addr lay"
    using assms(3,4) by (simp add: publisher_ok_def unat_of_nat_le)
  show ?thesis
    using announced_layout_used [OF assms(1) _ published_registration_wf [OF assms(3,9)]
        published_metadata_wf [OF assms(3,7,5,6)] m(3) _ assms(8,10)] assms(2) r m base by simp
qed


definition sample_publisher :: "unit decode_publisher" where
  "sample_publisher = (decode_publisher_new ''h'' 9 ''s'' ())\<lparr>dp_kv_cache_layout :=
     Some \<lparr>source_base_addr = 4096, page_size_bytes = 10, target_base_offset = 0\<rparr>\<rparr>"

definition wanted_span :: kv_span where
  "wanted_span = sample_span\<lparr>ts_page_indices := [1, 3]\<rparr>"

definition published_remote :: kv_remote_layout where
  "published_remote = \<lparr>dst_kv_ptrs = [4096], dst_kv_indices = [1, 3], dst_kv_item_len = 10\<rparr>"

lemma sample_publisher_ok: "publisher_ok sample_publisher"
proof -
  have "rust_string ''h''" "rust_string ''s''" by (rule rust_string_ascii; simp)+
  then show ?thesis by (simp add: publisher_ok_def sample_publisher_def decode_publisher_new_def i32_range_def)
qed

lemma published_requests:
  "build_remote_kv_transfer_requests sample_span sample_layout 1 published_remote =
    Ok (item_writes sample_layout 1 published_remote 4 1 @ item_writes sample_layout 1 published_remote 2 3)"
  by (simp add: build_remote_kv_transfer_requests_def sample_span_fields div_ceil_def sample_layout_def published_remote_def
      checked_mul_def checked_add_def item_writes_def item_write_def)


section \<open>Ending a receive\<close>

lemma receive_keeps_justified:
  assumes "room_entry st room = Some r" "justified room msgs r"
  shows "\<exists>r'. room_entry (fold receive_message fs st) room = Some r' \<and> justified room (msgs @ fs) r'"
  using assms
proof (induction fs arbitrary: st r msgs)
  case (Cons f fs)
  obtain r1 where r1: "room_entry (receive_message f st) room = Some r1" "says room f r r1"
    using receive_says [of room f st] Cons.prems(1) by (auto simp: option_rel_Some1)
  have "justified room (msgs @ [f]) r" by (rule justified_mono [OF Cons.prems(2)]) auto
  then have "justified room (msgs @ [f]) r1" using justified_says r1(2) by simp
  from Cons.IH [OF r1(1) this] show ?case by simp
qed auto

lemma await_room_justified:
  assumes "room_entry st room = Some r" "justified room msgs r" "await_room room cancel st arrivals = (Ok (token, state), st', rest)"
  shows "\<exists>r'. token = pr_token r' \<and> state = pr_recurrent_state r' \<and> justified room (msgs @ concat arrivals) r' \<and>
    (if cancel then room_drained r' \<or> pr_terminal r' = Some (Inr ()) else pr_terminal r' = Some (Inr ()))"
  using assms
proof (induction arrivals arbitrary: st r msgs)
  case Nil
  then show ?case using wait_room_Ok [of room cancel "[st]"] wait_check_Ok [of room cancel st token state] by auto
next
  case (Cons fs arrivals)
  show ?case
  proof (cases "wait_check room cancel st")
    case None
    obtain r1 where r1: "room_entry (fold receive_message fs st) room = Some r1" "justified room (msgs @ fs) r1"
      using receive_keeps_justified [OF Cons.prems(1,2)] by blast
    from Cons.IH [OF r1] None Cons.prems(3) show ?thesis by simp
  next
    case (Some q)
    then have "wait_check room cancel st = Some (Ok (token, state))" using Cons.prems(3) by simp
    from wait_check_Ok [OF this] Cons.prems(1) justified_mono [OF Cons.prems(2), of "msgs @ concat (fs # arrivals)"]
    show ?thesis by auto
  qed
qed

definition peer_stopped :: "u64 \<Rightarrow> frame list \<Rightarrow> bool" where
  "peer_stopped room msgs \<longleftrightarrow> (\<exists>f \<in> set msgs. ack_for room f \<or> status_for room 4 f \<or> status_for room 0 f)"

lemma justified_drained: "justified room msgs r \<Longrightarrow> room_drained r \<or> pr_terminal r = Some (Inr ()) \<Longrightarrow> peer_stopped room msgs"
proof -
  assume j: "justified room msgs r" and d: "room_drained r \<or> pr_terminal r = Some (Inr ())"
  have "pr_abort_ack r \<or> pr_terminal r = Some (Inr ()) \<or> (\<exists>e. pr_terminal r = Some (Inl e))"
    using d by (cases "pr_terminal r"; cases "the (pr_terminal r)") (auto simp: room_drained_def)
  then show ?thesis using j unfolding justified_def peer_stopped_def by blast
qed

text \<open>
  A receive ends well only on word of the peer: \<open>msgs\<close> are the frames that had reached the inbox when the call began.
\<close>

lemma cancel_receive_stopped:
  assumes "dp_receiver p = Some inbox" "room_entry inbox room = Some r" "justified room msgs r"
    and "map_of (dp_receive_targets p) room = Some addr" "publisher_cancel_receive cl room p = (Ok u, p')"
  shows "peer_stopped room (msgs @ concat (dp_arrivals p)) \<and> map_of (dp_receive_targets p') room = None"
proof (cases "is_drained room inbox")
  case True
  then have "room_drained r" using assms(2) by (simp add: is_drained_def room_entry_def)
  then have "peer_stopped room msgs" using justified_drained [OF assms(3)] by blast
  moreover have "p' = drop_receive room inbox (dp_arrivals p) p" using assms True by (simp add: publisher_cancel_receive_def)
  ultimately show ?thesis by (auto simp: peer_stopped_def drop_receive_def delete_conv')
next
  case False
  obtain q1 n1 where 1: "query_control_target cl addr (dp_net p) = (q1, n1)" by (cases "query_control_target cl addr (dp_net p)")
  then obtain target where q1: "q1 = Ok target" using assms(1,4,5) False by (cases q1) (auto simp: publisher_cancel_receive_def)
  let ?f = "receive_abort_frame room (p\<lparr>dp_net := n1\<rparr>)"
  obtain q2 n2 where 2: "bc_send_control cl target [?f] n1 = (q2, n2)" by (cases "bc_send_control cl target [?f] n1")
  then have q2: "q2 = Inr ()" using assms(1,4,5) False 1 q1 by (cases q2) (auto simp: publisher_cancel_receive_def)
  obtain q3 inbox' rest where 3: "await_room room True inbox (dp_arrivals p) = (q3, inbox', rest)"
    by (cases "await_room room True inbox (dp_arrivals p)")
  then have "\<exists>tok sta. q3 = Ok (tok, sta) \<and> map_of (dp_receive_targets p') room = None"
    using assms(1,4,5) False 1 q1 2 q2 by (cases q3) (auto simp: publisher_cancel_receive_def drop_receive_def delete_conv')
  then obtain tok sta where w: "await_room room True inbox (dp_arrivals p) = (Ok (tok, sta), inbox', rest)"
    and p': "map_of (dp_receive_targets p') room = None" using 3 by blast
  then show ?thesis using await_room_justified [OF assms(2,3) w] justified_drained by force
qed

lemma receive_stopped:
  assumes "dp_receiver p = Some inbox" "room_entry inbox room = Some r" "justified room msgs r"
    and "receive_prefill_token_and_state room p = (Ok (t, sta), p')"
  shows "\<exists>f \<in> set (msgs @ concat (dp_arrivals p)). status_for room 4 f"
proof -
  obtain q inbox' rest where 1: "await_room room False inbox (dp_arrivals p) = (q, inbox', rest)"
    by (cases "await_room room False inbox (dp_arrivals p)")
  then have "q = Ok (Some t, sta)"
    using assms(1,4) by (cases q) (auto simp: receive_prefill_token_and_state_def Let_def split: option.splits)
  with 1 have w: "await_room room False inbox (dp_arrivals p) = (Ok (Some t, sta), inbox', rest)" by simp
  then show ?thesis using await_room_justified [OF assms(2,3) w] by (auto simp: justified_def)
qed

end
