(* ===== verification/Pd_Protocol.thy ===== *)
theory Pd_Protocol
  imports Pd_Executor Pd_Publisher
begin

text \<open>
  Both ends of the prefill/decode protocol together: the publisher of a decode instance (\<open>Pd_Publisher\<close>) against a run of the
  executor and the service of a prefill instance (\<open>Pd_Executor\<close>), joined by a network that may delay, reorder, repeat or lose frames
  but does not invent them.
\<close>

lemma number_at_show:
  "frame_get f i = Some (str_bytes (show_usize n)) \<Longrightarrow> n < limit \<Longrightarrow> number_at limit f i = Some n"
  by (simp add: number_at_def parse_unsigned_show)

lemma number_at_room: "frame_get f i = Some (str_bytes (show_room room)) \<Longrightarrow> number_at (2 ^ 64) f i = Some (unat room)"
  using unat_bounds(2) [of room] number_at_show [of f i "unat room" "2 ^ 64"] by (simp add: show_room_def)

lemma number_at_word: "frame_get f i = Some (str_bytes s) \<Longrightarrow> s = CHR ''A'' # cs \<Longrightarrow> number_at limit f i = None"
  by (auto simp: number_at_def from_utf8_def parse_unsigned_def digit_value_def)

lemma aux_frames_say_nothing:
  "\<not> ack_for room (token_frame room' t i)" "\<not> status_for room n (token_frame room' t i)"
  "\<not> ack_for room (state_frame room' b i)" "\<not> status_for room n (state_frame room' b i)"
proof -
  have "number_at (2 ^ 64) (token_frame room' t i) 0 = None" "number_at (2 ^ 64) (state_frame room' b i) 0 = None"
    by (rule number_at_word [where s = "''AUX_DATA''"]; simp add: frame_get_def token_frame_def state_frame_def)+
  then show "\<not> status_for room n (token_frame room' t i)" "\<not> status_for room n (state_frame room' b i)"
    unfolding status_for_def by simp_all
  show "\<not> ack_for room (token_frame room' t i)" "\<not> ack_for room (state_frame room' b i)"
    using headers(3) by (simp_all add: ack_for_def frame_get_def token_frame_def state_frame_def)
qed

lemma status_frame_room: "status_for room n (status_frame room' e) \<Longrightarrow> room = room'"
proof -
  have "number_at (2 ^ 64) (status_frame room' e) 0 = Some (unat room')"
    by (rule number_at_room) (simp add: frame_get_def status_frame_def)
  then show "status_for room n (status_frame room' e) \<Longrightarrow> room = room'" unfolding status_for_def by simp
qed

lemma ack_frame_room: "ack_for room (abort_ack_frame room') \<Longrightarrow> room = room'"
proof -
  have "number_at (2 ^ 64) (abort_ack_frame room') 1 = Some (unat room')"
    by (rule number_at_room) (simp add: frame_get_def abort_ack_frame_def)
  then show "ack_for room (abort_ack_frame room') \<Longrightarrow> room = room'" unfolding ack_for_def by simp
qed

lemma wrong_kinds: "\<not> ack_for room (status_frame room' e)" "\<not> status_for room n (abort_ack_frame room')"
proof -
  show "\<not> ack_for room (status_frame room' e)" using headers(2) by (simp add: ack_for_def frame_get_def status_frame_def)
  have "number_at (2 ^ 64) (abort_ack_frame room') 0 = None"
    by (rule number_at_word [where s = "''ABORT_ACK''"]) (simp_all add: frame_get_def abort_ack_frame_def)
  then show "\<not> status_for room n (abort_ack_frame room')" unfolding status_for_def by simp
qed

lemma protocol_frame_says:
  assumes "protocol_frame busy f" "ack_for room f \<or> status_for room n f"
  shows "f = abort_ack_frame room \<or> (\<exists>e. f = status_frame room e \<and> room \<notin> busy)"
  using assms
  by (auto simp: protocol_frame_def aux_frames_say_nothing wrong_kinds dest: status_frame_room ack_frame_room)

definition delivered_by :: "('r, 'w) pd_executor \<Rightarrow> frame list \<Rightarrow> bool" where
  "delivered_by s msgs \<longleftrightarrow> (\<forall>f \<in> set msgs. \<exists>m \<in> set (px_sent s). f \<in> set (se_frames m))"

lemma stopped_means_quiet:
  assumes "pd_inv s" "peer_stopped room msgs" "delivered_by s msgs"
  shows "\<exists>m \<in> set (px_sent s). (acks room m \<or> (\<exists>e. status_frame room e \<in> set (se_frames m))) \<and> room \<notin> set (se_in_flight m)"
proof -
  obtain f n where f: "f \<in> set msgs" "ack_for room f \<or> status_for room n f" using assms(2) by (auto simp: peer_stopped_def)
  then obtain m where m: "m \<in> set (px_sent s)" "f \<in> set (se_frames m)" using assms(3) by (auto simp: delivered_by_def)
  then have "protocol_frame (set (se_in_flight m)) f" using assms(1) by (auto simp: pd_inv_def)
  then consider "f = abort_ack_frame room" | e where "f = status_frame room e" "room \<notin> set (se_in_flight m)"
    using protocol_frame_says [OF _ f(2)] by blast
  then show ?thesis
  proof cases
    case 1
    then have "acks room m" using m(2) by (simp add: acks_def)
    moreover from this have "room \<notin> set (se_in_flight m)" using assms(1) m(1) by (auto simp: pd_inv_def)
    ultimately show ?thesis using m(1) by blast
  qed (use m in blast)
qed


text \<open>The decode side of the run of \<open>sample_pd\<close>: its abort is answered by the acknowledgement.\<close>

definition sample_client :: "unit bootstrap_client" where
  "sample_client = \<lparr>bc_http_get = \<lambda>addr path n. (Inr (''A 200'' @ [CHR 0x0D, CHR 0x0A, CHR 0x0D, CHR 0x0A] @ ''x''), n),
     bc_parse_rank = \<lambda>body. Inr \<lparr>rank_ip = ''h'', rank_port = 9\<rparr>, bc_send_bootstrap = \<lambda>e f n. (Inr (), n),
     bc_send_control = \<lambda>e fs n. (Inr (), n)\<rparr>"

lemma sample_body: "http_success_body (''A 200'' @ [CHR 0x0D, CHR 0x0A, CHR 0x0D, CHR 0x0A] @ ''x'') = Ok ''x''"
proof -
  have "split_whitespace ''A 200'' = [''A'', ''200'']"
    by (simp add: split_whitespace_def words_from.simps white_len_def)
  moreover have "parse_unsigned (2 ^ 16) ''200'' = Some 200"
    by (simp add: parse_unsigned_def digit_value_def)
  ultimately show ?thesis
    by (simp add: http_success_body_def http_status_def first_line_def nth_opt_def ok_or_def Let_def)
qed

definition cancelling :: "unit decode_publisher" where
  "cancelling = sample_publisher\<lparr>dp_receiver := Some waiting_inbox, dp_receive_targets := [(7, ''h:1'')], dp_arrivals := [[abort_ack_frame 7]]\<rparr>"

lemma sample_cancelled: "\<exists>p'. publisher_cancel_receive sample_client 7 cancelling = (Ok (), p')"
proof -
  have start: "wait_check 7 True waiting_inbox = None" "\<not> is_drained 7 waiting_inbox"
    by (simp_all add: wait_check_def waiting_inbox_def pd_room_default_def room_drained_def is_drained_def)
  have "receive_message (abort_ack_frame 7) waiting_inbox = waiting_inbox\<lparr>ib_rooms := [(7, pd_room_default\<lparr>pr_abort_ack := True\<rparr>)]\<rparr>"
    by (simp add: receive_abort_ack map_room_def waiting_inbox_def)
  then have "await_room 7 True waiting_inbox [[abort_ack_frame 7]] =
      (Ok (None, None), waiting_inbox\<lparr>ib_rooms := [(7, pd_room_default\<lparr>pr_abort_ack := True\<rparr>)]\<rparr>, [])"
    by (simp add: start) (simp add: wait_check_def waiting_inbox_def pd_room_default_def room_drained_def)
  then show ?thesis
    using sample_body start
    by (simp add: publisher_cancel_receive_def cancelling_def query_control_target_def query_route_def sample_client_def
        del: await_room.simps)
qed


end
