(* ===== verification/Safetensors.thy ===== *)
theory Safetensors
  imports Ordered_Map Le_Bytes
begin

text \<open>
  The weight files of a model, \<open>crates/sglang-srt/src/model_artifacts.rs\<close>: the header of a \<open>safetensors\<close> file, the
  byte span of a tensor, reading it, its checksum, and the manifest that says which file holds which tensor.

  The file system is an argument: \<open>files path\<close> is what \<open>File::open\<close> gives, an error message or the bytes of the
  file.  The JSON parser (package \<open>serde_json\<close>) is an argument too; the type of its values is the one it documents.
\<close>

section \<open>JSON values and errors\<close>

datatype json_number = PosInt u64 | NegInt int | FloatNumber u64

datatype json =
    JNull | JBool bool | JNumber json_number | JString string | JArray "json list" | JObject "(string \<times> json) list"

fun as_u64 :: "json \<Rightarrow> u64 option" where
  "as_u64 (JNumber (PosInt n)) = Some n"
| "as_u64 _ = None"

fun as_str :: "json \<Rightarrow> string option" where
  "as_str (JString s) = Some s"
| "as_str _ = None"

fun as_array :: "json \<Rightarrow> json list option" where
  "as_array (JArray xs) = Some xs"
| "as_array _ = None"

fun as_object :: "json \<Rightarrow> (string \<times> json) list option" where
  "as_object (JObject kvs) = Some kvs"
| "as_object _ = None"

datatype artifact_error =
    ModelPathNotLocalDirectory string
  | ReadModelConfig string string
  | InvalidModelConfig string string
  | ReadSafetensorsIndex string string
  | InvalidSafetensorsIndex string string
  | MissingWeightShard string
  | NoSafetensorsWeights string
  | ReadModelDirectory string string
  | ReadWeightShard string string
  | InvalidSafetensorsHeader string string
  | InvalidSafetensorsData string string

section \<open>Files\<close>

type_synonym file_system = "string \<Rightarrow> string + u8 list"

definition open_shard :: "file_system \<Rightarrow> string \<Rightarrow> (artifact_error, u8 list) outcome" where
  "open_shard files path = (case files path of Inl msg \<Rightarrow> Err (ReadWeightShard path msg) | Inr content \<Rightarrow> Ok content)"

text \<open>\<open>read_exact\<close> at a position of the file; the position moves by what was read.\<close>

definition read_exact_at :: "string \<Rightarrow> u8 list \<Rightarrow> usize \<Rightarrow> usize \<Rightarrow> (artifact_error, u8 list) outcome" where
  "read_exact_at path content pos n =
     (if pos + n \<le> length content then Ok (take n (drop pos content))
      else Err (ReadWeightShard path ''failed to fill whole buffer''))"

text \<open>\<open>seek\<close> passes the position to the system as a signed number.\<close>

definition seek_start :: "string \<Rightarrow> usize \<Rightarrow> (artifact_error, usize) outcome" where
  "seek_start path pos = (if pos < 2 ^ 63 then Ok pos else Err (ReadWeightShard path ''Invalid argument (os error 22)''))"

text \<open>A vector of more than \<open>isize::MAX\<close> bytes panics.\<close>

definition alloc_bytes :: "usize \<Rightarrow> ('e, u8 list) outcome" where
  "alloc_bytes n = (if n < 2 ^ 63 then Ok (replicate n 0) else Panic)"

section \<open>Metadata of a tensor\<close>

record tensor_metadata =
  tm_dtype :: string
  tm_shape :: "usize list"
  tm_data_offsets :: "usize \<times> usize"

record tensor_data =
  td_metadata :: tensor_metadata
  td_bytes :: "u8 list"

record tensor_span =
  sp_path :: string
  sp_metadata :: tensor_metadata
  sp_absolute_byte_offset :: usize
  sp_byte_len :: usize

record safetensors_header =
  sh_header_len :: usize
  sh_tensors :: "(string \<times> tensor_metadata) list"

fun checked_product_from :: "usize \<Rightarrow> usize list \<Rightarrow> usize option" where
  "checked_product_from acc [] = Some acc"
| "checked_product_from acc (d # ds) = Option.bind (checked_mul acc d) (\<lambda>p. checked_product_from p ds)"

definition shape_element_count :: "usize list \<Rightarrow> usize option" where
  "shape_element_count dims = checked_product_from 1 dims"

definition safetensors_dtype_byte_width :: "string \<Rightarrow> usize option" where
  "safetensors_dtype_byte_width dtype =
     (if dtype \<in> {''BOOL'', ''I8'', ''U8'', ''F8_E4M3'', ''F8_E5M2'', ''F8_E8M0''} then Some 1
      else if dtype \<in> {''I16'', ''U16'', ''F16'', ''BF16''} then Some 2
      else if dtype \<in> {''I32'', ''U32'', ''F32''} then Some 4
      else if dtype \<in> {''I64'', ''U64'', ''F64''} then Some 8
      else None)"

definition element_count :: "tensor_metadata \<Rightarrow> usize option" where
  "element_count m = shape_element_count (tm_shape m)"

definition dtype_byte_width :: "tensor_metadata \<Rightarrow> usize option" where
  "dtype_byte_width m = safetensors_dtype_byte_width (tm_dtype m)"

definition expected_tensor_byte_len :: "string \<Rightarrow> string \<Rightarrow> tensor_metadata \<Rightarrow> (artifact_error, usize) outcome" where
  "expected_tensor_byte_len path tensor_name m =
     and_then (ok_or (InvalidSafetensorsData path (''tensor '' @ tensor_name @ '' element count overflowed'')) (element_count m)) (\<lambda>count.
     and_then (ok_or (InvalidSafetensorsData path
         (''tensor '' @ tensor_name @ '' has unsupported safetensors dtype '' @ tm_dtype m)) (dtype_byte_width m)) (\<lambda>width.
       ok_or (InvalidSafetensorsData path (''tensor '' @ tensor_name @ '' byte length overflowed'')) (checked_mul count width)))"

definition json_usize :: "string \<Rightarrow> string \<Rightarrow> json \<Rightarrow> (artifact_error, usize) outcome" where
  "json_usize path msg value = ok_or (InvalidSafetensorsHeader path msg) (map_option unat (as_u64 value))"

definition parse_tensor_metadata :: "string \<Rightarrow> string \<Rightarrow> (string \<times> json) list \<Rightarrow> (artifact_error, tensor_metadata) outcome" where
  "parse_tensor_metadata path tensor_name m =
     and_then (ok_or (InvalidSafetensorsHeader path (''tensor '' @ tensor_name @ '' is missing string dtype''))
        (Option.bind (map_of m ''dtype'') as_str)) (\<lambda>dtype.
     and_then (ok_or (InvalidSafetensorsHeader path (''tensor '' @ tensor_name @ '' is missing shape array''))
        (Option.bind (map_of m ''shape'') as_array)) (\<lambda>values.
     and_then (try_collect (json_usize path (''tensor '' @ tensor_name @ '' shape contains a non-usize dimension'')) values) (\<lambda>dims.
     and_then (ok_or (InvalidSafetensorsHeader path (''tensor '' @ tensor_name @ '' is missing data_offsets array''))
        (Option.bind (map_of m ''data_offsets'') as_array)) (\<lambda>offsets.
     if length offsets \<noteq> 2
     then Err (InvalidSafetensorsHeader path (''tensor '' @ tensor_name @ '' data_offsets must have two entries''))
     else and_then (try_collect (json_usize path (''tensor '' @ tensor_name @ '' data_offsets contains a non-usize offset'')) offsets)
       (\<lambda>os. Ok \<lparr>tm_dtype = dtype, tm_shape = dims, tm_data_offsets = (os ! 0, os ! 1)\<rparr>)))))"

section \<open>The header of a file\<close>

fun collect_tensors ::
  "string \<Rightarrow> (string \<times> json) list \<Rightarrow> (string \<times> tensor_metadata) list \<Rightarrow> (artifact_error, (string \<times> tensor_metadata) list) outcome" where
  "collect_tensors path [] tensors = Ok tensors"
| "collect_tensors path ((tensor_name, value) # entries) tensors =
     (if tensor_name = ''__metadata__'' then collect_tensors path entries tensors
      else case as_object value of
        None \<Rightarrow> collect_tensors path entries tensors
      | Some m \<Rightarrow>
          and_then (parse_tensor_metadata path tensor_name m) (\<lambda>md.
            collect_tensors path entries (btree_insert tensor_name md tensors)))"

definition header_from_file ::
  "(u8 list \<Rightarrow> string + json) \<Rightarrow> file_system \<Rightarrow> string \<Rightarrow> (artifact_error, safetensors_header) outcome" where
  "header_from_file parse_json files path =
     and_then (open_shard files path) (\<lambda>content.
     and_then (read_exact_at path content 0 8) (\<lambda>len_bytes.
     let header_len = unat (u64_from_le_bytes len_bytes)
     in and_then (alloc_bytes header_len) (\<lambda>_.
        and_then (read_exact_at path content 8 header_len) (\<lambda>header.
        case parse_json header of
          Inl msg \<Rightarrow> Err (InvalidSafetensorsHeader path msg)
        | Inr value \<Rightarrow>
            and_then (ok_or (InvalidSafetensorsHeader path ''header must be a JSON object'') (as_object value)) (\<lambda>entries.
            and_then (collect_tensors path entries []) (\<lambda>tensors.
              Ok \<lparr>sh_header_len = header_len, sh_tensors = tensors\<rparr>))))))"

definition header_tensor_metadata :: "safetensors_header \<Rightarrow> string \<Rightarrow> tensor_metadata option" where
  "header_tensor_metadata h tensor_name = map_of (sh_tensors h) tensor_name"

definition span_offsets :: "string \<Rightarrow> string \<Rightarrow> tensor_metadata \<Rightarrow> usize \<Rightarrow> (artifact_error, usize \<times> usize \<times> usize) outcome" where
  "span_offsets path tensor_name m header_len =
     (case tm_data_offsets m of (start, finish) \<Rightarrow>
        and_then (if finish < start
           then Err (InvalidSafetensorsData path (''tensor '' @ tensor_name @ '' data_offsets start is after end''))
           else Ok (finish - start)) (\<lambda>tensor_len.
        and_then (expected_tensor_byte_len path tensor_name m) (\<lambda>expected.
        if tensor_len \<noteq> expected
        then Err (InvalidSafetensorsData path (''tensor '' @ tensor_name @ '' metadata expects '' @ show_usize expected @
          '' bytes but data_offsets describe '' @ show_usize tensor_len @ '' bytes''))
        else
          and_then (ok_or (InvalidSafetensorsData path ''safetensors payload start offset overflowed'') (checked_add 8 header_len)) (\<lambda>payload.
          and_then (ok_or (InvalidSafetensorsData path (''tensor '' @ tensor_name @ '' start offset overflowed''))
             (checked_add payload start)) (\<lambda>absolute_start.
          and_then (ok_or (InvalidSafetensorsData path (''tensor '' @ tensor_name @ '' end offset overflowed''))
             (checked_add payload finish)) (\<lambda>absolute_end.
            Ok (absolute_start, absolute_end, tensor_len)))))))"

definition header_tensor_span ::
  "file_system \<Rightarrow> safetensors_header \<Rightarrow> string \<Rightarrow> string \<Rightarrow> (artifact_error, tensor_span option) outcome" where
  "header_tensor_span files h path tensor_name =
     (case map_of (sh_tensors h) tensor_name of
        None \<Rightarrow> Ok None
      | Some m \<Rightarrow>
          and_then (span_offsets path tensor_name m (sh_header_len h)) (\<lambda>(absolute_start, absolute_end, tensor_len).
          and_then (open_shard files path) (\<lambda>content.
          if absolute_end > length content
          then Err (InvalidSafetensorsData path (''tensor '' @ tensor_name @ '' payload extends past end of shard''))
          else Ok (Some \<lparr>sp_path = path, sp_metadata = m, sp_absolute_byte_offset = absolute_start, sp_byte_len = tensor_len\<rparr>))))"

section \<open>Reading and checksum\<close>

definition span_read :: "file_system \<Rightarrow> tensor_span \<Rightarrow> (artifact_error, tensor_data option) outcome" where
  "span_read files span =
     and_then (open_shard files (sp_path span)) (\<lambda>content.
     and_then (seek_start (sp_path span) (sp_absolute_byte_offset span)) (\<lambda>pos.
     and_then (alloc_bytes (sp_byte_len span)) (\<lambda>_.
     and_then (read_exact_at (sp_path span) content pos (sp_byte_len span)) (\<lambda>bytes.
       Ok (Some \<lparr>td_metadata = sp_metadata span, td_bytes = bytes\<rparr>)))))"

definition header_read_tensor ::
  "file_system \<Rightarrow> safetensors_header \<Rightarrow> string \<Rightarrow> string \<Rightarrow> (artifact_error, tensor_data option) outcome" where
  "header_read_tensor files h path tensor_name =
     and_then (header_tensor_span files h path tensor_name) (\<lambda>span.
       case span of None \<Rightarrow> Ok None | Some span \<Rightarrow> span_read files span)"

definition header_tensor_span_entries ::
  "file_system \<Rightarrow> safetensors_header \<Rightarrow> string \<Rightarrow> (artifact_error, (string \<times> tensor_span) list) outcome" where
  "header_tensor_span_entries files h path =
     and_then (try_collect (\<lambda>tensor_name. and_then (header_tensor_span files h path tensor_name) (\<lambda>span.
       Ok (map_option (Pair tensor_name) span))) (map fst (sh_tensors h))) (\<lambda>spans. Ok (List.map_filter id spans))"

definition fnv1a64_offset_basis :: u64 where
  "fnv1a64_offset_basis = 0xcbf29ce484222325"

definition fnv1a64_prime :: u64 where
  "fnv1a64_prime = 0x100000001b3"

definition fnv1a64_update :: "u64 \<Rightarrow> u8 list \<Rightarrow> u64" where
  "fnv1a64_update checksum bytes = fold (\<lambda>byte c. Bit_Operations.xor c (ucast byte) * fnv1a64_prime) bytes checksum"

function checksum_loop :: "string \<Rightarrow> u8 list \<Rightarrow> usize \<Rightarrow> usize \<Rightarrow> u64 \<Rightarrow> (artifact_error, u64) outcome" where
  "checksum_loop path content pos remaining checksum =
     (if remaining = 0 then Ok checksum
      else
        let read_len = min remaining (64 * 1024)
        in and_then (read_exact_at path content pos read_len) (\<lambda>buffer.
             checksum_loop path content (pos + read_len) (remaining - read_len) (fnv1a64_update checksum buffer)))"
  by pat_completeness auto
termination
  by (relation "measure (\<lambda>(path, content, pos, remaining, checksum). remaining)") auto

declare checksum_loop.simps [simp del]

definition fnv1a64_checksum :: "file_system \<Rightarrow> tensor_span \<Rightarrow> (artifact_error, u64) outcome" where
  "fnv1a64_checksum files span =
     and_then (open_shard files (sp_path span)) (\<lambda>content.
     and_then (seek_start (sp_path span) (sp_absolute_byte_offset span)) (\<lambda>pos.
       checksum_loop (sp_path span) content pos (sp_byte_len span) fnv1a64_offset_basis))"

section \<open>The manifest\<close>

record manifest =
  mf_index_path :: string
  mf_tensor_names :: "string list"
  mf_tensor_to_shard :: "(string \<times> string) list"
  mf_shard_paths :: "string list"

text \<open>\<open>Path::join\<close>: an absolute second part replaces the first.\<close>

definition path_join :: "string \<Rightarrow> string \<Rightarrow> string" where
  "path_join p q =
     (if q \<noteq> [] \<and> hd q = CHR ''/'' then q
      else if p = [] \<or> last p = CHR ''/'' then p @ q
      else p @ ''/'' @ q)"

text \<open>The loop over \<open>weight_map\<close>: it fills the map from tensors to files and the set of files.\<close>

fun collect_shards ::
  "(string \<Rightarrow> bool) \<Rightarrow> string \<Rightarrow> string \<Rightarrow> (string \<times> json) list \<Rightarrow> (string \<times> string) list \<times> (string \<times> unit) list \<Rightarrow>
   (artifact_error, (string \<times> string) list \<times> (string \<times> unit) list) outcome" where
  "collect_shards is_file model_path index_path [] acc = Ok acc"
| "collect_shards is_file model_path index_path ((tensor_name, value) # entries) acc =
     (case as_str value of
        None \<Rightarrow> Err (InvalidSafetensorsIndex index_path (''weight_map entry '' @ tensor_name @ '' is not a string''))
      | Some shard_name \<Rightarrow>
          let shard_path = path_join model_path shard_name
          in if \<not> is_file shard_path then Err (MissingWeightShard shard_path)
             else collect_shards is_file model_path index_path entries
               (btree_insert tensor_name shard_path (fst acc), btree_insert shard_path () (snd acc)))"

text \<open>\<open>read_text\<close> is \<open>read_to_string\<close>, \<open>parse_text\<close> the parser on its result.\<close>

definition manifest_from_index_path ::
  "(string \<Rightarrow> string + json) \<Rightarrow> (string \<Rightarrow> string + string) \<Rightarrow> (string \<Rightarrow> bool) \<Rightarrow> string \<Rightarrow> string \<Rightarrow> (artifact_error, manifest) outcome" where
  "manifest_from_index_path parse_text read_text is_file model_path index_path =
     (case read_text index_path of
        Inl msg \<Rightarrow> Err (ReadSafetensorsIndex index_path msg)
      | Inr content \<Rightarrow>
          (case parse_text content of
             Inl msg \<Rightarrow> Err (InvalidSafetensorsIndex index_path msg)
           | Inr value \<Rightarrow>
               and_then (ok_or (InvalidSafetensorsIndex index_path ''missing object field weight_map'')
                 (Option.bind (as_object value) (\<lambda>m. Option.bind (map_of m ''weight_map'') as_object))) (\<lambda>weight_map.
               if weight_map = [] then Err (InvalidSafetensorsIndex index_path ''weight_map is empty'')
               else and_then (collect_shards is_file model_path index_path weight_map ([], [])) (\<lambda>(tensor_to_shard, shard_paths).
                 Ok \<lparr>mf_index_path = index_path, mf_tensor_names = map fst tensor_to_shard,
                     mf_tensor_to_shard = tensor_to_shard, mf_shard_paths = map fst shard_paths\<rparr>))))"

definition shard_for_tensor :: "manifest \<Rightarrow> string \<Rightarrow> string option" where
  "shard_for_tensor m tensor_name = map_of (mf_tensor_to_shard m) tensor_name"

fun find_in_shards ::
  "(string \<Rightarrow> (artifact_error, safetensors_header) outcome) \<Rightarrow> (safetensors_header \<Rightarrow> string \<Rightarrow> (artifact_error, 'a option) outcome) \<Rightarrow>
   string list \<Rightarrow> (artifact_error, 'a option) outcome" where
  "find_in_shards headers query [] = Ok None"
| "find_in_shards headers query (path # paths) =
     and_then (headers path) (\<lambda>h. and_then (query h path) (\<lambda>r.
       case r of Some x \<Rightarrow> Ok (Some x) | None \<Rightarrow> find_in_shards headers query paths))"

definition manifest_tensor_metadata ::
  "(u8 list \<Rightarrow> string + json) \<Rightarrow> file_system \<Rightarrow> manifest \<Rightarrow> string \<Rightarrow> (artifact_error, tensor_metadata option) outcome" where
  "manifest_tensor_metadata parse_json files m tensor_name =
     (case shard_for_tensor m tensor_name of
        Some path \<Rightarrow> and_then (header_from_file parse_json files path) (\<lambda>h. Ok (header_tensor_metadata h tensor_name))
      | None \<Rightarrow> find_in_shards (header_from_file parse_json files) (\<lambda>h path. Ok (header_tensor_metadata h tensor_name)) (mf_shard_paths m))"

definition manifest_tensor_span ::
  "(u8 list \<Rightarrow> string + json) \<Rightarrow> file_system \<Rightarrow> manifest \<Rightarrow> string \<Rightarrow> (artifact_error, tensor_span option) outcome" where
  "manifest_tensor_span parse_json files m tensor_name =
     (case shard_for_tensor m tensor_name of
        Some path \<Rightarrow> and_then (header_from_file parse_json files path) (\<lambda>h. header_tensor_span files h path tensor_name)
      | None \<Rightarrow> find_in_shards (header_from_file parse_json files) (\<lambda>h path. header_tensor_span files h path tensor_name) (mf_shard_paths m))"

definition manifest_read_tensor ::
  "(u8 list \<Rightarrow> string + json) \<Rightarrow> file_system \<Rightarrow> manifest \<Rightarrow> string \<Rightarrow> (artifact_error, tensor_data option) outcome" where
  "manifest_read_tensor parse_json files m tensor_name =
     and_then (manifest_tensor_span parse_json files m tensor_name) (\<lambda>span.
       case span of None \<Rightarrow> Ok None | Some span \<Rightarrow> span_read files span)"

text \<open>The loop over the names keeps the headers it has read; \<open>headers\<close> is that map.\<close>

fun cached_entries ::
  "(u8 list \<Rightarrow> string + json) \<Rightarrow> file_system \<Rightarrow> manifest \<Rightarrow> string list \<Rightarrow> (string \<times> safetensors_header) list \<Rightarrow>
   (artifact_error, (string \<times> tensor_span) list) outcome" where
  "cached_entries parse_json files m [] headers = Ok []"
| "cached_entries parse_json files m (tensor_name # names) headers =
     (case shard_for_tensor m tensor_name of
        None \<Rightarrow> cached_entries parse_json files m names headers
      | Some path \<Rightarrow>
          and_then (case map_of headers path of
              Some h \<Rightarrow> Ok (h, headers)
            | None \<Rightarrow> and_then (header_from_file parse_json files path) (\<lambda>h. Ok (h, btree_insert path h headers))) (\<lambda>(h, headers).
          and_then (header_tensor_span files h path tensor_name) (\<lambda>span.
          and_then (cached_entries parse_json files m names headers) (\<lambda>entries.
            Ok (case span of Some span \<Rightarrow> (tensor_name, span) # entries | None \<Rightarrow> entries)))))"

definition manifest_tensor_span_entries ::
  "(u8 list \<Rightarrow> string + json) \<Rightarrow> file_system \<Rightarrow> manifest \<Rightarrow> (artifact_error, (string \<times> tensor_span) list) outcome" where
  "manifest_tensor_span_entries parse_json files m =
     (if mf_tensor_names m = []
      then and_then (try_collect (\<lambda>path. and_then (header_from_file parse_json files path) (\<lambda>h. header_tensor_span_entries files h path))
             (mf_shard_paths m)) (\<lambda>entries. Ok (concat entries))
      else cached_entries parse_json files m (mf_tensor_names m) [])"

record fingerprint_entry =
  fe_tensor_name :: string
  fe_path :: string
  fe_dtype :: string
  fe_shape :: "usize list"
  fe_absolute_byte_offset :: usize
  fe_byte_len :: usize
  fe_fnv1a64 :: u64

definition fingerprint_from_span :: "file_system \<Rightarrow> string \<times> tensor_span \<Rightarrow> (artifact_error, fingerprint_entry) outcome" where
  "fingerprint_from_span files entry =
     (case entry of (tensor_name, span) \<Rightarrow>
        and_then (fnv1a64_checksum files span) (\<lambda>fnv.
          Ok \<lparr>fe_tensor_name = tensor_name, fe_path = sp_path span, fe_dtype = tm_dtype (sp_metadata span),
              fe_shape = tm_shape (sp_metadata span), fe_absolute_byte_offset = sp_absolute_byte_offset span,
              fe_byte_len = sp_byte_len span, fe_fnv1a64 = fnv\<rparr>))"

definition checkpoint_fingerprint_entries ::
  "(u8 list \<Rightarrow> string + json) \<Rightarrow> file_system \<Rightarrow> manifest \<Rightarrow> (artifact_error, fingerprint_entry list) outcome" where
  "checkpoint_fingerprint_entries parse_json files m =
     and_then (manifest_tensor_span_entries parse_json files m) (try_collect (fingerprint_from_span files))"

section \<open>Lemmas\<close>

lemma checked_product_from_Some: "checked_product_from a ds = Some p \<Longrightarrow> p = a * prod_list ds"
  by (induction ds arbitrary: a) (fastforce simp: bind_eq_Some_conv mult.assoc)+

lemma checked_product_from_bounded:
  "0 \<notin> set ds \<Longrightarrow> a * prod_list ds < 2 ^ 64 \<Longrightarrow> checked_product_from a ds = Some (a * prod_list ds)"
proof (induction ds arbitrary: a)
  case (Cons d ds)
  have "0 < prod_list ds" using Cons.prems(1) prod_list_zero_iff [of ds] by (metis gr0I list.set_intros(2))
  then have "a * d \<le> a * d * prod_list ds" by (cases "prod_list ds") simp_all
  moreover have "a * d * prod_list ds < 2 ^ 64" using Cons.prems(2) by (simp add: mult.assoc)
  ultimately have "a * d < 2 ^ 64" by (rule le_less_trans)
  then show ?case using Cons.IH [of "a * d"] Cons.prems by (simp add: checked_mul_def mult.assoc)
qed simp

lemma take_take_drop: "take n (drop p xs) @ take m (drop (p + n) xs) = take (n + m) (drop p xs)"
  by (simp add: take_add drop_drop add.commute [of n p])

lemma fnv1a64_update_append: "fnv1a64_update c (xs @ ys) = fnv1a64_update (fnv1a64_update c xs) ys"
  by (simp add: fnv1a64_update_def)

text \<open>Reading in blocks of 64 KiB gives the checksum of the bytes as a whole.\<close>

lemma checksum_loop_whole:
  "pos + remaining \<le> length content \<Longrightarrow>
   checksum_loop path content pos remaining c = Ok (fnv1a64_update c (take remaining (drop pos content)))"
proof (induction path content pos remaining c rule: checksum_loop.induct)
  case (1 path content pos remaining c)
  show ?case
  proof (cases "remaining = 0")
    case False
    let ?n = "min remaining (64 * 1024)"
    have "take ?n (drop pos content) @ take (remaining - ?n) (drop (pos + ?n) content) = take remaining (drop pos content)"
      by (simp only: take_take_drop le_add_diff_inverse min.cobounded1)
    moreover have "pos + ?n \<le> length content" "(pos + ?n) + (remaining - ?n) \<le> length content" using 1(2) by simp_all
    ultimately show ?thesis
      using False 1(1) [OF False refl]
      by (subst checksum_loop.simps) (simp add: read_exact_at_def Let_def flip: fnv1a64_update_append)
  qed (simp add: checksum_loop.simps [of path content pos 0] fnv1a64_update_def)
qed

lemma header_tensor_span_Some:
  assumes "header_tensor_span files h path tensor_name = Ok (Some span)"
  obtains content start finish count width where
    "files path = Inr content" "map_of (sh_tensors h) tensor_name = Some (sp_metadata span)"
    "tm_data_offsets (sp_metadata span) = (start, finish)" "element_count (sp_metadata span) = Some count"
    "dtype_byte_width (sp_metadata span) = Some width" "sp_path span = path" "start \<le> finish"
    "sp_byte_len span = count * width" "sp_byte_len span = finish - start"
    "sp_absolute_byte_offset span = 8 + sh_header_len h + start" "8 + sh_header_len h + finish \<le> length content"
  using assms
  by (fastforce simp: header_tensor_span_def span_offsets_def expected_tensor_byte_len_def open_shard_def outcome_simps
      split: option.splits prod.splits sum.splits if_splits)

text \<open>Keeping the headers that were read changes nothing.\<close>

definition headers_current :: "(u8 list \<Rightarrow> string + json) \<Rightarrow> file_system \<Rightarrow> (string \<times> safetensors_header) list \<Rightarrow> bool" where
  "headers_current parse_json files headers \<longleftrightarrow> btree_ok headers \<and>
     (\<forall>path h. map_of headers path = Some h \<longrightarrow> header_from_file parse_json files path = Ok h)"

lemma cached_entries_uncached:
  assumes "headers_current parse_json files headers"
    and "\<And>n. n \<in> set names \<Longrightarrow> shard_for_tensor m n \<noteq> None"
  shows "cached_entries parse_json files m names headers =
    and_then (try_collect (\<lambda>n. and_then (manifest_tensor_span parse_json files m n) (\<lambda>s. Ok (map_option (Pair n) s))) names)
      (\<lambda>spans. Ok (List.map_filter id spans))"
  using assms
proof (induction names arbitrary: headers)
  case Nil
  then show ?case by (simp add: map_filter_def)
next
  case (Cons n names)
  obtain path where path: "shard_for_tensor m n = Some path" using Cons.prems(2) by fastforce
  have keep: "headers_current parse_json files (btree_insert path h headers)" if "header_from_file parse_json files path = Ok h" for h
    using Cons.prems(1) that by (auto simp: headers_current_def)
  note IH = Cons.IH [OF _ Cons.prems(2)]
  show ?case
  proof (cases "header_from_file parse_json files path")
    case (Ok h)
    have current: "map_of headers path = None \<or> map_of headers path = Some h"
      using Cons.prems(1) Ok by (cases "map_of headers path") (auto simp: headers_current_def)
    show ?thesis
      using current IH [OF keep [OF Ok]] IH [OF Cons.prems(1)] Ok path
      by (cases "header_tensor_span files h path n"; cases "try_collect (\<lambda>n. and_then (manifest_tensor_span parse_json files m n) (\<lambda>s. Ok (map_option (Pair n) s))) names")
        (auto simp: manifest_tensor_span_def map_filter_def split: option.splits)
  next
    case (Err e)
    then have "map_of headers path = None" using Cons.prems(1) by (cases "map_of headers path") (auto simp: headers_current_def)
    then show ?thesis using Err path by (simp add: manifest_tensor_span_def)
  next
    case Panic
    then have "map_of headers path = None" using Cons.prems(1) by (cases "map_of headers path") (auto simp: headers_current_def)
    then show ?thesis using Panic path by (simp add: manifest_tensor_span_def)
  qed
qed

section \<open>Spans can be read\<close>

text \<open>
  (C17) A span that a header gives can be read, and what is read is the tensor: the bytes of the file between the two offsets of the
  header, counted from the end of the header, as many as shape and type need; the checksum is that of
  exactly these bytes.  Files of \<open>2 ^ 63\<close> bytes and more do not exist.
\<close>

theorem tensor_spans_are_readable:
  assumes "header_tensor_span files h path tensor_name = Ok (Some span)" and "files path = Inr content" and "length content < 2 ^ 63"
  shows "\<exists>start finish count width.
    tm_data_offsets (sp_metadata span) = (start, finish) \<and> dtype_byte_width (sp_metadata span) = Some width \<and>
    count = prod_list (tm_shape (sp_metadata span)) \<and>
    header_read_tensor files h path tensor_name =
      Ok (Some \<lparr>td_metadata = sp_metadata span, td_bytes = take (count * width) (drop (8 + sh_header_len h + start) content)\<rparr>) \<and>
    finish = start + count * width \<and> 8 + sh_header_len h + finish \<le> length content \<and>
    fnv1a64_checksum files span =
      Ok (fnv1a64_update fnv1a64_offset_basis (take (count * width) (drop (8 + sh_header_len h + start) content)))"
proof -
  obtain start finish count width where s: "tm_data_offsets (sp_metadata span) = (start, finish)"
    "element_count (sp_metadata span) = Some count" "dtype_byte_width (sp_metadata span) = Some width" "sp_path span = path"
    "start \<le> finish" "sp_byte_len span = count * width" "sp_byte_len span = finish - start"
    "sp_absolute_byte_offset span = 8 + sh_header_len h + start" "8 + sh_header_len h + finish \<le> length content"
    using header_tensor_span_Some [OF assms(1)] assms(2) by (metis sum.inject(2))
  have count: "count = prod_list (tm_shape (sp_metadata span))"
    using s(2) checked_product_from_Some by (fastforce simp: element_count_def shape_element_count_def)
  have fin: "finish = start + count * width" using s(5-7) by simp
  then have fit: "sp_absolute_byte_offset span + sp_byte_len span \<le> length content" using s(6,8,9) by simp
  then have small: "sp_absolute_byte_offset span < 2 ^ 63" "sp_byte_len span < 2 ^ 63" using assms(3) by linarith+
  have "span_read files span = Ok (Some \<lparr>td_metadata = sp_metadata span, td_bytes = take (count * width) (drop (8 + sh_header_len h + start) content)\<rparr>)"
    using fit small s(4,6,8) assms(2) by (simp add: span_read_def open_shard_def seek_start_def alloc_bytes_def read_exact_at_def)
  moreover have "fnv1a64_checksum files span =
      Ok (fnv1a64_update fnv1a64_offset_basis (take (count * width) (drop (8 + sh_header_len h + start) content)))"
    using fit small s(4,6,8) assms(2) checksum_loop_whole by (simp add: fnv1a64_checksum_def open_shard_def seek_start_def)
  ultimately show ?thesis using s(1,3,9) count fin assms(1) by (simp add: header_read_tensor_def)
qed

text \<open>A file with a header of two bytes and one tensor of three bytes.\<close>

definition sample_tensor :: tensor_metadata where
  "sample_tensor = \<lparr>tm_dtype = ''U8'', tm_shape = [1, 3], tm_data_offsets = (1, 4)\<rparr>"

definition sample_header :: safetensors_header where
  "sample_header = \<lparr>sh_header_len = 2, sh_tensors = [(''w'', sample_tensor)]\<rparr>"

definition sample_file :: "u8 list" where
  "sample_file = [2, 0, 0, 0, 0, 0, 0, 0, 123, 125, 9, 1, 2, 3]"

theorem tensor_spans_are_readable_witness:
  "header_read_tensor (\<lambda>_. Inr sample_file) sample_header ''m'' ''w'' = Ok (Some \<lparr>td_metadata = sample_tensor, td_bytes = [1, 2, 3]\<rparr>)"
proof -
  have span: "header_tensor_span (\<lambda>_. Inr sample_file) sample_header ''m'' ''w'' =
      Ok (Some \<lparr>sp_path = ''m'', sp_metadata = sample_tensor, sp_absolute_byte_offset = 11, sp_byte_len = 3\<rparr>)"
    by (simp add: header_tensor_span_def sample_header_def sample_tensor_def sample_file_def span_offsets_def expected_tensor_byte_len_def
        element_count_def shape_element_count_def dtype_byte_width_def safetensors_dtype_byte_width_def open_shard_def checked_mul_def checked_add_def)
  have "length sample_file < 2 ^ 63" by (simp add: sample_file_def)
  from tensor_spans_are_readable [OF span refl this] show ?thesis
    by (auto simp: sample_tensor_def sample_header_def sample_file_def dtype_byte_width_def safetensors_dtype_byte_width_def)
qed

text \<open>A corrupt length in the first eight bytes does not give an error: the buffer for the header cannot be allocated.\<close>

lemma corrupt_header_length_panics:
  assumes "files path = Inr (u64_to_le_bytes n @ rest)" and "2 ^ 63 \<le> unat n"
  shows "header_from_file parse_json files path = Panic"
  using assms by (simp add: header_from_file_def open_shard_def read_exact_at_def alloc_bytes_def Let_def)

end
