(* ===== verification/Tensor_Partition.thy ===== *)
theory Tensor_Partition
  imports Safetensors
begin

text \<open>
  How tensor parallel ranks share the weights: the ranks of a node and the partition of an axis
  (\<open>crates/sglang-srt/src/distributed/parallel.rs\<close>), the heads and widths each rank gets
  (\<open>transformer_parallel.rs\<close>, \<open>models/mod.rs\<close>) and reading only the own part of a tensor from a weight file
  (\<open>tensor_partition.rs\<close>).
\<close>

section \<open>Ranks\<close>

record tp_rank =
  tpr_global_rank :: usize
  tpr_local_rank :: usize
  tpr_world_size :: usize
  tpr_device_ordinal :: usize

record tp_topology =
  tpt_world_size :: usize
  tpt_node_count :: usize
  tpt_node_rank :: usize
  tpt_local_ranks :: "tp_rank list"

datatype parallel_topology_error =
    ZeroWorldSize
  | ZeroNodeCount
  | InvalidNodeRank usize usize
  | WorldSizeNotDivisible usize usize
  | ZeroDeviceOrdinalStep
  | GlobalRankOverflow usize usize
  | DeviceOrdinalOverflow usize usize usize

definition local_tp_rank ::
  "usize \<Rightarrow> usize \<Rightarrow> usize \<Rightarrow> usize \<Rightarrow> usize \<Rightarrow> usize \<Rightarrow> usize \<Rightarrow> (parallel_topology_error, tp_rank) outcome" where
  "local_tp_rank world_size node_rank local_world_size first_global_rank base step local_rank =
     and_then (ok_or (GlobalRankOverflow node_rank local_world_size) (checked_add first_global_rank local_rank)) (\<lambda>global_rank.
     and_then (ok_or (DeviceOrdinalOverflow base step local_rank)
       (Option.bind (checked_mul local_rank step) (\<lambda>offset. checked_add base offset))) (\<lambda>device_ordinal.
       Ok \<lparr>tpr_global_rank = global_rank, tpr_local_rank = local_rank, tpr_world_size = world_size, tpr_device_ordinal = device_ordinal\<rparr>))"

definition tp_topology_new ::
  "usize \<Rightarrow> usize \<Rightarrow> usize \<Rightarrow> usize \<Rightarrow> usize \<Rightarrow> (parallel_topology_error, tp_topology) outcome" where
  "tp_topology_new world_size node_count node_rank base step =
     (if world_size = 0 then Err ZeroWorldSize
      else if node_count = 0 then Err ZeroNodeCount
      else if node_rank \<ge> node_count then Err (InvalidNodeRank node_rank node_count)
      else if \<not> is_multiple_of world_size node_count then Err (WorldSizeNotDivisible world_size node_count)
      else if step = 0 then Err ZeroDeviceOrdinalStep
      else
        let local_world_size = world_size div node_count
        in and_then (ok_or (GlobalRankOverflow node_rank local_world_size) (checked_mul node_rank local_world_size)) (\<lambda>first_global_rank.
           and_then (try_collect (local_tp_rank world_size node_rank local_world_size first_global_rank base step) [0 ..< local_world_size])
             (\<lambda>local_ranks. Ok \<lparr>tpt_world_size = world_size, tpt_node_count = node_count, tpt_node_rank = node_rank,
                tpt_local_ranks = local_ranks\<rparr>)))"

section \<open>Partitions of an axis\<close>

record tensor_partition =
  part_count :: usize
  part_index :: usize

datatype partition_error =
    ZeroPartitionCount
  | InvalidPartitionIndex usize usize
  | ShardCountExceedsWorldSize usize usize
  | WorldSizeNotDivisibleByShardCount usize usize
  | ExtentNotDivisible usize usize
  | PartitionRangeOverflow usize usize usize

fun show_partition_error :: "partition_error \<Rightarrow> string" where
  "show_partition_error ZeroPartitionCount = ''partition count must be positive''"
| "show_partition_error (InvalidPartitionIndex i n) =
     ''partition index '' @ show_usize i @ '' must be smaller than partition count '' @ show_usize n"
| "show_partition_error (ShardCountExceedsWorldSize c w) =
     ''replicated shard count '' @ show_usize c @ '' exceeds tensor parallel world size '' @ show_usize w"
| "show_partition_error (WorldSizeNotDivisibleByShardCount w c) =
     ''tensor parallel world size '' @ show_usize w @ '' must be divisible by replicated shard count '' @ show_usize c"
| "show_partition_error (ExtentNotDivisible e n) =
     ''tensor extent '' @ show_usize e @ '' must be divisible by partition count '' @ show_usize n"
| "show_partition_error (PartitionRangeOverflow e n i) =
     ''partition range overflowed for extent '' @ show_usize e @ '', partition count '' @ show_usize n @ '', and partition index '' @ show_usize i"

definition partition_new :: "usize \<Rightarrow> usize \<Rightarrow> (partition_error, tensor_partition) outcome" where
  "partition_new n i =
     (if n = 0 then Err ZeroPartitionCount
      else if i \<ge> n then Err (InvalidPartitionIndex i n)
      else Ok \<lparr>part_count = n, part_index = i\<rparr>)"

definition partition_for_rank :: "tp_rank \<Rightarrow> tensor_partition" where
  "partition_for_rank r = \<lparr>part_count = tpr_world_size r, part_index = tpr_global_rank r\<rparr>"

definition for_replicated_shards :: "tp_rank \<Rightarrow> usize \<Rightarrow> (partition_error, tensor_partition) outcome" where
  "for_replicated_shards r shard_count =
     (if shard_count = 0 then Err ZeroPartitionCount
      else if shard_count > tpr_world_size r then Err (ShardCountExceedsWorldSize shard_count (tpr_world_size r))
      else if \<not> is_multiple_of (tpr_world_size r) shard_count
      then Err (WorldSizeNotDivisibleByShardCount (tpr_world_size r) shard_count)
      else partition_new shard_count (tpr_global_rank r div (tpr_world_size r div shard_count)))"

text \<open>The range from \<open>fst\<close> up to, not including, \<open>snd\<close>.\<close>

definition partition_range :: "tensor_partition \<Rightarrow> usize \<Rightarrow> (partition_error, usize \<times> usize) outcome" where
  "partition_range p extent =
     (if \<not> is_multiple_of extent (part_count p) then Err (ExtentNotDivisible extent (part_count p))
      else if part_count p = 0 then Panic
      else
        let partition_len = extent div part_count p; overflow = PartitionRangeOverflow extent (part_count p) (part_index p)
        in and_then (ok_or overflow (checked_mul (part_index p) partition_len)) (\<lambda>start.
           and_then (ok_or overflow (checked_add start partition_len)) (\<lambda>finish. Ok (start, finish))))"

section \<open>Architectures and the plan of a rank\<close>

datatype attention_architecture =
    NoAttention
  | MultiHead usize usize usize
  | MultiLatent usize usize usize usize
  | Hybrid usize usize usize usize usize usize usize
  | HybridMultiLatent usize usize usize usize usize usize usize

datatype feed_forward_architecture =
    NoFeedForward
  | Dense usize
  | MixtureOfExperts usize usize usize usize

datatype execution_architecture = Transformer attention_architecture feed_forward_architecture

fun tp_head_counts :: "attention_architecture \<Rightarrow> (usize \<times> (string \<times> usize) list) option" where
  "tp_head_counts NoAttention = None"
| "tp_head_counts (MultiHead heads kv_heads head_dim) = Some (heads, [(''KV'', kv_heads)])"
| "tp_head_counts (MultiLatent heads nope rope value_dim) = Some (heads, [])"
| "tp_head_counts (Hybrid heads kv_heads head_dim key_heads value_heads key_dim value_dim) =
     Some (heads, [(''KV'', kv_heads), (''linear key'', key_heads), (''linear value'', value_heads)])"
| "tp_head_counts (HybridMultiLatent heads nope rope value_dim linear_heads key_dim linear_value_dim) = Some (heads, [(''linear'', linear_heads)])"

fun validate_head_counts :: "usize \<Rightarrow> (string \<times> usize) list \<Rightarrow> (string, unit) outcome" where
  "validate_head_counts tp [] = Ok ()"
| "validate_head_counts tp ((name, head_count) # rest) =
     (if (if head_count \<ge> tp then is_multiple_of head_count tp else is_multiple_of tp head_count)
      then validate_head_counts tp rest
      else Err (name @ '' head count '' @ show_usize head_count @
        '' must shard across or replicate evenly over tensor parallel size '' @ show_usize tp))"

definition validate_attention_tp :: "attention_architecture \<Rightarrow> usize \<Rightarrow> (string, unit) outcome" where
  "validate_attention_tp a tp =
     (case tp_head_counts a of
        None \<Rightarrow> Ok ()
      | Some (heads, head_counts) \<Rightarrow>
          if \<not> is_multiple_of heads tp
          then Err (''attention head count '' @ show_usize heads @ '' must be divisible by tensor parallel size '' @ show_usize tp)
          else validate_head_counts tp head_counts)"

fun validate_tensor_parallel :: "execution_architecture \<Rightarrow> usize \<Rightarrow> (string, unit) outcome" where
  "validate_tensor_parallel (Transformer attention feed_forward) tp =
     and_then (validate_attention_tp attention tp) (\<lambda>_.
       case feed_forward of
         Dense intermediate_size \<Rightarrow>
           if is_multiple_of intermediate_size tp then Ok ()
           else Err (''dense feed-forward intermediate size '' @ show_usize intermediate_size @
             '' must be divisible by tensor parallel size '' @ show_usize tp)
       | _ \<Rightarrow> Ok ())"

record dense_tp_plan =
  pl_query_partition :: tensor_partition
  pl_kv_partition :: tensor_partition
  pl_intermediate_partition :: tensor_partition
  pl_local_query_head_count :: usize
  pl_local_kv_head_count :: usize
  pl_head_dim :: usize
  pl_local_intermediate_size :: usize

datatype dense_tp_error =
    UnsupportedArchitecture
  | QueryHeadsNotDivisible usize usize
  | KvHeadsNotDivisible usize usize
  | IntermediateNotDivisible usize usize
  | SizeOverflow string
  | PlanPartition partition_error

definition kv_plan :: "usize \<Rightarrow> tp_rank \<Rightarrow> (dense_tp_error, tensor_partition \<times> usize) outcome" where
  "kv_plan kv_heads r =
     (let world_size = tpr_world_size r
      in if kv_heads \<ge> world_size
         then if \<not> is_multiple_of kv_heads world_size then Err (KvHeadsNotDivisible kv_heads world_size)
              else if world_size = 0 then Panic
              else Ok (partition_for_rank r, kv_heads div world_size)
         else and_then (map_err PlanPartition (for_replicated_shards r kv_heads)) (\<lambda>p. Ok (p, 1)))"

definition plan_from_execution :: "execution_architecture \<Rightarrow> tp_rank \<Rightarrow> (dense_tp_error, dense_tp_plan) outcome" where
  "plan_from_execution execution r =
     (case execution of
        Transformer (MultiHead heads kv_heads head_dim) (Dense intermediate_size) \<Rightarrow>
          let world_size = tpr_world_size r
          in if \<not> is_multiple_of heads world_size then Err (QueryHeadsNotDivisible heads world_size)
             else if \<not> is_multiple_of intermediate_size world_size then Err (IntermediateNotDivisible intermediate_size world_size)
             else and_then (kv_plan kv_heads r) (\<lambda>(kv_partition, local_kv).
               Ok \<lparr>pl_query_partition = partition_for_rank r, pl_kv_partition = kv_partition, pl_intermediate_partition = partition_for_rank r,
                   pl_local_query_head_count = heads div world_size, pl_local_kv_head_count = local_kv, pl_head_dim = head_dim,
                   pl_local_intermediate_size = intermediate_size div world_size\<rparr>)
      | _ \<Rightarrow> Err UnsupportedArchitecture)"

definition local_query_size :: "dense_tp_plan \<Rightarrow> (dense_tp_error, usize) outcome" where
  "local_query_size p = ok_or (SizeOverflow ''local query width'') (checked_mul (pl_local_query_head_count p) (pl_head_dim p))"

definition local_kv_size :: "dense_tp_plan \<Rightarrow> (dense_tp_error, usize) outcome" where
  "local_kv_size p = ok_or (SizeOverflow ''local KV width'') (checked_mul (pl_local_kv_head_count p) (pl_head_dim p))"

section \<open>Reading a partition\<close>

definition invalid_partition :: "tensor_span \<Rightarrow> string \<Rightarrow> artifact_error" where
  "invalid_partition span msg = InvalidSafetensorsData (sp_path span) (''invalid tensor partition: '' @ msg)"

definition checked_shape_product :: "tensor_span \<Rightarrow> usize list \<Rightarrow> (artifact_error, usize) outcome" where
  "checked_shape_product span dims = ok_or (invalid_partition span ''tensor shape product overflowed'') (checked_product_from 1 dims)"

definition source_position :: "tensor_span \<Rightarrow> usize \<Rightarrow> usize \<Rightarrow> usize \<Rightarrow> usize \<Rightarrow> usize \<Rightarrow> (artifact_error, usize) outcome" where
  "source_position span stride start inner_count width outer_index =
     and_then (ok_or (invalid_partition span ''partition source offset overflowed'')
       (Option.bind (checked_mul outer_index stride) (\<lambda>offset.
        Option.bind (checked_mul start inner_count) (\<lambda>s. checked_add offset s)))) (\<lambda>elements.
     and_then (ok_or (invalid_partition span ''partition source byte offset overflowed'') (checked_mul elements width)) (\<lambda>bytes.
     and_then (ok_or (invalid_partition span ''partition absolute offset overflowed'')
       (checked_add (sp_absolute_byte_offset span) bytes)) (\<lambda>pos. seek_start (sp_path span) pos)))"

text \<open>The buffer is filled row by row; a range outside of it panics.\<close>

fun read_rows ::
  "tensor_span \<Rightarrow> u8 list \<Rightarrow> usize \<Rightarrow> usize \<Rightarrow> usize \<Rightarrow> usize \<Rightarrow> usize \<Rightarrow> usize list \<Rightarrow> u8 list \<Rightarrow> (artifact_error, u8 list) outcome" where
  "read_rows span content stride start inner_count width row_bytes [] bytes = Ok bytes"
| "read_rows span content stride start inner_count width row_bytes (outer_index # rest) bytes =
     and_then (source_position span stride start inner_count width outer_index) (\<lambda>pos.
     and_then (ok_or (invalid_partition span ''partition target offset overflowed'') (checked_mul outer_index row_bytes)) (\<lambda>target_start.
     and_then (ok_or (invalid_partition span ''partition target end overflowed'') (checked_add target_start row_bytes)) (\<lambda>target_end.
     if target_end > length bytes then Panic
     else and_then (read_exact_at (sp_path span) content pos row_bytes) (\<lambda>row.
       read_rows span content stride start inner_count width row_bytes rest (take target_start bytes @ row @ drop target_end bytes)))))"

definition read_tensor_axis_partition ::
  "file_system \<Rightarrow> tensor_span \<Rightarrow> usize \<Rightarrow> tensor_partition \<Rightarrow> (artifact_error, tensor_data) outcome" where
  "read_tensor_axis_partition files span axis p =
     (let m = sp_metadata span; dims = tm_shape m
      in if axis \<ge> length dims
         then Err (invalid_partition span (''tensor rank '' @ show_usize (length dims) @ '' has no axis '' @ show_usize axis))
         else
           let axis_extent = dims ! axis
           in and_then (map_err (\<lambda>e. invalid_partition span (show_partition_error e)) (partition_range p axis_extent)) (\<lambda>(start, finish).
              and_then (ok_or (invalid_partition span (''tensor dtype '' @ tm_dtype m @ '' has no fixed byte width'')) (dtype_byte_width m)) (\<lambda>width.
              and_then (ok_or (invalid_partition span ''tensor element count overflowed'') (element_count m)) (\<lambda>count.
              and_then (ok_or (invalid_partition span ''tensor byte length overflowed'') (checked_mul count width)) (\<lambda>expected.
              if expected \<noteq> sp_byte_len span
              then Err (invalid_partition span (''tensor metadata describes '' @ show_usize expected @ '' bytes but span contains '' @
                show_usize (sp_byte_len span)))
              else
                and_then (checked_shape_product span (take axis dims)) (\<lambda>outer_count.
                and_then (checked_shape_product span (drop (axis + 1) dims)) (\<lambda>inner_count.
                and_then (ok_or (invalid_partition span ''source tensor stride overflowed'') (checked_mul axis_extent inner_count)) (\<lambda>stride.
                let selected = finish - start
                in and_then (ok_or (invalid_partition span ''partition stride overflowed'') (checked_mul selected inner_count)) (\<lambda>row_elements.
                   and_then (ok_or (invalid_partition span ''partition byte stride overflowed'') (checked_mul row_elements width)) (\<lambda>row_bytes.
                   and_then (ok_or (invalid_partition span ''partition byte length overflowed'') (checked_mul outer_count row_bytes)) (\<lambda>total.
                   and_then (alloc_bytes total) (\<lambda>buffer.
                   and_then (open_shard files (sp_path span)) (\<lambda>content.
                   and_then (read_rows span content stride start inner_count width row_bytes [0 ..< outer_count] buffer) (\<lambda>bytes.
                     Ok \<lparr>td_metadata = \<lparr>tm_dtype = tm_dtype m, tm_shape = dims[axis := selected], tm_data_offsets = (0, length bytes)\<rparr>,
                         td_bytes = bytes\<rparr>))))))))))))))"

section \<open>Rows\<close>

lemma concat_blocks: "concat (map (\<lambda>k. take b (drop (a + k * b) xs)) [0 ..< n]) = take (n * b) (drop a xs)"
proof (induction n)
  case (Suc n)
  have "take (n * b + b) (drop a xs) = take (n * b) (drop a xs) @ take b (drop (n * b) (drop a xs))" by (rule take_add)
  then show ?case using Suc by (simp add: add.commute)
qed simp

lemma nth_block:
  assumes "\<And>k. k < n \<Longrightarrow> length (f k) = b" and "j < n"
  shows "take b (drop (j * b) (concat (map f [0 ..< n]))) = f j"
proof -
  have split: "[0 ..< n] = [0 ..< j] @ j # [Suc j ..< n]" using upt_add_eq_append [of 0 j "n - j"] assms(2) by (simp add: upt_conv_Cons)
  have "length (concat (map f [0 ..< j])) = j * b" using assms by (induction j) auto
  then show ?thesis using assms by (simp add: split)
qed

lemma read_rows_filled:
  assumes "\<And>j. j < n \<Longrightarrow> source_position span stride start inner width j = Ok (pos j)"
    and "\<And>j. j < n \<Longrightarrow> pos j + b \<le> length content" and "n * b < 2 ^ 64"
    and "length done_rows = i * b" and "length rest = (n - i) * b" and "i \<le> n"
  shows "read_rows span content stride start inner width b [i ..< n] (done_rows @ rest) =
    Ok (done_rows @ concat (map (\<lambda>j. take b (drop (pos j) content)) [i ..< n]))"
  using assms(4-6)
proof (induction "n - i" arbitrary: i done_rows rest)
  case (Suc d)
  then have i: "i < n" "[i ..< n] = i # [Suc i ..< n]" by (simp_all add: upt_conv_Cons)
  have "Suc i * b \<le> n * b" using i(1) by (intro mult_le_mono1) simp
  then have small: "i * b + b < 2 ^ 64" using assms(3) by simp
  let ?row = "take b (drop (pos i) content)"
  have row: "length ?row = b" using assms(2) [OF i(1)] by simp
  have fit: "i * b + b \<le> length done_rows + length rest" using Suc.prems i(1) by (cases "n - i") (simp_all add: Suc_diff_Suc)
  have rest: "length (drop b rest) = (n - Suc i) * b" using Suc.prems i(1) by (simp add: diff_mult_distrib)
  have IH: "read_rows span content stride start inner width b [Suc i ..< n] ((done_rows @ ?row) @ drop b rest) =
      Ok ((done_rows @ ?row) @ concat (map (\<lambda>j. take b (drop (pos j) content)) [Suc i ..< n]))"
    using Suc row rest i(1) by (intro Suc.hyps(1)) simp_all
  show ?case
    using IH small fit assms(1) [OF i(1)] assms(2) [OF i(1)] Suc.prems(1)
    by (simp add: i(2) checked_mul_def checked_add_def read_exact_at_def)
qed simp

lemma partition_range_ok:
  assumes "0 < n" "n dvd extent" "extent < 2 ^ 64" "k < n"
  shows "partition_range \<lparr>part_count = n, part_index = k\<rparr> extent = Ok (k * (extent div n), Suc k * (extent div n))"
proof -
  have "Suc k * (extent div n) \<le> n * (extent div n)" using assms(4) by (intro mult_le_mono1) simp
  then have "k * (extent div n) + extent div n < 2 ^ 64" using assms by simp
  then show ?thesis using assms by (simp add: partition_range_def Let_def checked_mul_def checked_add_def)
qed

text \<open>The number of bytes behind one index of the outer axes, and the whole tensor.\<close>

definition partition_row :: "tensor_span \<Rightarrow> usize \<Rightarrow> usize \<Rightarrow> usize \<Rightarrow> usize" where
  "partition_row span axis n width = tm_shape (sp_metadata span) ! axis div n * prod_list (drop (axis + 1) (tm_shape (sp_metadata span))) * width"

definition outer_size :: "tensor_span \<Rightarrow> usize \<Rightarrow> usize" where
  "outer_size span axis = prod_list (take axis (tm_shape (sp_metadata span)))"

definition span_valid :: "file_system \<Rightarrow> tensor_span \<Rightarrow> usize \<Rightarrow> u8 list \<Rightarrow> bool" where
  "span_valid files span width content \<longleftrightarrow> files (sp_path span) = Inr content \<and> dtype_byte_width (sp_metadata span) = Some width \<and>
     0 \<notin> set (tm_shape (sp_metadata span)) \<and> sp_byte_len span = prod_list (tm_shape (sp_metadata span)) * width \<and>
     sp_absolute_byte_offset span + sp_byte_len span \<le> length content \<and> length content < 2 ^ 63"

lemma dtype_width_pos: "dtype_byte_width m = Some w \<Longrightarrow> 0 < w"
  by (auto simp: dtype_byte_width_def safetensors_dtype_byte_width_def split: if_splits)

lemma prod_list_split: "axis < length xs \<Longrightarrow> prod_list xs = prod_list (take axis xs) * (xs ! axis * prod_list (drop (Suc axis) xs))"
  for xs :: "nat list"
  using id_take_nth_drop [of axis xs] by (metis prod_list.Cons prod_list.append)

lemma partition_sizes:
  assumes "span_valid files span width content" "axis < length (tm_shape (sp_metadata span))" "0 < n" "n dvd tm_shape (sp_metadata span) ! axis"
  shows "sp_byte_len span = outer_size span axis * (n * partition_row span axis n width)"
    "prod_list (tm_shape (sp_metadata span)) \<le> sp_byte_len span" "0 < prod_list (tm_shape (sp_metadata span))"
    "tm_shape (sp_metadata span) ! axis = n * (tm_shape (sp_metadata span) ! axis div n)"
proof -
  let ?d = "tm_shape (sp_metadata span)"
  show e: "?d ! axis = n * (?d ! axis div n)" using assms(4) by simp
  show "sp_byte_len span = outer_size span axis * (n * partition_row span axis n width)"
    using assms(1) prod_list_split [OF assms(2)] arg_cong [OF e, of "\<lambda>x. x * prod_list (drop (Suc axis) ?d)"]
    by (simp add: span_valid_def outer_size_def partition_row_def mult.assoc)
  show "0 < prod_list ?d" using assms(1) prod_list_zero_iff [of ?d] by (auto simp: span_valid_def)
  have "0 < width" using assms(1) dtype_width_pos by (auto simp: span_valid_def)
  then show "prod_list ?d \<le> sp_byte_len span" using assms(1) by (simp add: span_valid_def)
qed

lemma block_bound:
  fixes i j m n b :: nat
  assumes "j < m" "k < n"
  shows "j * (n * b) + k * b + b \<le> m * (n * b)"
proof -
  have "k * b + b \<le> n * b" using mult_le_mono1 [of "Suc k" n b] assms(2) by simp
  moreover have "j * (n * b) + n * b \<le> m * (n * b)" using mult_le_mono1 [of "Suc j" m "n * b"] assms(1) by simp
  ultimately show ?thesis by linarith
qed

lemma source_position_ok:
  assumes "sp_absolute_byte_offset span + (j * (n * b) + k * b) < 2 ^ 63" "b = l * inner * width" "0 < width" "stride = n * l * inner"
  shows "source_position span stride (k * l) inner width j = Ok (sp_absolute_byte_offset span + (j * (n * b) + k * b))"
proof -
  have bytes: "(j * stride + k * l * inner) * width = j * (n * b) + k * b" by (simp add: assms(2,4) algebra_simps)
  have "j * stride + k * l * inner \<le> (j * stride + k * l * inner) * width" using assms(3) by simp
  then have "j * stride + k * l * inner < 2 ^ 63" using assms(1) bytes by linarith
  then have "j * stride < 2 ^ 63" "k * l * inner < 2 ^ 63" by linarith+
  then show ?thesis
    using bytes assms(1) \<open>j * stride + k * l * inner < 2 ^ 63\<close>
    by (simp add: source_position_def checked_mul_def checked_add_def seek_start_def)
qed

lemma partition_rows_read:
  assumes "span_valid files span width content" "axis < length (tm_shape (sp_metadata span))"
    "0 < n" "n dvd tm_shape (sp_metadata span) ! axis" "k < n"
  defines "b \<equiv> partition_row span axis n width" and "dims \<equiv> tm_shape (sp_metadata span)"
  shows "read_rows span content (dims ! axis * prod_list (drop (Suc axis) dims)) (k * (dims ! axis div n)) (prod_list (drop (Suc axis) dims))
      width b [0 ..< outer_size span axis] ([] @ replicate (outer_size span axis * b) 0) =
    Ok ([] @ concat (map (\<lambda>j. take b (drop (sp_absolute_byte_offset span + (j * (n * b) + k * b)) content)) [0 ..< outer_size span axis]))"
proof (rule read_rows_filled)
  let ?I = "prod_list (drop (Suc axis) dims)" and ?L = "dims ! axis div n"
  note sizes = partition_sizes [OF assms(1-4), folded dims_def b_def]
  have fit: "sp_absolute_byte_offset span + sp_byte_len span \<le> length content" "length content < 2 ^ 63" and w: "0 < width"
    using assms(1) dtype_width_pos by (auto simp: span_valid_def)
  have b: "b = ?L * ?I * width" by (simp add: b_def partition_row_def dims_def)
  have stride: "dims ! axis * ?I = n * ?L * ?I" using sizes(4) by (rule arg_cong)
  {
    fix j assume j: "j < outer_size span axis"
    then have bound: "j * (n * b) + k * b + b \<le> sp_byte_len span" using block_bound [OF j assms(5), of b] sizes(1) by simp
    then have "sp_absolute_byte_offset span + (j * (n * b) + k * b) < 2 ^ 63" using fit by linarith
    from source_position_ok [OF this b w stride]
    show "source_position span (dims ! axis * ?I) (k * ?L) ?I width j = Ok (sp_absolute_byte_offset span + (j * (n * b) + k * b))" .
    show "sp_absolute_byte_offset span + (j * (n * b) + k * b) + b \<le> length content" using bound fit(1) by linarith
  }
  have "outer_size span axis * b \<le> sp_byte_len span" using sizes(1) assms(3) by simp
  then show "outer_size span axis * b < 2 ^ 64" using fit by simp
qed simp_all

text \<open>None of the products that the reader checks overflows.\<close>

lemma partition_products:
  assumes "span_valid files span width content" "axis < length (tm_shape (sp_metadata span))"
    "0 < n" "n dvd tm_shape (sp_metadata span) ! axis"
  defines "b \<equiv> partition_row span axis n width" and "dims \<equiv> tm_shape (sp_metadata span)"
  shows "checked_product_from 1 (take axis dims) = Some (outer_size span axis)"
    "checked_product_from 1 (drop (Suc axis) dims) = Some (prod_list (drop (Suc axis) dims))"
    "element_count (sp_metadata span) = Some (prod_list dims)"
    "dims ! axis < 2 ^ 63" "dims ! axis * prod_list (drop (Suc axis) dims) < 2 ^ 63" "sp_byte_len span < 2 ^ 63"
    "b < 2 ^ 63" "outer_size span axis * b < 2 ^ 63"
    "dims ! axis div n * prod_list (drop (Suc axis) dims) < 2 ^ 63"
proof -
  let ?O = "outer_size span axis" and ?I = "prod_list (drop (Suc axis) dims)" and ?E = "dims ! axis"
  note sizes = partition_sizes [OF assms(1-4), folded dims_def b_def]
  have nz: "0 \<notin> set dims" using assms(1) by (simp add: span_valid_def dims_def)
  show len: "sp_byte_len span < 2 ^ 63" using assms(1) by (simp add: span_valid_def)
  then have P: "prod_list dims < 2 ^ 63" using sizes(2) by linarith
  have split: "prod_list dims = ?O * (?E * ?I)" using prod_list_split [of axis dims] assms(2) by (simp add: dims_def outer_size_def)
  then have pos: "0 < ?O" "0 < ?E" "0 < ?I" using sizes(3) by simp_all
  have le: "?O \<le> prod_list dims" "?E \<le> prod_list dims" "?I \<le> prod_list dims" "?E * ?I \<le> prod_list dims"
    using pos by (simp_all add: split)
  show "checked_product_from 1 (take axis dims) = Some ?O"
    using checked_product_from_bounded [of "take axis dims" 1] nz le(1) P set_take_subset [of axis dims]
    by (fastforce simp: outer_size_def dims_def)
  show "checked_product_from 1 (drop (Suc axis) dims) = Some ?I"
    using checked_product_from_bounded [of "drop (Suc axis) dims" 1] nz le(3) P set_drop_subset [of "Suc axis" dims] by fastforce
  show "element_count (sp_metadata span) = Some (prod_list dims)"
    using checked_product_from_bounded [of dims 1] nz P by (simp add: element_count_def shape_element_count_def dims_def)
  show "?E < 2 ^ 63" "?E * ?I < 2 ^ 63" using le P by linarith+
  have "?E div n * ?I \<le> ?E * ?I" by (intro mult_le_mono1) simp
  then show "?E div n * ?I < 2 ^ 63" using le P by linarith
  have "?O * b \<le> sp_byte_len span" using sizes(1) assms(3) by simp
  then show "?O * b < 2 ^ 63" using len by linarith
  moreover have "b \<le> ?O * b" using pos(1) by simp
  ultimately show "b < 2 ^ 63" by linarith
qed

lemma partition_row_length:
  assumes "span_valid files span width content" "axis < length (tm_shape (sp_metadata span))"
    "0 < n" "n dvd tm_shape (sp_metadata span) ! axis" "k < n" "j < outer_size span axis"
  defines "b \<equiv> partition_row span axis n width"
  shows "length (take b (drop (sp_absolute_byte_offset span + (j * (n * b) + k * b)) content)) = b"
proof -
  have "j * (n * b) + k * b + b \<le> sp_byte_len span"
    using block_bound [OF assms(6,5), of b] partition_sizes(1) [OF assms(1-4)] by (simp add: b_def)
  moreover have "sp_absolute_byte_offset span + sp_byte_len span \<le> length content" using assms(1) by (simp add: span_valid_def)
  ultimately show ?thesis by simp
qed

lemma length_concat_blocks: "(\<And>j. j < n \<Longrightarrow> length (f j) = b) \<Longrightarrow> length (concat (map f [0 ..< n])) = n * b"
  by (induction n) simp_all

lemma read_partition:
  assumes "span_valid files span width content" "axis < length (tm_shape (sp_metadata span))"
    "0 < n" "n dvd tm_shape (sp_metadata span) ! axis" "k < n"
  defines "b \<equiv> partition_row span axis n width" and "dims \<equiv> tm_shape (sp_metadata span)"
  shows "read_tensor_axis_partition files span axis \<lparr>part_count = n, part_index = k\<rparr> =
    Ok \<lparr>td_metadata = \<lparr>tm_dtype = tm_dtype (sp_metadata span), tm_shape = dims[axis := dims ! axis div n], tm_data_offsets = (0, outer_size span axis * b)\<rparr>,
        td_bytes = concat (map (\<lambda>j. take b (drop (sp_absolute_byte_offset span + (j * (n * b) + k * b)) content)) [0 ..< outer_size span axis])\<rparr>"
proof -
  note products = partition_products [OF assms(1-4), folded dims_def b_def]
  have v: "files (sp_path span) = Inr content" "dtype_byte_width (sp_metadata span) = Some width" "sp_byte_len span = prod_list dims * width"
    using assms(1) by (simp_all add: span_valid_def dims_def)
  have range: "partition_range \<lparr>part_count = n, part_index = k\<rparr> (dims ! axis) = Ok (k * (dims ! axis div n), Suc k * (dims ! axis div n))"
    using partition_range_ok [OF assms(3) _ _ assms(5), of "dims ! axis"] assms(4) products(4) by (simp add: dims_def)
  note rows = partition_rows_read [OF assms(1-5), folded dims_def b_def]
  have len: "length (concat (map (\<lambda>j. take b (drop (sp_absolute_byte_offset span + (j * (n * b) + k * b)) content)) [0 ..< outer_size span axis])) =
      outer_size span axis * b"
    using partition_row_length [OF assms(1-5), folded b_def] by (rule length_concat_blocks)
  have b: "dims ! axis div n * prod_list (drop (Suc axis) dims) * width = b" by (simp add: b_def partition_row_def dims_def)
  show ?thesis
    using products range rows len v assms(2)
    by (simp add: read_tensor_axis_partition_def Let_def checked_shape_product_def open_shard_def alloc_bytes_def checked_mul_def b
        flip: dims_def)
qed

section \<open>All partitions together are the tensor\<close>

text \<open>Putting the parts of all ranks together along the axis, for every index of the outer axes.\<close>

definition join_axis :: "usize \<Rightarrow> usize \<Rightarrow> u8 list list \<Rightarrow> u8 list" where
  "join_axis outer row parts = concat (map (\<lambda>j. concat (map (\<lambda>p. take row (drop (j * row) p)) parts)) [0 ..< outer])"

lemma join_axis_blocks:
  assumes "\<And>k j. k < n \<Longrightarrow> j < outer \<Longrightarrow> length (take b (drop (a + (j * (n * b) + k * b)) xs)) = b"
  shows "join_axis outer b (map (\<lambda>k. concat (map (\<lambda>j. take b (drop (a + (j * (n * b) + k * b)) xs)) [0 ..< outer])) [0 ..< n]) =
    take (outer * (n * b)) (drop a xs)"
proof -
  have "concat (map (\<lambda>p. take b (drop (j * b) p)) (map (\<lambda>k. concat (map (\<lambda>j. take b (drop (a + (j * (n * b) + k * b)) xs)) [0 ..< outer])) [0 ..< n])) =
      take (n * b) (drop (a + j * (n * b)) xs)" if "j < outer" for j
  proof -
    have "take b (drop (j * b) (concat (map (\<lambda>j. take b (drop (a + (j * (n * b) + k * b)) xs)) [0 ..< outer]))) =
        take b (drop (a + j * (n * b) + k * b) xs)" if "k < n" for k
      using nth_block [of outer "\<lambda>j. take b (drop (a + (j * (n * b) + k * b)) xs)" b j] assms [OF that] \<open>j < outer\<close> by (simp add: add.assoc)
    then have "map ((\<lambda>p. take b (drop (j * b) p)) \<circ> (\<lambda>k. concat (map (\<lambda>j. take b (drop (a + (j * (n * b) + k * b)) xs)) [0 ..< outer]))) [0 ..< n] =
        map (\<lambda>k. take b (drop (a + j * (n * b) + k * b) xs)) [0 ..< n]" by (intro map_cong) simp_all
    then show ?thesis by (simp only: map_map concat_blocks)
  qed
  then have "map (\<lambda>j. concat (map (\<lambda>p. take b (drop (j * b) p)) (map (\<lambda>k. concat (map (\<lambda>j. take b (drop (a + (j * (n * b) + k * b)) xs)) [0 ..< outer])) [0 ..< n]))) [0 ..< outer] =
      map (\<lambda>j. take (n * b) (drop (a + j * (n * b)) xs)) [0 ..< outer]" by (intro map_cong) simp_all
  then show ?thesis by (simp only: join_axis_def concat_blocks)
qed

text \<open>
  (C15) Reading a tensor in parts loses and duplicates nothing: for every number of ranks that divides the extent of
  the axis, every rank can read its part of a valid span, each part has the shape of the tensor with the axis divided, and the parts
  of all ranks, put together along the axis, are the bytes of the tensor.
\<close>

theorem tensor_partitions_reassemble:
  assumes "span_valid files span width content" and "axis < length (tm_shape (sp_metadata span))"
    and "0 < n" and "n dvd tm_shape (sp_metadata span) ! axis"
  shows "\<exists>parts. length parts = n \<and>
    (\<forall>k < n. \<exists>p. partition_new n k = Ok p \<and>
       read_tensor_axis_partition files span axis p = Ok (parts ! k) \<and> tm_dtype (td_metadata (parts ! k)) = tm_dtype (sp_metadata span) \<and>
       tm_shape (td_metadata (parts ! k)) = (tm_shape (sp_metadata span))[axis := tm_shape (sp_metadata span) ! axis div n] \<and>
       tm_data_offsets (td_metadata (parts ! k)) = (0, length (td_bytes (parts ! k)))) \<and>
    join_axis (outer_size span axis) (partition_row span axis n width) (map td_bytes parts) =
      take (sp_byte_len span) (drop (sp_absolute_byte_offset span) content)"
proof -
  define b where "b = partition_row span axis n width"
  define rows where "rows k = concat (map (\<lambda>j. take b (drop (sp_absolute_byte_offset span + (j * (n * b) + k * b)) content)) [0 ..< outer_size span axis])" for k
  define md where "md = \<lparr>tm_dtype = tm_dtype (sp_metadata span),
      tm_shape = (tm_shape (sp_metadata span))[axis := tm_shape (sp_metadata span) ! axis div n], tm_data_offsets = (0, outer_size span axis * b)\<rparr>"
  define parts where "parts = map (\<lambda>k. \<lparr>td_metadata = md, td_bytes = rows k\<rparr>) [0 ..< n]"
  note row = partition_row_length [OF assms, folded b_def]
  have "length (rows k) = outer_size span axis * b" if "k < n" for k
    unfolding rows_def using row [OF that] by (rule length_concat_blocks)
  moreover have "partition_new n k = Ok \<lparr>part_count = n, part_index = k\<rparr>" if "k < n" for k
    using that by (simp add: partition_new_def)
  moreover have "read_tensor_axis_partition files span axis \<lparr>part_count = n, part_index = k\<rparr> = Ok \<lparr>td_metadata = md, td_bytes = rows k\<rparr>" if "k < n" for k
    using read_partition [OF assms that] by (simp add: rows_def md_def b_def)
  moreover have "map td_bytes parts = map rows [0 ..< n]" by (simp add: parts_def comp_def)
  moreover have "length parts = n" "\<And>k. k < n \<Longrightarrow> parts ! k = \<lparr>td_metadata = md, td_bytes = rows k\<rparr>" by (simp_all add: parts_def)
  moreover have "join_axis (outer_size span axis) b (map rows [0 ..< n]) = take (sp_byte_len span) (drop (sp_absolute_byte_offset span) content)"
    unfolding rows_def using row partition_sizes(1) [OF assms] by (subst join_axis_blocks) (simp_all add: b_def)
  ultimately show ?thesis by (intro exI [of _ parts]) (auto simp: md_def b_def)
qed

text \<open>A matrix of two rows and four columns, split over two ranks.\<close>

definition sample_matrix :: tensor_span where
  "sample_matrix = \<lparr>sp_path = ''m'', sp_metadata = \<lparr>tm_dtype = ''U8'', tm_shape = [2, 4], tm_data_offsets = (0, 8)\<rparr>,
     sp_absolute_byte_offset = 1, sp_byte_len = 8\<rparr>"

theorem tensor_partitions_reassemble_witness:
  "\<exists>a b. map_option td_bytes (case read_tensor_axis_partition (\<lambda>_. Inr [9, 1, 2, 3, 4, 5, 6, 7, 8]) sample_matrix 1 \<lparr>part_count = 2, part_index = 0\<rparr> of
       Ok d \<Rightarrow> Some d | _ \<Rightarrow> None) = Some a \<and>
     join_axis 2 2 [a, b] = [1, 2, 3, 4, 5, 6, 7, 8]"
proof -
  have "span_valid (\<lambda>_. Inr [9, 1, 2, 3, 4, 5, 6, 7, 8]) sample_matrix 1 [9, 1, 2, 3, 4, 5, 6, 7, 8]"
    by (simp add: span_valid_def sample_matrix_def dtype_byte_width_def safetensors_dtype_byte_width_def)
  moreover have "1 < length (tm_shape (sp_metadata sample_matrix))" "2 dvd tm_shape (sp_metadata sample_matrix) ! 1"
    by (simp_all add: sample_matrix_def)
  ultimately obtain parts where len: "length parts = 2" and
    all: "\<forall>k < 2. \<exists>p. partition_new 2 k = Ok p \<and>
       read_tensor_axis_partition (\<lambda>_. Inr [9, 1, 2, 3, 4, 5, 6, 7, 8]) sample_matrix 1 p = Ok (parts ! k)" and
    join: "join_axis (outer_size sample_matrix 1) (partition_row sample_matrix 1 2 1) (map td_bytes parts) =
      take (sp_byte_len sample_matrix) (drop (sp_absolute_byte_offset sample_matrix) [9, 1, 2, 3, 4, 5, 6, 7, 8])"
    using tensor_partitions_reassemble [of "\<lambda>_. Inr [9, 1, 2, 3, 4, 5, 6, 7, 8]" sample_matrix 1 "[9, 1, 2, 3, 4, 5, 6, 7, 8]" 1 2] by force
  then obtain x y where "parts = [x, y]" by (metis (no_types) Suc_length_conv length_0_conv numeral_2_eq_2)
  moreover have "read_tensor_axis_partition (\<lambda>_. Inr [9, 1, 2, 3, 4, 5, 6, 7, 8]) sample_matrix 1 \<lparr>part_count = 2, part_index = 0\<rparr> = Ok (parts ! 0)"
    using all [rule_format, of 0] by (simp add: partition_new_def)
  ultimately show ?thesis
    using join by (intro exI [of _ "td_bytes x"] exI [of _ "td_bytes y"]) (simp add: sample_matrix_def outer_size_def partition_row_def)
qed

section \<open>Ranks and heads\<close>

lemma try_collect_all: "(\<And>x. x \<in> set xs \<Longrightarrow> f x = Ok (g x)) \<Longrightarrow> try_collect f xs = Ok (map g xs)"
  by (induction xs) simp_all

lemma try_collect_Ok: "try_collect f xs = Ok ys \<Longrightarrow> list_all2 (\<lambda>x y. f x = Ok y) xs ys"
  by (induction xs arbitrary: ys) (auto simp: outcome_simps)

text \<open>The ranks of a node: consecutive global ranks, and a device of its own for each.\<close>

lemma tp_topology_new_Ok:
  assumes "tp_topology_new world nodes node base step = Ok t"
  shows "length (tpt_local_ranks t) = world div nodes" "0 < step" "node < nodes" "nodes dvd world"
    "\<And>i. i < world div nodes \<Longrightarrow> tpt_local_ranks t ! i =
       \<lparr>tpr_global_rank = node * (world div nodes) + i, tpr_local_rank = i, tpr_world_size = world, tpr_device_ordinal = base + i * step\<rparr>"
proof -
  obtain ranks where t: "t = \<lparr>tpt_world_size = world, tpt_node_count = nodes, tpt_node_rank = node, tpt_local_ranks = ranks\<rparr>"
    and ranks: "try_collect (local_tp_rank world node (world div nodes) (node * (world div nodes)) base step) [0 ..< world div nodes] = Ok ranks"
    and ok: "0 < step" "node < nodes" "nodes dvd world"
    using assms by (auto simp: tp_topology_new_def Let_def outcome_simps split: if_splits)
  show "0 < step" "node < nodes" "nodes dvd world" by (fact ok)+
  note all = try_collect_Ok [OF ranks]
  show "length (tpt_local_ranks t) = world div nodes" using list_all2_lengthD [OF all] by (simp add: t)
  show "tpt_local_ranks t ! i = \<lparr>tpr_global_rank = node * (world div nodes) + i, tpr_local_rank = i, tpr_world_size = world, tpr_device_ordinal = base + i * step\<rparr>"
    if "i < world div nodes" for i
    using list_all2_nthD [OF all, of i] that by (auto simp: t local_tp_rank_def outcome_simps bind_eq_Some_conv)
qed

lemma div_block:
  fixes r m q :: nat
  assumes "r * m \<le> q" "q < Suc r * m"
  shows "q div m = r"
proof -
  have "0 < m" using assms by (cases m) simp_all
  then show ?thesis using assms by (intro div_nat_eqI) (simp_all add: mult.commute)
qed

lemma local_rank_in_world:
  assumes "tp_topology_new world nodes node base step = Ok t" "r \<in> set (tpt_local_ranks t)"
  shows "tpr_global_rank r < world" "tpr_world_size r = world"
proof -
  note t = tp_topology_new_Ok [OF assms(1)]
  obtain i where i: "i < world div nodes" "r = tpt_local_ranks t ! i" using assms(2) t(1) by (metis in_set_conv_nth)
  have "Suc node * (world div nodes) \<le> nodes * (world div nodes)" using t(3) by (intro mult_le_mono1) simp
  then show "tpr_global_rank r < world" "tpr_world_size r = world" using i t(4,5) by simp_all
qed

text \<open>Where the key and value heads of a rank are, for both ways to place them.\<close>

lemma kv_plan_range:
  assumes "if kv \<ge> w then w dvd kv else kv dvd w" "0 < kv" "kv < 2 ^ 64" "tpr_world_size r = w" "tpr_global_rank r < w"
  shows "\<exists>p n. kv_plan kv r = Ok (p, n) \<and>
    (if kv \<ge> w then n = kv div w \<and> partition_range p kv = Ok (tpr_global_rank r * n, Suc (tpr_global_rank r) * n)
     else n = 1 \<and> partition_range p kv = Ok (tpr_global_rank r div (w div kv), Suc (tpr_global_rank r div (w div kv))))"
proof (cases "kv \<ge> w")
  case True
  then show ?thesis
    using assms partition_range_ok [of w kv "tpr_global_rank r"] by (simp add: kv_plan_def Let_def partition_for_rank_def)
next
  case False
  then have "kv dvd w" using assms(1) by simp
  moreover have "tpr_global_rank r div (w div kv) < kv"
    using assms(2,5) \<open>kv dvd w\<close> False by (intro less_mult_imp_div_less) (simp add: mult.commute)
  ultimately show ?thesis
    using False assms partition_range_ok [of kv kv "tpr_global_rank r div (w div kv)"]
    by (simp add: kv_plan_def Let_def for_replicated_shards_def partition_new_def)
qed

lemma head_in_group:
  fixes q g m r :: nat
  assumes "r * (m * g) \<le> q" "q < Suc r * (m * g)"
  shows "r * m \<le> q div g \<and> q div g < Suc r * m"
proof -
  have "0 < g" using assms by (cases g) simp_all
  then show ?thesis using assms by (simp add: less_eq_div_iff_mult_less_eq div_less_iff_less_mult algebra_simps)
qed



end
