(* ===== verification/Moe_Comm.thy ===== *)
theory Moe_Comm
  imports Sgl_Prelude
begin

text \<open>
  Expert parallelism, \<open>crates/sglang-srt/src/distributed/moe_a2a.rs\<close>: the mapping of experts to ranks, and the communicator by
  which ranks exchange packets, \<open>ChannelMoeCommunicator\<close>.

  Each rank runs on a thread of its own; a call of \<open>dispatch_all_to_all\<close> or \<open>combine_all_to_all\<close> is a sequence of steps: it partitions
  its packets, sends a batch to every rank in turn, receives as many batches as there are ranks and returns.  The steps of
  all ranks interleave arbitrarily.  Messages in the channels carry the number of the call and the rank they come from; the operations
  never look at these, they are there to state what is received.  All communicators live until the
  end, so no channel is closed.  Floats are their bit patterns, their sum and product are arguments.
\<close>

section \<open>Experts and ranks\<close>

datatype moe_comm_error =
    ZeroDimension string
  | UnevenSharding usize usize
  | InvalidExpertId usize usize
  | RankOutOfRange usize usize
  | ChannelClosed
  | HiddenDimensionMismatch usize usize

fun show_moe_comm_error :: "moe_comm_error \<Rightarrow> string" where
  "show_moe_comm_error (ZeroDimension name) = ''MoE dimension '' @ [CHR 0x27] @ name @ [CHR 0x27] @ '' must be non-zero''"
| "show_moe_comm_error (UnevenSharding total_experts ep_size) =
     ''total experts ('' @ show_usize total_experts @ '') must be divisible by ep_size ('' @ show_usize ep_size @ '')''"
| "show_moe_comm_error (InvalidExpertId expert_id total_experts) =
     ''expert_id '' @ show_usize expert_id @ '' out of bounds for total_experts '' @ show_usize total_experts"
| "show_moe_comm_error (RankOutOfRange rank ep_size) = ''rank '' @ show_usize rank @ '' out of bounds for ep_size '' @ show_usize ep_size"
| "show_moe_comm_error ChannelClosed = ''MoE communication channel closed unexpectedly''"
| "show_moe_comm_error (HiddenDimensionMismatch expected actual) =
     ''hidden dimension mismatch: expected '' @ show_usize expected @ '', actual '' @ show_usize actual"

record expert_mapping =
  em_total_experts :: usize
  em_ep_size :: usize
  em_experts_per_rank :: usize

definition expert_mapping_new :: "usize \<Rightarrow> usize \<Rightarrow> (moe_comm_error, expert_mapping) outcome" where
  "expert_mapping_new total_experts ep_size =
     (if total_experts = 0 then Err (ZeroDimension ''total_experts'')
      else if ep_size = 0 then Err (ZeroDimension ''ep_size'')
      else if \<not> is_multiple_of total_experts ep_size then Err (UnevenSharding total_experts ep_size)
      else Ok \<lparr>em_total_experts = total_experts, em_ep_size = ep_size, em_experts_per_rank = total_experts div ep_size\<rparr>)"

definition rank_for_expert :: "expert_mapping \<Rightarrow> usize \<Rightarrow> (moe_comm_error, usize) outcome" where
  "rank_for_expert m expert_id =
     (if expert_id \<ge> em_total_experts m then Err (InvalidExpertId expert_id (em_total_experts m))
      else Ok (expert_id div em_experts_per_rank m))"

definition local_expert_index :: "expert_mapping \<Rightarrow> usize \<Rightarrow> (moe_comm_error, usize) outcome" where
  "local_expert_index m expert_id =
     (if expert_id \<ge> em_total_experts m then Err (InvalidExpertId expert_id (em_total_experts m))
      else Ok (expert_id mod em_experts_per_rank m))"

definition global_expert_id :: "expert_mapping \<Rightarrow> usize \<Rightarrow> usize \<Rightarrow> (moe_comm_error, usize) outcome" where
  "global_expert_id m rank local_index =
     (if rank \<ge> em_ep_size m then Err (RankOutOfRange rank (em_ep_size m))
      else if local_index \<ge> em_experts_per_rank m then Err (InvalidExpertId local_index (em_experts_per_rank m))
      else Ok (rank * em_experts_per_rank m + local_index))"

definition global_expert_range :: "expert_mapping \<Rightarrow> usize \<Rightarrow> (moe_comm_error, usize \<times> usize) outcome" where
  "global_expert_range m rank =
     (if rank \<ge> em_ep_size m then Err (RankOutOfRange rank (em_ep_size m))
      else let start = rank * em_experts_per_rank m in Ok (start, start + em_experts_per_rank m))"

section \<open>Packets\<close>

record dispatch_packet =
  dk_token_idx :: usize
  dk_source_rank :: usize
  dk_target_rank :: usize
  dk_expert_id :: usize
  dk_local_expert_id :: usize
  dk_routing_weight :: u32
  dk_hidden_state :: "u32 list"

record combine_packet =
  ck_token_idx :: usize
  ck_source_rank :: usize
  ck_expert_id :: usize
  ck_routing_weight :: u32
  ck_output_state :: "u32 list"

datatype packet = DispatchPacket dispatch_packet | CombinePacket combine_packet

fun is_dispatch :: "packet \<Rightarrow> bool" where
  "is_dispatch (DispatchPacket _) = True"
| "is_dispatch (CombinePacket _) = False"

text \<open>The rank a packet goes to: the host of the expert, or the origin of the token.\<close>

fun packet_rank :: "packet \<Rightarrow> usize" where
  "packet_rank (DispatchPacket p) = dk_target_rank p"
| "packet_rank (CombinePacket p) = ck_source_rank p"

fun partition_loop :: "usize \<Rightarrow> packet list \<Rightarrow> packet list list \<Rightarrow> (moe_comm_error, packet list list) outcome" where
  "partition_loop ep_size [] partitioned = Ok partitioned"
| "partition_loop ep_size (p # outbound) partitioned =
     (if packet_rank p \<ge> ep_size then Err (RankOutOfRange (packet_rank p) ep_size)
      else partition_loop ep_size outbound (partitioned[packet_rank p := partitioned ! packet_rank p @ [p]]))"

definition partition_packets :: "usize \<Rightarrow> packet list \<Rightarrow> (moe_comm_error, packet list list) outcome" where
  "partition_packets ep_size outbound = partition_loop ep_size outbound (replicate ep_size [])"

section \<open>The group of communicators\<close>

record message =
  ms_call :: nat
  ms_source :: usize
  ms_batch :: "packet list"

datatype stage = Ready | Sending "packet list list" | Receiving "message list"

record comm_rank =
  cr_calls :: nat
  cr_stage :: stage

text \<open>One channel per rank and kind of call; \<open>cg_outbound\<close> remembers what each call was given.\<close>

record comm_group =
  cg_ranks :: "comm_rank list"
  cg_dispatch :: "message list list"
  cg_combine :: "message list list"
  cg_outbound :: "((nat \<times> usize) \<times> packet list) list"

definition create_group :: "usize \<Rightarrow> (moe_comm_error, comm_group) outcome" where
  "create_group ep_size =
     (if ep_size = 0 then Err (ZeroDimension ''ep_size'')
      else Ok \<lparr>cg_ranks = replicate ep_size \<lparr>cr_calls = 0, cr_stage = Ready\<rparr>, cg_dispatch = replicate ep_size [],
              cg_combine = replicate ep_size [], cg_outbound = []\<rparr>)"

definition channel :: "bool \<Rightarrow> comm_group \<Rightarrow> usize \<Rightarrow> message list" where
  "channel dispatch g t = (if dispatch then cg_dispatch g else cg_combine g) ! t"

definition set_channel :: "bool \<Rightarrow> usize \<Rightarrow> message list \<Rightarrow> comm_group \<Rightarrow> comm_group" where
  "set_channel dispatch t q g =
     (if dispatch then g\<lparr>cg_dispatch := (cg_dispatch g)[t := q]\<rparr> else g\<lparr>cg_combine := (cg_combine g)[t := q]\<rparr>)"

definition set_rank :: "usize \<Rightarrow> nat \<Rightarrow> stage \<Rightarrow> comm_group \<Rightarrow> comm_group" where
  "set_rank i c st g = g\<lparr>cg_ranks := (cg_ranks g)[i := \<lparr>cr_calls = c, cr_stage = st\<rparr>]\<rparr>"

definition after_send :: "packet list list \<Rightarrow> stage" where
  "after_send batches = (if batches = [] then Receiving [] else Sending batches)"

text \<open>
  \<open>kind c\<close> says whether the call number \<open>c\<close> of every rank is a dispatch; all ranks run the same program.  A call that is given a packet for a
  rank that does not exist fails before it sends anything, and leaves the group as it is.
\<close>

inductive comm_step :: "(nat \<Rightarrow> bool) \<Rightarrow> usize \<Rightarrow> comm_group \<Rightarrow> comm_group \<Rightarrow> bool" for kind ep_size where
  call: "comm_step kind ep_size g ((set_rank i c (Sending batches) g)\<lparr>cg_outbound := ((c, i), outbound) # cg_outbound g\<rparr>)"
    if "i < ep_size" "cg_ranks g ! i = \<lparr>cr_calls = c, cr_stage = Ready\<rparr>" "\<forall>p \<in> set outbound. is_dispatch p = kind c"
      "partition_packets ep_size outbound = Ok batches"
| send: "comm_step kind ep_size g
      (set_channel (kind c) t (channel (kind c) g t @ [\<lparr>ms_call = c, ms_source = i, ms_batch = b\<rparr>]) (set_rank i c (after_send bs) g))"
    if "i < ep_size" "cg_ranks g ! i = \<lparr>cr_calls = c, cr_stage = Sending (b # bs)\<rparr>" "t = ep_size - length (b # bs)"
| recv: "comm_step kind ep_size g (set_channel (kind c) i q (set_rank i c (Receiving (got @ [m])) g))"
    if "i < ep_size" "cg_ranks g ! i = \<lparr>cr_calls = c, cr_stage = Receiving got\<rparr>" "length got < ep_size" "channel (kind c) g i = m # q"
| finish: "comm_step kind ep_size g (set_rank i (Suc c) Ready g)"
    if "i < ep_size" "cg_ranks g ! i = \<lparr>cr_calls = c, cr_stage = Receiving got\<rparr>" "length got = ep_size"

definition comm_reachable :: "(nat \<Rightarrow> bool) \<Rightarrow> usize \<Rightarrow> comm_group \<Rightarrow> bool" where
  "comm_reachable kind ep_size g \<longleftrightarrow> (\<exists>start. create_group ep_size = Ok start \<and> (comm_step kind ep_size)\<^sup>*\<^sup>* start g)"

text \<open>Dispatch and combine take turns.\<close>

definition alternating :: "(nat \<Rightarrow> bool) \<Rightarrow> bool" where
  "alternating kind \<longleftrightarrow> (\<forall>c. kind (Suc c) = (\<not> kind c))"

text \<open>What a call returns when it has received all its batches.\<close>

definition inbound_of :: "message list \<Rightarrow> packet list" where
  "inbound_of got = concat (map ms_batch got)"

definition outbound_of :: "comm_group \<Rightarrow> nat \<Rightarrow> usize \<Rightarrow> packet list" where
  "outbound_of g c s = (case map_of (cg_outbound g) (c, s) of Some ps \<Rightarrow> ps | None \<Rightarrow> [])"

section \<open>Recombination\<close>

fun recombine_loop ::
  "(u32 \<Rightarrow> u32 \<Rightarrow> u32) \<Rightarrow> (u32 \<Rightarrow> u32 \<Rightarrow> u32) \<Rightarrow> usize \<Rightarrow> usize \<Rightarrow> combine_packet list \<Rightarrow> u32 list list \<Rightarrow> (moe_comm_error, u32 list list) outcome" where
  "recombine_loop add mul num_tokens hidden_dim [] combined = Ok combined"
| "recombine_loop add mul num_tokens hidden_dim (p # packets) combined =
     (if ck_token_idx p \<ge> num_tokens then Err (InvalidExpertId (ck_token_idx p) num_tokens)
      else if length (ck_output_state p) \<noteq> hidden_dim then Err (HiddenDimensionMismatch hidden_dim (length (ck_output_state p)))
      else recombine_loop add mul num_tokens hidden_dim packets
        (combined[ck_token_idx p := map2 (\<lambda>dst src. add dst (mul (ck_routing_weight p) src)) (combined ! ck_token_idx p) (ck_output_state p)]))"

definition recombine_token_states ::
  "(u32 \<Rightarrow> u32 \<Rightarrow> u32) \<Rightarrow> (u32 \<Rightarrow> u32 \<Rightarrow> u32) \<Rightarrow> combine_packet list \<Rightarrow> usize \<Rightarrow> usize \<Rightarrow> (moe_comm_error, u32 list list) outcome" where
  "recombine_token_states add mul packets num_tokens hidden_dim =
     recombine_loop add mul num_tokens hidden_dim packets (replicate num_tokens (replicate hidden_dim 0))"

section \<open>Laws of mapping and partition\<close>

lemma expert_mapping_roundtrip:
  assumes "expert_mapping_new n_experts ep = Ok m" "e < n_experts"
  shows "\<exists>r l. rank_for_expert m e = Ok r \<and> local_expert_index m e = Ok l \<and> global_expert_id m r l = Ok e \<and>
    (\<exists>a b. global_expert_range m r = Ok (a, b) \<and> a \<le> e \<and> e < b)"
proof -
  obtain k where m: "m = \<lparr>em_total_experts = n_experts, em_ep_size = ep, em_experts_per_rank = k\<rparr>" and k: "n_experts = ep * k" "0 < ep" "0 < k"
    using assms(1) by (auto simp: expert_mapping_new_def split: if_splits)
  have "e div k < ep" using assms(2) k by (intro less_mult_imp_div_less) simp
  moreover have "e < e div k * k + k" using dividend_less_div_times [OF k(3), of e] by (simp add: add.commute)
  moreover have "\<not> k \<le> e mod k" using k(3) by (simp add: not_le)
  ultimately show ?thesis using assms(2) by (simp add: m rank_for_expert_def local_expert_index_def global_expert_id_def global_expert_range_def Let_def)
qed

definition batches_of :: "usize \<Rightarrow> packet list \<Rightarrow> packet list list" where
  "batches_of n ps = map (\<lambda>t. filter (\<lambda>p. packet_rank p = t) ps) [0 ..< n]"

lemma partition_loop_filter:
  "length parts = n \<Longrightarrow> partition_loop n ps parts = Ok r \<Longrightarrow> r = map (\<lambda>t. parts ! t @ filter (\<lambda>p. packet_rank p = t) ps) [0 ..< n]"
proof (induction ps arbitrary: parts)
  case Nil
  then show ?case by (auto intro!: nth_equalityI)
next
  case (Cons p ps)
  then have p: "packet_rank p < n" by (simp split: if_splits)
  from Cons.prems p have "partition_loop n ps (parts[packet_rank p := parts ! packet_rank p @ [p]]) = Ok r" by simp
  from Cons.IH [OF _ this] Cons.prems(1) p show ?case by (auto simp: nth_list_update)
qed

lemma partition_packets_batches: "partition_packets n ps = Ok r \<Longrightarrow> r = batches_of n ps"
  unfolding partition_packets_def batches_of_def by (drule partition_loop_filter [rotated]) (auto intro!: map_cong)

section \<open>Invariant\<close>

definition calls :: "comm_group \<Rightarrow> usize \<Rightarrow> nat" where
  "calls g i = cr_calls (cg_ranks g ! i)"

definition stage_of :: "comm_group \<Rightarrow> usize \<Rightarrow> stage" where
  "stage_of g i = cr_stage (cg_ranks g ! i)"

text \<open>Rank \<open>s\<close> has sent its batch of call \<open>c\<close> to rank \<open>t\<close>.\<close>

definition sent_to :: "usize \<Rightarrow> comm_group \<Rightarrow> usize \<Rightarrow> usize \<Rightarrow> nat \<Rightarrow> bool" where
  "sent_to n g s t c \<longleftrightarrow> c < calls g s \<or>
     c = calls g s \<and> (case stage_of g s of Ready \<Rightarrow> False | Sending bs \<Rightarrow> t < n - length bs | Receiving _ \<Rightarrow> True)"

definition got_of :: "comm_group \<Rightarrow> usize \<Rightarrow> message list" where
  "got_of g t = (case stage_of g t of Receiving got \<Rightarrow> got | _ \<Rightarrow> [])"

text \<open>Messages that hold, once per rank of a set, the packets of that rank for \<open>t\<close> in call \<open>c\<close>.\<close>

definition delivered :: "comm_group \<Rightarrow> usize \<Rightarrow> nat \<Rightarrow> message list \<Rightarrow> usize set \<Rightarrow> bool" where
  "delivered g t c ms S \<longleftrightarrow> distinct (map ms_source ms) \<and> ms_source ` set ms = S \<and>
     (\<forall>m \<in> set ms. ms_call m = c \<and> ms_batch m = filter (\<lambda>p. packet_rank p = t) (outbound_of g c (ms_source m)))"

definition sizes_ok :: "usize \<Rightarrow> comm_group \<Rightarrow> bool" where
  "sizes_ok n g \<longleftrightarrow> length (cg_ranks g) = n \<and> length (cg_dispatch g) = n \<and> length (cg_combine g) = n"

definition sending_ok :: "usize \<Rightarrow> comm_group \<Rightarrow> bool" where
  "sending_ok n g \<longleftrightarrow> (\<forall>i < n. \<forall>bs. stage_of g i = Sending bs \<longrightarrow>
     bs \<noteq> [] \<and> length bs \<le> n \<and> bs = drop (n - length bs) (batches_of n (outbound_of g (calls g i) i)))"

definition in_step :: "usize \<Rightarrow> comm_group \<Rightarrow> bool" where
  "in_step n g \<longleftrightarrow> (\<forall>s < n. \<forall>t < n. calls g t < calls g s \<longrightarrow> calls g s = Suc (calls g t) \<and> sent_to n g t s (calls g t))"

definition channels_ok :: "(nat \<Rightarrow> bool) \<Rightarrow> usize \<Rightarrow> comm_group \<Rightarrow> usize \<Rightarrow> bool" where
  "channels_ok kind n g t \<longleftrightarrow>
     delivered g t (calls g t) (got_of g t @ channel (kind (calls g t)) g t) {s. s < n \<and> sent_to n g s t (calls g t)} \<and>
     delivered g t (Suc (calls g t)) (channel (\<not> kind (calls g t)) g t) {s. s < n \<and> sent_to n g s t (Suc (calls g t))}"

definition comm_inv :: "(nat \<Rightarrow> bool) \<Rightarrow> usize \<Rightarrow> comm_group \<Rightarrow> bool" where
  "comm_inv kind n g \<longleftrightarrow> sizes_ok n g \<and> sending_ok n g \<and> in_step n g \<and> (\<forall>t < n. channels_ok kind n g t)"

lemma set_rank_access [simp]:
  assumes "i < length (cg_ranks g)"
  shows "calls (set_rank i c st g) s = (if s = i then c else calls g s)"
    "stage_of (set_rank i c st g) s = (if s = i then st else stage_of g s)"
  using assms by (simp_all add: calls_def stage_of_def set_rank_def nth_list_update)

lemma set_rank_keeps [simp]:
  "channel k (set_rank i c st g) t = channel k g t" "outbound_of (set_rank i c st g) = outbound_of g"
  "sizes_ok n (set_rank i c st g) = sizes_ok n g"
  by (simp_all add: channel_def set_rank_def outbound_of_def fun_eq_iff sizes_ok_def)

lemma set_channel_keeps [simp]:
  "calls (set_channel k t q g) = calls g" "stage_of (set_channel k t q g) = stage_of g" "outbound_of (set_channel k t q g) = outbound_of g"
  "sizes_ok n (set_channel k t q g) = sizes_ok n g"
  by (simp_all add: set_channel_def calls_def stage_of_def outbound_of_def fun_eq_iff sizes_ok_def)

lemma set_channel_access [simp]:
  "sizes_ok n g \<Longrightarrow> t < n \<Longrightarrow> channel k' (set_channel k t q g) t' = (if k' = k \<and> t' = t then q else channel k' g t')"
  by (auto simp: set_channel_def channel_def sizes_ok_def nth_list_update)

lemma outbound_update [simp]:
  "calls (g\<lparr>cg_outbound := os\<rparr>) = calls g" "stage_of (g\<lparr>cg_outbound := os\<rparr>) = stage_of g" "channel k (g\<lparr>cg_outbound := os\<rparr>) = channel k g"
  "sizes_ok n (g\<lparr>cg_outbound := os\<rparr>) = sizes_ok n g"
  "outbound_of (g\<lparr>cg_outbound := ((c, i), ps) # cg_outbound g\<rparr>) c' s = (if c' = c \<and> s = i then ps else outbound_of g c' s)"
  by (auto simp: calls_def stage_of_def channel_def outbound_of_def sizes_ok_def fun_eq_iff)

lemma rank_access: "cg_ranks g ! i = \<lparr>cr_calls = c, cr_stage = st\<rparr> \<Longrightarrow> calls g i = c \<and> stage_of g i = st"
  by (simp add: calls_def stage_of_def)

lemma delivered_frame:
  assumes "delivered g t c ms S" "\<And>s. s \<in> S \<Longrightarrow> outbound_of g' c s = outbound_of g c s" "S' = S"
  shows "delivered g' t c ms S'"
  using assms by (auto simp: delivered_def)

lemma delivered_cong: "outbound_of g' = outbound_of g \<Longrightarrow> delivered g' = delivered g"
  by (simp add: delivered_def fun_eq_iff)

lemma delivered_append:
  assumes "delivered g t c ms S" "ms_source m \<notin> S" "ms_call m = c"
    "ms_batch m = filter (\<lambda>p. packet_rank p = t) (outbound_of g c (ms_source m))"
  shows "delivered g t c (ms @ [m]) (insert (ms_source m) S)"
  using assms by (auto simp: delivered_def)

text \<open>One message of every rank: nothing is left in the channel.\<close>

lemma delivered_full:
  assumes "delivered g t c (got @ q) S" "S \<subseteq> {..< n}" "length got = n"
  shows "q = [] \<and> S = {..< n}"
proof -
  have "card S = length (got @ q)" using assms(1) distinct_card [of "map ms_source (got @ q)"] by (simp add: delivered_def image_Un)
  moreover have "card S \<le> n" using card_mono [OF _ assms(2)] by simp
  ultimately show ?thesis using assms(2,3) card_subset_eq [OF _ assms(2)] by simp
qed

lemma delivered_length:
  assumes "delivered g t c (got @ q) {s. s < n \<and> P s}"
  shows "length got \<le> n"
proof -
  have "length (got @ q) = card {s. s < n \<and> P s}"
    using assms distinct_card [of "map ms_source (got @ q)"] by (simp add: delivered_def image_Un)
  also have "\<dots> \<le> n" using card_mono [of "{..< n}" "{s. s < n \<and> P s}"] by fastforce
  finally show ?thesis by simp
qed

section \<open>Every step keeps the invariant\<close>

lemma call_inv:
  assumes inv: "comm_inv kind n g" and i: "i < n" "cg_ranks g ! i = \<lparr>cr_calls = c, cr_stage = Ready\<rparr>"
    and b: "partition_packets n outbound = Ok batches"
  shows "comm_inv kind n ((set_rank i c (Sending batches) g)\<lparr>cg_outbound := ((c, i), outbound) # cg_outbound g\<rparr>)" (is "comm_inv kind n ?g'")
proof -
  have sz: "sizes_ok n g" and len: "i < length (cg_ranks g)" using inv i(1) by (auto simp: comm_inv_def sizes_ok_def)
  have acc: "calls g i = c" "stage_of g i = Ready" using rank_access [OF i(2)] by simp_all
  have bs: "batches = batches_of n outbound" "length batches = n" using partition_packets_batches [OF b] by (simp_all add: batches_of_def)
  have out: "outbound_of ?g' c' s = (if c' = c \<and> s = i then outbound else outbound_of g c' s)" for c' s
    by (simp add: outbound_of_def set_rank_def)
  have calls': "calls ?g' = calls g" using len acc(1) by (auto simp: fun_eq_iff)
  have st: "stage_of ?g' s = (if s = i then Sending batches else stage_of g s)" for s using len by simp
  have sent: "sent_to n ?g' s t c' = sent_to n g s t c'" for s t c'
    unfolding sent_to_def calls' st using acc bs(2) by auto
  have not_sent: "\<not> sent_to n g i t c" for t using acc by (simp add: sent_to_def)
  have got: "got_of ?g' t = got_of g t" for t unfolding got_of_def st using acc(2) by auto
  have "channels_ok kind n ?g' t" if "t < n" for t
  proof -
    have chan: "channel k ?g' t = channel k g t" for k by simp
    have keep: "delivered ?g' t c' ms {s. s < n \<and> sent_to n ?g' s t c'}" if "delivered g t c' ms {s. s < n \<and> sent_to n g s t c'}" for c' ms
      using that by (rule delivered_frame) (use not_sent in \<open>auto simp: out sent\<close>)
    show ?thesis using inv \<open>t < n\<close> unfolding channels_ok_def comm_inv_def calls' got chan by (blast intro: keep)
  qed
  moreover have "sending_ok n ?g'"
    unfolding sending_ok_def st out calls' using inv bs i(1) acc by (auto simp: comm_inv_def sending_ok_def batches_of_def)
  moreover have "in_step n ?g'" unfolding in_step_def calls' sent using inv by (simp add: comm_inv_def in_step_def)
  ultimately show ?thesis using sz by (simp add: comm_inv_def)
qed

lemma recv_inv:
  assumes inv: "comm_inv kind n g" and i: "i < n" "cg_ranks g ! i = \<lparr>cr_calls = c, cr_stage = Receiving got\<rparr>"
    and q: "channel (kind c) g i = m # q"
  shows "comm_inv kind n (set_channel (kind c) i q (set_rank i c (Receiving (got @ [m])) g))" (is "comm_inv kind n ?g'")
proof -
  have sz: "sizes_ok n g" and len: "i < length (cg_ranks g)" using inv i(1) by (auto simp: comm_inv_def sizes_ok_def)
  have acc: "calls g i = c" "stage_of g i = Receiving got" using rank_access [OF i(2)] by simp_all
  have calls': "calls ?g' = calls g" and out: "outbound_of ?g' = outbound_of g" using len acc(1) by (auto simp: fun_eq_iff)
  have st: "stage_of ?g' s = (if s = i then Receiving (got @ [m]) else stage_of g s)" for s using len by simp
  have sent: "sent_to n ?g' s t c' = sent_to n g s t c'" for s t c' unfolding sent_to_def calls' st using acc by auto
  have chan: "channel k ?g' t = (if k = kind c \<and> t = i then q else channel k g t)" for k t using sz i(1) by simp
  have same: "got_of ?g' t @ channel (kind (calls g t)) ?g' t = got_of g t @ channel (kind (calls g t)) g t"
    "channel (\<not> kind (calls g t)) ?g' t = channel (\<not> kind (calls g t)) g t" for t
    unfolding got_of_def st chan using acc q by auto
  have "channels_ok kind n ?g' t" if "t < n" for t
    using inv that unfolding channels_ok_def comm_inv_def calls' sent same delivered_cong [OF out] by blast
  moreover have "sending_ok n ?g'" unfolding sending_ok_def st out calls' using inv acc by (auto simp: comm_inv_def sending_ok_def)
  moreover have "in_step n ?g'" unfolding in_step_def calls' sent using inv by (simp add: comm_inv_def in_step_def)
  ultimately show ?thesis using sz by (simp add: comm_inv_def)
qed

text \<open>A rank may complete its call when every rank has sent to it, and stays at most one call ahead.\<close>

lemma in_step_advance:
  assumes "in_step n g" "i < n" "calls g i = c"
    and sent: "\<And>s. s < n \<Longrightarrow> sent_to n g s i c" and le: "\<And>s. s < n \<Longrightarrow> calls g s \<le> Suc c" "\<And>s. s < n \<Longrightarrow> c \<le> calls g s"
    and calls': "\<And>s. calls g' s = (if s = i then Suc c else calls g s)" and sent': "\<And>s t c'. sent_to n g' s t c' = sent_to n g s t c'"
  shows "in_step n g'"
  unfolding in_step_def sent' calls'
proof (intro allI impI)
  fix s t assume st: "s < n" "t < n" and ahead: "(if t = i then Suc c else calls g t) < (if s = i then Suc c else calls g s)"
  then have "t \<noteq> i" using le(1) [of s] by (auto split: if_splits)
  moreover have "calls g t = c \<and> sent_to n g t i c" if "s = i"
    using le(2) [OF st(2)] sent [OF st(2)] ahead that \<open>t \<noteq> i\<close> by simp
  ultimately show "(if s = i then Suc c else calls g s) = Suc (if t = i then Suc c else calls g t) \<and>
      sent_to n g t s (if t = i then Suc c else calls g t)"
    using assms(1) st ahead by (auto simp: in_step_def)
qed

lemma finish_inv:
  assumes alternating: "alternating kind" and inv: "comm_inv kind n g"
    and i: "i < n" "cg_ranks g ! i = \<lparr>cr_calls = c, cr_stage = Receiving got\<rparr>" and all: "length got = n"
  shows "comm_inv kind n (set_rank i (Suc c) Ready g)" (is "comm_inv kind n ?g'")
proof -
  have alt: "kind (Suc c) = (\<not> kind c)" for c using alternating by (simp add: alternating_def)
  have sz: "sizes_ok n g" and len: "i < length (cg_ranks g)" using inv i(1) by (auto simp: comm_inv_def sizes_ok_def)
  have acc: "calls g i = c" "stage_of g i = Receiving got" using rank_access [OF i(2)] by simp_all
  have calls': "calls ?g' s = (if s = i then Suc c else calls g s)" and st: "stage_of ?g' s = (if s = i then Ready else stage_of g s)" for s
    using len by simp_all
  have sent: "sent_to n ?g' s t c' = sent_to n g s t c'" if "s = i \<longrightarrow> c' \<noteq> Suc c" for s t c'
    unfolding sent_to_def calls' st using acc that by auto
  have sent_Suc: "\<not> sent_to n g i t (Suc c)" "\<not> sent_to n ?g' i t (Suc c)" for t
    unfolding sent_to_def calls' st using acc by auto
  have sent': "sent_to n ?g' s t c' = sent_to n g s t c'" for s t c'
    using sent [of s c' t] sent_Suc by (cases "s = i \<and> c' = Suc c") auto
  have ok: "channels_ok kind n g t" if "t < n" for t using inv that by (simp add: comm_inv_def)
  have got: "got_of g i = got" "got_of ?g' i = []" "\<And>t. t \<noteq> i \<Longrightarrow> got_of ?g' t = got_of g t" unfolding got_of_def st using acc by auto
  note deliv = ok [OF i(1), unfolded channels_ok_def acc got]
  have full: "channel (kind c) g i = []" "{s. s < n \<and> sent_to n g s i c} = {..< n}"
    using delivered_full [OF conjunct1 [OF deliv] _ all] by auto
  then have everyone: "sent_to n g s i c" if "s < n" for s using that by blast
  have in_step: "calls g t < calls g s \<Longrightarrow> calls g s = Suc (calls g t) \<and> sent_to n g t s (calls g t)" if "s < n" "t < n" for s t
    using inv that by (simp add: comm_inv_def in_step_def)
  have le: "calls g s \<le> Suc c" "c \<le> calls g s" if "s < n" for s
    using in_step [OF that i(1)] everyone [OF that] acc(1) by (cases "calls g i < calls g s"; auto simp: sent_to_def)+
  then have behind: "\<not> sent_to n g s i (Suc (Suc c))" if "s < n" for s using that by (fastforce simp: sent_to_def)
  have "channels_ok kind n ?g' t" if "t < n" for t
  proof (cases "t = i")
    case True
    have none: "{s. s < n \<and> sent_to n g s i (Suc (Suc c))} = {}" using behind by auto
    show ?thesis
      using deliv unfolding True channels_ok_def calls' sent' got delivered_cong [OF set_rank_keeps(2)] by (simp add: alt full(1) none) (simp add: delivered_def)
  qed (use ok [OF that] in \<open>simp add: channels_ok_def sent' calls' got(3) delivered_cong [OF set_rank_keeps(2)]\<close>)
  moreover have "sending_ok n ?g'" unfolding sending_ok_def st calls' using inv by (auto simp: comm_inv_def sending_ok_def)
  moreover have "in_step n ?g'"
    by (rule in_step_advance [OF _ i(1) acc(1) everyone le calls' sent']) (use inv in \<open>simp_all add: comm_inv_def\<close>)
  ultimately show ?thesis using sz by (simp add: comm_inv_def)
qed

text \<open>The batch that is sent next, and what it changes in who has sent to whom.\<close>

lemma next_batch:
  assumes "comm_inv kind n g" "i < n" "stage_of g i = Sending (b # bs)"
  defines "t0 \<equiv> n - length (b # bs)"
  shows "t0 < n" "n - length bs = Suc t0" "b = filter (\<lambda>p. packet_rank p = t0) (outbound_of g (calls g i) i)"
    "bs = drop (Suc t0) (batches_of n (outbound_of g (calls g i) i))"
proof -
  let ?all = "batches_of n (outbound_of g (calls g i) i)"
  have ok: "length (b # bs) \<le> n" "b # bs = drop t0 ?all"
    using assms(1-3) unfolding comm_inv_def sending_ok_def t0_def by blast+
  show t0: "t0 < n" and "n - length bs = Suc t0" using ok(1) by (auto simp: t0_def)
  have "length ?all = n" by (simp add: batches_of_def)
  then have "drop t0 ?all = ?all ! t0 # drop (Suc t0) ?all" using t0 by (simp add: Cons_nth_drop_Suc)
  then show "b = filter (\<lambda>p. packet_rank p = t0) (outbound_of g (calls g i) i)" "bs = drop (Suc t0) ?all"
    using ok(2) t0 by (simp_all add: batches_of_def)
qed

lemma send_inv:
  assumes alternating: "alternating kind" and inv: "comm_inv kind n g"
    and i: "i < n" "cg_ranks g ! i = \<lparr>cr_calls = c, cr_stage = Sending (b # bs)\<rparr>"
  defines "t0 \<equiv> n - length (b # bs)" and "m \<equiv> \<lparr>ms_call = c, ms_source = i, ms_batch = b\<rparr>"
  shows "comm_inv kind n (set_channel (kind c) t0 (channel (kind c) g t0 @ [m]) (set_rank i c (after_send bs) g))" (is "comm_inv kind n ?g'")
proof -
  have alt: "kind (Suc c) = (\<not> kind c)" for c using alternating by (simp add: alternating_def)
  have sz: "sizes_ok n g" and len: "i < length (cg_ranks g)" using inv i(1) by (auto simp: comm_inv_def sizes_ok_def)
  have acc: "calls g i = c" "stage_of g i = Sending (b # bs)" using rank_access [OF i(2)] by simp_all
  note nb = next_batch [OF inv i(1) acc(2), folded t0_def, unfolded acc(1)]
  have calls': "calls ?g' = calls g" and out: "outbound_of ?g' = outbound_of g" using len acc(1) by (auto simp: fun_eq_iff)
  have st: "stage_of ?g' s = (if s = i then after_send bs else stage_of g s)" for s using len by simp
  have sent: "sent_to n ?g' s t c' \<longleftrightarrow> sent_to n g s t c' \<or> s = i \<and> c' = c \<and> t = t0" if "t < n" for s t c'
    unfolding sent_to_def calls' st using acc nb(1,2) that by (cases bs) (auto simp: after_send_def t0_def)
  have not_sent: "\<not> sent_to n g i t0 c" using acc nb(1) by (simp add: sent_to_def t0_def)
  have chan: "channel k ?g' t = (if k = kind c \<and> t = t0 then channel k g t0 @ [m] else channel k g t)" for k t using sz nb(1) by simp
  have got: "got_of ?g' t = got_of g t" for t unfolding got_of_def st using acc by (simp add: after_send_def)
  have ok: "channels_ok kind n g t" if "t < n" for t using inv that by (simp add: comm_inv_def)
  have in_step: "calls g t < calls g s \<Longrightarrow> calls g s = Suc (calls g t) \<and> sent_to n g t s (calls g t)" if "s < n" "t < n" for s t
    using inv that by (simp add: comm_inv_def in_step_def)
  have phase: "calls g t0 = c \<or> c = Suc (calls g t0)"
    using in_step [OF nb(1) i(1)] in_step [OF i(1) nb(1)] not_sent acc(1) by (metis linorder_neqE_nat)
  have receivers: "{s. s < n \<and> (sent_to n g s t0 c \<or> s = i)} = insert (ms_source m) {s. s < n \<and> sent_to n g s t0 c}"
    using i(1) by (auto simp: m_def)
  have add: "delivered g t0 c (ms @ [m]) {s. s < n \<and> (sent_to n g s t0 c \<or> s = i)}"
    if "delivered g t0 c ms {s. s < n \<and> sent_to n g s t0 c}" for ms
    unfolding receivers using that not_sent nb(3) by (intro delivered_append) (simp_all add: m_def)
  have "channels_ok kind n ?g' t" if "t < n" for t
  proof (cases "t = t0")
    case True
    then show ?thesis
      using phase ok [OF nb(1)] add unfolding channels_ok_def calls' got chan delivered_cong [OF out] True
      by (auto simp: sent [OF nb(1)] alt simp flip: append_assoc)
  next
    case False
    then show ?thesis
      using ok [OF that] unfolding channels_ok_def calls' got chan delivered_cong [OF out] by (simp add: sent [OF that])
  qed
  moreover have "sending_ok n ?g'"
    unfolding sending_ok_def st out calls' using inv acc nb i(1) by (auto simp: comm_inv_def sending_ok_def after_send_def split: if_splits)
  moreover have "in_step n ?g'" unfolding in_step_def calls' using in_step sent by blast
  ultimately show ?thesis using sz by (simp add: comm_inv_def)
qed

lemma create_group_inv: "create_group n = Ok g \<Longrightarrow> comm_inv kind n g"
  by (auto simp: create_group_def comm_inv_def sizes_ok_def sending_ok_def in_step_def channels_ok_def delivered_def stage_of_def calls_def
      got_of_def channel_def sent_to_def split: if_splits)

lemma comm_reachable_inv:
  assumes "alternating kind" "comm_reachable kind n g"
  shows "comm_inv kind n g"
proof -
  obtain start where start: "create_group n = Ok start" "(comm_step kind n)\<^sup>*\<^sup>* start g" using assms(2) by (auto simp: comm_reachable_def)
  from start(2) show ?thesis
  proof induction
    case (step g g')
    from step(2,3) show ?case by cases (simp_all add: call_inv recv_inv finish_inv [OF assms(1)] send_inv [OF assms(1), simplified])
  qed (use create_group_inv start(1) in blast)
qed

section \<open>What a call receives\<close>

lemma delivered_mset:
  assumes "delivered g t c ms S"
  shows "mset (inbound_of ms) = (\<Sum>s \<in> S. mset (filter (\<lambda>p. packet_rank p = t) (outbound_of g c s)))"
proof -
  have "mset (inbound_of ms) = (\<Sum>m \<leftarrow> ms. mset (ms_batch m))" by (simp add: inbound_of_def mset_concat comp_def)
  also have "\<dots> = (\<Sum>m \<leftarrow> ms. mset (filter (\<lambda>p. packet_rank p = t) (outbound_of g c (ms_source m))))"
    using assms by (intro arg_cong [where f = sum_list] map_cong) (simp_all add: delivered_def)
  also have "\<dots> = (\<Sum>s \<leftarrow> map ms_source ms. mset (filter (\<lambda>p. packet_rank p = t) (outbound_of g c s)))" by (simp add: comp_def)
  also have "\<dots> = (\<Sum>s \<in> S. mset (filter (\<lambda>p. packet_rank p = t) (outbound_of g c s)))"
    using assms by (subst sum_list_distinct_conv_sum_set) (simp_all add: delivered_def)
  finally show ?thesis .
qed

text \<open>A rank that waits for a batch: the batch is there, or its sender can still send.\<close>

lemma comm_progress:
  assumes inv: "comm_inv kind n g" and n: "0 < n" and busy: "\<And>i. i < n \<Longrightarrow> stage_of g i \<noteq> Ready"
  shows "\<exists>g'. comm_step kind n g g'"
proof -
  obtain t where t: "t < n" "\<And>s. s < n \<Longrightarrow> calls g t \<le> calls g s"
    using n arg_min_if_finite(1) [of "{..< n}" "calls g"] arg_min_least [of "{..< n}" _ "calls g"] by (metis finite_lessThan lessThan_iff empty_iff)
  have rank: "cg_ranks g ! s = \<lparr>cr_calls = calls g s, cr_stage = stage_of g s\<rparr>" for s by (simp add: calls_def stage_of_def)
  have send: ?thesis if "s < n" "stage_of g s = Sending bs" for s bs
  proof -
    have "bs \<noteq> []" using inv that by (auto simp: comm_inv_def sending_ok_def)
    then obtain b rest where "bs = b # rest" by (cases bs) auto
    then show ?thesis using comm_step.send [OF that(1) rank [of s, unfolded that(2) \<open>bs = b # rest\<close>] refl] by blast
  qed
  show ?thesis
  proof (cases "stage_of g t")
    case (Receiving got)
    then have got: "got_of g t = got" by (simp add: got_of_def)
    have deliv: "delivered g t (calls g t) (got @ channel (kind (calls g t)) g t) {s. s < n \<and> sent_to n g s t (calls g t)}"
      using inv t(1) unfolding comm_inv_def channels_ok_def got [symmetric] by blast
    show ?thesis
    proof (cases "channel (kind (calls g t)) g t")
      case (Cons m q)
      note rank_t = rank [of t, unfolded Receiving]
      show ?thesis
      proof (cases "length got = n")
        case True
        then show ?thesis using comm_step.finish [OF t(1) rank_t] by blast
      next
        case False
        then have "length got < n" using delivered_length [OF deliv] by simp
        from comm_step.recv [where kind = kind, OF t(1) rank_t this Cons] show ?thesis by blast
      qed
    next
      case Nil
      show ?thesis
      proof (cases "{s. s < n \<and> sent_to n g s t (calls g t)} = {..< n}")
        case True
        then have "length got = n" using deliv Nil distinct_card [of "map ms_source got"] by (simp add: delivered_def)
        then show ?thesis using comm_step.finish [OF t(1) rank [of t, unfolded Receiving]] by blast
      next
        case False
        then obtain s where s: "s < n" "\<not> sent_to n g s t (calls g t)" by auto
        then obtain bs where "stage_of g s = Sending bs" using t(2) [OF s(1)] busy [OF s(1)] by (cases "stage_of g s") (auto simp: sent_to_def)
        then show ?thesis by (rule send [OF s(1)])
      qed
    qed
  qed (use busy t(1) send in auto)
qed

text \<open>
  (C14) All-to-all exchange: when dispatch and combine calls alternate, then in every interleaving of the steps of all ranks a call
  that returns has received exactly the packets that the ranks addressed to it in the same call, each once, and none of another call.  The group
  does not block: as long as no rank has stopped calling, some rank can take a step.
\<close>

theorem all_to_all_delivers:
  assumes "alternating kind" and "comm_reachable kind n g"
  shows "(\<forall>i c got. i < n \<and> cg_ranks g ! i = \<lparr>cr_calls = c, cr_stage = Receiving got\<rparr> \<and> length got = n \<longrightarrow>
      mset (inbound_of got) = (\<Sum>s < n. mset (filter (\<lambda>p. packet_rank p = i) (outbound_of g c s)))) \<and>
    ((\<forall>i < n. cr_stage (cg_ranks g ! i) \<noteq> Ready) \<longrightarrow> (\<exists>g'. comm_step kind n g g'))"
proof -
  have inv: "comm_inv kind n g" using assms by (rule comm_reachable_inv)
  have "mset (inbound_of got) = (\<Sum>s < n. mset (filter (\<lambda>p. packet_rank p = i) (outbound_of g c s)))"
    if i: "i < n" "cg_ranks g ! i = \<lparr>cr_calls = c, cr_stage = Receiving got\<rparr>" "length got = n" for i c got
  proof -
    have acc: "calls g i = c" "stage_of g i = Receiving got" using rank_access [OF i(2)] by simp_all
    then have got: "got_of g i = got" by (simp add: got_of_def)
    have deliv: "delivered g i c (got @ channel (kind c) g i) {s. s < n \<and> sent_to n g s i c}"
      using inv i(1) unfolding comm_inv_def channels_ok_def got [symmetric] acc(1) [symmetric] by blast
    then have "channel (kind c) g i = [] \<and> {s. s < n \<and> sent_to n g s i c} = {..< n}" by (rule delivered_full) (use i(3) in auto)
    then show ?thesis using delivered_mset [OF deliv] by simp
  qed
  moreover have "0 < n" using assms(2) by (auto simp: comm_reachable_def create_group_def split: if_splits)
  ultimately show ?thesis using comm_progress [OF inv] by (auto simp: stage_of_def)
qed

section \<open>Runs\<close>

text \<open>The next step of a rank, if it can take one; \<open>outbound\<close> is what its next call is given.\<close>

definition comm_exec :: "(nat \<Rightarrow> bool) \<Rightarrow> usize \<Rightarrow> usize \<times> packet list \<Rightarrow> comm_group \<Rightarrow> comm_group option" where
  "comm_exec kind n move g =
     (case move of (i, outbound) \<Rightarrow>
        let c = cr_calls (cg_ranks g ! i)
        in if i \<ge> n then None
           else case cr_stage (cg_ranks g ! i) of
             Ready \<Rightarrow>
               (case partition_packets n outbound of
                  Ok batches \<Rightarrow>
                    if list_all (\<lambda>p. is_dispatch p = kind c) outbound
                    then Some ((set_rank i c (Sending batches) g)\<lparr>cg_outbound := ((c, i), outbound) # cg_outbound g\<rparr>) else None
                | _ \<Rightarrow> None)
           | Sending [] \<Rightarrow> None
           | Sending (b # bs) \<Rightarrow>
               let t = n - length (b # bs)
               in Some (set_channel (kind c) t (channel (kind c) g t @ [\<lparr>ms_call = c, ms_source = i, ms_batch = b\<rparr>]) (set_rank i c (after_send bs) g))
           | Receiving got \<Rightarrow>
               if length got = n then Some (set_rank i (Suc c) Ready g)
               else if length got > n then None
               else (case channel (kind c) g i of
                   [] \<Rightarrow> None
                 | m # q \<Rightarrow> Some (set_channel (kind c) i q (set_rank i c (Receiving (got @ [m])) g))))"

lemma comm_exec_step: "comm_exec kind n move g = Some g' \<Longrightarrow> comm_step kind n g g'"
proof -
  assume "comm_exec kind n move g = Some g'"
  moreover obtain i outbound where "move = (i, outbound)" by (cases move)
  moreover have "cg_ranks g ! i = \<lparr>cr_calls = cr_calls (cg_ranks g ! i), cr_stage = cr_stage (cg_ranks g ! i)\<rparr>" by simp
  ultimately show ?thesis
    by (auto simp: comm_exec_def Let_def list_all_iff split: if_splits stage.splits outcome.splits list.splits
        intro!: comm_step.call comm_step.send [of _ _ _ _ _ _ _ kind, simplified] comm_step.recv comm_step.finish)
qed

fun comm_run :: "(nat \<Rightarrow> bool) \<Rightarrow> usize \<Rightarrow> (usize \<times> packet list) list \<Rightarrow> comm_group \<Rightarrow> comm_group option" where
  "comm_run kind n [] g = Some g"
| "comm_run kind n (x # xs) g = Option.bind (comm_exec kind n x g) (comm_run kind n xs)"

lemma comm_run_steps: "comm_run kind n xs g = Some g' \<Longrightarrow> (comm_step kind n)\<^sup>*\<^sup>* g g'"
proof (induction xs arbitrary: g)
  case (Cons x xs)
  then show ?case by (auto simp: bind_eq_Some_conv dest!: comm_exec_step intro: converse_rtranclp_into_rtranclp)
qed simp

definition sample_packet :: packet where
  "sample_packet = DispatchPacket \<lparr>dk_token_idx = 0, dk_source_rank = 0, dk_target_rank = 1, dk_expert_id = 1, dk_local_expert_id = 0,
     dk_routing_weight = 0, dk_hidden_state = []\<rparr>"

text \<open>Two ranks complete a dispatch in which the first one has a packet for the second.\<close>

definition sample_exchange :: "(usize \<times> packet list) list" where
  "sample_exchange = [(0, [sample_packet]), (0, []), (1, []), (0, []), (1, []), (1, []), (1, []), (1, [])]"

lemma sample_exchange_run:
  "\<exists>g start m. create_group 2 = Ok start \<and> comm_run even 2 sample_exchange start = Some g \<and>
     cg_ranks g ! 1 = \<lparr>cr_calls = 0, cr_stage = Receiving [\<lparr>ms_call = 0, ms_source = 0, ms_batch = [sample_packet]\<rparr>, m]\<rparr> \<and>
     outbound_of g 0 0 = [sample_packet] \<and> outbound_of g 0 1 = []"
  by (simp add: sample_exchange_def sample_packet_def create_group_def comm_exec_def partition_packets_def set_rank_def set_channel_def channel_def
      after_send_def outbound_of_def Let_def eval_nat_numeral)

theorem all_to_all_delivers_witness:
  "\<exists>g got. comm_reachable even 2 g \<and> length got = 2 \<and> mset (inbound_of got) = {#sample_packet#}"
proof -
  obtain g start m where g: "create_group 2 = Ok start" "comm_run even 2 sample_exchange start = Some g"
    "cg_ranks g ! 1 = \<lparr>cr_calls = 0, cr_stage = Receiving [\<lparr>ms_call = 0, ms_source = 0, ms_batch = [sample_packet]\<rparr>, m]\<rparr>"
    "outbound_of g 0 0 = [sample_packet]" "outbound_of g 0 1 = []"
    using sample_exchange_run by blast
  have reach: "comm_reachable even 2 g" using g(1) comm_run_steps [OF g(2)] by (auto simp: comm_reachable_def)
  moreover have "alternating even" by (simp add: alternating_def)
  ultimately have "mset (inbound_of [\<lparr>ms_call = 0, ms_source = 0, ms_batch = [sample_packet]\<rparr>, m]) =
      (\<Sum>s < 2. mset (filter (\<lambda>p. packet_rank p = 1) (outbound_of g 0 s)))"
    using all_to_all_delivers [of even 2 g] g(3) by (auto simp del: One_nat_def)
  also have "\<dots> = {#sample_packet#}" using g(4,5) by (simp add: lessThan_nat_numeral lessThan_Suc sample_packet_def)
  finally show ?thesis
    using reach by (intro exI [of _ g] exI [of _ "[\<lparr>ms_call = 0, ms_source = 0, ms_batch = [sample_packet]\<rparr>, m]"]) simp
qed

text \<open>
  Without the alternation calls mix: when two dispatches follow each other, a fast rank can start the second one and overtake
  the batch that a slow rank owes itself; the first call of the slow rank then returns a packet of the second.
\<close>

lemma consecutive_dispatches_mix:
  "\<exists>g got. comm_reachable (\<lambda>_. True) 2 g \<and> cg_ranks g ! 1 = \<lparr>cr_calls = 0, cr_stage = Receiving got\<rparr> \<and> length got = 2 \<and>
     inbound_of got = [sample_packet] \<and> outbound_of g 0 0 = [] \<and> outbound_of g 0 1 = []"
proof -
  let ?moves = "[(0, []), (0, []), (0, []), (1, []), (1, []), (0, []), (0, []), (0, []), (0, [sample_packet]), (0, []), (0, []), (1, []), (1, []), (1, [])]"
  have "\<exists>g start got. create_group 2 = Ok start \<and> comm_run (\<lambda>_. True) 2 ?moves start = Some g \<and>
      cg_ranks g ! 1 = \<lparr>cr_calls = 0, cr_stage = Receiving got\<rparr> \<and> length got = 2 \<and> inbound_of got = [sample_packet] \<and>
      outbound_of g 0 0 = [] \<and> outbound_of g 0 1 = []"
    by (simp add: sample_packet_def create_group_def comm_exec_def partition_packets_def set_rank_def set_channel_def channel_def
        after_send_def outbound_of_def inbound_of_def Let_def eval_nat_numeral)
  then show ?thesis unfolding comm_reachable_def using comm_run_steps by blast
qed

text \<open>A rank that is given a packet for a rank that does not exist fails at once and sends nothing; the others wait for it.\<close>

lemma refused_call_blocks_group:
  "\<exists>g. comm_reachable even 2 g \<and> cr_stage (cg_ranks g ! 1) = Receiving [\<lparr>ms_call = 0, ms_source = 1, ms_batch = []\<rparr>] \<and>
     cr_stage (cg_ranks g ! 0) = Ready \<and> channel (even (0 :: nat)) g 1 = [] \<and> comm_exec even 2 (1, []) g = None"
proof -
  have "\<exists>g start. create_group 2 = Ok start \<and> comm_run even 2 [(1, []), (1, []), (1, []), (1, [])] start = Some g \<and>
      cr_stage (cg_ranks g ! 1) = Receiving [\<lparr>ms_call = 0, ms_source = 1, ms_batch = []\<rparr>] \<and>
      cr_stage (cg_ranks g ! 0) = Ready \<and> channel (even (0 :: nat)) g 1 = [] \<and> comm_exec even 2 (1, []) g = None"
    by (simp add: create_group_def comm_exec_def partition_packets_def set_rank_def set_channel_def channel_def after_send_def Let_def eval_nat_numeral)
  then show ?thesis unfolding comm_reachable_def using comm_run_steps by blast
qed

end
