(* ===== verification/Block_Index.thy ===== *)
theory Block_Index
  imports Block_Hash "HOL-Library.Sublist"
begin

text \<open>
  The block prefix index of \<open>crates/sglang-srt/src/cache.rs\<close>: which worker holds which chain of KV
  blocks (\<open>KvBlockPrefixIndex\<close> with \<open>insert\<close>, \<open>remove\<close>, \<open>clear_worker\<close>, \<open>match_prefix\<close>) and the
  cache aware choice of a worker.  The abstract view is the map from block chains to sets of workers
  (\<open>workers_at\<close>).  The two \<open>f32\<close> computations of the selection (the match rate against the cache
  threshold, and the load scaled by the relative threshold) are parameters, since nothing
  proved here depends on rounding.
\<close>

section \<open>Definitions\<close>

record kv_worker_id =
  endpoint :: string
  dp_rank :: u32

record kv_worker_snapshot =
  snap_id :: kv_worker_id
  active_load :: usize

record selection_config =
  cache_threshold :: u32
  balance_abs_threshold :: usize
  balance_rel_threshold :: u32

record block_prefix_match =
  matched_blocks :: usize
  matched_workers :: "kv_worker_id set"

datatype block_node =
  BlockNode (node_workers: "kv_worker_id set") (block_children: "(int \<times> block_node) list")

definition block_default :: block_node where
  "block_default = BlockNode {} []"

definition block_entry :: "(int \<times> block_node) list \<Rightarrow> int \<Rightarrow> block_node" where
  "block_entry ch h = (case map_of ch h of None \<Rightarrow> block_default | Some n \<Rightarrow> n)"

fun index_insert :: "block_node \<Rightarrow> kv_worker_id \<Rightarrow> int list \<Rightarrow> block_node" where
  "index_insert node worker [] = node"
| "index_insert (BlockNode ws ch) worker (block_hash # rest) =
     (let child = block_entry ch block_hash
      in BlockNode ws
           (AList.update block_hash
              (index_insert (BlockNode (insert worker (node_workers child)) (block_children child)) worker rest) ch))"

definition vacant :: "block_node \<Rightarrow> bool" where
  "vacant node \<longleftrightarrow> node_workers node = {} \<and> block_children node = []"

text \<open>The node after the call, and the flag that tells the parent to drop it.\<close>

fun remove_worker_from_chain :: "block_node \<Rightarrow> kv_worker_id \<Rightarrow> int list \<Rightarrow> bool \<times> block_node" where
  "remove_worker_from_chain node worker [] = (vacant node, node)"
| "remove_worker_from_chain (BlockNode ws ch) worker (block_hash # rest) =
     (let node' =
        (case map_of ch block_hash of
           None \<Rightarrow> BlockNode ws ch
         | Some child \<Rightarrow>
             (case remove_worker_from_chain
                     (BlockNode (node_workers child - {worker}) (block_children child)) worker rest of
                (gone, child') \<Rightarrow>
                  BlockNode ws (if gone then AList.delete block_hash ch
                                else AList.update block_hash child' ch)))
      in (vacant node', node'))"

definition index_remove :: "block_node \<Rightarrow> kv_worker_id \<Rightarrow> int list \<Rightarrow> block_node" where
  "index_remove idx worker block_hashes = snd (remove_worker_from_chain idx worker block_hashes)"

fun clear_worker_from_block_node :: "kv_worker_id \<Rightarrow> block_node \<Rightarrow> block_node" where
  "clear_worker_from_block_node worker (BlockNode ws ch) =
     BlockNode (ws - {worker})
       (filter (\<lambda>x. \<not> vacant (snd x)) (map (\<lambda>x. (fst x, clear_worker_from_block_node worker (snd x))) ch))"

definition clear_worker :: "block_node \<Rightarrow> kv_worker_id \<Rightarrow> block_node" where
  "clear_worker idx worker = clear_worker_from_block_node worker idx"

fun index_match_loop :: "block_node \<Rightarrow> int list \<Rightarrow> usize \<Rightarrow> kv_worker_id set \<Rightarrow> block_prefix_match" where
  "index_match_loop node [] n ws = \<lparr>matched_blocks = n, matched_workers = ws\<rparr>"
| "index_match_loop node (block_hash # rest) n ws =
     (case map_of (block_children node) block_hash of
        None \<Rightarrow> \<lparr>matched_blocks = n, matched_workers = ws\<rparr>
      | Some child \<Rightarrow> index_match_loop child rest (n + 1) (node_workers child))"

definition index_match_prefix :: "block_node \<Rightarrow> int list \<Rightarrow> block_prefix_match" where
  "index_match_prefix idx block_hashes = index_match_loop idx block_hashes 0 {}"

text \<open>\<open>Iterator::min_by_key\<close> returns the first of the elements with the least key.\<close>

fun min_by_key :: "('a \<Rightarrow> usize) \<Rightarrow> 'a list \<Rightarrow> 'a option" where
  "min_by_key f [] = None"
| "min_by_key f (x # xs) =
     (case min_by_key f xs of None \<Rightarrow> Some x | Some y \<Rightarrow> if f y < f x then Some y else Some x)"

definition min_load_worker :: "kv_worker_snapshot list \<Rightarrow> kv_worker_id option" where
  "min_load_worker candidates = map_option snap_id (min_by_key active_load candidates)"

definition is_cache_aware_selection_imbalanced ::
  "(usize \<Rightarrow> u32 \<Rightarrow> usize) \<Rightarrow> kv_worker_snapshot list \<Rightarrow> selection_config \<Rightarrow> bool" where
  "is_cache_aware_selection_imbalanced scaled candidates config =
     (if candidates = [] then False
      else
        let min_load = Min (set (map active_load candidates));
            max_load = Max (set (map active_load candidates));
            absolute_diff = max_load - min_load;
            relative_threshold = scaled min_load (balance_rel_threshold config)
        in absolute_diff > balance_abs_threshold config \<and> max_load > relative_threshold)"

definition select_cache_aware_worker_with_config ::
  "(usize \<Rightarrow> usize \<Rightarrow> u32 \<Rightarrow> bool) \<Rightarrow> (usize \<Rightarrow> u32 \<Rightarrow> usize) \<Rightarrow> block_node \<Rightarrow> kv_worker_snapshot list \<Rightarrow>
   int list \<Rightarrow> selection_config \<Rightarrow> kv_worker_id option" where
  "select_cache_aware_worker_with_config rate_exceeds scaled idx candidates block_hashes config =
     (if candidates = [] then None
      else if is_cache_aware_selection_imbalanced scaled candidates config then min_load_worker candidates
      else
        let matched = index_match_prefix idx block_hashes;
            holders = filter (\<lambda>c. snap_id c \<in> matched_workers matched) candidates
        in if rate_exceeds (matched_blocks matched) (length block_hashes) (cache_threshold config) \<and>
              matched_workers matched \<noteq> {}
           then (case min_by_key active_load holders of
                   Some c \<Rightarrow> Some (snap_id c)
                 | None \<Rightarrow> min_load_worker candidates)
           else min_load_worker candidates)"

text \<open>\<open>f32::MAX\<close> as a bit pattern.\<close>

definition f32_max :: u32 where
  "f32_max = 0x7F7FFFFF"

definition select_cache_aware_worker ::
  "(usize \<Rightarrow> usize \<Rightarrow> u32 \<Rightarrow> bool) \<Rightarrow> (usize \<Rightarrow> u32 \<Rightarrow> usize) \<Rightarrow> block_node \<Rightarrow> kv_worker_snapshot list \<Rightarrow>
   int list \<Rightarrow> u32 \<Rightarrow> kv_worker_id option" where
  "select_cache_aware_worker rate_exceeds scaled idx candidates block_hashes threshold =
     select_cache_aware_worker_with_config rate_exceeds scaled idx candidates block_hashes
       \<lparr>cache_threshold = threshold, balance_abs_threshold = usize_max, balance_rel_threshold = f32_max\<rparr>"

definition select_cache_aware_worker_for_tokens ::
  "(u8 list \<Rightarrow> u8 list) \<Rightarrow> (usize \<Rightarrow> usize \<Rightarrow> u32 \<Rightarrow> bool) \<Rightarrow> (usize \<Rightarrow> u32 \<Rightarrow> usize) \<Rightarrow> block_node \<Rightarrow>
   kv_worker_snapshot list \<Rightarrow> u32 list \<Rightarrow> usize \<Rightarrow> u32 \<Rightarrow> (unit, kv_worker_id option) outcome" where
  "select_cache_aware_worker_for_tokens sha256 rate_exceeds scaled idx candidates input_ids block_size threshold =
     and_then (compute_sglang_block_hashes sha256 input_ids block_size)
       (\<lambda>block_hashes.
          Ok (select_cache_aware_worker rate_exceeds scaled idx candidates block_hashes threshold))"

section \<open>The abstract view and the invariant\<close>

fun workers_at :: "block_node \<Rightarrow> int list \<Rightarrow> kv_worker_id set" where
  "workers_at node [] = node_workers node"
| "workers_at node (h # hs) =
     (case map_of (block_children node) h of None \<Rightarrow> {} | Some child \<Rightarrow> workers_at child hs)"

text \<open>No duplicate keys, and no node below the root that holds nothing.\<close>

fun pruned :: "block_node \<Rightarrow> bool" where
  "pruned (BlockNode ws ch) \<longleftrightarrow> distinct (map fst ch) \<and> (\<forall>x \<in> set ch. \<not> vacant (snd x) \<and> pruned (snd x))"

lemma pruned_default [simp]: "pruned block_default"
  by (simp add: block_default_def)

lemma workers_at_default [simp]: "workers_at block_default hs = {}"
  by (cases hs) (simp_all add: block_default_def)

lemma pruned_child: "pruned (BlockNode ws ch) \<Longrightarrow> map_of ch h = Some c \<Longrightarrow> pruned c \<and> \<not> vacant c"
  by (auto dest: map_of_SomeD)

lemma map_of_update_AList: "map_of (AList.update k v ch) h = (if h = k then Some v else map_of ch h)"
  by (simp add: update_conv')

lemma workers_at_update:
  "workers_at (BlockNode ws (AList.update k c ch)) path =
     (case path of [] \<Rightarrow> ws | h # hs \<Rightarrow> if h = k then workers_at c hs else workers_at (BlockNode ws ch) path)"
  by (cases path) (auto simp: map_of_update_AList)

lemma workers_at_replace_workers:
  "workers_at (BlockNode ws (block_children node)) path = (if path = [] then ws else workers_at node path)"
  by (cases path) simp_all

section \<open>Insert\<close>

lemma workers_at_entry:
  "workers_at (block_entry ch h) hs = (case map_of ch h of None \<Rightarrow> {} | Some c \<Rightarrow> workers_at c hs)"
  by (simp add: block_entry_def split: option.splits)

lemma workers_at_insert:
  "workers_at (index_insert node w hs) path =
     workers_at node path \<union> (if path \<noteq> [] \<and> prefix path hs then {w} else {})"
proof (induction node w hs arbitrary: path rule: index_insert.induct)
  case (2 ws ch w h rest)
  show ?case
  proof (cases path)
    case (Cons k ks)
    show ?thesis
      using 2 [OF refl, of ks] Cons workers_at_entry [of ch h "[]", simplified]
      by (auto simp: Let_def workers_at_update workers_at_replace_workers workers_at_entry map_of_update_AList
          split: option.splits)
  qed (simp add: Let_def)
qed (auto simp: prefix_bot.bot_unique)

lemma index_insert_not_vacant: "node_workers node \<noteq> {} \<Longrightarrow> \<not> vacant (index_insert node w hs)"
  by (cases "(node, w, hs)" rule: index_insert.cases) (auto simp: vacant_def Let_def)

lemma pruned_update:
  assumes "pruned (BlockNode ws ch)" and "pruned c" and "\<not> vacant c"
  shows "pruned (BlockNode ws' (AList.update h c ch))"
proof -
  have "set (AList.update h c ch) \<subseteq> insert (h, c) (set ch)"
    by (induction ch) auto
  then show ?thesis using assms distinct_update [of ch h c] by auto
qed

lemma pruned_insert: "pruned node \<Longrightarrow> pruned (index_insert node w hs)"
proof (induction node w hs rule: index_insert.induct)
  case (2 ws ch w h rest)
  let ?c = "block_entry ch h"
  have "pruned ?c" using 2(2) pruned_child [of ws ch h] by (auto simp: block_entry_def split: option.splits)
  then have "pruned (BlockNode (insert w (node_workers ?c)) (block_children ?c))" by (cases ?c) auto
  note IH = 2(1) [OF refl this]
  have "\<not> vacant (index_insert (BlockNode (insert w (node_workers ?c)) (block_children ?c)) w rest)"
    by (rule index_insert_not_vacant) simp
  from pruned_update [OF 2(2) IH this] show ?case by (simp add: Let_def)
qed simp

section \<open>Remove\<close>

lemma map_of_delete_AList: "map_of (AList.delete k ch) h = (if h = k then None else map_of ch h)"
  by (simp add: delete_conv')

lemma pruned_delete: "pruned (BlockNode ws ch) \<Longrightarrow> pruned (BlockNode ws' (AList.delete h ch))"
  by (auto simp: AList.delete_eq intro: distinct_map_filter)

lemma pruned_workers: "pruned (BlockNode ws (block_children c)) = pruned c"
  by (cases c) simp

lemma remove_flag: "fst (remove_worker_from_chain node w hs) = vacant (snd (remove_worker_from_chain node w hs))"
  by (cases "(node, w, hs)" rule: remove_worker_from_chain.cases) (simp_all add: Let_def)

lemma vacant_workers_at: "vacant node \<Longrightarrow> workers_at node path = {}"
  by (cases path) (simp_all add: vacant_def)

lemma pruned_remove: "pruned node \<Longrightarrow> pruned (snd (remove_worker_from_chain node w hs))"
proof (induction node w hs rule: remove_worker_from_chain.induct)
  case (2 ws ch w h rest)
  show ?case
  proof (cases "map_of ch h")
    case (Some c)
    let ?x = "remove_worker_from_chain (BlockNode (node_workers c - {w}) (block_children c)) w rest"
    have "pruned (snd ?x)" using 2 Some pruned_child pruned_workers by metis
    then show ?thesis
      using 2(2) Some remove_flag [of "BlockNode (node_workers c - {w}) (block_children c)" w rest]
        pruned_update [OF 2(2), of "snd ?x" ws h] pruned_delete [OF 2(2), of ws h]
      by (cases ?x) (auto simp: Let_def)
  qed (use 2(2) in \<open>simp add: Let_def\<close>)
qed simp

lemma workers_at_remove:
  "workers_at (snd (remove_worker_from_chain node w hs)) path =
     workers_at node path - (if path \<noteq> [] \<and> prefix path hs then {w} else {})"
proof (induction node w hs arbitrary: path rule: remove_worker_from_chain.induct)
  case (2 ws ch w h rest)
  show ?case
  proof (cases path)
    case (Cons k ks)
    show ?thesis
    proof (cases "map_of ch h")
      case None
      then show ?thesis using Cons by (auto simp: Let_def)
    next
      case (Some c)
      let ?c = "BlockNode (node_workers c - {w}) (block_children c)"
      obtain gone c' where x: "remove_worker_from_chain ?c w rest = (gone, c')" by force
      have c': "workers_at c' ks = workers_at ?c ks - (if ks \<noteq> [] \<and> prefix ks rest then {w} else {})"
        using 2 [OF Some, of ks] x by simp
      have gone: "gone \<Longrightarrow> workers_at c' ks = {}"
        using remove_flag [of ?c w rest] x vacant_workers_at by simp
      show ?thesis
        using Cons Some x c' gone
        by (auto simp: Let_def map_of_delete_AList map_of_update_AList workers_at_replace_workers split: if_splits)
    qed
  qed (auto simp: Let_def split: option.splits prod.splits)
qed (auto simp: prefix_bot.bot_unique)

section \<open>Clear\<close>

lemma clear_entry:
  assumes "distinct (map fst ch)"
  shows "map_of (filter (\<lambda>x. \<not> vacant (snd x)) (map (\<lambda>x. (fst x, f (snd x))) ch)) h =
    (case map_of ch h of None \<Rightarrow> None | Some c \<Rightarrow> if vacant (f c) then None else Some (f c))"
  using assms
proof (induction ch)
  case (Cons x ch)
  then have "map_of ch (fst x) = None" by (simp add: map_of_eq_None_iff)
  then show ?case using Cons by (cases x) auto
qed simp

lemma pruned_clear: "pruned node \<Longrightarrow> pruned (clear_worker_from_block_node w node)"
proof (induction w node rule: clear_worker_from_block_node.induct)
  case (1 w ws ch)
  have "map fst (map (\<lambda>x. (fst x, clear_worker_from_block_node w (snd x))) ch) = map fst ch" by simp
  then have "distinct (map fst (filter (\<lambda>x. \<not> vacant (snd x))
      (map (\<lambda>x. (fst x, clear_worker_from_block_node w (snd x))) ch)))"
    using 1(2) distinct_map_filter by (metis pruned.simps)
  then show ?case using 1 by auto
qed

lemma workers_at_clear:
  "pruned node \<Longrightarrow> workers_at (clear_worker_from_block_node w node) path = workers_at node path - {w}"
proof (induction path arbitrary: node)
  case Nil
  then show ?case by (cases node) simp
next
  case (Cons h hs)
  obtain ws ch where node: "node = BlockNode ws ch" by (cases node)
  have d: "distinct (map fst ch)" using Cons.prems node by simp
  show ?case
  proof (cases "map_of ch h")
    case None
    then show ?thesis by (simp add: node clear_entry [OF d])
  next
    case (Some c)
    have IH: "workers_at (clear_worker_from_block_node w c) hs = workers_at c hs - {w}"
      using Cons pruned_child Some node by blast
    show ?thesis
      using Some IH vacant_workers_at [of "clear_worker_from_block_node w c" hs]
      by (auto simp: node clear_entry [OF d])
  qed
qed

section \<open>Refinement\<close>

text \<open>
  The events a router feeds into the index, and what they mean for the map from block chains to the
  workers that hold them.
\<close>

datatype index_event =
    Stored kv_worker_id "int list"
  | Removed kv_worker_id "int list"
  | Cleared kv_worker_id

fun abs_event :: "index_event \<Rightarrow> (int list \<Rightarrow> kv_worker_id set) \<Rightarrow> int list \<Rightarrow> kv_worker_id set" where
  "abs_event (Stored w hs) m path = m path \<union> (if path \<noteq> [] \<and> prefix path hs then {w} else {})"
| "abs_event (Removed w hs) m path = m path - (if path \<noteq> [] \<and> prefix path hs then {w} else {})"
| "abs_event (Cleared w) m path = m path - {w}"

locale chain_index =
  fixes add :: "'s \<Rightarrow> kv_worker_id \<Rightarrow> int list \<Rightarrow> 's"
    and drop_chain :: "'s \<Rightarrow> kv_worker_id \<Rightarrow> int list \<Rightarrow> 's"
    and forget :: "'s \<Rightarrow> kv_worker_id \<Rightarrow> 's"
    and view :: "'s \<Rightarrow> int list \<Rightarrow> kv_worker_id set"
    and ok :: "'s \<Rightarrow> bool"
  assumes ok_add: "ok s \<Longrightarrow> ok (add s w hs)"
    and ok_drop: "ok s \<Longrightarrow> ok (drop_chain s w hs)"
    and ok_forget: "ok s \<Longrightarrow> ok (forget s w)"
    and view_add: "ok s \<Longrightarrow> view (add s w hs) = abs_event (Stored w hs) (view s)"
    and view_drop: "ok s \<Longrightarrow> view (drop_chain s w hs) = abs_event (Removed w hs) (view s)"
    and view_forget: "ok s \<Longrightarrow> view (forget s w) = abs_event (Cleared w) (view s)"
begin

fun apply_event :: "index_event \<Rightarrow> 's \<Rightarrow> 's" where
  "apply_event (Stored w hs) s = add s w hs"
| "apply_event (Removed w hs) s = drop_chain s w hs"
| "apply_event (Cleared w) s = forget s w"

lemma event_refines: "ok s \<Longrightarrow> ok (apply_event e s) \<and> view (apply_event e s) = abs_event e (view s)"
  by (cases e) (simp_all add: ok_add ok_drop ok_forget view_add view_drop view_forget)

lemma events_refine: "ok s \<Longrightarrow> ok (fold apply_event es s) \<and> view (fold apply_event es s) = fold abs_event es (view s)"
  by (induction es arbitrary: s) (simp_all add: event_refines)

end

interpretation block_index: chain_index index_insert index_remove clear_worker workers_at pruned
  by unfold_locales
    (auto simp: pruned_insert pruned_remove pruned_clear index_remove_def clear_worker_def fun_eq_iff
      workers_at_insert workers_at_remove workers_at_clear)

section \<open>Matching\<close>

lemma not_vacant_workers: "pruned node \<Longrightarrow> \<not> vacant node \<Longrightarrow> \<exists>ext. workers_at node ext \<noteq> {}"
proof (induction node)
  case (BlockNode ws ch)
  show ?case
  proof (cases "ws = {}")
    case False
    then show ?thesis by (intro exI [of _ "[]"]) simp
  next
    case True
    then obtain h c ch' where ch: "ch = (h, c) # ch'" using BlockNode.prems by (cases ch) (auto simp: vacant_def)
    then obtain ext where "workers_at c ext \<noteq> {}"
      using BlockNode.IH [of "(h, c)" c] BlockNode.prems by auto
    then show ?thesis using ch by (intro exI [of _ "h # ext"]) simp
  qed
qed

text \<open>A chain is known when the index has a node for it.\<close>

lemma known_iff:
  assumes "pruned node" and "map_of (block_children node) h = Some c"
  shows "(\<exists>ext. workers_at node (h # hs @ ext) \<noteq> {}) \<longleftrightarrow> (\<exists>ext. workers_at c (hs @ ext) \<noteq> {})"
    and "\<exists>ext. workers_at c ext \<noteq> {}" and "pruned c"
proof -
  show "(\<exists>ext. workers_at node (h # hs @ ext) \<noteq> {}) \<longleftrightarrow> (\<exists>ext. workers_at c (hs @ ext) \<noteq> {})"
    using assms(2) by simp
  obtain ws ch where node: "node = BlockNode ws ch" by (cases node)
  have "pruned c \<and> \<not> vacant c"
    by (rule pruned_child [of ws ch h]) (use assms node in simp_all)
  then show "\<exists>ext. workers_at c ext \<noteq> {}" "pruned c" using not_vacant_workers by auto
qed

lemma index_match_loop_spec:
  fixes hs n ws
  assumes "pruned node"
  defines "r \<equiv> index_match_loop node hs n ws"
  shows "n \<le> matched_blocks r \<and> matched_blocks r \<le> n + length hs \<and>
    (\<forall>j \<le> length hs. 0 < j \<longrightarrow>
       ((\<exists>ext. workers_at node (take j hs @ ext) \<noteq> {}) \<longleftrightarrow> n + j \<le> matched_blocks r)) \<and>
    matched_workers r = (if matched_blocks r = n then ws else workers_at node (take (matched_blocks r - n) hs))"
  using assms(1) unfolding r_def
proof (induction hs arbitrary: node n ws)
  case (Cons h hs)
  show ?case
  proof (cases "map_of (block_children node) h")
    case None
    have "\<not> (\<exists>ext. workers_at node (take j (h # hs) @ ext) \<noteq> {})" if "0 < j" for j
      using None that by (cases j) simp_all
    then show ?thesis using None by auto
  next
    case (Some c)
    note k = known_iff [OF Cons.prems Some]
    let ?r = "index_match_loop c hs (n + 1) (node_workers c)"
    have IH: "n + 1 \<le> matched_blocks ?r" "matched_blocks ?r \<le> n + 1 + length hs"
      "\<And>j. j \<le> length hs \<Longrightarrow> 0 < j \<Longrightarrow>
         ((\<exists>ext. workers_at c (take j hs @ ext) \<noteq> {}) \<longleftrightarrow> n + 1 + j \<le> matched_blocks ?r)"
      "matched_workers ?r = (if matched_blocks ?r = n + 1 then node_workers c
         else workers_at c (take (matched_blocks ?r - (n + 1)) hs))"
      using Cons.IH [OF k(3), of "n + 1" "node_workers c"] by auto
    have "(\<exists>ext. workers_at node (take j (h # hs) @ ext) \<noteq> {}) \<longleftrightarrow> n + j \<le> matched_blocks ?r"
      if j: "j \<le> length (h # hs)" "0 < j" for j
    proof -
      obtain i where i: "j = Suc i" using j(2) by (cases j) auto
      show ?thesis
        using IH(3) [of i] IH(1) k(1) [of "take i hs"] k(2) j(1) i by (cases "i = 0") auto
    qed
    moreover obtain d where "matched_blocks ?r = n + 1 + d" using IH(1) le_Suc_ex by blast
    ultimately show ?thesis using IH(1,2,4) Some by auto
  qed
qed auto

section \<open>Selection\<close>

lemma min_by_key_None [simp]: "min_by_key f xs = None \<longleftrightarrow> xs = []"
  by (cases xs) (auto split: option.splits)

lemma min_by_key_Some:
  assumes "min_by_key f xs = Some x"
  shows "x \<in> set xs" and "\<forall>y \<in> set xs. f x \<le> f y"
  using assms
  by (induction xs arbitrary: x) (auto split: option.splits if_splits intro: less_imp_le order.strict_trans1 dest: leI)

lemma min_load_worker_spec:
  assumes "candidates \<noteq> []"
  obtains c where "min_load_worker candidates = Some (snap_id c)" "c \<in> set candidates"
    "\<forall>d \<in> set candidates. active_load c \<le> active_load d"
proof -
  obtain c where "min_by_key active_load candidates = Some c"
    using assms by (cases "min_by_key active_load candidates") auto
  then show thesis by (intro that [of c]) (auto simp: min_load_worker_def dest: min_by_key_Some)
qed

section \<open>Properties\<close>

text \<open>
  (C10) After any sequence of stored, removed and cleared events on an empty index, the workers the
  index holds for every chain of blocks are those of the abstract map, and the index stays pruned.
\<close>

theorem block_index_refines:
  "pruned (fold block_index.apply_event es block_default) \<and>
   workers_at (fold block_index.apply_event es block_default) = fold abs_event es (\<lambda>_. {})"
proof -
  have "workers_at block_default = (\<lambda>_. {})" by (simp add: fun_eq_iff)
  then show ?thesis using block_index.events_refine [of block_default es] by simp
qed

text \<open>
  \<open>match_prefix\<close> on a pruned index finds the longest known chain: a prefix of the request is matched
  exactly when some worker holds a chain that extends it, and the workers returned are those that
  hold the matched chain.
\<close>

theorem index_match_prefix_longest:
  assumes "pruned idx"
  shows "matched_blocks (index_match_prefix idx hs) \<le> length hs \<and>
    (\<forall>j \<le> length hs. 0 < j \<longrightarrow>
       ((\<exists>ext. workers_at idx (take j hs @ ext) \<noteq> {}) \<longleftrightarrow> j \<le> matched_blocks (index_match_prefix idx hs))) \<and>
    matched_workers (index_match_prefix idx hs) =
      (if matched_blocks (index_match_prefix idx hs) = 0 then {}
       else workers_at idx (take (matched_blocks (index_match_prefix idx hs)) hs))"
  using index_match_loop_spec [OF assms, of 0 hs "{}"] by (simp add: index_match_prefix_def)

definition sample_worker :: "string \<Rightarrow> kv_worker_id" where
  "sample_worker e = \<lparr>endpoint = e, dp_rank = 0\<rparr>"

definition sample_index :: block_node where
  "sample_index = index_remove (index_insert (index_insert block_default (sample_worker ''a'') [1, 2, 3])
     (sample_worker ''b'') [1, 5]) (sample_worker ''a'') [1, 2, 3]"

theorem index_match_prefix_longest_witness:
  "pruned sample_index \<and> matched_blocks (index_match_prefix sample_index [1, 2]) = 1 \<and>
   matched_workers (index_match_prefix sample_index [1, 2]) = workers_at sample_index [1] \<and>
   workers_at sample_index [1] = {sample_worker ''b''}"
proof -
  have p: "pruned sample_index"
    unfolding sample_index_def by (intro block_index.ok_drop block_index.ok_add pruned_default)
  have "matched_blocks (index_match_prefix sample_index [1, 2]) = 1"
    "workers_at sample_index [1] = {sample_worker ''b''}" by code_simp+
  then show ?thesis using p index_match_prefix_longest [OF p, of "[1, 2]"] by simp
qed

text \<open>
  The cache aware selection always picks a candidate when there is one.  When the loads are
  balanced, the match rate exceeds the threshold and a candidate holds the matched chain, the
  choice holds that chain and no other such candidate has a lower load; in every other case no
  candidate at all has a lower load.
\<close>

theorem select_cache_aware_worker_spec:
  fixes rate_exceeds scaled idx candidates block_hashes config
  assumes "candidates \<noteq> []"
  defines "matched \<equiv> index_match_prefix idx block_hashes"
  defines "use_cache \<equiv> \<not> is_cache_aware_selection_imbalanced scaled candidates config \<and>
     rate_exceeds (matched_blocks matched) (length block_hashes) (cache_threshold config) \<and>
     (\<exists>c \<in> set candidates. snap_id c \<in> matched_workers matched)"
  shows "\<exists>c \<in> set candidates.
     select_cache_aware_worker_with_config rate_exceeds scaled idx candidates block_hashes config = Some (snap_id c) \<and>
     (use_cache \<longrightarrow> snap_id c \<in> matched_workers matched) \<and>
     (\<forall>d \<in> set candidates. (use_cache \<longrightarrow> snap_id d \<in> matched_workers matched) \<longrightarrow> active_load c \<le> active_load d)"
proof -
  let ?holders = "filter (\<lambda>c. snap_id c \<in> matched_workers matched) candidates"
  let ?sel = "select_cache_aware_worker_with_config rate_exceeds scaled idx candidates block_hashes config"
  show ?thesis
  proof (cases use_cache)
    case True
    then obtain c where c: "min_by_key active_load ?holders = Some c"
      by (cases "min_by_key active_load ?holders") (auto simp: use_cache_def filter_empty_conv)
    have "?sel = Some (snap_id c)"
      using assms(1) True c by (auto simp: select_cache_aware_worker_with_config_def use_cache_def Let_def
          matched_def [symmetric])
    then show ?thesis using True min_by_key_Some [OF c] by auto
  next
    case False
    have "?holders = []" if "\<not> (\<exists>c \<in> set candidates. snap_id c \<in> matched_workers matched)"
      using that by (simp add: filter_empty_conv)
    then have "?sel = min_load_worker candidates"
      using assms(1) False
      by (auto simp: select_cache_aware_worker_with_config_def use_cache_def Let_def matched_def [symmetric])
    then show ?thesis using min_load_worker_spec [OF assms(1)] False by metis
  qed
qed

theorem select_cache_aware_worker_spec_witness:
  defines "cs \<equiv> [\<lparr>snap_id = sample_worker ''a'', active_load = 1\<rparr>, \<lparr>snap_id = sample_worker ''b'', active_load = 3\<rparr>]"
  shows "\<exists>c \<in> set cs. select_cache_aware_worker_with_config (\<lambda>m n t. 0 < m) (\<lambda>l t. l) sample_index cs [1, 2]
           \<lparr>cache_threshold = 0, balance_abs_threshold = 32, balance_rel_threshold = 0\<rparr> = Some (snap_id c) \<and>
         snap_id c = sample_worker ''b''"
proof -
  have ne: "cs \<noteq> []" by (simp add: cs_def)
  have eq: "select_cache_aware_worker_with_config (\<lambda>m n t. 0 < m) (\<lambda>l t. l) sample_index cs [1, 2]
      \<lparr>cache_threshold = 0, balance_abs_threshold = 32, balance_rel_threshold = 0\<rparr> = Some (sample_worker ''b'')"
    unfolding cs_def by code_simp
  from select_cache_aware_worker_spec [OF ne, of "\<lambda>m n t. 0 < m" "\<lambda>l t. l" sample_index "[1, 2]"
      "\<lparr>cache_threshold = 0, balance_abs_threshold = 32, balance_rel_threshold = 0\<rparr>"]
  show ?thesis unfolding eq by (metis option.inject)
qed

end
