(* ===== verification/Kv_Layout.thy ===== *)
theory Kv_Layout
  imports Sgl_Prelude
begin

text \<open>
  The memory layout of the KV cache, \<open>crates/sglang-srt/src/kv_cache.rs\<close>: element types, model
  layouts (\<open>KvCacheModelLayout\<close>), the paged layout (\<open>PagedKvCacheLayout\<close>) with its validation and
  byte ranges, and the pool that ties a layout to a storage.  All sizes are computed with checked
  arithmetic on 64 bits; the theorems show that after a successful construction no address
  computation can overflow, that every byte range lies inside the storage and that the ranges of
  different (page, layer, tensor, token) are disjoint.
\<close>

section \<open>Element types\<close>

datatype kv_dtype = Auto | Float32 | Bfloat16 | Fp8E4M3 | Fp8E5M2 | Fp4E2M1

definition to_ascii_lowercase :: "string \<Rightarrow> string" where
  "to_ascii_lowercase s =
     map (\<lambda>c. if 65 \<le> (of_char c :: nat) \<and> (of_char c :: nat) \<le> 90 then char_of ((of_char c :: nat) + 32) else c) s"

definition dtype_parse :: "string \<Rightarrow> kv_dtype option" where
  "dtype_parse value =
     (let v = to_ascii_lowercase value
      in if v = ''auto'' then Some Auto
         else if v = ''bf16'' \<or> v = ''bfloat16'' then Some Bfloat16
         else if v = ''fp8_e4m3'' then Some Fp8E4M3
         else if v = ''fp8_e5m2'' then Some Fp8E5M2
         else if v = ''fp4_e2m1'' then Some Fp4E2M1
         else None)"

fun dtype_as_str :: "kv_dtype \<Rightarrow> string" where
  "dtype_as_str Auto = ''auto''"
| "dtype_as_str Float32 = ''float32''"
| "dtype_as_str Bfloat16 = ''bfloat16''"
| "dtype_as_str Fp8E4M3 = ''fp8_e4m3''"
| "dtype_as_str Fp8E5M2 = ''fp8_e5m2''"
| "dtype_as_str Fp4E2M1 = ''fp4_e2m1''"

fun bytes_per_element :: "kv_dtype \<Rightarrow> usize option" where
  "bytes_per_element Auto = Some 2"
| "bytes_per_element Bfloat16 = Some 2"
| "bytes_per_element Float32 = Some 4"
| "bytes_per_element Fp8E4M3 = Some 1"
| "bytes_per_element Fp8E5M2 = Some 1"
| "bytes_per_element Fp4E2M1 = None"

fun runtime_storage_dtype :: "kv_dtype \<Rightarrow> kv_dtype" where
  "runtime_storage_dtype Auto = Bfloat16"
| "runtime_storage_dtype d = d"

section \<open>Model layouts\<close>

record runtime_layout =
  rl_dtype :: kv_dtype
  rl_page_size :: usize
  rl_num_layers :: usize
  rl_kv_heads :: usize
  rl_head_dim :: usize
  rl_kv_tensors_per_token :: usize
  rl_bytes_per_token :: usize
  rl_page_size_bytes :: usize

datatype model_geometry = UniformGeometry | PairGeometry usize usize | PackedBytes

record model_layout =
  ml_num_layers :: usize
  ml_kv_heads :: usize
  ml_head_dim :: usize
  ml_kv_tensors_per_token :: usize
  ml_bytes_per_token_per_layer :: "usize option"
  ml_geometry :: model_geometry

datatype layout_error =
    DtypeRequiresModelMetadata kv_dtype
  | InvalidPackedMlaNopeHeadDim usize
  | ZeroTensorWidth
  | LayoutSizeOverflow

definition multi_tensor :: "usize \<Rightarrow> usize \<Rightarrow> usize \<Rightarrow> usize \<Rightarrow> model_layout" where
  "multi_tensor num_layers kv_heads head_dim kv_tensors =
     \<lparr> ml_num_layers = num_layers, ml_kv_heads = kv_heads, ml_head_dim = head_dim,
       ml_kv_tensors_per_token = kv_tensors, ml_bytes_per_token_per_layer = None,
       ml_geometry = UniformGeometry \<rparr>"

definition tensor_pair ::
  "usize \<Rightarrow> usize \<Rightarrow> usize \<Rightarrow> usize \<Rightarrow> usize \<Rightarrow> (layout_error, model_layout) outcome" where
  "tensor_pair num_layers key_heads key_head_dim value_heads value_head_dim =
     and_then (ok_or LayoutSizeOverflow (checked_mul key_heads key_head_dim)) (\<lambda>key_elements.
     and_then (ok_or LayoutSizeOverflow (checked_mul value_heads value_head_dim)) (\<lambda>value_elements.
       if key_elements = 0 \<or> value_elements = 0 then Err ZeroTensorWidth
       else Ok \<lparr> ml_num_layers = num_layers, ml_kv_heads = key_heads, ml_head_dim = key_head_dim,
                 ml_kv_tensors_per_token = 2, ml_bytes_per_token_per_layer = None,
                 ml_geometry = PairGeometry key_elements value_elements \<rparr>))"

definition packed_bytes_per_layer :: "usize \<Rightarrow> usize \<Rightarrow> model_layout" where
  "packed_bytes_per_layer num_layers bytes =
     \<lparr> ml_num_layers = num_layers, ml_kv_heads = 1, ml_head_dim = bytes, ml_kv_tensors_per_token = 1,
       ml_bytes_per_token_per_layer = Some bytes, ml_geometry = PackedBytes \<rparr>"

definition elements_per_token :: "model_layout \<Rightarrow> usize option" where
  "elements_per_token m =
     Option.bind
       (case ml_geometry m of
          UniformGeometry \<Rightarrow>
            Option.bind (checked_mul (ml_kv_tensors_per_token m) (ml_kv_heads m))
              (\<lambda>x. checked_mul x (ml_head_dim m))
        | PairGeometry key_elements value_elements \<Rightarrow> checked_add key_elements value_elements
        | PackedBytes \<Rightarrow> None)
       (\<lambda>elements_per_layer. checked_mul (ml_num_layers m) elements_per_layer)"

definition token_size_bytes :: "model_layout \<Rightarrow> kv_dtype \<Rightarrow> (layout_error, usize) outcome" where
  "token_size_bytes m d =
     (case ml_bytes_per_token_per_layer m of
        Some bytes \<Rightarrow> ok_or LayoutSizeOverflow (checked_mul (ml_num_layers m) bytes)
      | None \<Rightarrow>
          and_then (ok_or LayoutSizeOverflow (elements_per_token m)) (\<lambda>elements.
          and_then (ok_or (DtypeRequiresModelMetadata d) (bytes_per_element d)) (\<lambda>width.
            ok_or LayoutSizeOverflow (checked_mul elements width))))"

definition tensor_pair_size_bytes ::
  "model_layout \<Rightarrow> kv_dtype \<Rightarrow> (layout_error, (usize \<times> usize) option) outcome" where
  "tensor_pair_size_bytes m d =
     (case ml_geometry m of
        PairGeometry key_elements value_elements \<Rightarrow>
          and_then (ok_or (DtypeRequiresModelMetadata d) (bytes_per_element d)) (\<lambda>element_bytes.
          and_then (ok_or LayoutSizeOverflow (checked_mul key_elements element_bytes)) (\<lambda>key_bytes.
          and_then (ok_or LayoutSizeOverflow (checked_mul value_elements element_bytes)) (\<lambda>value_bytes.
            Ok (Some (key_bytes, value_bytes)))))
      | _ \<Rightarrow> Ok None)"

definition packed_mla :: "usize \<Rightarrow> usize \<Rightarrow> usize \<Rightarrow> (layout_error, model_layout) outcome" where
  "packed_mla num_layers qk_nope_head_dim qk_rope_head_dim =
     (if \<not> is_multiple_of qk_nope_head_dim 64 then Err (InvalidPackedMlaNopeHeadDim qk_nope_head_dim)
      else
        and_then (ok_or LayoutSizeOverflow (checked_mul qk_rope_head_dim 2)) (\<lambda>rope_bytes.
        and_then
          (ok_or LayoutSizeOverflow
             (Option.bind (Option.bind (checked_add qk_nope_head_dim rope_bytes)
                (\<lambda>v. checked_add v (qk_nope_head_dim div 64)))
                (\<lambda>v. checked_add v 1)))
          (\<lambda>bytes. Ok (packed_bytes_per_layer num_layers bytes))))"

section \<open>Paged layouts\<close>

datatype paged_error =
    ZeroPageCount
  | ZeroLayoutField string
  | RuntimePageSizeMismatch usize usize
  | UnevenLayerLayout usize usize
  | UnevenTensorLayout usize usize
  | SizeOverflow
  | PageOutOfRange usize usize
  | LayerOutOfRange usize usize
  | TensorOutOfRange usize usize
  | TokenOutOfRange usize usize
  | SlotOutOfRange usize usize
  | EmptySlotMap
  | BatchSlotOutOfRange usize usize usize
  | KvPairRequiresTwoTensors usize
  | TensorPairRequiresTwoTensors usize
  | TensorPairSizeMismatch usize usize usize
  | UnevenKvPairCopy usize usize

record kv_pair_copy_geometry =
  cg_page_size :: usize
  cg_page_stride_bytes :: usize
  cg_key_offset_bytes :: usize
  cg_value_offset_bytes :: usize
  cg_token_bytes :: usize

datatype paged_geometry =
    Uniform (uniform_token_bytes: usize) (uniform_page_bytes: usize)
  | Pair (key_token_bytes: usize) (value_token_bytes: usize) (key_page_bytes: usize)

record paged_layout =
  pl_runtime :: runtime_layout
  pl_page_count :: usize
  pl_bytes_per_token_per_layer :: usize
  pl_bytes_per_layer_page :: usize
  pl_geometry :: paged_geometry
  pl_total_byte_len :: usize
  pl_slot_count :: usize

text \<open>The first zero field of a list of named fields.\<close>

fun check_fields :: "(string \<times> usize) list \<Rightarrow> (paged_error, unit) outcome" where
  "check_fields [] = Ok ()"
| "check_fields ((field, value) # rest) = (if value = 0 then Err (ZeroLayoutField field) else check_fields rest)"

definition validate_runtime ::
  "runtime_layout \<Rightarrow> usize \<Rightarrow> (paged_error, usize \<times> usize \<times> usize \<times> usize) outcome" where
  "validate_runtime rt pages =
     (if pages = 0 then Err ZeroPageCount
      else and_then (check_fields
             [(''page_size'', rl_page_size rt), (''num_layers'', rl_num_layers rt),
              (''kv_heads'', rl_kv_heads rt), (''head_dim'', rl_head_dim rt),
              (''kv_tensors_per_token'', rl_kv_tensors_per_token rt),
              (''bytes_per_token'', rl_bytes_per_token rt),
              (''page_size_bytes'', rl_page_size_bytes rt)]) (\<lambda>_.
           and_then (ok_or SizeOverflow (checked_mul (rl_page_size rt) (rl_bytes_per_token rt))) (\<lambda>expected.
             if rl_page_size_bytes rt \<noteq> expected
             then Err (RuntimePageSizeMismatch expected (rl_page_size_bytes rt))
             else if \<not> is_multiple_of (rl_bytes_per_token rt) (rl_num_layers rt)
             then Err (UnevenLayerLayout (rl_bytes_per_token rt) (rl_num_layers rt))
             else
               let per_layer = rl_bytes_per_token rt div rl_num_layers rt
               in and_then (ok_or SizeOverflow (checked_mul (rl_page_size rt) per_layer)) (\<lambda>layer_page.
                  and_then (ok_or SizeOverflow (checked_mul pages (rl_page_size_bytes rt))) (\<lambda>total.
                  and_then (ok_or SizeOverflow (checked_mul pages (rl_page_size rt))) (\<lambda>slots.
                    Ok (per_layer, layer_page, total, slots)))))))"

definition paged_new :: "runtime_layout \<Rightarrow> usize \<Rightarrow> (paged_error, paged_layout) outcome" where
  "paged_new rt pages =
     and_then (validate_runtime rt pages) (\<lambda>(per_layer, layer_page, total, slots).
       if \<not> is_multiple_of per_layer (rl_kv_tensors_per_token rt)
       then Err (UnevenTensorLayout per_layer (rl_kv_tensors_per_token rt))
       else
         let token_bytes = per_layer div rl_kv_tensors_per_token rt
         in and_then (ok_or SizeOverflow (checked_mul (rl_page_size rt) token_bytes)) (\<lambda>page_bytes.
              Ok \<lparr> pl_runtime = rt, pl_page_count = pages, pl_bytes_per_token_per_layer = per_layer,
                   pl_bytes_per_layer_page = layer_page, pl_geometry = Uniform token_bytes page_bytes,
                   pl_total_byte_len = total, pl_slot_count = slots \<rparr>))"

definition paged_new_with_tensor_pair ::
  "runtime_layout \<Rightarrow> usize \<Rightarrow> usize \<Rightarrow> usize \<Rightarrow> (paged_error, paged_layout) outcome" where
  "paged_new_with_tensor_pair rt pages key_bytes value_bytes =
     and_then (validate_runtime rt pages) (\<lambda>(per_layer, layer_page, total, slots).
       if rl_kv_tensors_per_token rt \<noteq> 2
       then Err (TensorPairRequiresTwoTensors (rl_kv_tensors_per_token rt))
       else and_then (check_fields [(''key_token_bytes'', key_bytes), (''value_token_bytes'', value_bytes)]) (\<lambda>_.
            and_then (ok_or SizeOverflow (checked_add key_bytes value_bytes)) (\<lambda>pair_bytes.
              if pair_bytes \<noteq> per_layer then Err (TensorPairSizeMismatch per_layer key_bytes value_bytes)
              else and_then (ok_or SizeOverflow (checked_mul (rl_page_size rt) key_bytes)) (\<lambda>key_page.
                Ok \<lparr> pl_runtime = rt, pl_page_count = pages, pl_bytes_per_token_per_layer = per_layer,
                     pl_bytes_per_layer_page = layer_page,
                     pl_geometry = Pair key_bytes value_bytes key_page,
                     pl_total_byte_len = total, pl_slot_count = slots \<rparr>))))"

definition bytes_per_token_per_tensor :: "paged_layout \<Rightarrow> usize option" where
  "bytes_per_token_per_tensor l =
     (case pl_geometry l of Uniform token_bytes _ \<Rightarrow> Some token_bytes | Pair _ _ _ \<Rightarrow> None)"

definition bytes_per_tensor_page :: "paged_layout \<Rightarrow> usize option" where
  "bytes_per_tensor_page l =
     (case pl_geometry l of Uniform _ page_bytes \<Rightarrow> Some page_bytes | Pair _ _ _ \<Rightarrow> None)"

definition tensor_token_bytes :: "paged_layout \<Rightarrow> usize \<Rightarrow> (paged_error, usize) outcome" where
  "tensor_token_bytes l t =
     (case pl_geometry l of
        Uniform token_bytes _ \<Rightarrow> Ok token_bytes
      | Pair key_bytes value_bytes _ \<Rightarrow>
          if t = 0 then Ok key_bytes else if t = 1 then Ok value_bytes
          else Err (TensorOutOfRange t (rl_kv_tensors_per_token (pl_runtime l))))"

definition tensor_page_offset :: "paged_layout \<Rightarrow> usize \<Rightarrow> (paged_error, usize) outcome" where
  "tensor_page_offset l t =
     (case pl_geometry l of
        Uniform _ page_bytes \<Rightarrow> ok_or SizeOverflow (checked_mul t page_bytes)
      | Pair _ _ key_page \<Rightarrow>
          if t = 0 then Ok 0 else if t = 1 then Ok key_page
          else Err (TensorOutOfRange t (rl_kv_tensors_per_token (pl_runtime l))))"

definition tensor_token_size_bytes :: "paged_layout \<Rightarrow> usize \<Rightarrow> (paged_error, usize) outcome" where
  "tensor_token_size_bytes l t =
     (if t \<ge> rl_kv_tensors_per_token (pl_runtime l)
      then Err (TensorOutOfRange t (rl_kv_tensors_per_token (pl_runtime l)))
      else tensor_token_bytes l t)"

definition validate_page :: "paged_layout \<Rightarrow> usize \<Rightarrow> (paged_error, unit) outcome" where
  "validate_page l p = (if p \<ge> pl_page_count l then Err (PageOutOfRange p (pl_page_count l)) else Ok ())"

text \<open>A byte range is its start and its end.\<close>

definition page_byte_range :: "paged_layout \<Rightarrow> usize \<Rightarrow> (paged_error, usize \<times> usize) outcome" where
  "page_byte_range l p =
     and_then (validate_page l p) (\<lambda>_.
     and_then (ok_or SizeOverflow (checked_mul p (rl_page_size_bytes (pl_runtime l)))) (\<lambda>start.
     and_then (ok_or SizeOverflow (checked_add start (rl_page_size_bytes (pl_runtime l)))) (\<lambda>stop.
       Ok (start, stop))))"

definition tensor_token_byte_range ::
  "paged_layout \<Rightarrow> usize \<Rightarrow> usize \<Rightarrow> usize \<Rightarrow> usize \<Rightarrow> (paged_error, usize \<times> usize) outcome" where
  "tensor_token_byte_range l p layer t tok =
     and_then (validate_page l p) (\<lambda>_.
       if layer \<ge> rl_num_layers (pl_runtime l) then Err (LayerOutOfRange layer (rl_num_layers (pl_runtime l)))
       else if t \<ge> rl_kv_tensors_per_token (pl_runtime l)
       then Err (TensorOutOfRange t (rl_kv_tensors_per_token (pl_runtime l)))
       else if tok \<ge> rl_page_size (pl_runtime l) then Err (TokenOutOfRange tok (rl_page_size (pl_runtime l)))
       else
         and_then (ok_or SizeOverflow (checked_mul p (rl_page_size_bytes (pl_runtime l)))) (\<lambda>page_offset.
         and_then (ok_or SizeOverflow (checked_mul layer (pl_bytes_per_layer_page l))) (\<lambda>layer_offset.
         and_then (tensor_page_offset l t) (\<lambda>tensor_offset.
         and_then (tensor_token_bytes l t) (\<lambda>token_bytes.
         and_then (ok_or SizeOverflow (checked_mul tok token_bytes)) (\<lambda>token_offset.
         and_then (ok_or SizeOverflow
             (Option.bind (Option.bind (checked_add page_offset layer_offset) (\<lambda>o1. checked_add o1 tensor_offset))
                (\<lambda>o2. checked_add o2 token_offset))) (\<lambda>start.
         and_then (ok_or SizeOverflow (checked_add start token_bytes)) (\<lambda>stop. Ok (start, stop)))))))))"

definition tensor_slot_byte_range ::
  "paged_layout \<Rightarrow> usize \<Rightarrow> usize \<Rightarrow> usize \<Rightarrow> (paged_error, usize \<times> usize) outcome" where
  "tensor_slot_byte_range l layer t slot =
     (if slot \<ge> pl_slot_count l then Err (SlotOutOfRange slot (pl_slot_count l))
      else tensor_token_byte_range l (slot div rl_page_size (pl_runtime l)) layer t
             (slot mod rl_page_size (pl_runtime l)))"

fun check_slots :: "usize \<Rightarrow> usize \<Rightarrow> usize list \<Rightarrow> (paged_error, unit) outcome" where
  "check_slots slot_count i [] = Ok ()"
| "check_slots slot_count i (s # slots) =
     (if s \<ge> slot_count then Err (BatchSlotOutOfRange i s slot_count) else check_slots slot_count (i + 1) slots)"

definition validate_slot_indices :: "paged_layout \<Rightarrow> usize list \<Rightarrow> (paged_error, unit) outcome" where
  "validate_slot_indices l slots =
     (if slots = [] then Err EmptySlotMap else check_slots (pl_slot_count l) 0 slots)"

definition kv_pair_copy_geometry_of :: "paged_layout \<Rightarrow> usize \<Rightarrow> (paged_error, kv_pair_copy_geometry) outcome" where
  "kv_pair_copy_geometry_of l layer =
     (if layer \<ge> rl_num_layers (pl_runtime l) then Err (LayerOutOfRange layer (rl_num_layers (pl_runtime l)))
      else if rl_kv_tensors_per_token (pl_runtime l) < 2
      then Err (KvPairRequiresTwoTensors (rl_kv_tensors_per_token (pl_runtime l)))
      else
        and_then (ok_or SizeOverflow (checked_mul layer (pl_bytes_per_layer_page l))) (\<lambda>layer_offset.
        and_then (tensor_token_bytes l 0) (\<lambda>key_bytes.
        and_then (tensor_token_bytes l 1) (\<lambda>value_bytes.
          if key_bytes \<noteq> value_bytes then Err (UnevenKvPairCopy key_bytes value_bytes)
          else
            and_then (and_then (tensor_page_offset l 0)
                (\<lambda>off. ok_or SizeOverflow (checked_add layer_offset off))) (\<lambda>key_offset.
            and_then (and_then (tensor_page_offset l 1)
                (\<lambda>off. ok_or SizeOverflow (checked_add layer_offset off))) (\<lambda>value_offset.
              Ok \<lparr> cg_page_size = rl_page_size (pl_runtime l),
                   cg_page_stride_bytes = rl_page_size_bytes (pl_runtime l),
                   cg_key_offset_bytes = key_offset, cg_value_offset_bytes = value_offset,
                   cg_token_bytes = key_bytes \<rparr>))))))"

text \<open>The pool: the storage is a parameter, of which the constructor reads the length.\<close>

datatype pool_error = StorageSizeMismatch usize usize

record 's kv_pool =
  pool_layout :: paged_layout
  pool_storage :: 's

definition pool_new :: "('s \<Rightarrow> usize) \<Rightarrow> paged_layout \<Rightarrow> 's \<Rightarrow> (pool_error, 's kv_pool) outcome" where
  "pool_new byte_len l storage =
     (if byte_len storage \<noteq> pl_total_byte_len l
      then Err (StorageSizeMismatch (pl_total_byte_len l) (byte_len storage))
      else Ok \<lparr> pool_layout = l, pool_storage = storage \<rparr>)"

section \<open>Well-formed layouts\<close>

definition wf_geometry :: "usize \<Rightarrow> usize \<Rightarrow> usize \<Rightarrow> paged_geometry \<Rightarrow> bool" where
  "wf_geometry ps tensors per_layer g =
     (case g of
        Uniform token_bytes page_bytes \<Rightarrow> per_layer = tensors * token_bytes \<and> page_bytes = ps * token_bytes
      | Pair k v key_page \<Rightarrow> tensors = 2 \<and> k + v = per_layer \<and> key_page = ps * k)"

definition wf_layout :: "paged_layout \<Rightarrow> bool" where
  "wf_layout l \<longleftrightarrow>
     (let rt = pl_runtime l; per_layer = pl_bytes_per_token_per_layer l
      in 0 < rl_page_size rt \<and> 0 < rl_num_layers rt \<and> 0 < pl_page_count l \<and>
         rl_bytes_per_token rt = rl_num_layers rt * per_layer \<and>
         rl_page_size_bytes rt = rl_page_size rt * rl_bytes_per_token rt \<and>
         pl_bytes_per_layer_page l = rl_page_size rt * per_layer \<and>
         pl_total_byte_len l = pl_page_count l * rl_page_size_bytes rt \<and> pl_total_byte_len l < 2 ^ 64 \<and>
         pl_slot_count l = pl_page_count l * rl_page_size rt \<and>
         wf_geometry (rl_page_size rt) (rl_kv_tensors_per_token rt) per_layer (pl_geometry l))"

lemma check_fields_Ok: "check_fields fs = Ok () \<longleftrightarrow> (\<forall>x \<in> set fs. snd x \<noteq> 0)"
  by (induction fs rule: check_fields.induct) auto

lemma validate_runtime_Ok:
  assumes "validate_runtime rt pages = Ok (per_layer, layer_page, total_bytes, slots)"
  shows "0 < pages" "0 < rl_page_size rt" "0 < rl_num_layers rt" "0 < rl_kv_tensors_per_token rt"
    "rl_bytes_per_token rt = rl_num_layers rt * per_layer"
    "rl_page_size_bytes rt = rl_page_size rt * rl_bytes_per_token rt"
    "layer_page = rl_page_size rt * per_layer"
    "total_bytes = pages * rl_page_size_bytes rt" "total_bytes < 2 ^ 64" "slots = pages * rl_page_size rt"
  using assms
  by (auto simp: validate_runtime_def outcome_simps check_fields_Ok Let_def split: if_splits)

lemma paged_new_wf:
  assumes "paged_new rt pages = Ok l"
  shows "wf_layout l \<and> pl_runtime l = rt \<and> pl_page_count l = pages"
proof -
  obtain per_layer layer_page total_bytes slots where v: "validate_runtime rt pages = Ok (per_layer, layer_page, total_bytes, slots)"
    using assms by (auto simp: paged_new_def outcome_simps)
  show ?thesis
    using assms v validate_runtime_Ok [OF v]
    by (auto simp: paged_new_def outcome_simps Let_def wf_layout_def wf_geometry_def split: if_splits)
qed

lemma paged_pair_wf:
  assumes "paged_new_with_tensor_pair rt pages k v = Ok l"
  shows "wf_layout l \<and> pl_runtime l = rt \<and> pl_page_count l = pages"
proof -
  obtain per_layer layer_page total_bytes slots where va: "validate_runtime rt pages = Ok (per_layer, layer_page, total_bytes, slots)"
    using assms by (auto simp: paged_new_with_tensor_pair_def outcome_simps)
  show ?thesis
    using assms va validate_runtime_Ok [OF va]
    by (auto simp: paged_new_with_tensor_pair_def outcome_simps Let_def wf_layout_def wf_geometry_def split: if_splits)
qed

text \<open>A layout as one of the two constructors returns it.\<close>

definition built :: "paged_layout \<Rightarrow> bool" where
  "built l \<longleftrightarrow> (\<exists>rt pages. paged_new rt pages = Ok l) \<or> (\<exists>rt pages k v. paged_new_with_tensor_pair rt pages k v = Ok l)"

lemma built_wf: "built l \<Longrightarrow> wf_layout l"
  using paged_new_wf paged_pair_wf by (auto simp: built_def)

section \<open>Addresses\<close>

definition width :: "paged_layout \<Rightarrow> usize \<Rightarrow> usize" where
  "width l t = (case pl_geometry l of Uniform token_bytes _ \<Rightarrow> token_bytes | Pair k v _ \<Rightarrow> if t = 0 then k else v)"

definition offset :: "paged_layout \<Rightarrow> usize \<Rightarrow> usize" where
  "offset l t = (case pl_geometry l of Uniform _ page_bytes \<Rightarrow> t * page_bytes | Pair _ _ kp \<Rightarrow> if t = 0 then 0 else kp)"

definition address :: "paged_layout \<Rightarrow> usize \<Rightarrow> usize \<Rightarrow> usize \<Rightarrow> usize \<Rightarrow> usize" where
  "address l p layer t tok =
     p * rl_page_size_bytes (pl_runtime l) + layer * pl_bytes_per_layer_page l + offset l t + tok * width l t"

lemma tensor_block:
  assumes "wf_layout l" and "t < rl_kv_tensors_per_token (pl_runtime l)"
  shows "offset l t + rl_page_size (pl_runtime l) * width l t \<le> pl_bytes_per_layer_page l"
    and "t < t' \<Longrightarrow> t' < rl_kv_tensors_per_token (pl_runtime l) \<Longrightarrow>
         offset l t + rl_page_size (pl_runtime l) * width l t \<le> offset l t'"
proof -
  let ?ps = "rl_page_size (pl_runtime l)" and ?n = "rl_kv_tensors_per_token (pl_runtime l)"
  have fit: "offset l t + ?ps * width l t \<le> pl_bytes_per_layer_page l \<and>
      (t < t' \<longrightarrow> t' < ?n \<longrightarrow> offset l t + ?ps * width l t \<le> offset l t')"
  proof (cases "pl_geometry l")
    case (Uniform tb pb)
    then have pb: "pb = ?ps * tb" and L: "pl_bytes_per_layer_page l = ?n * (?ps * tb)"
      using assms(1) by (auto simp: wf_layout_def wf_geometry_def Let_def)
    have step: "t * (?ps * tb) + ?ps * tb \<le> j * (?ps * tb)" if "t < j" for j
      using mult_le_mono1 [of "Suc t" j "?ps * tb"] that by simp
    then show ?thesis using Uniform pb L assms(2) by (simp add: offset_def width_def)
  next
    case (Pair k v kp)
    then have kp: "?n = 2" "pl_bytes_per_layer_page l = ?ps * k + ?ps * v" "kp = ?ps * k"
      using assms(1) by (auto simp: wf_layout_def wf_geometry_def Let_def distrib_left [symmetric])
    then show ?thesis using Pair assms(2) by (auto simp: offset_def width_def)
  qed
  then show "offset l t + ?ps * width l t \<le> pl_bytes_per_layer_page l"
    and "t < t' \<Longrightarrow> t' < ?n \<Longrightarrow> offset l t + ?ps * width l t \<le> offset l t'" by simp_all
qed

text \<open>Blocks of equal stride: an inner range of one block lies before every range of a later block.\<close>

lemma stacked: "x < y \<Longrightarrow> a + n \<le> stride \<Longrightarrow> x * stride + a + n \<le> y * (stride :: nat) + b"
proof -
  assume "x < y" "a + n \<le> stride"
  then have "Suc x * stride \<le> y * stride" by (intro mult_le_mono1) simp
  then show ?thesis using \<open>a + n \<le> stride\<close> by simp
qed

lemma wf_total: "wf_layout l \<Longrightarrow> pl_total_byte_len l < 2 ^ 64"
  unfolding wf_layout_def Let_def by blast

lemma layer_strides:
  assumes "wf_layout l"
  shows "rl_page_size_bytes (pl_runtime l) = rl_num_layers (pl_runtime l) * pl_bytes_per_layer_page l"
  using assms by (simp add: wf_layout_def Let_def)

lemma token_in_layer:
  assumes "wf_layout l" "t < rl_kv_tensors_per_token (pl_runtime l)" "tok < rl_page_size (pl_runtime l)"
  shows "offset l t + tok * width l t + width l t \<le> pl_bytes_per_layer_page l"
proof -
  have "tok * width l t + width l t \<le> rl_page_size (pl_runtime l) * width l t"
    using mult_le_mono1 [of "Suc tok" "rl_page_size (pl_runtime l)" "width l t"] assms(3) by simp
  then show ?thesis using tensor_block(1) [OF assms(1,2)] by simp
qed

lemma token_in_page:
  assumes "wf_layout l" "layer < rl_num_layers (pl_runtime l)" "t < rl_kv_tensors_per_token (pl_runtime l)"
    "tok < rl_page_size (pl_runtime l)"
  shows "layer * pl_bytes_per_layer_page l + offset l t + tok * width l t + width l t
           \<le> rl_page_size_bytes (pl_runtime l)"
  using stacked [OF assms(2) token_in_layer [OF assms(1,3,4)], of 0] layer_strides [OF assms(1)] by simp

lemma address_in_storage:
  assumes "wf_layout l" "p < pl_page_count l" "layer < rl_num_layers (pl_runtime l)"
    "t < rl_kv_tensors_per_token (pl_runtime l)" "tok < rl_page_size (pl_runtime l)"
  shows "address l p layer t tok + width l t \<le> pl_total_byte_len l"
proof -
  have "p * rl_page_size_bytes (pl_runtime l) +
      (layer * pl_bytes_per_layer_page l + offset l t + tok * width l t) + width l t
        \<le> pl_page_count l * rl_page_size_bytes (pl_runtime l) + 0"
    by (rule stacked [OF assms(2) token_in_page [OF assms(1,3-5)]])
  then show ?thesis using assms(1) by (simp add: address_def wf_layout_def Let_def ac_simps)
qed

lemma tensor_lookups:
  assumes "wf_layout l" "t < rl_kv_tensors_per_token (pl_runtime l)" "offset l t < 2 ^ 64"
  shows "tensor_token_bytes l t = Ok (width l t)" and "tensor_page_offset l t = Ok (offset l t)"
  using assms
  by (auto simp: tensor_token_bytes_def tensor_page_offset_def width_def offset_def wf_layout_def Let_def
      wf_geometry_def ok_or_Ok split: paged_geometry.splits)

lemma tensor_token_byte_range_eq:
  assumes wf: "wf_layout l" and ix: "p < pl_page_count l" "layer < rl_num_layers (pl_runtime l)"
    "t < rl_kv_tensors_per_token (pl_runtime l)" "tok < rl_page_size (pl_runtime l)"
  shows "tensor_token_byte_range l p layer t tok =
           Ok (address l p layer t tok, address l p layer t tok + width l t)"
proof -
  have lim: "address l p layer t tok + width l t < 2 ^ 64"
    using address_in_storage [OF assms] wf_total [OF wf] by linarith
  then have "offset l t < 2 ^ 64" by (simp add: address_def)
  note look = tensor_lookups [OF wf ix(3) this]
  have sums: "checked_mul p (rl_page_size_bytes (pl_runtime l)) = Some (p * rl_page_size_bytes (pl_runtime l))"
    "checked_mul layer (pl_bytes_per_layer_page l) = Some (layer * pl_bytes_per_layer_page l)"
    "checked_mul tok (width l t) = Some (tok * width l t)"
    "checked_add (p * rl_page_size_bytes (pl_runtime l)) (layer * pl_bytes_per_layer_page l) =
       Some (p * rl_page_size_bytes (pl_runtime l) + layer * pl_bytes_per_layer_page l)"
    "checked_add (p * rl_page_size_bytes (pl_runtime l) + layer * pl_bytes_per_layer_page l) (offset l t) =
       Some (p * rl_page_size_bytes (pl_runtime l) + layer * pl_bytes_per_layer_page l + offset l t)"
    "checked_add (p * rl_page_size_bytes (pl_runtime l) + layer * pl_bytes_per_layer_page l + offset l t)
       (tok * width l t) = Some (address l p layer t tok)"
    "checked_add (address l p layer t tok) (width l t) = Some (address l p layer t tok + width l t)"
    using lim by (simp_all add: address_def)
  then show ?thesis
    using ix by (simp add: tensor_token_byte_range_def validate_page_def look sums)
qed

lemma address_disjoint:
  assumes wf: "wf_layout l"
    and "layer < rl_num_layers (pl_runtime l)" "t < rl_kv_tensors_per_token (pl_runtime l)" "tok < rl_page_size (pl_runtime l)"
    and "t' < rl_kv_tensors_per_token (pl_runtime l)"
    and lex: "p < p' \<or> p = p' \<and> (layer < layer' \<or> layer = layer' \<and> (t < t' \<or> t = t' \<and> tok < tok'))"
  shows "address l p layer t tok + width l t \<le> address l p' layer' t' tok'"
proof -
  let ?L = "pl_bytes_per_layer_page l" and ?P = "rl_page_size_bytes (pl_runtime l)"
  consider "p < p'" | "p = p'" "layer < layer'" | "p = p'" "layer = layer'" "t < t'"
    | "p = p'" "layer = layer'" "t = t'" "tok < tok'" using lex by blast
  then show ?thesis
  proof cases
    case 1
    from stacked [OF this token_in_page [OF wf assms(2-4)], of "layer' * ?L + offset l t' + tok' * width l t'"]
    show ?thesis by (simp add: address_def ac_simps)
  next
    case 2
    from stacked [OF this(2) token_in_layer [OF wf assms(3,4)], of "offset l t' + tok' * width l t'"] 2(1)
    show ?thesis by (simp add: address_def ac_simps)
  next
    case 3
    have "tok * width l t + width l t \<le> rl_page_size (pl_runtime l) * width l t"
      using mult_le_mono1 [of "Suc tok" "rl_page_size (pl_runtime l)" "width l t"] assms(4) by simp
    then show ?thesis using tensor_block(2) [OF wf assms(3) 3(3) assms(5)] 3 by (simp add: address_def)
  next
    case 4
    then show ?thesis using mult_le_mono1 [of "Suc tok" tok' "width l t"] by (simp add: address_def)
  qed
qed

section \<open>Properties\<close>

text \<open>
  Once a paged layout has been built, the byte range of every valid (page, layer, tensor, token)
  is computed without overflow, is as long as a token of that tensor, and lies inside the storage.
\<close>

theorem token_byte_range_in_storage:
  assumes "built l" and "p < pl_page_count l" and "layer < rl_num_layers (pl_runtime l)"
    and "t < rl_kv_tensors_per_token (pl_runtime l)" and "tok < rl_page_size (pl_runtime l)"
  shows "\<exists>start stop. tensor_token_byte_range l p layer t tok = Ok (start, stop) \<and>
           tensor_token_size_bytes l t = Ok (stop - start) \<and> start \<le> stop \<and>
           stop \<le> pl_total_byte_len l \<and> pl_total_byte_len l < 2 ^ 64"
proof -
  note wf = built_wf [OF assms(1)]
  note range = tensor_token_byte_range_eq [OF wf assms(2-5)]
  note fits = address_in_storage [OF wf assms(2-5)] wf_total [OF wf]
  then have "offset l t < 2 ^ 64" by (simp add: address_def)
  from tensor_lookups(1) [OF wf assms(4) this] show ?thesis
    using range fits assms(4) by (simp add: tensor_token_size_bytes_def)
qed

definition sample_runtime :: runtime_layout where
  "sample_runtime = \<lparr> rl_dtype = Bfloat16, rl_page_size = 2, rl_num_layers = 2, rl_kv_heads = 1, rl_head_dim = 2,
     rl_kv_tensors_per_token = 2, rl_bytes_per_token = 12, rl_page_size_bytes = 24 \<rparr>"

definition sample_layout :: paged_layout where
  "sample_layout = \<lparr> pl_runtime = sample_runtime, pl_page_count = 3, pl_bytes_per_token_per_layer = 6,
     pl_bytes_per_layer_page = 12, pl_geometry = Pair 4 2 8, pl_total_byte_len = 72, pl_slot_count = 6 \<rparr>"

lemma sample_built: "built sample_layout"
proof -
  have "paged_new_with_tensor_pair sample_runtime 3 4 2 = Ok sample_layout"
    by (simp add: paged_new_with_tensor_pair_def validate_runtime_def checked_mul_def checked_add_def
        sample_runtime_def sample_layout_def)
  then show ?thesis unfolding built_def by blast
qed

theorem token_byte_range_in_storage_witness:
  "\<exists>start stop. tensor_token_byte_range sample_layout 2 1 1 1 = Ok (start, stop) \<and>
     tensor_token_size_bytes sample_layout 1 = Ok (stop - start) \<and> start \<le> stop \<and>
     stop \<le> pl_total_byte_len sample_layout \<and> pl_total_byte_len sample_layout < 2 ^ 64"
  by (rule token_byte_range_in_storage [OF sample_built]) (simp_all add: sample_layout_def sample_runtime_def)

text \<open>
  (C9) Two different (page, layer, tensor, token) of a built layout never overlap in the storage, for
  uniform tensors and for key/value pairs of different widths alike.
\<close>

theorem token_byte_ranges_disjoint:
  assumes "built l"
    and "tensor_token_byte_range l p layer t tok = Ok (start, stop)"
    and "tensor_token_byte_range l p' layer' t' tok' = Ok (start', stop')"
    and "(p, layer, t, tok) \<noteq> (p', layer', t', tok')"
  shows "stop \<le> start' \<or> stop' \<le> start"
proof -
  note wf = built_wf [OF assms(1)]
  have valid: "p < pl_page_count l \<and> layer < rl_num_layers (pl_runtime l) \<and>
      t < rl_kv_tensors_per_token (pl_runtime l) \<and> tok < rl_page_size (pl_runtime l)"
    if "tensor_token_byte_range l p layer t tok = Ok r" for p layer t tok r
    using that by (auto simp: tensor_token_byte_range_def validate_page_def outcome_simps split: if_splits)
  note v = valid [OF assms(2)] and v' = valid [OF assms(3)]
  have eqs: "start = address l p layer t tok" "stop = start + width l t"
    "start' = address l p' layer' t' tok'" "stop' = start' + width l t'"
    using assms(2,3) tensor_token_byte_range_eq [OF wf] v v' by auto
  have "(p < p' \<or> p = p' \<and> (layer < layer' \<or> layer = layer' \<and> (t < t' \<or> t = t' \<and> tok < tok'))) \<or>
        (p' < p \<or> p' = p \<and> (layer' < layer \<or> layer' = layer \<and> (t' < t \<or> t' = t \<and> tok' < tok)))"
    using assms(4) by auto
  then show ?thesis using address_disjoint [OF wf] v v' eqs by metis
qed

theorem token_byte_ranges_disjoint_witness:
  "tensor_token_byte_range sample_layout 0 1 0 1 = Ok (16, 20) \<and>
   tensor_token_byte_range sample_layout 0 1 1 0 = Ok (20, 22) \<and> (20 \<le> (20 :: nat) \<or> 22 \<le> (16 :: nat))"
proof -
  have r: "tensor_token_byte_range sample_layout 0 1 0 1 = Ok (16, 20)"
    "tensor_token_byte_range sample_layout 0 1 1 0 = Ok (20, 22)"
    by (simp_all add: tensor_token_byte_range_def validate_page_def sample_layout_def sample_runtime_def
        checked_mul_def checked_add_def tensor_page_offset_def tensor_token_bytes_def)
  show ?thesis using r token_byte_ranges_disjoint [OF sample_built r] by simp
qed

text \<open>
  The copy geometry handed to the kernels addresses the same bytes as the layout: for every slot,
  page times stride plus the key (or value) offset plus the token's place in its page is the start of
  the slot's key (or value) range.
\<close>

theorem copy_geometry_addresses_slots:
  assumes "built l" and "kv_pair_copy_geometry_of l layer = Ok g" and "slot < pl_slot_count l"
  shows "(let base = slot div cg_page_size g * cg_page_stride_bytes g + slot mod cg_page_size g * cg_token_bytes g
          in tensor_slot_byte_range l layer 0 slot =
               Ok (base + cg_key_offset_bytes g, base + cg_key_offset_bytes g + cg_token_bytes g) \<and>
             tensor_slot_byte_range l layer 1 slot =
               Ok (base + cg_value_offset_bytes g, base + cg_value_offset_bytes g + cg_token_bytes g))"
proof -
  note wf = built_wf [OF assms(1)]
  let ?ps = "rl_page_size (pl_runtime l)"
  have ps: "0 < ?ps" and slots: "pl_slot_count l = pl_page_count l * ?ps"
    using wf by (simp_all add: wf_layout_def Let_def)
  have ix: "slot div ?ps < pl_page_count l" "slot mod ?ps < ?ps"
    using assms(3) ps slots by (simp_all add: less_mult_imp_div_less)
  have lay: "layer < rl_num_layers (pl_runtime l)" and two: "1 < rl_kv_tensors_per_token (pl_runtime l)"
    using assms(2) by (auto simp: kv_pair_copy_geometry_of_def split: if_splits)
  have lim: "offset l t < 2 ^ 64" if "t < rl_kv_tensors_per_token (pl_runtime l)" for t
    using address_in_storage [OF wf ix(1) lay that ix(2)] wf_total [OF wf] by (simp add: address_def)
  have look: "tensor_token_bytes l t = Ok (width l t)" "tensor_page_offset l t = Ok (offset l t)"
    if "t < rl_kv_tensors_per_token (pl_runtime l)" for t
    using tensor_lookups [OF wf that lim [OF that]] by simp_all
  have g: "cg_page_size g = ?ps" "cg_page_stride_bytes g = rl_page_size_bytes (pl_runtime l)"
    "cg_key_offset_bytes g = layer * pl_bytes_per_layer_page l + offset l 0"
    "cg_value_offset_bytes g = layer * pl_bytes_per_layer_page l + offset l 1"
    "cg_token_bytes g = width l 0" "width l 0 = width l 1"
    using assms(2) look [of 0] look [of 1] two
    by (auto simp: kv_pair_copy_geometry_of_def outcome_simps split: if_splits)
  have "tensor_slot_byte_range l layer t slot =
      Ok (address l (slot div ?ps) layer t (slot mod ?ps), address l (slot div ?ps) layer t (slot mod ?ps) + width l t)"
    if "t < rl_kv_tensors_per_token (pl_runtime l)" for t
    using tensor_token_byte_range_eq [OF wf ix(1) lay that ix(2)] assms(3) by (simp add: tensor_slot_byte_range_def)
  from this [of 0] this [of 1] show ?thesis using g two by (simp add: address_def Let_def ac_simps)
qed

definition sample_uniform :: paged_layout where
  "sample_uniform = sample_layout\<lparr>pl_geometry := Uniform 3 6\<rparr>"

theorem copy_geometry_addresses_slots_witness:
  "tensor_slot_byte_range sample_uniform 1 1 3 = Ok (45, 48)"
proof -
  have "paged_new sample_runtime 3 = Ok sample_uniform"
    by (simp add: paged_new_def validate_runtime_def checked_mul_def sample_runtime_def sample_uniform_def sample_layout_def)
  then have b: "built sample_uniform" unfolding built_def by blast
  have g: "kv_pair_copy_geometry_of sample_uniform 1 =
      Ok \<lparr>cg_page_size = 2, cg_page_stride_bytes = 24, cg_key_offset_bytes = 12, cg_value_offset_bytes = 18, cg_token_bytes = 3\<rparr>"
    by (simp add: kv_pair_copy_geometry_of_def sample_uniform_def sample_layout_def sample_runtime_def
        checked_mul_def checked_add_def tensor_page_offset_def tensor_token_bytes_def)
  have "3 < pl_slot_count sample_uniform" by (simp add: sample_uniform_def sample_layout_def)
  from copy_geometry_addresses_slots [OF b g this] show ?thesis by (simp add: Let_def)
qed

text \<open>
  Every element type except \<open>Float32\<close> is read back from its printed name; \<open>float32\<close> is printed but
  not accepted.
\<close>

theorem dtype_parse_as_str: "dtype_parse (dtype_as_str d) = (if d = Float32 then None else Some d)"
proof -
  have "dtype_parse (dtype_as_str Auto) = Some Auto" "dtype_parse (dtype_as_str Float32) = None"
    "dtype_parse (dtype_as_str Bfloat16) = Some Bfloat16" "dtype_parse (dtype_as_str Fp8E4M3) = Some Fp8E4M3"
    "dtype_parse (dtype_as_str Fp8E5M2) = Some Fp8E5M2" "dtype_parse (dtype_as_str Fp4E2M1) = Some Fp4E2M1"
    by code_simp+
  then show ?thesis by (cases d) simp_all
qed

end
