(* ===== verification/Recurrent_State.thy ===== *)
theory Recurrent_State
  imports Le_Bytes
begin

text \<open>
  Recurrent state of hybrid models, \<open>crates/sglang-srt/src/recurrent_state.rs\<close>: the pool that gives
  every request a device slot (\<open>RecurrentStateSlots\<close>) and the byte format in which the state of a
  request travels to another worker (\<open>RecurrentStatePayload\<close>).  An \<open>f32\<close> is its bit pattern.
\<close>

section \<open>Slot pool\<close>

record slot_pool =
  sp_capacity :: usize
  sp_free_slots :: "u32 list"
  sp_assigned_slots :: "(string \<times> u32) list"

record batch_slots =
  bs_slots :: "u32 list"
  bs_newly_assigned :: "u32 list"

datatype slot_error =
    ZeroCapacity
  | CapacityTooLarge usize
  | DuplicateRequest string
  | Exhausted usize usize usize

definition slots_new :: "usize \<Rightarrow> (slot_error, slot_pool) outcome" where
  "slots_new capacity =
     (if capacity = 0 then Err ZeroCapacity
      else if capacity \<ge> 2 ^ 32 then Err (CapacityTooLarge capacity)
      else Ok \<lparr> sp_capacity = capacity, sp_free_slots = rev (map of_nat [0 ..< capacity]),
                sp_assigned_slots = [] \<rparr>)"

text \<open>The first request id that occurs again.\<close>

fun first_duplicate :: "string set \<Rightarrow> string list \<Rightarrow> string option" where
  "first_duplicate seen [] = None"
| "first_duplicate seen (rid # ids) =
     (if rid \<in> seen then Some rid else first_duplicate (insert rid seen) ids)"

text \<open>The loop over the batch: \<open>Vec::pop\<close> takes the last free slot.\<close>

fun assign_loop ::
  "slot_pool \<Rightarrow> string list \<Rightarrow> u32 list \<Rightarrow> u32 list \<Rightarrow> (slot_error, batch_slots) outcome \<times> slot_pool" where
  "assign_loop p [] slots newly = (Ok \<lparr>bs_slots = slots, bs_newly_assigned = newly\<rparr>, p)"
| "assign_loop p (rid # ids) slots newly =
     (case map_of (sp_assigned_slots p) rid of
        Some slot \<Rightarrow> assign_loop p ids (slots @ [slot]) newly
      | None \<Rightarrow>
          (if sp_free_slots p = []
           then (Err (Exhausted (sp_capacity p) (length (sp_assigned_slots p)) 1), p)
           else
             let slot = last (sp_free_slots p)
             in assign_loop
                  (p\<lparr> sp_free_slots := butlast (sp_free_slots p),
                      sp_assigned_slots := AList.update rid slot (sp_assigned_slots p) \<rparr>)
                  ids (slots @ [slot]) (newly @ [slot])))"

definition assign_batch :: "slot_pool \<Rightarrow> string list \<Rightarrow> (slot_error, batch_slots) outcome \<times> slot_pool" where
  "assign_batch p ids =
     (case first_duplicate {} ids of
        Some rid \<Rightarrow> (Err (DuplicateRequest rid), p)
      | None \<Rightarrow>
          (let required = length (filter (\<lambda>rid. map_of (sp_assigned_slots p) rid = None) ids)
           in if required > length (sp_free_slots p)
              then (Err (Exhausted (sp_capacity p) (length (sp_assigned_slots p)) required), p)
              else assign_loop p ids [] []))"

definition slots_release :: "slot_pool \<Rightarrow> string \<Rightarrow> u32 option \<times> slot_pool" where
  "slots_release p rid =
     (case map_of (sp_assigned_slots p) rid of
        None \<Rightarrow> (None, p)
      | Some slot \<Rightarrow>
          (Some slot, p\<lparr> sp_free_slots := sp_free_slots p @ [slot],
                         sp_assigned_slots := AList.delete rid (sp_assigned_slots p) \<rparr>))"

section \<open>Payload format\<close>

record layer_payload =
  conv :: "u32 list"
  recurrent :: "u32 list"

record state_payload =
  next_position :: usize
  layer_states :: "layer_payload list"

definition MAGIC :: u32 where
  "MAGIC = 0x53474C52"

definition layer_bytes :: "layer_payload \<Rightarrow> u8 list" where
  "layer_bytes layer =
     u32_to_le_bytes (of_nat (length (conv layer))) @ concat (map u32_to_le_bytes (conv layer)) @
     u32_to_le_bytes (of_nat (length (recurrent layer))) @ concat (map u32_to_le_bytes (recurrent layer))"

definition to_bytes :: "state_payload \<Rightarrow> u8 list" where
  "to_bytes p =
     u32_to_le_bytes MAGIC @ u64_to_le_bytes (of_nat (next_position p)) @
     u32_to_le_bytes (of_nat (length (layer_states p))) @ concat (map layer_bytes (layer_states p))"

text \<open>\<open>bytes[offset..offset + n]\<close>, used after the bounds check.\<close>

definition byte_slice :: "'a list \<Rightarrow> usize \<Rightarrow> usize \<Rightarrow> 'a list" where
  "byte_slice bytes offset n = take n (drop offset bytes)"

definition read_u32 :: "u8 list \<Rightarrow> usize \<Rightarrow> u32" where
  "read_u32 bytes offset = u32_from_le_bytes (byte_slice bytes offset 4)"

definition read_f32s :: "u8 list \<Rightarrow> usize \<Rightarrow> usize \<Rightarrow> u32 list" where
  "read_f32s bytes offset n = map (\<lambda>i. read_u32 bytes (offset + i * 4)) [0 ..< n]"

text \<open>
  One length-prefixed vector: the checks on the length, on the byte count and on the data; the
  result is the vector and the offset behind it.
\<close>

definition read_vector ::
  "string \<Rightarrow> u8 list \<Rightarrow> usize \<Rightarrow> (string, u32 list \<times> usize) outcome" where
  "read_vector name bytes offset =
     (if offset + 4 > length bytes then Err (''unexpected EOF reading '' @ name @ '' length'')
      else
        let n = unat (read_u32 bytes offset); off = offset + 4
        in case checked_mul n 4 of
             None \<Rightarrow> Err (name @ '' byte length overflow'')
           | Some byte_count \<Rightarrow>
               (if off + byte_count > length bytes then Err (''unexpected EOF reading '' @ name @ '' data'')
                else Ok (read_f32s bytes off n, off + byte_count)))"

fun read_layers ::
  "u8 list \<Rightarrow> nat \<Rightarrow> usize \<Rightarrow> layer_payload list \<Rightarrow> (string, layer_payload list \<times> usize) outcome" where
  "read_layers bytes 0 offset layers = Ok (layers, offset)"
| "read_layers bytes (Suc k) offset layers =
     and_then (read_vector ''conv'' bytes offset) (\<lambda>(c, off).
     and_then (read_vector ''recurrent'' bytes off) (\<lambda>(r, off').
       read_layers bytes k off' (layers @ [\<lparr>conv = c, recurrent = r\<rparr>])))"

text \<open>\<open>{:#X}\<close>: \<open>0x\<close> and the digits in upper case.\<close>

fun hex_digits :: "nat \<Rightarrow> string" where
  "hex_digits n =
     (let d = (\<lambda>k. if k < 10 then char_of (48 + k) else char_of (55 + k))
      in if n < 16 then [d n] else hex_digits (n div 16) @ [d (n mod 16)])"

declare hex_digits.simps [simp del]

definition show_hex :: "u32 \<Rightarrow> string" where
  "show_hex w = ''0x'' @ hex_digits (unat w)"

definition from_bytes :: "u8 list \<Rightarrow> (string, state_payload) outcome" where
  "from_bytes bytes =
     (if length bytes < 16 then Err ''recurrent state payload too short''
      else
        let magic = read_u32 bytes 0
        in if magic \<noteq> MAGIC
           then Err (''invalid recurrent state magic: expected '' @ show_hex MAGIC @ '', found '' @ show_hex magic)
           else
             let position = unat (u64_from_le_bytes (byte_slice bytes 4 8));
                 layer_count = unat (read_u32 bytes 12)
             in and_then (read_layers bytes layer_count 16 []) (\<lambda>(layers, offset).
                  if offset \<noteq> length bytes
                  then Err (''trailing bytes in recurrent state payload: read '' @ show_usize offset @
                            '', total '' @ show_usize (length bytes))
                  else Ok \<lparr> next_position = position, layer_states = layers \<rparr>))"

section \<open>The slot pool is a bijection\<close>

text \<open>
  Every slot below the capacity is free or assigned to one request, never both.
\<close>

definition slots_inv :: "slot_pool \<Rightarrow> bool" where
  "slots_inv p \<longleftrightarrow> sp_capacity p < 2 ^ 32 \<and>
     distinct (map fst (sp_assigned_slots p)) \<and>
     distinct (map snd (sp_assigned_slots p) @ sp_free_slots p) \<and>
     set (map snd (sp_assigned_slots p) @ sp_free_slots p) = of_nat ` {..< sp_capacity p}"

lemma of_nat_u32_inj: "inj_on (of_nat :: nat \<Rightarrow> u32) {..< n}" if "n < 2 ^ 32" for n
  by (rule inj_on_inverseI [where g = unat]) (use that in \<open>simp add: unat_of_nat_le\<close>)

lemma slots_new_inv:
  assumes "slots_new c = Ok p"
  shows "slots_inv p"
proof -
  have c: "c < 2 ^ 32" and p: "p = \<lparr> sp_capacity = c, sp_free_slots = rev (map of_nat [0 ..< c]), sp_assigned_slots = [] \<rparr>"
    using assms by (auto simp: slots_new_def split: if_splits)
  then show ?thesis
    using of_nat_u32_inj [OF c] by (simp add: slots_inv_def distinct_map atLeast0LessThan inj_on_subset)
qed

lemma first_duplicate_None: "first_duplicate seen ids = None \<longleftrightarrow> distinct ids \<and> set ids \<inter> seen = {}"
  by (induction ids arbitrary: seen) auto

lemma update_new_key: "k \<notin> fst ` set xs \<Longrightarrow> AList.update k v xs = xs @ [(k, v)]"
  by (induction xs) auto

lemma slots_inv_take:
  assumes inv: "slots_inv p" and new: "map_of (sp_assigned_slots p) rid = None" and ne: "sp_free_slots p \<noteq> []"
  shows "slots_inv (p\<lparr> sp_free_slots := butlast (sp_free_slots p),
      sp_assigned_slots := AList.update rid (last (sp_free_slots p)) (sp_assigned_slots p) \<rparr>)"
proof -
  obtain fs s where f: "sp_free_slots p = fs @ [s]" using ne by (cases "sp_free_slots p" rule: rev_cases) auto
  have "rid \<notin> fst ` set (sp_assigned_slots p)" using new by (simp add: map_of_eq_None_iff)
  then have "AList.update rid s (sp_assigned_slots p) = sp_assigned_slots p @ [(rid, s)]"
    by (rule update_new_key)
  then show ?thesis using inv f \<open>rid \<notin> _\<close> by (auto simp: slots_inv_def)
qed

lemma slots_inv_release: "slots_inv p \<Longrightarrow> slots_inv (snd (slots_release p rid))"
proof -
  assume inv: "slots_inv p"
  show ?thesis
  proof (cases "map_of (sp_assigned_slots p) rid")
    case (Some s)
    obtain xs ys where a: "sp_assigned_slots p = xs @ (rid, s) # ys"
      using map_of_SomeD [OF Some] split_list by metis
    have d: "rid \<notin> fst ` set (xs @ ys)" using inv a by (auto simp: slots_inv_def)
    have "filter (\<lambda>x. rid \<noteq> fst x) zs = zs" if "set zs \<subseteq> set (xs @ ys)" for zs
      using that d by (auto simp: filter_id_conv)
    then have "AList.delete rid (sp_assigned_slots p) = xs @ ys"
      by (simp add: a AList.delete_eq case_prod_unfold)
    then show ?thesis using inv a Some by (auto simp: slots_inv_def slots_release_def)
  qed (use inv in \<open>simp add: slots_release_def\<close>)
qed

lemma assign_loop_Ok:
  assumes "slots_inv p" and "distinct ids"
    and "length (filter (\<lambda>rid. map_of (sp_assigned_slots p) rid = None) ids) \<le> length (sp_free_slots p)"
  shows "\<exists>q new fresh. assign_loop p ids slots newly = (Ok \<lparr>bs_slots = slots @ new, bs_newly_assigned = newly @ fresh\<rparr>, q) \<and>
     slots_inv q \<and> sp_capacity q = sp_capacity p \<and>
     map (map_of (sp_assigned_slots q)) ids = map Some new \<and>
     (\<forall>rid. map_of (sp_assigned_slots p) rid \<noteq> None \<or> rid \<notin> set ids \<longrightarrow>
        map_of (sp_assigned_slots q) rid = map_of (sp_assigned_slots p) rid) \<and>
     set fresh \<subseteq> set (sp_free_slots p)"
  using assms
proof (induction ids arbitrary: p slots newly)
  case (Cons rid ids)
  show ?case
  proof (cases "map_of (sp_assigned_slots p) rid")
    case (Some s)
    obtain q new fresh where q: "assign_loop p ids (slots @ [s]) newly =
          (Ok \<lparr>bs_slots = (slots @ [s]) @ new, bs_newly_assigned = newly @ fresh\<rparr>, q)" "slots_inv q"
        "sp_capacity q = sp_capacity p"
        "map (map_of (sp_assigned_slots q)) ids = map Some new"
        "\<forall>rid. map_of (sp_assigned_slots p) rid \<noteq> None \<or> rid \<notin> set ids \<longrightarrow>
           map_of (sp_assigned_slots q) rid = map_of (sp_assigned_slots p) rid"
        "set fresh \<subseteq> set (sp_free_slots p)"
      using Cons.IH [of p "slots @ [s]" newly] Cons.prems Some by auto
    have keep: "map_of (sp_assigned_slots q) rid = Some s" using q(5) Some by simp
    show ?thesis
      by (rule exI [of _ q], rule exI [of _ "s # new"], rule exI [of _ fresh]) (use q keep Some in auto)
  next
    case None
    have ne: "sp_free_slots p \<noteq> []" using Cons.prems(3) None by auto
    let ?s = "last (sp_free_slots p)"
    let ?p = "p\<lparr> sp_free_slots := butlast (sp_free_slots p),
                 sp_assigned_slots := AList.update rid ?s (sp_assigned_slots p) \<rparr>"
    have upd: "map_of (sp_assigned_slots ?p) = (map_of (sp_assigned_slots p))(rid \<mapsto> ?s)"
      by (simp add: update_conv')
    have "filter (\<lambda>r. map_of (sp_assigned_slots ?p) r = None) ids =
        filter (\<lambda>r. map_of (sp_assigned_slots p) r = None) ids"
      using Cons.prems(2) upd by (intro filter_cong) auto
    then have len: "length (filter (\<lambda>r. map_of (sp_assigned_slots ?p) r = None) ids) \<le> length (sp_free_slots ?p)"
      using Cons.prems(3) None by simp
    obtain q new fresh where q: "assign_loop ?p ids (slots @ [?s]) (newly @ [?s]) =
          (Ok \<lparr>bs_slots = (slots @ [?s]) @ new, bs_newly_assigned = (newly @ [?s]) @ fresh\<rparr>, q)" "slots_inv q"
        "sp_capacity q = sp_capacity p"
        "map (map_of (sp_assigned_slots q)) ids = map Some new"
        "\<forall>rid. map_of (sp_assigned_slots ?p) rid \<noteq> None \<or> rid \<notin> set ids \<longrightarrow>
           map_of (sp_assigned_slots q) rid = map_of (sp_assigned_slots ?p) rid"
        "set fresh \<subseteq> set (sp_free_slots ?p)"
      using Cons.IH [OF slots_inv_take [OF Cons.prems(1) None ne] _ len, of "slots @ [?s]" "newly @ [?s]"] Cons.prems(2)
      by auto
    have keep: "map_of (sp_assigned_slots q) rid = Some ?s" using q(5) upd by simp
    have fr: "set (?s # fresh) \<subseteq> set (sp_free_slots p)"
      using q(6) ne by (auto dest: in_set_butlastD)
    have rest: "map_of (sp_assigned_slots q) r = map_of (sp_assigned_slots p) r"
      if "map_of (sp_assigned_slots p) r \<noteq> None \<or> r \<notin> set (rid # ids)" for r
      using q(5) upd that None by (cases "r = rid") auto
    show ?thesis
      by (rule exI [of _ q], rule exI [of _ "?s # new"], rule exI [of _ "?s # fresh"])
        (use q keep fr rest None ne in \<open>auto simp: Let_def\<close>)
  qed
qed auto

lemma assign_batch_cases:
  assumes "slots_inv p"
  obtains (error) e where "assign_batch p ids = (Err e, p)"
    "\<not> distinct ids \<or> length (sp_free_slots p) < length (filter (\<lambda>r. map_of (sp_assigned_slots p) r = None) ids)"
  | (ok) q new fresh where "assign_batch p ids = (Ok \<lparr>bs_slots = new, bs_newly_assigned = fresh\<rparr>, q)"
      "distinct ids" "slots_inv q" "sp_capacity q = sp_capacity p"
      "map (map_of (sp_assigned_slots q)) ids = map Some new"
      "\<forall>rid. map_of (sp_assigned_slots p) rid \<noteq> None \<or> rid \<notin> set ids \<longrightarrow>
        map_of (sp_assigned_slots q) rid = map_of (sp_assigned_slots p) rid"
      "set fresh \<subseteq> set (sp_free_slots p)"
proof (cases "first_duplicate {} ids")
  case (Some rid)
  then have "\<not> distinct ids" using first_duplicate_None [of "{}" ids] by simp
  then show thesis using Some error by (simp add: assign_batch_def)
next
  case None
  then have d: "distinct ids" by (simp add: first_duplicate_None)
  show thesis
  proof (cases "length (filter (\<lambda>r. map_of (sp_assigned_slots p) r = None) ids) \<le> length (sp_free_slots p)")
    case True
    then show thesis
      using assign_loop_Ok [OF assms d True, of "[]" "[]"] None d ok by (auto simp: assign_batch_def Let_def)
  qed (use None error in \<open>simp add: assign_batch_def Let_def not_le\<close>)
qed

lemma assigned_slots_inj:
  assumes "slots_inv p" "map_of (sp_assigned_slots p) a = Some s" "map_of (sp_assigned_slots p) b = Some s"
  shows "a = b"
proof -
  have "distinct (map snd (sp_assigned_slots p))" using assms(1) by (simp add: slots_inv_def)
  then show ?thesis
    using map_of_SomeD [OF assms(2)] map_of_SomeD [OF assms(3)]
    by (metis distinct_map inj_onD prod.inject snd_conv)
qed

section \<open>The interface of a slot pool\<close>

text \<open>
  What the batch executor relies on: assigning and releasing keep the pool's invariant, an
  assignment is a partial injection from requests to slots, and a request keeps its slot until it is
  released.
\<close>

datatype slot_call = Assign "string list" | GiveUp string

locale slot_provider =
  fixes assign :: "'p \<Rightarrow> string list \<Rightarrow> (slot_error, batch_slots) outcome \<times> 'p"
    and give_up :: "'p \<Rightarrow> string \<Rightarrow> u32 option \<times> 'p"
    and slot_of :: "'p \<Rightarrow> string \<Rightarrow> u32 option"
    and ok :: "'p \<Rightarrow> bool"
  assumes ok_assign: "ok p \<Longrightarrow> ok (snd (assign p ids))"
    and ok_give_up: "ok p \<Longrightarrow> ok (snd (give_up p rid))"
    and inj: "ok p \<Longrightarrow> slot_of p a = Some s \<Longrightarrow> slot_of p b = Some s \<Longrightarrow> a = b"
    and keeps: "ok p \<Longrightarrow> slot_of p rid = Some s \<Longrightarrow> slot_of (snd (assign p ids)) rid = Some s"
    and give_up_others: "ok p \<Longrightarrow> a \<noteq> rid \<Longrightarrow> slot_of (snd (give_up p rid)) a = slot_of p a"
begin

fun run_call :: "slot_call \<Rightarrow> 'p \<Rightarrow> 'p" where
  "run_call (Assign ids) p = snd (assign p ids)"
| "run_call (GiveUp rid) p = snd (give_up p rid)"

lemma run_ok: "ok p \<Longrightarrow> ok (fold run_call calls p)"
proof (induction calls arbitrary: p)
  case (Cons c calls)
  then show ?case by (cases c) (simp_all add: ok_assign ok_give_up)
qed simp

text \<open>A request that is not released in between keeps its slot through any calls.\<close>

lemma run_keeps:
  "ok p \<Longrightarrow> slot_of p rid = Some s \<Longrightarrow> GiveUp rid \<notin> set calls \<Longrightarrow> slot_of (fold run_call calls p) rid = Some s"
proof (induction calls arbitrary: p)
  case (Cons c calls)
  then show ?case
    by (cases c) (auto simp: ok_assign ok_give_up keeps give_up_others)
qed simp

end

abbreviation slot_of :: "slot_pool \<Rightarrow> string \<Rightarrow> u32 option" where
  "slot_of p rid \<equiv> map_of (sp_assigned_slots p) rid"

lemma assign_batch_keeps:
  assumes "slots_inv p"
  shows "slots_inv (snd (assign_batch p ids))"
    and "slot_of p rid = Some s \<Longrightarrow> slot_of (snd (assign_batch p ids)) rid = Some s"
  using assign_batch_cases [OF assms, of ids] assms by (metis snd_conv option.distinct(1))+

interpretation slots: slot_provider assign_batch slots_release slot_of slots_inv
  by unfold_locales
    (auto simp: assign_batch_keeps slots_inv_release dest: assigned_slots_inj,
      auto simp: slots_release_def delete_conv' split: option.splits)

text \<open>
  Assigning slots to a batch is all or nothing: on an error (a duplicate id, or too few free slots)
  the pool is unchanged; otherwise every request of the batch gets its slot, different requests
  different slots, requests that had a slot keep it, and slots of other requests do not change.
\<close>

theorem assign_batch_atomic:
  assumes "slots_inv p"
  shows "case assign_batch p ids of
     (Ok b, q) \<Rightarrow> slots_inv q \<and> map (slot_of q) ids = map Some (bs_slots b) \<and> distinct (bs_slots b) \<and>
       (\<forall>rid. slot_of p rid \<noteq> None \<or> rid \<notin> set ids \<longrightarrow> slot_of q rid = slot_of p rid)
   | (Err e, q) \<Rightarrow> q = p \<and>
       (\<not> distinct ids \<or> length (sp_free_slots p) < length (filter (\<lambda>r. slot_of p r = None) ids))
   | (Panic, q) \<Rightarrow> False"
  using assms
proof (cases rule: assign_batch_cases [where ids = ids])
  case (ok q new fresh)
  have "inj_on (slot_of q) (set ids)"
  proof (rule inj_onI)
    fix a b
    assume "a \<in> set ids" "b \<in> set ids" and eq: "slot_of q a = slot_of q b"
    have "slot_of q a \<in> set (map Some new)"
      unfolding ok(5) [symmetric] using \<open>a \<in> set ids\<close> by simp
    then obtain s where "slot_of q a = Some s" by auto
    then show "a = b" using slots.inj [OF ok(3)] eq by metis
  qed
  then have "distinct (map (slot_of q) ids)" using ok(2) by (simp add: distinct_map)
  then have "distinct new" unfolding ok(5) by (simp add: distinct_map)
  then show ?thesis using ok by simp
qed simp

theorem assign_batch_atomic_witness:
  "\<exists>p. slots_new 2 = Ok p \<and> snd (assign_batch p [''a'', ''b'', ''c'']) = p \<and>
       fst (assign_batch p [''a'', ''b'', ''c'']) = Err (Exhausted 2 0 3)"
proof -
  let ?p = "\<lparr>sp_capacity = 2, sp_free_slots = [1, 0], sp_assigned_slots = []\<rparr>"
  have new: "slots_new 2 = Ok ?p" by (simp add: slots_new_def upt_rec)
  have e: "fst (assign_batch ?p [''a'', ''b'', ''c'']) = Err (Exhausted 2 0 3)" by code_simp
  then have "snd (assign_batch ?p [''a'', ''b'', ''c'']) = ?p"
    using assign_batch_atomic [OF slots_new_inv [OF new], of "[''a'', ''b'', ''c'']"]
    by (auto split: prod.splits)
  then show ?thesis using new e by blast
qed

section \<open>Payload round trips\<close>

lemma slice_append [simp]:
  "byte_slice (pre @ xs @ post) (length pre) (length xs) = xs"
  by (simp add: byte_slice_def)

lemma slice_within: "offset + n \<le> length bytes \<Longrightarrow> length (byte_slice bytes offset n) = n"
  by (simp add: byte_slice_def)

lemma slice_split: "byte_slice bytes offset (m + n) = byte_slice bytes offset m @ byte_slice bytes (offset + m) n"
  by (simp add: byte_slice_def take_add add.commute)

lemma length_concat_le [simp]: "length (concat (map u32_to_le_bytes xs)) = 4 * length xs"
  by (induction xs) simp_all

lemma read_u32_append: "read_u32 (pre @ u32_to_le_bytes w @ post) (length pre) = w"
proof -
  have "byte_slice (pre @ u32_to_le_bytes w @ post) (length pre) 4 = u32_to_le_bytes w"
    using slice_append [of pre "u32_to_le_bytes w" post] by simp
  then show ?thesis by (simp add: read_u32_def)
qed

lemma read_f32s_append:
  "read_f32s (pre @ concat (map u32_to_le_bytes xs) @ post) (length pre) (length xs) = xs"
proof (rule nth_equalityI)
  fix i
  assume "i < length (read_f32s (pre @ concat (map u32_to_le_bytes xs) @ post) (length pre) (length xs))"
  then have i: "i < length xs" by (simp add: read_f32s_def)
  have xs: "xs = take i xs @ xs ! i # drop (Suc i) xs" using i by (simp add: id_take_nth_drop)
  let ?pre = "pre @ concat (map u32_to_le_bytes (take i xs))"
  let ?post = "concat (map u32_to_le_bytes (drop (Suc i) xs)) @ post"
  have "pre @ concat (map u32_to_le_bytes xs) @ post = ?pre @ u32_to_le_bytes (xs ! i) @ ?post"
    by (subst xs) simp
  moreover have "length ?pre = length pre + i * 4" using i by simp
  ultimately show "read_f32s (pre @ concat (map u32_to_le_bytes xs) @ post) (length pre) (length xs) ! i = xs ! i"
    using i read_u32_append [of ?pre "xs ! i" ?post] by (simp add: read_f32s_def mult.commute)
qed (simp add: read_f32s_def)

definition vector_bytes :: "u32 list \<Rightarrow> u8 list" where
  "vector_bytes xs = u32_to_le_bytes (of_nat (length xs)) @ concat (map u32_to_le_bytes xs)"

lemma length_vector_bytes: "length (vector_bytes xs) = 4 + 4 * length xs"
  by (simp add: vector_bytes_def)

lemma read_vector_append:
  assumes "length xs < 2 ^ 32"
  shows "read_vector name (pre @ vector_bytes xs @ post) (length pre) = Ok (xs, length (pre @ vector_bytes xs))"
proof -
  let ?b = "pre @ vector_bytes xs @ post"
  have n: "unat (read_u32 ?b (length pre)) = length xs"
    using read_u32_append [of pre "of_nat (length xs)" "concat (map u32_to_le_bytes xs) @ post"] assms
    by (simp add: vector_bytes_def unat_of_nat_le)
  have "read_f32s ?b (length pre + 4) (length xs) = xs"
    using read_f32s_append [of "pre @ u32_to_le_bytes (of_nat (length xs))" xs post] by (simp add: vector_bytes_def)
  moreover have mul: "checked_mul (length xs) 4 = Some (length xs * 4)" using assms by (simp add: checked_mul_def)
  ultimately show ?thesis
    using n by (simp add: read_vector_def Let_def length_vector_bytes mul)
qed

lemma layer_bytes_vectors: "layer_bytes l = vector_bytes (conv l) @ vector_bytes (recurrent l)"
  by (simp add: layer_bytes_def vector_bytes_def)

definition fits_u32 :: "layer_payload \<Rightarrow> bool" where
  "fits_u32 l \<longleftrightarrow> length (conv l) < 2 ^ 32 \<and> length (recurrent l) < 2 ^ 32"

lemma read_layers_append:
  assumes "\<forall>l \<in> set ls. fits_u32 l"
  shows "read_layers (pre @ concat (map layer_bytes ls)) (length ls) (length pre) acc =
           Ok (acc @ ls, length (pre @ concat (map layer_bytes ls)))"
  using assms
proof (induction ls arbitrary: pre acc)
  case (Cons l ls)
  let ?r = "vector_bytes (recurrent l) @ concat (map layer_bytes ls)"
  have c: "length (conv l) < 2 ^ 32" and r: "length (recurrent l) < 2 ^ 32"
    using Cons.prems by (simp_all add: fits_u32_def)
  have split: "pre @ concat (map layer_bytes (l # ls)) = pre @ vector_bytes (conv l) @ ?r"
    "pre @ vector_bytes (conv l) @ ?r = (pre @ vector_bytes (conv l)) @ ?r"
    "(pre @ vector_bytes (conv l)) @ ?r = (pre @ vector_bytes (conv l) @ vector_bytes (recurrent l)) @ concat (map layer_bytes ls)"
    by (simp_all add: layer_bytes_vectors)
  have v1: "read_vector ''conv'' (pre @ vector_bytes (conv l) @ ?r) (length pre) =
      Ok (conv l, length (pre @ vector_bytes (conv l)))"
    by (rule read_vector_append [OF c])
  have v2: "read_vector ''recurrent'' (pre @ vector_bytes (conv l) @ ?r) (length (pre @ vector_bytes (conv l))) =
      Ok (recurrent l, length ((pre @ vector_bytes (conv l)) @ vector_bytes (recurrent l)))"
    unfolding split(2) by (rule read_vector_append [OF r])
  have IH: "read_layers (pre @ vector_bytes (conv l) @ ?r) (length ls)
      (length ((pre @ vector_bytes (conv l)) @ vector_bytes (recurrent l))) (acc @ [l]) =
      Ok ((acc @ [l]) @ ls, length (pre @ concat (map layer_bytes (l # ls))))"
    using Cons.IH [of "pre @ vector_bytes (conv l) @ vector_bytes (recurrent l)" "acc @ [l]"] Cons.prems
    by (simp add: layer_bytes_vectors [of l])
  have l: "\<lparr>conv = conv l, recurrent = recurrent l\<rparr> = l" by simp
  show ?case unfolding split(1) using v1 v2 IH by (simp add: l layer_bytes_vectors [of l] del: length_append)
qed simp

text \<open>Decoding reads back exactly the bytes that encoding its result writes.\<close>

lemma read_f32s_slice:
  assumes "offset + 4 * n \<le> length bytes"
  shows "concat (map u32_to_le_bytes (read_f32s bytes offset n)) = byte_slice bytes offset (4 * n)"
  using assms
proof (induction n)
  case (Suc n)
  have "u32_to_le_bytes (read_u32 bytes (offset + n * 4)) = byte_slice bytes (offset + n * 4) 4"
    unfolding read_u32_def by (rule u32_to_from_le) (use Suc.prems in \<open>simp add: slice_within\<close>)
  moreover have "byte_slice bytes offset (4 * Suc n) = byte_slice bytes offset (4 * n) @ byte_slice bytes (offset + n * 4) 4"
    using slice_split [of bytes offset "4 * n" 4] by (simp add: ac_simps)
  ultimately show ?case using Suc by (simp add: read_f32s_def)
qed (simp add: read_f32s_def byte_slice_def)

lemma read_vector_Ok:
  assumes "read_vector name bytes offset = Ok (xs, off')"
  shows "offset \<le> off' \<and> off' \<le> length bytes \<and> byte_slice bytes offset (off' - offset) = vector_bytes xs \<and>
         length xs < 2 ^ 32"
proof -
  let ?w = "read_u32 bytes offset"
  have off: "offset + 4 \<le> length bytes" "offset + 4 + 4 * unat ?w \<le> length bytes"
    "off' = offset + 4 + 4 * unat ?w" and xs: "xs = read_f32s bytes (offset + 4) (unat ?w)"
    using assms by (auto simp: read_vector_def Let_def checked_mul_def ac_simps split: if_splits)
  have len: "length xs = unat ?w" by (simp add: xs read_f32s_def)
  have "u32_to_le_bytes ?w = byte_slice bytes offset 4"
    unfolding read_u32_def by (rule u32_to_from_le) (use off(1) in \<open>simp add: slice_within\<close>)
  moreover have "concat (map u32_to_le_bytes xs) = byte_slice bytes (offset + 4) (4 * unat ?w)"
    unfolding xs by (rule read_f32s_slice) (use off(2) in simp)
  ultimately have "byte_slice bytes offset (off' - offset) = vector_bytes xs"
    using slice_split [of bytes offset 4 "4 * unat ?w"] off(3) len by (simp add: vector_bytes_def)
  then show ?thesis using off len unat_bounds(1) [of ?w] by simp
qed

lemma read_layers_Ok:
  assumes "read_layers bytes k offset acc = Ok (ls, off')" and "offset \<le> length bytes"
  shows "\<exists>new. ls = acc @ new \<and> length new = k \<and> offset \<le> off' \<and> off' \<le> length bytes \<and>
           byte_slice bytes offset (off' - offset) = concat (map layer_bytes new) \<and> (\<forall>l \<in> set new. fits_u32 l)"
  using assms
proof (induction bytes k offset acc rule: read_layers.induct)
  case (1 bytes offset acc)
  then show ?case by (simp add: byte_slice_def)
next
  case (2 bytes k offset acc)
  obtain c o1 r o2 where v1: "read_vector ''conv'' bytes offset = Ok (c, o1)"
    and v2: "read_vector ''recurrent'' bytes o1 = Ok (r, o2)"
    and rest: "read_layers bytes k o2 (acc @ [\<lparr>conv = c, recurrent = r\<rparr>]) = Ok (ls, off')"
    using "2.prems"(1) by (auto simp: outcome_simps)
  let ?l = "\<lparr>conv = c, recurrent = r\<rparr>"
  note a1 = read_vector_Ok [OF v1] and a2 = read_vector_Ok [OF v2]
  obtain new where new: "ls = (acc @ [?l]) @ new" "length new = k" "o2 \<le> off'" "off' \<le> length bytes"
      "byte_slice bytes o2 (off' - o2) = concat (map layer_bytes new)" "\<forall>l \<in> set new. fits_u32 l"
    using "2.IH" [OF rest] a2 by blast
  have "byte_slice bytes offset (off' - offset) =
      byte_slice bytes offset (o1 - offset) @ byte_slice bytes o1 (o2 - o1) @ byte_slice bytes o2 (off' - o2)"
    using slice_split [of bytes offset "o1 - offset" "off' - o1"] slice_split [of bytes o1 "o2 - o1" "off' - o2"]
      a1 a2 new(3) by simp
  also have "\<dots> = concat (map layer_bytes (?l # new))"
    using a1 a2 new(5) by (simp add: layer_bytes_vectors [of ?l])
  finally have "byte_slice bytes offset (off' - offset) = concat (map layer_bytes (?l # new))" .
  then show ?case
    using new a1 a2 by (intro exI [of _ "?l # new"]) (auto simp: fits_u32_def)
qed

definition fits_format :: "state_payload \<Rightarrow> bool" where
  "fits_format p \<longleftrightarrow> next_position p < 2 ^ 64 \<and> length (layer_states p) < 2 ^ 32 \<and>
     (\<forall>l \<in> set (layer_states p). fits_u32 l)"

lemma header_reads:
  assumes "bytes = u32_to_le_bytes m @ u64_to_le_bytes q @ u32_to_le_bytes n @ rest"
  shows "read_u32 bytes 0 = m" "byte_slice bytes 4 8 = u64_to_le_bytes q" "read_u32 bytes 12 = n"
proof -
  show "read_u32 bytes 0 = m" using read_u32_append [of "[]" m] assms by simp
  show "byte_slice bytes 4 8 = u64_to_le_bytes q"
    using slice_append [of "u32_to_le_bytes m" "u64_to_le_bytes q"] assms by simp
  show "read_u32 bytes 12 = n"
    using read_u32_append [of "u32_to_le_bytes m @ u64_to_le_bytes q" n rest] assms by simp
qed

lemma from_bytes_to_bytes:
  assumes "fits_format p"
  shows "from_bytes (to_bytes p) = Ok p"
proof -
  let ?h = "u32_to_le_bytes MAGIC @ u64_to_le_bytes (of_nat (next_position p)) @
    u32_to_le_bytes (of_nat (length (layer_states p)))"
  have b: "to_bytes p = ?h @ concat (map layer_bytes (layer_states p))" by (simp add: to_bytes_def)
  note hd = header_reads [of "to_bytes p" MAGIC "of_nat (next_position p)" "of_nat (length (layer_states p))"
      "concat (map layer_bytes (layer_states p))"]
  have "read_layers (to_bytes p) (length (layer_states p)) 16 [] = Ok (layer_states p, length (to_bytes p))"
    using read_layers_append [of "layer_states p" ?h "[]"] assms by (simp add: b fits_format_def)
  moreover have "16 \<le> length (to_bytes p)" by (simp add: b)
  ultimately show ?thesis
    using hd assms by (simp add: from_bytes_def Let_def to_bytes_def fits_format_def unat_of_nat_le)
qed

text \<open>
  A recurrent state survives the wire: decoding the encoding of any payload whose position fits 64
  bits and whose vectors and layer list have fewer than \<open>2 ^ 32\<close> elements gives the payload back.
\<close>

theorem payload_decode_encode:
  assumes "fits_format p"
  shows "from_bytes (to_bytes p) = Ok p"
  using assms by (rule from_bytes_to_bytes)

theorem payload_decode_encode_witness:
  defines "p \<equiv> \<lparr>next_position = 42, layer_states = [\<lparr>conv = [0x3F800000], recurrent = [0x40000000, 0]\<rparr>]\<rparr>"
  shows "length (to_bytes p) = 36 \<and> from_bytes (to_bytes p) = Ok p"
proof -
  have "fits_format p" by (simp add: p_def fits_format_def fits_u32_def)
  moreover have "length (to_bytes p) = 36" by (simp add: p_def to_bytes_def layer_bytes_def)
  ultimately show ?thesis using payload_decode_encode by blast
qed

text \<open>
  The format is canonical and the decoder strict: bytes that decode are exactly the encoding of what
  they decode to, so truncated input and trailing bytes are always rejected.
\<close>

theorem payload_encode_decode:
  assumes "from_bytes bytes = Ok p"
  shows "to_bytes p = bytes \<and> fits_format p"
proof -
  have len: "16 \<le> length bytes" and magic: "read_u32 bytes 0 = MAGIC"
    using assms by (auto simp: from_bytes_def Let_def split: if_splits)
  obtain layers where L: "read_layers bytes (unat (read_u32 bytes 12)) 16 [] = Ok (layers, length bytes)"
    and p: "p = \<lparr>next_position = unat (u64_from_le_bytes (byte_slice bytes 4 8)), layer_states = layers\<rparr>"
    using assms by (auto simp: from_bytes_def Let_def outcome_simps split: if_splits)
  have l: "length layers = unat (read_u32 bytes 12)"
    "byte_slice bytes 16 (length bytes - 16) = concat (map layer_bytes layers)" "\<forall>l \<in> set layers. fits_u32 l"
    using read_layers_Ok [OF L] len by auto
  have s0: "u32_to_le_bytes MAGIC = byte_slice bytes 0 4"
    using u32_to_from_le [of "byte_slice bytes 0 4"] magic len by (simp add: slice_within read_u32_def)
  have s4: "u64_to_le_bytes (u64_from_le_bytes (byte_slice bytes 4 8)) = byte_slice bytes 4 8"
    by (rule u64_to_from_le) (use len in \<open>simp add: slice_within\<close>)
  have s12: "u32_to_le_bytes (read_u32 bytes 12) = byte_slice bytes 12 4"
    unfolding read_u32_def by (rule u32_to_from_le) (use len in \<open>simp add: slice_within\<close>)
  have "bytes = byte_slice bytes 0 (4 + (8 + (4 + (length bytes - 16))))" using len by (simp add: byte_slice_def)
  also have "\<dots> = byte_slice bytes 0 4 @ byte_slice bytes 4 8 @ byte_slice bytes 12 4 @ byte_slice bytes 16 (length bytes - 16)"
    unfolding slice_split by simp
  finally have "to_bytes p = bytes" using s0 s4 s12 l by (simp add: p to_bytes_def)
  moreover have "fits_format p"
    using l unat_bounds(1) [of "read_u32 bytes 12"] unat_bounds(2) [of "u64_from_le_bytes (byte_slice bytes 4 8)"]
    by (simp add: p fits_format_def)
  ultimately show ?thesis by blast
qed

theorem payload_encode_decode_witness:
  defines "bytes \<equiv> to_bytes \<lparr>next_position = 7, layer_states = [\<lparr>conv = [1], recurrent = []\<rparr>]\<rparr>"
  shows "\<exists>p. from_bytes bytes = Ok p \<and> to_bytes p = bytes"
proof -
  have "from_bytes bytes = Ok \<lparr>next_position = 7, layer_states = [\<lparr>conv = [1], recurrent = []\<rparr>]\<rparr>"
    unfolding bytes_def by (rule from_bytes_to_bytes) (simp add: fits_format_def fits_u32_def)
  then show ?thesis using payload_encode_decode by blast
qed

end
