(* ===== verification/Parallel_Topology.thy ===== *)
theory Parallel_Topology
  imports Sgl_Prelude
begin

text \<open>
  The rank topology of a distributed deployment, \<open>crates/sglang-srt/src/distributed/parallel_topology.rs\<close>:
  the sizes of the pipeline, attention data, attention tensor, expert and dense tensor dimensions, the
  coordinates of every global rank, the communication groups and the pipeline neighbours.  The newtypes
  of ranks are plain numbers.  \<open>stage_size\<close> and \<open>world_size\<close> multiply without a check; the release
  profile wraps, which is written out as \<open>mod 2 ^ 64\<close>.
\<close>

section \<open>Definitions\<close>

datatype topology_error =
    ZeroDimension string
  | Overflow string
  | StageSizingMismatch usize usize
  | RankOutOfBounds usize usize

record coordinate =
  global_rank :: usize
  pp_stage :: usize
  attn_dp_rank :: usize
  attn_tp_rank :: usize
  ep_rank :: usize
  dense_tp_rank :: usize

definition is_first_pipeline_stage :: "coordinate \<Rightarrow> bool" where
  "is_first_pipeline_stage c \<longleftrightarrow> pp_stage c = 0"

definition is_last_pipeline_stage :: "coordinate \<Rightarrow> usize \<Rightarrow> bool" where
  "is_last_pipeline_stage c pp \<longleftrightarrow> pp_stage c + 1 = pp"

record parallel_config =
  pp_size :: usize
  attn_dp_size :: usize
  attn_tp_size :: usize
  ep_size :: usize
  moe_dense_tp_size :: usize

definition config_new ::
  "usize \<Rightarrow> usize \<Rightarrow> usize \<Rightarrow> usize \<Rightarrow> usize \<Rightarrow> (topology_error, parallel_config) outcome" where
  "config_new pp attn_dp attn_tp ep moe_dense_tp =
     (if pp = 0 then Err (ZeroDimension ''pp_size'')
      else if attn_dp = 0 then Err (ZeroDimension ''attn_dp_size'')
      else if attn_tp = 0 then Err (ZeroDimension ''attn_tp_size'')
      else if ep = 0 then Err (ZeroDimension ''ep_size'')
      else if moe_dense_tp = 0 then Err (ZeroDimension ''moe_dense_tp_size'')
      else
        and_then (ok_or (Overflow ''stage_size_attn'') (checked_mul attn_dp attn_tp)) (\<lambda>stage_attn.
        and_then (ok_or (Overflow ''stage_size_moe'') (checked_mul ep moe_dense_tp)) (\<lambda>stage_moe.
          if stage_attn \<noteq> stage_moe then Err (StageSizingMismatch stage_attn stage_moe)
          else Ok \<lparr> pp_size = pp, attn_dp_size = attn_dp, attn_tp_size = attn_tp, ep_size = ep,
                    moe_dense_tp_size = moe_dense_tp \<rparr>)))"

definition stage_size :: "parallel_config \<Rightarrow> usize" where
  "stage_size c = attn_dp_size c * attn_tp_size c mod 2 ^ 64"

definition config_world_size :: "parallel_config \<Rightarrow> usize" where
  "config_world_size c = pp_size c * stage_size c mod 2 ^ 64"

record topology =
  topo_config :: parallel_config
  topo_world_size :: usize
  topo_ranks :: "coordinate list"

definition coordinate_for :: "parallel_config \<Rightarrow> usize \<Rightarrow> coordinate" where
  "coordinate_for c g =
     (let pp = g div stage_size c;
          intra_stage = g mod stage_size c
      in \<lparr> global_rank = g, pp_stage = pp,
           attn_dp_rank = intra_stage div attn_tp_size c, attn_tp_rank = intra_stage mod attn_tp_size c,
           ep_rank = intra_stage div moe_dense_tp_size c, dense_tp_rank = intra_stage mod moe_dense_tp_size c \<rparr>)"

definition topology_new :: "parallel_config \<Rightarrow> topology" where
  "topology_new c =
     \<lparr> topo_config = c, topo_world_size = config_world_size c,
       topo_ranks = map (coordinate_for c) [0 ..< config_world_size c] \<rparr>"

definition coordinate_of :: "topology \<Rightarrow> usize \<Rightarrow> (topology_error, coordinate) outcome" where
  "coordinate_of t rank =
     (if rank < length (topo_ranks t) then Ok (topo_ranks t ! rank)
      else Err (RankOutOfBounds rank (topo_world_size t)))"

text \<open>The group of the ranks that agree with a rank in the fields of interest.\<close>

definition group_by ::
  "(coordinate \<Rightarrow> coordinate \<Rightarrow> bool) \<Rightarrow> topology \<Rightarrow> usize \<Rightarrow> (topology_error, usize list) outcome" where
  "group_by agrees t rank =
     and_then (coordinate_of t rank) (\<lambda>coord. Ok (map global_rank (filter (\<lambda>c. agrees c coord) (topo_ranks t))))"

definition attn_tp_group_for :: "topology \<Rightarrow> usize \<Rightarrow> (topology_error, usize list) outcome" where
  "attn_tp_group_for = group_by (\<lambda>c d. pp_stage c = pp_stage d \<and> attn_dp_rank c = attn_dp_rank d)"

definition attn_dp_group_for :: "topology \<Rightarrow> usize \<Rightarrow> (topology_error, usize list) outcome" where
  "attn_dp_group_for = group_by (\<lambda>c d. pp_stage c = pp_stage d \<and> attn_tp_rank c = attn_tp_rank d)"

definition ep_group_for :: "topology \<Rightarrow> usize \<Rightarrow> (topology_error, usize list) outcome" where
  "ep_group_for = group_by (\<lambda>c d. pp_stage c = pp_stage d \<and> dense_tp_rank c = dense_tp_rank d)"

definition pp_group_for :: "topology \<Rightarrow> usize \<Rightarrow> (topology_error, usize list) outcome" where
  "pp_group_for = group_by (\<lambda>c d. attn_dp_rank c = attn_dp_rank d \<and> attn_tp_rank c = attn_tp_rank d)"

definition pp_prev_rank :: "topology \<Rightarrow> usize \<Rightarrow> (topology_error, usize option) outcome" where
  "pp_prev_rank t rank =
     and_then (coordinate_of t rank) (\<lambda>coord.
       if pp_stage coord = 0 then Ok None
       else Ok (Some ((pp_stage coord - 1) * stage_size (topo_config t) + rank mod stage_size (topo_config t))))"

definition pp_next_rank :: "topology \<Rightarrow> usize \<Rightarrow> (topology_error, usize option) outcome" where
  "pp_next_rank t rank =
     and_then (coordinate_of t rank) (\<lambda>coord.
       if pp_stage coord + 1 \<ge> pp_size (topo_config t) then Ok None
       else Ok (Some ((pp_stage coord + 1) * stage_size (topo_config t) + rank mod stage_size (topo_config t))))"

section \<open>Valid configurations\<close>

text \<open>A configuration as the constructor returns it, whose world size fits a machine word.\<close>

definition valid_config :: "parallel_config \<Rightarrow> bool" where
  "valid_config c \<longleftrightarrow>
     (\<exists>pp dp tp ep moe. config_new pp dp tp ep moe = Ok c) \<and> pp_size c * (attn_dp_size c * attn_tp_size c) < 2 ^ 64"

lemma valid_config_facts:
  assumes "valid_config c"
  shows "0 < pp_size c" "0 < attn_dp_size c" "0 < attn_tp_size c" "0 < ep_size c" "0 < moe_dense_tp_size c"
    "stage_size c = attn_dp_size c * attn_tp_size c" "stage_size c = ep_size c * moe_dense_tp_size c"
    "config_world_size c = pp_size c * stage_size c" "0 < stage_size c"
  using assms
  by (auto simp: valid_config_def config_new_def stage_size_def config_world_size_def outcome_simps split: if_splits)

lemma topo_config_new [simp]: "topo_config (topology_new c) = c"
  by (simp add: topology_new_def)

lemma coordinate_of_new:
  "coordinate_of (topology_new c) g =
     (if g < config_world_size c then Ok (coordinate_for c g) else Err (RankOutOfBounds g (config_world_size c)))"
  by (simp add: coordinate_of_def topology_new_def)

text \<open>Mixed-radix digits: a number below \<open>m * n\<close> is a pair of digits.\<close>

lemma digits:
  fixes x m n :: nat
  assumes "x < m * n"
  shows "x div n < m" and "x mod n < n" and "x = x div n * n + x mod n"
proof -
  have "0 < n" using assms by (cases n) simp_all
  then show "x div n < m" "x mod n < n" "x = x div n * n + x mod n"
    using assms by (simp_all add: less_mult_imp_div_less)
qed

lemma digits_of: "i < n \<Longrightarrow> (k * n + i) div n = k \<and> (k * n + i) mod n = (i :: nat)"
  by simp

lemma digits_below: "k < m \<Longrightarrow> i < n \<Longrightarrow> k * n + i < m * (n :: nat)"
  using mult_le_mono1 [of "Suc k" m n] by simp

lemma group_by_new:
  assumes "g < config_world_size c"
  shows "group_by agrees (topology_new c) g =
    Ok (filter (\<lambda>h. agrees (coordinate_for c h) (coordinate_for c g)) [0 ..< config_world_size c])"
proof -
  have "map global_rank (filter p (map (coordinate_for c) xs)) = filter (\<lambda>h. p (coordinate_for c h)) xs" for p xs
    by (induction xs) (auto simp: coordinate_for_def Let_def)
  then show ?thesis using assms by (simp add: group_by_def coordinate_of_new) (simp add: topology_new_def)
qed

text \<open>A filtered range is the increasing list of its elements.\<close>

lemma filter_upt_eq:
  assumes "sorted xs" and "distinct xs" and "set xs = {h. h < n \<and> P h}"
  shows "filter P [0 ..< n] = xs"
  by (rule sorted_distinct_set_unique) (use assms in \<open>auto simp: sorted_wrt_filter\<close>)

lemma block_filter:
  fixes D T P g :: nat
  assumes T: "0 < T" and g: "g < P * (D * T)"
  defines "S \<equiv> D * T"
  defines "base \<equiv> g div S * S + g mod S div T * T"
  shows "filter (\<lambda>h. h div S = g div S \<and> h mod S div T = g mod S div T) [0 ..< P * S] = [base ..< base + T]"
proof (rule filter_upt_eq)
  have S: "g < P * S" using g by (simp add: S_def)
  have intra: "g mod S < D * T" using digits(2) [OF S] by (simp add: S_def)
  have inner: "g mod S div T * T + i < S" if "i < T" for i
    using digits_below [OF digits(1) [OF intra] that] by (simp add: S_def)
  have "h < P * S \<and> h div S = g div S \<and> h mod S div T = g mod S div T" if h: "base \<le> h" "h < base + T" for h
  proof -
    obtain i where i: "h = g div S * S + (g mod S div T * T + i)" "i < T"
      using h le_Suc_ex [of base h] by (auto simp: base_def)
    have X: "h div S = g div S" "h mod S = g mod S div T * T + i"
      using digits_of [OF inner [OF i(2)], of "g div S"] unfolding i(1) by blast+
    have "h mod S div T = g mod S div T" unfolding X(2) using digits_of [OF i(2)] by blast
    moreover have "h < P * S" unfolding i(1) by (rule digits_below [OF digits(1) [OF S] inner [OF i(2)]])
    ultimately show ?thesis using X(1) by blast
  qed
  moreover have "base \<le> h \<and> h < base + T" if h: "h div S = g div S" "h mod S div T = g mod S div T" for h
  proof -
    have "h = h div S * S + (h mod S div T * T + h mod S mod T)" by simp
    then have "h = base + h mod S mod T" using h by (simp add: base_def)
    moreover have "h mod S mod T < T" using T by simp
    ultimately show ?thesis by linarith
  qed
  ultimately have "h \<in> set [base ..< base + T] \<longleftrightarrow> h < P * S \<and> h div S = g div S \<and> h mod S div T = g mod S div T" for h
    unfolding set_upt atLeastLessThan_iff by blast
  then show "set [base ..< base + T] = {h. h < P * S \<and> h div S = g div S \<and> h mod S div T = g mod S div T}"
    by blast
qed simp_all

lemma chain_filter:
  fixes S P g :: nat
  assumes S: "0 < S" and g: "g < P * S"
  shows "filter (\<lambda>h. h mod S = g mod S) [0 ..< P * S] = map (\<lambda>s. s * S + g mod S) [0 ..< P]"
proof (rule filter_upt_eq)
  have "h \<in> (\<lambda>s. s * S + g mod S) ` {..< P}" if "h < P * S" "h mod S = g mod S" for h
    using that digits(1,3) [OF that(1)] by (metis image_eqI lessThan_iff)
  moreover have "s * S + g mod S < P * S" if "s < P" for s
    using digits_below [OF that digits(2) [OF g]] .
  ultimately show "set (map (\<lambda>s. s * S + g mod S) [0 ..< P]) = {h. h < P * S \<and> h mod S = g mod S}"
    by (auto simp: atLeast0LessThan)
  show "distinct (map (\<lambda>s. s * S + g mod S) [0 ..< P])" using S by (simp add: distinct_map inj_on_def)
  show "sorted (map (\<lambda>s. s * S + g mod S) [0 ..< P])" by (simp add: sorted_iff_nth_mono)
qed

section \<open>Properties\<close>

text \<open>
  Every global rank has exactly one place in each view: its coordinates lie within the sizes of their
  dimensions and the rank is read back from its pipeline stage and attention digits, and also from
  its pipeline stage and expert digits.
\<close>

theorem coordinates_identify_rank:
  assumes "valid_config c" and "g < config_world_size c"
  shows "\<exists>x. coordinate_of (topology_new c) g = Ok x \<and> global_rank x = g \<and>
     pp_stage x < pp_size c \<and> attn_dp_rank x < attn_dp_size c \<and> attn_tp_rank x < attn_tp_size c \<and>
     ep_rank x < ep_size c \<and> dense_tp_rank x < moe_dense_tp_size c \<and>
     g = pp_stage x * stage_size c + (attn_dp_rank x * attn_tp_size c + attn_tp_rank x) \<and>
     g = pp_stage x * stage_size c + (ep_rank x * moe_dense_tp_size c + dense_tp_rank x)"
proof -
  note v = valid_config_facts [OF assms(1)]
  have g: "g < pp_size c * stage_size c" using assms(2) v(8) by simp
  note d = digits [OF g]
  let ?i = "g mod stage_size c"
  have a: "?i < attn_dp_size c * attn_tp_size c" and e: "?i < ep_size c * moe_dense_tp_size c"
    using d(2) v(6,7) by simp_all
  show ?thesis
    using assms(2) d digits [OF a] digits [OF e]
    by (simp add: coordinate_of_new coordinate_for_def Let_def)
qed

definition sample_config :: parallel_config where
  "sample_config = \<lparr> pp_size = 2, attn_dp_size = 2, attn_tp_size = 3, ep_size = 6, moe_dense_tp_size = 1 \<rparr>"

lemma sample_config_valid: "valid_config sample_config"
proof -
  have "config_new 2 2 3 6 1 = Ok sample_config"
    by (simp add: config_new_def checked_mul_def sample_config_def)
  moreover have "pp_size sample_config * (attn_dp_size sample_config * attn_tp_size sample_config) < 2 ^ 64"
    by (simp add: sample_config_def)
  ultimately show ?thesis unfolding valid_config_def by blast
qed

lemma sample_config_sizes: "stage_size sample_config = 6" "config_world_size sample_config = 12"
  by (simp_all add: stage_size_def config_world_size_def sample_config_def)

theorem coordinates_identify_rank_witness:
  "\<exists>x. coordinate_of (topology_new sample_config) 10 = Ok x \<and> 10 = pp_stage x * 6 + (attn_dp_rank x * 3 + attn_tp_rank x)"
proof -
  have "10 < config_world_size sample_config" by (simp add: sample_config_sizes)
  from coordinates_identify_rank [OF sample_config_valid this] show ?thesis
    by (auto simp: sample_config_sizes) (auto simp: sample_config_def)
qed

text \<open>
  The attention tensor group of a rank is the block of \<open>attn_tp_size\<close> consecutive ranks of its pipeline
  stage and data rank, in order, and the pipeline group is the chain of the ranks at the same place of
  every stage; both contain the rank itself.
\<close>

theorem tensor_and_pipeline_groups:
  assumes "valid_config c" and "g < config_world_size c"
  shows "attn_tp_group_for (topology_new c) g =
           (let first = g div stage_size c * stage_size c + g mod stage_size c div attn_tp_size c * attn_tp_size c
            in Ok [first ..< first + attn_tp_size c]) \<and>
         pp_group_for (topology_new c) g =
           Ok (map (\<lambda>s. s * stage_size c + g mod stage_size c) [0 ..< pp_size c])"
proof -
  note v = valid_config_facts [OF assms(1)]
  let ?S = "stage_size c" and ?T = "attn_tp_size c"
  have g: "g < pp_size c * (attn_dp_size c * ?T)" using assms(2) v(6,8) by simp
  have "h mod ?S div ?T = g mod ?S div ?T \<and> h mod ?S mod ?T = g mod ?S mod ?T \<longleftrightarrow> h mod ?S = g mod ?S" for h
    by (metis div_mult_mod_eq)
  then show ?thesis
    using block_filter [OF v(3) g] chain_filter [OF v(9), of g "pp_size c"] v(6,8) assms(2)
    by (simp add: attn_tp_group_for_def pp_group_for_def group_by_new [OF assms(2)] coordinate_for_def Let_def)
qed

theorem tensor_and_pipeline_groups_witness:
  "attn_tp_group_for (topology_new sample_config) 10 = Ok [9, 10, 11] \<and>
   pp_group_for (topology_new sample_config) 10 = Ok [4, 10]"
proof -
  have "10 < config_world_size sample_config" by (simp add: sample_config_sizes)
  from tensor_and_pipeline_groups [OF sample_config_valid this] show ?thesis
    by (simp add: sample_config_sizes Let_def) (simp add: sample_config_def upt_rec)
qed

text \<open>
  Pipeline neighbours: the rank a stage sends to is one stage further at the same place within the
  stage, exists for every stage but the last, and has the sender as its previous rank.
\<close>

theorem pipeline_neighbours_inverse:
  assumes "valid_config c" and "g < config_world_size c"
  shows "case pp_next_rank (topology_new c) g of
           Ok (Some h) \<Rightarrow> h < config_world_size c \<and> h div stage_size c = g div stage_size c + 1 \<and>
             h mod stage_size c = g mod stage_size c \<and> pp_prev_rank (topology_new c) h = Ok (Some g)
         | Ok None \<Rightarrow> g div stage_size c + 1 = pp_size c
         | _ \<Rightarrow> False"
proof -
  note v = valid_config_facts [OF assms(1)]
  let ?S = "stage_size c"
  have g: "g < pp_size c * ?S" using assms(2) v(8) by simp
  note d = digits [OF g]
  show ?thesis
  proof (cases "g div ?S + 1 \<ge> pp_size c")
    case True
    then show ?thesis using assms(2) d(1)
      by (simp add: pp_next_rank_def coordinate_of_new coordinate_for_def Let_def)
  next
    case False
    let ?h = "(g div ?S + 1) * ?S + g mod ?S"
    have h: "?h div ?S = g div ?S + 1" "?h mod ?S = g mod ?S" using digits_of [OF d(2), of "g div ?S + 1"] by simp_all
    have lim: "?h < config_world_size c" using digits_below [OF _ d(2), of "g div ?S + 1" "pp_size c"] False v(8) by simp
    have nxt: "pp_next_rank (topology_new c) g = Ok (Some ?h)"
      using assms(2) False by (simp add: pp_next_rank_def coordinate_of_new coordinate_for_def Let_def)
    have "pp_prev_rank (topology_new c) ?h = Ok (Some g)"
      unfolding pp_prev_rank_def coordinate_of_new using lim h d(3)
      by (simp add: coordinate_for_def Let_def)
    then show ?thesis unfolding nxt using lim h by simp
  qed
qed

theorem pipeline_neighbours_inverse_witness:
  "pp_next_rank (topology_new sample_config) 4 = Ok (Some 10) \<and> pp_prev_rank (topology_new sample_config) 10 = Ok (Some 4)"
proof -
  have "4 < config_world_size sample_config" by (simp add: sample_config_sizes)
  note p = pipeline_neighbours_inverse [OF sample_config_valid this]
  have "pp_next_rank (topology_new sample_config) 4 = Ok (Some 10)"
    by (simp add: pp_next_rank_def coordinate_of_new coordinate_for_def Let_def sample_config_sizes)
      (simp add: sample_config_def)
  then show ?thesis using p by simp
qed

text \<open>
  The constructor checks the stage sizes for overflow but not the product with the number of
  pipeline stages: it accepts a configuration whose world size wraps around to 0, and the topology built
  from it has no rank at all.
\<close>

theorem world_size_can_wrap:
  "\<exists>c. config_new (2 ^ 32) (2 ^ 32) 1 (2 ^ 32) 1 = Ok c \<and> config_world_size c = 0 \<and> topo_ranks (topology_new c) = []"
  by (simp add: config_new_def checked_mul_def config_world_size_def stage_size_def topology_new_def)

end
