(* ===== verification/Pp_Pipeline.thy ===== *)
theory Pp_Pipeline
  imports Sgl_Prelude
begin

text \<open>
  Pipeline parallelism, \<open>crates/sglang-srt/src/distributed/pp_pipeline.rs\<close>: the assignment of layers
  to stages (\<open>PipelineStageConfig\<close>) and the in-process channels between adjacent stages
  (\<open>ChannelPipelineCommunicator\<close>).  A channel is a number; the queues of all channels and the closed
  ends form the network state.  A receive on an empty open channel blocks, which is the result \<open>None\<close>.
\<close>

section \<open>Layer assignment\<close>

datatype pipeline_error =
    ZeroPipelineDimension string
  | InvalidStage usize usize
  | TotalLayersTooSmall usize usize
  | ChannelClosed
  | StageMismatch usize usize
  | FirstStageHasNoPredecessor
  | LastStageHasNoSuccessor
  | ShapeMismatch usize usize

record stage_config =
  sc_stage :: usize
  sc_pp_size :: usize
  sc_total_layers :: usize

definition stage_config_new :: "usize \<Rightarrow> usize \<Rightarrow> usize \<Rightarrow> (pipeline_error, stage_config) outcome" where
  "stage_config_new stage pp total_layers =
     (if pp = 0 then Err (ZeroPipelineDimension ''pp_size'')
      else if total_layers = 0 then Err (ZeroPipelineDimension ''total_layers'')
      else if total_layers < pp then Err (TotalLayersTooSmall total_layers pp)
      else if stage \<ge> pp then Err (InvalidStage stage pp)
      else Ok \<lparr> sc_stage = stage, sc_pp_size = pp, sc_total_layers = total_layers \<rparr>)"

definition is_first_stage :: "stage_config \<Rightarrow> bool" where
  "is_first_stage c \<longleftrightarrow> sc_stage c = 0"

definition is_last_stage :: "stage_config \<Rightarrow> bool" where
  "is_last_stage c \<longleftrightarrow> sc_stage c + 1 = sc_pp_size c"

definition layer_range_for_stage :: "usize \<Rightarrow> usize \<Rightarrow> usize \<Rightarrow> (pipeline_error, usize \<times> usize) outcome" where
  "layer_range_for_stage stage pp total_layers =
     (if pp = 0 then Err (ZeroPipelineDimension ''pp_size'')
      else if stage \<ge> pp then Err (InvalidStage stage pp)
      else
        let base_layers = total_layers div pp;
            remainder = total_layers mod pp;
            start = (if stage < remainder then stage * (base_layers + 1)
                     else remainder * (base_layers + 1) + (stage - remainder) * base_layers);
            layer_count = (if stage < remainder then base_layers + 1 else base_layers)
        in Ok (start, start + layer_count))"

definition assigned_layers :: "stage_config \<Rightarrow> usize \<times> usize" where
  "assigned_layers c =
     (case layer_range_for_stage (sc_stage c) (sc_pp_size c) (sc_total_layers c) of
        Ok layers \<Rightarrow> layers | Err _ \<Rightarrow> (0, 0) | Panic \<Rightarrow> (0, 0))"

definition num_assigned_layers :: "stage_config \<Rightarrow> usize" where
  "num_assigned_layers c = snd (assigned_layers c) - fst (assigned_layers c)"

section \<open>Channels\<close>

record activation_packet =
  batch_id :: u64
  stage_from :: usize
  stage_to :: usize
  pk_request_ids :: "string list"
  pk_sequence_lengths :: "usize list"
  pk_hidden_dim :: usize
  pk_hidden_states :: "u32 list"

record communicator =
  cm_stage :: usize
  cm_pp_size :: usize
  forward_sender :: "nat option"
  forward_receiver :: "nat option"

text \<open>The network: the packets in each channel, oldest first, and the channels whose ends are dropped.\<close>

record network =
  queued :: "nat \<Rightarrow> activation_packet list"
  receiver_dropped :: "nat set"
  senders_dropped :: "nat set"

text \<open>The loop that hands out the channel ends; \<open>receivers\<close> are those not yet taken.\<close>

fun connect_stages :: "usize \<Rightarrow> nat list \<Rightarrow> nat list \<Rightarrow> usize list \<Rightarrow> communicator list" where
  "connect_stages pp senders receivers [] = []"
| "connect_stages pp senders receivers (s # stages) =
     \<lparr> cm_stage = s, cm_pp_size = pp,
       forward_sender = (if s < length senders then Some (senders ! s) else None),
       forward_receiver = (if s > 0 then Some (hd receivers) else None) \<rparr>
     # connect_stages pp senders (if s > 0 then tl receivers else receivers) stages"

definition create_pipeline :: "usize \<Rightarrow> (pipeline_error, communicator list) outcome" where
  "create_pipeline pp =
     (if pp = 0 then Err (ZeroPipelineDimension ''pp_size'')
      else if pp = 1
      then Ok [\<lparr> cm_stage = 0, cm_pp_size = 1, forward_sender = None, forward_receiver = None \<rparr>]
      else Ok (connect_stages pp [0 ..< pp - 1] [0 ..< pp - 1] [0 ..< pp]))"

definition send_forward ::
  "communicator \<Rightarrow> activation_packet \<Rightarrow> network \<Rightarrow> (pipeline_error, unit) outcome \<times> network" where
  "send_forward c packet net =
     (case forward_sender c of
        None \<Rightarrow> (Err LastStageHasNoSuccessor, net)
      | Some ch \<Rightarrow>
          (if stage_from packet \<noteq> cm_stage c then (Err (StageMismatch (cm_stage c) (stage_from packet)), net)
           else if stage_to packet \<noteq> cm_stage c + 1
           then (Err (StageMismatch (cm_stage c + 1) (stage_to packet)), net)
           else if ch \<in> receiver_dropped net then (Err ChannelClosed, net)
           else (Ok (), net\<lparr>queued := (queued net)(ch := queued net ch @ [packet])\<rparr>)))"

definition recv_forward ::
  "communicator \<Rightarrow> network \<Rightarrow> ((pipeline_error, activation_packet) outcome \<times> network) option" where
  "recv_forward c net =
     (case forward_receiver c of
        None \<Rightarrow> Some (Err FirstStageHasNoPredecessor, net)
      | Some ch \<Rightarrow>
          (case queued net ch of
             [] \<Rightarrow> (if ch \<in> senders_dropped net then Some (Err ChannelClosed, net) else None)
           | packet # rest \<Rightarrow>
               (let net' = net\<lparr>queued := (queued net)(ch := rest)\<rparr>
                in if stage_to packet \<noteq> cm_stage c
                   then Some (Err (StageMismatch (cm_stage c) (stage_to packet)), net')
                   else Some (Ok packet, net'))))"

section \<open>Layers are partitioned\<close>

definition layer_start :: "usize \<Rightarrow> usize \<Rightarrow> usize \<Rightarrow> usize" where
  "layer_start stage pp total_layers = stage * (total_layers div pp) + min stage (total_layers mod pp)"

lemma layer_range_eq:
  assumes "stage < pp"
  shows "layer_range_for_stage stage pp n = Ok (layer_start stage pp n, layer_start (Suc stage) pp n)"
proof (cases "stage < n mod pp")
  case True
  then show ?thesis using assms
    by (simp add: layer_range_for_stage_def layer_start_def Let_def algebra_simps min_absorb1)
next
  case False
  define d where "d = stage - n mod pp"
  have s: "stage = n mod pp + d" using False by (simp add: d_def)
  show ?thesis using assms False
    by (simp add: layer_range_for_stage_def layer_start_def Let_def s algebra_simps min_absorb2)
qed

lemma layer_start_mono: "s \<le> t \<Longrightarrow> layer_start s pp n \<le> layer_start t pp n"
  unfolding layer_start_def by (intro add_mono mult_le_mono1) (auto simp: min_def)

lemma layer_start_ends: "layer_start 0 pp n = 0" "0 < pp \<Longrightarrow> layer_start pp pp n = n"
  using mod_less_divisor [of pp n] by (simp_all add: layer_start_def min_absorb2 less_imp_le)

lemma layers_upto: "concat (map (\<lambda>s. [layer_start s pp n ..< layer_start (Suc s) pp n]) [0 ..< k]) = [0 ..< layer_start k pp n]"
proof (induction k)
  case (Suc k)
  have "layer_start k pp n \<le> layer_start (Suc k) pp n" by (rule layer_start_mono) simp
  from upt_add_eq_append [of 0 "layer_start k pp n" "layer_start (Suc k) pp n - layer_start k pp n"]
  have "[0 ..< layer_start (Suc k) pp n] =
      [0 ..< layer_start k pp n] @ [layer_start k pp n ..< layer_start (Suc k) pp n]"
    using \<open>layer_start k pp n \<le> _\<close> by simp
  then show ?case using Suc by simp
qed (simp add: layer_start_def)

text \<open>
  (C11) The layer ranges of the stages, in order, are exactly the layers 0 to \<open>total_layers\<close>, each layer on
  one stage; the sizes of any two stages differ by at most one, earlier stages taking the extra
  layers, and no stage is empty when there are at least as many layers as stages.
\<close>

theorem layers_partitioned:
  fixes n
  assumes "0 < pp"
  defines "start \<equiv> \<lambda>s. fst (assigned_layers \<lparr>sc_stage = s, sc_pp_size = pp, sc_total_layers = n\<rparr>)"
    and "size_of \<equiv> \<lambda>s. num_assigned_layers \<lparr>sc_stage = s, sc_pp_size = pp, sc_total_layers = n\<rparr>"
  shows "concat (map (\<lambda>s. [start s ..< start s + size_of s]) [0 ..< pp]) = [0 ..< n] \<and>
         (\<forall>s < pp. \<forall>t < pp. s \<le> t \<longrightarrow> size_of t \<le> size_of s \<and> size_of s \<le> size_of t + 1) \<and>
         (pp \<le> n \<longrightarrow> (\<forall>s < pp. 0 < size_of s))"
proof -
  have eq: "start s = layer_start s pp n" "size_of s = layer_start (Suc s) pp n - layer_start s pp n" if "s < pp" for s
    using layer_range_eq [OF that] by (simp_all add: start_def size_of_def num_assigned_layers_def assigned_layers_def)
  have sz: "size_of s = n div pp + (if s < n mod pp then 1 else 0)" if "s < pp" for s
    using eq(2) [OF that] by (simp add: layer_start_def min_def)
  have "[start s ..< start s + size_of s] = [layer_start s pp n ..< layer_start (Suc s) pp n]" if "s < pp" for s
    using eq [OF that] layer_start_mono [of s "Suc s" pp n] by simp
  then have eqmap: "map (\<lambda>s. [start s ..< start s + size_of s]) [0 ..< pp] =
      map (\<lambda>s. [layer_start s pp n ..< layer_start (Suc s) pp n]) [0 ..< pp]"
    by (intro map_cong) simp_all
  have "concat (map (\<lambda>s. [start s ..< start s + size_of s]) [0 ..< pp]) = [0 ..< n]"
    by (simp only: eqmap layers_upto layer_start_ends(2) [OF assms(1)])
  moreover have "0 < n div pp" if "pp \<le> n" using that assms(1) by (simp add: div_greater_zero_iff)
  ultimately show ?thesis using sz by auto
qed

theorem layers_partitioned_witness:
  "concat (map (\<lambda>s. [fst (assigned_layers \<lparr>sc_stage = s, sc_pp_size = 4, sc_total_layers = 61\<rparr>) ..<
      fst (assigned_layers \<lparr>sc_stage = s, sc_pp_size = 4, sc_total_layers = 61\<rparr>) +
      num_assigned_layers \<lparr>sc_stage = s, sc_pp_size = 4, sc_total_layers = 61\<rparr>]) [0 ..< 4]) = [0 ..< 61]"
  using layers_partitioned [of 4 61] by simp

section \<open>Channels connect neighbours\<close>

lemma connect_stages_nth:
  assumes "i < length stages" and "stages = [k ..< k + length stages]" and "receivers = [k - 1 ..< m]" "0 < k"
    and "k + length stages \<le> Suc m"
  shows "connect_stages pp senders receivers stages ! i =
    \<lparr> cm_stage = k + i, cm_pp_size = pp,
      forward_sender = (if k + i < length senders then Some (senders ! (k + i)) else None),
      forward_receiver = Some (k + i - 1) \<rparr>"
  using assms
proof (induction stages arbitrary: i k receivers)
  case (Cons s stages)
  have "[k ..< k + length (s # stages)] = k # [Suc k ..< Suc k + length stages]"
    by (simp add: upt_conv_Cons del: upt_Suc)
  then have s: "s = k" "stages = [Suc k ..< Suc k + length stages]"
    using Cons.prems(2) by (metis list.inject)+
  have r: "receivers = (k - 1) # [k ..< m]" using Cons.prems(3-5) by (simp add: upt_conv_Cons)
  show ?case
  proof (cases i)
    case 0
    then show ?thesis using s r Cons.prems(4) by simp
  next
    case (Suc j)
    have "connect_stages pp senders [k ..< m] stages ! j =
      \<lparr> cm_stage = Suc k + j, cm_pp_size = pp,
        forward_sender = (if Suc k + j < length senders then Some (senders ! (Suc k + j)) else None),
        forward_receiver = Some (Suc k + j - 1) \<rparr>"
      by (rule Cons.IH) (use Cons.prems Suc s in simp_all)
    then show ?thesis using s r Suc Cons.prems(4) by simp
  qed
qed simp

text \<open>Stage \<open>s\<close> sends on channel \<open>s\<close> and receives from channel \<open>s - 1\<close>.\<close>

lemma length_connect_stages [simp]: "length (connect_stages pp senders receivers stages) = length stages"
  by (induction pp senders receivers stages rule: connect_stages.induct) simp_all

lemma create_pipeline_nth:
  assumes "create_pipeline pp = Ok cs"
  shows "length cs = pp"
    and "s < pp \<Longrightarrow> cs ! s = \<lparr> cm_stage = s, cm_pp_size = pp,
      forward_sender = (if s + 1 < pp then Some s else None),
      forward_receiver = (if 0 < s then Some (s - 1) else None) \<rparr>"
proof -
  show "length cs = pp" using assms by (auto simp: create_pipeline_def split: if_splits)
  assume s: "s < pp"
  show "cs ! s = \<lparr> cm_stage = s, cm_pp_size = pp,
      forward_sender = (if s + 1 < pp then Some s else None),
      forward_receiver = (if 0 < s then Some (s - 1) else None) \<rparr>"
  proof (cases "pp = 1")
    case True
    then show ?thesis using assms s by (auto simp: create_pipeline_def)
  next
    case False
    then have cs: "cs = connect_stages pp [0 ..< pp - 1] [0 ..< pp - 1] (0 # [1 ..< pp])"
      using assms s by (auto simp: create_pipeline_def upt_conv_Cons)
    show ?thesis
    proof (cases s)
      case 0
      then show ?thesis using cs False s by simp
    next
      case (Suc i)
      have "connect_stages pp [0 ..< pp - 1] [0 ..< pp - 1] [1 ..< pp] ! i =
        \<lparr> cm_stage = 1 + i, cm_pp_size = pp,
          forward_sender = (if 1 + i < length [0 ..< pp - 1] then Some ([0 ..< pp - 1] ! (1 + i)) else None),
          forward_receiver = Some (1 + i - 1) \<rparr>"
        by (rule connect_stages_nth [where m = "pp - 1"]) (use s Suc in simp_all)
      then show ?thesis using cs Suc s by auto
    qed
  qed
qed

text \<open>
  Runs of a pipeline: stages send and receive in any interleaving and may drop their ends.  The ghost
  logs are the packets each stage has successfully sent and received.
\<close>

definition empty_network :: network where
  "empty_network = \<lparr> queued = (\<lambda>_. []), receiver_dropped = {}, senders_dropped = {} \<rparr>"

inductive pipe_run ::
  "communicator list \<Rightarrow> network \<Rightarrow> (usize \<Rightarrow> activation_packet list) \<Rightarrow> (usize \<Rightarrow> activation_packet list) \<Rightarrow> bool"
  for cs where
  pipe_start: "pipe_run cs empty_network (\<lambda>_. []) (\<lambda>_. [])"
| pipe_send: "pipe_run cs net sent got \<Longrightarrow> s < length cs \<Longrightarrow> send_forward (cs ! s) packet net = (Ok (), net') \<Longrightarrow>
     pipe_run cs net' (sent(s := sent s @ [packet])) got"
| pipe_send_error: "pipe_run cs net sent got \<Longrightarrow> s < length cs \<Longrightarrow> send_forward (cs ! s) packet net = (Err e, net') \<Longrightarrow>
     pipe_run cs net' sent got"
| pipe_recv: "pipe_run cs net sent got \<Longrightarrow> s < length cs \<Longrightarrow> recv_forward (cs ! s) net = Some (Ok packet, net') \<Longrightarrow>
     pipe_run cs net' sent (got(s := got s @ [packet]))"
| pipe_recv_error: "pipe_run cs net sent got \<Longrightarrow> s < length cs \<Longrightarrow> recv_forward (cs ! s) net = Some (Err e, net') \<Longrightarrow>
     pipe_run cs net' sent got"
| pipe_drop: "pipe_run cs net sent got \<Longrightarrow>
     pipe_run cs (net\<lparr>receiver_dropped := receiver_dropped net \<union> A, senders_dropped := senders_dropped net \<union> B\<rparr>) sent got"

definition pipe_inv ::
  "usize \<Rightarrow> network \<Rightarrow> (usize \<Rightarrow> activation_packet list) \<Rightarrow> (usize \<Rightarrow> activation_packet list) \<Rightarrow> bool" where
  "pipe_inv pp net sent got \<longleftrightarrow>
     (\<forall>s. sent s = got (Suc s) @ queued net s \<and> (\<forall>p \<in> set (sent s). stage_from p = s \<and> stage_to p = Suc s))"

lemma send_forward_Ok:
  assumes "send_forward c p net = (Ok (), net')"
  obtains ch where "forward_sender c = Some ch" "stage_from p = cm_stage c" "stage_to p = Suc (cm_stage c)"
    "net' = net\<lparr>queued := (queued net)(ch := queued net ch @ [p])\<rparr>"
  using assms by (auto simp: send_forward_def split: option.splits if_splits)

lemma send_forward_Err: "send_forward c p net = (Err e, net') \<Longrightarrow> net' = net"
  by (auto simp: send_forward_def split: option.splits if_splits)

lemma recv_forward_Ok:
  assumes "recv_forward c net = Some (Ok p, net')"
  obtains ch rest where "forward_receiver c = Some ch" "queued net ch = p # rest" "stage_to p = cm_stage c"
    "net' = net\<lparr>queued := (queued net)(ch := rest)\<rparr>"
  using assms by (auto simp: recv_forward_def Let_def split: option.splits list.splits if_splits)

lemma recv_forward_Err:
  assumes "recv_forward c net = Some (Err e, net')"
  shows "net' = net \<and> (\<forall>a b. e \<noteq> StageMismatch a b) \<or>
    (\<exists>ch p rest. forward_receiver c = Some ch \<and> queued net ch = p # rest \<and> stage_to p \<noteq> cm_stage c)"
  using assms by (auto simp: recv_forward_def Let_def split: option.splits list.splits if_splits)

text \<open>A packet at the head of the channel to stage \<open>s\<close> is addressed to it.\<close>

lemma pipe_inv_head:
  assumes "pipe_inv pp net sent got" and "queued net (s - 1) = p # rest" and "0 < s"
  shows "stage_to p = s"
proof -
  obtain i where i: "s = Suc i" using assms(3) by (cases s) simp_all
  have "p \<in> set (sent i)" using assms(1,2) i by (simp add: pipe_inv_def)
  then show ?thesis using assms(1) i unfolding pipe_inv_def by blast
qed

lemma pipe_run_inv:
  assumes cs: "create_pipeline pp = Ok cs" and "pipe_run cs net sent got"
  shows "pipe_inv pp net sent got"
  using assms(2)
proof induction
  case pipe_start
  then show ?case by (simp add: pipe_inv_def empty_network_def)
next
  case (pipe_send net sent got s packet net')
  note c = create_pipeline_nth [OF cs]
  from pipe_send(3) obtain ch where "forward_sender (cs ! s) = Some ch" "stage_from packet = cm_stage (cs ! s)"
      "stage_to packet = Suc (cm_stage (cs ! s))" "net' = net\<lparr>queued := (queued net)(ch := queued net ch @ [packet])\<rparr>"
    by (rule send_forward_Ok)
  moreover have "cm_stage (cs ! s) = s" "forward_sender (cs ! s) = (if s + 1 < pp then Some s else None)"
    using c pipe_send(2) by simp_all
  ultimately show ?case using pipe_send.IH by (auto simp: pipe_inv_def split: if_splits)
next
  case (pipe_send_error net sent got s packet e net')
  then show ?case using send_forward_Err by metis
next
  case (pipe_recv net sent got s packet net')
  note c = create_pipeline_nth [OF cs]
  from pipe_recv(3) obtain ch rest where "forward_receiver (cs ! s) = Some ch" "queued net ch = packet # rest"
      "net' = net\<lparr>queued := (queued net)(ch := rest)\<rparr>"
    by (rule recv_forward_Ok)
  moreover have "forward_receiver (cs ! s) = (if 0 < s then Some (s - 1) else None)"
    using c pipe_recv(2) by simp
  ultimately have "0 < s" "queued net (s - 1) = packet # rest" "net' = net\<lparr>queued := (queued net)(s - 1 := rest)\<rparr>"
    by (auto split: if_splits)
  then show ?case using pipe_recv.IH by (auto simp: pipe_inv_def)
next
  case (pipe_recv_error net sent got s e net')
  note c = create_pipeline_nth [OF cs]
  have "cm_stage (cs ! s) = s" "forward_receiver (cs ! s) = (if 0 < s then Some (s - 1) else None)"
    using c pipe_recv_error(2) by simp_all
  then have "net' = net"
    using recv_forward_Err [OF pipe_recv_error(3)] pipe_inv_head [OF pipe_recv_error.IH] by (auto split: if_splits)
  then show ?case using pipe_recv_error.IH by simp
next
  case (pipe_drop net sent got A B)
  then show ?case by (simp add: pipe_inv_def)
qed

text \<open>
  (C12) In any run of a pipeline, with sends and receives in any order and ends dropped at any time, each
  stage receives exactly what its predecessor sent, in order and without loss or duplication up to
  the packets still in the channel, and a receive never fails with a stage mismatch.
\<close>

theorem pipeline_delivers_in_order:
  assumes "create_pipeline pp = Ok cs" and "pipe_run cs net sent got"
  shows "(\<forall>s. sent s = got (Suc s) @ queued net s) \<and>
         (\<forall>s < pp. \<forall>a b net'. recv_forward (cs ! s) net \<noteq> Some (Err (StageMismatch a b), net'))"
proof -
  note inv = pipe_run_inv [OF assms] and c = create_pipeline_nth [OF assms(1)]
  have "recv_forward (cs ! s) net \<noteq> Some (Err (StageMismatch a b), net')" if "s < pp" for s a b net'
  proof
    assume "recv_forward (cs ! s) net = Some (Err (StageMismatch a b), net')"
    from recv_forward_Err [OF this] c(2) [OF that] show False
      using pipe_inv_head [OF inv] by (auto split: if_splits)
  qed
  then show ?thesis using inv by (simp add: pipe_inv_def)
qed

theorem pipeline_delivers_in_order_witness:
  fixes packet :: activation_packet
  defines "packet \<equiv> \<lparr>batch_id = 1, stage_from = 0, stage_to = 1, pk_request_ids = [], pk_sequence_lengths = [],
     pk_hidden_dim = 0, pk_hidden_states = []\<rparr>"
  shows "\<exists>cs net. create_pipeline 2 = Ok cs \<and> pipe_run cs net ((\<lambda>_. [])(0 := [packet])) (\<lambda>_. []) \<and>
           queued net 0 = [packet]"
proof -
  let ?cs = "connect_stages 2 [0] [0] [0, 1]"
  have cs: "create_pipeline 2 = Ok ?cs" by (simp add: create_pipeline_def upt_rec)
  let ?net = "empty_network\<lparr>queued := (\<lambda>_. [])(0 := [packet])\<rparr>"
  have "send_forward (?cs ! 0) packet empty_network = (Ok (), ?net)"
    by (simp add: send_forward_def packet_def empty_network_def)
  from pipe_send [OF pipe_start _ this] have run: "pipe_run ?cs ?net ((\<lambda>_. [])(0 := [packet])) (\<lambda>_. [])" by simp
  then have "queued ?net 0 = [packet]" using pipeline_delivers_in_order [OF cs run] by simp
  then show ?thesis using cs run by blast
qed

end
