(* ===== verification/Dp_Worker_Pool.thy ===== *)
theory Dp_Worker_Pool
  imports Sched_Types
begin

text \<open>
  The pool of data parallel workers, \<open>crates/sglang-srt/src/distributed/dp_worker_pool.rs\<close>.  Each rank is a
  thread with a queue of commands; all ranks send their events into one queue.  The queues and the
  worker inside each thread are part of the pool record; \<open>worker_thread_step\<close> is one turn of the loop of
  a thread and may happen at any time between two calls of the scheduler.  A thread ends only on the
  shutdown command; a call that blocks returns \<open>None\<close>.
\<close>

section \<open>Definitions\<close>

record weight_update_request =
  model_path :: string
  load_format :: "string option"
  weight_version :: string

text \<open>The methods of the trait \<open>FallibleModelWorker\<close> a rank calls.\<close>

record 'w rank_worker =
  try_generate_batch :: "'w \<Rightarrow> schedule_batch \<Rightarrow> (worker_execution_error + generated_token list) \<times> 'w"
  update_weights_from_disk :: "'w \<Rightarrow> weight_update_request \<Rightarrow> (worker_execution_error + unit) \<times> 'w"

datatype dp_worker_command =
    ExecuteBatch nat schedule_batch
  | UpdateWeights weight_update_request
  | ShutdownCommand

datatype dp_worker_event =
    BatchCompleted nat usize "worker_execution_error + generated_token list"
  | WeightsUpdated usize "worker_execution_error + unit"
  | FatalError usize string

datatype dp_worker_pool_error =
    ZeroSize
  | AlreadyShutdown
  | InvalidPoolRank usize usize
  | RankBusy usize
  | ChannelDisconnected usize
  | EventReceiverClosed
  | Initialization usize string
  | Spawn usize string

record 'w rank_handle =
  rank_id :: usize
  commands :: "dp_worker_command list"
  rank_is_idle :: bool
  rank_state :: 'w
  rank_alive :: bool

record 'w dp_worker_pool =
  ranks :: "'w rank_handle list"
  events :: "dp_worker_event list"
  next_sequence :: nat
  is_shutdown :: bool

fun launch_loop ::
  "(usize \<Rightarrow> string + 'w) \<Rightarrow> (usize \<Rightarrow> string option) \<Rightarrow> usize list \<Rightarrow> 'w rank_handle list \<Rightarrow>
   (dp_worker_pool_error, 'w rank_handle list) outcome" where
  "launch_loop initializer spawn [] hs = Ok hs"
| "launch_loop initializer spawn (i # is) hs =
     (case initializer i of
        Inl reason \<Rightarrow> Err (Initialization i reason)
      | Inr w \<Rightarrow>
          (case spawn i of
             Some reason \<Rightarrow> Err (Spawn i reason)
           | None \<Rightarrow>
               launch_loop initializer spawn is
                 (hs @ [\<lparr>rank_id = i, commands = [], rank_is_idle = True, rank_state = w, rank_alive = True\<rparr>])))"

definition launch ::
  "(usize \<Rightarrow> string + 'w) \<Rightarrow> (usize \<Rightarrow> string option) \<Rightarrow> usize \<Rightarrow>
   (dp_worker_pool_error, 'w dp_worker_pool) outcome" where
  "launch initializer spawn dp_size =
     (if dp_size = 0 then Err ZeroSize
      else and_then (launch_loop initializer spawn [0 ..< dp_size] [])
        (\<lambda>hs. Ok \<lparr>ranks = hs, events = [], next_sequence = 1, is_shutdown = False\<rparr>))"

definition pool_dp_size :: "'w dp_worker_pool \<Rightarrow> usize" where
  "pool_dp_size p = length (ranks p)"

definition pool_is_idle :: "'w dp_worker_pool \<Rightarrow> usize \<Rightarrow> bool" where
  "pool_is_idle p rank \<longleftrightarrow> rank < length (ranks p) \<and> rank_is_idle (ranks p ! rank)"

definition idle_ranks :: "'w dp_worker_pool \<Rightarrow> usize list" where
  "idle_ranks p = map rank_id (filter rank_is_idle (ranks p))"

definition set_rank :: "usize \<Rightarrow> ('w rank_handle \<Rightarrow> 'w rank_handle) \<Rightarrow> 'w dp_worker_pool \<Rightarrow> 'w dp_worker_pool" where
  "set_rank i f p = (if i < length (ranks p) then p\<lparr>ranks := (ranks p)[i := f (ranks p ! i)]\<rparr> else p)"

definition submit_batch ::
  "'w dp_worker_pool \<Rightarrow> usize \<Rightarrow> schedule_batch \<Rightarrow> (dp_worker_pool_error, nat) outcome \<times> 'w dp_worker_pool" where
  "submit_batch p rank batch =
     (if is_shutdown p then (Err AlreadyShutdown, p)
      else if rank \<ge> length (ranks p) then (Err (InvalidPoolRank rank (length (ranks p))), p)
      else if \<not> rank_is_idle (ranks p ! rank) then (Err (RankBusy rank), p)
      else
        let seq = next_sequence p;
            p1 = p\<lparr>next_sequence := next_sequence p + 1\<rparr>
        in if \<not> rank_alive (ranks p ! rank) then (Err (ChannelDisconnected rank), p1)
           else (Ok seq,
                 set_rank rank (\<lambda>h. h\<lparr>commands := commands h @ [ExecuteBatch seq batch], rank_is_idle := False\<rparr>) p1))"

fun broadcast_loop ::
  "weight_update_request \<Rightarrow> 'w rank_handle list \<Rightarrow> (dp_worker_pool_error, unit) outcome \<times> 'w rank_handle list" where
  "broadcast_loop request [] = (Ok (), [])"
| "broadcast_loop request (h # hs) =
     (if \<not> rank_alive h then (Err (ChannelDisconnected (rank_id h)), h # hs)
      else case broadcast_loop request hs of
             (res, hs') \<Rightarrow> (res, h\<lparr>commands := commands h @ [UpdateWeights request], rank_is_idle := False\<rparr> # hs'))"

definition broadcast_weight_update ::
  "'w dp_worker_pool \<Rightarrow> weight_update_request \<Rightarrow> (dp_worker_pool_error, unit) outcome \<times> 'w dp_worker_pool" where
  "broadcast_weight_update p request =
     (if is_shutdown p then (Err AlreadyShutdown, p)
      else case broadcast_loop request (ranks p) of (res, hs) \<Rightarrow> (res, p\<lparr>ranks := hs\<rparr>))"

fun event_rank :: "dp_worker_event \<Rightarrow> usize" where
  "event_rank (BatchCompleted seq rank result) = rank"
| "event_rank (WeightsUpdated rank result) = rank"
| "event_rank (FatalError rank error) = rank"

definition mark_idle :: "dp_worker_event \<Rightarrow> 'w dp_worker_pool \<Rightarrow> 'w dp_worker_pool" where
  "mark_idle e p = set_rank (event_rank e) (\<lambda>h. h\<lparr>rank_is_idle := True\<rparr>) p"

text \<open>\<open>try_recv\<close> until the queue is empty.\<close>

definition poll_events :: "'w dp_worker_pool \<Rightarrow> dp_worker_event list \<times> 'w dp_worker_pool" where
  "poll_events p = (events p, fold mark_idle (events p) (p\<lparr>events := []\<rparr>))"

text \<open>\<open>recv\<close> blocks on an empty queue while a thread is alive and fails when none is.\<close>

definition wait_for_event ::
  "'w dp_worker_pool \<Rightarrow> ((dp_worker_pool_error, dp_worker_event) outcome \<times> 'w dp_worker_pool) option" where
  "wait_for_event p =
     (case events p of
        e # es \<Rightarrow> Some (Ok e, mark_idle e (p\<lparr>events := es\<rparr>))
      | [] \<Rightarrow> (if \<exists>h \<in> set (ranks p). rank_alive h then None else Some (Err EventReceiverClosed, p)))"

text \<open>One command of a thread, and the event it sends.\<close>

fun run_command ::
  "'w rank_worker \<Rightarrow> 'w rank_handle \<Rightarrow> dp_worker_command \<Rightarrow> dp_worker_event list \<times> 'w rank_handle" where
  "run_command F h (ExecuteBatch seq batch) =
     (case try_generate_batch F (rank_state h) batch of
        (result, w) \<Rightarrow> ([BatchCompleted seq (rank_id h) result], h\<lparr>rank_state := w\<rparr>))"
| "run_command F h (UpdateWeights request) =
     (case update_weights_from_disk F (rank_state h) request of
        (result, w) \<Rightarrow> ([WeightsUpdated (rank_id h) result], h\<lparr>rank_state := w\<rparr>))"
| "run_command F h ShutdownCommand = ([], h\<lparr>rank_alive := False\<rparr>)"

definition worker_thread_step :: "'w rank_worker \<Rightarrow> usize \<Rightarrow> 'w dp_worker_pool \<Rightarrow> 'w dp_worker_pool option" where
  "worker_thread_step F i p =
     (if i < length (ranks p) \<and> rank_alive (ranks p ! i) then
        (case commands (ranks p ! i) of
           [] \<Rightarrow> None
         | c # cs \<Rightarrow>
             (case run_command F ((ranks p ! i)\<lparr>commands := cs\<rparr>) c of
                (es, h) \<Rightarrow> Some (p\<lparr>ranks := (ranks p)[i := h], events := events p @ es\<rparr>)))
      else None)"

text \<open>
  Joining a thread runs its remaining commands up to the shutdown command.  The threads run
  concurrently; their events reach the queue here in the order of the ranks.
\<close>

fun worker_thread_loop ::
  "'w rank_worker \<Rightarrow> 'w rank_handle \<Rightarrow> dp_worker_command list \<Rightarrow> dp_worker_event list \<times> 'w rank_handle" where
  "worker_thread_loop F h [] = ([], h\<lparr>commands := []\<rparr>)"
| "worker_thread_loop F h (c # cs) =
     (case run_command F h c of
        (es, h') \<Rightarrow>
          (if rank_alive h' then (case worker_thread_loop F h' cs of (es', h'') \<Rightarrow> (es @ es', h''))
           else (es, h'\<lparr>commands := cs\<rparr>)))"

definition join_rank :: "'w rank_worker \<Rightarrow> 'w rank_handle \<Rightarrow> dp_worker_event list \<times> 'w rank_handle" where
  "join_rank F h =
     (if rank_alive h then worker_thread_loop F h (commands h @ [ShutdownCommand]) else ([], h))"

definition pool_shutdown ::
  "'w rank_worker \<Rightarrow> 'w dp_worker_pool \<Rightarrow> (dp_worker_pool_error, unit) outcome \<times> 'w dp_worker_pool" where
  "pool_shutdown F p =
     (if is_shutdown p then (Ok (), p)
      else
        (let joined = map (join_rank F) (ranks p)
         in (Ok (), p\<lparr>is_shutdown := True, ranks := map snd joined,
                       events := events p @ concat (map fst joined)\<rparr>)))"

section \<open>Batches in flight\<close>

text \<open>
  A batch sent to a rank is in flight while its command waits in the queue of the rank or its
  completion waits in the event queue.  \<open>flight\<close> lists the sequence numbers with their ranks.
\<close>

fun cmd_seq :: "dp_worker_command \<Rightarrow> nat list" where
  "cmd_seq (ExecuteBatch seq batch) = [seq]"
| "cmd_seq _ = []"

fun ev_flight :: "dp_worker_event \<Rightarrow> (nat \<times> usize) list" where
  "ev_flight (BatchCompleted seq rank result) = [(seq, rank)]"
| "ev_flight _ = []"

definition rank_flight :: "'w rank_handle \<Rightarrow> (nat \<times> usize) list" where
  "rank_flight h = map (\<lambda>q. (q, rank_id h)) (concat (map cmd_seq (commands h)))"

definition flight :: "'w dp_worker_pool \<Rightarrow> (nat \<times> usize) list" where
  "flight p = concat (map rank_flight (ranks p)) @ concat (map ev_flight (events p))"

text \<open>
  The invariant of a running pool: ranks are numbered, sequence numbers in flight are distinct and were
  handed out, a busy rank has a command or an event outstanding, and all threads are alive.
\<close>

definition outstanding :: "'w dp_worker_pool \<Rightarrow> usize \<Rightarrow> bool" where
  "outstanding p i \<longleftrightarrow> commands (ranks p ! i) \<noteq> [] \<or> (\<exists>e \<in> set (events p). event_rank e = i)"

definition pool_inv :: "'w dp_worker_pool \<Rightarrow> bool" where
  "pool_inv p \<longleftrightarrow>
     (\<forall>i < length (ranks p). rank_id (ranks p ! i) = i \<and> rank_alive (ranks p ! i) \<and>
        ShutdownCommand \<notin> set (commands (ranks p ! i)) \<and>
        (\<not> rank_is_idle (ranks p ! i) \<longrightarrow> outstanding p i)) \<and>
     distinct (map fst (flight p)) \<and> (\<forall>x \<in> set (flight p). fst x < next_sequence p) \<and> \<not> is_shutdown p"

lemma mset_concat_update:
  assumes "i < length xs"
  shows "mset (concat (map f (xs[i := h]))) + mset (f (xs ! i)) = mset (concat (map f xs)) + mset (f h)"
  using assms by (induction xs arbitrary: i) (auto split: nat.splits simp: ac_simps)

lemma pool_inv_flight_mset:
  assumes "mset (flight p') = mset (flight p)" and "pool_inv p"
    and "next_sequence p' = next_sequence p"
  shows "distinct (map fst (flight p'))" "\<forall>x \<in> set (flight p'). fst x < next_sequence p'"
proof -
  have "mset (map fst (flight p')) = mset (map fst (flight p))" using assms(1) by simp
  then show "distinct (map fst (flight p'))"
    using assms(2) mset_eq_imp_distinct_iff unfolding pool_inv_def by blast
  show "\<forall>x \<in> set (flight p'). fst x < next_sequence p'"
    using assms mset_eq_setD [OF assms(1)] unfolding pool_inv_def by simp
qed

lemma worker_thread_step_inv:
  assumes "pool_inv p" and "worker_thread_step F i p = Some p'"
  shows "pool_inv p' \<and> mset (flight p') = mset (flight p) \<and> length (ranks p') = length (ranks p)"
proof -
  obtain c cs where i: "i < length (ranks p)" and c: "commands (ranks p ! i) = c # cs"
    using assms(2) by (auto simp: worker_thread_step_def split: if_splits list.splits)
  obtain es h where run: "run_command F ((ranks p ! i)\<lparr>commands := cs\<rparr>) c = (es, h)" by fastforce
  have p': "p' = p\<lparr>ranks := (ranks p)[i := h], events := events p @ es\<rparr>"
    using assms(2) c run by (auto simp: worker_thread_step_def split: if_splits)
  note inv = assms(1) [unfolded pool_inv_def]
  have ri: "rank_id (ranks p ! i) = i" and c_ne: "c \<noteq> ShutdownCommand" using inv i c by auto
  have h: "rank_id h = i" "commands h = cs" "rank_is_idle h = rank_is_idle (ranks p ! i)"
      "rank_alive h = rank_alive (ranks p ! i)" "concat (map ev_flight es) = map (\<lambda>q. (q, i)) (cmd_seq c)"
      "\<exists>e \<in> set es. event_rank e = i"
    using run c_ne ri by (cases c; auto split: prod.splits)+
  have "mset (concat (map rank_flight ((ranks p)[i := h]))) + mset (rank_flight (ranks p ! i)) =
      mset (concat (map rank_flight (ranks p))) + mset (rank_flight h)" by (rule mset_concat_update [OF i])
  then have fl: "mset (flight p') = mset (flight p)"
    by (simp add: flight_def p' rank_flight_def h c ri)
  moreover have "pool_inv p'"
    using pool_inv_flight_mset [OF fl assms(1)] inv h c i
    by (auto simp: pool_inv_def p' nth_list_update outstanding_def)
  ultimately show ?thesis by (simp add: p')
qed

lemma submit_batch_ok:
  assumes "pool_inv p" and "r < length (ranks p)" and "rank_is_idle (ranks p ! r)"
  shows "\<exists>p'. submit_batch p r b = (Ok (next_sequence p), p') \<and> pool_inv p' \<and>
    mset (flight p') = add_mset (next_sequence p, r) (mset (flight p)) \<and> length (ranks p') = length (ranks p) \<and>
    next_sequence p' = next_sequence p + 1 \<and>
    (\<forall>i < length (ranks p). rank_is_idle (ranks p' ! i) \<longleftrightarrow> rank_is_idle (ranks p ! i) \<and> i \<noteq> r)"
proof -
  note inv = assms(1) [unfolded pool_inv_def]
  let ?h = "(ranks p ! r)\<lparr>commands := commands (ranks p ! r) @ [ExecuteBatch (next_sequence p) b], rank_is_idle := False\<rparr>"
  let ?p = "p\<lparr>next_sequence := next_sequence p + 1, ranks := (ranks p)[r := ?h]\<rparr>"
  have sub: "submit_batch p r b = (Ok (next_sequence p), ?p)"
    using inv assms(2,3) by (simp add: submit_batch_def set_rank_def Let_def)
  have rf: "rank_flight ?h = rank_flight (ranks p ! r) @ [(next_sequence p, r)]"
    using inv assms(2) by (simp add: rank_flight_def)
  from mset_concat_update [OF assms(2), of rank_flight ?h]
  have "mset (concat (map rank_flight ((ranks p)[r := ?h]))) =
      add_mset (next_sequence p, r) (mset (concat (map rank_flight (ranks p))))" unfolding rf by simp
  then have fl: "mset (flight ?p) = add_mset (next_sequence p, r) (mset (flight p))" by (simp add: flight_def)
  then have "mset (map fst (flight ?p)) = mset (next_sequence p # map fst (flight p))" by simp
  then have "distinct (map fst (flight ?p)) \<longleftrightarrow> distinct (next_sequence p # map fst (flight p))"
    by (rule mset_eq_imp_distinct_iff)
  then have d: "distinct (map fst (flight ?p))" using inv by auto
  have "set (flight ?p) = insert (next_sequence p, r) (set (flight p))" using arg_cong [OF fl, of set_mset] by simp
  then have "\<forall>x \<in> set (flight ?p). fst x < next_sequence ?p" using inv by auto
  then have "pool_inv ?p" using inv d assms(2) by (auto simp: pool_inv_def nth_list_update outstanding_def)
  moreover have "\<forall>i < length (ranks p). rank_is_idle (ranks ?p ! i) \<longleftrightarrow> rank_is_idle (ranks p ! i) \<and> i \<noteq> r"
    using assms(2) by (auto simp: nth_list_update)
  ultimately show ?thesis using sub fl by (intro exI [of _ ?p]) simp
qed

lemma fold_mark_idle:
  "events (fold mark_idle es p) = events p \<and> next_sequence (fold mark_idle es p) = next_sequence p \<and>
   is_shutdown (fold mark_idle es p) = is_shutdown p \<and> length (ranks (fold mark_idle es p)) = length (ranks p) \<and>
   (\<forall>i < length (ranks p). ranks (fold mark_idle es p) ! i =
      (ranks p ! i)\<lparr>rank_is_idle := rank_is_idle (ranks p ! i) \<or> (\<exists>e \<in> set es. event_rank e = i)\<rparr>)"
proof (induction es arbitrary: p)
  case (Cons e es)
  show ?case using Cons [of "mark_idle e p"]
    by (auto simp: mark_idle_def set_rank_def nth_list_update)
qed simp

lemma mark_idle_flight: "map rank_flight (ranks (fold mark_idle es p)) = map rank_flight (ranks p)"
  by (rule nth_equalityI) (use fold_mark_idle [of es p] in \<open>auto simp: rank_flight_def\<close>)

lemma mark_idle_inv:
  assumes "pool_inv p" and "events p = es @ rest"
  defines "p' \<equiv> fold mark_idle es (p\<lparr>events := rest\<rparr>)"
  shows "pool_inv p' \<and> mset (flight p) = mset (concat (map ev_flight es)) + mset (flight p') \<and>
         length (ranks p') = length (ranks p) \<and> next_sequence p' = next_sequence p"
proof -
  note f = fold_mark_idle [of es "p\<lparr>events := rest\<rparr>", folded p'_def]
  have fl: "mset (flight p) = mset (concat (map ev_flight es)) + mset (flight p')"
    using f mark_idle_flight [of es "p\<lparr>events := rest\<rparr>"] assms(2) by (simp add: flight_def p'_def)
  then have fl_mset: "mset (map fst (flight p)) = mset (map fst (concat (map ev_flight es)) @ map fst (flight p'))"
    by simp
  have "distinct (map fst (flight p))" using assms(1) by (simp add: pool_inv_def)
  then have d: "distinct (map fst (flight p'))" using mset_eq_imp_distinct_iff [OF fl_mset] by simp
  have "set (flight p') \<subseteq> set (flight p)" using arg_cong [OF fl, of set_mset] by simp
  then have "\<forall>x \<in> set (flight p'). fst x < next_sequence p'" using assms(1) f unfolding pool_inv_def by auto
  then have "pool_inv p'" using assms(1,2) d f by (auto simp: pool_inv_def outstanding_def)
  then show ?thesis using fl f by simp
qed

lemma poll_events_inv:
  assumes "pool_inv p" and "poll_events p = (es, p')"
  shows "pool_inv p' \<and> mset (flight p) = mset (concat (map ev_flight es)) + mset (flight p') \<and>
         length (ranks p') = length (ranks p) \<and> next_sequence p' = next_sequence p"
  using mark_idle_inv [OF assms(1), of "events p" "[]"] assms(2) by (auto simp: poll_events_def)

lemma wait_for_event_inv:
  assumes "pool_inv p" and "wait_for_event p = Some (Ok e, p')"
  shows "pool_inv p' \<and> mset (flight p) = mset (ev_flight e) + mset (flight p') \<and>
         length (ranks p') = length (ranks p) \<and> next_sequence p' = next_sequence p"
  using mark_idle_inv [OF assms(1), of "[e]"] assms(2) by (auto simp: wait_for_event_def split: list.splits if_splits)

text \<open>A wait that blocks can be ended: some thread has a command to run, unless every rank is idle.\<close>

lemma blocked_wait_has_runnable_thread:
  assumes "pool_inv p" and "wait_for_event p = None" and "\<not> rank_is_idle (ranks p ! i)" and "i < length (ranks p)"
  shows "\<exists>p'. worker_thread_step F i p = Some p' \<and> wait_for_event p' \<noteq> None"
proof -
  have no: "events p = []" using assms(2) by (auto simp: wait_for_event_def split: list.splits)
  then have "commands (ranks p ! i) \<noteq> []" using assms(1,3,4) by (auto simp: pool_inv_def outstanding_def)
  then obtain c cs where c: "commands (ranks p ! i) = c # cs" by (auto simp: neq_Nil_conv)
  then have "c \<noteq> ShutdownCommand" "rank_alive (ranks p ! i)" using assms(1,4) by (auto simp: pool_inv_def)
  then show ?thesis using no c assms(4)
    by (cases c) (auto simp: worker_thread_step_def wait_for_event_def split: prod.splits)
qed

lemma launch_inv:
  assumes "launch initializer spawn n = Ok p"
  shows "pool_inv p \<and> flight p = [] \<and> length (ranks p) = n \<and> (\<forall>i < n. rank_is_idle (ranks p ! i))"
proof -
  have loop: "length hs' = length hs + length is \<and> (\<forall>i < length hs'. rank_is_idle (hs' ! i) \<and> rank_id (hs' ! i) = i \<and>
      rank_alive (hs' ! i) \<and> commands (hs' ! i) = [])"
    if "launch_loop initializer spawn is hs = Ok hs'" "is = [length hs ..< length hs + length is]"
      "\<forall>i < length hs. rank_is_idle (hs ! i) \<and> rank_id (hs ! i) = i \<and> rank_alive (hs ! i) \<and> commands (hs ! i) = []"
    for "is" hs hs'
    using that
  proof (induction initializer spawn "is" hs rule: launch_loop.induct)
    case (2 initializer spawn i "is" hs)
    have "[length hs ..< length hs + length (i # is)] = length hs # [Suc (length hs) ..< Suc (length hs) + length is]"
      by (simp add: upt_conv_Cons del: upt_Suc)
    then have i: "i = length hs" "is = [Suc (length hs) ..< Suc (length hs) + length is]"
      using 2(3) by (metis list.inject)+
    show ?case using 2 i by (auto simp: nth_append less_Suc_eq split: sum.splits option.splits)
  qed simp
  obtain hs where hs: "launch_loop initializer spawn [0 ..< n] [] = Ok hs"
    and p: "p = \<lparr>ranks = hs, events = [], next_sequence = 1, is_shutdown = False\<rparr>"
    using assms by (auto simp: launch_def outcome_simps split: if_splits)
  note l = loop [OF hs]
  have "map rank_flight hs = map (\<lambda>_. []) hs"
    by (rule nth_equalityI) (use l in \<open>auto simp: rank_flight_def\<close>)
  then have fl: "flight \<lparr>ranks = hs, events = [], next_sequence = 1, is_shutdown = False\<rparr> = []"
    by (simp add: flight_def)
  show ?thesis using l by (simp add: p pool_inv_def fl [simplified])
qed

end
