(* ===== verification/Dp_Scheduler.thy ===== *)
theory Dp_Scheduler
  imports Dp_Worker_Pool Sched_Dispatch
begin

text \<open>
  The scheduler for several data parallel ranks, \<open>crates/sglang-srt/src/distributed/dp_scheduler.rs\<close>: one pair
  of queues and one prefix cache for all ranks, an allocator per rank, and the pool of worker threads.
  \<open>running_batches\<close> maps the sequence number of each batch sent to a rank to that rank and batch.
\<close>

section \<open>Definitions\<close>

record 'w dp_scheduler =
  dp_waiting_queue :: "scheduled_request list"
  dp_decode_queue :: "scheduled_request list"
  dp_prefix_cache :: radix_cache
  allocators :: "page_allocator list"
  worker_pool :: "'w dp_worker_pool"
  running_batches :: "(nat \<times> usize \<times> schedule_batch) list"
  finished_outputs :: "scheduled_output list"
  step_outputs :: "scheduled_output list"
  dp_max_batch_size :: usize
  dp_page_size :: usize
  dp_chunked_prefill_size :: "usize option"
  dp_event_publisher :: "publisher option"

datatype dp_scheduler_error =
    ZeroBatchSize
  | DpZeroPageSize
  | AllocatorCountMismatch usize usize
  | InvalidRank usize
  | UnknownSequence nat usize
  | RankFatal usize string
  | DpWorker worker_execution_error
  | WorkerPool dp_worker_pool_error
  | DpCacheAllocation cache_allocation_error

definition dp_new ::
  "'w dp_worker_pool \<Rightarrow> page_allocator list \<Rightarrow> usize \<Rightarrow> usize \<Rightarrow> (dp_scheduler_error, 'w dp_scheduler) outcome" where
  "dp_new pool allocs max_batch ps =
     (if pool_dp_size pool \<noteq> length allocs then Err (AllocatorCountMismatch (pool_dp_size pool) (length allocs))
      else if max_batch = 0 then Err ZeroBatchSize
      else if ps = 0 then Err DpZeroPageSize
      else Ok \<lparr> dp_waiting_queue = [], dp_decode_queue = [], dp_prefix_cache = radix_default,
                allocators = allocs, worker_pool = pool, running_batches = [], finished_outputs = [],
                step_outputs = [], dp_max_batch_size = max_batch, dp_page_size = ps,
                dp_chunked_prefill_size = None, dp_event_publisher = None \<rparr>)"

definition dp_with_chunked_prefill_size :: "usize option \<Rightarrow> 'w dp_scheduler \<Rightarrow> 'w dp_scheduler" where
  "dp_with_chunked_prefill_size n s = s\<lparr>dp_chunked_prefill_size := n\<rparr>"

definition dp_with_event_publisher :: "publisher \<Rightarrow> 'w dp_scheduler \<Rightarrow> 'w dp_scheduler" where
  "dp_with_event_publisher pub s = s\<lparr>dp_event_publisher := Some pub\<rparr>"

definition dp_enqueue :: "scheduled_request \<Rightarrow> 'w dp_scheduler \<Rightarrow> 'w dp_scheduler" where
  "dp_enqueue r s = s\<lparr>dp_waiting_queue := dp_waiting_queue s @ [r]\<rparr>"

definition dp_is_idle :: "'w dp_scheduler \<Rightarrow> bool" where
  "dp_is_idle s \<longleftrightarrow> dp_waiting_queue s = [] \<and> dp_decode_queue s = [] \<and> running_batches s = []"

text \<open>\<open>rank as i32\<close> and, back, \<open>as usize\<close> (sign extension) and \<open>try_into\<close> (negative values fail).\<close>

definition as_i32 :: "usize \<Rightarrow> int" where
  "as_i32 rank = sint (of_nat rank :: 32 word)"

definition i32_as_usize :: "int \<Rightarrow> usize" where
  "i32_as_usize i = nat (i mod 2 ^ 64)"

definition i32_try_usize :: "int \<Rightarrow> usize option" where
  "i32_try_usize i = (if i < 0 then None else Some (nat i))"

text \<open>The slots behind the prompt (\<open>get(n..)\<close> is empty when \<open>n\<close> is out of range).\<close>

definition slots_behind_prompt :: "scheduled_request \<Rightarrow> cache_page_id list" where
  "slots_behind_prompt r = drop (length (input_ids r)) (sequence_cache_pages r)"

definition release_on :: "usize \<Rightarrow> cache_page_id list \<Rightarrow> page_allocator list \<Rightarrow> page_allocator list" where
  "release_on rank pages allocs =
     (if rank < length allocs then allocs[rank := release (allocs ! rank) pages] else allocs)"

definition dp_abort_request :: "request_id \<Rightarrow> 'w dp_scheduler \<Rightarrow> bool \<times> 'w dp_scheduler" where
  "dp_abort_request rid s =
     (let waiting = filter (\<lambda>r. request_id r \<noteq> rid) (dp_waiting_queue s);
          hits = filter (\<lambda>r. request_id r = rid) (dp_decode_queue s)
      in (length waiting < length (dp_waiting_queue s) \<or> hits \<noteq> [],
          s\<lparr> dp_waiting_queue := waiting,
             dp_decode_queue := filter (\<lambda>r. request_id r \<noteq> rid) (dp_decode_queue s),
             allocators := fold (\<lambda>r. release_on (i32_as_usize (data_parallel_rank r)) (slots_behind_prompt r))
                             hits (allocators s) \<rparr>))"

definition dp_flush_cache :: "'w dp_scheduler \<Rightarrow> 'w dp_scheduler" where
  "dp_flush_cache s = s\<lparr>dp_prefix_cache := radix_default, allocators := map reset (allocators s)\<rparr>"

definition dp_shutdown ::
  "'w rank_worker \<Rightarrow> 'w dp_scheduler \<Rightarrow> (dp_scheduler_error, unit) outcome \<times> 'w dp_scheduler" where
  "dp_shutdown F s =
     (case pool_shutdown F (worker_pool s) of
        (res, pool) \<Rightarrow> (map_err WorkerPool res, s\<lparr>worker_pool := pool\<rparr>))"

definition release_try :: "int \<Rightarrow> cache_page_id list \<Rightarrow> page_allocator list \<Rightarrow> page_allocator list" where
  "release_try rank pages allocs =
     (case i32_try_usize rank of None \<Rightarrow> allocs | Some i \<Rightarrow> release_on i pages allocs)"

definition dp_abort_all_requests :: "'w dp_scheduler \<Rightarrow> usize \<times> 'w dp_scheduler" where
  "dp_abort_all_requests s =
     (let allocs1 = fold (\<lambda>r. release_try (data_parallel_rank r) (allocated_cache_pages r))
                      (dp_waiting_queue s) (allocators s);
          allocs2 = fold (\<lambda>r. release_try (data_parallel_rank r) (slots_behind_prompt r))
                      (dp_decode_queue s) allocs1
      in (length (dp_waiting_queue s) + length (dp_decode_queue s),
          s\<lparr>dp_waiting_queue := [], dp_decode_queue := [], allocators := allocs2\<rparr>))"

definition drain_finished_outputs :: "'w dp_scheduler \<Rightarrow> scheduled_output list \<times> 'w dp_scheduler" where
  "drain_finished_outputs s = (finished_outputs s, s\<lparr>finished_outputs := []\<rparr>)"

definition drain_step_outputs :: "'w dp_scheduler \<Rightarrow> scheduled_output list \<times> 'w dp_scheduler" where
  "drain_step_outputs s = (step_outputs s, s\<lparr>step_outputs := []\<rparr>)"

definition dp_available_cache_pages :: "'w dp_scheduler \<Rightarrow> usize" where
  "dp_available_cache_pages s = sum_list (map available_pages (allocators s))"

section \<open>Completion of a batch\<close>

definition dp_publish_chunk ::
  "(u8 list \<Rightarrow> u8 list) \<Rightarrow> scheduled_request \<Rightarrow> usize \<times> usize \<Rightarrow> 'w dp_scheduler \<Rightarrow>
   (dp_scheduler_error, unit) outcome \<times> 'w dp_scheduler" where
  "dp_publish_chunk sha256 r chunk_range s =
     (case dp_event_publisher s of
        None \<Rightarrow> (Ok (), s)
      | Some pub \<Rightarrow>
          (case from_chunk sha256 (request_id r) (input_ids r) chunk_range (dp_page_size s) (data_parallel_rank r) of
             Ok event \<Rightarrow> (Ok (), s\<lparr>dp_event_publisher := Some (publish_block_stored pub event)\<rparr>)
           | _ \<Rightarrow> (Panic, s)))"

text \<open>The pages of a processed chunk go into the shared prefix cache and into a block event.\<close>

definition dp_complete_chunk ::
  "(u8 list \<Rightarrow> u8 list) \<Rightarrow> scheduled_request \<Rightarrow> 'w dp_scheduler \<Rightarrow>
   (dp_scheduler_error, scheduled_request) outcome \<times> 'w dp_scheduler" where
  "dp_complete_chunk sha256 r0 s =
     (let chunk_len = (if current_chunk_len r0 > 0 then current_chunk_len r0 else length (uncached_input_ids r0));
          prev = prompt_tokens_processed r0;
          r = advance_prompt_tokens chunk_len r0;
          processed = prompt_tokens_processed r;
          stop = min processed (length (sequence_cache_pages r));
          s1 = (if \<not> skips_radix_cache_insert r \<and> processed > 0
                then (case radix_insert (dp_prefix_cache s) (take stop (input_ids r)) (take stop (sequence_cache_pages r)) of
                        Ok cache \<Rightarrow> s\<lparr>dp_prefix_cache := cache\<rparr>
                      | _ \<Rightarrow> s)
                else s)
      in case dp_publish_chunk sha256 r (prev, processed) s1 of
           (Ok _, s2) \<Rightarrow> (Ok r, s2)
         | (Err e, s2) \<Rightarrow> (Err e, s2)
         | (Panic, s2) \<Rightarrow> (Panic, s2))"

definition dp_complete_token :: "usize \<Rightarrow> scheduled_request \<Rightarrow> generated_token \<Rightarrow> 'w dp_scheduler \<Rightarrow> 'w dp_scheduler" where
  "dp_complete_token rank r0 t s =
     (let r = append_output_ids (token_ids t) r0;
          finished = (is_finished t \<or> reached_max_new_tokens r);
          s1 = s\<lparr>step_outputs := step_outputs s @
                   [\<lparr>out_request_id = request_id r, out_token_ids = token_ids t,
                     out_cached_tokens = cache_hit_token_count r, out_finished = finished\<rparr>]\<rparr>
      in if finished
         then s1\<lparr> allocators := release_on rank (drop (cache_hit_token_count r) (sequence_cache_pages r)) (allocators s1),
                  finished_outputs := finished_outputs s1 @
                    [\<lparr>out_request_id = request_id r, out_token_ids = output_ids r,
                      out_cached_tokens = cache_hit_token_count r, out_finished = True\<rparr>] \<rparr>
         else s1\<lparr> dp_decode_queue := dp_decode_queue s1 @
                    [(clear_forward_chunk_tracking r)\<lparr>stage := DecodeWaiting, data_parallel_rank := as_i32 rank\<rparr>] \<rparr>)"

definition dp_complete_request ::
  "(u8 list \<Rightarrow> u8 list) \<Rightarrow> usize \<Rightarrow> forward_mode \<Rightarrow> scheduled_request \<Rightarrow> generated_token \<Rightarrow> 'w dp_scheduler \<Rightarrow>
   (dp_scheduler_error, unit) outcome \<times> 'w dp_scheduler" where
  "dp_complete_request sha256 rank mode r t s =
     (if is_prefill_forward mode r then
        (case dp_complete_chunk sha256 r s of
           (Err e, s1) \<Rightarrow> (Err e, s1)
         | (Panic, s1) \<Rightarrow> (Panic, s1)
         | (Ok r1, s1) \<Rightarrow>
             (if \<not> is_prefill_complete r1
              then (Ok (), s1\<lparr>dp_waiting_queue :=
                      (clear_forward_chunk_tracking r1)\<lparr>stage := PrefillWaiting\<rparr> # dp_waiting_queue s1\<rparr>)
              else (Ok (), dp_complete_token rank r1 t s1)))
      else (Ok (), dp_complete_token rank r t s))"

fun dp_complete_loop ::
  "(u8 list \<Rightarrow> u8 list) \<Rightarrow> usize \<Rightarrow> forward_mode \<Rightarrow> (scheduled_request \<times> generated_token) list \<Rightarrow> 'w dp_scheduler \<Rightarrow>
   (dp_scheduler_error, unit) outcome \<times> 'w dp_scheduler" where
  "dp_complete_loop sha256 rank mode [] s = (Ok (), s)"
| "dp_complete_loop sha256 rank mode ((r, t) # rest) s =
     (case dp_complete_request sha256 rank mode r t s of
        (Ok _, s1) \<Rightarrow> dp_complete_loop sha256 rank mode rest s1
      | (Err e, s1) \<Rightarrow> (Err e, s1)
      | (Panic, s1) \<Rightarrow> (Panic, s1))"

definition handle_batch_completion ::
  "(u8 list \<Rightarrow> u8 list) \<Rightarrow> usize \<Rightarrow> schedule_batch \<Rightarrow> generated_token list \<Rightarrow> 'w dp_scheduler \<Rightarrow>
   (dp_scheduler_error, unit) outcome \<times> 'w dp_scheduler" where
  "handle_batch_completion sha256 rank batch generated s =
     dp_complete_loop sha256 rank (batch_forward_mode batch) (zip (batch_requests batch) generated) s"

section \<open>Forming a batch\<close>

text \<open>
  The loop over the decode queue: \<open>kept\<close> are the requests of other ranks it has passed.
\<close>

fun form_decode_loop ::
  "usize \<Rightarrow> usize \<Rightarrow> page_allocator \<Rightarrow> scheduled_request list \<Rightarrow> scheduled_request list \<Rightarrow> scheduled_request list \<Rightarrow>
   (dp_scheduler_error, scheduled_request list) outcome \<times> scheduled_request list \<times> page_allocator" where
  "form_decode_loop rank max_batch a kept [] batch = (Ok batch, kept, a)"
| "form_decode_loop rank max_batch a kept (q # queue) batch =
     (if \<not> length batch < max_batch then (Ok batch, kept @ q # queue, a)
      else if data_parallel_rank q = as_i32 rank then
        (case allocate_for_sequence a (sequence_cache_pages q) 1 of
           Ok (pages, a') \<Rightarrow>
             form_decode_loop rank max_batch a' kept queue
               (batch @ [(append_sequence_cache_pages pages
                            (q\<lparr>forward_cache_pages := pages, allocated_cache_pages := pages\<rparr>))\<lparr>stage := DecodeForward\<rparr>])
         | Err (OutOfSlots _ _) \<Rightarrow> (Ok batch, kept @ q # queue, a)
         | Err e \<Rightarrow> (Err (DpCacheAllocation e), kept @ queue, a)
         | Panic \<Rightarrow> (Panic, kept @ queue, a))
      else form_decode_loop rank max_batch a (kept @ [q]) queue batch)"

text \<open>The prefix match of a request that has not started.\<close>

definition dp_begin_prefill :: "radix_cache \<Rightarrow> usize \<Rightarrow> scheduled_request \<Rightarrow> scheduled_request" where
  "dp_begin_prefill cache ps r =
     (if prompt_tokens_processed r = 0 then
        let m = match_prefix_page_aligned cache (input_ids r) ps
        in r\<lparr> cache_hit_token_count := matched_token_count m, prompt_tokens_processed := matched_token_count m,
              sequence_cache_pages := cache_pages m, req_prefix_match := m \<rparr>
      else r)"

fun form_prefill_loop ::
  "usize \<Rightarrow> usize \<Rightarrow> usize \<Rightarrow> usize \<Rightarrow> radix_cache \<Rightarrow> page_allocator \<Rightarrow> scheduled_request list \<Rightarrow> scheduled_request list \<Rightarrow>
   (dp_scheduler_error, scheduled_request list) outcome \<times> scheduled_request list \<times> page_allocator" where
  "form_prefill_loop rank max_batch ps chunk_budget cache a [] batch = (Ok batch, [], a)"
| "form_prefill_loop rank max_batch ps chunk_budget cache a (q # queue) batch =
     (if \<not> length batch < max_batch then (Ok batch, q # queue, a)
      else
        let r = dp_begin_prefill cache ps q;
            chunk_len = min (remaining_prompt_tokens r) chunk_budget
        in if chunk_len = 0 then (Ok batch, r # queue, a)
           else case allocate_for_sequence a (sequence_cache_pages r) chunk_len of
                  Ok (pages, a') \<Rightarrow>
                    form_prefill_loop rank max_batch ps chunk_budget cache a' queue
                      (batch @ [(append_sequence_cache_pages pages
                                   (r\<lparr>forward_cache_pages := pages, allocated_cache_pages := pages\<rparr>))
                                 \<lparr>current_chunk_len := chunk_len, stage := PrefillForward,
                                   data_parallel_rank := as_i32 rank\<rparr>])
                | Err (OutOfSlots _ _) \<Rightarrow> (Ok batch, r # queue, a)
                | Err e \<Rightarrow> (Err (DpCacheAllocation e), queue, a)
                | Panic \<Rightarrow> (Panic, queue, a))"

definition form_batch_for_rank ::
  "usize \<Rightarrow> 'w dp_scheduler \<Rightarrow> (dp_scheduler_error, schedule_batch option) outcome \<times> 'w dp_scheduler" where
  "form_batch_for_rank rank s =
     (if rank \<ge> length (allocators s) then (Err (InvalidRank rank), s)
      else
        case form_decode_loop rank (dp_max_batch_size s) (allocators s ! rank) [] (dp_decode_queue s) [] of
          (Err e, dq, a) \<Rightarrow> (Err e, s\<lparr>dp_decode_queue := dq, allocators := (allocators s)[rank := a]\<rparr>)
        | (Panic, dq, a) \<Rightarrow> (Panic, s\<lparr>dp_decode_queue := dq, allocators := (allocators s)[rank := a]\<rparr>)
        | (Ok decodes, dq, a) \<Rightarrow>
            (case form_prefill_loop rank (dp_max_batch_size s) (dp_page_size s)
                    (case dp_chunked_prefill_size s of None \<Rightarrow> usize_max | Some n \<Rightarrow> n)
                    (dp_prefix_cache s) a (dp_waiting_queue s) decodes of
               (res, wq, a') \<Rightarrow>
                 ((case res of
                     Ok requests \<Rightarrow> Ok (if requests = [] then None else Some (mixed_batch_of requests))
                   | Err e \<Rightarrow> Err e
                   | Panic \<Rightarrow> Panic),
                  s\<lparr>dp_decode_queue := dq, dp_waiting_queue := wq, allocators := (allocators s)[rank := a']\<rparr>)))"

section \<open>Steps\<close>

definition dp_handle_event ::
  "(u8 list \<Rightarrow> u8 list) \<Rightarrow> dp_worker_event \<Rightarrow> 'w dp_scheduler \<Rightarrow> (dp_scheduler_error, unit) outcome \<times> 'w dp_scheduler" where
  "dp_handle_event sha256 e s =
     (case e of
        BatchCompleted seq rank result \<Rightarrow>
          (case map_of (running_batches s) seq of
             None \<Rightarrow> (Err (UnknownSequence seq rank), s)
           | Some (_, batch) \<Rightarrow>
               (let s1 = s\<lparr>running_batches := AList.delete seq (running_batches s)\<rparr>
                in case result of
                     Inl err \<Rightarrow> (Err (DpWorker err), s1)
                   | Inr generated \<Rightarrow> handle_batch_completion sha256 rank batch generated s1))
      | FatalError rank error \<Rightarrow> (Err (RankFatal rank error), s)
      | WeightsUpdated _ _ \<Rightarrow> (Ok (), s))"

fun dp_event_loop ::
  "(u8 list \<Rightarrow> u8 list) \<Rightarrow> dp_worker_event list \<Rightarrow> 'w dp_scheduler \<Rightarrow> (dp_scheduler_error, unit) outcome \<times> 'w dp_scheduler" where
  "dp_event_loop sha256 [] s = (Ok (), s)"
| "dp_event_loop sha256 (e # es) s =
     (case dp_handle_event sha256 e s of
        (Ok _, s1) \<Rightarrow> dp_event_loop sha256 es s1
      | (Err err, s1) \<Rightarrow> (Err err, s1)
      | (Panic, s1) \<Rightarrow> (Panic, s1))"

fun dp_dispatch_loop ::
  "usize list \<Rightarrow> 'w dp_scheduler \<Rightarrow> (dp_scheduler_error, unit) outcome \<times> 'w dp_scheduler" where
  "dp_dispatch_loop [] s = (Ok (), s)"
| "dp_dispatch_loop (rank # rest) s =
     (case form_batch_for_rank rank s of
        (Err e, s1) \<Rightarrow> (Err e, s1)
      | (Panic, s1) \<Rightarrow> (Panic, s1)
      | (Ok None, s1) \<Rightarrow> dp_dispatch_loop rest s1
      | (Ok (Some batch), s1) \<Rightarrow>
          (case submit_batch (worker_pool s1) rank batch of
             (Ok seq, pool) \<Rightarrow>
               dp_dispatch_loop rest
                 (s1\<lparr>worker_pool := pool, running_batches := AList.update seq (rank, batch) (running_batches s1)\<rparr>)
           | (Err e, pool) \<Rightarrow> (Err (WorkerPool e), s1\<lparr>worker_pool := pool\<rparr>)
           | (Panic, pool) \<Rightarrow> (Panic, s1\<lparr>worker_pool := pool\<rparr>)))"

definition dp_step ::
  "(u8 list \<Rightarrow> u8 list) \<Rightarrow> 'w dp_scheduler \<Rightarrow> (dp_scheduler_error, usize) outcome \<times> 'w dp_scheduler" where
  "dp_step sha256 s =
     (case poll_events (worker_pool s) of
        (es, pool) \<Rightarrow>
          (case dp_event_loop sha256 es (s\<lparr>worker_pool := pool\<rparr>) of
             (Err e, s1) \<Rightarrow> (Err e, s1)
           | (Panic, s1) \<Rightarrow> (Panic, s1)
           | (Ok _, s1) \<Rightarrow>
               (case dp_dispatch_loop (idle_ranks (worker_pool s1)) s1 of
                  (Err e, s2) \<Rightarrow> (Err e, s2)
                | (Panic, s2) \<Rightarrow> (Panic, s2)
                | (Ok _, s2) \<Rightarrow> (Ok (length es), s2))))"

text \<open>\<open>step_blocking\<close>; \<open>None\<close> when it waits for an event.\<close>

definition dp_step_blocking ::
  "(u8 list \<Rightarrow> u8 list) \<Rightarrow> 'w dp_scheduler \<Rightarrow> ((dp_scheduler_error, unit) outcome \<times> 'w dp_scheduler) option" where
  "dp_step_blocking sha256 s =
     (case wait_for_event (worker_pool s) of
        None \<Rightarrow> None
      | Some (Err e, pool) \<Rightarrow> Some (Err (WorkerPool e), s\<lparr>worker_pool := pool\<rparr>)
      | Some (Panic, pool) \<Rightarrow> Some (Panic, s\<lparr>worker_pool := pool\<rparr>)
      | Some (Ok e, pool) \<Rightarrow>
          (case dp_handle_event sha256 e (s\<lparr>worker_pool := pool\<rparr>) of
             (Err err, s1) \<Rightarrow> Some (Err err, s1)
           | (Panic, s1) \<Rightarrow> Some (Panic, s1)
           | (Ok _, s1) \<Rightarrow> Some (dp_dispatch_loop (idle_ranks (worker_pool s1)) s1)))"

end
