(* ===== verification/Dp_Protocol.thy ===== *)
theory Dp_Protocol
  imports Dp_Scheduler
begin

text \<open>
  What the data parallel scheduler guarantees: the protocol between \<open>running_batches\<close> and the batches in
  flight in the pool, for every interleaving of scheduler calls and worker threads; which requests a
  batch for a rank takes; and two states it can get into that it should not: a waiting request whose whole
  prompt is cached blocks the queue for ever, and pages published in the prefix cache are given back
  to the allocator.
\<close>

section \<open>Forming a batch\<close>

definition req_ok :: "scheduled_request \<Rightarrow> bool" where
  "req_ok r \<longleftrightarrow> prompt_tokens_processed r \<le> length (input_ids r)"

definition pinned :: "usize \<Rightarrow> scheduled_request \<Rightarrow> bool" where
  "pinned rank r \<longleftrightarrow> data_parallel_rank r = as_i32 rank"

lemma allocate_only_out_of_slots:
  assumes "alloc_inv a"
  shows "case allocate_for_sequence a xs n of
     Ok (pages, a') \<Rightarrow> alloc_inv a' | Err (OutOfSlots _ _) \<Rightarrow> True | _ \<Rightarrow> False"
proof -
  have ps: "0 < page_size a" using assms by (simp add: alloc_inv_def)
  show ?thesis
  proof (cases "allocate_for_sequence a xs n")
    case (Ok x)
    then show ?thesis using allocate_for_sequence_inv [OF assms] by (cases x) auto
  next
    case (Err e)
    then show ?thesis using allocate_for_sequence_total(3) [OF ps Err] by simp
  next
    case Panic
    then show ?thesis using allocate_for_sequence_total(1) [OF ps] by blast
  qed
qed

text \<open>
  \<open>decode_formed\<close> relates the result of the loop on the rest of the decode queue to its arguments: the
  batch is extended by requests of this rank, in order, and all others stay in the queue, in order.
\<close>

definition decode_formed where
  "decode_formed rank max_batch kept queue batch res \<longleftrightarrow>
     (\<exists>new dq a'. res = (Ok (batch @ new), dq, a') \<and> alloc_inv a' \<and> length (batch @ new) \<le> max_batch \<and>
        (\<forall>r \<in> set new. pinned rank r \<and> stage r = DecodeForward \<and> req_ok r) \<and> (\<forall>r \<in> set dq. req_ok r) \<and>
        map request_id (filter (pinned rank) queue) = map request_id new @ map request_id (filter (pinned rank) dq) \<and>
        filter (\<lambda>r. \<not> pinned rank r) dq = kept @ filter (\<lambda>r. \<not> pinned rank r) queue)"

lemma decode_formed_stop:
  assumes "alloc_inv a" and "\<forall>r \<in> set (kept @ queue). req_ok r" and "\<forall>r \<in> set kept. \<not> pinned rank r"
    and "length batch \<le> max_batch"
  shows "decode_formed rank max_batch kept queue batch (Ok batch, kept @ queue, a)"
  unfolding decode_formed_def by (rule exI [of _ "[]"]) (use assms in \<open>auto simp: filter_empty_conv\<close>)

lemma decode_formed_take:
  assumes "decode_formed rank max_batch kept queue (batch @ [r]) res" and "pinned rank q" "pinned rank r"
    and "stage r = DecodeForward" "request_id r = request_id q" "req_ok r"
  shows "decode_formed rank max_batch kept (q # queue) batch res"
proof -
  obtain new dq a' where new: "res = (Ok ((batch @ [r]) @ new), dq, a')" "alloc_inv a'" "length ((batch @ [r]) @ new) \<le> max_batch"
    "\<forall>r \<in> set new. pinned rank r \<and> stage r = DecodeForward \<and> req_ok r" "\<forall>r \<in> set dq. req_ok r"
    "map request_id (filter (pinned rank) queue) = map request_id new @ map request_id (filter (pinned rank) dq)"
    "filter (\<lambda>r. \<not> pinned rank r) dq = kept @ filter (\<lambda>r. \<not> pinned rank r) queue"
    using assms(1) unfolding decode_formed_def by blast
  show ?thesis unfolding decode_formed_def by (rule exI [of _ "r # new"]) (use assms(2-) new in auto)
qed

lemma form_decode_loop_spec:
  assumes "alloc_inv a" and "\<forall>r \<in> set (kept @ queue). req_ok r"
    and "\<forall>r \<in> set kept. \<not> pinned rank r" and "length batch \<le> max_batch"
  shows "decode_formed rank max_batch kept queue batch (form_decode_loop rank max_batch a kept queue batch)"
  using assms
proof (induction queue arbitrary: a kept batch)
  case Nil
  then show ?case using decode_formed_stop [of a kept "[]"] by simp
next
  case (Cons q queue)
  note stop = decode_formed_stop [OF Cons.prems]
  note alloc = allocate_only_out_of_slots [OF Cons.prems(1), of "sequence_cache_pages q" 1]
  consider (full) "\<not> length batch < max_batch" | (other) "length batch < max_batch" "\<not> pinned rank q"
    | (mine) "length batch < max_batch" "pinned rank q" by blast
  then show ?case
  proof cases
    case full
    then show ?thesis using stop by simp
  next
    case other
    then show ?thesis using Cons.IH [of a "kept @ [q]" batch] Cons.prems
      by (auto simp: pinned_def decode_formed_def)
  next
    case mine
    then have pq: "data_parallel_rank q = as_i32 rank" by (simp add: pinned_def)
    show ?thesis
    proof (cases "allocate_for_sequence a (sequence_cache_pages q) 1")
      case (Ok x)
      obtain pages a' where x: "x = (pages, a')" by fastforce
      let ?r = "(append_sequence_cache_pages pages
        (q\<lparr>forward_cache_pages := pages, allocated_cache_pages := pages\<rparr>))\<lparr>stage := DecodeForward\<rparr>"
      have "decode_formed rank max_batch kept queue (batch @ [?r]) (form_decode_loop rank max_batch a' kept queue (batch @ [?r]))"
        by (rule Cons.IH) (use Cons.prems alloc Ok x mine in auto)
      then have "decode_formed rank max_batch kept (q # queue) batch (form_decode_loop rank max_batch a' kept queue (batch @ [?r]))"
        by (rule decode_formed_take)
          (use Cons.prems mine pq in \<open>simp_all add: pinned_def req_ok_def append_sequence_cache_pages_def\<close>)
      then show ?thesis using mine pq Ok x by simp
    next
      case (Err e)
      then obtain m n where "e = OutOfSlots m n" using alloc by (cases e) auto
      then show ?thesis using Err mine pq stop by simp
    qed (use alloc in simp)
  qed
qed

lemma dp_begin_prefill_ok:
  assumes "req_ok r"
  shows "req_ok (dp_begin_prefill cache ps r)" "request_id (dp_begin_prefill cache ps r) = request_id r"
  using assms page_aligned_facts(3) [of _ cache "input_ids r" ps]
  by (auto simp: dp_begin_prefill_def req_ok_def Let_def)

lemma form_prefill_loop_spec:
  assumes "alloc_inv a" and "\<forall>r \<in> set queue. req_ok r" and "length batch \<le> max_batch"
  shows "\<exists>new wq a'. form_prefill_loop rank max_batch ps budget cache a queue batch = (Ok (batch @ new), wq, a') \<and>
     alloc_inv a' \<and> length (batch @ new) \<le> max_batch \<and>
     (\<forall>r \<in> set new. pinned rank r \<and> stage r = PrefillForward \<and> req_ok r) \<and> (\<forall>r \<in> set wq. req_ok r) \<and>
     map request_id queue = map request_id new @ map request_id wq"
  using assms
proof (induction queue arbitrary: a batch)
  case Nil
  then show ?case by simp
next
  case (Cons q queue)
  define r where "r = dp_begin_prefill cache ps q"
  define n where "n = min (remaining_prompt_tokens r) budget"
  have r: "req_ok r" "request_id r = request_id q" using Cons.prems(2) by (simp_all add: r_def dp_begin_prefill_ok)
  show ?case
  proof (cases "length batch < max_batch \<and> 0 < n")
    case False
    then show ?thesis using Cons.prems r by (auto simp: r_def [symmetric] n_def [symmetric] Let_def)
  next
    case True
    note alloc = allocate_only_out_of_slots [OF Cons.prems(1), of "sequence_cache_pages r" n]
    show ?thesis
    proof (cases "allocate_for_sequence a (sequence_cache_pages r) n")
      case (Ok x)
      obtain pages a' where x: "x = (pages, a')" by fastforce
      let ?r = "(append_sequence_cache_pages pages (r\<lparr>forward_cache_pages := pages, allocated_cache_pages := pages\<rparr>))
        \<lparr>current_chunk_len := n, stage := PrefillForward, data_parallel_rank := as_i32 rank\<rparr>"
      have r': "req_ok ?r" "pinned rank ?r" "stage ?r = PrefillForward" "request_id ?r = request_id q"
        using r by (simp_all add: req_ok_def pinned_def append_sequence_cache_pages_def)
      have "alloc_inv a'" using alloc Ok x by simp
      from Cons.IH [OF this, of "batch @ [?r]"] True Cons.prems(2)
      obtain new wq a'' where ih: "form_prefill_loop rank max_batch ps budget cache a' queue (batch @ [?r]) = (Ok ((batch @ [?r]) @ new), wq, a'')"
        "alloc_inv a''" "length ((batch @ [?r]) @ new) \<le> max_batch" "\<forall>r \<in> set new. pinned rank r \<and> stage r = PrefillForward \<and> req_ok r"
        "\<forall>r \<in> set wq. req_ok r" "map request_id queue = map request_id new @ map request_id wq" by auto
      show ?thesis
        by (rule exI [of _ "?r # new"], rule exI [of _ wq], rule exI [of _ a''])
          (use ih r' True Ok x in \<open>auto simp: r_def [symmetric] n_def [symmetric] Let_def\<close>)
    next
      case (Err e)
      then obtain m k where "e = OutOfSlots m k" using alloc by (cases e) auto
      then show ?thesis using Err True Cons.prems r by (auto simp: r_def [symmetric] n_def [symmetric] Let_def)
    next
      case Panic
      then show ?thesis using alloc by simp
    qed
  qed
qed

text \<open>
  The result of forming a batch for a rank: decode requests pinned to the rank, then requests from the front of
  the waiting queue, at most \<open>max_batch_size\<close> in all.  Requests of other ranks keep their places, nothing is lost,
  and no other allocator is touched.
\<close>

definition batch_formed :: "usize \<Rightarrow> 'w dp_scheduler \<Rightarrow> schedule_batch option \<Rightarrow> 'w dp_scheduler \<Rightarrow> bool" where
  "batch_formed rank s res s' \<longleftrightarrow>
     (\<exists>decodes prefills a.
        res = (if decodes @ prefills = [] then None else Some (mixed_batch_of (decodes @ prefills))) \<and>
        length (decodes @ prefills) \<le> dp_max_batch_size s \<and>
        (\<forall>r \<in> set decodes. stage r = DecodeForward) \<and> (\<forall>r \<in> set prefills. stage r = PrefillForward) \<and>
        (\<forall>r \<in> set (decodes @ prefills). pinned rank r \<and> req_ok r) \<and>
        map request_id (filter (pinned rank) (dp_decode_queue s)) =
          map request_id decodes @ map request_id (filter (pinned rank) (dp_decode_queue s')) \<and>
        filter (\<lambda>r. \<not> pinned rank r) (dp_decode_queue s') = filter (\<lambda>r. \<not> pinned rank r) (dp_decode_queue s) \<and>
        map request_id (dp_waiting_queue s) = map request_id prefills @ map request_id (dp_waiting_queue s') \<and>
        (\<forall>r \<in> set (dp_decode_queue s' @ dp_waiting_queue s'). req_ok r) \<and> alloc_inv a \<and>
        s' = s\<lparr>dp_decode_queue := dp_decode_queue s', dp_waiting_queue := dp_waiting_queue s',
               allocators := (allocators s)[rank := a]\<rparr>)"

lemma form_batch_for_rank_formed:
  assumes "rank < length (allocators s)" and "\<forall>a \<in> set (allocators s). alloc_inv a"
    and "\<forall>r \<in> set (dp_decode_queue s @ dp_waiting_queue s). req_ok r"
  shows "\<exists>res s'. form_batch_for_rank rank s = (Ok res, s') \<and> batch_formed rank s res s'"
proof -
  let ?m = "dp_max_batch_size s"
  have "decode_formed rank ?m [] (dp_decode_queue s) []
      (form_decode_loop rank ?m (allocators s ! rank) [] (dp_decode_queue s) [])"
    by (rule form_decode_loop_spec) (use assms in auto)
  then obtain decodes dq a where d:
    "form_decode_loop rank ?m (allocators s ! rank) [] (dp_decode_queue s) [] = (Ok decodes, dq, a)"
    "alloc_inv a" "length decodes \<le> ?m" "\<forall>r \<in> set decodes. pinned rank r \<and> stage r = DecodeForward \<and> req_ok r"
    "\<forall>r \<in> set dq. req_ok r"
    "map request_id (filter (pinned rank) (dp_decode_queue s)) = map request_id decodes @ map request_id (filter (pinned rank) dq)"
    "filter (\<lambda>r. \<not> pinned rank r) dq = filter (\<lambda>r. \<not> pinned rank r) (dp_decode_queue s)"
    unfolding decode_formed_def by auto
  let ?budget = "case dp_chunked_prefill_size s of None \<Rightarrow> usize_max | Some n \<Rightarrow> n"
  have wq: "\<forall>r \<in> set (dp_waiting_queue s). req_ok r" using assms(3) by simp
  obtain prefills wq a' where p:
    "form_prefill_loop rank ?m (dp_page_size s) ?budget (dp_prefix_cache s) a (dp_waiting_queue s) decodes =
      (Ok (decodes @ prefills), wq, a')"
    "alloc_inv a'" "length (decodes @ prefills) \<le> ?m" "\<forall>r \<in> set prefills. pinned rank r \<and> stage r = PrefillForward \<and> req_ok r"
    "\<forall>r \<in> set wq. req_ok r" "map request_id (dp_waiting_queue s) = map request_id prefills @ map request_id wq"
    using form_prefill_loop_spec [OF d(2) wq d(3), of rank "dp_page_size s" ?budget "dp_prefix_cache s"] by blast
  let ?s' = "s\<lparr>dp_decode_queue := dq, dp_waiting_queue := wq, allocators := (allocators s)[rank := a']\<rparr>"
  let ?res = "if decodes @ prefills = [] then None else Some (mixed_batch_of (decodes @ prefills))"
  have "form_batch_for_rank rank s = (Ok ?res, ?s')"
    using assms(1) d(1) p(1) by (simp add: form_batch_for_rank_def)
  moreover have "batch_formed rank s ?res ?s'"
    unfolding batch_formed_def
    by (rule exI [of _ decodes], rule exI [of _ prefills], rule exI [of _ a']) (use d p in auto)
  ultimately show ?thesis by blast
qed

section \<open>The protocol\<close>

definition no_fatal :: "dp_worker_event \<Rightarrow> bool" where
  "no_fatal e \<longleftrightarrow> (case e of FatalError _ _ \<Rightarrow> False | _ \<Rightarrow> True)"

definition dp_inv :: "'w dp_scheduler \<Rightarrow> bool" where
  "dp_inv s \<longleftrightarrow>
     pool_inv (worker_pool s) \<and> ranks (worker_pool s) \<noteq> [] \<and> length (allocators s) = length (ranks (worker_pool s)) \<and>
     (\<forall>e \<in> set (events (worker_pool s)). no_fatal e) \<and>
     (\<forall>a \<in> set (allocators s). alloc_inv a) \<and> 0 < dp_page_size s \<and>
     (\<forall>r \<in> set (dp_decode_queue s @ dp_waiting_queue s). req_ok r) \<and>
     (\<forall>q r b. map_of (running_batches s) q = Some (r, b) \<longrightarrow>
        q < next_sequence (worker_pool s) \<and> (\<forall>x \<in> set (batch_requests b). req_ok x))"

text \<open>Every batch in \<open>M\<close> is registered under its rank.\<close>

definition registered :: "(nat \<times> usize) multiset \<Rightarrow> 'w dp_scheduler \<Rightarrow> bool" where
  "registered M s \<longleftrightarrow> (\<forall>q r. (q, r) \<in># M \<longrightarrow> (\<exists>b. map_of (running_batches s) q = Some (r, b)))"

text \<open>The errors a step may return: only what a worker reported.\<close>

definition worker_failure :: "(dp_scheduler_error, 'a) outcome \<Rightarrow> bool" where
  "worker_failure res \<longleftrightarrow> (\<exists>e. res = Err (DpWorker e))"

text \<open>What the completion of a request keeps.\<close>

definition core :: "'w dp_scheduler \<Rightarrow> bool" where
  "core s \<longleftrightarrow> (\<forall>a \<in> set (allocators s). alloc_inv a) \<and> 0 < dp_page_size s \<and>
     (\<forall>r \<in> set (dp_decode_queue s @ dp_waiting_queue s). req_ok r)"

definition same_protocol :: "'w dp_scheduler \<Rightarrow> 'w dp_scheduler \<Rightarrow> bool" where
  "same_protocol s s' \<longleftrightarrow> worker_pool s' = worker_pool s \<and> running_batches s' = running_batches s \<and>
     length (allocators s') = length (allocators s)"

lemma same_protocol_trans: "same_protocol s s' \<Longrightarrow> same_protocol s' s'' \<Longrightarrow> same_protocol s s''"
  by (simp add: same_protocol_def)

lemma release_on_inv:
  assumes "\<forall>a \<in> set allocs. alloc_inv a"
  shows "\<forall>a \<in> set (release_on rank pages allocs). alloc_inv a" "length (release_on rank pages allocs) = length allocs"
proof -
  have "set (allocs[rank := release (allocs ! rank) pages]) \<subseteq> insert (release (allocs ! rank) pages) (set allocs)"
    by (rule set_update_subset_insert)
  then show "\<forall>a \<in> set (release_on rank pages allocs). alloc_inv a"
    using assms release_inv [of "allocs ! rank" pages] by (auto simp: release_on_def)
qed (simp add: release_on_def)

lemma dp_complete_chunk_core:
  assumes "core s" and "req_ok r"
  shows "\<exists>r' s'. dp_complete_chunk sha r s = (Ok r', s') \<and> core s' \<and> same_protocol s s' \<and> req_ok r'"
proof -
  define n where "n = (if current_chunk_len r > 0 then current_chunk_len r else length (uncached_input_ids r))"
  define r' where "r' = advance_prompt_tokens n r"
  define s1 where "s1 = (let stop = min (prompt_tokens_processed r') (length (sequence_cache_pages r'))
    in if \<not> skips_radix_cache_insert r' \<and> prompt_tokens_processed r' > 0
       then (case radix_insert (dp_prefix_cache s) (take stop (input_ids r')) (take stop (sequence_cache_pages r')) of
               Ok cache \<Rightarrow> s\<lparr>dp_prefix_cache := cache\<rparr> | _ \<Rightarrow> s) else s)"
  have s1: "core s1" "same_protocol s s1" "dp_page_size s1 = dp_page_size s"
    using assms(1) by (auto simp: s1_def core_def same_protocol_def Let_def split: outcome.splits)
  have r': "req_ok r'" "prompt_tokens_processed r \<le> prompt_tokens_processed r'"
    using assms(2) by (auto simp: r'_def req_ok_def advance_prompt_tokens_def)
  have ps: "0 < dp_page_size s1" using s1(1) by (simp add: core_def)
  obtain ev where "from_chunk sha (request_id r') (input_ids r') (prompt_tokens_processed r, prompt_tokens_processed r')
      (dp_page_size s1) (data_parallel_rank r') = Ok ev"
    using from_chunk_Ok [OF ps r'(2), of "input_ids r'" sha] r'(1) unfolding req_ok_def by blast
  then have "\<exists>s2. dp_publish_chunk sha r' (prompt_tokens_processed r, prompt_tokens_processed r') s1 = (Ok (), s2) \<and>
      core s2 \<and> same_protocol s1 s2"
    using s1(1) by (cases "dp_event_publisher s1") (simp_all add: dp_publish_chunk_def core_def same_protocol_def)
  then obtain s2 where s2: "dp_publish_chunk sha r' (prompt_tokens_processed r, prompt_tokens_processed r') s1 = (Ok (), s2)"
      "core s2" "same_protocol s1 s2" by blast
  have "dp_complete_chunk sha r s = (Ok r', s2)"
    unfolding dp_complete_chunk_def Let_def n_def [symmetric] r'_def [symmetric] s1_def [unfolded Let_def, symmetric]
    by (simp add: s2(1))
  then show ?thesis using s2 s1 r' same_protocol_trans by blast
qed

lemma dp_complete_token_core:
  assumes "core s" and "req_ok r"
  shows "core (dp_complete_token rank r t s) \<and> same_protocol s (dp_complete_token rank r t s)"
  using assms release_on_inv [of "allocators s"]
  by (auto simp: dp_complete_token_def Let_def core_def same_protocol_def req_ok_def append_output_ids_def
      clear_forward_chunk_tracking_def)

lemma dp_complete_request_core:
  assumes "core s" and "req_ok r"
  shows "\<exists>s'. dp_complete_request sha rank mode r t s = (Ok (), s') \<and> core s' \<and> same_protocol s s'"
proof (cases "is_prefill_forward mode r")
  case True
  obtain r1 s1 where c: "dp_complete_chunk sha r s = (Ok r1, s1)" "core s1" "same_protocol s s1" "req_ok r1"
    using dp_complete_chunk_core [OF assms] by blast
  show ?thesis
  proof (cases "is_prefill_complete r1")
    case True
    then show ?thesis
      using \<open>is_prefill_forward mode r\<close> c dp_complete_token_core [OF c(2,4), of rank t]
        same_protocol_trans [OF c(3), of "dp_complete_token rank r1 t s1"]
      by (simp add: dp_complete_request_def)
  next
    case False
    then show ?thesis using \<open>is_prefill_forward mode r\<close> c
      by (auto simp: dp_complete_request_def core_def same_protocol_def req_ok_def clear_forward_chunk_tracking_def)
  qed
next
  case False
  then show ?thesis using dp_complete_token_core [OF assms] by (auto simp: dp_complete_request_def)
qed

lemma dp_complete_loop_core:
  assumes "core s" and "\<forall>(r, t) \<in> set xs. req_ok r"
  shows "\<exists>s'. dp_complete_loop sha rank mode xs s = (Ok (), s') \<and> core s' \<and> same_protocol s s'"
  using assms
proof (induction xs arbitrary: s)
  case (Cons x xs)
  obtain r t where x: "x = (r, t)" by fastforce
  obtain s1 where s1: "dp_complete_request sha rank mode r t s = (Ok (), s1)" "core s1" "same_protocol s s1"
    using dp_complete_request_core [OF Cons.prems(1)] Cons.prems(2) x by fastforce
  then show ?case using Cons.IH [OF s1(2)] Cons.prems(2) x same_protocol_trans by auto
qed (simp add: same_protocol_def)

lemma dp_inv_core: "dp_inv s \<Longrightarrow> core s"
  by (auto simp: dp_inv_def core_def)

lemma dp_inv_same_protocol:
  assumes "dp_inv s" and "core s'" and "same_protocol s s'"
  shows "dp_inv s'"
  using assms by (simp add: dp_inv_def core_def same_protocol_def)

lemma same_protocol_registered: "same_protocol s s' \<Longrightarrow> registered M s' = registered M s"
  by (simp add: same_protocol_def registered_def)

lemma submit_batch_events: "events (snd (submit_batch p r b)) = events p"
  by (auto simp: submit_batch_def set_rank_def Let_def)

lemma mixed_batch_of_requests [simp]: "batch_requests (mixed_batch_of rs) = rs"
  by (simp add: mixed_batch_of_def Let_def batch_mixed_def batch_prefill_def batch_decode_def)

lemma batch_formed_inv:
  assumes "dp_inv s" and "batch_formed r s res s'"
  shows "dp_inv s' \<and> worker_pool s' = worker_pool s \<and> running_batches s' = running_batches s \<and>
         (\<forall>b. res = Some b \<longrightarrow> (\<forall>x \<in> set (batch_requests b). req_ok x))"
proof -
  obtain a decodes prefills where a: "alloc_inv a" "s' = s\<lparr>dp_decode_queue := dp_decode_queue s',
      dp_waiting_queue := dp_waiting_queue s', allocators := (allocators s)[r := a]\<rparr>"
      "\<forall>r \<in> set (dp_decode_queue s' @ dp_waiting_queue s'). req_ok r"
    and b: "res = (if decodes @ prefills = [] then None else Some (mixed_batch_of (decodes @ prefills)))"
      "\<forall>r \<in> set (decodes @ prefills). req_ok r"
    using assms(2) unfolding batch_formed_def by blast
  have fr: "worker_pool s' = worker_pool s" "running_batches s' = running_batches s" "dp_page_size s' = dp_page_size s"
      "allocators s' = (allocators s)[r := a]"
    by (subst a(2), simp)+
  have "\<forall>x \<in> set (allocators s'). alloc_inv x"
    using a(1) assms(1) set_update_subset_insert [of "allocators s" r a] unfolding fr dp_inv_def by blast
  then have "dp_inv s'" using assms(1) a(3) fr by (simp add: dp_inv_def)
  then show ?thesis using fr b by (auto split: if_splits)
qed

text \<open>
  Handling an event: \<open>fl\<close> are the other batches in flight.  The batch of the event is found, and the
  others stay registered.
\<close>

lemma dp_handle_event_protocol:
  assumes "dp_inv s" and "no_fatal e" and "distinct (map fst (ev_flight e @ fl))"
    and "registered (mset (ev_flight e @ fl)) s"
  shows "\<exists>res s'. dp_handle_event sha e s = (res, s') \<and> (res = Ok () \<or> worker_failure res) \<and>
           dp_inv s' \<and> registered (mset fl) s' \<and> worker_pool s' = worker_pool s"
proof (cases e)
  case (BatchCompleted q r result)
  obtain b where b: "map_of (running_batches s) q = Some (r, b)"
    using assms(4) BatchCompleted by (auto simp: registered_def)
  let ?s1 = "s\<lparr>running_batches := AList.delete q (running_batches s)\<rparr>"
  have ok: "\<forall>x \<in> set (batch_requests b). req_ok x" using assms(1) b unfolding dp_inv_def by blast
  have inv1: "dp_inv ?s1" using assms(1) by (auto simp: dp_inv_def delete_conv)
  have nq: "x \<noteq> q" if "(x, y) \<in> set fl" for x y
    using imageI [OF that, of fst] assms(3) BatchCompleted by auto
  have reg1: "registered (mset fl) ?s1"
    using assms(4) nq unfolding registered_def by (simp add: delete_conv)
  show ?thesis
  proof (cases result)
    case (Inl err)
    then show ?thesis using inv1 reg1 b BatchCompleted by (simp add: dp_handle_event_def worker_failure_def)
  next
    case (Inr generated)
    have "\<forall>(r, t) \<in> set (zip (batch_requests b) generated). req_ok r" using ok by (auto dest: set_zip_leftD)
    from dp_complete_loop_core [OF dp_inv_core [OF inv1] this]
    obtain s2 where s2: "handle_batch_completion sha r b generated ?s1 = (Ok (), s2)" "core s2" "same_protocol ?s1 s2"
      unfolding handle_batch_completion_def by blast
    have "dp_handle_event sha e s = (Ok (), s2)" using b BatchCompleted Inr s2(1) by (simp add: dp_handle_event_def)
    moreover have "dp_inv s2" by (rule dp_inv_same_protocol [OF inv1 s2(2,3)])
    moreover have "registered (mset fl) s2" using reg1 same_protocol_registered [OF s2(3)] by simp
    ultimately show ?thesis using s2(3) by (simp add: same_protocol_def)
  qed
next
  case (WeightsUpdated r result)
  then show ?thesis using assms by (simp add: dp_handle_event_def)
next
  case (FatalError r err)
  then show ?thesis using assms(2) by (simp add: no_fatal_def)
qed

lemma dp_event_loop_protocol:
  assumes "dp_inv s" and "\<forall>e \<in> set es. no_fatal e" and "distinct (map fst (concat (map ev_flight es) @ fl))"
    and "registered (mset (concat (map ev_flight es) @ fl)) s"
  shows "\<exists>res s'. dp_event_loop sha es s = (res, s') \<and> (res = Ok () \<or> worker_failure res) \<and>
           dp_inv s' \<and> registered (mset fl) s' \<and> worker_pool s' = worker_pool s"
  using assms
proof (induction es arbitrary: s)
  case (Cons e es)
  obtain res s1 where s1: "dp_handle_event sha e s = (res, s1)" "res = Ok () \<or> worker_failure res" "dp_inv s1"
      "registered (mset (concat (map ev_flight es) @ fl)) s1" "worker_pool s1 = worker_pool s"
    using dp_handle_event_protocol [OF Cons.prems(1), of e "concat (map ev_flight es) @ fl" sha] Cons.prems(2-4) by auto
  show ?case
  proof (cases "res = Ok ()")
    case True
    then show ?thesis using Cons.IH [OF s1(3) _ _ s1(4)] Cons.prems(2,3) s1 by auto
  next
    case False
    then show ?thesis using s1 by (auto simp: worker_failure_def registered_def)
  qed
qed auto

text \<open>Dispatch: every rank of the list is idle, so the pool takes its batch.\<close>

lemma dp_dispatch_loop_protocol:
  assumes "dp_inv s" and "registered (mset (flight (worker_pool s))) s" and "distinct rs"
    and "\<forall>r \<in> set rs. pool_is_idle (worker_pool s) r"
  shows "\<exists>s'. dp_dispatch_loop rs s = (Ok (), s') \<and> dp_inv s' \<and> registered (mset (flight (worker_pool s'))) s'"
  using assms
proof (induction rs arbitrary: s)
  case (Cons r rs)
  let ?p = "worker_pool s"
  have r: "r < length (allocators s)" "r < length (ranks ?p)" "rank_is_idle (ranks ?p ! r)"
    using Cons.prems(1,4) by (auto simp: dp_inv_def pool_is_idle_def)
  obtain res s1 where s1: "form_batch_for_rank r s = (Ok res, s1)" "batch_formed r s res s1"
    using form_batch_for_rank_formed [OF r(1)] Cons.prems(1) unfolding dp_inv_def by blast
  note f = batch_formed_inv [OF Cons.prems(1) s1(2)]
  show ?case
  proof (cases res)
    case None
    then show ?thesis using Cons.IH [of s1] f s1(1) Cons.prems by (auto simp: registered_def)
  next
    case (Some b)
    obtain p' where p': "submit_batch ?p r b = (Ok (next_sequence ?p), p')" "pool_inv p'"
        "mset (flight p') = add_mset (next_sequence ?p, r) (mset (flight ?p))" "length (ranks p') = length (ranks ?p)"
        "next_sequence p' = next_sequence ?p + 1" "events p' = events ?p"
        "\<forall>i < length (ranks ?p). rank_is_idle (ranks p' ! i) \<longleftrightarrow> rank_is_idle (ranks ?p ! i) \<and> i \<noteq> r"
      using submit_batch_ok [OF _ r(2,3), of b] submit_batch_events [of ?p r b] Cons.prems(1) unfolding dp_inv_def by fastforce
    let ?s2 = "s1\<lparr>worker_pool := p', running_batches := AList.update (next_sequence ?p) (r, b) (running_batches s1)\<rparr>"
    have inv2: "dp_inv ?s2" using f Some p' by (auto simp: dp_inv_def update_conv' intro: less_SucI)
    have reg2: "registered (mset (flight (worker_pool ?s2))) ?s2"
      using Cons.prems(1,2) p'(3) f by (auto simp: registered_def update_conv' dp_inv_def pool_inv_def)
    have "\<forall>i \<in> set rs. pool_is_idle p' i" using Cons.prems(3,4) p'(4,7) by (auto simp: pool_is_idle_def)
    then show ?thesis using Cons.IH [OF inv2 reg2] Cons.prems(3) s1(1) Some p'(1) f by auto
  qed
qed auto

lemma idle_ranks_facts:
  assumes "pool_inv p"
  shows "distinct (idle_ranks p) \<and> (\<forall>r \<in> set (idle_ranks p). pool_is_idle p r)"
proof -
  have id: "rank_id (ranks p ! i) = i" if "i < length (ranks p)" for i using assms that by (simp add: pool_inv_def)
  then have "map rank_id (ranks p) = [0 ..< length (ranks p)]" by (intro nth_equalityI) simp_all
  then have "distinct (map rank_id (ranks p))" by simp
  then show ?thesis using id by (auto simp: idle_ranks_def distinct_map_filter pool_is_idle_def in_set_conv_nth)
qed

definition protocol :: "'w dp_scheduler \<Rightarrow> bool" where
  "protocol s \<longleftrightarrow> dp_inv s \<and> registered (mset (flight (worker_pool s))) s"

lemma dispatch_idle_protocol:
  assumes "protocol s"
  shows "\<exists>s'. dp_dispatch_loop (idle_ranks (worker_pool s)) s = (Ok (), s') \<and> protocol s'"
  using assms dp_dispatch_loop_protocol [of s "idle_ranks (worker_pool s)"] idle_ranks_facts [of "worker_pool s"]
  by (simp add: protocol_def dp_inv_def)

lemma dp_inv_pool:
  assumes "dp_inv s" and "pool_inv p" and "length (ranks p) = length (ranks (worker_pool s))"
    and "next_sequence p = next_sequence (worker_pool s)" and "\<forall>e \<in> set (events p). no_fatal e"
  shows "dp_inv (s\<lparr>worker_pool := p\<rparr>)"
  using assms by (simp add: dp_inv_def flip: length_greater_0_conv)

lemma dp_step_protocol:
  assumes "protocol s"
  shows "\<exists>res s'. dp_step sha s = (res, s') \<and> ((\<exists>n. res = Ok n) \<or> worker_failure res) \<and> protocol s'"
proof -
  obtain es p where p: "poll_events (worker_pool s) = (es, p)" by fastforce
  note inv = assms [unfolded protocol_def]
  have pi: "pool_inv (worker_pool s)" using inv by (simp add: dp_inv_def)
  note q = poll_events_inv [OF pi p]
  have ev: "events p = []" "es = events (worker_pool s)"
    using p fold_mark_idle [of "events (worker_pool s)" "worker_pool s\<lparr>events := []\<rparr>"] by (auto simp: poll_events_def)
  have i1: "dp_inv (s\<lparr>worker_pool := p\<rparr>)" by (rule dp_inv_pool) (use inv q ev in simp_all)
  have m: "mset (map fst (flight (worker_pool s))) = mset (map fst (concat (map ev_flight es) @ flight p))"
    using q by simp
  have "distinct (map fst (flight (worker_pool s)))" using pi by (simp add: pool_inv_def)
  then have d: "distinct (map fst (concat (map ev_flight es) @ flight p))"
    using mset_eq_imp_distinct_iff [OF m] by blast
  have "registered (mset (concat (map ev_flight es) @ flight p)) (s\<lparr>worker_pool := p\<rparr>)"
    using inv q by (simp add: registered_def)
  from dp_event_loop_protocol [OF i1 _ d this, of sha] inv ev(2)
  obtain res s1 where s1: "dp_event_loop sha es (s\<lparr>worker_pool := p\<rparr>) = (res, s1)" "res = Ok () \<or> worker_failure res"
      "protocol s1" by (auto simp: protocol_def dp_inv_def)
  show ?thesis
  proof (cases "res = Ok ()")
    case True
    then show ?thesis using dispatch_idle_protocol [OF s1(3)] p s1(1) by (auto simp: dp_step_def)
  next
    case False
    then show ?thesis using s1 p by (auto simp: dp_step_def worker_failure_def)
  qed
qed

lemma dp_step_blocking_protocol:
  assumes "protocol s" and "dp_step_blocking sha s = Some (res, s')"
  shows "(res = Ok () \<or> worker_failure res) \<and> protocol s'"
proof -
  note inv = assms(1) [unfolded protocol_def]
  have pi: "pool_inv (worker_pool s)" "ranks (worker_pool s) \<noteq> []" using inv by (simp_all add: dp_inv_def)
  then have "hd (ranks (worker_pool s)) \<in> set (ranks (worker_pool s)) \<and> rank_alive (hd (ranks (worker_pool s)))"
    by (simp add: pool_inv_def hd_conv_nth)
  then have "\<exists>h \<in> set (ranks (worker_pool s)). rank_alive h" by blast
  then have "wait_for_event (worker_pool s) = None" if "events (worker_pool s) = []"
    using that by (simp add: wait_for_event_def)
  with assms(2) have "events (worker_pool s) \<noteq> []" by (auto simp: dp_step_blocking_def)
  then obtain e p where p: "wait_for_event (worker_pool s) = Some (Ok e, p)"
    by (auto simp: wait_for_event_def neq_Nil_conv)
  note q = wait_for_event_inv [OF pi(1) p]
  have ev: "events (worker_pool s) = e # events p"
    using p by (auto simp: wait_for_event_def mark_idle_def set_rank_def split: list.splits if_splits)
  have i1: "dp_inv (s\<lparr>worker_pool := p\<rparr>)" by (rule dp_inv_pool) (use inv q ev in \<open>auto simp: dp_inv_def\<close>)
  have m: "mset (map fst (flight (worker_pool s))) = mset (map fst (ev_flight e @ flight p))" using q by simp
  have "distinct (map fst (flight (worker_pool s)))" using pi(1) by (simp add: pool_inv_def)
  then have d: "distinct (map fst (ev_flight e @ flight p))" using mset_eq_imp_distinct_iff [OF m] by blast
  have "registered (mset (ev_flight e @ flight p)) (s\<lparr>worker_pool := p\<rparr>)" using inv q by (simp add: registered_def)
  from dp_handle_event_protocol [OF i1 _ d this, of sha] inv ev
  obtain res1 s1 where s1: "dp_handle_event sha e (s\<lparr>worker_pool := p\<rparr>) = (res1, s1)" "res1 = Ok () \<or> worker_failure res1"
      "protocol s1" by (auto simp: protocol_def dp_inv_def)
  show ?thesis
  proof (cases "res1 = Ok ()")
    case True
    then show ?thesis using dispatch_idle_protocol [OF s1(3)] p s1(1) assms(2) by (auto simp: dp_step_blocking_def)
  next
    case False
    then show ?thesis using s1 p assms(2) by (auto simp: dp_step_blocking_def worker_failure_def)
  qed
qed

section \<open>Reachable states\<close>

text \<open>
  Any interleaving of scheduler calls and turns of the worker threads.  Requests enter the queue
  unprocessed, as \<open>ScheduledRequest::new\<close> builds them.
\<close>

inductive dp_reach :: "(u8 list \<Rightarrow> u8 list) \<Rightarrow> 'w rank_worker \<Rightarrow> 'w dp_scheduler \<Rightarrow> 'w dp_scheduler \<Rightarrow> bool"
  for sha F s0 where
  dp_start: "dp_reach sha F s0 s0"
| dp_do_enqueue: "dp_reach sha F s0 s \<Longrightarrow> prompt_tokens_processed r = 0 \<Longrightarrow> dp_reach sha F s0 (dp_enqueue r s)"
| dp_do_thread: "dp_reach sha F s0 s \<Longrightarrow> worker_thread_step F i (worker_pool s) = Some p \<Longrightarrow>
     dp_reach sha F s0 (s\<lparr>worker_pool := p\<rparr>)"
| dp_do_step: "dp_reach sha F s0 s \<Longrightarrow> dp_step sha s = (res, s') \<Longrightarrow> dp_reach sha F s0 s'"
| dp_do_blocking: "dp_reach sha F s0 s \<Longrightarrow> dp_step_blocking sha s = Some (res', s') \<Longrightarrow> dp_reach sha F s0 s'"
| dp_do_abort: "dp_reach sha F s0 s \<Longrightarrow> dp_reach sha F s0 (snd (dp_abort_request rid s))"
| dp_do_abort_all: "dp_reach sha F s0 s \<Longrightarrow> dp_reach sha F s0 (snd (dp_abort_all_requests s))"
| dp_do_flush: "dp_reach sha F s0 s \<Longrightarrow> dp_reach sha F s0 (dp_flush_cache s)"
| dp_do_drain: "dp_reach sha F s0 s \<Longrightarrow> dp_reach sha F s0 (snd (drain_finished_outputs s))"
| dp_do_drain_steps: "dp_reach sha F s0 s \<Longrightarrow> dp_reach sha F s0 (snd (drain_step_outputs s))"

definition allocs_ok :: "nat \<Rightarrow> page_allocator list \<Rightarrow> bool" where
  "allocs_ok n allocs \<longleftrightarrow> length allocs = n \<and> (\<forall>a \<in> set allocs. alloc_inv a)"

lemma allocs_ok_fold: "allocs_ok n x \<Longrightarrow> (\<And>r y. allocs_ok n y \<Longrightarrow> allocs_ok n (f r y)) \<Longrightarrow> allocs_ok n (fold f rs x)"
  by (induction rs arbitrary: x) simp_all

lemma allocs_ok_release: "allocs_ok n x \<Longrightarrow> allocs_ok n (release_on rank pages x)"
  using release_on_inv [of x] by (simp add: allocs_ok_def)

lemma allocs_ok_release_try: "allocs_ok n x \<Longrightarrow> allocs_ok n (release_try rank pages x)"
  using allocs_ok_release by (simp add: release_try_def split: option.splits)

lemma protocol_same:
  assumes "protocol s" and "core s'" and "same_protocol s s'"
  shows "protocol s'"
  using assms dp_inv_same_protocol [OF _ assms(2,3)] same_protocol_registered [OF assms(3)]
  by (simp add: protocol_def same_protocol_def)

lemma dp_abort_request_same:
  assumes "core s"
  shows "core (snd (dp_abort_request rid s)) \<and> same_protocol s (snd (dp_abort_request rid s))"
proof -
  have "allocs_ok (length (allocators s)) (allocators (snd (dp_abort_request rid s)))"
    unfolding dp_abort_request_def Let_def
    by simp (rule allocs_ok_fold, use assms in \<open>simp_all add: allocs_ok_release core_def allocs_ok_def [of _ "allocators s"]\<close>)
  then show ?thesis using assms by (auto simp: dp_abort_request_def Let_def core_def same_protocol_def allocs_ok_def)
qed

lemma dp_abort_all_same:
  assumes "core s"
  shows "core (snd (dp_abort_all_requests s)) \<and> same_protocol s (snd (dp_abort_all_requests s))"
proof -
  have "allocs_ok (length (allocators s)) (allocators s)" using assms by (simp add: core_def allocs_ok_def)
  then have "allocs_ok (length (allocators s)) (allocators (snd (dp_abort_all_requests s)))"
    unfolding dp_abort_all_requests_def Let_def by (simp add: allocs_ok_fold allocs_ok_release_try)
  then show ?thesis using assms by (simp add: dp_abort_all_requests_def Let_def core_def same_protocol_def allocs_ok_def)
qed

lemma thread_step_events:
  assumes "worker_thread_step F i p = Some p'" and "\<forall>e \<in> set (events p). no_fatal e"
  shows "\<forall>e \<in> set (events p'). no_fatal e" "next_sequence p' = next_sequence p"
proof -
  have "no_fatal e" if "run_command F h c = (es, h')" "e \<in> set es" for h c es h' e
    using that by (cases c) (auto simp: no_fatal_def split: prod.splits)
  then show "\<forall>e \<in> set (events p'). no_fatal e"
    using assms by (fastforce simp: worker_thread_step_def split: if_splits list.splits prod.splits)
  show "next_sequence p' = next_sequence p"
    using assms(1) by (auto simp: worker_thread_step_def split: if_splits list.splits prod.splits)
qed

lemma dp_reach_protocol:
  assumes "dp_reach sha F s0 s" and "protocol s0"
  shows "protocol s"
  using assms(1)
proof induction
  case dp_start
  then show ?case by (rule assms(2))
next
  case (dp_do_enqueue s r)
  then have "core (dp_enqueue r s)" "same_protocol s (dp_enqueue r s)"
    using dp_inv_core [of s] by (auto simp: protocol_def core_def dp_enqueue_def same_protocol_def req_ok_def)
  then show ?case using protocol_same dp_do_enqueue by blast
next
  case (dp_do_thread s i p)
  have inv: "dp_inv s" "registered (mset (flight (worker_pool s))) s" "pool_inv (worker_pool s)"
      "\<forall>e \<in> set (events (worker_pool s)). no_fatal e"
    using dp_do_thread.IH by (simp_all add: protocol_def dp_inv_def)
  note t = worker_thread_step_inv [OF inv(3) dp_do_thread(2)] thread_step_events [OF dp_do_thread(2) inv(4)]
  have "dp_inv (s\<lparr>worker_pool := p\<rparr>)" by (rule dp_inv_pool [OF inv(1)]) (use t in simp_all)
  then show ?case using inv(2) t(1) by (simp add: protocol_def registered_def)
next
  case (dp_do_step s res s')
  then show ?case using dp_step_protocol [of s sha] by auto
next
  case (dp_do_blocking s res s')
  then show ?case using dp_step_blocking_protocol by blast
next
  case (dp_do_abort s rid)
  then show ?case using protocol_same dp_abort_request_same dp_inv_core unfolding protocol_def by blast
next
  case (dp_do_abort_all s)
  then show ?case using protocol_same dp_abort_all_same dp_inv_core unfolding protocol_def by blast
next
  case (dp_do_flush s)
  then have "core (dp_flush_cache s)" "same_protocol s (dp_flush_cache s)"
    using dp_inv_core [of s] reset_inv by (auto simp: protocol_def core_def dp_flush_cache_def same_protocol_def)
  then show ?case using protocol_same dp_do_flush by blast
next
  case (dp_do_drain s)
  then show ?case by (simp add: drain_finished_outputs_def protocol_def dp_inv_def registered_def)
next
  case (dp_do_drain_steps s)
  then show ?case by (simp add: drain_step_outputs_def protocol_def dp_inv_def registered_def)
qed

lemma dp_new_protocol:
  assumes "launch initializer spawn n = Ok p" and "dp_new p allocs m ps = Ok s0" and "\<forall>a \<in> set allocs. alloc_inv a"
  shows "protocol (s0\<lparr>dp_chunked_prefill_size := c, dp_event_publisher := pub\<rparr>)"
proof -
  note l = launch_inv [OF assms(1)]
  have "n \<noteq> 0" using assms(1) by (auto simp: launch_def split: if_splits)
  moreover have "s0 = \<lparr> dp_waiting_queue = [], dp_decode_queue = [], dp_prefix_cache = radix_default,
      allocators = allocs, worker_pool = p, running_batches = [], finished_outputs = [], step_outputs = [],
      dp_max_batch_size = m, dp_page_size = ps, dp_chunked_prefill_size = None, dp_event_publisher = None \<rparr>"
    and "length allocs = length (ranks p)" "0 < ps"
    using assms(2) by (auto simp: dp_new_def pool_dp_size_def split: if_splits)
  moreover have "events p = []" using assms(1) by (auto simp: launch_def outcome_simps split: if_splits)
  ultimately show ?thesis using l assms(3) by (auto simp: protocol_def dp_inv_def registered_def)
qed

section \<open>Properties\<close>

text \<open>
  (C30) Start a pool of workers and a scheduler over it, and let scheduler calls and worker threads
  interleave in any way.  Then every batch in flight is registered under its sequence number and rank, and
  \<open>step\<close> and \<open>step_blocking\<close> never panic and fail with nothing but an error reported by a worker: no
  completion is unknown, no batch is sent to a busy or missing rank, and no pool error occurs.
\<close>

theorem dp_protocol_safe:
  assumes "launch initializer spawn n = Ok p" and "dp_new p allocs m ps = Ok s0" and "\<forall>a \<in> set allocs. alloc_inv a"
    and "dp_reach sha F (s0\<lparr>dp_chunked_prefill_size := c, dp_event_publisher := pub\<rparr>) s"
  shows "(\<forall>(q, r) \<in> set (flight (worker_pool s)). \<exists>b. map_of (running_batches s) q = Some (r, b)) \<and>
         (case fst (dp_step sha s) of Ok _ \<Rightarrow> True | Err e \<Rightarrow> \<exists>w. e = DpWorker w | Panic \<Rightarrow> False) \<and>
         (\<forall>res s'. dp_step_blocking sha s = Some (res, s') \<longrightarrow> res = Ok () \<or> (\<exists>w. res = Err (DpWorker w)))"
proof -
  have prot: "protocol s" by (rule dp_reach_protocol [OF assms(4) dp_new_protocol [OF assms(1-3)]])
  then have "\<forall>(q, r) \<in> set (flight (worker_pool s)). \<exists>b. map_of (running_batches s) q = Some (r, b)"
    by (auto simp: protocol_def registered_def)
  moreover have "case fst (dp_step sha s) of Ok _ \<Rightarrow> True | Err e \<Rightarrow> \<exists>w. e = DpWorker w | Panic \<Rightarrow> False"
    using dp_step_protocol [OF prot, of sha] by (auto simp: worker_failure_def)
  moreover have "res = Ok () \<or> (\<exists>w. res = Err (DpWorker w))" if "dp_step_blocking sha s = Some (res, s')" for res s'
    using dp_step_blocking_protocol [OF prot that] by (simp add: worker_failure_def)
  ultimately show ?thesis by blast
qed

text \<open>A pool of two workers that always answer with one final token, each with 2 pages of 2 slots.\<close>

definition final_worker :: "unit rank_worker" where
  "final_worker = \<lparr> try_generate_batch = (\<lambda>w b. (Inr (map (\<lambda>_. \<lparr>token_ids = [33], is_finished = True\<rparr>) (batch_requests b)), w)),
     update_weights_from_disk = (\<lambda>w request. (Inr (), w)) \<rparr>"

definition idle_handle :: "usize \<Rightarrow> unit rank_handle" where
  "idle_handle i = \<lparr>rank_id = i, commands = [], rank_is_idle = True, rank_state = (), rank_alive = True\<rparr>"

definition sample_pool :: "unit dp_worker_pool" where
  "sample_pool = \<lparr>ranks = [idle_handle 0, idle_handle 1], events = [], next_sequence = 1, is_shutdown = False\<rparr>"

definition small_allocator :: page_allocator where
  "small_allocator = \<lparr>slot_capacity = 4, page_size = 2, free_page_indices = [0, 1], allocated_page_indices = {}\<rparr>"

definition sample_dp :: "scheduled_request list \<Rightarrow> unit dp_scheduler" where
  "sample_dp waiting = \<lparr> dp_waiting_queue = waiting, dp_decode_queue = [], dp_prefix_cache = radix_default,
     allocators = [small_allocator, small_allocator], worker_pool = sample_pool, running_batches = [],
     finished_outputs = [], step_outputs = [], dp_max_batch_size = 8, dp_page_size = 2,
     dp_chunked_prefill_size = Some 4, dp_event_publisher = None \<rparr>"

definition dp_request :: "request_id \<Rightarrow> u32 list \<Rightarrow> scheduled_request" where
  "dp_request rid ids = scheduled_request_new rid ids (sampling_new 4)"

lemma small_allocator_inv: "alloc_inv small_allocator"
  by (rule with_page_size_inv [of 4 2]) (simp add: with_page_size_def small_allocator_def upt_rec)

lemma sample_dp_new:
  "launch (\<lambda>_. Inr ()) (\<lambda>_. None) 2 = Ok sample_pool"
  "dp_new sample_pool [small_allocator, small_allocator] 8 2 = Ok ((sample_dp [])\<lparr>dp_chunked_prefill_size := None\<rparr>)"
  by (simp_all add: launch_def sample_pool_def idle_handle_def upt_rec dp_new_def sample_dp_def pool_dp_size_def)

theorem dp_protocol_safe_witness:
  "case fst (dp_step (\<lambda>_. []) (sample_dp [dp_request ''a'' [1, 2]])) of Ok _ \<Rightarrow> True | Err e \<Rightarrow> \<exists>w. e = DpWorker w | Panic \<Rightarrow> False"
proof -
  let ?s0 = "(sample_dp [])\<lparr>dp_chunked_prefill_size := None, dp_chunked_prefill_size := Some 4, dp_event_publisher := None\<rparr>"
  have "dp_reach (\<lambda>_. []) final_worker ?s0 (dp_enqueue (dp_request ''a'' [1, 2]) ?s0)"
    by (intro dp_do_enqueue dp_start) (simp add: dp_request_def scheduled_request_new_def)
  moreover have "dp_enqueue (dp_request ''a'' [1, 2]) ?s0 = sample_dp [dp_request ''a'' [1, 2]]"
    by (simp add: dp_enqueue_def sample_dp_def)
  ultimately have reach: "dp_reach (\<lambda>_. []) final_worker ?s0 (sample_dp [dp_request ''a'' [1, 2]])" by simp
  show ?thesis using dp_protocol_safe [OF sample_dp_new _ reach] small_allocator_inv by simp
qed

text \<open>
  Forming a batch for a rank never fails: it takes the decode requests pinned to the rank, in order, and then
  requests from the front of the waiting queue, at most \<open>max_batch_size\<close> together; every other request stays
  queued in order, and only the allocator of the rank changes.
\<close>

theorem form_batch_for_rank_spec:
  assumes "rank < length (allocators s)" and "\<forall>a \<in> set (allocators s). alloc_inv a"
    and "\<forall>r \<in> set (dp_decode_queue s @ dp_waiting_queue s). req_ok r"
  shows "\<exists>res s'. form_batch_for_rank rank s = (Ok res, s') \<and> batch_formed rank s res s'"
  using assms by (rule form_batch_for_rank_formed)

theorem form_batch_for_rank_spec_witness:
  "\<exists>b s'. form_batch_for_rank 1 (sample_dp [dp_request ''a'' [1, 2]]) = (Ok (Some b), s') \<and>
          batch_formed 1 (sample_dp [dp_request ''a'' [1, 2]]) (Some b) s' \<and> map request_id (batch_requests b) = [''a'']"
proof -
  let ?s = "sample_dp [dp_request ''a'' [1, 2]]"
  have "\<exists>res s'. form_batch_for_rank 1 ?s = (Ok res, s') \<and> batch_formed 1 ?s res s'"
    by (rule form_batch_for_rank_spec)
      (simp_all add: sample_dp_def small_allocator_inv req_ok_def dp_request_def scheduled_request_new_def)
  moreover have "case fst (form_batch_for_rank 1 ?s) of Ok (Some b) \<Rightarrow> map request_id (batch_requests b) = [''a''] | _ \<Rightarrow> False"
    by code_simp
  ultimately show ?thesis by (auto split: option.splits)
qed

subsection \<open>A fully cached prompt\<close>

lemma dp_begin_prefill_idem [simp]:
  "dp_begin_prefill cache ps (dp_begin_prefill cache ps r) = dp_begin_prefill cache ps r"
  by (simp add: dp_begin_prefill_def Let_def)

lemma form_batch_stuck:
  assumes "dp_decode_queue s = []" and "dp_waiting_queue s = r # rest" and "rank < length (allocators s)"
    and "remaining_prompt_tokens (dp_begin_prefill (dp_prefix_cache s) (dp_page_size s) r) = 0"
  shows "form_batch_for_rank rank s =
    (Ok None, s\<lparr>dp_waiting_queue := (if 0 < dp_max_batch_size s then dp_begin_prefill (dp_prefix_cache s) (dp_page_size s) r else r) # rest\<rparr>)"
  using assms by (simp add: form_batch_for_rank_def Let_def)

text \<open>A scheduler whose first waiting request has nothing left to prefill does not move.\<close>

lemma dispatch_stuck:
  assumes "dp_decode_queue s = []" and "dp_waiting_queue s = r # rest" and "0 < dp_max_batch_size s"
    and "remaining_prompt_tokens r = 0" and "dp_begin_prefill (dp_prefix_cache s) (dp_page_size s) r = r"
    and "\<forall>rank \<in> set rs. rank < length (allocators s)"
  shows "dp_dispatch_loop rs s = (Ok (), s)"
  using assms(6)
proof (induction rs)
  case (Cons rank rs)
  have "s\<lparr>dp_waiting_queue := r # rest\<rparr> = s" using assms(2) by simp
  then have "form_batch_for_rank rank s = (Ok None, s)"
    using form_batch_stuck [OF assms(1,2), of rank] assms(3-5) Cons.prems by simp
  then show ?case using Cons by simp
qed simp

lemma dispatch_gets_stuck:
  assumes "dp_decode_queue s = []" and "dp_waiting_queue s = r # rest" and "0 < dp_max_batch_size s"
    and "r' = dp_begin_prefill (dp_prefix_cache s) (dp_page_size s) r" and "remaining_prompt_tokens r' = 0"
    and "\<forall>rank \<in> set rs. rank < length (allocators s)" and "rs \<noteq> []"
  shows "dp_dispatch_loop rs s = (Ok (), s\<lparr>dp_waiting_queue := r' # rest\<rparr>)"
proof -
  obtain rank rs' where rs: "rs = rank # rs'" using assms(7) by (cases rs) auto
  have "form_batch_for_rank rank s = (Ok None, s\<lparr>dp_waiting_queue := r' # rest\<rparr>)"
    using form_batch_stuck [OF assms(1,2), of rank] assms rs by simp
  moreover have "dp_dispatch_loop rs' (s\<lparr>dp_waiting_queue := r' # rest\<rparr>) = (Ok (), s\<lparr>dp_waiting_queue := r' # rest\<rparr>)"
    by (rule dispatch_stuck) (use assms rs in auto)
  ultimately show ?thesis by (simp add: rs)
qed

lemma dp_step_no_events:
  assumes "events (worker_pool s) = []" and "dp_dispatch_loop (idle_ranks (worker_pool s)) s = (Ok (), s')"
  shows "dp_step sha s = (Ok 0, s')"
proof -
  have pool: "worker_pool s\<lparr>events := []\<rparr> = worker_pool s" using assms(1) by simp
  show ?thesis using assms by (simp add: dp_step_def poll_events_def pool)
qed

text \<open>
  (C31) A waiting request whose whole prompt is in the prefix cache, in whole pages, stops the scheduler: on an
  idle system with this request in front, \<open>step\<close> changes nothing any more, the scheduler is not idle, no thread
  has work and \<open>step_blocking\<close> waits for an event that never comes.
\<close>

theorem fully_cached_prompt_deadlocks:
  assumes "dp_inv s" and "dp_decode_queue s = []" and "dp_waiting_queue s = r # rest" and "0 < dp_max_batch_size s"
    and "prompt_tokens_processed r = 0"
    and "matched_token_count (match_prefix_page_aligned (dp_prefix_cache s) (input_ids r) (dp_page_size s)) = length (input_ids r)"
    and "events (worker_pool s) = []" and "\<forall>h \<in> set (ranks (worker_pool s)). rank_is_idle h \<and> commands h = []"
  shows "\<exists>s'. dp_step sha s = (Ok 0, s') \<and> dp_step sha s' = (Ok 0, s') \<and> \<not> dp_is_idle s' \<and>
           dp_step_blocking sha s' = None \<and> (\<forall>i. worker_thread_step F i (worker_pool s') = None)"
proof -
  define r' where "r' = dp_begin_prefill (dp_prefix_cache s) (dp_page_size s) r"
  have rem: "remaining_prompt_tokens r' = 0"
    using assms(5,6) by (simp add: r'_def dp_begin_prefill_def remaining_prompt_tokens_def Let_def)
  let ?rs = "idle_ranks (worker_pool s)" and ?s' = "s\<lparr>dp_waiting_queue := r' # rest\<rparr>"
  have inv: "pool_inv (worker_pool s)" "ranks (worker_pool s) \<noteq> []" "length (allocators s) = length (ranks (worker_pool s))"
    using assms(1) by (simp_all add: dp_inv_def)
  have lt: "\<forall>i \<in> set ?rs. i < length (allocators s)" using idle_ranks_facts [OF inv(1)] inv(3) by (auto simp: pool_is_idle_def)
  have ne: "?rs \<noteq> []" using inv(2) assms(8) by (simp add: idle_ranks_def filter_empty_conv)
  have "dp_dispatch_loop ?rs s = (Ok (), ?s')"
    by (rule dispatch_gets_stuck [OF assms(2-4) r'_def rem lt ne])
  then have 1: "dp_step sha s = (Ok 0, ?s')" by (rule dp_step_no_events [OF assms(7)])
  have "dp_dispatch_loop (idle_ranks (worker_pool ?s')) ?s' = (Ok (), ?s')"
    by (rule dispatch_stuck [where r = r']) (use assms(2,4) rem lt in \<open>simp_all add: r'_def\<close>)
  then have 2: "dp_step sha ?s' = (Ok 0, ?s')" by (rule dp_step_no_events [rotated]) (simp add: assms(7))
  have "\<exists>h \<in> set (ranks (worker_pool s)). rank_alive h"
    using inv(1,2) unfolding pool_inv_def by (metis length_greater_0_conv nth_mem)
  then have "wait_for_event (worker_pool ?s') = None" using assms(7) by (simp add: wait_for_event_def)
  then have 3: "dp_step_blocking sha ?s' = None" by (simp add: dp_step_blocking_def)
  have "worker_thread_step F i (worker_pool ?s') = None" for i
    using assms(8) by (auto simp: worker_thread_step_def split: list.splits dest: nth_mem)
  then show ?thesis using 1 2 3 by (intro exI [of _ ?s']) (simp add: dp_is_idle_def)
qed

text \<open>The prompt \<open>[7, 8]\<close> has been computed before on the slots 0 and 1.\<close>

definition cached_dp :: "unit dp_scheduler" where
  "cached_dp = (sample_dp [dp_request ''again'' [7, 8]])\<lparr>dp_prefix_cache := radix_insert_loop radix_default [(7, 0), (8, 1)]\<rparr>"

theorem fully_cached_prompt_deadlocks_witness:
  "\<exists>s'. dp_step (\<lambda>_. []) cached_dp = (Ok 0, s') \<and> dp_step (\<lambda>_. []) s' = (Ok 0, s') \<and> \<not> dp_is_idle s' \<and>
        dp_step_blocking (\<lambda>_. []) s' = None"
proof -
  have "protocol ((sample_dp [])\<lparr>dp_chunked_prefill_size := None, dp_chunked_prefill_size := Some 4, dp_event_publisher := None\<rparr>)"
    by (rule dp_new_protocol [OF sample_dp_new]) (simp add: small_allocator_inv)
  then have inv: "dp_inv cached_dp"
    by (simp add: protocol_def dp_inv_def cached_dp_def sample_dp_def req_ok_def dp_request_def scheduled_request_new_def)
  have m: "matched_token_count (match_prefix_page_aligned (dp_prefix_cache cached_dp) [7, 8] 2) = 2"
    unfolding cached_dp_def sample_dp_def by code_simp
  have "\<exists>s'. dp_step (\<lambda>_. []) cached_dp = (Ok 0, s') \<and> dp_step (\<lambda>_. []) s' = (Ok 0, s') \<and> \<not> dp_is_idle s' \<and>
        dp_step_blocking (\<lambda>_. []) s' = None \<and> (\<forall>i. worker_thread_step final_worker i (worker_pool s') = None)"
    by (rule fully_cached_prompt_deadlocks [OF inv, where r = "dp_request ''again'' [7, 8]" and rest = "[]"])
      (use m in \<open>simp_all add: cached_dp_def sample_dp_def sample_pool_def idle_handle_def dp_request_def scheduled_request_new_def\<close>)
  then show ?thesis by blast
qed

subsection \<open>Published pages\<close>

lemma owned_pages_mem: "slot \<in> set xs \<Longrightarrow> slot < cap \<Longrightarrow> slot mod ps = 0 \<Longrightarrow> slot div ps \<in> set (owned_pages cap ps xs)"
  by (induction xs) auto

text \<open>
  (C32) When a request finishes with its prefill, all its pages are given back to the allocator, the prompt pages
  included, although the prefix cache has just been told that they hold the prompt: a later request with
  the same prompt is sent to pages that are free and may be handed out to another request.
\<close>

theorem finished_prompt_pages_freed_while_cached:
  assumes "rank < length (allocators s)" and "dp_event_publisher s = None" and "\<not> skips_radix_cache_insert r"
    and "stage r = PrefillForward" and "prompt_tokens_processed r = 0" and "cache_hit_token_count r = 0"
    and "0 < current_chunk_len r" and "current_chunk_len r = length (input_ids r)"
    and "length (sequence_cache_pages r) = length (input_ids r)" and "is_finished t"
  shows "\<exists>s'. handle_batch_completion sha rank (batch_prefill [r]) [t] s = (Ok (), s') \<and>
           cache_pages (match_prefix (dp_prefix_cache s') (input_ids r)) = sequence_cache_pages r \<and>
           (\<forall>slot \<in> set (sequence_cache_pages r).
              slot < slot_capacity (allocators s ! rank) \<and> slot mod page_size (allocators s ! rank) = 0 \<longrightarrow>
              slot div page_size (allocators s ! rank) \<notin> allocated_page_indices (allocators s' ! rank))"
proof -
  obtain c where c: "radix_insert (dp_prefix_cache s) (input_ids r) (sequence_cache_pages r) = Ok c"
    using radix.publish_ok [of "input_ids r" "sequence_cache_pages r"] assms(9) by metis
  have len: "length (cache_pages (match_prefix c (input_ids r))) \<le> length (input_ids r)"
    by (rule radix.longest_characterised(1))
  have pages: "cache_pages (match_prefix c (input_ids r)) = sequence_cache_pages r"
    using radix.longest_after_publish [OF c, of "[]"] len by simp
  define r1 where "r1 = advance_prompt_tokens (length (input_ids r)) r"
  have r1: "prompt_tokens_processed r1 = length (input_ids r)" "input_ids r1 = input_ids r"
      "sequence_cache_pages r1 = sequence_cache_pages r" "cache_hit_token_count r1 = 0" "is_prefill_complete r1"
      "skips_radix_cache_insert r1 = skips_radix_cache_insert r"
    using assms(5,6) by (simp_all add: r1_def advance_prompt_tokens_def is_prefill_complete_def skips_radix_cache_insert_def)
  have chunk: "dp_complete_chunk sha r s = (Ok r1, s\<lparr>dp_prefix_cache := c\<rparr>)"
    using assms c r1 by (simp add: dp_complete_chunk_def Let_def r1_def [symmetric] dp_publish_chunk_def)
  let ?s' = "dp_complete_token rank r1 t (s\<lparr>dp_prefix_cache := c\<rparr>)"
  have run: "handle_batch_completion sha rank (batch_prefill [r]) [t] s = (Ok (), ?s')"
    using assms(4) chunk r1(5)
    by (simp add: handle_batch_completion_def batch_prefill_def dp_complete_request_def is_prefill_forward_def)
  have fin: "dp_prefix_cache ?s' = c" "allocators ?s' ! rank = release (allocators s ! rank) (sequence_cache_pages r)"
    using assms(1,10) r1(3,4) by (simp_all add: dp_complete_token_def Let_def append_output_ids_def release_on_def)
  show ?thesis using run fin pages owned_pages_mem [of _ "sequence_cache_pages r"]
    by (intro exI [of _ ?s']) (simp add: release_allocated)
qed

theorem finished_prompt_pages_freed_while_cached_witness:
  defines "r \<equiv> (dp_request ''a'' [7, 8])\<lparr>stage := PrefillForward, current_chunk_len := 2, sequence_cache_pages := [0, 1]\<rparr>"
  shows "\<exists>s'. handle_batch_completion (\<lambda>_. []) 0 (batch_prefill [r]) [\<lparr>token_ids = [33], is_finished = True\<rparr>] (sample_dp []) = (Ok (), s') \<and>
    cache_pages (match_prefix (dp_prefix_cache s') [7, 8]) = [0, 1] \<and> 0 \<notin> allocated_page_indices (allocators s' ! 0)"
proof -
  have ids: "input_ids r = [7, 8]" "sequence_cache_pages r = [0, 1]" by (simp_all add: r_def dp_request_def scheduled_request_new_def)
  have "\<exists>s'. handle_batch_completion (\<lambda>_. []) 0 (batch_prefill [r]) [\<lparr>token_ids = [33], is_finished = True\<rparr>] (sample_dp []) = (Ok (), s') \<and>
      cache_pages (match_prefix (dp_prefix_cache s') (input_ids r)) = sequence_cache_pages r \<and>
      (\<forall>slot \<in> set (sequence_cache_pages r).
         slot < slot_capacity (allocators (sample_dp []) ! 0) \<and> slot mod page_size (allocators (sample_dp []) ! 0) = 0 \<longrightarrow>
         slot div page_size (allocators (sample_dp []) ! 0) \<notin> allocated_page_indices (allocators s' ! 0))"
    by (rule finished_prompt_pages_freed_while_cached)
      (simp_all add: sample_dp_def r_def dp_request_def scheduled_request_new_def skips_radix_cache_insert_def)
  then show ?thesis unfolding ids by (auto simp: sample_dp_def small_allocator_def)
qed

end
