(* ===== verification/Active_Load.thy ===== *)
theory Active_Load
  imports Sgl_Prelude
begin

text \<open>
  The registry of in-flight requests of the router, \<open>crates/sglang-router/src/policies/active_load.rs\<close>.  Handlers register
  a request and drop its guard, the janitor sweeps stale requests and the worker manager forgets workers, all
  concurrently and without a common lock.  Counters are shared objects: the model keeps them in a store, and an entry
  names the counters it captured.  A call is a thread that makes one atomic step at a time: an operation on one of
  the concurrent maps, or one \<open>fetch_add\<close> or \<open>fetch_sub\<close>.  Loads are words, so the arithmetic wraps as it does on \<open>AtomicUsize\<close>.
\<close>

section \<open>Definitions\<close>

type_synonym request_id = nat

type_synonym counters_ref = nat

record worker_counters =
  wc_prefill_load :: u64
  wc_decode_load :: u64

record request_entry =
  re_worker :: string
  re_worker_url :: string
  re_counters :: counters_ref
  re_prefill_load :: u64
  re_decode_load :: u64
  re_registered_at :: nat

record active_load_registry =
  al_store :: "worker_counters list"
  al_workers :: "(string \<times> counters_ref) list"
  al_requests :: "(request_id \<times> request_entry) list"
  al_stale_request_timeout :: nat
  al_gauge :: "(string \<times> (u64 \<times> u64)) list"
  al_cancelled :: "request_id set"

definition active_load_new :: "nat \<Rightarrow> active_load_registry" where
  "active_load_new timeout =
     \<lparr> al_store = [], al_workers = [], al_requests = [], al_stale_request_timeout = timeout, al_gauge = [], al_cancelled = {} \<rparr>"

definition upd_counters :: "counters_ref \<Rightarrow> (worker_counters \<Rightarrow> worker_counters) \<Rightarrow> active_load_registry \<Rightarrow> active_load_registry" where
  "upd_counters c f s = s\<lparr>al_store := (al_store s)[c := f (al_store s ! c)]\<rparr>"

definition publish_gauge :: "counters_ref \<Rightarrow> string \<Rightarrow> active_load_registry \<Rightarrow> active_load_registry" where
  "publish_gauge c url s =
     s\<lparr>al_gauge := AList.update url (wc_prefill_load (al_store s ! c), wc_decode_load (al_store s ! c)) (al_gauge s)\<rparr>"

definition counters_for :: "string \<Rightarrow> active_load_registry \<Rightarrow> counters_ref \<times> active_load_registry" where
  "counters_for w s =
     (case map_of (al_workers s) w of
        Some c \<Rightarrow> (c, s)
      | None \<Rightarrow>
          (length (al_store s),
           s\<lparr> al_store := al_store s @ [\<lparr>wc_prefill_load = 0, wc_decode_load = 0\<rparr>],
              al_workers := AList.update w (length (al_store s)) (al_workers s) \<rparr>))"

definition forget_worker :: "string \<Rightarrow> active_load_registry \<Rightarrow> active_load_registry" where
  "forget_worker w s = s\<lparr>al_workers := AList.delete w (al_workers s)\<rparr>"

definition is_known :: "string \<Rightarrow> active_load_registry \<Rightarrow> bool" where
  "is_known w s \<longleftrightarrow> map_of (al_workers s) w \<noteq> None"

definition prefill_load :: "string \<Rightarrow> active_load_registry \<Rightarrow> u64" where
  "prefill_load w s = (case map_of (al_workers s) w of None \<Rightarrow> 0 | Some c \<Rightarrow> wc_prefill_load (al_store s ! c))"

definition decode_load :: "string \<Rightarrow> active_load_registry \<Rightarrow> u64" where
  "decode_load w s = (case map_of (al_workers s) w of None \<Rightarrow> 0 | Some c \<Rightarrow> wc_decode_load (al_store s ! c))"

definition inflight_count :: "active_load_registry \<Rightarrow> usize" where
  "inflight_count s = length (al_requests s)"

definition stale_ids :: "nat \<Rightarrow> active_load_registry \<Rightarrow> request_id list" where
  "stale_ids now s =
     map fst (filter (\<lambda>(_, e). now - re_registered_at e \<ge> al_stale_request_timeout s) (al_requests s))"

text \<open>
  The control points of the calls.  \<open>register\<close> adds to both counters, publishes and inserts; a dropped guard and the
  janitor take an entry out, subtract from both counters and publish, the janitor for a list of ids.
\<close>

datatype load_thread =
  RegLookup request_id string string u64 u64
| RegAddPrefill request_id request_entry
| RegAddDecode request_id request_entry
| RegPublish request_id request_entry
| RegInsert request_id request_entry
| Take bool "request_id list"
| SubPrefill bool request_id request_entry "request_id list"
| SubDecode bool request_id request_entry "request_id list"
| SubPublish bool request_id request_entry "request_id list"
| Sweep

text \<open>The call that drops a guard takes its entry out, unless the janitor has.\<close>

definition guard_drop :: "request_id \<Rightarrow> load_thread" where
  "guard_drop i = Take False [i]"

text \<open>One step of \<open>register\<close> at time \<open>now\<close>: the registry after it, and the thread unless it has returned.\<close>

fun register_step :: "nat \<Rightarrow> load_thread \<Rightarrow> active_load_registry \<Rightarrow> load_thread option \<times> active_load_registry" where
  "register_step now (RegLookup i w url p d) s =
     (case counters_for w s of
        (c, s') \<Rightarrow>
          (Some (RegAddPrefill i \<lparr>re_worker = w, re_worker_url = url, re_counters = c, re_prefill_load = p,
             re_decode_load = d, re_registered_at = now\<rparr>), s'))"
| "register_step now (RegAddPrefill i e) s =
     (Some (RegAddDecode i e),
      upd_counters (re_counters e) (\<lambda>k. k\<lparr>wc_prefill_load := wc_prefill_load k + re_prefill_load e\<rparr>) s)"
| "register_step now (RegAddDecode i e) s =
     (Some (RegPublish i e),
      upd_counters (re_counters e) (\<lambda>k. k\<lparr>wc_decode_load := wc_decode_load k + re_decode_load e\<rparr>) s)"
| "register_step now (RegPublish i e) s = (Some (RegInsert i e), publish_gauge (re_counters e) (re_worker_url e) s)"
| "register_step now (RegInsert i e) s =
     (None, s\<lparr>al_requests := AList.update i (e\<lparr>re_registered_at := now\<rparr>) (al_requests s)\<rparr>)"
| "register_step now th s = (Some th, s)"

text \<open>
  One step of \<open>sweep_stale\<close>, or of a dropped guard, which ends an entry in the same way without cancelling the request.  The
  scan for stale requests is one step; the accounts do not depend on which ids it finds.
\<close>

fun release_step :: "nat \<Rightarrow> load_thread \<Rightarrow> active_load_registry \<Rightarrow> load_thread option \<times> active_load_registry" where
  "release_step now Sweep s = (Some (Take True (stale_ids now s)), s)"
| "release_step now (Take janitor []) s = (None, s)"
| "release_step now (Take janitor (i # ids)) s =
     (case map_of (al_requests s) i of
        None \<Rightarrow> (Some (Take janitor ids), s)
      | Some e \<Rightarrow> (Some (SubPrefill janitor i e ids), s\<lparr>al_requests := AList.delete i (al_requests s)\<rparr>))"
| "release_step now (SubPrefill janitor i e ids) s =
     (Some (SubDecode janitor i e ids),
      upd_counters (re_counters e) (\<lambda>k. k\<lparr>wc_prefill_load := wc_prefill_load k - re_prefill_load e\<rparr>) s)"
| "release_step now (SubDecode janitor i e ids) s =
     (Some (SubPublish janitor i e ids),
      upd_counters (re_counters e) (\<lambda>k. k\<lparr>wc_decode_load := wc_decode_load k - re_decode_load e\<rparr>) s)"
| "release_step now (SubPublish janitor i e ids) s =
     (Some (Take janitor ids),
      (publish_gauge (re_counters e) (re_worker_url e) s)
      \<lparr>al_cancelled := (if janitor then insert i (al_cancelled s) else al_cancelled s)\<rparr>)"
| "release_step now th s = (Some th, s)"

fun is_registering :: "load_thread \<Rightarrow> bool" where
  "is_registering (RegLookup i w url p d) = True"
| "is_registering (RegAddPrefill i e) = True"
| "is_registering (RegAddDecode i e) = True"
| "is_registering (RegPublish i e) = True"
| "is_registering (RegInsert i e) = True"
| "is_registering _ = False"

fun load_step :: "nat \<Rightarrow> load_thread \<Rightarrow> active_load_registry \<Rightarrow> load_thread option \<times> active_load_registry" where
  "load_step now th s = (if is_registering th then register_step now th s else release_step now th s)"

section \<open>Interleavings\<close>

record load_sys =
  ls_registry :: active_load_registry
  ls_threads :: "load_thread list"
  ls_guards :: "request_id set"
  ls_used :: "request_id set"

text \<open>
  Request ids are random and taken to be fresh.  A guard exists from the insertion of its entry until it is dropped,
  which happens once.
\<close>

inductive load_trans :: "load_sys \<Rightarrow> load_sys \<Rightarrow> bool" where
  call_register: "i \<notin> ls_used s \<Longrightarrow>
    load_trans s (s\<lparr>ls_threads := RegLookup i w url p d # ls_threads s, ls_used := insert i (ls_used s)\<rparr>)"
| call_drop: "i \<in> ls_guards s \<Longrightarrow>
    load_trans s (s\<lparr>ls_threads := guard_drop i # ls_threads s, ls_guards := ls_guards s - {i}\<rparr>)"
| call_sweep: "load_trans s (s\<lparr>ls_threads := Sweep # ls_threads s\<rparr>)"
| call_forget: "load_trans s (s\<lparr>ls_registry := forget_worker w (ls_registry s)\<rparr>)"
| advance: "ls_threads s = xs @ th # ys \<Longrightarrow> load_step now th (ls_registry s) = (nxt, r) \<Longrightarrow>
    load_trans s (s\<lparr>ls_registry := r, ls_threads := xs @ (case nxt of None \<Rightarrow> [] | Some th' \<Rightarrow> [th']) @ ys,
      ls_guards := (case th of RegInsert i e \<Rightarrow> insert i (ls_guards s) | _ \<Rightarrow> ls_guards s)\<rparr>)"

inductive_cases load_transE: "load_trans s s'"

definition load_init :: "nat \<Rightarrow> load_sys" where
  "load_init timeout = \<lparr> ls_registry = active_load_new timeout, ls_threads = [], ls_guards = {}, ls_used = {} \<rparr>"

section \<open>Accounting\<close>

text \<open>Both axes are treated alike: \<open>True\<close> selects the prefill load, \<open>False\<close> the decode load.\<close>

definition counter :: "bool \<Rightarrow> worker_counters \<Rightarrow> u64" where
  "counter k wc = (if k then wc_prefill_load wc else wc_decode_load wc)"

definition amount :: "bool \<Rightarrow> counters_ref \<Rightarrow> request_entry \<Rightarrow> u64" where
  "amount k c e = (if c = re_counters e then if k then re_prefill_load e else re_decode_load e else 0)"

definition tracked :: "bool \<Rightarrow> counters_ref \<Rightarrow> (request_id \<times> request_entry) list \<Rightarrow> u64" where
  "tracked k c rs = sum_list (map (\<lambda>(i, e). amount k c e) rs)"

text \<open>What a thread has added to a counter without an entry, or has still to subtract.\<close>

fun pending :: "bool \<Rightarrow> counters_ref \<Rightarrow> load_thread \<Rightarrow> u64" where
  "pending k c (RegAddDecode i e) = (if k then amount k c e else 0)"
| "pending k c (RegPublish i e) = amount k c e"
| "pending k c (RegInsert i e) = amount k c e"
| "pending k c (SubPrefill j i e ids) = amount k c e"
| "pending k c (SubDecode j i e ids) = (if k then 0 else amount k c e)"
| "pending k c _ = 0"

fun thread_entry :: "load_thread \<Rightarrow> request_entry option" where
  "thread_entry (RegAddPrefill i e) = Some e"
| "thread_entry (RegAddDecode i e) = Some e"
| "thread_entry (RegPublish i e) = Some e"
| "thread_entry (RegInsert i e) = Some e"
| "thread_entry (SubPrefill j i e ids) = Some e"
| "thread_entry (SubDecode j i e ids) = Some e"
| "thread_entry (SubPublish j i e ids) = Some e"
| "thread_entry _ = None"

fun registering :: "load_thread \<Rightarrow> request_id list" where
  "registering (RegLookup i w url p d) = [i]"
| "registering (RegAddPrefill i e) = [i]"
| "registering (RegAddDecode i e) = [i]"
| "registering (RegPublish i e) = [i]"
| "registering (RegInsert i e) = [i]"
| "registering _ = []"

definition counts_ok :: "active_load_registry \<Rightarrow> load_thread list \<Rightarrow> bool" where
  "counts_ok r ths \<longleftrightarrow> (\<forall>k c. c < length (al_store r) \<longrightarrow>
     counter k (al_store r ! c) = tracked k c (al_requests r) + sum_list (map (pending k c) ths))"

definition refs_ok :: "active_load_registry \<Rightarrow> load_thread list \<Rightarrow> bool" where
  "refs_ok r ths \<longleftrightarrow> (\<forall>w c. map_of (al_workers r) w = Some c \<longrightarrow> c < length (al_store r)) \<and>
     (\<forall>(i, e) \<in> set (al_requests r). re_counters e < length (al_store r)) \<and>
     (\<forall>th e. th \<in> set ths \<longrightarrow> thread_entry th = Some e \<longrightarrow> re_counters e < length (al_store r))"

definition ids_ok :: "request_id set \<Rightarrow> active_load_registry \<Rightarrow> load_thread list \<Rightarrow> bool" where
  "ids_ok used r ths \<longleftrightarrow> distinct (map fst (al_requests r) @ concat (map registering ths)) \<and>
     set (map fst (al_requests r)) \<union> set (concat (map registering ths)) \<subseteq> used"

lemma tracked_insert: "i \<notin> fst ` set rs \<Longrightarrow> tracked k c (AList.update i e rs) = tracked k c rs + amount k c e"
  unfolding tracked_def by (induction rs) (auto simp: algebra_simps)

lemma update_fresh: "i \<notin> fst ` set rs \<Longrightarrow> AList.update i e rs = rs @ [(i, e)]"
  by (induction rs) auto

lemma delete_absent: "i \<notin> fst ` set rs \<Longrightarrow> AList.delete i rs = rs"
  by (induction rs) auto

lemma tracked_delete:
  "distinct (map fst rs) \<Longrightarrow> map_of rs i = Some e \<Longrightarrow> tracked k c rs = tracked k c (AList.delete i rs) + amount k c e"
  unfolding tracked_def by (induction rs) (auto simp: delete_absent algebra_simps split: if_splits)

lemma amount_fresh: "re_counters e < n \<Longrightarrow> amount k n e = 0"
  by (simp add: amount_def)

lemma tracked_fresh: "(\<forall>(i, e) \<in> set rs. re_counters e < n) \<Longrightarrow> tracked k n rs = 0"
  unfolding tracked_def by (induction rs) (auto simp: amount_fresh)

lemma pending_amount: "pending k c th = 0 \<or> (\<exists>e. thread_entry th = Some e \<and> pending k c th = amount k c e)"
  by (cases th) auto

lemma pending_fresh:
  "(\<And>th e. th \<in> set ths \<Longrightarrow> thread_entry th = Some e \<Longrightarrow> re_counters e < n) \<Longrightarrow> sum_list (map (pending k n) ths) = 0"
proof (induction ths)
  case (Cons th ths)
  have "pending k n th = 0" using pending_amount [of k n th] Cons.prems [of th] by (auto simp: amount_fresh)
  moreover have "sum_list (map (pending k n) ths) = 0" by (rule Cons.IH) (use Cons.prems in auto)
  ultimately show ?case by simp
qed simp

text \<open>An atomic step on one counter, and the thread that made it.\<close>

lemma upd_counters_counts:
  assumes "counts_ok r (xs @ th # ys)" and "c' < length (al_store r)"
    and "\<And>k wc. counter k (f wc) = counter k wc + (pending k c' th' - pending k c' th)"
    and "\<And>k c. c \<noteq> c' \<Longrightarrow> pending k c th' = pending k c th"
  shows "counts_ok (upd_counters c' f r) (xs @ th' # ys)"
  unfolding counts_ok_def
proof (intro allI impI)
  fix k c
  assume "c < length (al_store (upd_counters c' f r))"
  then have c: "c < length (al_store r)" by (simp add: upd_counters_def)
  have s: "counter k (al_store r ! c) = tracked k c (al_requests r) + sum_list (map (pending k c) (xs @ th # ys))"
    using assms(1) c by (simp add: counts_ok_def)
  have "counter k (al_store (upd_counters c' f r) ! c) = counter k (al_store r ! c) + (pending k c th' - pending k c th)"
    using assms(3) [of k "al_store r ! c"] assms(4) c by (cases "c = c'") (simp_all add: upd_counters_def)
  then show "counter k (al_store (upd_counters c' f r) ! c) =
      tracked k c (al_requests (upd_counters c' f r)) + sum_list (map (pending k c) (xs @ th' # ys))"
    unfolding s by (simp add: upd_counters_def algebra_simps)
qed

lemma counts_frame:
  assumes "counts_ok r (xs @ th # ys)" and "al_store r' = al_store r"
    and "\<And>k c. tracked k c (al_requests r') + sum_list (map (pending k c) zs) = tracked k c (al_requests r) + pending k c th"
  shows "counts_ok r' (xs @ zs @ ys)"
  unfolding counts_ok_def
proof (intro allI impI)
  fix k c
  assume "c < length (al_store r')"
  then have "counter k (al_store r' ! c) = tracked k c (al_requests r) + pending k c th + sum_list (map (pending k c) (xs @ ys))"
    using assms(1,2) by (simp add: counts_ok_def algebra_simps)
  then show "counter k (al_store r' ! c) = tracked k c (al_requests r') + sum_list (map (pending k c) (xs @ zs @ ys))"
    unfolding assms(3) [symmetric] by (simp add: algebra_simps)
qed

lemma counters_for_counts:
  assumes "counts_ok r ths" and "refs_ok r ths" and "counters_for w r = (c, r')"
  shows "counts_ok r' ths" and "refs_ok r' ths" and "c < length (al_store r')" and "al_requests r' = al_requests r"
proof -
  have new: "counter k \<lparr>wc_prefill_load = 0, wc_decode_load = 0\<rparr> = 0" for k by (simp add: counter_def)
  have z: "tracked k (length (al_store r)) (al_requests r) = 0"
      "sum_list (map (pending k (length (al_store r))) ths) = 0" for k
    using assms(2) by (auto simp: refs_ok_def intro!: tracked_fresh pending_fresh)
  show "counts_ok r' ths"
    using assms(1,3) z new by (auto simp: counts_ok_def counters_for_def nth_append less_Suc_eq split: option.splits)
  show "refs_ok r' ths" "c < length (al_store r')" "al_requests r' = al_requests r"
    using assms(2,3) by (fastforce simp: refs_ok_def counters_for_def update_conv' split: option.splits if_splits)+
qed

text \<open>One step of any thread keeps the accounts, the references and the ids.\<close>

lemma load_step_counts:
  assumes c: "counts_ok r (xs @ th # ys)" and f: "refs_ok r (xs @ th # ys)" and i: "ids_ok used r (xs @ th # ys)"
    and s: "load_step now th r = (nxt, r')"
  shows "counts_ok r' (xs @ (case nxt of None \<Rightarrow> [] | Some th' \<Rightarrow> [th']) @ ys)"
proof (cases th)
  case (RegLookup j w url p d)
  obtain cr where "counters_for w r = (cr, r')" and n: "\<exists>e. nxt = Some (RegAddPrefill j e)"
    using s by (auto simp: RegLookup split: prod.splits)
  from counters_for_counts(1) [OF c f this(1)] show ?thesis using n by (auto simp: RegLookup counts_ok_def)
next
  case (RegAddPrefill j e)
  have "re_counters e < length (al_store r)" using f by (force simp: refs_ok_def RegAddPrefill)
  from upd_counters_counts [OF c this, where th' = "RegAddDecode j e"] show ?thesis
    using s by (auto simp: RegAddPrefill counter_def amount_def)
next
  case (RegAddDecode j e)
  have "re_counters e < length (al_store r)" using f by (force simp: refs_ok_def RegAddDecode)
  from upd_counters_counts [OF c this, where th' = "RegPublish j e"] show ?thesis
    using s by (auto simp: RegAddDecode counter_def amount_def)
next
  case (SubPrefill b j e ids)
  have "re_counters e < length (al_store r)" using f by (force simp: refs_ok_def SubPrefill)
  from upd_counters_counts [OF c this, where th' = "SubDecode b j e ids"] show ?thesis
    using s by (auto simp: SubPrefill counter_def amount_def)
next
  case (SubDecode b j e ids)
  have "re_counters e < length (al_store r)" using f by (force simp: refs_ok_def SubDecode)
  from upd_counters_counts [OF c this, where th' = "SubPublish b j e ids"] show ?thesis
    using s by (auto simp: SubDecode counter_def amount_def)
next
  case (RegInsert j e)
  have "j \<notin> fst ` set (al_requests r)" using i by (auto simp: ids_ok_def RegInsert)
  then show ?thesis using s by (intro counts_frame [OF c]) (auto simp: RegInsert tracked_insert amount_def)
next
  case (Take b ids)
  have "distinct (map fst (al_requests r))" using i by (simp add: ids_ok_def)
  then show ?thesis
    using s by (intro counts_frame [OF c]; cases ids) (auto simp: Take tracked_delete split: option.splits)
qed (use s in \<open>auto intro!: counts_frame [OF c] simp: publish_gauge_def\<close>)

lemma load_step_refs:
  assumes f: "refs_ok r (xs @ th # ys)" and s: "load_step now th r = (nxt, r')"
  shows "refs_ok r' (xs @ (case nxt of None \<Rightarrow> [] | Some th' \<Rightarrow> [th']) @ ys)"
proof (cases th)
  case (RegLookup j w url p d)
  then show ?thesis using f s
    by (fastforce simp: refs_ok_def counters_for_def update_conv' split: option.splits if_splits)
next
  case (RegInsert j e)
  have "(k, e') \<in> set (AList.update j x rs) \<Longrightarrow> (k, e') \<in> set rs \<or> e' = x"
    for k e' x and rs :: "(request_id \<times> request_entry) list"
    by (induction rs) (auto split: if_splits)
  then show ?thesis using f s by (fastforce simp: refs_ok_def RegInsert)
next
  case (Take b ids)
  have "set (AList.delete j rs) \<subseteq> set rs" for j and rs :: "(request_id \<times> request_entry) list"
    by (induction rs) auto
  then show ?thesis using f s
    by (cases ids) (fastforce simp: refs_ok_def Take dest: map_of_SomeD split: option.splits)+
qed (use f s in \<open>auto simp: refs_ok_def upd_counters_def publish_gauge_def\<close>)

lemma distinct_frame:
  "distinct (a @ x @ t @ y) \<Longrightarrow> distinct a' \<Longrightarrow> set a' \<union> set z \<subseteq> set a \<union> set t \<Longrightarrow> distinct z \<Longrightarrow> set a' \<inter> set z = {} \<Longrightarrow>
   distinct (a' @ x @ z @ y) \<and> set a' \<union> set (x @ z @ y) \<subseteq> set a \<union> set (x @ t @ y)"
  by auto

lemma ids_frame:
  assumes "ids_ok used r (xs @ th # ys)" and "distinct (map fst (al_requests r'))"
    and "fst ` set (al_requests r') \<union> set (concat (map registering zs)) \<subseteq> fst ` set (al_requests r) \<union> set (registering th)"
    and "distinct (concat (map registering zs))" and "fst ` set (al_requests r') \<inter> set (concat (map registering zs)) = {}"
  shows "ids_ok used r' (xs @ zs @ ys)"
  using assms distinct_frame [of "map fst (al_requests r)" "concat (map registering xs)" "registering th"
      "concat (map registering ys)" "map fst (al_requests r')" "concat (map registering zs)"]
  unfolding ids_ok_def map_append list.map concat_append concat.simps set_map by blast

lemma load_step_keeps_ids:
  assumes "load_step now th r = (nxt, r')" and "\<And>i e. th \<noteq> RegInsert i e" and "\<And>b ids. th \<noteq> Take b ids"
  shows "al_requests r' = al_requests r" and "concat (map registering (case nxt of None \<Rightarrow> [] | Some th' \<Rightarrow> [th'])) = registering th"
  using assms by (cases th; auto simp: upd_counters_def publish_gauge_def counters_for_def split: option.splits)+

lemma load_step_ids:
  assumes i: "ids_ok used r (xs @ th # ys)" and s: "load_step now th r = (nxt, r')"
  shows "ids_ok used r' (xs @ (case nxt of None \<Rightarrow> [] | Some th' \<Rightarrow> [th']) @ ys)"
proof -
  have d: "distinct (map fst (al_requests r))" "set (registering th) \<inter> fst ` set (al_requests r) = {}"
    using i by (auto simp: ids_ok_def)
  consider j e where "th = RegInsert j e" | b ids where "th = Take b ids" | "\<And>i e. th \<noteq> RegInsert i e" "\<And>b ids. th \<noteq> Take b ids"
    by blast
  then show ?thesis
  proof cases
    case (1 j e)
    then have "j \<notin> fst ` set (al_requests r)" using d(2) by simp
    then show ?thesis using d s 1 by (intro ids_frame [OF i]) (auto simp: update_fresh)
  next
    case (2 b ids)
    have "set (AList.delete j rs) \<subseteq> set rs" for j and rs :: "(request_id \<times> request_entry) list"
      by (induction rs) auto
    then show ?thesis
      using d s 2 by (intro ids_frame [OF i]; cases ids) (fastforce simp: distinct_delete split: option.splits)+
  next
    case 3
    then show ?thesis using i load_step_keeps_ids [OF s] by (simp add: ids_ok_def)
  qed
qed

definition load_inv :: "load_sys \<Rightarrow> bool" where
  "load_inv s \<longleftrightarrow> counts_ok (ls_registry s) (ls_threads s) \<and> refs_ok (ls_registry s) (ls_threads s) \<and>
     ids_ok (ls_used s) (ls_registry s) (ls_threads s)"

lemma load_init_inv: "load_inv (load_init timeout)"
  by (simp add: load_inv_def load_init_def active_load_new_def counts_ok_def refs_ok_def ids_ok_def)

lemma load_trans_inv:
  assumes "load_trans s s'" and "load_inv s"
  shows "load_inv s'"
  using assms
proof (cases rule: load_trans.cases)
  case (advance xs th ys now nxt r)
  then show ?thesis
    using assms(2) load_step_counts [of "ls_registry s" xs th ys "ls_used s" now nxt r]
      load_step_refs [of "ls_registry s" xs th ys now nxt r] load_step_ids [of "ls_used s" "ls_registry s" xs th ys now nxt r]
    by (simp add: load_inv_def)
next
  case (call_forget w)
  then show ?thesis using assms(2)
    by (auto simp: load_inv_def forget_worker_def counts_ok_def refs_ok_def ids_ok_def delete_conv' split: if_splits)
qed (auto simp: load_inv_def counts_ok_def refs_ok_def ids_ok_def guard_drop_def)

lemma load_reach_inv: "load_trans\<^sup>*\<^sup>* (load_init timeout) s \<Longrightarrow> load_inv s"
  by (induction rule: rtranclp_induct) (auto simp: load_init_inv intro: load_trans_inv)

section \<open>Properties\<close>

text \<open>
  (C38) The loads by which the router chooses workers are exact.  However registrations, dropped guards, sweeps of the
  janitor and removals of workers interleave, one atomic operation at a time, whenever no call is under way the prefill and
  decode load of a worker are the sums over the tracked requests that were registered since the worker was last
  forgotten; so no entry is subtracted twice or lost, and with no tracked request every counter, also one of a
  forgotten worker, is back to 0.
\<close>

theorem active_load_is_exact:
  assumes "load_trans\<^sup>*\<^sup>* (load_init timeout) s" and "ls_threads s = []"
  shows "prefill_load w (ls_registry s) = (\<Sum>(i, e)\<leftarrow>al_requests (ls_registry s).
        if map_of (al_workers (ls_registry s)) w = Some (re_counters e) then re_prefill_load e else 0) \<and>
    decode_load w (ls_registry s) = (\<Sum>(i, e)\<leftarrow>al_requests (ls_registry s).
        if map_of (al_workers (ls_registry s)) w = Some (re_counters e) then re_decode_load e else 0) \<and>
    (inflight_count (ls_registry s) = 0 \<longrightarrow>
      (\<forall>wc\<in>set (al_store (ls_registry s)). wc_prefill_load wc = 0 \<and> wc_decode_load wc = 0))"
proof -
  let ?r = "ls_registry s"
  have inv: "counts_ok ?r []" "refs_ok ?r []" using load_reach_inv [OF assms(1)] assms(2) by (simp_all add: load_inv_def)
  have eq: "counter k (al_store ?r ! c) = tracked k c (al_requests ?r)" if "c < length (al_store ?r)" for k c
    using inv(1) that by (simp add: counts_ok_def)
  have cur: "c < length (al_store ?r)" if "map_of (al_workers ?r) w = Some c" for c using inv(2) that by (simp add: refs_ok_def)
  have loads: "prefill_load w ?r = (\<Sum>(i, e)\<leftarrow>al_requests ?r.
        if map_of (al_workers ?r) w = Some (re_counters e) then re_prefill_load e else 0) \<and>
      decode_load w ?r = (\<Sum>(i, e)\<leftarrow>al_requests ?r.
        if map_of (al_workers ?r) w = Some (re_counters e) then re_decode_load e else 0)"
  proof (cases "map_of (al_workers ?r) w")
    case (Some c)
    have "tracked True c (al_requests ?r) = (\<Sum>(i, e)\<leftarrow>al_requests ?r. if Some c = Some (re_counters e) then re_prefill_load e else 0)"
      "tracked False c (al_requests ?r) = (\<Sum>(i, e)\<leftarrow>al_requests ?r. if Some c = Some (re_counters e) then re_decode_load e else 0)"
      by (simp_all add: tracked_def amount_def cong: if_cong)
    then show ?thesis
      using eq [OF cur [OF Some], of True] eq [OF cur [OF Some], of False]
      by (simp add: Some prefill_load_def decode_load_def counter_def)
  qed (simp add: prefill_load_def decode_load_def case_prod_beta')
  have "counter k wc = 0" if "inflight_count ?r = 0" "wc \<in> set (al_store ?r)" for k wc
    using that eq by (auto simp: inflight_count_def tracked_def in_set_conv_nth)
  from this [of _ True] this [of _ False] show ?thesis using loads by (simp add: counter_def)
qed

text \<open>Concrete runs: the newest thread advances.\<close>

definition advance_first :: "nat \<Rightarrow> load_sys \<Rightarrow> load_sys" where
  "advance_first now s =
     (case ls_threads s of
        [] \<Rightarrow> s
      | th # ys \<Rightarrow>
          (case load_step now th (ls_registry s) of
             (nxt, r) \<Rightarrow> s\<lparr> ls_registry := r, ls_threads := (case nxt of None \<Rightarrow> [] | Some th' \<Rightarrow> [th']) @ ys,
               ls_guards := (case th of RegInsert i e \<Rightarrow> insert i (ls_guards s) | _ \<Rightarrow> ls_guards s)\<rparr>))"

lemma advance_first_reach: "load_trans\<^sup>*\<^sup>* s0 s \<Longrightarrow> load_trans\<^sup>*\<^sup>* s0 (advance_first now s)"
  unfolding advance_first_def
  by (auto simp del: load_step.simps split: list.splits prod.splits intro: rtranclp.rtrancl_into_rtrancl
      load_trans.advance [where xs = "[]", simplified])

lemma advance_many_reach: "load_trans\<^sup>*\<^sup>* s0 s \<Longrightarrow> load_trans\<^sup>*\<^sup>* s0 ((advance_first now ^^ n) s)"
  by (induction n) (auto intro: advance_first_reach)

definition demo_register :: "request_id \<Rightarrow> u64 \<Rightarrow> load_sys \<Rightarrow> load_sys" where
  "demo_register i p s = (advance_first 0 ^^ 5)
     (s\<lparr>ls_threads := RegLookup i ''w'' ''http'' p 1 # ls_threads s, ls_used := insert i (ls_used s)\<rparr>)"

lemma demo_register_reach:
  "load_trans\<^sup>*\<^sup>* s0 s \<Longrightarrow> i \<notin> ls_used s \<Longrightarrow> load_trans\<^sup>*\<^sup>* s0 (demo_register i p s)"
  unfolding demo_register_def by (rule advance_many_reach, erule rtranclp.rtrancl_into_rtrancl, erule call_register)

lemma funpow5: "(f ^^ 5) x = f (f (f (f (f x))))"
  by (simp add: eval_nat_numeral)

lemmas load_eval = demo_register_def funpow5 advance_first_def load_init_def active_load_new_def counters_for_def
  upd_counters_def publish_gauge_def forget_worker_def prefill_load_def guard_drop_def

theorem active_load_is_exact_witness:
  fixes s :: load_sys
  defines "s \<equiv> demo_register 2 9 (demo_register 1 4 (load_init 6))"
  shows "load_trans\<^sup>*\<^sup>* (load_init 6) s \<and> ls_threads s = [] \<and> inflight_count (ls_registry s) = 2 \<and>
    prefill_load ''w'' (ls_registry s) = 13"
proof -
  have r: "load_trans\<^sup>*\<^sup>* (load_init 6) s"
    unfolding s_def by (rule demo_register_reach, rule demo_register_reach, rule rtranclp.rtrancl_refl)
      (simp_all add: load_eval)
  have e: "ls_threads s = []" "map snd (al_requests (ls_registry s)) =
      [\<lparr>re_worker = ''w'', re_worker_url = ''http'', re_counters = 0, re_prefill_load = 4, re_decode_load = 1, re_registered_at = 0\<rparr>,
       \<lparr>re_worker = ''w'', re_worker_url = ''http'', re_counters = 0, re_prefill_load = 9, re_decode_load = 1, re_registered_at = 0\<rparr>]"
      "map_of (al_workers (ls_registry s)) ''w'' = Some 0"
    unfolding s_def by (simp_all add: load_eval)
  have n: "inflight_count (ls_registry s) = 2" using arg_cong [OF e(2), of length] by (simp add: inflight_count_def)
  obtain a b where q: "al_requests (ls_registry s) = [a, b]" using n by (auto simp: inflight_count_def length_Suc_conv eval_nat_numeral)
  show ?thesis using r e n active_load_is_exact [OF r e(1), of "''w''"] by (cases a; cases b) (simp add: q)
qed

text \<open>
  The gauge is keyed by the url while the counters belong to one registration of the worker: dropping a guard from before
  \<open>forget_worker\<close> overwrites the gauge of the worker that has come back.
\<close>

lemma forgotten_guard_overwrites_gauge:
  fixes s1 s2 s3 :: load_sys
  defines "s1 \<equiv> demo_register 1 4 (load_init 6)"
    and "s2 \<equiv> demo_register 2 9 (s1\<lparr>ls_registry := forget_worker ''w'' (ls_registry s1)\<rparr>)"
    and "s3 \<equiv> (advance_first 1 ^^ 5) (s2\<lparr>ls_threads := guard_drop 1 # ls_threads s2, ls_guards := ls_guards s2 - {1}\<rparr>)"
  shows "load_trans\<^sup>*\<^sup>* (load_init 6) s3 \<and> ls_threads s3 = [] \<and> prefill_load ''w'' (ls_registry s3) = 9 \<and>
    map_of (al_gauge (ls_registry s3)) ''http'' = Some (0, 0)"
proof -
  have "load_trans\<^sup>*\<^sup>* (load_init 6) s1" unfolding s1_def by (rule demo_register_reach) (simp_all add: load_init_def)
  then have "load_trans\<^sup>*\<^sup>* (load_init 6) (s1\<lparr>ls_registry := forget_worker ''w'' (ls_registry s1)\<rparr>)"
    by (rule rtranclp.rtrancl_into_rtrancl) (rule call_forget)
  then have "load_trans\<^sup>*\<^sup>* (load_init 6) s2"
    unfolding s2_def s1_def by (rule demo_register_reach) (simp add: load_eval)
  moreover have "1 \<in> ls_guards s2" unfolding s2_def s1_def by (simp add: load_eval)
  ultimately have r: "load_trans\<^sup>*\<^sup>* (load_init 6) s3"
    unfolding s3_def by (intro advance_many_reach) (erule rtranclp.rtrancl_into_rtrancl, erule call_drop)
  have "ls_threads s3 = [] \<and> prefill_load ''w'' (ls_registry s3) = 9 \<and> map_of (al_gauge (ls_registry s3)) ''http'' = Some (0, 0)"
    unfolding s3_def s2_def s1_def by (simp add: load_eval)
  with r show ?thesis by blast
qed

end
