(* ===== verification/Circuit_Breaker.thy ===== *)
theory Circuit_Breaker
  imports Sgl_Prelude
begin

text \<open>
  The circuit breaker of a worker, \<open>crates/sglang-router/src/health/circuit_breaker.rs\<close>.  The state is behind a mutex, so
  each call is one step; the time a call reads from the clock is its argument \<open>now\<close>, in the unit of \<open>cool_down\<close>, and
  an elapsed time saturates at 0 as \<open>Instant::elapsed\<close> does.
\<close>

section \<open>Definitions\<close>

record circuit_breaker_config =
  cb_threshold :: u32
  cb_cool_down :: nat

definition default_breaker_config :: circuit_breaker_config where
  "default_breaker_config = \<lparr> cb_threshold = 3, cb_cool_down = 30 \<rparr>"

datatype breaker_state =
  Closed
| Open nat
| HalfOpen bool

record circuit_breaker =
  cb_state :: breaker_state
  cb_consecutive_failures :: u32
  cb_config :: circuit_breaker_config

definition breaker_with_config :: "circuit_breaker_config \<Rightarrow> circuit_breaker" where
  "breaker_with_config config = \<lparr> cb_state = Closed, cb_consecutive_failures = 0, cb_config = config \<rparr>"

definition breaker_new :: circuit_breaker where
  "breaker_new = breaker_with_config default_breaker_config"

definition would_allow :: "nat \<Rightarrow> circuit_breaker \<Rightarrow> bool" where
  "would_allow now b =
     (case cb_state b of
        Closed \<Rightarrow> True
      | Open opened_at \<Rightarrow> now - opened_at \<ge> cb_cool_down (cb_config b)
      | HalfOpen probe_in_flight \<Rightarrow> \<not> probe_in_flight)"

definition allow :: "nat \<Rightarrow> circuit_breaker \<Rightarrow> bool \<times> circuit_breaker" where
  "allow now b =
     (case cb_state b of
        Closed \<Rightarrow> (True, b)
      | Open opened_at \<Rightarrow>
          (if now - opened_at \<ge> cb_cool_down (cb_config b) then (True, b\<lparr>cb_state := HalfOpen True\<rparr>) else (False, b))
      | HalfOpen probe_in_flight \<Rightarrow>
          (if probe_in_flight then (False, b) else (True, b\<lparr>cb_state := HalfOpen True\<rparr>)))"

definition record_success :: "circuit_breaker \<Rightarrow> circuit_breaker" where
  "record_success b = b\<lparr>cb_consecutive_failures := 0, cb_state := Closed\<rparr>"

definition record_failure :: "nat \<Rightarrow> circuit_breaker \<Rightarrow> circuit_breaker" where
  "record_failure now b =
     (case cb_state b of
        Open _ \<Rightarrow> b
      | _ \<Rightarrow>
          (let b' = b\<lparr>cb_consecutive_failures := cb_consecutive_failures b + 1\<rparr>
           in if cb_consecutive_failures b' \<ge> cb_threshold (cb_config b) then b'\<lparr>cb_state := Open now\<rparr> else b'))"

section \<open>Runs\<close>

datatype breaker_event =
  Admit nat
| Succeeded
| Failed nat

fun breaker_step :: "breaker_event \<Rightarrow> circuit_breaker \<Rightarrow> circuit_breaker" where
  "breaker_step (Admit now) b = snd (allow now b)"
| "breaker_step Succeeded b = record_success b"
| "breaker_step (Failed now) b = record_failure now b"

text \<open>The answers of \<open>allow\<close> along a run.\<close>

fun admissions :: "breaker_event list \<Rightarrow> circuit_breaker \<Rightarrow> bool list" where
  "admissions [] b = []"
| "admissions (Admit now # es) b = fst (allow now b) # admissions es (snd (allow now b))"
| "admissions (e # es) b = admissions es (breaker_step e b)"

fun is_failed :: "breaker_event \<Rightarrow> bool" where
  "is_failed (Failed now) = True"
| "is_failed e = False"

definition breaker_inv :: "circuit_breaker_config \<Rightarrow> nat \<Rightarrow> circuit_breaker \<Rightarrow> bool" where
  "breaker_inv cfg k b \<longleftrightarrow> cb_config b = cfg \<and> unat (cb_consecutive_failures b) \<le> k \<and>
     (cb_state b = Closed \<longleftrightarrow> cb_consecutive_failures b < cb_threshold cfg)"

lemma allow_inv: "breaker_inv cfg k b \<Longrightarrow> breaker_inv cfg k (snd (allow now b))"
  by (cases "cb_state b") (auto simp: breaker_inv_def allow_def)

lemma record_failure_inv:
  assumes "breaker_inv cfg k b" and "Suc k < 2 ^ 32"
  shows "breaker_inv cfg (Suc k) (record_failure now b)"
proof -
  let ?f = "cb_consecutive_failures b"
  have f: "unat ?f + 1 < 2 ^ 32" using assms by (simp add: breaker_inv_def)
  then have s: "unat (?f + 1) = unat ?f + 1" by (simp add: unat_word_ariths)
  have "?f < cb_threshold cfg" if "?f + 1 < cb_threshold cfg" using that s by (simp add: word_less_nat_alt)
  then have "cb_threshold cfg \<le> ?f + 1" if "cb_threshold cfg \<le> ?f" using that by (meson not_le)
  then show ?thesis using assms s
    by (cases "cb_state b") (auto simp: breaker_inv_def record_failure_def Let_def not_less)
qed

lemma breaker_run_inv:
  assumes "breaker_inv cfg k b" and "k + length (filter is_failed es) < 2 ^ 32" and "0 < cb_threshold cfg"
  shows "breaker_inv cfg (k + length (filter is_failed es)) (fold breaker_step es b)"
  using assms(1,2)
proof (induction es arbitrary: b k)
  case (Cons e es)
  show ?case
  proof (cases e)
    case (Failed now)
    then show ?thesis
      using Cons.IH [of "Suc k" "record_failure now b"] Cons.prems record_failure_inv [of cfg k b now] by simp
  next
    case (Admit now)
    then show ?thesis using Cons allow_inv [of cfg k b now] by simp
  next
    case Succeeded
    have "breaker_inv cfg k (record_success b)"
      using Cons.prems assms(3) by (simp add: breaker_inv_def record_success_def)
    then show ?thesis using Cons Succeeded by simp
  qed
qed simp

lemma probe_blocks: "cb_state b = HalfOpen True \<Longrightarrow> (\<forall>e\<in>set es. \<exists>t. e = Admit t) \<Longrightarrow> True \<notin> set (admissions es b)"
  by (induction es) (auto simp: allow_def)

lemma open_blocks:
  "cb_state b = Open t0 \<Longrightarrow> (\<forall>e\<in>set es. \<exists>t. (e = Admit t \<or> e = Failed t) \<and> t - t0 < cb_cool_down (cb_config b)) \<Longrightarrow>
   True \<notin> set (admissions es b)"
proof (induction es)
  case (Cons e es)
  then obtain t where "e = Admit t \<or> e = Failed t" "t - t0 < cb_cool_down (cb_config b)" by auto
  then show ?case using Cons by (auto simp: allow_def record_failure_def)
qed simp

section \<open>Properties\<close>

text \<open>
  (C40) The circuit breaker of a worker, after any calls with fewer than \<open>2 ^ 32\<close> failures: it is closed exactly while fewer than
  \<open>threshold\<close> failures in a row have been recorded; a failure that reaches the threshold, or the failure of a probe,
  opens it at that time; while open it admits nothing until \<open>cool_down\<close> has passed, failures of late requests notwithstanding;
  then it admits one probe and nothing more until a result is recorded; \<open>would_allow\<close> predicts \<open>allow\<close> and changes nothing.
\<close>

theorem breaker_admits_one_probe:
  assumes "0 < cb_threshold cfg" and "length (filter is_failed es) + 1 < 2 ^ 32"
  defines "b \<equiv> fold breaker_step es (breaker_with_config cfg)"
  shows "would_allow now b = fst (allow now b) \<and>
    (cb_state b = Closed \<longleftrightarrow> cb_consecutive_failures b < cb_threshold cfg) \<and>
    (cb_state b = Closed \<and> cb_consecutive_failures b + 1 = cb_threshold cfg \<longrightarrow> cb_state (record_failure now b) = Open now) \<and>
    (\<forall>p. cb_state b = HalfOpen p \<longrightarrow> cb_state (record_failure now b) = Open now) \<and>
    (\<forall>t0 later. cb_state b = Open t0 \<and>
      (\<forall>e\<in>set later. \<exists>t. (e = Admit t \<or> e = Failed t) \<and> t - t0 < cb_cool_down cfg) \<longrightarrow> True \<notin> set (admissions later b)) \<and>
    (\<forall>later. cb_state b \<noteq> Closed \<and> fst (allow now b) \<and> (\<forall>e\<in>set later. \<exists>t. e = Admit t) \<longrightarrow>
      True \<notin> set (admissions later (snd (allow now b))))"
proof -
  have "breaker_inv cfg 0 (breaker_with_config cfg)" using assms(1) by (simp add: breaker_inv_def breaker_with_config_def)
  then have i: "breaker_inv cfg (length (filter is_failed es)) b"
    using breaker_run_inv [of cfg 0 "breaker_with_config cfg" es] assms(1,2) by (simp add: b_def)
  have c: "cb_config b = cfg" using i by (simp add: breaker_inv_def)
  have f: "cb_state (record_failure now b) = Open now" if "cb_state b = HalfOpen p" for p
    using record_failure_inv [OF i, of now] assms(2) that
    by (auto simp: breaker_inv_def record_failure_def Let_def split: if_splits)
  have p: "cb_state (snd (allow now b)) = HalfOpen True" if "cb_state b \<noteq> Closed" "fst (allow now b)"
    using that by (cases "cb_state b") (auto simp: allow_def split: if_splits)
  show ?thesis
  proof (intro conjI allI impI)
    show "would_allow now b = fst (allow now b)" by (simp add: would_allow_def allow_def split: breaker_state.splits)
    show "(cb_state b = Closed) = (cb_consecutive_failures b < cb_threshold cfg)" using i by (simp add: breaker_inv_def)
    show "cb_state (record_failure now b) = Open now"
      if "cb_state b = Closed \<and> cb_consecutive_failures b + 1 = cb_threshold cfg"
      using that c by (simp add: record_failure_def Let_def)
  qed (use f p probe_blocks open_blocks c in \<open>blast+\<close>)
qed

theorem breaker_admits_one_probe_witness:
  fixes es :: "breaker_event list" and b :: circuit_breaker
  defines "es \<equiv> [Failed 1, Failed 2, Failed 3, Failed 4]" and "b \<equiv> fold breaker_step es breaker_new"
  shows "0 < cb_threshold default_breaker_config \<and> length (filter is_failed es) + 1 < 2 ^ 32 \<and> cb_state b = Open 3 \<and>
    fst (allow 33 b) \<and> True \<notin> set (admissions [Admit 34, Admit 1000] (snd (allow 33 b)))"
proof -
  have p: "0 < cb_threshold default_breaker_config" "length (filter is_failed es) + 1 < 2 ^ 32"
    by (simp_all add: default_breaker_config_def es_def)
  have s: "cb_state b = Open 3" "cb_config b = default_breaker_config"
    by (simp_all add: b_def es_def breaker_new_def breaker_with_config_def record_failure_def default_breaker_config_def
        Let_def word_le_nat_alt)
  then have a: "fst (allow 33 b)" by (simp add: allow_def default_breaker_config_def)
  have "True \<notin> set (admissions [Admit 34, Admit 1000] (snd (allow 33 b)))"
    using breaker_admits_one_probe [OF p, of 33, folded breaker_new_def, folded b_def] s(1) a
    by (elim conjE allE [where x = "[Admit 34, Admit 1000]"]) simp
  then show ?thesis using p s a by blast
qed

text \<open>A probe whose result is never recorded keeps the worker out for ever.\<close>

lemma abandoned_probe_blocks_worker:
  assumes "cb_state b = HalfOpen True" and "\<forall>e\<in>set es. \<exists>t. e = Admit t"
  shows "\<not> would_allow now (fold breaker_step es b)"
proof -
  have "fold breaker_step es b = b" using assms by (induction es) (auto simp: allow_def)
  then show ?thesis using assms(1) by (simp add: would_allow_def)
qed

end
