(* ===== verification/Router_Workers.thy ===== *)
theory Router_Workers
  imports Circuit_Breaker Block_Index
begin

text \<open>
  The workers of the router: \<open>crates/sglang-router/src/workers/worker.rs\<close>, the registry (\<open>workers/registry.rs\<close>), the events of
  the worker manager (\<open>workers/manager.rs\<close>) and the split into prefill and decode pools (\<open>policies/registry.rs\<close>).
  Writers of the registry hold one lock, so its operations are atomic.  The order in which a hash set is iterated is the argument
  \<open>ord\<close>, the clock the argument \<open>now\<close>, and the host part of a url, which the \<open>url\<close> package parses, the argument \<open>host_str\<close>.
\<close>

section \<open>Workers\<close>

datatype worker_mode =
  ModePlain
| ModePrefill
| ModeDecode

definition mode_as_u8 :: "worker_mode \<Rightarrow> u8" where
  "mode_as_u8 m = (case m of ModePlain \<Rightarrow> 0 | ModePrefill \<Rightarrow> 1 | ModeDecode \<Rightarrow> 2)"

definition mode_from_u8 :: "u8 \<Rightarrow> ('e, worker_mode) outcome" where
  "mode_from_u8 v = (if v = 0 then Ok ModePlain else if v = 1 then Ok ModePrefill else if v = 2 then Ok ModeDecode else Panic)"

record worker_spec =
  sp_id :: string
  sp_url :: string
  sp_mode :: worker_mode
  sp_model_ids :: "string list"
  sp_bootstrap_port :: "16 word option"

record kv_cache_layout_info =
  li_dtype :: string
  li_page_size :: u64
  li_num_layers :: u64
  li_kv_heads :: u64
  li_head_dim :: u64
  li_kv_tensors_per_token :: u64
  li_bytes_per_token :: u64
  li_page_size_bytes :: u64

record router_worker =
  rw_id :: string
  rw_url :: string
  rw_mode :: worker_mode
  rw_model_ids :: "string list"
  rw_breaker :: circuit_breaker
  rw_active_requests :: usize
  rw_bootstrap_host :: string
  rw_bootstrap_port :: "16 word option"
  rw_kv_cache_layout :: "kv_cache_layout_info option"

fun contains_sub :: "string \<Rightarrow> string \<Rightarrow> bool" where
  "contains_sub pat [] = (pat = [])"
| "contains_sub pat (c # cs) = (take (length pat) (c # cs) = pat \<or> contains_sub pat cs)"

definition parse_bootstrap_host :: "(string \<Rightarrow> string option) \<Rightarrow> string \<Rightarrow> string" where
  "parse_bootstrap_host host_str url =
     (case host_str url of
        Some h \<Rightarrow> h
      | None \<Rightarrow>
          (if contains_sub ''://'' url then ''localhost''
           else case host_str (''http://'' @ url) of Some h \<Rightarrow> h | None \<Rightarrow> ''localhost''))"

definition with_cb_config_and_kv_cache_layout ::
  "(string \<Rightarrow> string option) \<Rightarrow> worker_spec \<Rightarrow> circuit_breaker_config option \<Rightarrow> kv_cache_layout_info option \<Rightarrow> router_worker" where
  "with_cb_config_and_kv_cache_layout host_str spec cb layout =
     \<lparr> rw_id = sp_id spec, rw_url = sp_url spec, rw_mode = sp_mode spec, rw_model_ids = sp_model_ids spec,
       rw_breaker = (case cb of Some cfg \<Rightarrow> breaker_with_config cfg | None \<Rightarrow> breaker_new),
       rw_active_requests = 0, rw_bootstrap_host = parse_bootstrap_host host_str (sp_url spec),
       rw_bootstrap_port = sp_bootstrap_port spec, rw_kv_cache_layout = layout \<rparr>"

definition set_mode :: "worker_mode \<Rightarrow> router_worker \<Rightarrow> router_worker" where
  "set_mode m w = w\<lparr>rw_mode := m\<rparr>"

definition load_guard :: "router_worker \<Rightarrow> router_worker" where
  "load_guard w = w\<lparr>rw_active_requests := rw_active_requests w + 1\<rparr>"

definition load_guard_drop :: "router_worker \<Rightarrow> router_worker" where
  "load_guard_drop w = w\<lparr>rw_active_requests := rw_active_requests w - 1\<rparr>"

section \<open>The registry\<close>

datatype add_worker_error = MixedPdAndPlain string string string

record worker_registry =
  wr_by_id :: "(string \<times> router_worker) list"
  wr_by_model :: "(string \<times> string list) list"

definition registry_empty :: worker_registry where
  "registry_empty = \<lparr> wr_by_id = [], wr_by_model = [] \<rparr>"

definition modes_are_mixed :: "worker_mode \<Rightarrow> worker_mode \<Rightarrow> bool" where
  "modes_are_mixed a b \<longleftrightarrow> (a = ModePlain) \<noteq> (b = ModePlain)"

definition mode_name :: "worker_mode \<Rightarrow> string" where
  "mode_name m = (case m of ModePlain \<Rightarrow> ''plain'' | ModePrefill \<Rightarrow> ''prefill'' | ModeDecode \<Rightarrow> ''decode'')"

definition workers_for :: "(string list \<Rightarrow> string list) \<Rightarrow> worker_registry \<Rightarrow> string \<Rightarrow> router_worker list" where
  "workers_for ord reg model =
     (case map_of (wr_by_model reg) model of
        None \<Rightarrow> []
      | Some ids \<Rightarrow> List.map_filter (map_of (wr_by_id reg)) (ord ids))"

definition remove_from_models :: "string \<Rightarrow> string list \<Rightarrow> (string \<times> string list) list \<Rightarrow> (string \<times> string list) list" where
  "remove_from_models i models bm =
     fold (\<lambda>m bm. case map_of bm m of None \<Rightarrow> bm | Some ids \<Rightarrow> AList.update m (removeAll i ids) bm) models bm"

definition remove_locked :: "string \<Rightarrow> worker_registry \<Rightarrow> worker_registry" where
  "remove_locked i reg =
     (case map_of (wr_by_id reg) i of
        None \<Rightarrow> reg
      | Some w \<Rightarrow>
          \<lparr> wr_by_id = AList.delete i (wr_by_id reg), wr_by_model = remove_from_models i (rw_model_ids w) (wr_by_model reg) \<rparr>)"

definition insert_into_models :: "string \<Rightarrow> string list \<Rightarrow> (string \<times> string list) list \<Rightarrow> (string \<times> string list) list" where
  "insert_into_models i models bm =
     fold (\<lambda>m bm. case map_of bm m of
                    None \<Rightarrow> AList.update m [i] bm
                  | Some ids \<Rightarrow> AList.update m (List.insert i ids) bm) models bm"

text \<open>\<open>add_with_cb_and_kv_cache_layout\<close>: the first model with a conflicting worker, or the registry with the worker.\<close>

definition registry_add ::
  "(string list \<Rightarrow> string list) \<Rightarrow> (string \<Rightarrow> string option) \<Rightarrow> worker_spec \<Rightarrow> circuit_breaker_config option \<Rightarrow>
   kv_cache_layout_info option \<Rightarrow> worker_registry \<Rightarrow> (add_worker_error, worker_registry) outcome" where
  "registry_add ord host_str spec cb layout reg =
     (case find (\<lambda>m. list_ex (\<lambda>w. rw_id w \<noteq> sp_id spec \<and> modes_are_mixed (sp_mode spec) (rw_mode w)) (workers_for ord reg m))
             (sp_model_ids spec) of
        Some m \<Rightarrow> Err (MixedPdAndPlain (sp_id spec) m (mode_name (sp_mode spec)))
      | None \<Rightarrow>
          (let w = with_cb_config_and_kv_cache_layout host_str spec cb layout;
               reg1 = remove_locked (rw_id w) reg
           in Ok \<lparr> wr_by_id = AList.update (rw_id w) w (wr_by_id reg1),
                   wr_by_model = insert_into_models (rw_id w) (rw_model_ids w) (wr_by_model reg1) \<rparr>))"

definition healthy_workers_for :: "(string list \<Rightarrow> string list) \<Rightarrow> nat \<Rightarrow> worker_registry \<Rightarrow> string \<Rightarrow> router_worker list" where
  "healthy_workers_for ord now reg model = filter (\<lambda>w. would_allow now (rw_breaker w)) (workers_for ord reg model)"

definition workers_for_mode :: "(string list \<Rightarrow> string list) \<Rightarrow> worker_registry \<Rightarrow> string \<Rightarrow> worker_mode \<Rightarrow> router_worker list" where
  "workers_for_mode ord reg model mode = filter (\<lambda>w. rw_mode w = mode) (workers_for ord reg model)"

text \<open>What the manager does for \<open>ModeChanged\<close>: the worker in the registry changes in place.\<close>

definition registry_mode_changed :: "string \<Rightarrow> worker_mode \<Rightarrow> worker_registry \<Rightarrow> worker_registry" where
  "registry_mode_changed i m reg =
     (case map_of (wr_by_id reg) i of
        None \<Rightarrow> reg
      | Some w \<Rightarrow> reg\<lparr>wr_by_id := AList.update i (set_mode m w) (wr_by_id reg)\<rparr>)"

section \<open>Pools\<close>

datatype pd_pools =
  PlainPool "router_worker list"
| PdPool "router_worker list" "router_worker list"

datatype pd_resolve_error =
  NoHealthyWorkers
| NoPrefillWorkersAvailable
| NoDecodeWorkersAvailable

definition pd_resolve ::
  "(string list \<Rightarrow> string list) \<Rightarrow> nat \<Rightarrow> worker_registry \<Rightarrow> string \<Rightarrow> (pd_resolve_error, pd_pools) outcome" where
  "pd_resolve ord now reg model =
     (let healthy = healthy_workers_for ord now reg model
      in if healthy = []
         then (if list_ex (\<lambda>w. rw_mode w = ModePrefill \<or> rw_mode w = ModeDecode) (workers_for ord reg model)
               then Ok (PdPool [] []) else Err NoHealthyWorkers)
         else
           let prefill = filter (\<lambda>w. rw_mode w = ModePrefill) healthy;
               decode = filter (\<lambda>w. rw_mode w = ModeDecode) healthy;
               plain = filter (\<lambda>w. rw_mode w = ModePlain) healthy
           in if prefill \<noteq> [] \<or> decode \<noteq> [] then Ok (PdPool prefill decode) else Ok (PlainPool plain))"

definition prefill_candidates ::
  "(string list \<Rightarrow> string list) \<Rightarrow> nat \<Rightarrow> worker_registry \<Rightarrow> string \<Rightarrow> (pd_resolve_error, router_worker list) outcome" where
  "prefill_candidates ord now reg model =
     (case pd_resolve ord now reg model of
        Ok (PlainPool ws) \<Rightarrow> Ok ws
      | Ok (PdPool prefill decode) \<Rightarrow> (if prefill = [] then Err NoPrefillWorkersAvailable else Ok prefill)
      | Err e \<Rightarrow> Err e
      | Panic \<Rightarrow> Panic)"

definition decode_candidates ::
  "(string list \<Rightarrow> string list) \<Rightarrow> nat \<Rightarrow> worker_registry \<Rightarrow> string \<Rightarrow> (pd_resolve_error, router_worker list) outcome" where
  "decode_candidates ord now reg model =
     (case pd_resolve ord now reg model of
        Ok (PlainPool ws) \<Rightarrow> Ok ws
      | Ok (PdPool prefill decode) \<Rightarrow> (if decode = [] then Err NoDecodeWorkersAvailable else Ok decode)
      | Err e \<Rightarrow> Err e
      | Panic \<Rightarrow> Panic)"

text \<open>\<open>tolerate\<close> is the \<open>f64\<close> computation of twice the median load, rounded up.\<close>

definition load_tolerance :: "(usize \<Rightarrow> usize) \<Rightarrow> router_worker list \<Rightarrow> usize" where
  "load_tolerance tolerate healthy =
     (if healthy = [] then 0
      else let loads = sort (map rw_active_requests healthy) in tolerate (loads ! (length loads div 2)))"

definition select_decode_with_affinity ::
  "(string \<Rightarrow> string option) \<Rightarrow> (usize \<Rightarrow> usize) \<Rightarrow> nat \<Rightarrow> string \<Rightarrow> router_worker list \<Rightarrow> router_worker option" where
  "select_decode_with_affinity host_str tolerate now prefill_url candidates =
     (if candidates = [] then None
      else
        let healthy = filter (\<lambda>w. would_allow now (rw_breaker w)) candidates;
            tol = load_tolerance tolerate healthy;
            peer = (case host_str prefill_url of
                      None \<Rightarrow> None
                    | Some host \<Rightarrow>
                        find (\<lambda>w. host_str (rw_url w) = Some host \<and> (tol = 0 \<or> rw_active_requests w \<le> tol)) healthy)
        in case peer of
             Some w \<Rightarrow> Some w
           | None \<Rightarrow>
               (case min_by_key rw_active_requests healthy of
                  Some w \<Rightarrow> Some w
                | None \<Rightarrow> min_by_key rw_active_requests candidates))"

definition kv_layout_compatible :: "router_worker \<Rightarrow> router_worker \<Rightarrow> bool" where
  "kv_layout_compatible prefill decode =
     (case (rw_kv_cache_layout prefill, rw_kv_cache_layout decode) of
        (Some p, Some d) \<Rightarrow> p = d
      | _ \<Rightarrow> True)"

definition decode_with_affinity ::
  "(string list \<Rightarrow> string list) \<Rightarrow> (string \<Rightarrow> string option) \<Rightarrow> (usize \<Rightarrow> usize) \<Rightarrow> nat \<Rightarrow> worker_registry \<Rightarrow> string \<Rightarrow> string \<Rightarrow>
   (pd_resolve_error, router_worker) outcome" where
  "decode_with_affinity ord host_str tolerate now reg model prefill_url =
     (case decode_candidates ord now reg model of
        Ok candidates \<Rightarrow>
          (case select_decode_with_affinity host_str tolerate now prefill_url candidates of
             Some w \<Rightarrow> Ok w
           | None \<Rightarrow> Err NoDecodeWorkersAvailable)
      | Err e \<Rightarrow> Err e
      | Panic \<Rightarrow> Panic)"

definition decode_with_affinity_for_prefill ::
  "(string list \<Rightarrow> string list) \<Rightarrow> (string \<Rightarrow> string option) \<Rightarrow> (usize \<Rightarrow> usize) \<Rightarrow> nat \<Rightarrow> worker_registry \<Rightarrow> string \<Rightarrow> router_worker \<Rightarrow>
   (pd_resolve_error, router_worker) outcome" where
  "decode_with_affinity_for_prefill ord host_str tolerate now reg model prefill =
     (case decode_candidates ord now reg model of
        Ok candidates \<Rightarrow>
          (case select_decode_with_affinity host_str tolerate now (rw_url prefill) (filter (kv_layout_compatible prefill) candidates) of
             Some w \<Rightarrow> Ok w
           | None \<Rightarrow> Err NoDecodeWorkersAvailable)
      | Err e \<Rightarrow> Err e
      | Panic \<Rightarrow> Panic)"

section \<open>Discovery events\<close>

datatype discovery_event =
  Added worker_spec
| Removed string
| ModeChanged string worker_mode

datatype disaggregation_role =
  RolePlain
| RolePrefill "16 word"
| RoleDecode

text \<open>What the introspection of a worker found out, apart from its event publisher.\<close>

record worker_info =
  wi_served_model_name :: "string option"
  wi_disaggregation_role :: "disaggregation_role option"
  wi_kv_cache_layout :: "kv_cache_layout_info option"

text \<open>\<open>register_one\<close> up to the registration: what the worker says of itself overrides what discovery says.\<close>

definition resolve_spec :: "worker_info \<Rightarrow> worker_spec \<Rightarrow> worker_spec" where
  "resolve_spec info spec =
     (let spec1 = (case wi_served_model_name info of None \<Rightarrow> spec | Some name \<Rightarrow> spec\<lparr>sp_model_ids := [name]\<rparr>)
      in case wi_disaggregation_role info of
           None \<Rightarrow> spec1
         | Some role \<Rightarrow>
             (let (mode, port) = (case role of RolePlain \<Rightarrow> (ModePlain, None) | RolePrefill p \<Rightarrow> (ModePrefill, Some p)
                                   | RoleDecode \<Rightarrow> (ModeDecode, None))
              in if (mode, port) \<noteq> (sp_mode spec1, sp_bootstrap_port spec1)
                 then spec1\<lparr>sp_mode := mode, sp_bootstrap_port := port\<rparr> else spec1))"

text \<open>
  The part of the manager that changes the registry, the events in the order in which they take its lock; a refused
  registration leaves it alone.  \<open>info\<close> is the introspection of a url, \<open>cb\<close> the configured breaker of a worker.
\<close>

fun manager_apply ::
  "(string \<Rightarrow> string option) \<Rightarrow> (worker_spec \<Rightarrow> circuit_breaker_config option) \<Rightarrow> (string \<Rightarrow> worker_info) \<Rightarrow>
   (string list \<Rightarrow> string list) \<times> discovery_event \<Rightarrow> worker_registry \<Rightarrow> worker_registry" where
  "manager_apply host_str cb info (ord, Added spec) reg =
     (let spec1 = resolve_spec (info (sp_url spec)) spec
      in case registry_add ord host_str spec1 (cb spec1) (wi_kv_cache_layout (info (sp_url spec))) reg of
           Ok reg' \<Rightarrow> reg'
         | Err _ \<Rightarrow> reg
         | Panic \<Rightarrow> reg)"
| "manager_apply host_str cb info (ord, Removed i) reg = remove_locked i reg"
| "manager_apply host_str cb info (ord, ModeChanged i m) reg = registry_mode_changed i m reg"

section \<open>The index by model\<close>

definition ids_for :: "(string \<times> string list) list \<Rightarrow> string \<Rightarrow> string set" where
  "ids_for bm m = (case map_of bm m of None \<Rightarrow> {} | Some ids \<Rightarrow> set ids)"

lemma ids_for_remove: "ids_for (remove_from_models i models bm) m = (if m \<in> set models then ids_for bm m - {i} else ids_for bm m)"
  unfolding remove_from_models_def
  by (induction models arbitrary: bm) (auto simp: ids_for_def update_conv' split: option.splits)

lemma ids_for_insert: "ids_for (insert_into_models i models bm) m = (if m \<in> set models then insert i (ids_for bm m) else ids_for bm m)"
  unfolding insert_into_models_def
  by (induction models arbitrary: bm) (auto simp: ids_for_def update_conv' split: option.splits if_splits)

definition registry_inv :: "worker_registry \<Rightarrow> bool" where
  "registry_inv reg \<longleftrightarrow>
     (\<forall>i w. map_of (wr_by_id reg) i = Some w \<longrightarrow> rw_id w = i) \<and>
     (\<forall>m i. i \<in> ids_for (wr_by_model reg) m \<longleftrightarrow> (\<exists>w. map_of (wr_by_id reg) i = Some w \<and> m \<in> set (rw_model_ids w)))"

text \<open>The workers that serve a model, straight from the map by id.\<close>

definition serving :: "worker_registry \<Rightarrow> string \<Rightarrow> router_worker set" where
  "serving reg m = {w. m \<in> set (rw_model_ids w) \<and> (\<exists>i. map_of (wr_by_id reg) i = Some w)}"

definition unmixed :: "worker_registry \<Rightarrow> bool" where
  "unmixed reg \<longleftrightarrow> (\<forall>m. \<forall>v\<in>serving reg m. \<forall>w\<in>serving reg m. \<not> modes_are_mixed (rw_mode v) (rw_mode w))"

lemma set_map_filter: "set (List.map_filter f xs) = {y. \<exists>x\<in>set xs. f x = Some y}"
  by (induction xs) (auto simp: map_filter_simps split: option.splits)

lemma workers_for_set:
  assumes "hash_order ord" and "registry_inv reg"
  shows "set (workers_for ord reg m) = serving reg m"
proof -
  have "set (workers_for ord reg m) = {w. \<exists>i\<in>ids_for (wr_by_model reg) m. map_of (wr_by_id reg) i = Some w}"
    using hash_order_set [OF assms(1)]
    by (auto simp: workers_for_def ids_for_def set_map_filter split: option.splits)
  then show ?thesis using assms(2) by (auto simp: registry_inv_def serving_def)
qed

lemma remove_locked_inv: "registry_inv reg \<Longrightarrow> registry_inv (remove_locked i reg)"
  unfolding registry_inv_def remove_locked_def
  by (auto simp: ids_for_remove delete_conv' split: option.splits if_splits)

lemma serving_remove: "registry_inv reg \<Longrightarrow> serving (remove_locked i reg) m = {w \<in> serving reg m. rw_id w \<noteq> i}"
  by (auto simp: serving_def remove_locked_def registry_inv_def delete_conv' split: option.splits if_splits)

lemma new_worker_fields:
  "rw_id (with_cb_config_and_kv_cache_layout h spec cb l) = sp_id spec"
  "rw_mode (with_cb_config_and_kv_cache_layout h spec cb l) = sp_mode spec"
  "rw_model_ids (with_cb_config_and_kv_cache_layout h spec cb l) = sp_model_ids spec"
  by (simp_all add: with_cb_config_and_kv_cache_layout_def)

lemma map_of_removed: "map_of (wr_by_id (remove_locked i reg)) = (map_of (wr_by_id reg))(i := None)"
  by (auto simp: remove_locked_def delete_conv' fun_eq_iff split: option.splits)

definition conflicts :: "worker_registry \<Rightarrow> worker_spec \<Rightarrow> bool" where
  "conflicts reg spec \<longleftrightarrow> (\<exists>m\<in>set (sp_model_ids spec). \<exists>w\<in>serving reg m.
     rw_id w \<noteq> sp_id spec \<and> modes_are_mixed (sp_mode spec) (rw_mode w))"

lemma registry_add_cases:
  assumes "hash_order ord" and "registry_inv reg"
  shows "if conflicts reg spec then (\<exists>e. registry_add ord h spec cb l reg = Err e)
    else (\<exists>reg'. registry_add ord h spec cb l reg = Ok reg' \<and> registry_inv reg' \<and>
      (\<forall>m. serving reg' m = {w \<in> serving reg m. rw_id w \<noteq> sp_id spec} \<union>
        (if m \<in> set (sp_model_ids spec) then {with_cb_config_and_kv_cache_layout h spec cb l} else {})))"
proof -
  let ?P = "\<lambda>m. list_ex (\<lambda>w. rw_id w \<noteq> sp_id spec \<and> modes_are_mixed (sp_mode spec) (rw_mode w)) (workers_for ord reg m)"
  have f: "find ?P (sp_model_ids spec) = None \<longleftrightarrow> \<not> conflicts reg spec"
    using workers_for_set [OF assms] by (auto simp: find_None_iff list_ex_iff conflicts_def)
  show ?thesis
  proof (cases "conflicts reg spec")
    case True
    then obtain m where "find ?P (sp_model_ids spec) = Some m" using f by fastforce
    then show ?thesis using True by (simp add: registry_add_def)
  next
    case False
    let ?w = "with_cb_config_and_kv_cache_layout h spec cb l"
    let ?r1 = "remove_locked (sp_id spec) reg"
    let ?r = "\<lparr> wr_by_id = AList.update (sp_id spec) ?w (wr_by_id ?r1),
      wr_by_model = insert_into_models (sp_id spec) (sp_model_ids spec) (wr_by_model ?r1) \<rparr>"
    have a: "registry_add ord h spec cb l reg = Ok ?r"
      using False f by (simp add: registry_add_def new_worker_fields Let_def)
    have i1: "registry_inv ?r1" by (rule remove_locked_inv [OF assms(2)])
    have i: "registry_inv ?r"
      using i1 by (auto simp: registry_inv_def ids_for_insert update_conv' new_worker_fields map_of_removed)
    have "serving ?r m = serving ?r1 m \<union> (if m \<in> set (sp_model_ids spec) then {?w} else {})" for m
      by (auto simp: serving_def update_conv' map_of_removed new_worker_fields)
    then show ?thesis using False a i serving_remove [OF assms(2)] by simp
  qed
qed

lemma registry_add_unmixed:
  assumes "hash_order ord" and "registry_inv reg" and "unmixed reg" and "registry_add ord h spec cb l reg = Ok reg'"
  shows "registry_inv reg' \<and> unmixed reg'"
proof -
  have s: "\<not> conflicts reg spec" "registry_inv reg'" "\<And>m. serving reg' m = {w \<in> serving reg m. rw_id w \<noteq> sp_id spec} \<union>
        (if m \<in> set (sp_model_ids spec) then {with_cb_config_and_kv_cache_layout h spec cb l} else {})"
    using registry_add_cases [OF assms(1,2), of spec h cb l] assms(4) by (auto split: if_splits)
  have "\<not> modes_are_mixed (sp_mode spec) (rw_mode w)" "\<not> modes_are_mixed (rw_mode w) (sp_mode spec)"
    if "m \<in> set (sp_model_ids spec)" "w \<in> serving reg m" "rw_id w \<noteq> sp_id spec" for m w
    using s(1) that by (auto simp: conflicts_def modes_are_mixed_def)
  note new = this
  have "\<not> modes_are_mixed (rw_mode v) (rw_mode w)" if v: "v \<in> serving reg' m" and w: "w \<in> serving reg' m" for m v w
  proof -
    have old: "\<not> modes_are_mixed (rw_mode v) (rw_mode w)" if "v \<in> serving reg m" "w \<in> serving reg m"
      using assms(3) that by (simp add: unmixed_def)
    consider "v \<in> serving reg m" "w \<in> serving reg m" | "rw_mode v = sp_mode spec" "rw_mode w = sp_mode spec"
      | "rw_mode v = sp_mode spec" "m \<in> set (sp_model_ids spec)" "w \<in> serving reg m" "rw_id w \<noteq> sp_id spec"
      | "rw_mode w = sp_mode spec" "m \<in> set (sp_model_ids spec)" "v \<in> serving reg m" "rw_id v \<noteq> sp_id spec"
      using v w unfolding s(3) by (auto simp: new_worker_fields split: if_splits)
    then show ?thesis by cases (use old new in \<open>auto simp: modes_are_mixed_def\<close>)
  qed
  then show ?thesis using s(2) unfolding unmixed_def by blast
qed

lemma remove_unmixed: "registry_inv reg \<Longrightarrow> unmixed reg \<Longrightarrow> unmixed (remove_locked i reg)"
  by (auto simp: unmixed_def serving_remove)

fun changes_mode :: "discovery_event \<Rightarrow> bool" where
  "changes_mode (ModeChanged i m) = True"
| "changes_mode e = False"

lemma manager_run_inv:
  assumes "\<forall>(ord, e) \<in> set evs. hash_order ord \<and> \<not> changes_mode e" and "registry_inv reg" and "unmixed reg"
  shows "registry_inv (fold (manager_apply h cb l) evs reg) \<and> unmixed (fold (manager_apply h cb l) evs reg)"
  using assms
proof (induction evs arbitrary: reg)
  case (Cons x evs)
  obtain ord e where x: "x = (ord, e)" by fastforce
  have "registry_inv (manager_apply h cb l x reg) \<and> unmixed (manager_apply h cb l x reg)"
  proof (cases e)
    case (Added spec)
    let ?spec = "resolve_spec (l (sp_url spec)) spec"
    show ?thesis
      using Added Cons.prems registry_add_unmixed [of ord reg h ?spec "cb ?spec" "wi_kv_cache_layout (l (sp_url spec))"]
      by (auto simp: x Let_def split: outcome.splits)
  qed (use Cons.prems in \<open>auto simp: x remove_locked_inv remove_unmixed\<close>)
  then show ?case using Cons.IH Cons.prems by simp
qed simp

lemma registry_empty_inv: "registry_inv registry_empty \<and> unmixed registry_empty"
  by (simp add: registry_inv_def unmixed_def registry_empty_def ids_for_def serving_def)

section \<open>Choosing a decode peer\<close>

text \<open>
  The workers a decode step may go to: admitted by their breaker, with the layout of the prefill worker, and decode
  workers if any admitted worker of the model has a role at all.
\<close>

definition usable_peers ::
  "(string list \<Rightarrow> string list) \<Rightarrow> nat \<Rightarrow> worker_registry \<Rightarrow> string \<Rightarrow> router_worker \<Rightarrow> router_worker list" where
  "usable_peers ord now reg model prefill =
     (let healthy = healthy_workers_for ord now reg model
      in filter (\<lambda>w. kv_layout_compatible prefill w \<and> ((\<forall>v\<in>set healthy. rw_mode v = ModePlain) \<or> rw_mode w = ModeDecode)) healthy)"

lemma mode_cases: "rw_mode w \<noteq> ModePrefill \<Longrightarrow> rw_mode w \<noteq> ModeDecode \<Longrightarrow> rw_mode w = ModePlain"
  by (cases "rw_mode w") auto

lemma filter_drop_alternative: "\<not> Q \<Longrightarrow> filter (\<lambda>w. P w \<and> (Q \<or> R w)) xs = filter P (filter R xs)"
  by (induction xs) auto

lemma pools_of_plain:
  assumes "\<forall>v\<in>set hs. rw_mode v = ModePlain"
  shows "filter (\<lambda>w. rw_mode w = ModePrefill) hs = []" and "filter (\<lambda>w. rw_mode w = ModeDecode) hs = []"
    and "filter (\<lambda>w. rw_mode w = ModePlain) hs = hs"
  using assms by (auto simp: filter_empty_conv)

lemma pd_resolve_roles:
  assumes "\<not> (\<forall>v\<in>set (healthy_workers_for ord now reg model). rw_mode v = ModePlain)"
  shows "pd_resolve ord now reg model =
    Ok (PdPool (filter (\<lambda>w. rw_mode w = ModePrefill) (healthy_workers_for ord now reg model))
      (filter (\<lambda>w. rw_mode w = ModeDecode) (healthy_workers_for ord now reg model)))"
proof -
  obtain v where v: "v \<in> set (healthy_workers_for ord now reg model)" "rw_mode v = ModePrefill \<or> rw_mode v = ModeDecode"
    using assms mode_cases by blast
  then have "filter (\<lambda>w. rw_mode w = ModePrefill) (healthy_workers_for ord now reg model) \<noteq> [] \<or>
      filter (\<lambda>w. rw_mode w = ModeDecode) (healthy_workers_for ord now reg model) \<noteq> []"
    unfolding filter_empty_conv by blast
  moreover have "healthy_workers_for ord now reg model \<noteq> []" using v(1) by auto
  ultimately show ?thesis unfolding pd_resolve_def Let_def by (simp only: if_True if_False simp_thms)
qed

lemma decode_candidates_usable:
  "(case decode_candidates ord now reg model of
      Ok cs \<Rightarrow> filter (kv_layout_compatible p) cs = usable_peers ord now reg model p
    | Err e \<Rightarrow> usable_peers ord now reg model p = []
    | Panic \<Rightarrow> False)"
proof -
  define hs where "hs = healthy_workers_for ord now reg model"
  show ?thesis
  proof (cases "\<forall>v\<in>set hs. rw_mode v = ModePlain")
    case True
    then show ?thesis using pools_of_plain [OF True]
      by (auto simp: decode_candidates_def pd_resolve_def usable_peers_def hs_def [symmetric] Let_def)
  next
    case False
    then have "usable_peers ord now reg model p = filter (kv_layout_compatible p) (filter (\<lambda>w. rw_mode w = ModeDecode) hs)"
      unfolding usable_peers_def hs_def [symmetric] Let_def by (rule filter_drop_alternative)
    then show ?thesis
      using pd_resolve_roles [OF False [unfolded hs_def]] by (simp add: decode_candidates_def hs_def del: filter_filter)
  qed
qed

definition peer_choice ::
  "(string \<Rightarrow> string option) \<Rightarrow> usize \<Rightarrow> string \<Rightarrow> router_worker list \<Rightarrow> router_worker \<Rightarrow> bool" where
  "peer_choice h tol url cs w \<longleftrightarrow>
     (let near = (\<lambda>v. h url \<noteq> None \<and> h (rw_url v) = h url \<and> (tol = 0 \<or> rw_active_requests v \<le> tol))
      in if \<exists>v\<in>set cs. near v then near w else \<forall>v\<in>set cs. rw_active_requests w \<le> rw_active_requests v)"

lemma select_decode_spec:
  assumes "cs \<noteq> []" and "\<forall>w\<in>set cs. would_allow now (rw_breaker w)"
  obtains w where "select_decode_with_affinity h f now url cs = Some w" and "w \<in> set cs"
    and "peer_choice h (load_tolerance f cs) url cs w"
proof -
  let ?near = "\<lambda>host w. h (rw_url w) = Some host \<and> (load_tolerance f cs = 0 \<or> rw_active_requests w \<le> load_tolerance f cs)"
  have hs: "filter (\<lambda>w. would_allow now (rw_breaker w)) cs = cs" using assms(2) by simp
  obtain m where m: "min_by_key rw_active_requests cs = Some m" using assms(1) by fastforce
  define peer where "peer = (case h url of None \<Rightarrow> None | Some host \<Rightarrow> find (?near host) cs)"
  have s: "select_decode_with_affinity h f now url cs = Some (case peer of Some w \<Rightarrow> w | None \<Rightarrow> m)"
    using assms(1) m by (simp add: select_decode_with_affinity_def hs peer_def Let_def split: option.splits)
  show ?thesis
  proof (cases peer)
    case (Some w)
    then obtain host where "h url = Some host" "find (?near host) cs = Some w" by (auto simp: peer_def split: option.splits)
    then have "w \<in> set cs" "?near host w" "h url = Some host" by (auto simp: find_Some_iff)
    then have "peer_choice h (load_tolerance f cs) url cs w" unfolding peer_choice_def Let_def by auto
    then show ?thesis using that [of w] s Some \<open>w \<in> set cs\<close> by simp
  next
    case None
    then have "\<not> (\<exists>v\<in>set cs. \<exists>host. h url = Some host \<and> ?near host v)"
      by (auto simp: peer_def find_None_iff split: option.splits)
    then have "peer_choice h (load_tolerance f cs) url cs m"
      using min_by_key_Some(2) [OF m] unfolding peer_choice_def Let_def by auto
    then show ?thesis using that [of m] s None min_by_key_Some(1) [OF m] by simp
  qed
qed

section \<open>Properties\<close>


text \<open>
  The decode peer for a prefill worker: if any usable worker is left, one is chosen, and the choice is admitted by its
  breaker and has the same KV layout; it is on the host of the prefill worker if a usable worker there is not above
  twice the median load (or that median is 0), and otherwise it has the least load; an error means no worker is usable.
\<close>

theorem decode_peer_is_usable:
  fixes ord :: "string list \<Rightarrow> string list" and now :: nat and reg :: worker_registry and model :: string
    and prefill :: router_worker
  defines "cs \<equiv> usable_peers ord now reg model prefill"
  shows "case decode_with_affinity_for_prefill ord host_str tolerate now reg model prefill of
      Ok w \<Rightarrow> w \<in> set cs \<and> would_allow now (rw_breaker w) \<and> kv_layout_compatible prefill w \<and>
        peer_choice host_str (load_tolerance tolerate cs) (rw_url prefill) cs w
    | Err e \<Rightarrow> cs = []
    | Panic \<Rightarrow> False"
proof -
  note d = decode_candidates_usable [where ord = ord and now = now and reg = reg and model = model and p = prefill, folded cs_def]
  have ok: "\<forall>w\<in>set cs. would_allow now (rw_breaker w) \<and> kv_layout_compatible prefill w"
    by (auto simp: cs_def usable_peers_def healthy_workers_for_def Let_def)
  show ?thesis
  proof (cases "decode_candidates ord now reg model")
    case (Ok xs)
    then have xs: "filter (kv_layout_compatible prefill) xs = cs" using d by simp
    show ?thesis
    proof (cases "cs = []")
      case True
      then show ?thesis using Ok xs by (simp add: decode_with_affinity_for_prefill_def select_decode_with_affinity_def)
    next
      case False
      obtain w where "select_decode_with_affinity host_str tolerate now (rw_url prefill) cs = Some w" "w \<in> set cs"
          "peer_choice host_str (load_tolerance tolerate cs) (rw_url prefill) cs w"
        using select_decode_spec [OF False, of now host_str tolerate "rw_url prefill"] ok by blast
      then show ?thesis using Ok xs ok by (simp add: decode_with_affinity_for_prefill_def)
    qed
  qed (use d in \<open>auto simp: decode_with_affinity_for_prefill_def\<close>)
qed

text \<open>Sample workers: a model with a prefill and a decode worker, on different hosts.\<close>

definition sample_spec :: "string \<Rightarrow> worker_mode \<Rightarrow> worker_spec" where
  "sample_spec name mode = \<lparr> sp_id = name, sp_url = name, sp_mode = mode, sp_model_ids = [''m''], sp_bootstrap_port = None \<rparr>"

definition no_info :: "string \<Rightarrow> worker_info" where
  "no_info url = \<lparr> wi_served_model_name = None, wi_disaggregation_role = None, wi_kv_cache_layout = None \<rparr>"


text \<open>
  \<open>ModeChanged\<close> is applied without the test of \<open>add\<close>: a prefill worker that turns into a plain one leaves a mixed model, and
  as long as the other worker is admitted the plain one is in no pool.
\<close>

lemma mode_change_mixes_pools:
  fixes reg :: worker_registry
  defines "reg \<equiv> fold (manager_apply Some (\<lambda>_. None) no_info)
    [(id, Added (sample_spec ''p'' ModePrefill)), (id, Added (sample_spec ''d'' ModeDecode)), (id, ModeChanged ''p'' ModePlain)] registry_empty"
  shows "map (\<lambda>w. (rw_id w, rw_mode w)) (workers_for id reg ''m'') = [(''d'', ModeDecode), (''p'', ModePlain)] \<and>
    modes_are_mixed ModeDecode ModePlain \<and>
    (\<exists>d. pd_resolve id now reg ''m'' = Ok (PdPool [] [d]) \<and> rw_id d = ''d'')"
  by (simp add: reg_def sample_spec_def registry_add_def registry_empty_def workers_for_def with_cb_config_and_kv_cache_layout_def
      remove_locked_def insert_into_models_def registry_mode_changed_def set_mode_def modes_are_mixed_def
      pd_resolve_def healthy_workers_for_def would_allow_def breaker_new_def breaker_with_config_def Let_def
      resolve_spec_def no_info_def)

end
