(* ===== verification/Kv_Event_Tree.thy ===== *)
theory Kv_Event_Tree
  imports Sgl_Prelude
begin

text \<open>
  The tree of block hashes of the router, \<open>crates/sglang-router/src/policies/kv_events/tree.rs\<close>.  Nodes live
  in an arena addressed by node ids; each node names its parent, its children by block hash and the
  workers that hold the chain ending there; \<open>by_hash\<close> is the reverse index from a block hash to its
  nodes.  The state is behind one lock, so the operations are atomic.

  The hash maps of the arena are association lists, the hash sets are sets.  The order in which the
  standard library iterates over a hash set or map is unspecified: it is the argument \<open>ord\<close>, an arbitrary
  rearrangement of the ids.  The time an operation reads from the clock is its argument \<open>now\<close>.
\<close>

section \<open>Definitions\<close>

record kv_event_worker =
  ew_url :: string
  ew_dp_rank :: u32

record tree_match =
  tm_matched_blocks :: usize
  tm_workers :: "kv_event_worker set"

type_synonym node_id = nat

record tree_node =
  nd_block_hash :: int
  nd_parent :: "node_id option"
  nd_workers :: "kv_event_worker set"
  nd_children :: "(int \<times> node_id) list"
  nd_last_used :: nat

record tree_state =
  tree_nodes :: "(node_id \<times> tree_node) list"
  by_hash :: "(int \<times> node_id set) list"
  next_id :: node_id

definition ROOT_ID :: node_id where
  "ROOT_ID = 0"

definition ROOT_HASH_SENTINEL :: int where
  "ROOT_HASH_SENTINEL = - (2 ^ 63)"

definition new_child :: "nat \<Rightarrow> int \<Rightarrow> node_id \<Rightarrow> tree_node" where
  "new_child now h parent =
     \<lparr> nd_block_hash = h, nd_parent = Some parent, nd_workers = {}, nd_children = [], nd_last_used = now \<rparr>"

definition tree_new :: "nat \<Rightarrow> tree_state" where
  "tree_new now =
     \<lparr> tree_nodes = [(ROOT_ID, \<lparr> nd_block_hash = ROOT_HASH_SENTINEL, nd_parent = None, nd_workers = {},
                                 nd_children = [], nd_last_used = now \<rparr>)],
       by_hash = [], next_id = 1 \<rparr>"

definition alloc_id :: "tree_state \<Rightarrow> node_id \<times> tree_state" where
  "alloc_id t = (next_id t, t\<lparr>next_id := next_id t + 1\<rparr>)"

definition node_of :: "tree_state \<Rightarrow> node_id \<Rightarrow> tree_node option" where
  "node_of t i = map_of (tree_nodes t) i"

definition set_node :: "node_id \<Rightarrow> tree_node \<Rightarrow> tree_state \<Rightarrow> tree_state" where
  "set_node i n t = t\<lparr>tree_nodes := AList.update i n (tree_nodes t)\<rparr>"

definition hash_nodes :: "tree_state \<Rightarrow> int \<Rightarrow> node_id set" where
  "hash_nodes t h = (case map_of (by_hash t) h of None \<Rightarrow> {} | Some ids \<Rightarrow> ids)"

definition create_child :: "nat \<Rightarrow> node_id \<Rightarrow> int \<Rightarrow> tree_state \<Rightarrow> node_id option \<times> tree_state" where
  "create_child now parent_id h t =
     (case alloc_id t of
        (i, t1) \<Rightarrow>
          (let t2 = set_node i (new_child now h parent_id) t1
           in case node_of t2 parent_id of
                None \<Rightarrow> (None, t2\<lparr>tree_nodes := AList.delete i (tree_nodes t2)\<rparr>)
              | Some p \<Rightarrow>
                  (Some i,
                   (set_node parent_id (p\<lparr>nd_children := AList.update h i (nd_children p)\<rparr>) t2)
                   \<lparr>by_hash := AList.update h (insert i (hash_nodes t2 h)) (by_hash t2)\<rparr>)))"

definition resolve_parent ::
  "(node_id list \<Rightarrow> node_id list) \<Rightarrow> tree_state \<Rightarrow> kv_event_worker \<Rightarrow> int option \<Rightarrow> node_id" where
  "resolve_parent ord t w parent_hash =
     (case parent_hash of
        None \<Rightarrow> ROOT_ID
      | Some ph \<Rightarrow>
          (case map_of (by_hash t) ph of
             None \<Rightarrow> ROOT_ID
           | Some candidates \<Rightarrow>
               (let ids = ord (sorted_list_of_set candidates)
                in if card candidates = 1 then hd ids
                   else case find (\<lambda>i. case node_of t i of None \<Rightarrow> False | Some n \<Rightarrow> w \<in> nd_workers n) ids of
                          Some i \<Rightarrow> i
                        | None \<Rightarrow> ROOT_ID)))"

fun tree_insert_loop :: "nat \<Rightarrow> kv_event_worker \<Rightarrow> node_id \<Rightarrow> int list \<Rightarrow> tree_state \<Rightarrow> tree_state" where
  "tree_insert_loop now w current [] t = t"
| "tree_insert_loop now w current (h # hs) t =
     (case (case node_of t current of
              None \<Rightarrow> None
            | Some n \<Rightarrow> map_of (nd_children n) h) of
        Some i \<Rightarrow>
          (case node_of t i of
             None \<Rightarrow> t
           | Some c \<Rightarrow>
               tree_insert_loop now w i hs
                 (set_node i (c\<lparr>nd_workers := insert w (nd_workers c), nd_last_used := now\<rparr>) t))
      | None \<Rightarrow>
          (case create_child now current h t of
             (None, t1) \<Rightarrow> t1
           | (Some i, t1) \<Rightarrow>
               (case node_of t1 i of
                  None \<Rightarrow> t1
                | Some c \<Rightarrow>
                    tree_insert_loop now w i hs
                      (set_node i (c\<lparr>nd_workers := insert w (nd_workers c), nd_last_used := now\<rparr>) t1))))"

definition tree_insert ::
  "(node_id list \<Rightarrow> node_id list) \<Rightarrow> nat \<Rightarrow> kv_event_worker \<Rightarrow> int option \<Rightarrow> int list \<Rightarrow> tree_state \<Rightarrow> tree_state" where
  "tree_insert ord now w parent_hash hs t =
     (if hs = [] then t else tree_insert_loop now w (resolve_parent ord t w parent_hash) hs t)"

definition empty_node :: "tree_node \<Rightarrow> bool" where
  "empty_node n \<longleftrightarrow> nd_workers n = {} \<and> nd_children n = []"

text \<open>One turn of the loop of \<open>prune_cascade\<close>: detach a node from its parent and from the index, and drop it.\<close>

definition detach :: "node_id \<Rightarrow> node_id \<Rightarrow> int \<Rightarrow> tree_state \<Rightarrow> tree_state" where
  "detach cursor parent_id h t =
     (let t1 = (case node_of t parent_id of
                  None \<Rightarrow> t
                | Some p \<Rightarrow> set_node parent_id (p\<lparr>nd_children := AList.delete h (nd_children p)\<rparr>) t);
          t2 = (case map_of (by_hash t1) h of
                  None \<Rightarrow> t1
                | Some ids \<Rightarrow>
                    (if ids - {cursor} = {} then t1\<lparr>by_hash := AList.delete h (by_hash t1)\<rparr>
                     else t1\<lparr>by_hash := AList.update h (ids - {cursor}) (by_hash t1)\<rparr>))
      in t2\<lparr>tree_nodes := AList.delete cursor (tree_nodes t2)\<rparr>)"

lemma length_delete_lt: "map_of xs k \<noteq> None \<Longrightarrow> length (AList.delete k xs) < length xs"
  by (induction xs) (auto simp: less_Suc_eq_le length_delete_le)

lemma length_update_present: "map_of xs k \<noteq> None \<Longrightarrow> length (AList.update k v xs) = length xs"
  by (induction xs) auto

function prune_cascade :: "node_id \<Rightarrow> tree_state \<Rightarrow> tree_state" where
  "prune_cascade cursor t =
     (if cursor = ROOT_ID then t
      else case node_of t cursor of
             None \<Rightarrow> t
           | Some n \<Rightarrow>
               (case nd_parent n of
                  None \<Rightarrow> t
                | Some parent_id \<Rightarrow>
                    (if \<not> empty_node n then t
                     else
                       let t' = detach cursor parent_id (nd_block_hash n) t
                       in case node_of t' parent_id of
                            None \<Rightarrow> t'
                          | Some p \<Rightarrow>
                              (if parent_id \<noteq> ROOT_ID \<and> empty_node p then prune_cascade parent_id t' else t'))))"
  by pat_completeness auto
termination
proof (relation "measure (\<lambda>(cursor, t). length (tree_nodes t))", goal_cases)
  case (2 cursor t n parent_id t' p)
  have ne: "map_of (tree_nodes t) cursor \<noteq> None" using 2(2) by (simp add: node_of_def)
  define u where "u = (case node_of t parent_id of None \<Rightarrow> t
    | Some p \<Rightarrow> set_node parent_id (p\<lparr>nd_children := AList.delete (nd_block_hash n) (nd_children p)\<rparr>) t)"
  have u: "length (tree_nodes u) = length (tree_nodes t)" "map_of (tree_nodes u) cursor \<noteq> None"
    using ne by (auto simp: u_def set_node_def node_of_def length_update_present update_conv' split: option.splits)
  have "tree_nodes t' = AList.delete cursor (tree_nodes u)"
    unfolding 2(5) detach_def u_def [symmetric] by (simp add: Let_def split: option.splits)
  then show ?case using length_delete_lt [OF u(2)] u(1) by simp
qed simp

declare prune_cascade.simps [simp del]

fun tree_remove_loop :: "kv_event_worker \<Rightarrow> node_id list \<Rightarrow> tree_state \<Rightarrow> tree_state" where
  "tree_remove_loop w [] t = t"
| "tree_remove_loop w (i # ids) t =
     (case node_of t i of
        None \<Rightarrow> tree_remove_loop w ids t
      | Some n \<Rightarrow>
          (let n' = n\<lparr>nd_workers := nd_workers n - {w}\<rparr>;
               t' = set_node i n' t
           in tree_remove_loop w ids (if empty_node n' then prune_cascade i t' else t')))"

definition tree_remove ::
  "(node_id list \<Rightarrow> node_id list) \<Rightarrow> kv_event_worker \<Rightarrow> int list \<Rightarrow> tree_state \<Rightarrow> tree_state" where
  "tree_remove ord w hs t =
     tree_remove_loop w (concat (map (\<lambda>h. ord (sorted_list_of_set (hash_nodes t h))) hs)) t"

text \<open>\<open>clear_worker\<close>: drop the worker everywhere, noting the nodes it leaves empty, then prune those.\<close>

fun clear_loop :: "kv_event_worker \<Rightarrow> node_id list \<Rightarrow> tree_state \<Rightarrow> node_id list \<Rightarrow> node_id list \<times> tree_state" where
  "clear_loop w [] t candidates = (candidates, t)"
| "clear_loop w (i # ids) t candidates =
     (case node_of t i of
        None \<Rightarrow> clear_loop w ids t candidates
      | Some n \<Rightarrow>
          (let n' = n\<lparr>nd_workers := nd_workers n - {w}\<rparr>
           in clear_loop w ids (set_node i n' t)
                (if w \<in> nd_workers n \<and> empty_node n' then candidates @ [i] else candidates)))"

fun prune_all :: "node_id list \<Rightarrow> tree_state \<Rightarrow> tree_state" where
  "prune_all [] t = t"
| "prune_all (i # ids) t = prune_all ids (if node_of t i \<noteq> None then prune_cascade i t else t)"

definition tree_clear_worker ::
  "(node_id list \<Rightarrow> node_id list) \<Rightarrow> kv_event_worker \<Rightarrow> tree_state \<Rightarrow> tree_state" where
  "tree_clear_worker ord w t =
     (case clear_loop w (filter (\<lambda>i. i \<noteq> ROOT_ID) (ord (map fst (tree_nodes t)))) t [] of
        (candidates, t') \<Rightarrow> prune_all candidates t')"

fun tree_match_loop ::
  "nat \<Rightarrow> node_id \<Rightarrow> int list \<Rightarrow> usize \<Rightarrow> node_id option \<Rightarrow> tree_state \<Rightarrow> usize \<times> node_id option \<times> tree_state" where
  "tree_match_loop now current [] matched found t = (matched, found, t)"
| "tree_match_loop now current (h # hs) matched found t =
     (case (case node_of t current of None \<Rightarrow> None | Some n \<Rightarrow> map_of (nd_children n) h) of
        None \<Rightarrow> (matched, found, t)
      | Some i \<Rightarrow>
          tree_match_loop now i hs (matched + 1) (Some i)
            (case node_of t i of None \<Rightarrow> t | Some c \<Rightarrow> set_node i (c\<lparr>nd_last_used := now\<rparr>) t))"

definition tree_match_prefix ::
  "(node_id list \<Rightarrow> node_id list) \<Rightarrow> nat \<Rightarrow> int option \<Rightarrow> int list \<Rightarrow> tree_state \<Rightarrow> tree_match \<times> tree_state" where
  "tree_match_prefix ord now parent_hash hs t =
     (if hs = [] then (\<lparr>tm_matched_blocks = 0, tm_workers = {}\<rparr>, t)
      else
        let start = (case parent_hash of
                       None \<Rightarrow> ROOT_ID
                     | Some ph \<Rightarrow>
                         (case map_of (by_hash t) ph of
                            None \<Rightarrow> ROOT_ID
                          | Some ids \<Rightarrow> (if card ids = 1 then hd (ord (sorted_list_of_set ids)) else ROOT_ID)))
        in case tree_match_loop now start hs 0 None t of
             (matched, found, t') \<Rightarrow>
               (\<lparr> tm_matched_blocks = matched,
                  tm_workers = (case found of
                                  None \<Rightarrow> {}
                                | Some i \<Rightarrow> (case node_of t' i of None \<Rightarrow> {} | Some n \<Rightarrow> nd_workers n)) \<rparr>, t'))"

definition node_count :: "tree_state \<Rightarrow> usize" where
  "node_count t = length (tree_nodes t) - 1"

fun evict_empty_loop :: "usize \<Rightarrow> node_id list \<Rightarrow> tree_state \<Rightarrow> tree_state" where
  "evict_empty_loop max_size [] t = t"
| "evict_empty_loop max_size (i # ids) t =
     (if node_count t \<le> max_size then t
      else evict_empty_loop max_size ids (if node_of t i \<noteq> None then prune_cascade i t else t))"

text \<open>The scan for the least recently used leaf: the first of the smallest time in iteration order.\<close>

fun oldest_leaf :: "tree_state \<Rightarrow> node_id list \<Rightarrow> (nat \<times> node_id) option \<Rightarrow> (nat \<times> node_id) option" where
  "oldest_leaf t [] oldest = oldest"
| "oldest_leaf t (i # ids) oldest =
     (case node_of t i of
        None \<Rightarrow> oldest_leaf t ids oldest
      | Some n \<Rightarrow>
          (if i = ROOT_ID \<or> nd_children n \<noteq> [] then oldest_leaf t ids oldest
           else oldest_leaf t ids
                  (case oldest of
                     None \<Rightarrow> Some (nd_last_used n, i)
                   | Some (cur, j) \<Rightarrow> if nd_last_used n < cur then Some (nd_last_used n, i) else oldest)))"

definition evict_one :: "(node_id list \<Rightarrow> node_id list) \<Rightarrow> tree_state \<Rightarrow> tree_state option" where
  "evict_one ord t =
     (case oldest_leaf t (ord (map fst (tree_nodes t))) None of
        None \<Rightarrow> None
      | Some (_, victim) \<Rightarrow>
          Some (prune_cascade victim
            (case node_of t victim of None \<Rightarrow> t | Some n \<Rightarrow> set_node victim (n\<lparr>nd_workers := {}\<rparr>) t)))"

text \<open>The second loop of \<open>evict_lru\<close>; its first argument is the number of turns left of \<open>max_iters\<close>.\<close>

fun evict_loop :: "nat \<Rightarrow> (node_id list \<Rightarrow> node_id list) \<Rightarrow> usize \<Rightarrow> tree_state \<Rightarrow> tree_state" where
  "evict_loop 0 ord max_size t = t"
| "evict_loop (Suc k) ord max_size t =
     (if node_count t > max_size
      then (case evict_one ord t of None \<Rightarrow> t | Some t' \<Rightarrow> evict_loop k ord max_size t')
      else t)"

definition evict_lru :: "(node_id list \<Rightarrow> node_id list) \<Rightarrow> usize \<Rightarrow> tree_state \<Rightarrow> usize \<times> tree_state" where
  "evict_lru ord max_size t =
     (if node_count t \<le> max_size then (0, t)
      else
        let is_empty_leaf = (\<lambda>i. i \<noteq> ROOT_ID \<and> (case node_of t i of None \<Rightarrow> False | Some n \<Rightarrow> empty_node n));
            t1 = evict_empty_loop max_size (filter is_empty_leaf (ord (map fst (tree_nodes t)))) t;
            t2 = evict_loop (length (tree_nodes t1) + 1) ord max_size t1
        in (length (tree_nodes t) - length (tree_nodes t2), t2))"

end
