(* ===== verification/Kv_Tree_Inv.thy ===== *)
theory Kv_Tree_Inv
  imports Kv_Event_Tree
begin

text \<open>
  The invariant of the router's block tree that the comment on \<open>TreeState\<close> states, together with what
  makes it work: ids grow along the tree, so it has no cycle, and no leaf is without a worker.  Every operation
  keeps it, and eviction ends below its limit.
\<close>

section \<open>The invariant\<close>

definition workers_of :: "tree_state \<Rightarrow> node_id \<Rightarrow> kv_event_worker set" where
  "workers_of t i = (case node_of t i of None \<Rightarrow> {} | Some n \<Rightarrow> nd_workers n)"

definition child_of :: "tree_state \<Rightarrow> node_id \<Rightarrow> int \<Rightarrow> node_id option" where
  "child_of t i h = (case node_of t i of None \<Rightarrow> None | Some n \<Rightarrow> map_of (nd_children n) h)"

text \<open>The block hash and the parent of a node.\<close>

definition shape :: "tree_state \<Rightarrow> node_id \<Rightarrow> (int \<times> node_id option) option" where
  "shape t i = map_option (\<lambda>n. (nd_block_hash n, nd_parent n)) (node_of t i)"

definition tree_inv :: "tree_state \<Rightarrow> bool" where
  "tree_inv t \<longleftrightarrow>
     distinct (map fst (tree_nodes t)) \<and>
     (\<exists>h. shape t ROOT_ID = Some (h, None)) \<and>
     (\<forall>i h p. shape t i = Some (h, p) \<longrightarrow> i < next_id t \<and>
        (i \<noteq> ROOT_ID \<longrightarrow> (\<exists>q. p = Some q \<and> q < i \<and> child_of t q h = Some i))) \<and>
     (\<forall>i h c. child_of t i h = Some c \<longrightarrow> shape t c = Some (h, Some i)) \<and>
     (\<forall>h. hash_nodes t h = {i. i \<noteq> ROOT_ID \<and> (\<exists>p. shape t i = Some (h, p))} \<and>
        map_of (by_hash t) h \<noteq> Some {})"

text \<open>All nodes but the root and those in \<open>X\<close> have a worker or a child.\<close>

definition held_except :: "node_id set \<Rightarrow> tree_state \<Rightarrow> bool" where
  "held_except X t \<longleftrightarrow>
     (\<forall>i. shape t i \<noteq> None \<and> i \<noteq> ROOT_ID \<and> i \<notin> X \<longrightarrow> workers_of t i \<noteq> {} \<or> child_of t i \<noteq> Map.empty)"

lemma tree_invD:
  assumes "tree_inv t"
  shows tree_inv_distinct: "distinct (map fst (tree_nodes t))"
    and tree_inv_root: "\<exists>h. shape t ROOT_ID = Some (h, None)"
    and tree_inv_next: "shape t i = Some (h, p) \<Longrightarrow> i < next_id t"
    and tree_inv_parent: "shape t i = Some (h, p) \<Longrightarrow> i \<noteq> ROOT_ID \<Longrightarrow>
      \<exists>q. p = Some q \<and> q < i \<and> child_of t q h = Some i"
    and tree_inv_child: "child_of t i h = Some c \<Longrightarrow> shape t c = Some (h, Some i)"
    and tree_inv_hash: "hash_nodes t h = {i. i \<noteq> ROOT_ID \<and> (\<exists>p. shape t i = Some (h, p))}"
    and tree_inv_hash_ne: "map_of (by_hash t) h \<noteq> Some {}"
  using assms unfolding tree_inv_def by blast+

lemma child_not_root: "tree_inv t \<Longrightarrow> child_of t i h = Some c \<Longrightarrow> c \<noteq> ROOT_ID"
  using tree_inv_child tree_inv_root by fastforce

lemma shape_None_iff: "shape t i = None \<longleftrightarrow> node_of t i = None"
  by (simp add: shape_def)

lemma node_of_set_node: "node_of (set_node i n t) j = (if j = i then Some n else node_of t j)"
  by (simp add: node_of_def set_node_def update_conv')

lemma hash_nodes_set_node [simp]: "hash_nodes (set_node i n t) = hash_nodes t"
  by (simp add: hash_nodes_def set_node_def fun_eq_iff)

lemma set_node_frame [simp]: "by_hash (set_node i n t) = by_hash t" "next_id (set_node i n t) = next_id t"
  by (simp_all add: set_node_def)

lemma distinct_set_node: "distinct (map fst (tree_nodes t)) \<Longrightarrow> distinct (map fst (tree_nodes (set_node i n t)))"
  by (simp add: set_node_def distinct_update)

lemma length_set_node: "node_of t i \<noteq> None \<Longrightarrow> length (tree_nodes (set_node i n t)) = length (tree_nodes t)"
  by (simp add: set_node_def node_of_def length_update_present)

lemma tree_new_inv: "tree_inv (tree_new now) \<and> held_except {} (tree_new now)"
  by (auto simp: tree_inv_def held_except_def tree_new_def node_of_def child_of_def shape_def hash_nodes_def ROOT_ID_def
      split: if_splits)

text \<open>Changing the workers or the time of a node keeps the shape of the tree.\<close>

definition same_shape :: "tree_node \<Rightarrow> tree_node \<Rightarrow> bool" where
  "same_shape m n \<longleftrightarrow> nd_block_hash m = nd_block_hash n \<and> nd_parent m = nd_parent n \<and> nd_children m = nd_children n"

lemma set_node_same_shape:
  assumes "node_of t i = Some n" and "same_shape m n"
  shows "child_of (set_node i m t) = child_of t" and "shape (set_node i m t) = shape t"
    and "tree_inv (set_node i m t) = tree_inv t"
    and "length (tree_nodes (set_node i m t)) = length (tree_nodes t)"
    and "workers_of (set_node i m t) = (workers_of t)(i := nd_workers m)"
proof -
  show c: "child_of (set_node i m t) = child_of t" and s: "shape (set_node i m t) = shape t"
    and "workers_of (set_node i m t) = (workers_of t)(i := nd_workers m)"
    using assms by (auto simp: child_of_def shape_def node_of_set_node same_shape_def workers_of_def fun_eq_iff)
  have "map fst (tree_nodes (set_node i m t)) = map fst (tree_nodes t)"
    using assms(1) by (simp add: set_node_def node_of_def update_keys map_of_SomeD image_iff) (metis fst_conv map_of_SomeD)
  then show "tree_inv (set_node i m t) = tree_inv t" unfolding tree_inv_def c s by simp
  show "length (tree_nodes (set_node i m t)) = length (tree_nodes t)" by (rule length_set_node) (simp add: assms(1))
qed

section \<open>Creating a child\<close>

lemma create_child_inv:
  assumes "tree_inv t" and "shape t p \<noteq> None" and "child_of t p h = None"
  defines "i \<equiv> next_id t"
  obtains t' where "create_child now p h t = (Some i, t')" and "tree_inv t'"
    and "shape t' = (shape t)(i := Some (h, Some p))" and "shape t i = None"
    and "child_of t' = (child_of t)(p := (child_of t p)(h := Some i))"
    and "workers_of t' = workers_of t" and "node_of t' i = Some (new_child now h p)"
proof -
  obtain pn where pn: "node_of t p = Some pn" using assms(2) by (auto simp: shape_def)
  have fresh: "shape t i = None" using tree_inv_next [OF assms(1), of i] by (cases "shape t i") (auto simp: i_def)
  then have nf: "node_of t i = None" by (simp add: shape_None_iff)
  then have ip: "p \<noteq> i" using pn by auto
  let ?p = "pn\<lparr>nd_children := AList.update h i (nd_children pn)\<rparr>"
  define u where "u = (set_node p ?p (set_node i (new_child now h p) (t\<lparr>next_id := i + 1\<rparr>)))
      \<lparr>by_hash := AList.update h (insert i (hash_nodes t h)) (by_hash t)\<rparr>"
  have base: "node_of (t\<lparr>next_id := x\<rparr>) = node_of t" "hash_nodes (t\<lparr>next_id := x\<rparr>) = hash_nodes t"
      "node_of (v\<lparr>by_hash := b\<rparr>) = node_of v" for x v b by (simp_all add: node_of_def hash_nodes_def fun_eq_iff)
  have cc: "create_child now p h t = (Some i, u)"
    using pn ip by (simp add: create_child_def alloc_id_def i_def Let_def node_of_set_node base u_def)
  have node: "node_of u j = (if j = p then Some ?p else if j = i then Some (new_child now h p) else node_of t j)" for j
    by (simp add: node_of_set_node base u_def)
  have sh: "shape u = (shape t)(i := Some (h, Some p))"
    using pn ip by (auto simp: shape_def node fun_eq_iff new_child_def)
  have ch: "child_of u = (child_of t)(p := (child_of t p)(h := Some i))"
    using pn ip nf by (auto simp: child_of_def node fun_eq_iff update_conv' new_child_def)
  have wk: "workers_of u = workers_of t" using pn nf by (auto simp: workers_of_def node fun_eq_iff new_child_def)
  have hn: "map_of (by_hash u) = (map_of (by_hash t))(h := Some (insert i (hash_nodes t h)))"
    by (simp add: update_conv' u_def)
  have nx: "next_id u = i + 1" by (simp add: u_def)
  have d: "distinct (map fst (tree_nodes u))"
    using tree_inv_distinct [OF assms(1)] by (simp add: u_def set_node_def distinct_update)
  obtain hp pp where psh: "shape t p = Some (hp, pp)" using assms(2) by auto
  have lt: "p < i" using tree_inv_next [OF assms(1) psh] by (simp add: i_def)
  have i0: "i \<noteq> ROOT_ID" using tree_inv_root [OF assms(1)] fresh by auto
  have A: "\<exists>h'. shape u ROOT_ID = Some (h', None)" using tree_inv_root [OF assms(1)] i0 by (simp add: sh)
  have B: "j < next_id u \<and> (j \<noteq> ROOT_ID \<longrightarrow> (\<exists>q. x = Some q \<and> q < j \<and> child_of u q k = Some j))"
    if "shape u j = Some (k, x)" for j k x
  proof (cases "j = i")
    case True
    then show ?thesis using that lt by (auto simp: sh ch nx)
  next
    case False
    then have s: "shape t j = Some (k, x)" using that by (simp add: sh)
    have "\<exists>q. x = Some q \<and> q < j \<and> child_of t q k = Some j" if "j \<noteq> ROOT_ID"
      using tree_inv_parent [OF assms(1) s that] .
    then show ?thesis using tree_inv_next [OF assms(1) s] assms(3) by (fastforce simp: ch i_def nx)
  qed
  have C: "shape u c = Some (k, Some j)" if "child_of u j k = Some c" for j k c
  proof (cases "j = p \<and> k = h")
    case True
    then show ?thesis using that by (simp add: ch sh)
  next
    case False
    then have "child_of t j k = Some c" using that by (auto simp: ch split: if_splits)
    from tree_inv_child [OF assms(1) this] show ?thesis using fresh by (auto simp: sh)
  qed
  have hu: "hash_nodes u = (hash_nodes t)(h := insert i (hash_nodes t h))" by (simp add: hash_nodes_def hn fun_eq_iff)
  have D: "hash_nodes u k = {j. j \<noteq> ROOT_ID \<and> (\<exists>q. shape u j = Some (k, q))}" for k
    using i0 fresh by (cases "k = h") (auto simp: hu sh tree_inv_hash [OF assms(1)])
  have E: "map_of (by_hash u) k \<noteq> Some {}" for k using tree_inv_hash_ne [OF assms(1), of k] by (simp add: hn)
  have "tree_inv u" unfolding tree_inv_def using d A B C D E by blast
  then show ?thesis using that [OF cc _ sh fresh ch wk] node ip by simp
qed

section \<open>Pruning\<close>

lemma length_delete_distinct:
  "distinct (map fst xs) \<Longrightarrow> map_of xs k \<noteq> None \<Longrightarrow> Suc (length (AList.delete k xs)) = length xs"
proof (induction xs)
  case (Cons a xs)
  have "AList.delete k xs = xs" if "fst a = k" using Cons.prems(1) that by (intro delete_id) (simp add: delete_id)
  then show ?case using Cons by (cases "fst a = k") (simp_all del: not_None_eq)
qed simp

lemma detach_inv:
  assumes inv: "tree_inv t" and c: "shape t c = Some (h, Some p)" and c0: "c \<noteq> ROOT_ID" and leaf: "child_of t c = Map.empty"
  defines "u \<equiv> detach c p h t"
  shows "tree_inv u" and "shape u = (shape t)(c := None)"
    and "child_of u = (child_of t)(p := (child_of t p)(h := None))"
    and "workers_of u = (workers_of t)(c := {})" and "Suc (length (tree_nodes u)) = length (tree_nodes t)"
proof -
  have pc: "p < c" "child_of t p h = Some c" using tree_inv_parent [OF inv c c0] by auto
  obtain pn where pn: "node_of t p = Some pn" using pc(2) by (auto simp: child_of_def split: option.splits)
  let ?p = "pn\<lparr>nd_children := AList.delete h (nd_children pn)\<rparr>"
  have nodes: "tree_nodes u = AList.delete c (tree_nodes (set_node p ?p t))" and nx: "next_id u = next_id t"
    unfolding u_def detach_def by (simp_all add: pn Let_def split: option.splits)
  have bh: "map_of (by_hash u) = (map_of (by_hash t))(h := if hash_nodes t h - {c} = {} then None else Some (hash_nodes t h - {c}))"
    unfolding u_def detach_def hash_nodes_def
    by (auto simp: pn Let_def delete_conv update_conv' fun_eq_iff split: option.splits)
  have node: "node_of u j = (if j = c then None else if j = p then Some ?p else node_of t j)" for j
    using node_of_set_node [of p ?p t j] by (simp add: node_of_def nodes delete_conv')
  show sh: "shape u = (shape t)(c := None)" using pn by (auto simp: shape_def node fun_eq_iff)
  show ch: "child_of u = (child_of t)(p := (child_of t p)(h := None))"
    using pn pc leaf by (auto simp: child_of_def node fun_eq_iff delete_conv')
  show wk: "workers_of u = (workers_of t)(c := {})" using pn by (auto simp: workers_of_def node fun_eq_iff)
  have d0: "distinct (map fst (tree_nodes (set_node p ?p t)))" by (rule distinct_set_node [OF tree_inv_distinct [OF inv]])
  then have d: "distinct (map fst (tree_nodes u))" unfolding nodes by (rule distinct_delete)
  have "node_of (set_node p ?p t) c \<noteq> None" using c pc by (auto simp: node_of_set_node shape_def)
  then show "Suc (length (tree_nodes u)) = length (tree_nodes t)"
    using length_delete_distinct [OF d0, of c] pn by (simp add: nodes node_of_def [symmetric] length_set_node)
  have hu: "hash_nodes u = (hash_nodes t)(h := hash_nodes t h - {c})" by (simp add: hash_nodes_def bh fun_eq_iff)
  have A: "\<exists>h'. shape u ROOT_ID = Some (h', None)" using tree_inv_root [OF inv] c0 by (simp add: sh)
  have B: "j < next_id u \<and> (j \<noteq> ROOT_ID \<longrightarrow> (\<exists>q. x = Some q \<and> q < j \<and> child_of u q k = Some j))"
    if s: "shape u j = Some (k, x)" for j k x
  proof -
    have s': "shape t j = Some (k, x)" "j \<noteq> c" using s by (simp_all add: sh split: if_splits)
    have "\<exists>q. x = Some q \<and> q < j \<and> child_of u q k = Some j" if j0: "j \<noteq> ROOT_ID"
    proof -
      obtain q where q: "x = Some q" "q < j" "child_of t q k = Some j" using tree_inv_parent [OF inv s'(1) j0] by blast
      then have "\<not> (q = p \<and> k = h)" using s'(2) pc(2) by auto
      then have "child_of u q k = Some j" using q(3) by (auto simp: ch)
      then show ?thesis using q by blast
    qed
    then show ?thesis using tree_inv_next [OF inv s'(1)] by (simp add: nx)
  qed
  have C: "shape u d = Some (k, Some j)" if "child_of u j k = Some d" for j k d
  proof -
    have d: "child_of t j k = Some d" "\<not> (j = p \<and> k = h)" using that by (auto simp: ch split: if_splits)
    have "d \<noteq> c" using tree_inv_child [OF inv d(1)] c d(2) by auto
    then show ?thesis using tree_inv_child [OF inv d(1)] by (simp add: sh)
  qed
  have D: "hash_nodes u k = {j. j \<noteq> ROOT_ID \<and> (\<exists>q. shape u j = Some (k, q))}" for k
    using c by (cases "k = h") (auto simp: hu sh tree_inv_hash [OF inv])
  have E: "map_of (by_hash u) k \<noteq> Some {}" for k using tree_inv_hash_ne [OF inv, of k] by (simp add: bh)
  show "tree_inv u" unfolding tree_inv_def using d A B C D E by blast
qed

lemma child_iff: "tree_inv t \<Longrightarrow> child_of t i h = Some c \<longleftrightarrow> shape t c = Some (h, Some i)"
  using tree_inv_child [of t i h c] tree_inv_parent [of t c h "Some i"] tree_inv_root [of t] by fastforce

lemma empty_node_iff:
  "node_of t i = Some n \<Longrightarrow> empty_node n \<longleftrightarrow> workers_of t i = {} \<and> child_of t i = Map.empty"
  by (simp add: empty_node_def workers_of_def child_of_def fun_eq_iff) (metis map_of_eq_empty_iff ext)

text \<open>A tree with some nodes removed: what is left is where it was, and no node with a worker is gone.\<close>

definition pruned :: "tree_state \<Rightarrow> tree_state \<Rightarrow> bool" where
  "pruned t u \<longleftrightarrow> tree_inv u \<and> shape u \<subseteq>\<^sub>m shape t \<and> workers_of u = workers_of t \<and>
     length (tree_nodes u) \<le> length (tree_nodes t)"

lemma pruned_refl: "tree_inv t \<Longrightarrow> pruned t t"
  by (simp add: pruned_def)

lemma pruned_trans: "pruned t u \<Longrightarrow> pruned u v \<Longrightarrow> pruned t v"
  unfolding pruned_def by (auto intro: map_le_trans)

lemma held_except_shrink:
  assumes "held_except X t" and "\<And>i. i \<in> X \<Longrightarrow> i \<notin> Y \<Longrightarrow> i \<noteq> ROOT_ID \<Longrightarrow> shape t i \<noteq> None \<Longrightarrow>
    workers_of t i \<noteq> {} \<or> child_of t i \<noteq> Map.empty"
  shows "held_except Y t"
  using assms unfolding held_except_def by blast

lemma detach_held:
  assumes "tree_inv t" and "shape t c = Some (h, Some p)" and "c \<noteq> ROOT_ID" and "child_of t c = Map.empty"
    and "held_except (insert c X) t"
  shows "held_except (insert p X) (detach c p h t)"
proof -
  note d = detach_inv [OF assms(1-4)]
  show ?thesis using assms(5) unfolding held_except_def d(2-4) by (auto simp: fun_upd_def)
qed

definition prunable :: "tree_state \<Rightarrow> node_id \<Rightarrow> bool" where
  "prunable t c \<longleftrightarrow> c \<noteq> ROOT_ID \<and> shape t c \<noteq> None \<and> workers_of t c = {} \<and> child_of t c = Map.empty"

lemma prune_cascade_stop: "\<not> prunable t c \<Longrightarrow> prune_cascade c t = t"
  by (auto simp: prune_cascade.simps [of c t] prunable_def empty_node_iff shape_def split: option.splits)

lemma prune_cascade_step:
  assumes "tree_inv t" and "prunable t c"
  obtains h p where "shape t c = Some (h, Some p)" and "prune_cascade c t = prune_cascade p (detach c p h t)"
proof -
  from assms obtain n p where n: "node_of t c = Some n" "nd_parent n = Some p" "empty_node n"
    using tree_inv_parent [OF assms(1)] by (force simp: shape_def empty_node_iff prunable_def)
  let ?u = "detach c p (nd_block_hash n) t"
  have "prune_cascade c t = (if prunable ?u p then prune_cascade p ?u else ?u)"
    using n assms(2) by (auto simp: prune_cascade.simps [of c t] prunable_def empty_node_iff shape_def Let_def
        split: option.splits)
  then have "prune_cascade c t = prune_cascade p ?u" by (simp add: prune_cascade_stop)
  then show ?thesis using that n by (auto simp: shape_def)
qed

lemma held_except_prunable: "held_except X t \<Longrightarrow> \<not> prunable t c \<Longrightarrow> held_except (X - {c}) t"
  unfolding held_except_def prunable_def by blast

lemma prune_cascade_inv:
  assumes "tree_inv t"
  shows "pruned t (prune_cascade c t) \<and> (held_except X t \<longrightarrow> held_except (X - {c}) (prune_cascade c t)) \<and>
    (prunable t c \<longrightarrow> length (tree_nodes (prune_cascade c t)) < length (tree_nodes t))"
  using assms
proof (induction "length (tree_nodes t)" arbitrary: c t X rule: less_induct)
  case less
  show ?case
  proof (cases "prunable t c")
    case False
    then show ?thesis using less(2) by (auto simp: prune_cascade_stop pruned_refl held_except_prunable)
  next
    case True
    obtain h p where sh: "shape t c = Some (h, Some p)" and r: "prune_cascade c t = prune_cascade p (detach c p h t)"
      using prune_cascade_step [OF less(2) True] .
    define u where "u = detach c p h t"
    have c: "c \<noteq> ROOT_ID" "child_of t c = Map.empty" "workers_of t c = {}" using True by (auto simp: prunable_def)
    note d = detach_inv [OF less(2) sh c(1,2), folded u_def]
    have pu: "pruned t u" using d c by (auto simp: pruned_def map_le_def fun_eq_iff)
    have hu: "held_except (insert p (X - {c})) u" if "held_except X t"
      unfolding u_def using that by (intro detach_held [OF less(2) sh c(1,2)]) (auto simp: held_except_def)
    have ih: "pruned u (prune_cascade p u)"
      "held_except (insert p (X - {c})) u \<Longrightarrow> held_except (insert p (X - {c}) - {p}) (prune_cascade p u)"
      using less(1) [OF _ d(1), of p "insert p (X - {c})"] d(5) by auto
    have "held_except (X - {c}) v" if "held_except (insert p (X - {c}) - {p}) v" for v
      using that by (auto simp: held_except_def)
    moreover have "length (tree_nodes (prune_cascade p u)) < length (tree_nodes t)"
      using ih(1) d(5) by (simp add: pruned_def)
    ultimately show ?thesis using pruned_trans [OF pu ih(1)] ih(2) hu unfolding r u_def [symmetric] by blast
  qed
qed

lemmas prune_cascade_pruned = prune_cascade_inv [THEN conjunct1]
  and prune_cascade_held = prune_cascade_inv [THEN conjunct2, THEN conjunct1, rule_format]
  and prune_cascade_shrinks = prune_cascade_inv [THEN conjunct2, THEN conjunct2, rule_format]

lemma prune_cascade_removes:
  assumes "tree_inv t" and "prunable t c"
  shows "shape (prune_cascade c t) c = None"
proof -
  obtain h p where s: "shape t c = Some (h, Some p)" "prune_cascade c t = prune_cascade p (detach c p h t)"
    using prune_cascade_step [OF assms] .
  have c: "c \<noteq> ROOT_ID" "child_of t c = Map.empty" using assms(2) by (auto simp: prunable_def)
  note d = detach_inv [OF assms(1) s(1) c]
  have "shape (prune_cascade c t) \<subseteq>\<^sub>m shape (detach c p h t)"
    using prune_cascade_pruned [OF d(1)] by (simp add: s(2) pruned_def)
  then have "c \<notin> dom (shape (prune_cascade c t))" using map_le_implies_dom_le d(2) by fastforce
  then show ?thesis by blast
qed

end
