(* ===== verification/Kv_Tree_Ops.thy ===== *)
theory Kv_Tree_Ops
  imports Kv_Tree_Inv
begin

text \<open>
  What each operation of the block tree does to the shape of the tree and to the workers of its nodes, and
  that each keeps the invariant of \<open>Kv_Tree_Inv\<close>.
\<close>

section \<open>Finding the parent\<close>

lemma finite_shape: "finite {i. shape t i \<noteq> None}"
  using finite_dom_map_of [of "tree_nodes t"] by (simp add: shape_None_iff node_of_def dom_def)

lemma finite_hash_nodes: "tree_inv t \<Longrightarrow> finite (hash_nodes t h)"
  by (rule finite_subset [OF _ finite_shape [of t]]) (auto simp: tree_inv_hash)

lemma resolve_parent_cases:
  assumes "hash_order ord" and "tree_inv t"
  obtains "resolve_parent ord t w ph = ROOT_ID"
  | h where "ph = Some h" and "resolve_parent ord t w ph \<in> hash_nodes t h"
proof (cases "\<exists>h ids. ph = Some h \<and> map_of (by_hash t) h = Some ids")
  case False
  then have "resolve_parent ord t w ph = ROOT_ID" by (auto simp: resolve_parent_def split: option.splits)
  then show ?thesis using that by blast
next
  case True
  then obtain h ids where h: "ph = Some h" "map_of (by_hash t) h = Some ids" by blast
  have ids: "hash_nodes t h = ids" "ids \<noteq> {}" "finite ids"
    using h(2) tree_inv_hash_ne [OF assms(2), of h] finite_hash_nodes [OF assms(2), of h] by (auto simp: hash_nodes_def)
  let ?xs = "sorted_list_of_set ids"
  have "hd (ord ?xs) \<in> ids" using hash_order_hd [OF assms(1), of ?xs] ids by simp
  moreover have "i \<in> ids" if "find P (ord ?xs) = Some i" for P i
    using that hash_order_set [OF assms(1), of ?xs] ids(3) by (auto simp: find_Some_iff dest!: nth_mem)
  ultimately have "resolve_parent ord t w ph = ROOT_ID \<or> resolve_parent ord t w ph \<in> ids"
    by (auto simp: resolve_parent_def h Let_def split: option.splits)
  then show ?thesis using that h(1) ids(1) by blast
qed

lemma resolve_parent_exists:
  assumes "hash_order ord" and "tree_inv t"
  shows "shape t (resolve_parent ord t w ph) \<noteq> None"
  by (rule resolve_parent_cases [OF assms, of w ph]) (use tree_inv_root [OF assms(2)] tree_inv_hash [OF assms(2)] in auto)

section \<open>Insertion\<close>

lemma insert_step:
  assumes inv: "tree_inv t" and cur: "shape t cur \<noteq> None"
  obtains i t1 where "\<And>hs. tree_insert_loop now w cur (h # hs) t = tree_insert_loop now w i hs t1" and "tree_inv t1"
    and "shape t \<subseteq>\<^sub>m shape t1" and "child_of t1 cur h = Some i"
    and "workers_of t1 = (workers_of t)(i := insert w (workers_of t i))"
    and "\<And>X. held_except X t \<Longrightarrow> held_except X t1"
proof (cases "child_of t cur h")
  case (Some i)
  obtain c where c: "node_of t i = Some c" using tree_inv_child [OF inv Some] by (auto simp: shape_def)
  let ?c = "c\<lparr>nd_workers := insert w (nd_workers c), nd_last_used := now\<rparr>"
  have s: "same_shape ?c c" by (simp add: same_shape_def)
  note n = set_node_same_shape [OF c s]
  have "tree_insert_loop now w cur (h # hs) t = tree_insert_loop now w i hs (set_node i ?c t)" for hs
    using Some c by (simp add: child_of_def)
  moreover have "held_except X (set_node i ?c t)" if "held_except X t" for X
    using that by (auto simp: held_except_def n)
  moreover have "nd_workers ?c = insert w (workers_of t i)" using c by (simp add: workers_of_def)
  ultimately show ?thesis using that [of i "set_node i ?c t"] inv Some n by simp
next
  case None
  define i where "i = next_id t"
  obtain t' where t': "create_child now cur h t = (Some i, t')" "tree_inv t'"
      "shape t' = (shape t)(i := Some (h, Some cur))" "shape t i = None"
      "child_of t' = (child_of t)(cur := (child_of t cur)(h := Some i))"
      "workers_of t' = workers_of t" and c: "node_of t' i = Some (new_child now h cur)"
    using create_child_inv [OF inv cur None, of now] unfolding i_def by blast
  let ?c = "(new_child now h cur)\<lparr>nd_workers := insert w (nd_workers (new_child now h cur)), nd_last_used := now\<rparr>"
  have s: "same_shape ?c (new_child now h cur)" by (simp add: same_shape_def)
  note n = set_node_same_shape [OF c s]
  have "tree_insert_loop now w cur (h # hs) t = tree_insert_loop now w i hs (set_node i ?c t')" for hs
    using None c t'(1) by (simp add: child_of_def)
  moreover have "held_except X (set_node i ?c t')" if "held_except X t" for X
    using that by (auto simp: held_except_def n t'(3,5,6))
  moreover have "shape t \<subseteq>\<^sub>m shape t'" using t'(3,4) by (auto simp: map_le_def)
  moreover have "nd_workers ?c = insert w (workers_of t i)"
    using t'(4) by (simp add: workers_of_def new_child_def shape_None_iff)
  ultimately show ?thesis using that [of i "set_node i ?c t'"] t' n by simp
qed

lemma insert_loop_inv:
  assumes "tree_inv t" and "shape t cur \<noteq> None"
  shows "tree_inv (tree_insert_loop now w cur hs t) \<and> shape t \<subseteq>\<^sub>m shape (tree_insert_loop now w cur hs t) \<and>
    (held_except X t \<longrightarrow> held_except X (tree_insert_loop now w cur hs t))"
  using assms
proof (induction hs arbitrary: cur t)
  case (Cons h hs)
  obtain i t1 where s: "tree_insert_loop now w cur (h # hs) t = tree_insert_loop now w i hs t1" "tree_inv t1"
      "shape t \<subseteq>\<^sub>m shape t1" "child_of t1 cur h = Some i" "held_except X t \<Longrightarrow> held_except X t1"
    using insert_step [OF Cons.prems, of now w h] by metis
  have "shape t1 i \<noteq> None" using tree_inv_child [OF s(2,4)] by simp
  from Cons.IH [OF s(2) this] show ?case using s by (auto intro: map_le_trans)
qed simp

lemma tree_insert_inv:
  assumes "hash_order ord" and "tree_inv t"
  shows "tree_inv (tree_insert ord now w ph hs t)" and "shape t \<subseteq>\<^sub>m shape (tree_insert ord now w ph hs t)"
    and "held_except X t \<Longrightarrow> held_except X (tree_insert ord now w ph hs t)"
  using insert_loop_inv [OF assms(2) resolve_parent_exists [OF assms]] assms(2) by (simp_all add: tree_insert_def)

section \<open>Removal\<close>

text \<open>Dropping a worker from one node.\<close>

lemma drop_worker:
  fixes W :: "kv_event_worker set"
  assumes "tree_inv t" and "node_of t i = Some n"
  defines "u \<equiv> set_node i (n\<lparr>nd_workers := nd_workers n - W\<rparr>) t"
  shows "tree_inv u" and "shape u = shape t" and "child_of u = child_of t"
    and "workers_of u = (workers_of t)(i := workers_of t i - W)" and "length (tree_nodes u) = length (tree_nodes t)"
    and "node_of u i = Some (n\<lparr>nd_workers := nd_workers n - W\<rparr>)"
    and "held_except X t \<Longrightarrow> held_except (insert i X) u"
proof -
  let ?n = "n\<lparr>nd_workers := nd_workers n - W\<rparr>"
  have s: "same_shape ?n n" by (simp add: same_shape_def)
  note n = set_node_same_shape [OF assms(2) s, folded u_def]
  show "tree_inv u" "shape u = shape t" "child_of u = child_of t" "length (tree_nodes u) = length (tree_nodes t)"
    using n assms(1) by simp_all
  show w: "workers_of u = (workers_of t)(i := workers_of t i - W)" using n assms(2) by (simp add: workers_of_def)
  show "node_of u i = Some ?n" by (simp add: u_def node_of_set_node)
  show "held_except X t \<Longrightarrow> held_except (insert i X) u" by (auto simp: held_except_def n w)
qed

lemma remove_loop_spec:
  assumes "tree_inv t"
  shows "tree_inv (tree_remove_loop w ids t) \<and> shape (tree_remove_loop w ids t) \<subseteq>\<^sub>m shape t \<and>
    workers_of (tree_remove_loop w ids t) = (\<lambda>i. if i \<in> set ids then workers_of t i - {w} else workers_of t i) \<and>
    (held_except X t \<longrightarrow> held_except X (tree_remove_loop w ids t))"
  using assms
proof (induction ids arbitrary: t)
  case (Cons i ids)
  show ?case
  proof (cases "node_of t i")
    case None
    then have "workers_of t i = {}" by (simp add: workers_of_def)
    then show ?thesis using Cons None by (auto simp: fun_eq_iff)
  next
    case (Some n)
    define n' where "n' = n\<lparr>nd_workers := nd_workers n - {w}\<rparr>"
    define t1 where "t1 = set_node i n' t"
    define t2 where "t2 = (if empty_node n' then prune_cascade i t1 else t1)"
    note d = drop_worker [where W = "{w}", OF Cons.prems Some, folded n'_def, folded t1_def]
    have p: "pruned t1 (prune_cascade i t1)" "held_except (insert i X) t1 \<Longrightarrow> held_except (insert i X - {i}) (prune_cascade i t1)"
      using prune_cascade_pruned [OF d(1)] prune_cascade_held [OF d(1)] by blast+
    have t2: "pruned t1 t2" using p(1) d(1) by (simp add: t2_def pruned_refl)
    have h: "held_except X t2" if "held_except X t"
    proof (cases "empty_node n'")
      case True
      then show ?thesis using p(2) [OF d(7) [OF that]] by (auto simp: t2_def held_except_def)
    next
      case False
      then show ?thesis using d(7) [OF that] empty_node_iff [OF d(6)] by (auto simp: t2_def held_except_def)
    qed
    have r: "tree_remove_loop w (i # ids) t = tree_remove_loop w ids t2" using Some by (simp add: n'_def t1_def t2_def Let_def)
    have t2': "tree_inv t2" "shape t2 \<subseteq>\<^sub>m shape t" "workers_of t2 = (workers_of t)(i := workers_of t i - {w})"
      using t2 d by (simp_all add: pruned_def)
    show ?thesis using Cons.IH [OF t2'(1)] t2' h unfolding r by (auto simp: fun_eq_iff intro: map_le_trans)
  qed
qed simp

lemma tree_remove_spec:
  fixes w :: kv_event_worker and hs :: "int list"
  assumes "hash_order ord" and "tree_inv t"
  defines "u \<equiv> tree_remove ord w hs t"
  shows "tree_inv u" and "shape u \<subseteq>\<^sub>m shape t"
    and "workers_of u i = (if \<exists>h\<in>set hs. i \<in> hash_nodes t h then workers_of t i - {w} else workers_of t i)"
    and "held_except X t \<Longrightarrow> held_except X u"
proof -
  let ?ids = "concat (map (\<lambda>h. ord (sorted_list_of_set (hash_nodes t h))) hs)"
  have "i \<in> set ?ids \<longleftrightarrow> (\<exists>h\<in>set hs. i \<in> hash_nodes t h)"
    using hash_order_set [OF assms(1)] finite_hash_nodes [OF assms(2)] by auto
  then show "workers_of u i = (if \<exists>h\<in>set hs. i \<in> hash_nodes t h then workers_of t i - {w} else workers_of t i)"
    using remove_loop_spec [OF assms(2), of w ?ids] by (simp add: u_def tree_remove_def)
  show "tree_inv u" "shape u \<subseteq>\<^sub>m shape t" "held_except X t \<Longrightarrow> held_except X u"
    using remove_loop_spec [OF assms(2), of w ?ids X] by (simp_all add: u_def tree_remove_def)
qed

section \<open>Clearing a worker\<close>

lemma clear_loop_spec:
  assumes "tree_inv t" and "clear_loop w ids t cs = (cs', u)"
  shows "tree_inv u \<and> shape u = shape t \<and> child_of u = child_of t \<and>
    workers_of u = (\<lambda>i. if i \<in> set ids then workers_of t i - {w} else workers_of t i) \<and>
    (held_except (set cs) t \<longrightarrow> held_except (set cs') u)"
  using assms
proof (induction ids arbitrary: t cs)
  case (Cons i ids)
  show ?case
  proof (cases "node_of t i")
    case None
    then have "workers_of t i = {}" by (simp add: workers_of_def)
    then show ?thesis using Cons None by (auto simp: fun_eq_iff)
  next
    case (Some n)
    define n' where "n' = n\<lparr>nd_workers := nd_workers n - {w}\<rparr>"
    define t1 where "t1 = set_node i n' t"
    define cs1 where "cs1 = (if w \<in> nd_workers n \<and> empty_node n' then cs @ [i] else cs)"
    note d = drop_worker [where W = "{w}", OF Cons.prems(1) Some, folded n'_def, folded t1_def]
    have r: "clear_loop w ids t1 cs1 = (cs', u)" using Cons.prems(2) Some by (simp add: n'_def t1_def cs1_def Let_def)
    have "held_except (set cs1) t1" if "held_except (set cs) t"
    proof (cases "w \<in> nd_workers n \<and> empty_node n'")
      case True
      then show ?thesis using d(7) [OF that] by (simp add: cs1_def)
    next
      case False
      then have "workers_of t1 i \<noteq> {} \<or> child_of t1 i \<noteq> Map.empty \<or> (\<forall>j. workers_of t1 j = workers_of t j)"
        using empty_node_iff [OF d(6)] Some by (auto simp: d(4) workers_of_def)
      then show ?thesis using d(7) [OF that] that False d(2,3) by (auto simp: cs1_def held_except_def)
    qed
    then show ?thesis using Cons.IH [OF d(1) r] d by (auto simp: fun_eq_iff)
  qed
qed simp

lemma prune_all_spec:
  assumes "tree_inv t"
  shows "pruned t (prune_all ids t) \<and> (held_except X t \<longrightarrow> held_except (X - set ids) (prune_all ids t))"
  using assms
proof (induction ids arbitrary: t X)
  case (Cons i ids)
  define u where "u = prune_cascade i t"
  have u: "pruned t u" "held_except X t \<Longrightarrow> held_except (X - {i}) u"
    using prune_cascade_pruned [OF Cons.prems] prune_cascade_held [OF Cons.prems] by (simp_all add: u_def)
  have r: "prune_all (i # ids) t = prune_all ids u"
    using prune_cascade_stop [of t i] by (auto simp: u_def prunable_def shape_None_iff)
  have e: "X - set (i # ids) = X - {i} - set ids" by auto
  show ?case using Cons.IH [of u "X - {i}"] u unfolding r e by (auto simp: pruned_def intro: map_le_trans)
qed (simp add: pruned_refl)

lemma tree_clear_spec:
  fixes w :: kv_event_worker
  assumes "hash_order ord" and "tree_inv t"
  defines "u \<equiv> tree_clear_worker ord w t"
  shows "tree_inv u" and "shape u \<subseteq>\<^sub>m shape t"
    and "workers_of u i = (if i \<noteq> ROOT_ID then workers_of t i - {w} else workers_of t i)"
    and "held_except {} t \<Longrightarrow> held_except {} u"
proof -
  define ids where "ids = filter (\<lambda>i. i \<noteq> ROOT_ID) (ord (map fst (tree_nodes t)))"
  obtain cs v where c: "clear_loop w ids t [] = (cs, v)" by fastforce
  have u: "u = prune_all cs v" using c by (simp add: u_def tree_clear_worker_def ids_def)
  have ids: "i \<in> set ids \<longleftrightarrow> i \<noteq> ROOT_ID \<and> node_of t i \<noteq> None" for i
    using hash_order_set [OF assms(1)] by (auto simp: ids_def node_of_def map_of_eq_None_iff)
  note l = clear_loop_spec [OF assms(2) c]
  have v: "tree_inv v" using l by simp
  note p = prune_all_spec [OF v, of cs]
  show "tree_inv u" "shape u \<subseteq>\<^sub>m shape t" using l p [of "{}"] by (simp_all add: u pruned_def)
  have "workers_of u i = (if i \<in> set ids then workers_of t i - {w} else workers_of t i)"
    using l p [of "{}"] by (simp add: u pruned_def)
  moreover have "workers_of t i = {}" if "node_of t i = None" using that by (simp add: workers_of_def)
  ultimately show "workers_of u i = (if i \<noteq> ROOT_ID then workers_of t i - {w} else workers_of t i)"
    by (auto simp: ids)
  show "held_except {} t \<Longrightarrow> held_except {} u" using l p [of "set cs"] by (simp add: u)
qed

section \<open>Matching\<close>

lemma match_loop_frame:
  assumes "tree_inv t" and "tree_match_loop now cur hs m f t = (m', f', u)"
  shows "tree_inv u \<and> shape u = shape t \<and> child_of u = child_of t \<and> workers_of u = workers_of t \<and> by_hash u = by_hash t"
  using assms
proof (induction hs arbitrary: cur m f t)
  case (Cons h hs)
  show ?case
  proof (cases "child_of t cur h")
    case None
    then show ?thesis using Cons.prems by (simp add: child_of_def)
  next
    case (Some i)
    obtain c where c: "node_of t i = Some c" using tree_inv_child [OF Cons.prems(1) Some] by (auto simp: shape_def)
    let ?c = "c\<lparr>nd_last_used := now\<rparr>"
    note n = set_node_same_shape [OF c, of ?c]
    have w: "workers_of (set_node i ?c t) = workers_of t"
      using c by (auto simp: workers_of_def node_of_set_node fun_eq_iff)
    have r: "tree_match_loop now i hs (m + 1) (Some i) (set_node i ?c t) = (m', f', u)"
      using Cons.prems(2) Some c by (simp add: child_of_def)
    then show ?thesis using Cons.IH [OF _ r] Cons.prems(1) n w by (simp add: same_shape_def)
  qed
qed simp

lemma tree_match_frame:
  assumes "tree_inv t" and "u = snd (tree_match_prefix ord now ph hs t)"
  shows "tree_inv u" and "shape u = shape t" and "child_of u = child_of t" and "workers_of u = workers_of t"
    and "held_except X t \<Longrightarrow> held_except X u"
proof -
  define start where "start = (case ph of None \<Rightarrow> ROOT_ID | Some ph \<Rightarrow> (case map_of (by_hash t) ph of None \<Rightarrow> ROOT_ID
    | Some ids \<Rightarrow> (if card ids = 1 then hd (ord (sorted_list_of_set ids)) else ROOT_ID)))"
  obtain m f v where v: "tree_match_loop now start hs 0 None t = (m, f, v)" by (metis prod_cases3)
  have "u = (if hs = [] then t else v)"
    by (simp add: assms(2) tree_match_prefix_def Let_def start_def [symmetric] v)
  then show "tree_inv u" "shape u = shape t" "child_of u = child_of t" "workers_of u = workers_of t"
    "held_except X t \<Longrightarrow> held_except X u"
    using match_loop_frame [OF assms(1) v] assms(1) by (simp_all add: held_except_def)
qed

end
