(* ===== verification/Kv_Tree_Evict.thy ===== *)
theory Kv_Tree_Evict
  imports Kv_Tree_Ops
begin

text \<open>
  Eviction in the block tree.  A tree with a node besides the root has a leaf, because ids grow away from
  the root; the scan finds a least recently used one; pruning it removes at least one node, so the loop of
  \<open>evict_lru\<close> reaches its limit before its bound on the number of turns does.
\<close>

definition leaf :: "tree_state \<Rightarrow> node_id \<Rightarrow> bool" where
  "leaf t i \<longleftrightarrow> i \<noteq> ROOT_ID \<and> shape t i \<noteq> None \<and> child_of t i = Map.empty"

definition last_used :: "tree_state \<Rightarrow> node_id \<Rightarrow> nat" where
  "last_used t i = (case node_of t i of None \<Rightarrow> 0 | Some n \<Rightarrow> nd_last_used n)"

lemma leaf_node: "node_of t i = Some n \<Longrightarrow> leaf t i \<longleftrightarrow> i \<noteq> ROOT_ID \<and> nd_children n = []"
  by (simp add: leaf_def shape_def child_of_def fun_eq_iff) (metis map_of_eq_empty_iff ext)

lemma leaf_exists:
  assumes "tree_inv t" and "0 < node_count t"
  shows "\<exists>i. leaf t i"
proof -
  let ?S = "{i. shape t i \<noteq> None}"
  have S: "?S = fst ` set (tree_nodes t)" by (auto simp: shape_None_iff node_of_def map_of_eq_None_iff)
  have "card ?S = length (tree_nodes t)" using distinct_card [OF tree_inv_distinct [OF assms(1)]] by (simp add: S del: not_None_eq)
  then have "\<not> ?S \<subseteq> {ROOT_ID}" using assms(2) card_mono [of "{ROOT_ID}" ?S] by (auto simp: node_count_def)
  then obtain j where j: "shape t j \<noteq> None" "j \<noteq> ROOT_ID" by blast
  define i where "i = Max ?S"
  have i: "i \<in> ?S" "\<And>k. k \<in> ?S \<Longrightarrow> k \<le> i"
    using Max_in [OF finite_shape] Max_ge [OF finite_shape] j(1) unfolding i_def by blast+
  have "i \<noteq> ROOT_ID" using i(2) [of j] j by (auto simp: ROOT_ID_def)
  moreover have "child_of t i h = None" for h
  proof (cases "child_of t i h")
    case (Some c)
    have c: "shape t c = Some (h, Some i)" by (rule tree_inv_child [OF assms(1) Some])
    have "i < c" using tree_inv_parent [OF assms(1) c child_not_root [OF assms(1) Some]] by simp
    then show ?thesis using i(2) [of c] c by simp
  qed
  ultimately show ?thesis using i(1) by (auto simp: leaf_def)
qed

text \<open>The scan returns a leaf whose time is the least, among the leaves listed and the one it starts from.\<close>

definition oldest_ok :: "tree_state \<Rightarrow> node_id set \<Rightarrow> (nat \<times> node_id) option \<Rightarrow> bool" where
  "oldest_ok t S r = (case r of None \<Rightarrow> (\<forall>i\<in>S. \<not> leaf t i)
     | Some (ts, v) \<Rightarrow> leaf t v \<and> v \<in> S \<and> ts = last_used t v \<and> (\<forall>i\<in>S. leaf t i \<longrightarrow> last_used t v \<le> last_used t i))"

lemma oldest_leaf_ok: "oldest_ok t S r \<Longrightarrow> oldest_ok t (S \<union> set ids) (oldest_leaf t ids r)"
proof (induction ids arbitrary: S r)
  case (Cons i ids)
  show ?case
  proof (cases "leaf t i")
    case False
    then have "oldest_leaf t (i # ids) r = oldest_leaf t ids r" "oldest_ok t (insert i S) r"
      using Cons.prems by (auto simp: leaf_node oldest_ok_def split: option.splits)
    then show ?thesis using Cons.IH [of "insert i S" r] by simp
  next
    case True
    then obtain n where n: "node_of t i = Some n" "i \<noteq> ROOT_ID" "nd_children n = []"
      using leaf_node by (fastforce simp: leaf_def shape_def)
    define r' where "r' = (case r of None \<Rightarrow> Some (nd_last_used n, i)
      | Some (cur, j) \<Rightarrow> if nd_last_used n < cur then Some (nd_last_used n, i) else r)"
    have e: "oldest_leaf t (i # ids) r = oldest_leaf t ids r'" using n by (simp add: r'_def)
    have l: "last_used t i = nd_last_used n" using n(1) by (simp add: last_used_def)
    have "oldest_ok t (insert i S) r'"
      using Cons.prems True l by (fastforce simp: r'_def oldest_ok_def split: option.splits)
    then show ?thesis using Cons.IH [of "insert i S" r'] unfolding e by simp
  qed
qed simp

lemma evict_one_spec:
  assumes "hash_order ord" and "tree_inv t" and "0 < node_count t"
  obtains v t' where "evict_one ord t = Some t'" and "leaf t v" and "\<And>i. leaf t i \<Longrightarrow> last_used t v \<le> last_used t i"
    and "tree_inv t'" and "shape t' \<subseteq>\<^sub>m shape t" and "workers_of t' = (workers_of t)(v := {})"
    and "shape t' v = None" and "length (tree_nodes t') < length (tree_nodes t)" and "\<And>X. held_except X t \<Longrightarrow> held_except X t'"
proof -
  let ?ids = "ord (map fst (tree_nodes t))"
  have ids: "i \<in> set ?ids" if "leaf t i" for i
    using that hash_order_set [OF assms(1), of "map fst (tree_nodes t)"]
    by (auto simp: leaf_def shape_def node_of_def dest!: map_of_SomeD) (metis fst_conv image_eqI)
  have ok: "oldest_ok t (set ?ids) (oldest_leaf t ?ids None)"
    using oldest_leaf_ok [of t "{}" None ?ids] by (simp add: oldest_ok_def)
  obtain ts v where v: "oldest_leaf t ?ids None = Some (ts, v)" "leaf t v"
      "\<And>i. leaf t i \<Longrightarrow> last_used t v \<le> last_used t i"
    using ok ids leaf_exists [OF assms(2,3)] by (auto simp: oldest_ok_def split: option.splits)
  then obtain n where n: "node_of t v = Some n" by (auto simp: leaf_def shape_def)
  define u where "u = set_node v (n\<lparr>nd_workers := {}\<rparr>) t"
  have u': "u = set_node v (n\<lparr>nd_workers := nd_workers n - UNIV\<rparr>) t" by (simp add: u_def)
  note d = drop_worker [where W = UNIV, OF assms(2) n, folded u']
  have e: "evict_one ord t = Some (prune_cascade v u)" using v(1) n by (simp add: evict_one_def u_def)
  have p: "prunable u v" using v(2) d by (simp add: prunable_def leaf_def)
  note pr = prune_cascade_pruned [OF d(1), of v]
  have "held_except X (prune_cascade v u)" if "held_except X t" for X
    using prune_cascade_held [OF d(1) d(7) [OF that], of v] by (auto simp: held_except_def)
  then show ?thesis
    using that [OF e v(2,3)] pr d prune_cascade_removes [OF d(1) p] prune_cascade_shrinks [OF d(1) p] by (simp add: pruned_def)
qed

text \<open>What eviction may change: nodes and workers disappear, and nothing else.\<close>

definition evicted :: "tree_state \<Rightarrow> tree_state \<Rightarrow> bool" where
  "evicted t u \<longleftrightarrow> tree_inv u \<and> shape u \<subseteq>\<^sub>m shape t \<and> (\<forall>i. workers_of u i = workers_of t i \<or> workers_of u i = {}) \<and>
     length (tree_nodes u) \<le> length (tree_nodes t)"

lemma evicted_refl: "tree_inv t \<Longrightarrow> evicted t t"
  by (simp add: evicted_def)

lemma evicted_trans: "evicted t u \<Longrightarrow> evicted u v \<Longrightarrow> evicted t v"
  unfolding evicted_def by (auto intro: map_le_trans)

lemma pruned_evicted: "pruned t u \<Longrightarrow> evicted t u"
  by (simp add: pruned_def evicted_def)

lemma evict_empty_loop_spec:
  assumes "tree_inv t"
  shows "evicted t (evict_empty_loop m ids t) \<and> (held_except X t \<longrightarrow> held_except X (evict_empty_loop m ids t))"
  using assms
proof (induction ids arbitrary: t)
  case (Cons i ids)
  define u where "u = (if node_of t i \<noteq> None then prune_cascade i t else t)"
  have u: "pruned t u" "held_except X t \<Longrightarrow> held_except X u"
    using prune_cascade_pruned [OF Cons.prems, of i] prune_cascade_held [OF Cons.prems, of X i] Cons.prems
    by (auto simp: u_def pruned_refl held_except_def)
  have "tree_inv u" using u(1) by (simp add: pruned_def)
  note ih = Cons.IH [OF this]
  have r: "evict_empty_loop m (i # ids) t = (if node_count t \<le> m then t else evict_empty_loop m ids u)"
    by (simp add: u_def)
  show ?case using ih u Cons.prems evicted_trans [OF pruned_evicted [OF u(1)]] unfolding r by (simp add: evicted_refl)
qed (simp add: evicted_refl)

lemma evict_loop_spec:
  assumes "hash_order ord" and "tree_inv t"
  shows "evicted t (evict_loop k ord m t) \<and> (held_except X t \<longrightarrow> held_except X (evict_loop k ord m t)) \<and>
    (length (tree_nodes t) \<le> k \<longrightarrow> node_count (evict_loop k ord m t) \<le> m)"
  using assms(2)
proof (induction k arbitrary: t)
  case 0
  then show ?case by (simp add: evicted_refl node_count_def)
next
  case (Suc k)
  show ?case
  proof (cases "node_count t > m")
    case False
    then show ?thesis using Suc.prems by (simp add: evicted_refl)
  next
    case True
    then have pos: "0 < node_count t" by simp
    obtain v t' where s: "evict_one ord t = Some t'" "tree_inv t'" "shape t' \<subseteq>\<^sub>m shape t"
        "workers_of t' = (workers_of t)(v := {})" "length (tree_nodes t') < length (tree_nodes t)"
        "held_except X t \<Longrightarrow> held_except X t'"
      using evict_one_spec [OF assms(1) Suc.prems pos] by metis
    have "evicted t t'" using s by (simp add: evicted_def)
    then show ?thesis using Suc.IH [OF s(2)] s True by (auto intro: evicted_trans)
  qed
qed

lemma evict_lru_spec:
  assumes "hash_order ord" and "tree_inv t" and "evict_lru ord m t = (n, u)"
  shows "evicted t u" and "held_except X t \<Longrightarrow> held_except X u" and "node_count u \<le> m"
    and "n + node_count u = node_count t"
proof -
  define ids where "ids = filter (\<lambda>i. i \<noteq> ROOT_ID \<and> (case node_of t i of None \<Rightarrow> False | Some n \<Rightarrow> empty_node n))
    (ord (map fst (tree_nodes t)))"
  define t1 where "t1 = evict_empty_loop m ids t"
  have t1: "evicted t t1" "held_except X t \<Longrightarrow> held_except X t1"
    using evict_empty_loop_spec [OF assms(2)] by (auto simp: t1_def)
  have i1: "tree_inv t1" using t1(1) by (simp add: evicted_def)
  note l = evict_loop_spec [OF assms(1) i1, of "length (tree_nodes t1) + 1" m]
  have u: "n = 0 \<and> u = t \<and> node_count t \<le> m \<or>
      n = length (tree_nodes t) - length (tree_nodes u) \<and> u = evict_loop (length (tree_nodes t1) + 1) ord m t1"
    using assms(3) unfolding evict_lru_def Let_def ids_def [symmetric] t1_def [symmetric]
    by (auto simp del: evict_loop.simps split: if_splits)
  then show e: "evicted t u" and "held_except X t \<Longrightarrow> held_except X u" and "node_count u \<le> m"
    using l [of X] t1 assms(2) by (auto intro: evicted_refl evicted_trans)
  have "tree_nodes u \<noteq> []"
    using e tree_inv_root [of u] by (auto simp: evicted_def shape_def node_of_def)
  then show "n + node_count u = node_count t"
    using u e by (cases "tree_nodes u") (auto simp: evicted_def node_count_def)
qed

end
