(* ===== verification/Kv_Tree_Refine.thy ===== *)
theory Kv_Tree_Refine
  imports Kv_Tree_Evict
begin

text \<open>
  The block tree as its callers see it: a relation between chains of block hashes and the workers that hold
  them.  \<open>walk\<close> follows a chain from the root; \<open>holds\<close> is the abstraction.
\<close>

section \<open>Chains\<close>

fun walk :: "tree_state \<Rightarrow> node_id \<Rightarrow> int list \<Rightarrow> node_id option" where
  "walk t i [] = Some i"
| "walk t i (h # hs) = (case child_of t i h of None \<Rightarrow> None | Some c \<Rightarrow> walk t c hs)"

definition holds :: "tree_state \<Rightarrow> int list \<Rightarrow> kv_event_worker \<Rightarrow> bool" where
  "holds t c w \<longleftrightarrow> c \<noteq> [] \<and> (\<exists>i. walk t ROOT_ID c = Some i \<and> w \<in> workers_of t i)"

lemma walk_append: "walk t i (xs @ ys) = (case walk t i xs of None \<Rightarrow> None | Some j \<Rightarrow> walk t j ys)"
  by (induction xs arbitrary: i) (auto split: option.splits)

lemma walk_snoc: "walk t i (xs @ [h]) = Some c \<longleftrightarrow> (\<exists>j. walk t i xs = Some j \<and> child_of t j h = Some c)"
  by (auto simp: walk_append split: option.splits)

lemma walk_cong: "child_of u = child_of t \<Longrightarrow> walk u = walk t"
proof -
  assume c: "child_of u = child_of t"
  have "walk u i hs = walk t i hs" for i hs by (induction hs arbitrary: i) (simp_all add: c split: option.splits)
  then show ?thesis by blast
qed

lemma walk_exists: "tree_inv t \<Longrightarrow> walk t ROOT_ID c = Some i \<Longrightarrow> shape t i \<noteq> None"
  using tree_inv_root tree_inv_child by (cases c rule: rev_cases) (fastforce simp: walk_snoc)+

lemma walk_last: "tree_inv t \<Longrightarrow> walk t ROOT_ID c = Some i \<Longrightarrow> c \<noteq> [] \<Longrightarrow> i \<noteq> ROOT_ID \<and> (\<exists>p. shape t i = Some (last c, p))"
  using tree_inv_child child_not_root by (cases c rule: rev_cases) (fastforce simp: walk_snoc)+

lemma walk_mono:
  assumes "tree_inv t" and "tree_inv u" and "shape t \<subseteq>\<^sub>m shape u"
  shows "walk t ROOT_ID c = Some i \<Longrightarrow> walk u ROOT_ID c = Some i"
proof (induction c arbitrary: i rule: rev_induct)
  case (snoc h c)
  then obtain j where j: "walk t ROOT_ID c = Some j" "child_of t j h = Some i" by (auto simp: walk_snoc)
  have "shape u i = Some (h, Some j)"
    using tree_inv_child [OF assms(1) j(2)] assms(3) by (metis domI map_le_def)
  then show ?case using snoc.IH [OF j(1)] assms(2) by (simp add: walk_snoc child_iff)
qed simp

lemma walk_back:
  assumes "tree_inv t" and "tree_inv u" and "shape t \<subseteq>\<^sub>m shape u"
  shows "walk u ROOT_ID c = Some i \<Longrightarrow> shape t i \<noteq> None \<Longrightarrow> walk t ROOT_ID c = Some i"
proof (induction c arbitrary: i rule: rev_induct)
  case (snoc h c)
  then obtain j where j: "walk u ROOT_ID c = Some j" "child_of u j h = Some i" by (auto simp: walk_snoc)
  have "shape t i = shape u i" using snoc.prems(2) assms(3) by (auto simp: map_le_def dom_def)
  then have i: "child_of t j h = Some i" using tree_inv_child [OF assms(2) j(2)] assms(1) by (simp add: child_iff)
  then have "shape t j \<noteq> None" by (auto simp: child_of_def shape_def split: option.splits)
  then show ?case using snoc.IH [OF j(1)] i by (simp add: walk_snoc)
qed simp

lemma walk_inj:
  assumes "tree_inv t"
  shows "walk t ROOT_ID c = Some i \<Longrightarrow> walk t ROOT_ID d = Some i \<Longrightarrow> c = d"
proof (induction c arbitrary: d i rule: rev_induct)
  case Nil
  then show ?case using walk_last [OF assms Nil.prems(2)] by auto
next
  case (snoc h c)
  then have "d \<noteq> []" using walk_last [OF assms snoc.prems(1)] by auto
  then obtain e k where d: "d = e @ [k]" by (metis rev_exhaust)
  obtain j j' where j: "walk t ROOT_ID c = Some j" "child_of t j h = Some i" "walk t ROOT_ID e = Some j'" "child_of t j' k = Some i"
    using snoc.prems by (auto simp: walk_snoc d)
  then have "h = k" "j = j'" using assms by (simp_all add: child_iff)
  then show ?case using snoc.IH [OF j(1)] j(3) d by simp
qed

text \<open>When nodes disappear, a chain is held as the workers of its node in the larger tree say.\<close>

lemma holds_sub:
  assumes "tree_inv t" and "tree_inv u" and "shape t \<subseteq>\<^sub>m shape u"
  shows "holds t c w \<longleftrightarrow> c \<noteq> [] \<and> (\<exists>i. walk u ROOT_ID c = Some i \<and> w \<in> workers_of t i)"
proof -
  have "shape t i \<noteq> None" if "w \<in> workers_of t i" for i
    using that by (auto simp: workers_of_def shape_def split: option.splits)
  then show ?thesis unfolding holds_def using walk_mono [OF assms] walk_back [OF assms] by blast
qed

section \<open>The operations on chains\<close>

lemma prefixes_Cons:
  "(\<exists>k\<in>{1..length (h # hs)}. P (take k (h # hs))) \<longleftrightarrow> P [h] \<or> (\<exists>k\<in>{1..length hs}. P (h # take k hs))" (is "?l \<longleftrightarrow> ?r")
proof
  assume ?l
  then obtain k where k: "1 \<le> k" "k \<le> Suc (length hs)" "P (take k (h # hs))" by auto
  then obtain m where m: "k = Suc m" by (cases k) auto
  then show ?r using k by (cases m) auto
next
  assume ?r
  then show ?l
  proof
    assume "P [h]"
    then show ?l by (intro bexI [of _ 1]) auto
  next
    assume "\<exists>k\<in>{1..length hs}. P (h # take k hs)"
    then obtain k where "k \<in> {1..length hs}" "P (h # take k hs)" by blast
    then show ?l by (intro bexI [of _ "Suc k"]) auto
  qed
qed

lemma insert_loop_holds:
  assumes "tree_inv t" and "walk t ROOT_ID c0 = Some cur"
  shows "holds (tree_insert_loop now w cur hs t) c v \<longleftrightarrow>
    holds t c v \<or> v = w \<and> (\<exists>k\<in>{1..length hs}. c = c0 @ take k hs)"
  using assms
proof (induction hs arbitrary: t cur c0)
  case (Cons h hs)
  obtain i t1 where s: "tree_insert_loop now w cur (h # hs) t = tree_insert_loop now w i hs t1" "tree_inv t1"
      "shape t \<subseteq>\<^sub>m shape t1" "child_of t1 cur h = Some i" "workers_of t1 = (workers_of t)(i := insert w (workers_of t i))"
    using insert_step [OF Cons.prems(1) walk_exists [OF Cons.prems], of now w h] by metis
  have w1: "walk t1 ROOT_ID (c0 @ [h]) = Some i"
    using walk_mono [OF Cons.prems(1) s(2,3) Cons.prems(2)] s(4) by (simp add: walk_snoc)
  then have "walk t1 ROOT_ID c = Some i \<longleftrightarrow> c = c0 @ [h]" using walk_inj [OF s(2)] by blast
  then have "holds t1 c v \<longleftrightarrow> holds t c v \<or> v = w \<and> c = c0 @ [h]"
    unfolding holds_sub [OF Cons.prems(1) s(2,3)] by (auto simp: holds_def s(5))
  moreover have "(\<exists>k\<in>{1..length (h # hs)}. c = c0 @ take k (h # hs)) \<longleftrightarrow>
      c = c0 @ [h] \<or> (\<exists>k\<in>{1..length hs}. c = (c0 @ [h]) @ take k hs)"
    using prefixes_Cons [of h hs "\<lambda>x. c = c0 @ x"] by simp
  ultimately show ?case using Cons.IH [OF s(2) w1] s(1) by auto
qed simp

text \<open>The chain below which an insertion goes on: the one ending in the parent hash, or the empty one.\<close>

lemma resolve_parent_chain:
  assumes "hash_order ord" and "tree_inv t"
  obtains c0 where "walk t ROOT_ID c0 = Some (resolve_parent ord t w ph)" and "c0 = [] \<or> ph = Some (last c0)"
proof -
  have reach: "\<exists>c. walk t ROOT_ID c = Some i" if "shape t i \<noteq> None" for i
    using that
  proof (induction i rule: less_induct)
    case (less i)
    show ?case
    proof (cases "i = ROOT_ID")
      case True
      then show ?thesis by (intro exI [of _ "[]"]) simp
    next
      case False
      obtain h p where sh: "shape t i = Some (h, p)" using less.prems by auto
      obtain q where q: "p = Some q" "q < i" "child_of t q h = Some i" using tree_inv_parent [OF assms(2) sh False] by blast
      have "shape t q \<noteq> None" using q(3) by (auto simp: child_of_def shape_def split: option.splits)
      with less.IH [OF q(2)] obtain c where "walk t ROOT_ID c = Some q" by blast
      then have "walk t ROOT_ID (c @ [h]) = Some i" using q(3) by (simp add: walk_snoc)
      then show ?thesis by blast
    qed
  qed
  show ?thesis
  proof (rule resolve_parent_cases [OF assms, of w ph])
    assume "resolve_parent ord t w ph = ROOT_ID"
    then show ?thesis using that [of "[]"] by simp
  next
    fix h
    assume h: "ph = Some h" "resolve_parent ord t w ph \<in> hash_nodes t h"
    then obtain p where p: "shape t (resolve_parent ord t w ph) = Some (h, p)" "resolve_parent ord t w ph \<noteq> ROOT_ID"
      by (auto simp: tree_inv_hash [OF assms(2)])
    obtain c where c: "walk t ROOT_ID c = Some (resolve_parent ord t w ph)" using reach p(1) by blast
    then have "c \<noteq> []" using p(2) by auto
    then show ?thesis using that [OF c] walk_last [OF assms(2) c] p(1) h(1) by auto
  qed
qed

lemma tree_insert_holds:
  assumes "hash_order ord" and "tree_inv t"
  obtains c0 where "walk t ROOT_ID c0 = Some (resolve_parent ord t w ph)" and "c0 = [] \<or> ph = Some (last c0)"
    and "\<And>c v. holds (tree_insert ord now w ph hs t) c v \<longleftrightarrow>
      holds t c v \<or> v = w \<and> (\<exists>k\<in>{1..length hs}. c = c0 @ take k hs)"
proof -
  obtain c0 where c0: "walk t ROOT_ID c0 = Some (resolve_parent ord t w ph)" "c0 = [] \<or> ph = Some (last c0)"
    using resolve_parent_chain [OF assms, of w ph] by blast
  show ?thesis
    using that [OF c0] insert_loop_holds [OF assms(2) c0(1), of now w hs] by (simp add: tree_insert_def)
qed

lemma tree_remove_holds:
  assumes "hash_order ord" and "tree_inv t"
  shows "holds (tree_remove ord w hs t) c v \<longleftrightarrow> holds t c v \<and> \<not> (v = w \<and> last c \<in> set hs)"
proof -
  note s = tree_remove_spec [where w = w and hs = hs, OF assms]
  have "(\<exists>h\<in>set hs. i \<in> hash_nodes t h) \<longleftrightarrow> last c \<in> set hs" if "c \<noteq> []" "walk t ROOT_ID c = Some i" for i
    using walk_last [OF assms(2) that(2,1)] by (auto simp: tree_inv_hash [OF assms(2)])
  then show ?thesis unfolding holds_sub [OF s(1) assms(2) s(2)] by (auto simp: s(3) holds_def)
qed

lemma tree_clear_holds:
  assumes "hash_order ord" and "tree_inv t"
  shows "holds (tree_clear_worker ord w t) c v \<longleftrightarrow> holds t c v \<and> v \<noteq> w"
proof -
  note s = tree_clear_spec [where w = w, OF assms]
  have "i \<noteq> ROOT_ID" if "c \<noteq> []" "walk t ROOT_ID c = Some i" for i using walk_last [OF assms(2) that(2,1)] by simp
  then show ?thesis unfolding holds_sub [OF s(1) assms(2) s(2)] by (auto simp: s(3) holds_def)
qed

lemma evicted_holds: "tree_inv t \<Longrightarrow> evicted t u \<Longrightarrow> holds u c v \<Longrightarrow> holds t c v"
  unfolding evicted_def using holds_sub [of u t c v] by (auto simp: holds_def)

definition longest_walk :: "tree_state \<Rightarrow> node_id \<Rightarrow> int list \<Rightarrow> nat \<Rightarrow> bool" where
  "longest_walk t i hs k \<longleftrightarrow> k \<le> length hs \<and> walk t i (take k hs) \<noteq> None \<and>
     (k < length hs \<longrightarrow> walk t i (take (Suc k) hs) = None)"

lemma longest_walk_Cons: "child_of t i h = Some c \<Longrightarrow> longest_walk t i (h # hs) (Suc k) \<longleftrightarrow> longest_walk t c hs k"
  by (simp add: longest_walk_def)

lemma match_loop_walk:
  assumes "tree_inv t" and "tree_match_loop now cur hs m f t = (m', f', u)"
  shows "\<exists>k. m' = m + k \<and> longest_walk t cur hs k \<and> f' = (if k = 0 then f else walk t cur (take k hs))"
  using assms
proof (induction hs arbitrary: cur m f t)
  case (Cons h hs)
  show ?case
  proof (cases "child_of t cur h")
    case None
    then show ?thesis using Cons.prems by (intro exI [of _ 0]) (auto simp: child_of_def longest_walk_def)
  next
    case (Some i)
    obtain c where c: "node_of t i = Some c" using tree_inv_child [OF Cons.prems(1) Some] by (auto simp: shape_def)
    let ?t = "set_node i (c\<lparr>nd_last_used := now\<rparr>) t"
    have s: "same_shape (c\<lparr>nd_last_used := now\<rparr>) c" by (simp add: same_shape_def)
    note n = set_node_same_shape [OF c s]
    have r: "tree_match_loop now i hs (m + 1) (Some i) ?t = (m', f', u)"
      using Cons.prems(2) Some c by (simp add: child_of_def)
    have t: "tree_inv ?t" "walk ?t = walk t" using n(3) walk_cong [OF n(1)] Cons.prems(1) by simp_all
    then have l: "longest_walk ?t = longest_walk t" by (simp add: longest_walk_def fun_eq_iff)
    obtain k where k: "m' = m + 1 + k" "longest_walk t i hs k" "f' = (if k = 0 then Some i else walk t i (take k hs))"
      using Cons.IH [OF t(1) r] unfolding t(2) l by blast
    have "f' = walk t cur (take (Suc k) (h # hs))" using k(3) Some by auto
    then show ?thesis using k Some by (intro exI [of _ "Suc k"]) (simp add: longest_walk_Cons)
  qed
qed (simp add: longest_walk_def)

lemma tree_match_spec:
  assumes "tree_inv t" and "tree_match_prefix ord now None hs t = (r, u)"
  shows "longest_walk t ROOT_ID hs (tm_matched_blocks r)"
    and "tm_workers r = {w. holds t (take (tm_matched_blocks r) hs) w}"
proof -
  obtain m f v where l: "tree_match_loop now ROOT_ID hs 0 None t = (m, f, v)" by (metis prod_cases3)
  have k: "longest_walk t ROOT_ID hs m" "f = (if m = 0 then None else walk t ROOT_ID (take m hs))"
    using match_loop_walk [OF assms(1) l] by auto
  have v: "workers_of v = workers_of t" using match_loop_frame [OF assms(1) l] by simp
  have r: "if hs = [] then r = \<lparr>tm_matched_blocks = 0, tm_workers = {}\<rparr>
      else tm_matched_blocks r = m \<and> tm_workers r = (case f of None \<Rightarrow> {} | Some i \<Rightarrow> workers_of v i)"
    using assms(2) l by (auto simp: tree_match_prefix_def workers_of_def split: if_splits option.splits)
  then show "longest_walk t ROOT_ID hs (tm_matched_blocks r)"
    using k(1) by (auto simp: longest_walk_def split: if_splits)
  show "tm_workers r = {w. holds t (take (tm_matched_blocks r) hs) w}"
    using r k by (auto simp: holds_def v longest_walk_def split: if_splits option.splits)
qed

section \<open>Sequences of operations\<close>

datatype tree_op =
  OpInsert "node_id list \<Rightarrow> node_id list" nat kv_event_worker "int option" "int list"
| OpRemove "node_id list \<Rightarrow> node_id list" kv_event_worker "int list"
| OpClear "node_id list \<Rightarrow> node_id list" kv_event_worker
| OpMatch "node_id list \<Rightarrow> node_id list" nat "int option" "int list"
| OpEvict "node_id list \<Rightarrow> node_id list" usize

fun tree_apply :: "tree_op \<Rightarrow> tree_state \<Rightarrow> tree_state" where
  "tree_apply (OpInsert ord now w ph hs) t = tree_insert ord now w ph hs t"
| "tree_apply (OpRemove ord w hs) t = tree_remove ord w hs t"
| "tree_apply (OpClear ord w) t = tree_clear_worker ord w t"
| "tree_apply (OpMatch ord now ph hs) t = snd (tree_match_prefix ord now ph hs t)"
| "tree_apply (OpEvict ord max_size) t = snd (evict_lru ord max_size t)"

fun op_order :: "tree_op \<Rightarrow> node_id list \<Rightarrow> node_id list" where
  "op_order (OpInsert ord now w ph hs) = ord"
| "op_order (OpRemove ord w hs) = ord"
| "op_order (OpClear ord w) = ord"
| "op_order (OpMatch ord now ph hs) = ord"
| "op_order (OpEvict ord max_size) = ord"

fun op_adds :: "tree_op \<Rightarrow> kv_event_worker set" where
  "op_adds (OpInsert ord now w ph hs) = {w}"
| "op_adds _ = {}"

fun op_drops :: "tree_op \<Rightarrow> kv_event_worker set" where
  "op_drops (OpClear ord w) = {w}"
| "op_drops _ = {}"

text \<open>What the event pump needs of a store of chains: who an operation may add, and who it drops.\<close>

locale chain_store =
  fixes step :: "'op \<Rightarrow> 's \<Rightarrow> 's" and ok :: "'op \<Rightarrow> bool" and inv :: "'s \<Rightarrow> bool" and has :: "'s \<Rightarrow> 'c \<Rightarrow> 'w \<Rightarrow> bool"
    and adds :: "'op \<Rightarrow> 'w set" and drops :: "'op \<Rightarrow> 'w set"
  assumes step_inv: "inv s \<Longrightarrow> ok x \<Longrightarrow> inv (step x s)"
    and step_adds: "inv s \<Longrightarrow> ok x \<Longrightarrow> has (step x s) c w \<Longrightarrow> has s c w \<or> w \<in> adds x"
    and step_drops: "inv s \<Longrightarrow> ok x \<Longrightarrow> w \<in> drops x \<Longrightarrow> \<not> has (step x s) c w"
begin

definition holders :: "'s \<Rightarrow> 'w set" where
  "holders s = {w. \<exists>c. has s c w}"

lemma run_inv: "inv s \<Longrightarrow> list_all ok xs \<Longrightarrow> inv (fold step xs s)"
  by (induction xs arbitrary: s) (auto intro: step_inv)

lemma holders_step: "inv s \<Longrightarrow> ok x \<Longrightarrow> holders (step x s) \<subseteq> (holders s \<union> adds x) - drops x \<union> (adds x - drops x)"
  unfolding holders_def using step_adds step_drops by blast

lemma holders_run:
  "inv s \<Longrightarrow> list_all ok xs \<Longrightarrow> (\<And>x. x \<in> set xs \<Longrightarrow> w \<notin> adds x) \<Longrightarrow> w \<notin> holders s \<Longrightarrow> w \<notin> holders (fold step xs s)"
proof (induction xs arbitrary: s)
  case (Cons x xs)
  have "w \<notin> holders (step x s)" using holders_step [of s x] Cons.prems by fastforce
  then show ?case using Cons.IH [of "step x s"] Cons.prems by (simp add: step_inv)
qed simp

lemma dropped_stays_gone:
  assumes "inv s" and "ok x" and "w \<in> drops x" and "list_all ok xs" and "\<And>y. y \<in> set xs \<Longrightarrow> w \<notin> adds y"
  shows "w \<notin> holders (fold step xs (step x s))"
  using assms by (intro holders_run) (auto simp: step_inv holders_def dest: step_drops)

end

definition op_ok :: "tree_op \<Rightarrow> bool" where
  "op_ok x = hash_order (op_order x)"

definition tree_ok :: "tree_state \<Rightarrow> bool" where
  "tree_ok t \<longleftrightarrow> tree_inv t \<and> held_except {} t"

lemma tree_apply_ok: "tree_ok t \<Longrightarrow> op_ok x \<Longrightarrow> tree_ok (tree_apply x t)"
proof -
  assume t: "tree_ok t" and x: "op_ok x"
  have e: "tree_inv (snd (evict_lru ord m t)) \<and> held_except {} (snd (evict_lru ord m t))" if "hash_order ord" for ord m
    using evict_lru_spec [OF that, of t m "fst (evict_lru ord m t)" "snd (evict_lru ord m t)"] t
    by (simp add: tree_ok_def evicted_def)
  show ?thesis
    using t x e by (cases x) (simp_all add: tree_ok_def op_ok_def tree_insert_inv tree_remove_spec tree_clear_spec tree_match_frame(1,5) [OF _ refl])
qed

lemma tree_apply_adds: "tree_ok t \<Longrightarrow> op_ok x \<Longrightarrow> holds (tree_apply x t) c w \<Longrightarrow> holds t c w \<or> w \<in> op_adds x"
proof (cases x)
  case (OpInsert ord now v ph hs)
  assume "tree_ok t" "op_ok x" "holds (tree_apply x t) c w"
  then show ?thesis using tree_insert_holds [of ord t v ph now hs] by (auto simp: OpInsert op_ok_def tree_ok_def)
next
  case (OpMatch ord now ph hs)
  assume t: "tree_ok t" "holds (tree_apply x t) c w"
  then have i: "tree_inv t" by (simp add: tree_ok_def)
  note f = tree_match_frame [OF i refl, where ord = ord and now = now and ph = ph and hs = hs]
  show ?thesis using t(2) f(4) walk_cong [OF f(3)] by (simp add: OpMatch holds_def)
next
  case (OpEvict ord m)
  assume "tree_ok t" "op_ok x" "holds (tree_apply x t) c w"
  then show ?thesis
    using evict_lru_spec(1) [of ord t m "fst (evict_lru ord m t)" "snd (evict_lru ord m t)"] evicted_holds
    by (simp add: OpEvict op_ok_def tree_ok_def)
qed (simp_all add: op_ok_def tree_ok_def tree_remove_holds tree_clear_holds)

interpretation chain_tree: chain_store tree_apply op_ok tree_ok holds op_adds op_drops
proof unfold_locales
  show "\<not> holds (tree_apply x t) c w" if "tree_ok t" "op_ok x" "w \<in> op_drops x" for t x c w
    using that by (cases x) (simp_all add: op_ok_def tree_ok_def tree_clear_holds)
qed (fact tree_apply_ok tree_apply_adds)+

definition reverse_index_size :: "tree_state \<Rightarrow> usize" where
  "reverse_index_size t = length (by_hash t)"

lemma reverse_index_empty:
  assumes "tree_inv t" and "node_count t = 0"
  shows "reverse_index_size t = 0"
proof -
  have r: "ROOT_ID \<in> fst ` set (tree_nodes t)"
    using tree_inv_root [OF assms(1)] by (auto simp: shape_def node_of_def dest!: map_of_SomeD) (metis fst_conv image_eqI)
  then obtain n where n: "tree_nodes t = [(ROOT_ID, n)]"
    using assms(2) by (cases "tree_nodes t") (auto simp: node_count_def)
  have "map_of (by_hash t) h = None" for h
  proof -
    have "hash_nodes t h = {}" by (auto simp: tree_inv_hash [OF assms(1)] shape_def node_of_def n)
    then show ?thesis
      using tree_inv_hash_ne [OF assms(1), of h] by (cases "map_of (by_hash t) h") (simp_all add: hash_nodes_def)
  qed
  then have "map_of (by_hash t) = Map.empty" by (simp add: fun_eq_iff)
  then show ?thesis by (simp add: reverse_index_size_def map_of_eq_empty_iff)
qed

lemma tree_ok_new: "tree_ok (tree_new now)"
  using tree_new_inv by (simp add: tree_ok_def)

section \<open>Properties\<close>

text \<open>
  (C33) Whatever operations a router applies to its block tree, in whatever order the hash tables are iterated, the
  invariant written on \<open>TreeState\<close> holds: the root is the only node without a parent, child pointers and parents
  agree, the reverse index lists exactly the nodes of each hash, every node besides the root has a worker or a child,
  and an empty tree leaves nothing in the reverse index.
\<close>

theorem tree_operations_keep_invariant:
  assumes "list_all op_ok ops"
  shows "tree_inv (fold tree_apply ops (tree_new now)) \<and> held_except {} (fold tree_apply ops (tree_new now)) \<and>
    (node_count (fold tree_apply ops (tree_new now)) = 0 \<longrightarrow> reverse_index_size (fold tree_apply ops (tree_new now)) = 0)"
  using chain_tree.run_inv [OF tree_ok_new assms, of now] reverse_index_empty by (simp add: tree_ok_def)

theorem tree_operations_keep_invariant_witness:
  fixes a b :: kv_event_worker and ops :: "tree_op list"
  defines "a \<equiv> \<lparr>ew_url = ''a'', ew_dp_rank = 0\<rparr>" and "b \<equiv> \<lparr>ew_url = ''b'', ew_dp_rank = 1\<rparr>"
    and "ops \<equiv> [OpInsert rev 1 a None [10, 20], OpInsert id 2 b (Some 20) [30], OpMatch id 3 None [10, 40],
      OpRemove rev a [20], OpClear id b, OpEvict rev 0]"
  shows "list_all op_ok ops \<and> tree_inv (fold tree_apply ops (tree_new 0)) \<and> held_except {} (fold tree_apply ops (tree_new 0))"
proof -
  have "list_all op_ok ops" by (simp add: ops_def op_ok_def hash_order_examples)
  then show ?thesis using tree_operations_keep_invariant [of ops 0] by blast
qed



text \<open>
  (C35) Eviction reaches its limit and reports what it removed: after \<open>evict_lru\<close> the tree has at most \<open>max_size\<close> nodes, the
  returned count is exactly the number of nodes gone, chains are only lost, the invariant holds, and whenever the tree
  is over the limit the turn of the loop finds a victim, a leaf that was used no later than any other leaf.
\<close>

theorem evict_lru_reaches_limit:
  assumes "hash_order ord" and "tree_ok t"
  shows "(case evict_lru ord max_size t of (n, u) \<Rightarrow>
      node_count u \<le> max_size \<and> n + node_count u = node_count t \<and> tree_ok u \<and> (\<forall>c v. holds u c v \<longrightarrow> holds t c v)) \<and>
    (max_size < node_count t \<longrightarrow> (\<exists>v u. evict_one ord t = Some u \<and> leaf t v \<and>
      (\<forall>i. leaf t i \<longrightarrow> last_used t v \<le> last_used t i) \<and> shape u v = None \<and> workers_of u = (workers_of t)(v := {})))"
proof -
  have i: "tree_inv t" "held_except {} t" using assms(2) by (simp_all add: tree_ok_def)
  obtain n u where e: "evict_lru ord max_size t = (n, u)" by fastforce
  note s = evict_lru_spec [OF assms(1) i(1) e]
  have u: "tree_ok u" using s(1,2) i(2) by (simp add: tree_ok_def evicted_def)
  have "\<exists>v u. evict_one ord t = Some u \<and> leaf t v \<and> (\<forall>i. leaf t i \<longrightarrow> last_used t v \<le> last_used t i) \<and>
      shape u v = None \<and> workers_of u = (workers_of t)(v := {})" if "0 < node_count t"
    by (rule evict_one_spec [OF assms(1) i(1) that]) auto
  then show ?thesis using s(3,4) u evicted_holds [OF i(1) s(1)] by (simp add: e)
qed

theorem evict_lru_reaches_limit_witness:
  fixes a :: kv_event_worker and t :: tree_state
  defines "a \<equiv> \<lparr>ew_url = ''a'', ew_dp_rank = 0\<rparr>"
    and "t \<equiv> tree_insert id 1 a None [10, 20] (tree_insert id 2 a None [30] (tree_new 0))"
  shows "hash_order id \<and> tree_ok t \<and> 1 < node_count t \<and>
    node_count (snd (evict_lru id 1 t)) \<le> 1 \<and> (\<exists>u. evict_one id t = Some u)"
proof -
  have "tree_ok (tree_apply (OpInsert id 1 a None [10, 20]) (tree_apply (OpInsert id 2 a None [30]) (tree_new 0)))"
    by (intro tree_apply_ok tree_ok_new) (simp_all add: op_ok_def hash_order_examples)
  then have t: "tree_ok t" by (simp add: t_def)
  have n: "1 < node_count t" by (simp add: t_def a_def node_count_def) code_simp
  show ?thesis
    using hash_order_examples(1) t n evict_lru_reaches_limit [OF hash_order_examples(1) t, of 1]
    by (auto split: prod.splits)
qed

end
