(* ===== verification/Kv_Event_Index.thy ===== *)
theory Kv_Event_Index
  imports Kv_Tree_Refine
begin

text \<open>
  The lifecycle of the router's block tree, \<open>crates/sglang-router/src/policies/kv_events/index.rs\<close>, with the block size
  oracle (\<open>block_size_oracle.rs\<close>) and the decoded events (\<open>wire.rs\<close>, \<open>subscriber.rs\<close>).  A pump task drains the events of all
  workers from a channel and applies them to the tree, while the worker manager adds and removes workers on
  another thread.  Each lock is held for one step only, so the model is a step relation: the pump tests \<open>live_workers\<close>,
  then tests the cursor, then applies the events of the batch one by one, then stores the cursor; \<open>remove_worker\<close>
  first marks the ranks dead and later, after the subscribers have stopped, clears them one by one.
\<close>

section \<open>Definitions\<close>

type_synonym block_size_oracle = u32

record block_size_mismatch =
  bm_established :: u32
  bm_candidate :: u32

definition oracle_get :: "block_size_oracle \<Rightarrow> u32 option" where
  "oracle_get v = (if v = 0 then None else Some v)"

definition try_set :: "u32 \<Rightarrow> block_size_oracle \<Rightarrow> (block_size_mismatch, u32) outcome \<times> block_size_oracle" where
  "try_set candidate v =
     (if candidate = 0 then (Err \<lparr>bm_established = v, bm_candidate = candidate\<rparr>, v)
      else if v = 0 then (Ok candidate, candidate)
      else if v = candidate then (Ok v, v)
      else (Err \<lparr>bm_established = v, bm_candidate = candidate\<rparr>, v))"

record event_config =
  ec_host :: string
  ec_port_base :: "16 word"
  ec_topic :: string
  ec_block_size :: u32
  ec_dp_size :: u32

record wire_block_stored =
  ws_block_hashes :: "int list"
  ws_parent_block_hash :: "int option"
  ws_token_ids :: "u32 list"
  ws_block_size :: u32
  ws_lora_id :: "int option"
  ws_medium :: "string option"

record wire_block_removed =
  wr_block_hashes :: "int list"
  wr_medium :: "string option"

datatype wire_event =
  WireBlockStored wire_block_stored
| WireBlockRemoved wire_block_removed
| WireAllBlocksCleared

record wire_batch =
  wb_ts :: u64
  wb_events :: "wire_event list"
  wb_attn_dp_rank :: "u32 option"

datatype worker_event =
  WorkerBatch kv_event_worker int wire_batch
| PublisherReset kv_event_worker

fun event_worker :: "worker_event \<Rightarrow> kv_event_worker" where
  "event_worker (WorkerBatch w seq batch) = w"
| "event_worker (PublisherReset w) = w"

record event_index =
  ix_tree :: tree_state
  ix_cursors :: "(kv_event_worker \<times> int) list"
  ix_live_workers :: "kv_event_worker set"
  ix_workers :: "(string \<times> u32 list) list"
  ix_oracle :: block_size_oracle

definition index_new :: "nat \<Rightarrow> event_index" where
  "index_new now = \<lparr> ix_tree = tree_new now, ix_cursors = [], ix_live_workers = {}, ix_workers = [], ix_oracle = 0 \<rparr>"

definition worker_ids :: "string \<Rightarrow> u32 list \<Rightarrow> kv_event_worker list" where
  "worker_ids url ranks = map (\<lambda>r. \<lparr>ew_url = url, ew_dp_rank = r\<rparr>) ranks"

definition subscribed_ranks :: "event_config \<Rightarrow> u32 list" where
  "subscribed_ranks cfg =
     filter (\<lambda>r. ucast (ec_port_base cfg) + r \<le> 65535) (map of_nat [0..<unat (ec_dp_size cfg)])"

definition index_add_worker :: "string \<Rightarrow> event_config option \<Rightarrow> event_index \<Rightarrow> event_index" where
  "index_add_worker url resolved ix =
     (case resolved of
        None \<Rightarrow> ix
      | Some cfg \<Rightarrow>
          (case try_set (ec_block_size cfg) (ix_oracle ix) of
             (Ok _, v) \<Rightarrow>
               (let ranks = subscribed_ranks cfg
                in if ranks = [] then ix\<lparr>ix_oracle := v\<rparr>
                   else ix\<lparr> ix_oracle := v,
                            ix_live_workers := ix_live_workers ix \<union> set (worker_ids url ranks),
                            ix_workers := AList.update url ranks (ix_workers ix) \<rparr>)
           | (_, v) \<Rightarrow> ix\<lparr>ix_oracle := v\<rparr>))"

text \<open>\<open>remove_worker\<close> up to the join of the subscribers: the ids still to be cleared, or nothing to do.\<close>

definition index_mark_dead :: "string \<Rightarrow> event_index \<Rightarrow> kv_event_worker list \<times> event_index" where
  "index_mark_dead url ix =
     (case map_of (ix_workers ix) url of
        None \<Rightarrow> ([], ix)
      | Some ranks \<Rightarrow>
          (worker_ids url ranks,
           ix\<lparr> ix_workers := AList.delete url (ix_workers ix),
               ix_live_workers := ix_live_workers ix - set (worker_ids url ranks) \<rparr>))"

text \<open>One turn of the last loop of \<open>remove_worker\<close>.\<close>

definition index_clear_id :: "(node_id list \<Rightarrow> node_id list) \<Rightarrow> kv_event_worker \<Rightarrow> event_index \<Rightarrow> event_index" where
  "index_clear_id ord w ix =
     ix\<lparr> ix_tree := tree_clear_worker ord w (ix_tree ix), ix_cursors := AList.delete w (ix_cursors ix) \<rparr>"

definition known_worker_count :: "event_index \<Rightarrow> usize" where
  "known_worker_count ix = length (ix_workers ix)"

text \<open>The pump: waiting, past the test of \<open>live_workers\<close>, or inside the loop over the events of a batch.\<close>

datatype pump_state =
  PumpWaiting
| PumpChecked worker_event
| PumpApplying kv_event_worker int "wire_event list"

definition pump_receive :: "worker_event \<Rightarrow> event_index \<Rightarrow> pump_state" where
  "pump_receive ev ix = (if event_worker ev \<in> ix_live_workers ix then PumpChecked ev else PumpWaiting)"

fun pump_begin :: "worker_event \<Rightarrow> event_index \<Rightarrow> pump_state \<times> event_index" where
  "pump_begin (PublisherReset w) ix = (PumpWaiting, ix\<lparr>ix_cursors := AList.delete w (ix_cursors ix)\<rparr>)"
| "pump_begin (WorkerBatch w seq batch) ix =
     (case map_of (ix_cursors ix) w of
        Some p \<Rightarrow> if seq \<le> p then (PumpWaiting, ix) else (PumpApplying w seq (wb_events batch), ix)
      | None \<Rightarrow> (PumpApplying w seq (wb_events batch), ix))"

fun pump_op :: "(node_id list \<Rightarrow> node_id list) \<Rightarrow> nat \<Rightarrow> kv_event_worker \<Rightarrow> wire_event \<Rightarrow> tree_op" where
  "pump_op ord now w (WireBlockStored b) = OpInsert ord now w (ws_parent_block_hash b) (ws_block_hashes b)"
| "pump_op ord now w (WireBlockRemoved b) = OpRemove ord w (wr_block_hashes b)"
| "pump_op ord now w WireAllBlocksCleared = OpClear ord w"

definition pump_apply :: "(node_id list \<Rightarrow> node_id list) \<Rightarrow> nat \<Rightarrow> kv_event_worker \<Rightarrow> wire_event \<Rightarrow> event_index \<Rightarrow> event_index" where
  "pump_apply ord now w e ix = ix\<lparr>ix_tree := tree_apply (pump_op ord now w e) (ix_tree ix)\<rparr>"

definition pump_finish :: "kv_event_worker \<Rightarrow> int \<Rightarrow> event_index \<Rightarrow> event_index" where
  "pump_finish w seq ix = ix\<lparr>ix_cursors := AList.update w seq (ix_cursors ix)\<rparr>"

section \<open>Interleavings\<close>

record index_sys =
  sys_index :: event_index
  sys_channel :: "worker_event list"
  sys_pump :: pump_state
  sys_removing :: "kv_event_worker list"

definition index_init :: "nat \<Rightarrow> index_sys" where
  "index_init now = \<lparr> sys_index = index_new now, sys_channel = [], sys_pump = PumpWaiting, sys_removing = [] \<rparr>"

datatype index_act =
  ActSend worker_event
| ActAdd string "event_config option"
| ActMarkDead string
| ActClear
| ActReceive
| ActBegin
| ActApply
| ActFinish
| ActRoute

inductive index_step :: "index_act \<Rightarrow> index_sys \<Rightarrow> index_sys \<Rightarrow> bool" where
  send: "index_step (ActSend ev) s (s\<lparr>sys_channel := sys_channel s @ [ev]\<rparr>)"
| add: "index_step (ActAdd url resolved) s (s\<lparr>sys_index := index_add_worker url resolved (sys_index s)\<rparr>)"
| mark_dead: "index_mark_dead url (sys_index s) = (ids, ix) \<Longrightarrow>
    index_step (ActMarkDead url) s (s\<lparr>sys_index := ix, sys_removing := sys_removing s @ ids\<rparr>)"
| clear: "sys_removing s = w # ids \<Longrightarrow> hash_order ord \<Longrightarrow>
    index_step ActClear s (s\<lparr>sys_index := index_clear_id ord w (sys_index s), sys_removing := ids\<rparr>)"
| receive: "sys_pump s = PumpWaiting \<Longrightarrow> sys_channel s = ev # evs \<Longrightarrow>
    index_step ActReceive s (s\<lparr>sys_channel := evs, sys_pump := pump_receive ev (sys_index s)\<rparr>)"
| pbegin: "sys_pump s = PumpChecked ev \<Longrightarrow> pump_begin ev (sys_index s) = (p, ix) \<Longrightarrow>
    index_step ActBegin s (s\<lparr>sys_pump := p, sys_index := ix\<rparr>)"
| papply: "sys_pump s = PumpApplying w seq (e # es) \<Longrightarrow> hash_order ord \<Longrightarrow>
    index_step ActApply s (s\<lparr>sys_pump := PumpApplying w seq es, sys_index := pump_apply ord now w e (sys_index s)\<rparr>)"
| finish: "sys_pump s = PumpApplying w seq [] \<Longrightarrow>
    index_step ActFinish s (s\<lparr>sys_pump := PumpWaiting, sys_index := pump_finish w seq (sys_index s)\<rparr>)"
| route: "hash_order ord \<Longrightarrow> index_step ActRoute s
    (s\<lparr>sys_index := (sys_index s)\<lparr>ix_tree := snd (tree_match_prefix ord now ph hs (ix_tree (sys_index s)))\<rparr>\<rparr>)"

inductive_cases index_stepE: "index_step a s s'"

text \<open>Runs in which every step is allowed by \<open>g\<close>.\<close>

inductive index_run :: "(index_sys \<Rightarrow> index_act \<Rightarrow> bool) \<Rightarrow> index_sys \<Rightarrow> index_sys \<Rightarrow> bool" for g where
  here: "index_run g s s"
| more: "index_run g s t \<Longrightarrow> g t a \<Longrightarrow> index_step a t u \<Longrightarrow> index_run g s u"

fun pump_worker :: "pump_state \<Rightarrow> kv_event_worker option" where
  "pump_worker PumpWaiting = None"
| "pump_worker (PumpChecked ev) = Some (event_worker ev)"
| "pump_worker (PumpApplying w seq es) = Some w"

text \<open>No rank is cleared while the pump is between its test of \<open>live_workers\<close> and the end of a batch of that rank.\<close>

fun clears_apart :: "index_sys \<Rightarrow> index_act \<Rightarrow> bool" where
  "clears_apart s ActClear = (case sys_removing s of [] \<Rightarrow> True | w # _ \<Rightarrow> pump_worker (sys_pump s) \<noteq> Some w)"
| "clears_apart s _ = True"

fun any_time :: "index_sys \<Rightarrow> index_act \<Rightarrow> bool" where
  "any_time s a = True"

section \<open>Invariant\<close>

text \<open>The workers that have left a trace: a chain of the tree, a cursor, or a batch in the pump.\<close>

definition traces :: "index_sys \<Rightarrow> kv_event_worker set" where
  "traces s = {w. \<exists>c. holds (ix_tree (sys_index s)) c w} \<union> dom (map_of (ix_cursors (sys_index s))) \<union>
     set_option (pump_worker (sys_pump s))"

definition index_inv :: "index_sys \<Rightarrow> bool" where
  "index_inv s \<longleftrightarrow> tree_ok (ix_tree (sys_index s)) \<and>
     traces s \<subseteq> ix_live_workers (sys_index s) \<union> set (sys_removing s)"

lemma index_init_inv: "index_inv (index_init now)"
proof -
  have "\<not> holds (tree_new now) c w" for c w
    by (cases c) (auto simp: holds_def tree_new_def child_of_def node_of_def)
  then show ?thesis by (simp add: index_inv_def traces_def index_init_def index_new_def tree_ok_new)
qed

lemma index_add_frame:
  "ix_tree (index_add_worker url r ix) = ix_tree ix \<and> ix_cursors (index_add_worker url r ix) = ix_cursors ix \<and>
   ix_live_workers ix \<subseteq> ix_live_workers (index_add_worker url r ix)"
  by (auto simp: index_add_worker_def Let_def split: option.splits outcome.splits prod.splits)

lemma index_mark_dead_frame:
  "index_mark_dead url ix = (ids, ix') \<Longrightarrow> ix_tree ix' = ix_tree ix \<and> ix_cursors ix' = ix_cursors ix \<and>
   ix_live_workers ix \<subseteq> ix_live_workers ix' \<union> set ids"
  by (auto simp: index_mark_dead_def split: option.splits)

lemma pump_begin_frame:
  "pump_begin ev ix = (p, ix') \<Longrightarrow> ix_tree ix' = ix_tree ix \<and> ix_live_workers ix' = ix_live_workers ix \<and>
   dom (map_of (ix_cursors ix')) \<subseteq> dom (map_of (ix_cursors ix)) \<and> set_option (pump_worker p) \<subseteq> {event_worker ev}"
  by (cases ev) (auto simp: delete_conv' split: option.splits if_splits)

lemma pump_op_facts: "op_order (pump_op ord now w e) = ord" "op_adds (pump_op ord now w e) \<subseteq> {w}"
  by (cases e; simp)+

lemma index_step_inv:
  assumes "index_step a s s'" and "index_inv s" and "clears_apart s a"
  shows "index_inv s'"
  using assms
proof (cases rule: index_step.cases)
  case (clear w ids ord)
  have t: "tree_ok (ix_tree (sys_index s))" using assms(2) by (simp add: index_inv_def)
  have "tree_ok (tree_clear_worker ord w (ix_tree (sys_index s)))"
    using tree_apply_ok [OF t, of "OpClear ord w"] clear by (simp add: op_ok_def)
  moreover have "traces s' \<subseteq> traces s - {w}"
    using t clear assms(3) tree_clear_holds [of ord "ix_tree (sys_index s)" w]
    by (auto simp: traces_def index_clear_id_def delete_conv' tree_ok_def)
  ultimately show ?thesis using assms(2) clear by (auto simp: index_inv_def index_clear_id_def)
next
  case (papply w seq e es ord now)
  let ?op = "pump_op ord now w e"
  have t: "tree_ok (ix_tree (sys_index s))" "op_ok ?op"
    using assms(2) papply by (simp_all add: index_inv_def op_ok_def pump_op_facts)
  have "holds (tree_apply ?op (ix_tree (sys_index s))) c v \<Longrightarrow> holds (ix_tree (sys_index s)) c v \<or> v = w" for c v
    using tree_apply_adds [OF t, of c v] pump_op_facts(2) [of ord now w e] by blast
  then have "traces s' \<subseteq> traces s" using papply by (auto simp: traces_def pump_apply_def)
  then show ?thesis using tree_apply_ok [OF t] assms(2) papply by (auto simp: index_inv_def pump_apply_def)
next
  case (route ord now ph hs)
  let ?op = "OpMatch ord now ph hs"
  have t: "tree_ok (ix_tree (sys_index s))" "op_ok ?op" using assms(2) route by (simp_all add: index_inv_def op_ok_def)
  have "traces s' \<subseteq> traces s" using tree_apply_adds [OF t] route by (auto simp: traces_def)
  then show ?thesis using tree_apply_ok [OF t] assms(2) route by (auto simp: index_inv_def)
next
  case (add url resolved)
  then show ?thesis using assms(2) index_add_frame [of url resolved "sys_index s"] by (auto simp: index_inv_def traces_def)
next
  case (mark_dead url ids ix)
  then show ?thesis using assms(2) index_mark_dead_frame [OF mark_dead(3)] by (auto simp: index_inv_def traces_def)
next
  case (receive ev evs)
  then show ?thesis using assms(2) by (auto simp: index_inv_def traces_def pump_receive_def)
next
  case (pbegin ev p ix)
  note f = pump_begin_frame [OF pbegin(4)]
  have "traces s' \<subseteq> traces s" using f pbegin by (simp add: traces_def) blast
  then show ?thesis using assms(2) f pbegin by (auto simp: index_inv_def)
next
  case (finish w seq)
  then show ?thesis using assms(2) by (auto simp: index_inv_def traces_def pump_finish_def update_conv')
qed (auto simp: index_inv_def traces_def)

lemma index_run_inv: "index_run clears_apart s s' \<Longrightarrow> index_inv s \<Longrightarrow> index_inv s'"
  by (induction rule: index_run.induct) (auto intro: index_step_inv)

section \<open>Properties\<close>


text \<open>Concrete runs: the actions executed one after the other, hash tables iterated in the order of the ids.\<close>

fun index_exec :: "nat \<Rightarrow> index_act \<Rightarrow> index_sys \<Rightarrow> index_sys option" where
  "index_exec now (ActSend ev) s = Some (s\<lparr>sys_channel := sys_channel s @ [ev]\<rparr>)"
| "index_exec now (ActAdd url resolved) s = Some (s\<lparr>sys_index := index_add_worker url resolved (sys_index s)\<rparr>)"
| "index_exec now (ActMarkDead url) s =
     (case index_mark_dead url (sys_index s) of (ids, ix) \<Rightarrow> Some (s\<lparr>sys_index := ix, sys_removing := sys_removing s @ ids\<rparr>))"
| "index_exec now ActClear s =
     (case sys_removing s of [] \<Rightarrow> None
      | w # ids \<Rightarrow> Some (s\<lparr>sys_index := index_clear_id id w (sys_index s), sys_removing := ids\<rparr>))"
| "index_exec now ActReceive s =
     (case (sys_pump s, sys_channel s) of
        (PumpWaiting, ev # evs) \<Rightarrow> Some (s\<lparr>sys_channel := evs, sys_pump := pump_receive ev (sys_index s)\<rparr>)
      | _ \<Rightarrow> None)"
| "index_exec now ActBegin s =
     (case sys_pump s of
        PumpChecked ev \<Rightarrow> (case pump_begin ev (sys_index s) of (p, ix) \<Rightarrow> Some (s\<lparr>sys_pump := p, sys_index := ix\<rparr>))
      | _ \<Rightarrow> None)"
| "index_exec now ActApply s =
     (case sys_pump s of
        PumpApplying w seq (e # es) \<Rightarrow> Some (s\<lparr>sys_pump := PumpApplying w seq es, sys_index := pump_apply id now w e (sys_index s)\<rparr>)
      | _ \<Rightarrow> None)"
| "index_exec now ActFinish s =
     (case sys_pump s of
        PumpApplying w seq [] \<Rightarrow> Some (s\<lparr>sys_pump := PumpWaiting, sys_index := pump_finish w seq (sys_index s)\<rparr>)
      | _ \<Rightarrow> None)"
| "index_exec now ActRoute s = None"

lemma index_exec_step: "index_exec now a s = Some s' \<Longrightarrow> index_step a s s'"
  by (induction now a s rule: index_exec.induct)
    (auto intro: index_step.intros simp: hash_order_examples(1) split: prod.splits list.splits pump_state.splits)

fun index_exec_all :: "(index_sys \<Rightarrow> index_act \<Rightarrow> bool) \<Rightarrow> nat \<Rightarrow> index_act list \<Rightarrow> index_sys \<Rightarrow> index_sys option" where
  "index_exec_all g now [] s = Some s"
| "index_exec_all g now (a # as) s =
     (if g s a then (case index_exec now a s of None \<Rightarrow> None | Some s' \<Rightarrow> index_exec_all g now as s') else None)"

lemma index_run_Cons: "g s a \<Longrightarrow> index_step a s t \<Longrightarrow> index_run g t u \<Longrightarrow> index_run g s u"
  by (rotate_tac 2, induction rule: index_run.induct) (auto intro: index_run.intros)

lemma index_exec_run: "index_exec_all g now as s = Some s' \<Longrightarrow> index_run g s s'"
  by (induction g now as s rule: index_exec_all.induct)
    (auto intro: index_run.here index_run_Cons index_exec_step split: if_splits option.splits)

definition demo_worker :: kv_event_worker where
  "demo_worker = \<lparr>ew_url = ''w'', ew_dp_rank = 0\<rparr>"

definition demo_config :: event_config where
  "demo_config = \<lparr>ec_host = ''h'', ec_port_base = 5557, ec_topic = [], ec_block_size = 16, ec_dp_size = 1\<rparr>"

definition demo_batch :: worker_event where
  "demo_batch = WorkerBatch demo_worker 7 \<lparr>wb_ts = 0,
     wb_events = [WireBlockStored \<lparr>ws_block_hashes = [11], ws_parent_block_hash = None, ws_token_ids = [],
       ws_block_size = 16, ws_lora_id = None, ws_medium = None\<rparr>], wb_attn_dp_rank = None\<rparr>"

lemma demo_ranks: "subscribed_ranks demo_config = [0]"
  by (simp add: subscribed_ranks_def demo_config_def)

lemma demo_exec:
  "index_exec_all any_time 5 [ActAdd ''w'' (Some demo_config), ActSend demo_batch, ActReceive, ActMarkDead ''w'', ActClear,
    ActBegin, ActApply, ActFinish] (index_init 0) =
   Some \<lparr>sys_index = \<lparr>ix_tree = tree_insert id 5 demo_worker None [11] (tree_clear_worker id demo_worker (tree_new 0)),
     ix_cursors = [(demo_worker, 7)], ix_live_workers = {}, ix_workers = [], ix_oracle = 16\<rparr>,
     sys_channel = [], sys_pump = PumpWaiting, sys_removing = []\<rparr>"
  by (simp add: index_add_worker_def demo_ranks index_init_def index_new_def try_set_def index_mark_dead_def worker_ids_def
      pump_receive_def demo_batch_def demo_worker_def index_clear_id_def pump_apply_def pump_finish_def Let_def)
    (simp add: demo_config_def)

lemma demo_exec_apart:
  "index_exec_all clears_apart 5 [ActAdd ''w'' (Some demo_config), ActSend demo_batch, ActReceive,
    ActBegin, ActApply, ActFinish] (index_init 0) =
   Some \<lparr>sys_index = \<lparr>ix_tree = tree_insert id 5 demo_worker None [11] (tree_new 0),
     ix_cursors = [(demo_worker, 7)], ix_live_workers = {demo_worker}, ix_workers = [(''w'', [0])], ix_oracle = 16\<rparr>,
     sys_channel = [], sys_pump = PumpWaiting, sys_removing = []\<rparr>"
  by (simp add: index_add_worker_def demo_ranks index_init_def index_new_def try_set_def worker_ids_def
      pump_receive_def demo_batch_def demo_worker_def pump_apply_def pump_finish_def Let_def)
    (simp add: demo_config_def)


text \<open>
  Without that restriction a removed worker can come back.  The pump tests \<open>live_workers\<close> and applies the batch later, in
  separate critical sections; when all of \<open>remove_worker\<close> runs in between, the batch is applied after the worker
  has been cleared.  In the final state nothing is attached and nothing is pending, yet lookups
  return the removed worker, and its old cursor makes the pump skip the first batches of a restarted publisher.
\<close>

theorem removed_worker_reappears:
  "\<exists>s. index_run any_time (index_init 0) s \<and> ix_live_workers (sys_index s) = {} \<and> ix_workers (sys_index s) = [] \<and>
    sys_channel s = [] \<and> sys_pump s = PumpWaiting \<and> sys_removing s = [] \<and>
    fst (tree_match_prefix id 9 None [11] (ix_tree (sys_index s))) = \<lparr>tm_matched_blocks = 1, tm_workers = {demo_worker}\<rparr> \<and>
    {1..7} \<subseteq> {seq. \<forall>batch. pump_begin (WorkerBatch demo_worker seq batch) (sys_index s) = (PumpWaiting, sys_index s)}"
proof -
  let ?t = "tree_insert id 5 demo_worker None [11] (tree_clear_worker id demo_worker (tree_new 0))"
  have c: "tree_clear_worker id demo_worker (tree_new 0) = tree_new 0" by (simp add: tree_clear_worker_def tree_new_def)
  have m: "fst (tree_match_prefix id 9 None [11] ?t) = \<lparr>tm_matched_blocks = 1, tm_workers = {demo_worker}\<rparr>"
    unfolding c by (simp add: tree_insert_def resolve_parent_def tree_new_def node_of_def create_child_def alloc_id_def
        set_node_def new_child_def hash_nodes_def tree_match_prefix_def ROOT_ID_def Let_def)
  show ?thesis by (intro exI conjI, rule index_exec_run [OF demo_exec]) (use m in \<open>simp_all add: subset_eq\<close>)
qed

end
