(* ===== verification/Router_Select.thy ===== *)
theory Router_Select
  imports Router_Workers Kv_Event_Index
begin

text \<open>
  How the router chooses a worker: the block hashes of a prompt (\<open>crates/sglang-router/src/policies/kv_events/hash.rs\<close>), the cache
  aware policy (\<open>policies/cache_aware_zmq.rs\<close>) and the policies \<open>round_robin\<close>, \<open>random\<close> and \<open>power_of_two\<close>.  Parameters: SHA-256,
  the parser of JSON bodies, the tokenizers, the random choices, and the two \<open>f32\<close> computations of the policy.
\<close>

section \<open>Block hashes\<close>

definition chain_block :: "(u8 list \<Rightarrow> u8 list) \<Rightarrow> u8 list option \<Rightarrow> u32 list \<Rightarrow> u8 list" where
  "chain_block sha256 parent_digest block_tokens =
     sha256 ((case parent_digest of None \<Rightarrow> [] | Some d \<Rightarrow> d) @ concat (map u32_to_le_bytes block_tokens))"

definition sha256_to_i64 :: "u8 list \<Rightarrow> int" where
  "sha256_to_i64 digest = i64_from_be_bytes (take 8 digest)"

text \<open>The loop over \<open>start\<close>; the block size is positive.\<close>

function block_hash_loop ::
  "(u8 list \<Rightarrow> u8 list) \<Rightarrow> u32 list \<Rightarrow> usize \<Rightarrow> usize \<Rightarrow> u8 list option \<Rightarrow> int list \<Rightarrow> int list" where
  "block_hash_loop sha256 tokens bs start prior out =
     (if start < length tokens \<and> 0 < bs
      then let end = min (start + bs) (length tokens);
               digest = chain_block sha256 prior (take (end - start) (drop start tokens))
           in block_hash_loop sha256 tokens bs end (Some digest) (out @ [sha256_to_i64 digest])
      else out)"
  by pat_completeness auto
termination
  by (relation "measure (\<lambda>(sha256, tokens, bs, start, prior, out). length tokens - start)") auto

declare block_hash_loop.simps [simp del]

definition compute_block_hashes :: "(u8 list \<Rightarrow> u8 list) \<Rightarrow> u32 list \<Rightarrow> usize \<Rightarrow> ('e, int list) outcome" where
  "compute_block_hashes sha256 token_ids bs =
     (if bs = 0 then Panic
      else if token_ids = [] then Ok []
      else Ok (block_hash_loop sha256 token_ids bs 0 None []))"

section \<open>Selection\<close>

datatype json =
  JNull
| JBool bool
| JNumber string
| JString string
| JArray "json list"
| JObject "(string \<times> json) list"

fun json_get :: "string \<Rightarrow> json \<Rightarrow> json option" where
  "json_get k (JObject kvs) = map_of kvs k"
| "json_get k _ = None"

fun as_str :: "json \<Rightarrow> string option" where
  "as_str (JString s) = Some s"
| "as_str _ = None"

fun as_array :: "json \<Rightarrow> json list option" where
  "as_array (JArray xs) = Some xs"
| "as_array _ = None"

fun join_lines :: "string list \<Rightarrow> string" where
  "join_lines [] = []"
| "join_lines [s] = s"
| "join_lines (s # ss) = s @ [CHR 0x0A] @ join_lines ss"

definition push_line :: "string \<Rightarrow> string \<Rightarrow> string" where
  "push_line buf s = (if buf = [] then s else buf @ [CHR 0x0A] @ s)"

fun push_parts :: "string \<Rightarrow> json list \<Rightarrow> string" where
  "push_parts buf [] = buf"
| "push_parts buf (p # ps) =
     push_parts (case Option.bind (json_get ''text'' p) as_str of Some t \<Rightarrow> push_line buf t | None \<Rightarrow> buf) ps"

fun push_messages :: "string \<Rightarrow> json list \<Rightarrow> string" where
  "push_messages buf [] = buf"
| "push_messages buf (m # ms) =
     push_messages
       (case json_get ''content'' m of
          Some (JString s) \<Rightarrow> push_line buf s
        | Some (JArray parts) \<Rightarrow> push_parts buf parts
        | _ \<Rightarrow> buf) ms"

definition extract_prompt_text :: "(u8 list \<Rightarrow> json option) \<Rightarrow> u8 list \<Rightarrow> string option" where
  "extract_prompt_text from_slice body =
     (case from_slice body of
        None \<Rightarrow> None
      | Some v \<Rightarrow>
          (let prompt = json_get ''prompt'' v;
               parts = (case Option.bind prompt as_array of None \<Rightarrow> [] | Some arr \<Rightarrow> List.map_filter as_str arr);
               buf = (case Option.bind (json_get ''messages'' v) as_array of None \<Rightarrow> [] | Some msgs \<Rightarrow> push_messages [] msgs)
           in case Option.bind prompt as_str of
                Some s \<Rightarrow> Some s
              | None \<Rightarrow>
                  (if parts \<noteq> [] then Some (join_lines parts)
                   else if buf \<noteq> [] then Some buf
                   else Option.bind (json_get ''text'' v) as_str)))"

text \<open>The tokenizer of a model, if one is loaded; encoding fails or returns token ids.\<close>

definition tokenize :: "(string \<Rightarrow> (string \<Rightarrow> u32 list option) option) \<Rightarrow> string \<Rightarrow> string \<Rightarrow> u32 list option" where
  "tokenize tokenizers model text =
     (case tokenizers model of
        None \<Rightarrow> None
      | Some encode \<Rightarrow> (case encode text of Some ids \<Rightarrow> if ids \<noteq> [] then Some ids else None | None \<Rightarrow> None))"

definition pick_min_load :: "router_worker list \<Rightarrow> router_worker option" where
  "pick_min_load workers = min_by_key rw_active_requests workers"

text \<open>\<open>scaled\<close> is the least load times the relative threshold, in \<open>f32\<close>.\<close>

definition is_imbalanced :: "(usize \<Rightarrow> usize) \<Rightarrow> usize \<Rightarrow> router_worker list \<Rightarrow> bool" where
  "is_imbalanced scaled abs_threshold workers =
     (let (mn, max_load) = foldl (\<lambda>(mn, mx) w. (min mn (rw_active_requests w), max mx (rw_active_requests w))) (usize_max, 0) workers;
          min_load = (if mn = usize_max then 0 else mn)
      in max_load - min_load > abs_threshold \<and> max_load > scaled min_load)"

text \<open>
  The external parts of the policy.  \<open>rate_le matched total\<close> is the comparison of the match rate with the cache threshold.
\<close>

record policy_env =
  env_sha256 :: "u8 list \<Rightarrow> u8 list"
  env_from_slice :: "u8 list \<Rightarrow> json option"
  env_tokenizers :: "string \<Rightarrow> (string \<Rightarrow> u32 list option) option"
  env_scaled :: "usize \<Rightarrow> usize"
  env_rate_le :: "usize \<Rightarrow> usize \<Rightarrow> bool"

record cache_aware_policy =
  pol_balance_abs_threshold :: usize
  pol_tree :: tree_state
  pol_block_size_oracle :: block_size_oracle

definition policy_tokens :: "policy_env \<Rightarrow> string \<Rightarrow> u8 list option \<Rightarrow> u32 list option" where
  "policy_tokens env model request_body =
     (case request_body of
        None \<Rightarrow> None
      | Some body \<Rightarrow>
          (if body = [] then None
           else case extract_prompt_text (env_from_slice env) body of
                  None \<Rightarrow> None
                | Some text \<Rightarrow> tokenize (env_tokenizers env) model text))"

text \<open>The workers of the longest cached prefix, when it is long enough to matter.\<close>

definition policy_matched ::
  "policy_env \<Rightarrow> (node_id list \<Rightarrow> node_id list) \<Rightarrow> nat \<Rightarrow> cache_aware_policy \<Rightarrow> u32 list \<Rightarrow>
   ('e, kv_event_worker set option \<times> tree_state) outcome" where
  "policy_matched env ord now pol tokens =
     (case oracle_get (pol_block_size_oracle pol) of
        None \<Rightarrow> Ok (None, pol_tree pol)
      | Some bs \<Rightarrow>
          (case compute_block_hashes (env_sha256 env) tokens (unat bs) of
             Ok hashes \<Rightarrow>
               (if hashes = [] then Ok (None, pol_tree pol)
                else case tree_match_prefix ord now None hashes (pol_tree pol) of
                       (m, t) \<Rightarrow>
                         (if env_rate_le env (tm_matched_blocks m) (length hashes) \<or> tm_workers m = {} then Ok (None, t)
                          else Ok (Some (tm_workers m), t)))
           | Err e \<Rightarrow> Err e
           | Panic \<Rightarrow> Panic))"

definition cache_aware_select ::
  "policy_env \<Rightarrow> (node_id list \<Rightarrow> node_id list) \<Rightarrow> nat \<Rightarrow> cache_aware_policy \<Rightarrow> router_worker list \<Rightarrow> string \<Rightarrow> u8 list option \<Rightarrow>
   ('e, router_worker option \<times> tree_state) outcome" where
  "cache_aware_select env ord now pol workers model request_body =
     (if workers = [] then Ok (None, pol_tree pol)
      else if is_imbalanced (env_scaled env) (pol_balance_abs_threshold pol) workers
      then Ok (pick_min_load workers, pol_tree pol)
      else
        case policy_tokens env model request_body of
          None \<Rightarrow> Ok (pick_min_load workers, pol_tree pol)
        | Some tokens \<Rightarrow>
            (case policy_matched env ord now pol tokens of
               Ok (None, t) \<Rightarrow> Ok (pick_min_load workers, t)
             | Ok (Some holders, t) \<Rightarrow>
                 (case min_by_key rw_active_requests (filter (\<lambda>w. rw_url w \<in> ew_url ` holders) workers) of
                    Some w \<Rightarrow> Ok (Some w, t)
                  | None \<Rightarrow> Ok (pick_min_load workers, t))
             | Err e \<Rightarrow> Err e
             | Panic \<Rightarrow> Panic))"

text \<open>The other policies.  \<open>fetch_add\<close> of round robin wraps; random choices are arguments.\<close>

definition round_robin_select :: "u64 \<Rightarrow> router_worker list \<Rightarrow> router_worker option \<times> u64" where
  "round_robin_select counter workers =
     (if workers = [] then (None, counter) else (Some (workers ! (unat counter mod length workers)), counter + 1))"

definition random_select :: "(usize \<Rightarrow> usize) \<Rightarrow> router_worker list \<Rightarrow> router_worker option" where
  "random_select rng workers = (if workers = [] then None else Some (workers ! rng (length workers)))"

definition power_of_two_select :: "(usize \<Rightarrow> usize \<times> usize) \<Rightarrow> router_worker list \<Rightarrow> router_worker option" where
  "power_of_two_select rng workers =
     (case workers of
        [] \<Rightarrow> None
      | [w] \<Rightarrow> Some w
      | _ \<Rightarrow> (let (i, j) = rng (length workers) in Some (hd (sort_key rw_active_requests [workers ! i, workers ! j]))))"

section \<open>The router hashes as the workers do\<close>

lemma block_hash_loop_chunks:
  "0 < bs \<Longrightarrow> block_hash_loop sha tokens bs start prior out = out @ hash_blocks sha prior (chunks bs (drop start tokens))"
proof (induction sha tokens bs start prior out rule: block_hash_loop.induct)
  case (1 sha tokens bs start prior out)
  show ?case
  proof (cases "start < length tokens")
    case False
    then show ?thesis by (simp add: block_hash_loop.simps [of sha])
  next
    case True
    let ?stop = "min (start + bs) (length tokens)"
    let ?block = "take bs (drop start tokens)"
    have b: "take (?stop - start) (drop start tokens) = ?block" using True by (cases "start + bs \<le> length tokens") auto
    have d: "drop ?stop tokens = drop bs (drop start tokens)" by (cases "start + bs \<le> length tokens") (auto simp: add.commute)
    have c: "chain_block sha prior ?block = sglang_hash_block sha prior ?block"
      by (simp add: chain_block_def sglang_hash_block_def)
    have "block_hash_loop sha tokens bs start prior out =
        block_hash_loop sha tokens bs ?stop (Some (chain_block sha prior ?block)) (out @ [sha256_to_i64 (chain_block sha prior ?block)])"
      using True "1.prems" by (simp add: block_hash_loop.simps [of sha tokens bs start] b Let_def)
    also have "\<dots> = out @ [sha256_to_i64 (chain_block sha prior ?block)] @
        hash_blocks sha (Some (chain_block sha prior ?block)) (chunks bs (drop bs (drop start tokens)))"
      using "1.IH" [OF _ refl refl] True "1.prems" by (simp add: b d)
    also have "\<dots> = out @ hash_blocks sha prior (chunks bs (drop start tokens))"
      using True "1.prems"
      by (simp add: chunks.simps [of bs "drop start tokens"] c Let_def sha256_to_i64_def sglang_sha256_digest_to_i64_def)
    finally show ?thesis .
  qed
qed

lemma compute_block_hashes_agrees: "compute_block_hashes sha tokens bs = compute_sglang_block_hashes sha tokens bs"
  by (simp add: compute_block_hashes_def compute_sglang_block_hashes_def block_hash_loop_chunks)

section \<open>What a cache hit is\<close>

text \<open>
  The workers that hold the longest prefix of the prompt that is in the tree, under the hashes the workers publish,
  provided the prefix is long enough.
\<close>

definition cache_holders :: "policy_env \<Rightarrow> cache_aware_policy \<Rightarrow> router_worker list \<Rightarrow> u32 list \<Rightarrow> router_worker set" where
  "cache_holders env pol workers tokens =
     {v \<in> set workers. \<exists>bs hashes k h. oracle_get (pol_block_size_oracle pol) = Some bs \<and>
        compute_sglang_block_hashes (env_sha256 env) tokens (unat bs) = (Ok hashes :: (unit, int list) outcome) \<and>
        longest_walk (pol_tree pol) ROOT_ID hashes k \<and> \<not> env_rate_le env k (length hashes) \<and>
        holds (pol_tree pol) (take k hashes) h \<and> ew_url h = rw_url v}"

lemma walk_prefix: "walk t i (xs @ ys) \<noteq> None \<Longrightarrow> walk t i xs \<noteq> None"
  by (auto simp: walk_append split: option.splits)

lemma longest_walk_unique:
  assumes "longest_walk t i hs k" and "longest_walk t i hs l"
  shows "k = l"
proof -
  have le: False if "longest_walk t i hs k" "longest_walk t i hs l" "k < l" for k l
  proof -
    have "take l hs = take (Suc k) hs @ take (l - Suc k) (drop (Suc k) hs)"
      using that(3) take_add [of "Suc k" "l - Suc k" hs] by simp
    moreover have "walk t i (take l hs) \<noteq> None" using that(2) by (simp add: longest_walk_def)
    ultimately have "walk t i (take (Suc k) hs) \<noteq> None" by (metis walk_prefix)
    moreover have "k < length hs" using that(2,3) by (simp add: longest_walk_def)
    ultimately show False using that(1) by (simp add: longest_walk_def)
  qed
  show ?thesis using le [OF assms] le [OF assms(2,1)] by (metis linorder_neqE_nat)
qed

lemma compute_hashes_Ok:
  "0 < bs \<Longrightarrow> tokens \<noteq> [] \<Longrightarrow> \<exists>hs. hs \<noteq> [] \<and> compute_block_hashes sha tokens bs = (Ok hs :: ('e, int list) outcome) \<and>
     compute_sglang_block_hashes sha tokens bs = (Ok hs :: (unit, int list) outcome)"
proof -
  assume b: "0 < bs" "tokens \<noteq> []"
  then have "hash_blocks sha None (chunks bs tokens) \<noteq> []" by (simp add: chunks.simps [of bs tokens] Let_def)
  then show ?thesis using b by (simp add: compute_block_hashes_agrees compute_sglang_block_hashes_def)
qed

lemma policy_matched_spec:
  assumes "tree_ok (pol_tree pol)" and "tokens \<noteq> []"
  obtains r t where "policy_matched env ord now pol tokens = (Ok (r, t) :: ('e, kv_event_worker set option \<times> tree_state) outcome)"
    and "tree_inv t" and "child_of t = child_of (pol_tree pol)" and "workers_of t = workers_of (pol_tree pol)"
    and "\<And>ws. {v \<in> set ws. rw_url v \<in> (\<Union>hs\<in>set_option r. ew_url ` hs)} = cache_holders env pol ws tokens"
proof (cases "oracle_get (pol_block_size_oracle pol)")
  case None
  then show ?thesis using that [of None "pol_tree pol"] assms by (simp add: policy_matched_def cache_holders_def tree_ok_def)
next
  case (Some bs)
  have i: "tree_inv (pol_tree pol)" using assms(1) by (simp add: tree_ok_def)
  have "bs \<noteq> 0" using Some by (auto simp: oracle_get_def split: if_splits)
  then have "0 < unat bs" by (simp add: unat_gt_0)
  then obtain hs where hs: "hs \<noteq> []" "compute_block_hashes (env_sha256 env) tokens (unat bs) = (Ok hs :: ('e, int list) outcome)"
      "compute_sglang_block_hashes (env_sha256 env) tokens (unat bs) = (Ok hs :: (unit, int list) outcome)"
    using compute_hashes_Ok [OF _ assms(2)] by blast
  obtain m t where m: "tree_match_prefix ord now None hs (pol_tree pol) = (m, t)" by fastforce
  note f = tree_match_frame [OF i, of t ord now None hs]
  note s = tree_match_spec [OF i m]
  define r where "r = (if env_rate_le env (tm_matched_blocks m) (length hs) \<or> tm_workers m = {} then None else Some (tm_workers m))"
  have p: "policy_matched env ord now pol tokens = (Ok (r, t) :: ('e, kv_event_worker set option \<times> tree_state) outcome)"
    using Some hs m by (simp add: policy_matched_def r_def)
  have "{v \<in> set ws. rw_url v \<in> (\<Union>hs\<in>set_option r. ew_url ` hs)} = cache_holders env pol ws tokens" for ws
  proof -
    have u: "longest_walk (pol_tree pol) ROOT_ID hs k \<longleftrightarrow> k = tm_matched_blocks m" for k
      using s(1) longest_walk_unique by blast
    have "cache_holders env pol ws tokens = {v \<in> set ws. \<not> env_rate_le env (tm_matched_blocks m) (length hs) \<and>
        (\<exists>h. holds (pol_tree pol) (take (tm_matched_blocks m) hs) h \<and> ew_url h = rw_url v)}"
      unfolding cache_holders_def using Some hs(3) by (simp add: u)
    then show ?thesis using s(2) by (auto simp: r_def intro: rev_image_eqI)
  qed
  then show ?thesis using that [OF p] f m by simp
qed

section \<open>Properties\<close>

text \<open>
  (C37) The cache aware policy on a tree that satisfies its invariant: it never fails and, given a worker, always selects one
  of those it was given.  If loads are balanced and the prompt can be tokenized, it takes the least loaded of the workers that
  hold the longest cached prefix, under the block hashes that the workers themselves compute and publish, when that
  prefix is above the threshold; in all other cases it takes a least loaded worker.
\<close>

theorem cache_aware_select_spec:
  assumes "tree_ok (pol_tree pol)" and "workers \<noteq> []"
  shows "\<exists>w t. cache_aware_select env ord now pol workers model body = (Ok (Some w, t) :: ('e, router_worker option \<times> tree_state) outcome) \<and>
    w \<in> set workers \<and>
    (case policy_tokens env model body of
       Some tokens \<Rightarrow>
         if \<not> is_imbalanced (env_scaled env) (pol_balance_abs_threshold pol) workers \<and> cache_holders env pol workers tokens \<noteq> {}
         then w \<in> cache_holders env pol workers tokens \<and> (\<forall>v\<in>cache_holders env pol workers tokens. rw_active_requests w \<le> rw_active_requests v)
         else \<forall>v\<in>set workers. rw_active_requests w \<le> rw_active_requests v
     | None \<Rightarrow> \<forall>v\<in>set workers. rw_active_requests w \<le> rw_active_requests v)"
proof -
  obtain m where m: "pick_min_load workers = Some m" "m \<in> set workers" "\<forall>v\<in>set workers. rw_active_requests m \<le> rw_active_requests v"
    using assms(2) min_by_key_Some unfolding pick_min_load_def by (metis min_by_key_None not_Some_eq)
  show ?thesis
  proof (cases "\<not> is_imbalanced (env_scaled env) (pol_balance_abs_threshold pol) workers \<and> policy_tokens env model body \<noteq> None")
    case False
    then show ?thesis using m assms(2) by (cases "policy_tokens env model body") (auto simp: cache_aware_select_def)
  next
    case True
    then obtain tokens where t: "policy_tokens env model body = Some tokens" by auto
    then have ne: "tokens \<noteq> []" by (auto simp: policy_tokens_def tokenize_def split: option.splits if_splits)
    obtain r u where r: "policy_matched env ord now pol tokens = (Ok (r, u) :: ('e, kv_event_worker set option \<times> tree_state) outcome)"
        "{v \<in> set workers. rw_url v \<in> (\<Union>hs\<in>set_option r. ew_url ` hs)} = cache_holders env pol workers tokens"
      by (rule policy_matched_spec [OF assms(1) ne, of env ord now]) blast
    show ?thesis
    proof (cases "cache_holders env pol workers tokens = {}")
      case True
      then have "r = None \<or> (\<exists>hs. r = Some hs \<and> filter (\<lambda>w. rw_url w \<in> ew_url ` hs) workers = [])"
        using r(2) by (cases r) (auto simp: filter_empty_conv)
      then show ?thesis using m assms(2) r(1) t True \<open>\<not> _ \<and> _\<close> by (auto simp: cache_aware_select_def)
    next
      case False
      then obtain hs where hs: "r = Some hs" "set (filter (\<lambda>w. rw_url w \<in> ew_url ` hs) workers) = cache_holders env pol workers tokens"
        using r(2) by (cases r) auto
      then obtain w where w: "min_by_key rw_active_requests (filter (\<lambda>w. rw_url w \<in> ew_url ` hs) workers) = Some w"
        using False by (metis min_by_key_None not_Some_eq set_empty)
      show ?thesis using assms(2) r(1) t w hs False \<open>\<not> _ \<and> _\<close> min_by_key_Some [OF w] by (auto simp: cache_aware_select_def)
    qed
  qed
qed

definition sample_router_worker :: "string \<Rightarrow> usize \<Rightarrow> router_worker" where
  "sample_router_worker url load =
     (with_cb_config_and_kv_cache_layout Some (sample_spec url ModePlain) None None)\<lparr>rw_active_requests := load\<rparr>"

definition sample_env :: policy_env where
  "sample_env = \<lparr> env_sha256 = (\<lambda>_. [1, 2, 3, 4, 5, 6, 7, 8]), env_from_slice = (\<lambda>_. Some (JObject [(''text'', JString ''hi'')])),
     env_tokenizers = (\<lambda>_. Some (\<lambda>s. Some [7])), env_scaled = (\<lambda>n. n), env_rate_le = (\<lambda>m n. 2 * m \<le> n) \<rparr>"

definition sample_policy :: cache_aware_policy where
  "sample_policy = \<lparr> pol_balance_abs_threshold = 32,
     pol_tree = tree_insert id 1 \<lparr>ew_url = ''b'', ew_dp_rank = 0\<rparr> None [i64_from_be_bytes [1, 2, 3, 4, 5, 6, 7, 8]] (tree_new 0),
     pol_block_size_oracle = 16 \<rparr>"

theorem cache_aware_select_spec_witness:
  fixes ws :: "router_worker list"
  defines "ws \<equiv> [sample_router_worker ''a'' 0, sample_router_worker ''b'' 5]"
  shows "tree_ok (pol_tree sample_policy) \<and> ws \<noteq> [] \<and> policy_tokens sample_env ''m'' (Some [1]) = Some [7] \<and>
    (\<exists>w t. cache_aware_select sample_env id 3 sample_policy ws ''m'' (Some [1]) = (Ok (Some w, t) :: (unit, _) outcome) \<and> w \<in> set ws)"
proof -
  have "tree_ok (tree_apply (OpInsert id 1 \<lparr>ew_url = ''b'', ew_dp_rank = 0\<rparr> None [i64_from_be_bytes [1, 2, 3, 4, 5, 6, 7, 8]]) (tree_new 0))"
    by (rule tree_apply_ok [OF tree_ok_new]) (simp add: op_ok_def hash_order_examples)
  then have t: "tree_ok (pol_tree sample_policy)" by (simp add: sample_policy_def)
  have w: "ws \<noteq> []" by (simp add: ws_def)
  have p: "policy_tokens sample_env ''m'' (Some [1]) = Some [7]"
    by (simp add: policy_tokens_def sample_env_def extract_prompt_text_def tokenize_def)
  show ?thesis
    using t w p cache_aware_select_spec [OF t w, of sample_env id 3 "''m''" "Some [1]", where 'e = unit] by auto
qed

end
