(* ===== verification/Spec2Isabelle.thy ===== *)
theory Spec2Isabelle
  imports Sched_Isolation Pd_Protocol Tensor_Partition Moe_Comm Block_Index Kv_Layout Recurrent_State Parallel_Topology Pp_Pipeline Dp_Protocol Active_Load Router_Select
begin

text \<open>
  A verification library for the runtime and the router of \<open>sglang-rs\<close>, the Rust implementation of the SGLang
  inference server.  The paths below are relative to \<open>src/crates/sglang-srt/src\<close>; those of the router, marked so, are
  relative to \<open>src/crates/sglang-router/src\<close>.

  \<^bold>\<open>The program.\<close>  Requests arrive over HTTP or gRPC, are tokenised and put into the waiting queue of
  a \<^emph>\<open>scheduler\<close> (\<open>scheduler.rs\<close>).  The scheduler forms batches: prefill batches, which run chunks of
  prompts, decode batches, which extend running sequences by a token, and mixed batches.  Each token of a
  sequence needs a slot of the KV cache; slots come in pages from the \<^emph>\<open>page allocator\<close> (\<open>cache.rs\<close>).
  Pages of prompts can be shared through the \<^emph>\<open>radix prefix cache\<close> (\<open>cache.rs\<close>) and are announced to routers
  as \<^emph>\<open>block events\<close> (\<open>transfer/state_events.rs\<close>) under chained \<^emph>\<open>block hashes\<close> (\<open>cache.rs\<close>); routers
  keep a \<^emph>\<open>block index\<close> per worker and send a request where most of its prompt is cached (\<open>cache.rs\<close>).
  A batch is executed by a \<^emph>\<open>worker\<close> (\<open>worker.rs\<close>), which addresses the bytes of a slot through the
  \<^emph>\<open>paged KV layout\<close> (\<open>kv_cache.rs\<close>) and keeps \<^emph>\<open>recurrent states\<close> of hybrid models in a slot pool
  (\<open>recurrent_state.rs\<close>).  Large models are spread over ranks by a \<^emph>\<open>parallel topology\<close>
  (\<open>distributed/parallel_topology.rs\<close>) and over \<^emph>\<open>pipeline stages\<close> (\<open>distributed/pp_pipeline.rs\<close>); each tensor
  parallel rank reads its part of the \<^emph>\<open>weight files\<close> (\<open>model_artifacts.rs\<close>, \<open>distributed/tensor_partition.rs\<close>), and ranks that hold different experts
  exchange tokens (\<open>distributed/moe_a2a.rs\<close>).  With
  data parallelism one \<^emph>\<open>scheduler drives a pool of workers\<close>, each on its thread (\<open>distributed/dp_scheduler.rs\<close>,
  \<open>distributed/dp_worker_pool.rs\<close>).

  Prefill and decode can run on different servers (\<open>transfer/\<close>).  A decode server reserves pages, registers the room of the
  request in its \<^emph>\<open>control inbox\<close> (\<open>pd_control.rs\<close>) and publishes where the pages are to the \<^emph>\<open>bootstrap service\<close> of the prefill
  server (\<open>pd_bootstrap.rs\<close>).  The prefill server runs the prompt as a \<^emph>\<open>flattened batch\<close> (\<open>model_executor.rs\<close>), turns it into a
  \<^emph>\<open>transfer plan\<close> of spans, and its \<^emph>\<open>transfer executor\<close> (\<open>mod.rs\<close>) writes the pages into the memory of the decode server; a
  \<^emph>\<open>model worker\<close> wraps all this as the worker of the scheduler and keeps a session per room.  Completion, error or the
  acknowledgement of an abort goes back to the inbox, which decides when the decode server may use or reuse the pages.

  In front of several servers stands the \<^emph>\<open>router\<close>.  Discovery events fill its \<^emph>\<open>worker registry\<close>
  (\<open>workers/registry.rs\<close>), from which the \<^emph>\<open>pools\<close> of prefill and decode workers are taken (\<open>policies/registry.rs\<close>).  For
  every worker it subscribes to the block events; a \<^emph>\<open>pump\<close> applies them to the \<^emph>\<open>tree of block hashes\<close>
  (\<open>policies/kv_events/index.rs\<close>, \<open>tree.rs\<close>).  A request goes to the worker that the \<^emph>\<open>selection policy\<close> chooses from tree and
  loads (\<open>policies/cache_aware_zmq.rs\<close>), is counted in the \<^emph>\<open>active load registry\<close> (\<open>policies/active_load.rs\<close>) and passes the
  \<^emph>\<open>circuit breaker\<close> of its worker (\<open>health/circuit_breaker.rs\<close>).

  \<^bold>\<open>Conventions.\<close>  A call that can fail returns an \<open>outcome\<close> (theory \<open>Sgl_Prelude\<close>): \<open>Ok\<close>, \<open>Err\<close> or
  \<open>Panic\<close>, so every \<open>?\<close>, early return and panic of the code is a branch.  Mutable objects are records passed
  in and returned.  \<open>usize\<close> is \<open>nat\<close>: sums that are bounded by the length of a vector or the size of the
  cache cannot overflow and are plain; where the code multiplies with \<open>checked_mul\<close>, or where an unchecked
  product can wrap, the bound \<open>2 ^ 64\<close> is written out.  Fixed width integers with bit operations (\<open>u8\<close>,
  \<open>u32\<close>, \<open>u64\<close> of the wire formats) are words.  Floats are their bit patterns.  A hash map is an
  association list, a \<open>BTreeSet\<close> a set; where the code iterates over a hash table, the order is an arbitrary permutation,
  an argument of the definition.  The time a call reads from the clock is an argument too.  Loops are structural recursions over
  the queue, the slots or the bytes they consume, or have a measure (the nodes left in a tree, the tokens left
  of a prompt); the one loop with a bound of its own, in \<open>evict_lru\<close>, is proved to reach its goal within the bound.  Where threads
  interleave, each critical section or atomic operation is one step of a relation, or the call takes the messages that arrive
  between its critical sections as an argument and every theorem holds for all of them.  A \<open>BTreeMap\<close> is a sorted association list
  (theory \<open>Ordered_Map\<close>).  A loop that waits for the outside world is a \<open>partial_function\<close> into \<open>option\<close>, \<open>None\<close> meaning that it does not
  return, or a recursion over the states it sees before its deadline.

  \<^bold>\<open>Theories.\<close>
  \<^item> \<open>Sgl_Prelude\<close>: outcomes, checked arithmetic, decimal printing, list lemmas.
  \<^item> \<open>Page_Allocator\<close>: \<open>CachePageAllocator\<close>.  Invariant \<open>alloc_inv\<close> (free and allocated pages partition the
    pages), fresh slots on allocation, release as the inverse of allocation.
  \<^item> \<open>Radix_Cache\<close>: \<open>RadixCache\<close>, equal to a longest prefix search; insert followed by match.
  \<^item> \<open>Block_Hash\<close>: \<open>compute_sglang_block_hashes\<close> over a digest parameter; the chain is incremental.
  \<^item> \<open>State_Events\<close>: \<open>BlockStoredEvent\<close> and the publishers; events of consecutive chunks chain up.
  \<^item> \<open>Sched_Types\<close>: requests, batches, errors, the worker interface as a record of functions.
  \<^item> \<open>Scheduler\<close> and \<open>Sched_Dispatch\<close>: the operations of \<open>scheduler.rs\<close> in its order, from \<open>enqueue\<close> to
    \<open>poll_transfers\<close>.
  \<^item> \<open>Sched_Batch\<close>: functional specifications of the three kinds of batch formation.
  \<^item> \<open>Page_Ownership\<close>, \<open>Sched_Ownership\<close>, \<open>Sched_Isolation\<close>: which request owns which page.  Every
    operation is a step of the relation \<open>sched_step\<close>; in all states reachable from a fresh scheduler no two
    requests share a slot, no operation panics and, with a reliable worker, no page is lost.
  \<^item> \<open>Block_Index\<close>: \<open>KvBlockPrefixIndex\<close> and the cache aware choice of a worker; the index refines a map
    from block chains to sets of workers.
  \<^item> \<open>Kv_Layout\<close>: \<open>PagedKvCacheLayout\<close>; byte ranges stay inside the storage and never overlap, and the
    geometry given to the kernels addresses the same bytes.
  \<^item> \<open>Le_Bytes\<close>, \<open>Recurrent_State\<close>: \<open>RecurrentStateSlots\<close> and the payload format with both round trips.
  \<^item> \<open>Parallel_Topology\<close>: \<open>Parallel4DTopology\<close>; coordinates determine the rank, groups and neighbours.
  \<^item> \<open>Pp_Pipeline\<close>: layers per stage and the channels between stages, for every interleaving.
  \<^item> \<open>Dp_Worker_Pool\<close>, \<open>Dp_Scheduler\<close>, \<open>Dp_Protocol\<close>: the worker pool with its threads and channels, the scheduler above
    it, and their interplay: batches in flight are always registered and steps fail only with errors of workers; what a batch
    for a rank contains; a deadlock on fully cached prompts, and pages freed under the prefix cache.
  \<^item> \<open>Kv_Event_Tree\<close>: \<open>TreeState\<close> and \<open>HashTree\<close> of the router; \<open>Kv_Tree_Inv\<close>: its invariant, through creation and pruning of
    nodes; \<open>Kv_Tree_Ops\<close>: all operations keep it; \<open>Kv_Tree_Evict\<close>: eviction; \<open>Kv_Tree_Refine\<close>: the tree as a relation between
    chains and workers, and the theorems.
  \<^item> \<open>Kv_Event_Index\<close>: the pump against \<open>add_worker\<close> and \<open>remove_worker\<close>; lookups return attached workers unless a removal overtakes
    a batch, and the run in which it does.
  \<^item> \<open>Circuit_Breaker\<close>: \<open>CircuitBreaker\<close>; when it opens, and that it admits one probe at a time.
  \<^item> \<open>Active_Load\<close>: \<open>ActiveLoadRegistry\<close> with its guards and janitor; the counters are exact in every interleaving.
  \<^item> \<open>Router_Workers\<close>: \<open>Worker\<close>, \<open>WorkerRegistry\<close>, \<open>PdPoolResolver\<close> and the events of the manager; pools are never mixed by adding and
    removing, and the choice of a decode peer.
  \<^item> \<open>Router_Select\<close>: \<open>compute_block_hashes\<close>, equal to the hashes of the runtime, and the policies; the cache aware choice
    over tree, hashes and loads together.

  \<^item> \<open>Safetensors\<close>: weight files (\<open>model_artifacts.rs\<close>): header, spans, reading and checksum; a span that a header gives can be read and
    holds the tensor.
  \<^item> \<open>Tensor_Partition\<close>: tensor parallel ranks, partitions and plans (\<open>distributed/parallel.rs\<close>, \<open>transformer_parallel.rs\<close>,
    \<open>tensor_partition.rs\<close>); the parts all ranks read are together the tensor, and query heads find their key and value heads on their rank.
  \<^item> \<open>Moe_Comm\<close>: the exchange between expert parallel ranks (\<open>distributed/moe_a2a.rs\<close>) as interleaved steps; a call receives exactly
    what was addressed to it when dispatch and combine alternate, and a run in which two dispatches mix.
  \<^item> \<open>Ordered_Map\<close>: \<open>BTreeMap\<close> as a sorted association list, with its laws.
  \<^item> \<open>Worker_Batch\<close>, \<open>Sched_Shape\<close>: \<open>ModelWorkerBatch\<close> and its validation; every batch a reachable scheduler forms passes it and
    gives each request its tokens, positions and slots.
  \<^item> \<open>Transfer_Plan\<close>, \<open>Transfer_Requests\<close>: the registry of rooms, spans, their checksum, the plan of a prefill batch and the writes of a
    span, which copy exactly its pages.
  \<^item> \<open>Transfer_Executor\<close>, \<open>Transfer_Safety\<close>: \<open>KvCacheTransferExecutor\<close> over any transport; memory stays registered while transfers use
    it, and cancelling returns when the transport makes progress.
  \<^item> \<open>Transfer_Worker\<close>, \<open>Transfer_Sessions\<close>: \<open>KvTransferModelWorker\<close>; every accepted span is reported once, every event finds its
    session, and a prefill-only worker answers only after its transfers have succeeded.
  \<^item> \<open>Pd_Wire\<close>: the frames of the control protocol, with round trips through text, packed lists and optional fields.
  \<^item> \<open>Pd_Control\<close>: the inbox of the decode server; a token is returned only after a token and a success have arrived, and what the
    prefill server sends is what the receiver gets.
  \<^item> \<open>Pd_Bootstrap\<close>: \<open>PrefillBootstrapState\<close>, the routes, and the handling of a message; its tables stay ordered.
  \<^item> \<open>Pd_Executor\<close>: \<open>PdBootstrapKvCacheTransferExecutor\<close> with messages arriving at any moment; a room whose abort is acknowledged stays
    quiet for ever.
  \<^item> \<open>Pd_Publisher\<close>: \<open>PdDecodeBootstrapPublisher\<close>; the published pages are filled with the bytes of the prefill pages.
  \<^item> \<open>Pd_Protocol\<close>: both sides together: a receive that was cancelled leaves no transfer that could still write.

  \<^bold>\<open>Interfaces.\<close>  The laws one part relies on are locales, interpreted on the model of the part that
  provides them: the page provider and its clients (\<open>Page_Allocator\<close>), the prefix store (\<open>Radix_Cache\<close>), the chain index
  (\<open>Block_Index\<close>), the slot provider (\<open>Recurrent_State\<close>), the chain store that the pump of the router writes to
  (\<open>Kv_Tree_Refine\<close>), and the transfer backend that the model worker drives, interpreted on the executor.

  \<^bold>\<open>Parameters.\<close>  SHA-256 (package \<open>sha2\<close>), the worker that executes a batch, the floating point
  comparisons of the worker selection, url and JSON parsing, tokenizers and random numbers, the transport, registrar and target
  resolver of the transfer executor, the network between prefill and decode servers, the HTTP client, the file system and the arithmetic of floats are arguments of the definitions
  that use them; no theorem assumes more of them than its statement says.

  \<^bold>\<open>Scope of the isolation theorems.\<close>  They are about schedulers without prefix sharing (policy
  \<open>Disabled\<close>); with sharing, pages belong to the radix cache as well, and the batch formation theorems of
  \<open>Sched_Batch\<close> and the ones on \<open>Radix_Cache\<close> apply.

  \<^bold>\<open>Not modelled.\<close>  HTTP, gRPC, the command line, tokenizers, model configurations and weight catalogs, tensor kernels and CUDA, sockets and
  RDMA of the transfer backends, the HTTP parsing of the bootstrap service, and of the router the proxy, the discovery backends, the event sockets and
  the decoding of their messages: I/O, foreign code or floating point.
\<close>

end
